(* ===== verification/Netip.thy ===== *)
theory Netip
  imports Prelude
begin

text \<open>
  The part of Go's \<open>net\<close> and \<open>net/netip\<close> packages that the repository calls: the textual
  parsers, IPv4-in-IPv6 mapping, prefix masks and containment.  An address is its byte
  sequence, four bytes for IPv4 and sixteen for IPv6, because the rule builders hand exactly
  those bytes to the kernel.  No definition here models a file of the repository; they model
  the standard library the sources rely on.
\<close>

section \<open>Addresses\<close>

datatype addr = Addr (abytes: "byte list") (azone: string)

definition Is4 :: "addr \<Rightarrow> bool" where "Is4 a \<longleftrightarrow> length (abytes a) = 4"
definition Is6 :: "addr \<Rightarrow> bool" where "Is6 a \<longleftrightarrow> length (abytes a) = 16"
definition IsValid :: "addr \<Rightarrow> bool" where "IsValid a \<longleftrightarrow> Is4 a \<or> Is6 a"

definition BitLen :: "addr \<Rightarrow> nat" where "BitLen a = 8 * length (abytes a)"

definition v4_in_v6_prefix :: "byte list" where
  "v4_in_v6_prefix = [0, 0, 0, 0, 0, 0, 0, 0, 0, 0, 0xff, 0xff]"

definition Is4In6 :: "addr \<Rightarrow> bool" where
  "Is4In6 a \<longleftrightarrow> Is6 a \<and> take 12 (abytes a) = v4_in_v6_prefix"

definition Unmap :: "addr \<Rightarrow> addr" where
  "Unmap a = (if Is4In6 a then Addr (drop 12 (abytes a)) [] else a)"

definition WithZone :: "addr \<Rightarrow> string \<Rightarrow> addr" where
  "WithZone a z = (if Is6 a then Addr (abytes a) z else a)"

definition As16 :: "addr \<Rightarrow> byte list" where
  "As16 a = (if Is4 a then v4_in_v6_prefix @ abytes a else abytes a)"

text \<open>\<open>net.IP.To4\<close> on a 4- or 16-byte slice.\<close>

definition to4 :: "byte list \<Rightarrow> byte list option" where
  "to4 b = (if length b = 4 then Some b
            else if length b = 16 \<and> take 12 b = v4_in_v6_prefix then Some (drop 12 b) else None)"

definition IsLoopback :: "addr \<Rightarrow> bool" where
  "IsLoopback a =
     (let u = Unmap a in
      if Is4 u then hd (abytes u) = 127
      else if Is6 u then abytes u = replicate 15 0 @ [1] else False)"

section \<open>Parsing\<close>

fun ipv4_fields :: "char option \<Rightarrow> nat \<Rightarrow> nat \<Rightarrow> byte list \<Rightarrow> string \<Rightarrow> byte list option" where
  "ipv4_fields prev v n fs [] = (if length fs < 3 then None else Some (fs @ [of_nat v]))"
| "ipv4_fields prev v n fs (c # cs) =
     (if is_digit c then
        (if n = 1 \<and> v = 0 then None
         else if v * 10 + digit_val c > 255 then None
         else ipv4_fields (Some c) (v * 10 + digit_val c) (n + 1) fs cs)
      else if c = CHR ''.'' then
        (if prev = None \<or> cs = [] \<or> prev = Some (CHR ''.'') then None
         else if length fs = 3 then None
         else ipv4_fields (Some c) 0 0 (fs @ [of_nat v]) cs)
      else None)"

definition parse_ipv4 :: "string \<Rightarrow> byte list option" where
  "parse_ipv4 s = ipv4_fields None 0 0 [] s"

definition hex_val :: "char \<Rightarrow> nat option" where
  "hex_val c =
     (let n = (of_char c :: nat) in
      if 48 \<le> n \<and> n \<le> 57 then Some (n - 48)
      else if 97 \<le> n \<and> n \<le> 102 then Some (n - 87)
      else if 65 \<le> n \<and> n \<le> 70 then Some (n - 55) else None)"

definition hex_acc :: "string \<Rightarrow> nat" where
  "hex_acc s = foldl (\<lambda>a c. a * 16 + the (hex_val c)) 0 s"

text \<open>
  The loop of \<open>parseIPv6\<close>: at most eight groups (the fuel counts the groups the address still
  has room for), the bytes so far, the position of the ellipsis, the rest of the text.
\<close>

fun ipv6_groups ::
  "nat \<Rightarrow> byte list \<Rightarrow> nat option \<Rightarrow> string \<Rightarrow> (byte list \<times> nat option \<times> string) option" where
  "ipv6_groups 0 bs ell s = Some (bs, ell, s)"
| "ipv6_groups (Suc k) bs ell s =
     (let ds = takeWhile (\<lambda>c. hex_val c \<noteq> None) s; rest = dropWhile (\<lambda>c. hex_val c \<noteq> None) s in
      if length ds > 4 \<or> ds = [] then None
      else if rest \<noteq> [] \<and> hd rest = CHR ''.'' then
        (if ell = None \<and> length bs \<noteq> 12 then None
         else if length bs + 4 > 16 then None
         else (case parse_ipv4 s of None \<Rightarrow> None | Some f \<Rightarrow> Some (bs @ f, ell, [])))
      else
        let bs' = bs @ [of_nat (hex_acc ds div 256), of_nat (hex_acc ds)] in
        if rest = [] then Some (bs', ell, [])
        else if hd rest \<noteq> CHR '':'' \<or> length rest = 1 then None
        else
          let s1 = tl rest in
          if hd s1 = CHR '':'' then
            (if ell \<noteq> None then None
             else if tl s1 = [] then Some (bs', Some (length bs'), [])
             else ipv6_groups k bs' (Some (length bs')) (tl s1))
          else ipv6_groups k bs' ell s1)"

definition ipv6_expand :: "byte list \<Rightarrow> nat option \<Rightarrow> byte list option" where
  "ipv6_expand bs ell =
     (if length bs < 16 then
        (case ell of None \<Rightarrow> None
         | Some e \<Rightarrow> Some (take e bs @ replicate (16 - length bs) 0 @ drop e bs))
      else if ell \<noteq> None then None else Some bs)"

definition parse_ipv6 :: "string \<Rightarrow> addr option" where
  "parse_ipv6 inp =
     (let (s, zone, has_zone) = cut_char (CHR ''%'') inp in
      if has_zone \<and> zone = [] then None
      else
        let lead = has_prefix s ''::''; s0 = (if lead then drop 2 s else s);
            ell0 = (if lead then Some 0 else None) in
        if lead \<and> s0 = [] then Some (Addr (replicate 16 0) zone)
        else
          (case ipv6_groups 8 [] ell0 s0 of
             None \<Rightarrow> None
           | Some (bs, ell, rest) \<Rightarrow>
               if rest \<noteq> [] then None
               else map_option (\<lambda>b. Addr b zone) (ipv6_expand bs ell)))"

text \<open>\<open>netip.ParseAddr\<close>: the first separator decides the family.\<close>

definition ParseAddr :: "string \<Rightarrow> addr option" where
  "ParseAddr s =
     (case find (\<lambda>c. c = CHR ''.'' \<or> c = CHR '':'' \<or> c = CHR ''%'') s of
        None \<Rightarrow> None
      | Some c \<Rightarrow>
          if c = CHR ''.'' then map_option (\<lambda>b. Addr b []) (parse_ipv4 s)
          else if c = CHR '':'' then parse_ipv6 s else None)"

text \<open>\<open>net.ParseIP\<close>: the 16-byte form, no zone allowed.\<close>

definition ParseIP :: "string \<Rightarrow> byte list option" where
  "ParseIP s = (case ParseAddr s of None \<Rightarrow> None
                | Some a \<Rightarrow> if azone a \<noteq> [] then None else Some (As16 a))"

section \<open>Prefixes\<close>

text \<open>\<open>net.CIDRMask(ones, 8 * n)\<close> as bytes.\<close>

fun cidr_mask :: "nat \<Rightarrow> nat \<Rightarrow> byte list" where
  "cidr_mask ones 0 = []"
| "cidr_mask ones (Suc n) =
     (if ones \<ge> 8 then 0xff # cidr_mask (ones - 8) n
      else NOT (drop_bit ones 0xff) # cidr_mask 0 n)"

definition and_bytes :: "byte list \<Rightarrow> byte list \<Rightarrow> byte list" where
  "and_bytes m b = map2 (AND) b m"

datatype pfx = Prefix (paddr: addr) (pbits: nat)

definition Masked :: "pfx \<Rightarrow> pfx" where
  "Masked p =
     Prefix (Addr (and_bytes (cidr_mask (pbits p) (length (abytes (paddr p)))) (abytes (paddr p))) [])
       (pbits p)"

definition Contains :: "pfx \<Rightarrow> addr \<Rightarrow> bool" where
  "Contains p a \<longleftrightarrow>
     IsValid a \<and> azone a = [] \<and> length (abytes a) = length (abytes (paddr p)) \<and>
     and_bytes (cidr_mask (pbits p) (length (abytes a))) (abytes a) =
     and_bytes (cidr_mask (pbits p) (length (abytes a))) (abytes (paddr p))"

text \<open>
  \<open>net.ParseCIDR\<close>: the masked network address, four bytes for an IPv4 entry and sixteen for
  any other, and the prefix length.  The mask is \<open>CIDRMask\<close> of that length, the only kind the
  parser makes, so the length stands for it.
\<close>

definition dtoi :: "string \<Rightarrow> nat option" where
  "dtoi s = (if s = [] \<or> \<not> list_all is_digit s \<or> int (nat_of_digits s) \<ge> 0xFFFFFF then None
             else Some (nat_of_digits s))"

definition ParseCIDR :: "string \<Rightarrow> (byte list \<times> nat) option" where
  "ParseCIDR s =
     (let (a, m, found) = cut_char (CHR ''/'') s in
      if \<not> found then None
      else (case ParseAddr a of
              None \<Rightarrow> None
            | Some ip \<Rightarrow>
                if azone ip \<noteq> [] then None
                else (case dtoi m of
                        None \<Rightarrow> None
                      | Some n \<Rightarrow>
                          if n > BitLen ip then None
                          else Some (and_bytes (cidr_mask n (length (abytes ip))) (abytes ip), n))))"

section \<open>Lemmas\<close>

lemma length_cidr_mask [simp]: "length (cidr_mask n k) = k"
  by (induction n k rule: cidr_mask.induct) auto

lemma length_and_bytes [simp]: "length (and_bytes m b) = min (length b) (length m)"
  by (simp add: and_bytes_def)

lemma and_bytes_twice [simp]: "and_bytes m (and_bytes m b) = and_bytes m b"
  unfolding and_bytes_def
  by (rule nth_equalityI) (auto simp: and.assoc)

lemma cidr_mask_full: "cidr_mask (8 * k) k = replicate k 0xff"
  by (induction k) auto

lemma and_bytes_full: "length b = k \<Longrightarrow> and_bytes (replicate k 0xff) b = b"
proof -
  assume "length b = k"
  moreover have max_byte: "(0xff :: byte) = - 1" by simp
  have "x AND 0xff = x" for x :: byte unfolding max_byte by simp
  ultimately show ?thesis
    unfolding and_bytes_def by (intro nth_equalityI) auto
qed

lemma ipv4_fields_length: "ipv4_fields p v n fs s = Some b \<Longrightarrow> length fs \<le> 3 \<Longrightarrow> length b = 4"
  by (induction p v n fs s arbitrary: b rule: ipv4_fields.induct) (auto split: if_splits)

lemma parse_ipv4_length: "parse_ipv4 s = Some b \<Longrightarrow> length b = 4"
  using ipv4_fields_length [of None 0 0 "[]" s b] by (simp add: parse_ipv4_def)

lemma ipv6_expand_length:
  "ipv6_expand bs ell = Some b \<Longrightarrow> length bs \<le> 16 \<Longrightarrow> length b = 16"
  by (auto simp: ipv6_expand_def split: if_splits option.splits)

lemma ipv6_groups_length:
  "ipv6_groups k bs ell s = Some (b, e, r) \<Longrightarrow> length bs + 2 * k = 16 \<Longrightarrow> length b \<le> 16"
proof (induction k bs ell s arbitrary: b e r rule: ipv6_groups.induct)
  case (1 bs ell s)
  then show ?case by simp
next
  case (2 k bs ell s)
  then show ?case
    by (auto simp: Let_def split: if_splits option.splits dest: parse_ipv4_length)
qed

lemma parse_ipv6_length: "parse_ipv6 s = Some a \<Longrightarrow> length (abytes a) = 16"
proof -
  assume h: "parse_ipv6 s = Some a"
  obtain s1 z hz where c: "cut_char (CHR ''%'') s = (s1, z, hz)" by (metis prod_cases3)
  show ?thesis
  proof (cases "has_prefix s1 ''::'' \<and> drop 2 s1 = []")
    case True
    with h c show ?thesis by (auto simp: parse_ipv6_def Let_def split: if_splits)
  next
    case False
    with h c obtain bs ell b where
      g: "ipv6_groups 8 [] (if has_prefix s1 ''::'' then Some 0 else None)
            (if has_prefix s1 ''::'' then drop 2 s1 else s1) = Some (bs, ell, [])"
      and e: "ipv6_expand bs ell = Some b" "a = Addr b z"
      by (auto simp: parse_ipv6_def Let_def split: if_splits option.splits prod.splits)
    from ipv6_groups_length [OF g] have "length bs \<le> 16" by simp
    with e show ?thesis by (simp add: ipv6_expand_length)
  qed
qed

lemma ParseAddr_length:
  "ParseAddr s = Some a \<Longrightarrow> length (abytes a) = 4 \<and> azone a = [] \<or> length (abytes a) = 16"
  by (auto simp: ParseAddr_def parse_ipv4_length parse_ipv6_length split: option.splits if_splits)

lemma ParseAddr_valid: "ParseAddr s = Some a \<Longrightarrow> IsValid a"
  using ParseAddr_length by (fastforce simp: IsValid_def Is4_def Is6_def)

end
