(* ===== verification/NetipText.thy ===== *)
theory NetipText
  imports Netip
begin

text \<open>
  The text forms of \<open>net/netip\<close>: \<open>Addr.String\<close>, \<open>Prefix.String\<close> and \<open>ParsePrefix\<close>, and the proof
  that a printed prefix is read back as it was.  Like \<open>Netip\<close>, this models the standard library the
  sources rely on, not a file of the repository.
\<close>

section \<open>Printing and parsing\<close>

definition hex_char :: "nat \<Rightarrow> char" where
  "hex_char n = (if n < 10 then char_of (48 + n) else char_of (87 + n))"

fun hex_digits :: "nat \<Rightarrow> string" where
  "hex_digits n =
     (if n < 16 then [hex_char n] else hex_digits (n div 16) @ [hex_char (n mod 16)])"

declare hex_digits.simps [simp del]

fun u16s :: "byte list \<Rightarrow> nat list" where
  "u16s (a # b # r) = (unat a * 256 + unat b) # u16s r"
| "u16s _ = []"

text \<open>The search for the longest run of at least two zero groups, the first of equal length.\<close>

fun find_zeros :: "nat \<Rightarrow> nat list \<Rightarrow> nat \<times> nat \<Rightarrow> nat \<times> nat" where
  "find_zeros i [] best = best"
| "find_zeros i (g # gs) best =
     (let z = length (takeWhile (\<lambda>x. x = 0) (g # gs)) in
      find_zeros (i + 1) gs (if 2 \<le> z \<and> snd best < z then (i, z) else best))"

definition hex_join :: "nat list \<Rightarrow> string" where
  "hex_join gs = join '':'' (map hex_digits gs)"

definition v6_text :: "nat list \<Rightarrow> string" where
  "v6_text gs =
     (let (st, l) = find_zeros 0 gs (255, 0) in
      if l = 0 then hex_join gs
      else hex_join (take st gs) @ ''::'' @ hex_join (drop (st + l) gs))"

definition dotted :: "byte list \<Rightarrow> string" where
  "dotted bs = join ''.'' (map (\<lambda>b. digits_of (unat b)) bs)"

definition zone_text :: "addr \<Rightarrow> string" where
  "zone_text a = (if azone a = [] then [] else CHR ''%'' # azone a)"

definition addr_string :: "addr \<Rightarrow> string" where
  "addr_string a =
     (if Is4 a then dotted (abytes a)
      else if Is4In6 a then ''::ffff:'' @ dotted (drop 12 (abytes a)) @ zone_text a
      else if Is6 a then v6_text (u16s (abytes a)) @ zone_text a
      else ''invalid IP'')"

definition prefix_string :: "pfx \<Rightarrow> string" where
  "prefix_string p =
     (if \<not> (IsValid (paddr p) \<and> pbits p \<le> BitLen (paddr p)) then ''invalid Prefix''
      else addr_string (paddr p) @ ''/'' @ digits_of (pbits p))"

definition ParsePrefix :: "string \<Rightarrow> pfx option" where
  "ParsePrefix s =
     (let (b, a, found) = cut_char (CHR ''/'') (rev s) in
      if \<not> found then None
      else (case ParseAddr (rev a) of
              None \<Rightarrow> None
            | Some ip \<Rightarrow>
                if azone ip \<noteq> [] then None
                else
                  let bits = rev b in
                  if length bits > 1 \<and> \<not> (is_digit (hd bits) \<and> hd bits \<noteq> CHR ''0'') then None
                  else (case atoi bits of
                          None \<Rightarrow> None
                        | Some n \<Rightarrow> if n < 0 \<or> n > int (BitLen ip) then None
                                   else Some (Prefix ip (nat n)))))"

section \<open>Decimal numbers\<close>

lemma digit_char: "n < 10 \<Longrightarrow> is_digit (char_of (48 + n)) \<and> digit_val (char_of (48 + n)) = n"
  by (simp add: is_digit_def digit_val_def of_char_of)

lemma digits_of_digits: "list_all is_digit (digits_of n)"
proof (induction n rule: digits_of.induct)
  case (1 n)
  then show ?case
    using digit_char [of n] digit_char [of "n mod 10"] by (subst digits_of.simps) auto
qed

lemma digits_of_nonempty [simp]: "digits_of n \<noteq> []"
  by (subst digits_of.simps) auto

lemma nat_of_digits_snoc: "nat_of_digits (s @ [c]) = nat_of_digits s * 10 + digit_val c"
  by (simp add: nat_of_digits_def)

lemma nat_of_digits_of [simp]: "nat_of_digits (digits_of n) = n"
proof (induction n rule: digits_of.induct)
  case (1 n)
  show ?case
  proof (cases "n < 10")
    case True
    then show ?thesis
      using digit_char [of n] by (subst digits_of.simps) (simp add: nat_of_digits_def)
  next
    case False
    then show ?thesis
      using 1 digit_char [of "n mod 10"] by (subst digits_of.simps) (simp add: nat_of_digits_snoc)
  qed
qed

lemma digits_of_head: "10 \<le> n \<Longrightarrow> hd (digits_of n) \<noteq> CHR ''0''"
proof (induction n rule: digits_of.induct)
  case (1 n)
  show ?case
  proof (cases "n div 10 < 10")
    case True
    moreover have "digits_of (n div 10) = [char_of (48 + n div 10)]"
      using True by (subst digits_of.simps) simp
    moreover have "char_of (48 + n div 10) \<noteq> CHR ''0''"
    proof
      assume "char_of (48 + n div 10) = CHR ''0''"
      then have "n div 10 = digit_val (CHR ''0'')" using True digit_char [of "n div 10"] by simp
      then show False using 1(2) by (simp add: digit_val_def div_eq_0_iff)
    qed
    ultimately show ?thesis using 1(2) by (subst digits_of.simps) simp
  next
    case False
    then show ?thesis using 1 by (subst digits_of.simps) simp
  qed
qed

lemma digits_of_short: "n < 10 \<Longrightarrow> length (digits_of n) = 1"
  by (subst digits_of.simps) simp

lemma digits_of_length: "n < 10 ^ Suc k \<Longrightarrow> length (digits_of n) \<le> Suc k"
proof (induction k arbitrary: n)
  case (Suc k)
  show ?case
  proof (cases "n < 10")
    case False
    have "n div 10 < 10 ^ Suc k" using Suc(2) by (simp add: less_mult_imp_div_less)
    with Suc(1) False show ?thesis by (subst digits_of.simps) simp
  qed (subst digits_of.simps, simp)
qed (subst digits_of.simps, simp)

lemma atoi_digits: "n < 2 ^ 63 \<Longrightarrow> atoi (digits_of n) = Some (int n)"
proof -
  assume n: "n < 2 ^ 63"
  obtain c cs where d: "digits_of n = c # cs" by (cases "digits_of n") auto
  have "is_digit c" using digits_of_digits [of n] d by simp
  then have "c \<noteq> CHR ''-''" "c \<noteq> CHR ''+''" by (auto simp: is_digit_def)
  moreover have "int n < 2 ^ 63" using n by (metis of_nat_less_iff of_nat_numeral of_nat_power)
  ultimately show ?thesis
    using d digits_of_digits [of n] nat_of_digits_of [of n] by (simp add: atoi_def)
qed

section \<open>IPv4\<close>

lemma foldl_digits:
  "foldl (\<lambda>a c. a * k + f c) v cs = v * k ^ length cs + foldl (\<lambda>a c. a * k + f c) (0 :: nat) cs"
proof (induction cs arbitrary: v)
  case (Cons d cs)
  have "foldl (\<lambda>a c. a * k + f c) v (d # cs) =
      (v * k + f d) * k ^ length cs + foldl (\<lambda>a c. a * k + f c) 0 cs"
    using Cons [of "v * k + f d"] by (simp only: foldl_Cons)
  moreover have "foldl (\<lambda>a c. a * k + f c) 0 (d # cs) =
      f d * k ^ length cs + foldl (\<lambda>a c. a * k + f c) 0 cs"
    using Cons [of "f d"] by (simp only: foldl_Cons mult_zero_left add_0_left)
  ultimately show ?case by (simp only: length_Cons power_Suc distrib_right mult.assoc add.assoc)
qed (simp only: foldl_Nil length_0_conv list.size power_0 mult_1_right add_0_right)

lemma nat_of_digits_Cons: "nat_of_digits (c # cs) = digit_val c * 10 ^ length cs + nat_of_digits cs"
  using foldl_digits [of 10 digit_val "digit_val c" cs] by (simp add: nat_of_digits_def)

text \<open>The parser reads a number without leading zeros up to the next separator.\<close>

lemma ipv4_digits:
  assumes "list_all is_digit ds" "ds \<noteq> []" "v * 10 ^ length ds + nat_of_digits ds < 256"
    "n = 0 \<and> v = 0 \<and> (length ds > 1 \<longrightarrow> hd ds \<noteq> CHR ''0'') \<or> 0 < v"
  shows "ipv4_fields prev v n fs (ds @ rest) =
    ipv4_fields (Some (last ds)) (v * 10 ^ length ds + nat_of_digits ds) (n + length ds) fs rest"
  using assms
proof (induction ds arbitrary: v n prev)
  case (Cons c cs)
  let ?v = "v * 10 + digit_val c"
  have total: "?v * 10 ^ length cs + nat_of_digits cs < 256"
    using Cons.prems(3) by (simp add: nat_of_digits_Cons algebra_simps)
  have small: "?v < 256"
  proof -
    have "?v * 1 \<le> ?v * 10 ^ length cs" by (rule mult_le_mono2) simp
    also have "\<dots> \<le> ?v * 10 ^ length cs + nat_of_digits cs" by (rule le_add1)
    also note total
    finally show ?thesis by (simp only: mult_1_right)
  qed
  have one: "ipv4_fields prev v n fs ((c # cs) @ rest) = ipv4_fields (Some c) ?v (n + 1) fs (cs @ rest)"
    using Cons.prems(1,4) small by auto
  show ?case
  proof (cases "cs = []")
    case True
    then show ?thesis using one by (simp add: nat_of_digits_def)
  next
    case False
    have "digit_val c \<noteq> 0" if "c \<noteq> CHR ''0''"
    proof
      assume "digit_val c = 0"
      then have "(of_char c :: nat) = of_char (CHR ''0'')"
        using Cons.prems(1) by (simp add: digit_val_def is_digit_def)
      then show False using that by (metis char_of_char)
    qed
    then have "0 < ?v" using Cons.prems(4) False by (cases cs) auto
    then show ?thesis
      using Cons.IH [of ?v "n + 1" "Some c"] Cons.prems(1) False total one
      by (simp add: nat_of_digits_Cons algebra_simps)
  qed
qed simp

lemma ipv4_byte:
  "ipv4_fields prev 0 0 fs (digits_of (unat (b :: byte)) @ rest) =
   ipv4_fields (Some (last (digits_of (unat b)))) (unat b) (length (digits_of (unat b))) fs rest"
proof -
  have "hd (digits_of (unat b)) \<noteq> CHR ''0''" if "1 < length (digits_of (unat b))"
    using that digits_of_short [of "unat b"] digits_of_head [of "unat b"] by linarith
  moreover have "unat b < 256" using unsigned_less [of b] by simp
  ultimately show ?thesis
    using ipv4_digits [OF digits_of_digits [of "unat b"], of 0 0 prev fs rest] by simp
qed

lemma digit_not_dot: "is_digit c \<Longrightarrow> c \<noteq> CHR ''.''"
  by (auto simp: is_digit_def)

lemma last_digit: "is_digit (last (digits_of n))"
  using digits_of_digits [of n] by (simp add: list_all_iff)

lemma ipv4_dot:
  "ipv4_fields (Some (last (digits_of n))) v k fs (CHR ''.'' # digits_of m @ rest) =
   (if length fs = 3 then None
    else ipv4_fields (Some (CHR ''.'')) 0 0 (fs @ [of_nat v]) (digits_of m @ rest))"
  using digit_not_dot [OF last_digit [of n]] by (simp add: is_digit_def)

lemma ipv4_dotted:
  assumes "length bs = 4"
  shows "parse_ipv4 (dotted bs) = Some bs"
proof -
  obtain a b c d where bs: "bs = [a, b, c, d]"
    using assms by (auto simp: numeral_eq_Suc length_Suc_conv)
  have "parse_ipv4 (dotted bs) = ipv4_fields None 0 0 [] (digits_of (unat a) @
      CHR ''.'' # digits_of (unat b) @ CHR ''.'' # digits_of (unat c) @ CHR ''.'' # digits_of (unat d) @ [])"
    by (simp add: parse_ipv4_def dotted_def bs)
  also have "\<dots> = Some bs"
    by (simp only: ipv4_byte ipv4_dot) (simp add: bs)
  finally show ?thesis .
qed

section \<open>IPv6\<close>

lemma hex_char_val: "n < 16 \<Longrightarrow> hex_val (hex_char n) = Some n"
  by (simp add: hex_val_def hex_char_def of_char_of)

lemma hex_digits_hex: "list_all (\<lambda>c. hex_val c \<noteq> None) (hex_digits n)"
proof (induction n rule: hex_digits.induct)
  case (1 n)
  then show ?case
    using hex_char_val [of n] hex_char_val [of "n mod 16"] by (subst hex_digits.simps) auto
qed

lemma hex_digits_nonempty [simp]: "hex_digits n \<noteq> []"
  by (subst hex_digits.simps) auto

lemma hex_acc_digits [simp]: "hex_acc (hex_digits n) = n"
proof (induction n rule: hex_digits.induct)
  case (1 n)
  show ?case
  proof (cases "n < 16")
    case True
    then show ?thesis using hex_char_val [of n] by (subst hex_digits.simps) (simp add: hex_acc_def)
  next
    case False
    then show ?thesis
      using 1 hex_char_val [of "n mod 16"] by (subst hex_digits.simps) (simp add: hex_acc_def)
  qed
qed

lemma hex_digits_length: "n < 16 ^ Suc k \<Longrightarrow> length (hex_digits n) \<le> Suc k"
proof (induction k arbitrary: n)
  case (Suc k)
  show ?case
  proof (cases "n < 16")
    case False
    have "n div 16 < 16 ^ Suc k" using Suc(2) by (simp add: less_mult_imp_div_less)
    with Suc(1) False show ?thesis by (subst hex_digits.simps) simp
  qed (subst hex_digits.simps, simp)
qed (subst hex_digits.simps, simp)

lemma hex_digits_span:
  assumes "rest = [] \<or> hex_val (hd rest) = None"
  shows "takeWhile (\<lambda>c. hex_val c \<noteq> None) (hex_digits n @ rest) = hex_digits n"
    "dropWhile (\<lambda>c. hex_val c \<noteq> None) (hex_digits n @ rest) = rest"
  using assms hex_digits_hex [of n]
  by (cases rest; simp add: list_all_iff takeWhile_append dropWhile_append)+

definition group_bytes :: "nat \<Rightarrow> byte list" where
  "group_bytes g = [of_nat (g div 256), of_nat g]"

definition groups_bytes :: "nat list \<Rightarrow> byte list" where
  "groups_bytes gs = concat (map group_bytes gs)"

lemma length_groups_bytes [simp]: "length (groups_bytes gs) = 2 * length gs"
  by (induction gs) (simp_all add: groups_bytes_def group_bytes_def)

lemma groups_bytes_simps [simp]:
  "groups_bytes [] = []" "groups_bytes (g # gs) = group_bytes g @ groups_bytes gs"
  "groups_bytes (gs @ hs) = groups_bytes gs @ groups_bytes hs"
  by (simp_all add: groups_bytes_def)

lemma u16s_bytes: "length bs = 2 * n \<Longrightarrow> groups_bytes (u16s bs) = bs"
proof (induction bs arbitrary: n rule: u16s.induct)
  case (1 a b r)
  have "unat b < 256" using unsigned_less [of b] by simp
  moreover have "(256 :: byte) = 0" by simp
  then have "a * 256 = 0" by (metis mult_zero_right)
  ultimately have "of_nat ((unat a * 256 + unat b) div 256) = a" "of_nat (unat a * 256 + unat b) = b"
    by simp_all
  with 1 show ?case by (cases n) (simp_all add: group_bytes_def)
qed (auto simp: groups_bytes_def)

text \<open>One group and what follows it.\<close>

lemma hex_digits_group: "g < 65536 \<Longrightarrow> length (hex_digits g) \<le> 4"
  using hex_digits_length [of g 3] by simp

lemma colon_not_hex: "hex_val (CHR '':'') = None"
  by (simp add: hex_val_def)

lemma hex_not_colon: "hd (hex_digits n @ rest) \<noteq> CHR '':''"
  using hex_digits_hex [of n] colon_not_hex by (cases "hex_digits n") auto

lemma ipv6_last_group:
  assumes "g < 65536"
  shows "ipv6_groups (Suc k) bs ell (hex_digits g) = Some (bs @ group_bytes g, ell, [])"
  using hex_digits_span [of "[]" g] hex_digits_group [OF assms]
  by (simp add: group_bytes_def Let_def del: takeWhile_eq_all_conv)

lemma ipv6_colon_group:
  assumes "g < 65536" "rest \<noteq> []" "hd rest \<noteq> CHR '':''"
  shows "ipv6_groups (Suc k) bs ell (hex_digits g @ CHR '':'' # rest) =
     ipv6_groups k (bs @ group_bytes g) ell rest"
  using hex_digits_span [of "CHR '':'' # rest" g] hex_digits_group [OF assms(1)] assms(2,3)
  by (simp add: group_bytes_def Let_def colon_not_hex)

lemma ipv6_ellipsis_group:
  assumes "g < 65536"
  shows "ipv6_groups (Suc k) bs None (hex_digits g @ ''::'' @ rest) =
     (if rest = [] then Some (bs @ group_bytes g, Some (length bs + 2), [])
      else ipv6_groups k (bs @ group_bytes g) (Some (length bs + 2)) rest)"
  using hex_digits_span [of "''::'' @ rest" g] hex_digits_group [OF assms]
  by (simp add: group_bytes_def Let_def colon_not_hex)

declare ipv6_groups.simps [simp del]

lemma hex_join_Cons:
  "hex_join (g # gs) = hex_digits g @ (if gs = [] then [] else CHR '':'' # hex_join gs)"
  by (cases gs) (simp_all add: hex_join_def)

lemma hex_join_head: "gs \<noteq> [] \<Longrightarrow> hex_join gs \<noteq> [] \<and> hd (hex_join gs @ rest) \<noteq> CHR '':''"
  using hex_not_colon [of "hd gs" "[]"] by (cases gs) (simp_all add: hex_join_Cons)

lemma ipv6_join:
  assumes "gs \<noteq> []" "length gs \<le> k" "list_all (\<lambda>g. g < 65536) gs"
  shows "ipv6_groups k bs ell (hex_join gs) = Some (bs @ groups_bytes gs, ell, [])"
  using assms
proof (induction gs arbitrary: k bs)
  case (Cons g gs)
  then obtain j where k: "k = Suc j" by (cases k) auto
  show ?case
  proof (cases "gs = []")
    case False
    with Cons k hex_join_head [OF False, of "[]"] show ?thesis
      by (simp add: hex_join_Cons ipv6_colon_group)
  qed (use Cons.prems k in \<open>simp add: hex_join_Cons ipv6_last_group\<close>)
qed simp

lemma ipv6_join_ellipsis:
  assumes "gs \<noteq> []" "length gs + length hs \<le> k" "list_all (\<lambda>g. g < 65536) (gs @ hs)"
  shows "ipv6_groups k bs None (hex_join gs @ ''::'' @ hex_join hs) =
    Some (bs @ groups_bytes gs @ groups_bytes hs, Some (length bs + 2 * length gs), [])"
  using assms
proof (induction gs arbitrary: k bs)
  case (Cons g gs)
  then obtain j where k: "k = Suc j" by (cases k) auto
  show ?case
  proof (cases "gs = []")
    case True
    have "hex_join hs = [] \<longleftrightarrow> hs = []" using hex_join_head [of hs "[]"] by (auto simp: hex_join_def)
    with True Cons.prems k show ?thesis
      using ipv6_ellipsis_group [of g j bs "hex_join hs"] ipv6_join [of hs j]
      by (cases hs) (simp_all add: hex_join_Cons [of g] group_bytes_def)
  next
    case False
    have "ipv6_groups k bs None (hex_join (g # gs) @ ''::'' @ hex_join hs) =
        ipv6_groups j (bs @ group_bytes g) None (hex_join gs @ ''::'' @ hex_join hs)"
      using ipv6_colon_group [of g "hex_join gs @ ''::'' @ hex_join hs" j bs None] Cons.prems(3) False
        hex_join_head [OF False, of "[]"] by (simp add: hex_join_Cons [of g] k)
    also have "\<dots> = Some ((bs @ group_bytes g) @ groups_bytes gs @ groups_bytes hs,
        Some (length (bs @ group_bytes g) + 2 * length gs), [])"
      using Cons.prems k False by (intro Cons.IH) simp_all
    finally show ?thesis by (simp add: group_bytes_def)
  qed
qed simp

section \<open>Round trip\<close>

text \<open>The run of zeros found is one, and long enough to be shortened.\<close>

definition zero_run :: "nat list \<Rightarrow> nat \<times> nat \<Rightarrow> bool" where
  "zero_run gs r \<longleftrightarrow>
     snd r = 0 \<or> 2 \<le> snd r \<and> fst r + snd r \<le> length gs \<and> take (snd r) (drop (fst r) gs) = replicate (snd r) 0"

lemma takeWhile_zero: "takeWhile (\<lambda>x. x = 0) gs = replicate (length (takeWhile (\<lambda>x. x = 0) gs)) (0 :: nat)"
  by (induction gs) auto

lemma find_zeros_run:
  assumes "zero_run all best" "drop i all = gs" "i \<le> length all"
  shows "zero_run all (find_zeros i gs best)"
  using assms
proof (induction i gs best rule: find_zeros.induct)
  case (2 i g gs best)
  let ?z = "length (takeWhile (\<lambda>x. x = 0) (g # gs))"
  have i: "i < length all" using 2(3) by (metis drop_all leI list.discI)
  have "i + ?z \<le> length all"
    using i 2(3) length_takeWhile_le [of "\<lambda>x. x = 0" "g # gs"]
    by (metis add_le_imp_le_diff le_add_diff_inverse length_drop less_imp_le_nat nat_add_left_cancel_le)
  moreover have "take ?z (drop i all) = replicate ?z 0"
    using 2(3) takeWhile_zero [of "g # gs"] by (metis takeWhile_eq_take)
  ultimately have "zero_run all (if 2 \<le> ?z \<and> snd best < ?z then (i, ?z) else best)"
    using 2(2) by (simp add: zero_run_def)
  moreover have "drop (i + 1) all = gs" using 2(3) by (metis Suc_eq_plus1 drop_Suc list.sel(3) tl_drop)
  ultimately show ?case using 2(1) [OF refl] i by (simp only: find_zeros.simps Let_def)
qed simp

lemma find_only:
  assumes "x \<in> set s" "P x" "\<forall>c\<in>set s. P c \<longrightarrow> x = c"
  shows "find P s = Some x"
proof -
  have "find P s \<noteq> None" using assms(1,2) by (auto simp: find_None_iff)
  then obtain y where y: "find P s = Some y" by blast
  then have "y \<in> set s" "P y" by (auto simp: find_Some_iff)
  with assms(3) y show ?thesis by metis
qed

definition v6_char :: "char \<Rightarrow> bool" where
  "v6_char c \<longleftrightarrow> hex_val c \<noteq> None \<or> c = CHR '':''"

lemma hex_join_chars: "list_all v6_char (hex_join gs)"
proof (induction gs)
  case (Cons g gs)
  then show ?case using hex_digits_hex [of g] by (auto simp: hex_join_Cons list_all_iff v6_char_def)
qed (simp add: hex_join_def)

lemma ParseAddr_v6:
  assumes "list_all v6_char s" "CHR '':'' \<in> set s"
  shows "ParseAddr s = parse_ipv6 s \<and> CHR ''%'' \<notin> set s"
proof -
  have "find (\<lambda>c. c = CHR ''.'' \<or> c = CHR '':'' \<or> c = CHR ''%'') s = Some (CHR '':'')"
    using assms by (induction s) (auto simp: v6_char_def hex_val_def split: if_splits)
  moreover have "\<not> v6_char (CHR ''%'')" by (simp add: v6_char_def hex_val_def)
  ultimately show ?thesis using assms(1) by (auto simp: ParseAddr_def list_all_iff)
qed

lemma no_ellipsis_head: "gs \<noteq> [] \<Longrightarrow> \<not> has_prefix (hex_join gs @ rest) ''::''"
  using hex_join_head [of gs rest] by (auto simp: has_prefix_iff)

lemma parse_ipv6_join:
  assumes "length gs = 8" "list_all (\<lambda>g. g < 65536) gs"
  shows "ParseAddr (hex_join gs) = Some (Addr (groups_bytes gs) [])"
proof -
  obtain g h hs where gs: "gs = g # h # hs"
    using assms(1) by (auto simp: numeral_eq_Suc length_Suc_conv)
  have "CHR '':'' \<in> set (hex_join gs)" by (simp add: gs hex_join_Cons)
  then have p: "ParseAddr (hex_join gs) = parse_ipv6 (hex_join gs)" "CHR ''%'' \<notin> set (hex_join gs)"
    using ParseAddr_v6 [OF hex_join_chars] by auto
  moreover have "gs \<noteq> []" by (simp add: gs)
  ultimately show ?thesis
    using no_ellipsis_head [of gs "[]"] ipv6_join [of gs 8 "[]" None] assms
    by (simp add: parse_ipv6_def cut_char_no ipv6_expand_def)
qed

lemma parse_ipv6_ellipsis:
  assumes "length gs + l + length hs = 8" "0 < l" "list_all (\<lambda>g. g < 65536) (gs @ hs)"
  shows "ParseAddr (hex_join gs @ ''::'' @ hex_join hs) =
    Some (Addr (groups_bytes gs @ replicate (2 * l) 0 @ groups_bytes hs) [])"
proof -
  let ?s = "hex_join gs @ ''::'' @ hex_join hs"
  have "list_all v6_char ?s" using hex_join_chars by (simp add: v6_char_def)
  then have p: "ParseAddr ?s = parse_ipv6 ?s" "CHR ''%'' \<notin> set ?s"
    using ParseAddr_v6 [of ?s] by auto
  have pad: "16 - (2 * length gs + 2 * length hs) = 2 * l" using assms(1) by linarith
  show ?thesis
  proof (cases "gs = []")
    case True
    have lead: "has_prefix ?s ''::''" "drop 2 ?s = hex_join hs"
      using True by (simp_all add: hex_join_def has_prefix_def)
    show ?thesis
    proof (cases "hs = []")
      case True
      then show ?thesis using p lead \<open>gs = []\<close> assms(1)
        by (simp add: parse_ipv6_def cut_char_no hex_join_def)
    next
      case False
      then show ?thesis
        using p lead \<open>gs = []\<close> assms pad hex_join_head [OF False, of "[]"] ipv6_join [OF False, of 8 "[]" "Some 0"]
        by (simp add: parse_ipv6_def cut_char_no ipv6_expand_def)
    qed
  next
    case False
    have "length gs + length hs < 8" using assms(1,2) by linarith
    then show ?thesis
      using p no_ellipsis_head [OF False, of "''::'' @ hex_join hs"]
        ipv6_join_ellipsis [OF False, of hs 8 "[]"] assms(3) pad
      by (simp add: parse_ipv6_def cut_char_no ipv6_expand_def)
  qed
qed

lemma groups_bytes_zeros: "groups_bytes (replicate l 0) = replicate (2 * l) 0"
  by (induction l) (simp_all add: group_bytes_def)

lemma v6_text_parse:
  assumes "length gs = 8" "list_all (\<lambda>g. g < 65536) gs"
  shows "ParseAddr (v6_text gs) = Some (Addr (groups_bytes gs) [])"
proof -
  obtain st l where r: "find_zeros 0 gs (255, 0) = (st, l)" by fastforce
  have ok: "zero_run gs (st, l)"
    using find_zeros_run [of gs "(255, 0)" 0 gs] r by (simp add: zero_run_def)
  show ?thesis
  proof (cases "l = 0")
    case True
    then show ?thesis using r parse_ipv6_join [OF assms] by (simp add: v6_text_def)
  next
    case False
    with ok have z: "2 \<le> l" "st + l \<le> 8" "take l (drop st gs) = replicate l 0"
      by (auto simp: zero_run_def assms(1))
    have split: "gs = take st gs @ replicate l 0 @ drop (st + l) gs"
      using z(3) by (metis append_take_drop_id drop_drop add.commute)
    have small: "list_all (\<lambda>g. g < 65536) (take st gs @ drop (st + l) gs)"
      using assms(2) by (auto simp: list_all_iff dest: in_set_takeD in_set_dropD)
    have "ParseAddr (v6_text gs) =
        Some (Addr (groups_bytes (take st gs) @ replicate (2 * l) 0 @ groups_bytes (drop (st + l) gs)) [])"
      using parse_ipv6_ellipsis [OF _ _ small, of l] z(1,2) False assms(1) r by (simp add: v6_text_def)
    also have "groups_bytes (take st gs) @ replicate (2 * l) 0 @ groups_bytes (drop (st + l) gs) =
        groups_bytes gs"
      by (subst (3) split) (simp add: groups_bytes_zeros)
    finally show ?thesis .
  qed
qed

lemma length_u16s: "length (u16s bs) = length bs div 2"
  by (induction bs rule: u16s.induct) auto

lemma u16s_small: "list_all (\<lambda>g. g < 65536) (u16s bs)"
proof (induction bs rule: u16s.induct)
  case (1 a b r)
  have "unat a < 256" "unat b < 256" using unsigned_less [of a] unsigned_less [of b] by simp_all
  with 1 show ?case by simp
qed auto

lemma dotted_chars: "c \<in> set (dotted bs) \<Longrightarrow> is_digit c \<or> c = CHR ''.''"
proof (induction bs rule: induct_list012)
  case (2 b)
  then show ?case using digits_of_digits [of "unat b"] by (auto simp: dotted_def list_all_iff)
next
  case (3 a b bs)
  then show ?case using digits_of_digits [of "unat a"] by (auto simp: dotted_def list_all_iff)
qed (simp add: dotted_def)

lemma ParseAddr_dotted:
  assumes "length bs = 4"
  shows "ParseAddr (dotted bs) = Some (Addr bs [])"
proof -
  obtain a b r where bs: "bs = a # b # r" using assms by (auto simp: numeral_eq_Suc length_Suc_conv)
  have "CHR ''.'' \<in> set (dotted bs)" by (simp add: bs dotted_def)
  then have "find (\<lambda>c. c = CHR ''.'' \<or> c = CHR '':'' \<or> c = CHR ''%'') (dotted bs) = Some (CHR ''.'')"
    using dotted_chars [of "CHR '':''" bs] dotted_chars [of "CHR ''%''" bs]
    by (intro find_only) (auto simp: is_digit_def)
  then show ?thesis using ipv4_dotted [OF assms] by (simp add: ParseAddr_def)
qed

text \<open>An IPv4-mapped address is printed with a dotted end, which the parser reads as four bytes.\<close>

lemma ParseAddr_mapped:
  assumes "length bs = 4"
  shows "ParseAddr (''::ffff:'' @ dotted bs) = Some (Addr (v4_in_v6_prefix @ bs) [])"
proof -
  obtain a b r where bs: "bs = a # b # r" using assms by (auto simp: numeral_eq_Suc length_Suc_conv)
  let ?d = "digits_of (unat a)" and ?s = "''::ffff:'' @ dotted bs"
  obtain rest where d: "dotted bs = ?d @ CHR ''.'' # rest" by (simp add: bs dotted_def)
  have hex: "hex_val c \<noteq> None" if "is_digit c" for c using that by (simp add: hex_val_def is_digit_def)
  have dot: "hex_val (CHR ''.'') = None" by (simp add: hex_val_def)
  have short: "length ?d \<le> 4"
  proof -
    have "unat a < 256" using unsigned_less [of a] by simp
    then show ?thesis using digits_of_length [of "unat a" 3] by simp
  qed
  have span: "takeWhile (\<lambda>c. hex_val c \<noteq> None) (dotted bs) = ?d"
    "dropWhile (\<lambda>c. hex_val c \<noteq> None) (dotted bs) = CHR ''.'' # rest"
    unfolding d using digits_of_digits [of "unat a"] hex dot
    by (simp_all add: list_all_iff takeWhile_append dropWhile_append)
  have tail: "ipv6_groups 7 [255, 255] (Some 0) (dotted bs) = Some ([255, 255] @ bs, Some 0, [])"
    using span short ipv4_dotted [OF assms] by (simp add: ipv6_groups.simps numeral_eq_Suc)
  have "char_of (of_char (CHR ''f'') :: nat) = CHR ''f''" by (rule char_of_char)
  then have ffff: "hex_digits 65535 = ''ffff''" by (simp add: hex_digits.simps hex_char_def)
  have low: "group_bytes 65535 = [255, 255]" by (simp add: group_bytes_def word_eq_iff_unsigned)
  have "dotted bs \<noteq> []" by (simp add: d)
  moreover from this have "hd (dotted bs) \<noteq> CHR '':''"
    using dotted_chars [of "hd (dotted bs)" bs] by (auto simp: is_digit_def)
  ultimately have "ipv6_groups 8 [] (Some 0) (''ffff:'' @ dotted bs) = ipv6_groups 7 [255, 255] (Some 0) (dotted bs)"
    using ipv6_colon_group [of 65535 "dotted bs" 7 "[]" "Some 0"] by (simp add: ffff low)
  moreover have "CHR ''%'' \<notin> set ?s" using dotted_chars [of "CHR ''%''" bs] by (auto simp: is_digit_def)
  moreover have "ParseAddr ?s = parse_ipv6 ?s" by (simp add: ParseAddr_def)
  ultimately show ?thesis
    using tail assms by (simp add: parse_ipv6_def cut_char_no has_prefix_def ipv6_expand_def v4_in_v6_prefix_def numeral_eq_Suc)
qed

lemma ParseAddr_string:
  assumes "IsValid a" "azone a = []"
  shows "ParseAddr (addr_string a) = Some a"
proof -
  consider "Is4 a" | "\<not> Is4 a" "Is4In6 a" | "\<not> Is4 a" "\<not> Is4In6 a" by blast
  then show ?thesis
  proof cases
    case 1
    then show ?thesis
      using ParseAddr_dotted [of "abytes a"] assms(2) by (cases a) (simp add: addr_string_def Is4_def)
  next
    case 2
    then have "abytes a = v4_in_v6_prefix @ drop 12 (abytes a)" "length (drop 12 (abytes a)) = 4"
      using append_take_drop_id [of 12 "abytes a"] by (auto simp: Is4In6_def Is6_def)
    with 2 assms(2) show ?thesis
      using ParseAddr_mapped [of "drop 12 (abytes a)"] by (cases a) (simp add: addr_string_def zone_text_def)
  next
    case 3
    with assms(1) have "length (abytes a) = 16" "Is6 a" by (auto simp: IsValid_def Is6_def)
    with 3 assms(2) show ?thesis
      using v6_text_parse [OF _ u16s_small, of "abytes a"] u16s_bytes [of "abytes a" 8]
      by (cases a) (simp add: addr_string_def zone_text_def length_u16s)
  qed
qed

lemma ParsePrefix_string:
  assumes "IsValid (paddr p)" "azone (paddr p) = []" "pbits p \<le> BitLen (paddr p)"
  shows "ParsePrefix (prefix_string p) = Some p"
proof -
  let ?d = "digits_of (pbits p)"
  have "CHR ''/'' \<notin> set (rev ?d)"
    using digits_of_digits [of "pbits p"] by (auto simp: list_all_iff is_digit_def)
  then have cut: "cut_char (CHR ''/'') (rev (prefix_string p)) = (rev ?d, rev (addr_string (paddr p)), True)"
    using assms(1,3) cut_char_yes [of "CHR ''/''" "rev ?d"] by (simp add: prefix_string_def)
  have "is_digit (hd ?d) \<and> hd ?d \<noteq> CHR ''0''" if "1 < length ?d"
  proof -
    have "10 \<le> pbits p" using that digits_of_short [of "pbits p"] by linarith
    then show ?thesis using digits_of_head [of "pbits p"] digits_of_digits [of "pbits p"] by (cases ?d) auto
  qed
  moreover have "pbits p < 2 ^ 63"
    using assms(1,3) by (auto simp: IsValid_def Is4_def Is6_def BitLen_def)
  ultimately show ?thesis
    using ParseAddr_string [OF assms(1,2)] assms(2,3) cut atoi_digits [of "pbits p"]
    by (cases p) (auto simp: ParsePrefix_def Let_def)
qed

lemma ParsePrefix_valid:
  "ParsePrefix s = Some p \<Longrightarrow> IsValid (paddr p) \<and> azone (paddr p) = [] \<and> pbits p \<le> BitLen (paddr p)"
  by (auto simp: ParsePrefix_def Let_def ParseAddr_valid split: prod.splits option.splits if_splits)

end
