(* ===== verification/Models.thy ===== *)
theory Models
  imports Netip
begin

text \<open>
  The data model the two processes share (\<open>internal/shared/models.go\<close>), the feed catalogue
  and the country feeds (\<open>feeds.go\<close>, \<open>countries.go\<close>).  Structs are records with the source's
  field names behind a two-letter prefix where two structs share one; the string-typed
  enumerations stay strings, because a value outside the declared constants can arrive from a
  configuration file and the code has a branch for it.
\<close>

section \<open>Port rules and rule sets\<close>

definition ScopeHost :: string where "ScopeHost = ''host''"
definition ScopeForwarded :: string where "ScopeForwarded = ''forwarded''"
definition ScopeBoth :: string where "ScopeBoth = ''both''"

lemmas scope_defs = ScopeHost_def ScopeForwarded_def ScopeBoth_def

record port_rule =
  prID :: string
  prPort :: string
  prDescription :: string
  prSSH :: bool
  prScope :: string
  prSources :: "string list"
  prService :: string

record forwarding_rule =
  fwProtocol :: string
  fwSourcePort :: int
  fwDestPort :: int

record rules =
  TCP :: "port_rule list"
  UDP :: "port_rule list"
  Blocklist :: "string list"
  Allowlist :: "string list"
  Forwarding :: "forwarding_rule list"
  Custom :: "string list"
  Feeds :: "string list"

definition IsEmpty :: "rules \<Rightarrow> bool" where
  "IsEmpty r \<longleftrightarrow> TCP r = [] \<and> UDP r = [] \<and> Blocklist r = [] \<and> Allowlist r = [] \<and>
     Forwarding r = [] \<and> Custom r = [] \<and> Feeds r = []"

definition no_rules :: rules where
  "no_rules = \<lparr> TCP = [], UDP = [], Blocklist = [], Allowlist = [], Forwarding = [],
                 Custom = [], Feeds = [] \<rparr>"

record rules_state =
  Current :: rules
  Staged :: rules
  Backup :: rules

definition FiltersHost :: "port_rule \<Rightarrow> bool" where
  "FiltersHost r \<longleftrightarrow> prScope r = [] \<or> prScope r = ScopeHost \<or> prScope r = ScopeBoth"

definition FiltersForwarded :: "port_rule \<Rightarrow> bool" where
  "FiltersForwarded r \<longleftrightarrow> prScope r = ScopeForwarded \<or> prScope r = ScopeBoth"

section \<open>Settings\<close>

record firewall_options =
  SSHBruteForce :: bool
  SSHBruteForceLog :: bool
  SSHBruteForceConnectionLimit :: int
  SSHBruteForceLogLimit :: int
  ICMPAllowEchoRequest :: bool
  ICMPFlood :: bool
  ICMPFloodLog :: bool
  ICMPFloodConnectionLimit :: int
  ICMPFloodLogLimit :: int
  SYNFlood :: bool
  SYNFloodLog :: bool
  SYNFloodLimit :: int
  PortScan :: bool
  PortScanLog :: bool
  InvalidPackets :: bool
  InvalidPacketsLog :: bool
  Fragments :: bool
  FragmentsLog :: bool
  Bogons :: bool
  BogonsLog :: bool
  ConnectionLimit :: bool
  ConnectionLimitMax :: int
  TCPRSTFlood :: bool
  TCPRSTFloodLog :: bool
  TCPRSTFloodLimit :: int
  DropBroadcast :: bool
  DropMulticast :: bool
  DropAnycast :: bool
  LogBlocked :: bool
  LogBlockedLimit :: int
  LogBlocklist :: bool
  LogBlocklistLimit :: int
  LogFeed :: bool
  LogFeedLimit :: int

definition LogsAnything :: "firewall_options \<Rightarrow> bool" where
  "LogsAnything opts \<longleftrightarrow>
     SSHBruteForceLog opts \<or> ICMPFloodLog opts \<or> SYNFloodLog opts \<or> TCPRSTFloodLog opts \<or>
     PortScanLog opts \<or> InvalidPacketsLog opts \<or> FragmentsLog opts \<or> BogonsLog opts \<or>
     LogBlocklist opts \<or> LogFeed opts \<or> LogBlocked opts"

text \<open>The two pointer-returning accessors of a limit are a reader and a writer each.\<close>

record firewall_limit =
  flKey :: string
  flMin :: int
  flMax :: int
  flDefault :: int
  flEnabled :: "firewall_options \<Rightarrow> bool"
  flValue :: "firewall_options \<Rightarrow> int"
  flSetValue :: "int \<Rightarrow> firewall_options \<Rightarrow> firewall_options"

definition limit ::
  "string \<Rightarrow> int \<Rightarrow> int \<Rightarrow> int \<Rightarrow> (firewall_options \<Rightarrow> bool) \<Rightarrow> (firewall_options \<Rightarrow> int) \<Rightarrow>
   (int \<Rightarrow> firewall_options \<Rightarrow> firewall_options) \<Rightarrow> firewall_limit" where
  "limit k lo hi d en val upd =
     \<lparr> flKey = k, flMin = lo, flMax = hi, flDefault = d, flEnabled = en, flValue = val,
       flSetValue = upd \<rparr>"

definition FirewallLimits :: "firewall_limit list" where
  "FirewallLimits =
    [limit ''ssh_brute_force_connection_limit'' 1 100 5 SSHBruteForce
       SSHBruteForceConnectionLimit (\<lambda>v opts. opts\<lparr>SSHBruteForceConnectionLimit := v\<rparr>),
     limit ''ssh_brute_force_log_limit'' 1 10000 60 SSHBruteForceLog
       SSHBruteForceLogLimit (\<lambda>v opts. opts\<lparr>SSHBruteForceLogLimit := v\<rparr>),
     limit ''icmp_flood_connection_limit'' 1 1000 10 ICMPFlood
       ICMPFloodConnectionLimit (\<lambda>v opts. opts\<lparr>ICMPFloodConnectionLimit := v\<rparr>),
     limit ''icmp_flood_log_limit'' 1 10000 60 ICMPFloodLog
       ICMPFloodLogLimit (\<lambda>v opts. opts\<lparr>ICMPFloodLogLimit := v\<rparr>),
     limit ''syn_flood_limit'' 1 10000 100 SYNFlood
       SYNFloodLimit (\<lambda>v opts. opts\<lparr>SYNFloodLimit := v\<rparr>),
     limit ''tcp_rst_flood_limit'' 1 10000 100 TCPRSTFlood
       TCPRSTFloodLimit (\<lambda>v opts. opts\<lparr>TCPRSTFloodLimit := v\<rparr>),
     limit ''connection_limit_max'' 1 100000 100 ConnectionLimit
       ConnectionLimitMax (\<lambda>v opts. opts\<lparr>ConnectionLimitMax := v\<rparr>),
     limit ''log_blocked_connections_limit'' 1 10000 60 LogBlocked
       LogBlockedLimit (\<lambda>v opts. opts\<lparr>LogBlockedLimit := v\<rparr>),
     limit ''log_blocklist_connections_limit'' 1 10000 60 LogBlocklist
       LogBlocklistLimit (\<lambda>v opts. opts\<lparr>LogBlocklistLimit := v\<rparr>),
     limit ''log_feed_connections_limit'' 1 10000 60 LogFeed
       LogFeedLimit (\<lambda>v opts. opts\<lparr>LogFeedLimit := v\<rparr>)]"

definition InRange :: "firewall_limit \<Rightarrow> int \<Rightarrow> bool" where
  "InRange l v \<longleftrightarrow> flMin l \<le> v \<and> v \<le> flMax l"

definition Clamp :: "firewall_limit \<Rightarrow> int \<Rightarrow> int" where
  "Clamp l v = min (max v (flMin l)) (flMax l)"

record acceptance_config =
  acEnabled :: bool
  acDuration :: int

definition AcceptanceDurationMin :: int where "AcceptanceDurationMin = 10"
definition AcceptanceDurationMax :: int where "AcceptanceDurationMax = 3600"

definition ValidAcceptanceDuration :: "int \<Rightarrow> bool" where
  "ValidAcceptanceDuration d \<longleftrightarrow> AcceptanceDurationMin \<le> d \<and> d \<le> AcceptanceDurationMax"

definition UsageIntervalDefault :: int where "UsageIntervalDefault = 300"

record usage_config =
  ucInterval :: "int option"

definition PacketLogGroupDefault :: int where "PacketLogGroupDefault = 12227"
definition PacketLogEntriesDefault :: int where "PacketLogEntriesDefault = 20000"
definition PacketLogEntriesMin :: int where "PacketLogEntriesMin = 1000"
definition PacketLogEntriesMax :: int where "PacketLogEntriesMax = 200000"

record packet_log_config =
  plGroup :: "int option"
  plEntries :: "int option"
  plPersist :: bool

definition IPv6Filter :: string where "IPv6Filter = ''filter''"
definition IPv6Passthrough :: string where "IPv6Passthrough = ''passthrough''"
definition IPv6Block :: string where "IPv6Block = ''block''"

lemmas ipv6_mode_defs = IPv6Filter_def IPv6Passthrough_def IPv6Block_def

definition ValidIPv6Mode :: "string \<Rightarrow> bool" where
  "ValidIPv6Mode m \<longleftrightarrow> m = IPv6Filter \<or> m = IPv6Passthrough \<or> m = IPv6Block"

record ipv6_config =
  v6Mode :: string
  v6Enabled :: bool
  ICMPAllowRouterAdvertisement :: bool
  ICMPAllowNeighborAdvertisement :: bool

definition RoutingClosed :: string where "RoutingClosed = ''closed''"
definition RoutingNetworks :: string where "RoutingNetworks = ''networks''"
definition RoutingOpen :: string where "RoutingOpen = ''open''"

lemmas routing_mode_defs = RoutingClosed_def RoutingNetworks_def RoutingOpen_def

definition ValidRoutingMode :: "string \<Rightarrow> bool" where
  "ValidRoutingMode m \<longleftrightarrow> m = RoutingClosed \<or> m = RoutingNetworks \<or> m = RoutingOpen"

record routing_config =
  rtMode :: string
  rtNetworks :: "string list"

record docker_config =
  dkEnabled :: bool
  AllowBridgeNetworks :: bool
  CustomNetworks :: "string list"
  PublishedPorts :: string

definition PublishedPortsOpen :: string where "PublishedPortsOpen = ''open''"
definition PublishedPortsFiltered :: string where "PublishedPortsFiltered = ''filtered''"

definition FiltersPublishedPorts :: "docker_config \<Rightarrow> bool" where
  "FiltersPublishedPorts d \<longleftrightarrow> PublishedPorts d = PublishedPortsFiltered"

record core_config =
  ccFirewall :: firewall_options
  ccAcceptance :: acceptance_config
  ccUsage :: usage_config
  ccPacketLog :: packet_log_config
  ccIPv6 :: ipv6_config
  ccDocker :: docker_config
  ccRouting :: routing_config
  ccSocketPath :: string
  ccDataDir :: string
  ccLogDir :: string

record network_settings =
  nsIPv6 :: ipv6_config
  nsDocker :: docker_config
  nsRouting :: routing_config

record applied_config =
  apFirewall :: firewall_options
  apNetwork :: network_settings

record applied_config_result =
  arRecorded :: bool
  arConfig :: applied_config

record system_settings =
  ssAcceptance :: acceptance_config

text \<open>Go's zero values of the settings a record may be missing.\<close>

definition zero_options :: firewall_options where
  "zero_options =
     \<lparr> SSHBruteForce = False, SSHBruteForceLog = False, SSHBruteForceConnectionLimit = 0,
       SSHBruteForceLogLimit = 0, ICMPAllowEchoRequest = False, ICMPFlood = False,
       ICMPFloodLog = False, ICMPFloodConnectionLimit = 0, ICMPFloodLogLimit = 0,
       SYNFlood = False, SYNFloodLog = False, SYNFloodLimit = 0, PortScan = False,
       PortScanLog = False, InvalidPackets = False, InvalidPacketsLog = False,
       Fragments = False, FragmentsLog = False, Bogons = False, BogonsLog = False,
       ConnectionLimit = False, ConnectionLimitMax = 0, TCPRSTFlood = False,
       TCPRSTFloodLog = False, TCPRSTFloodLimit = 0, DropBroadcast = False,
       DropMulticast = False, DropAnycast = False, LogBlocked = False, LogBlockedLimit = 0,
       LogBlocklist = False, LogBlocklistLimit = 0, LogFeed = False, LogFeedLimit = 0 \<rparr>"

definition zero_network :: network_settings where
  "zero_network =
     \<lparr> nsIPv6 = \<lparr> v6Mode = [], v6Enabled = False, ICMPAllowRouterAdvertisement = False,
                  ICMPAllowNeighborAdvertisement = False \<rparr>,
       nsDocker = \<lparr> dkEnabled = False, AllowBridgeNetworks = False, CustomNetworks = [],
                    PublishedPorts = [] \<rparr>,
       nsRouting = \<lparr> rtMode = [], rtNetworks = [] \<rparr> \<rparr>"

definition no_applied_config :: applied_config_result where
  "no_applied_config =
     \<lparr> arRecorded = False, arConfig = \<lparr> apFirewall = zero_options, apNetwork = zero_network \<rparr> \<rparr>"

section \<open>Feeds\<close>

definition hour :: int where "hour = 3600"

definition FeedFormatPlain :: string where "FeedFormatPlain = ''plain''"
definition FeedFormatSpamhaus :: string where "FeedFormatSpamhaus = ''spamhaus-ndjson''"
definition FeedFormatDShield :: string where "FeedFormatDShield = ''dshield''"
definition FeedFormatIPverse :: string where "FeedFormatIPverse = ''ipverse-json''"

definition FeedRecommended :: string where "FeedRecommended = ''recommended''"
definition FeedOptional :: string where "FeedOptional = ''optional''"
definition FeedDeliberate :: string where "FeedDeliberate = ''deliberate''"

definition FalsePositivesNone :: string where "FalsePositivesNone = ''none''"
definition FalsePositivesSome :: string where "FalsePositivesSome = ''some''"
definition FalsePositivesNotable :: string where "FalsePositivesNotable = ''notable''"
definition FalsePositivesYes :: string where "FalsePositivesYes = ''yes''"
definition FalsePositivesByDesign :: string where "FalsePositivesByDesign = ''by_design''"

record catalogue_feed =
  cfID :: string
  cfName :: string
  cfURLs :: "string list"
  cfFormat :: string
  cfInterval :: int
  cfVerdict :: string
  cfFalsePositives :: string
  cfHomepage :: string
  cfTerms :: string
  cfMeasuredAt :: string

definition FeedCatalogue :: "catalogue_feed list" where
  "FeedCatalogue =
    [\<lparr> cfID = ''spamhaus-drop'', cfName = ''Spamhaus DROP'',
        cfURLs = [''https://www.spamhaus.org/drop/drop_v4.json'',
          ''https://www.spamhaus.org/drop/drop_v6.json''],
        cfFormat = FeedFormatSpamhaus, cfInterval = 12 * hour, cfVerdict = FeedRecommended,
        cfFalsePositives = FalsePositivesNone,
        cfHomepage = ''https://www.spamhaus.org/blocklists/do-not-route-or-peer/'',
        cfTerms = ''https://www.spamhaus.org/drop/terms/'', cfMeasuredAt = ''2026-10-15'' \<rparr>,
     \<lparr> cfID = ''dshield'', cfName = ''DShield top block list'',
        cfURLs = [''https://feeds.dshield.org/block.txt''],
        cfFormat = FeedFormatDShield, cfInterval = 1 * hour, cfVerdict = FeedRecommended,
        cfFalsePositives = FalsePositivesNone,
        cfHomepage = ''https://isc.sans.edu/api/'',
        cfTerms = ''https://isc.sans.edu/api/'', cfMeasuredAt = ''2026-10-15'' \<rparr>,
     \<lparr> cfID = ''blocklist-de-ssh'', cfName = ''blocklist.de (SSH)'',
        cfURLs = [''https://lists.blocklist.de/lists/ssh.txt''],
        cfFormat = FeedFormatPlain, cfInterval = 1 * hour, cfVerdict = FeedRecommended,
        cfFalsePositives = FalsePositivesSome,
        cfHomepage = ''https://www.blocklist.de/en/export.html'',
        cfTerms = ''https://www.blocklist.de/en/export.html'', cfMeasuredAt = ''2026-10-15'' \<rparr>,
     \<lparr> cfID = ''blocklist-de-imap'', cfName = ''blocklist.de (IMAP, POP3)'',
        cfURLs = [''https://lists.blocklist.de/lists/imap.txt''],
        cfFormat = FeedFormatPlain, cfInterval = 1 * hour, cfVerdict = FeedOptional,
        cfFalsePositives = FalsePositivesSome,
        cfHomepage = ''https://www.blocklist.de/en/export.html'',
        cfTerms = ''https://www.blocklist.de/en/export.html'', cfMeasuredAt = ''2026-10-15'' \<rparr>,
     \<lparr> cfID = ''cins'', cfName = ''CINS Army'',
        cfURLs = [''https://cinsscore.com/list/ci-badguys.txt''],
        cfFormat = FeedFormatPlain, cfInterval = 1 * hour, cfVerdict = FeedOptional,
        cfFalsePositives = FalsePositivesSome,
        cfHomepage = ''https://cinsscore.com/'',
        cfTerms = ''https://cinsscore.com/'', cfMeasuredAt = ''2026-10-15'' \<rparr>,
     \<lparr> cfID = ''et-compromised'', cfName = ''Emerging Threats compromised'',
        cfURLs = [''https://rules.emergingthreats.net/blockrules/compromised-ips.txt''],
        cfFormat = FeedFormatPlain, cfInterval = 1 * hour, cfVerdict = FeedOptional,
        cfFalsePositives = FalsePositivesNotable,
        cfHomepage = ''https://rules.emergingthreats.net/OPEN_download_instructions.html'',
        cfTerms = ''https://rules.emergingthreats.net/open/suricata-7.0.3/LICENSE'', cfMeasuredAt = ''2026-10-15'' \<rparr>,
     \<lparr> cfID = ''blocklist-de'', cfName = ''blocklist.de (all)'',
        cfURLs = [''https://lists.blocklist.de/lists/all.txt''],
        cfFormat = FeedFormatPlain, cfInterval = 1 * hour, cfVerdict = FeedDeliberate,
        cfFalsePositives = FalsePositivesYes,
        cfHomepage = ''https://www.blocklist.de/en/export.html'',
        cfTerms = ''https://www.blocklist.de/en/export.html'', cfMeasuredAt = ''2026-10-15'' \<rparr>,
     \<lparr> cfID = ''ipsum-3'', cfName = ''IPsum, on '' @ [CHR 0xE2, CHR 0x89, CHR 0xA5] @ '' 3 lists'',
        cfURLs = [''https://raw.githubusercontent.com/stamparm/ipsum/master/levels/3.txt''],
        cfFormat = FeedFormatPlain, cfInterval = 24 * hour, cfVerdict = FeedDeliberate,
        cfFalsePositives = FalsePositivesYes,
        cfHomepage = ''https://github.com/stamparm/ipsum'',
        cfTerms = ''https://github.com/stamparm/ipsum'', cfMeasuredAt = ''2026-10-15'' \<rparr>,
     \<lparr> cfID = ''hagezi-tif'', cfName = ''Hagezi threat intelligence IPs'',
        cfURLs = [''https://raw.githubusercontent.com/hagezi/dns-blocklists/main/ips/tif.txt''],
        cfFormat = FeedFormatPlain, cfInterval = 24 * hour, cfVerdict = FeedDeliberate,
        cfFalsePositives = FalsePositivesYes,
        cfHomepage = ''https://github.com/hagezi/dns-blocklists'',
        cfTerms = ''https://github.com/hagezi/dns-blocklists'', cfMeasuredAt = ''2026-10-15'' \<rparr>,
     \<lparr> cfID = ''tor-exits'', cfName = ''Tor exit nodes'',
        cfURLs = [''https://check.torproject.org/torbulkexitlist''],
        cfFormat = FeedFormatPlain, cfInterval = 1 * hour, cfVerdict = FeedDeliberate,
        cfFalsePositives = FalsePositivesByDesign,
        cfHomepage = ''https://metrics.torproject.org/collector.html'',
        cfTerms = ''https://metrics.torproject.org/collector.html'', cfMeasuredAt = ''2026-10-15'' \<rparr>]"

definition MaxOwnFeeds :: nat where "MaxOwnFeeds = 3"
definition FeedMaxEntries :: nat where "FeedMaxEntries = 100000"
definition FeedShrinkPercent :: nat where "FeedShrinkPercent = 70"
definition FeedMaxBitsV4 :: nat where "FeedMaxBitsV4 = 8"
definition FeedMaxBitsV6 :: nat where "FeedMaxBitsV6 = 16"

definition OwnFeedID :: "nat \<Rightarrow> string" where "OwnFeedID n = ''own-'' @ itoa (int n)"

definition IsOwnFeedID :: "string \<Rightarrow> bool" where
  "IsOwnFeedID fid \<longleftrightarrow> fid \<in> set (map OwnFeedID [1..<Suc MaxOwnFeeds])"

definition countryFeedPrefix :: string where "countryFeedPrefix = ''country-''"
definition MaxCountries :: nat where "MaxCountries = 30"
definition CountryInterval :: int where "CountryInterval = 24 * hour"
definition FeedMaxBitsV4Country :: nat where "FeedMaxBitsV4Country = 4"
definition FeedMaxBitsV6Country :: nat where "FeedMaxBitsV6Country = FeedMaxBitsV6"

definition countryURLStem :: string where
  "countryURLStem =
     ''https://raw.githubusercontent.com/ipverse/country-ip-blocks/master/country/''"

definition CountryCodes :: "string list" where
  "CountryCodes =
     [''ad'', ''ae'', ''af'', ''ag'', ''ai'', ''al'', ''am'', ''ao'', ''aq'', ''ar'', ''as'', ''at'',
      ''au'', ''aw'', ''ax'', ''az'', ''ba'', ''bb'', ''bd'', ''be'', ''bf'', ''bg'', ''bh'', ''bi'',
      ''bj'', ''bl'', ''bm'', ''bn'', ''bo'', ''bq'', ''br'', ''bs'', ''bt'', ''bw'', ''by'', ''bz'',
      ''ca'', ''cd'', ''cf'', ''cg'', ''ch'', ''ci'', ''ck'', ''cl'', ''cm'', ''cn'', ''co'', ''cr'',
      ''cu'', ''cv'', ''cw'', ''cy'', ''cz'', ''de'', ''dj'', ''dk'', ''dm'', ''do'', ''dz'', ''ec'',
      ''ee'', ''eg'', ''er'', ''es'', ''et'', ''fi'', ''fj'', ''fk'', ''fm'', ''fo'', ''fr'', ''ga'',
      ''gb'', ''gd'', ''ge'', ''gf'', ''gg'', ''gh'', ''gi'', ''gl'', ''gm'', ''gn'', ''gp'', ''gq'',
      ''gr'', ''gt'', ''gu'', ''gw'', ''gy'', ''hk'', ''hn'', ''hr'', ''ht'', ''hu'', ''id'', ''ie'',
      ''il'', ''im'', ''in'', ''io'', ''iq'', ''ir'', ''is'', ''it'', ''je'', ''jm'', ''jo'', ''jp'',
      ''ke'', ''kg'', ''kh'', ''ki'', ''km'', ''kn'', ''kp'', ''kr'', ''kw'', ''ky'', ''kz'', ''la'',
      ''lb'', ''lc'', ''li'', ''lk'', ''lr'', ''ls'', ''lt'', ''lu'', ''lv'', ''ly'', ''ma'', ''mc'',
      ''md'', ''me'', ''mf'', ''mg'', ''mh'', ''mk'', ''ml'', ''mm'', ''mn'', ''mo'', ''mp'', ''mq'',
      ''mr'', ''ms'', ''mt'', ''mu'', ''mv'', ''mw'', ''mx'', ''my'', ''mz'', ''na'', ''nc'', ''ne'',
      ''nf'', ''ng'', ''ni'', ''nl'', ''no'', ''np'', ''nr'', ''nu'', ''nz'', ''om'', ''pa'', ''pe'',
      ''pf'', ''pg'', ''ph'', ''pk'', ''pl'', ''pm'', ''pr'', ''ps'', ''pt'', ''pw'', ''py'', ''qa'',
      ''re'', ''ro'', ''rs'', ''ru'', ''rw'', ''sa'', ''sb'', ''sc'', ''sd'', ''se'', ''sg'', ''si'',
      ''sk'', ''sl'', ''sm'', ''sn'', ''so'', ''sr'', ''ss'', ''st'', ''sv'', ''sx'', ''sy'', ''sz'',
      ''tc'', ''td'', ''tg'', ''th'', ''tj'', ''tk'', ''tl'', ''tm'', ''tn'', ''to'', ''tr'', ''tt'',
      ''tv'', ''tw'', ''tz'', ''ua'', ''ug'', ''us'', ''uy'', ''uz'', ''va'', ''vc'', ''ve'', ''vg'',
      ''vi'', ''vn'', ''vu'', ''wf'', ''ws'', ''ye'', ''yt'', ''za'', ''zm'', ''zw'']"

definition CountryFeedID :: "string \<Rightarrow> string" where
  "CountryFeedID cc = countryFeedPrefix @ cc"

definition CountryCode :: "string \<Rightarrow> string option" where
  "CountryCode fid =
     (if has_prefix fid countryFeedPrefix \<and> drop (length countryFeedPrefix) fid \<in> set CountryCodes
      then Some (drop (length countryFeedPrefix) fid) else None)"

definition IsCountryFeedID :: "string \<Rightarrow> bool" where
  "IsCountryFeedID fid \<longleftrightarrow> CountryCode fid \<noteq> None"

text \<open>\<open>strings.ToUpper\<close> on the ASCII letters a country code consists of.\<close>

definition to_upper_ascii :: "char \<Rightarrow> char" where
  "to_upper_ascii c =
     (let n = (of_char c :: nat) in if 97 \<le> n \<and> n \<le> 122 then char_of (n - 32) else c)"

definition countryFeed :: "string \<Rightarrow> catalogue_feed" where
  "countryFeed cc =
     \<lparr> cfID = CountryFeedID cc, cfName = map to_upper_ascii cc,
       cfURLs = [countryURLStem @ cc @ ''/aggregated.json''],
       cfFormat = FeedFormatIPverse, cfInterval = CountryInterval,
       cfVerdict = [], cfFalsePositives = [],
       cfHomepage = ''https://github.com/ipverse/country-ip-blocks'',
       cfTerms = ''https://github.com/ipverse/country-ip-blocks/blob/master/LICENSE'',
       cfMeasuredAt = [] \<rparr>"

definition FeedMaxBits :: "string \<Rightarrow> nat \<times> nat" where
  "FeedMaxBits fid =
     (if IsCountryFeedID fid then (FeedMaxBitsV4Country, FeedMaxBitsV6Country)
      else (FeedMaxBitsV4, FeedMaxBitsV6))"

definition FeedRuleOrder :: "string list \<Rightarrow> string list" where
  "FeedRuleOrder ids =
     filter (\<lambda>i. \<not> IsCountryFeedID i) ids @ filter IsCountryFeedID ids"

definition CatalogueFeedByID :: "string \<Rightarrow> catalogue_feed option" where
  "CatalogueFeedByID fid =
     (case find (\<lambda>f. cfID f = fid) FeedCatalogue of
        Some f \<Rightarrow> Some f
      | None \<Rightarrow> (case CountryCode fid of Some cc \<Rightarrow> Some (countryFeed cc) | None \<Rightarrow> None))"

definition KnownFeedID :: "string \<Rightarrow> bool" where
  "KnownFeedID fid \<longleftrightarrow> CatalogueFeedByID fid \<noteq> None \<or> IsOwnFeedID fid"

definition FeedDisplayName :: "string \<Rightarrow> string" where
  "FeedDisplayName fid =
     (case CatalogueFeedByID fid of
        Some f \<Rightarrow> cfName f
      | None \<Rightarrow> if IsOwnFeedID fid then ''Own feed '' @ drop 4 fid else fid)"

section \<open>Lemmas\<close>

lemma IsEmpty_iff: "IsEmpty r \<longleftrightarrow> r = no_rules"
  by (cases r) (simp add: IsEmpty_def no_rules_def)

lemma Clamp_InRange: "flMin l \<le> flMax l \<Longrightarrow> InRange l (Clamp l v)"
  by (auto simp: InRange_def Clamp_def)

lemma Clamp_id: "InRange l v \<Longrightarrow> Clamp l v = v"
  by (simp add: InRange_def Clamp_def)

lemma mset_FeedRuleOrder: "set (FeedRuleOrder ids) = set ids"
  by (auto simp: FeedRuleOrder_def)

lemma distinct_FeedRuleOrder: "distinct (FeedRuleOrder ids) = distinct ids"
  by (induction ids) (auto simp: FeedRuleOrder_def)

end
