(* ===== verification/RuleIDs.thy ===== *)
theory RuleIDs
  imports Models
begin

text \<open>
  Rule identifiers (\<open>internal/shared/ruleid.go\<close>).  The system's random source is a parameter
  \<open>rng\<close>: the \<open>n\<close>-th read of six bytes.  A draw position is threaded through
  \<open>EnsureRuleIDs\<close>, whose redraw loop has no bound of its own: it is a partial function, and
  that it returns is a theorem about a source that does not repeat itself for ever.
\<close>

section \<open>Definitions\<close>

definition is_lower_hex :: "char \<Rightarrow> bool" where
  "is_lower_hex c \<longleftrightarrow>
     (let n = (of_char c :: nat) in 48 \<le> n \<and> n \<le> 57 \<or> 97 \<le> n \<and> n \<le> 102)"

definition ValidRuleID :: "string \<Rightarrow> bool" where
  "ValidRuleID s \<longleftrightarrow> length s = 12 \<and> list_all is_lower_hex s"

text \<open>\<open>hex.EncodeToString\<close>.\<close>

definition hex_digit :: "nat \<Rightarrow> char" where
  "hex_digit n = (if n < 10 then char_of (48 + n) else char_of (87 + n))"

definition hex_encode :: "byte list \<Rightarrow> string" where
  "hex_encode bs = concat (map (\<lambda>b. [hex_digit (unat b div 16), hex_digit (unat b mod 16)]) bs)"

type_synonym random_source = "nat \<Rightarrow> byte list"

definition NewRuleID :: "random_source \<Rightarrow> nat \<Rightarrow> string \<times> nat" where
  "NewRuleID rng k = (hex_encode (rng k), Suc k)"

partial_function (option) redraw ::
  "random_source \<Rightarrow> string list \<Rightarrow> string \<Rightarrow> nat \<Rightarrow> (string \<times> nat) option" where
  "redraw rng seen rid k =
     (if rid \<in> set seen then (case NewRuleID rng k of (rid', k') \<Rightarrow> redraw rng seen rid' k')
      else Some (rid, k))"

text \<open>One pass of the loop over a rule list: the ids seen, the draws made, the changed flag.\<close>

fun ensure_list ::
  "random_source \<Rightarrow> port_rule list \<Rightarrow> string list \<Rightarrow> nat \<Rightarrow> bool \<Rightarrow>
   (port_rule list \<times> string list \<times> nat \<times> bool) option" where
  "ensure_list rng [] seen k changed = Some ([], seen, k, changed)"
| "ensure_list rng (r # rs) seen k changed =
     (if prID r = [] \<or> \<not> ValidRuleID (prID r) \<or> prID r \<in> set seen then
        (case NewRuleID rng k of (rid0, k0) \<Rightarrow>
         (case redraw rng seen rid0 k0 of
            None \<Rightarrow> None
          | Some (rid, k1) \<Rightarrow>
              (case ensure_list rng rs (rid # seen) k1 True of
                 None \<Rightarrow> None
               | Some (rs', seen', k', ch) \<Rightarrow> Some (r\<lparr>prID := rid\<rparr> # rs', seen', k', ch))))
      else
        (case ensure_list rng rs (prID r # seen) k changed of
           None \<Rightarrow> None
         | Some (rs', seen', k', ch) \<Rightarrow> Some (r # rs', seen', k', ch)))"

definition EnsureRuleIDs ::
  "random_source \<Rightarrow> nat \<Rightarrow> rules \<Rightarrow> (rules \<times> nat \<times> bool) option" where
  "EnsureRuleIDs rng k r =
     (case ensure_list rng (TCP r) [] k False of
        None \<Rightarrow> None
      | Some (tcp, seen, k1, ch1) \<Rightarrow>
          (case ensure_list rng (UDP r) seen k1 ch1 of
             None \<Rightarrow> None
           | Some (udp, seen', k2, ch2) \<Rightarrow> Some (r\<lparr>TCP := tcp, UDP := udp\<rparr>, k2, ch2)))"

section \<open>What is promised of a random source\<close>

text \<open>
  Six bytes per read, and no set of at most \<open>n\<close> ids swallows every later draw.
\<close>

definition six_bytes :: "random_source \<Rightarrow> bool" where
  "six_bytes rng \<longleftrightarrow> (\<forall>k. length (rng k) = 6)"

definition keeps_drawing :: "random_source \<Rightarrow> nat \<Rightarrow> bool" where
  "keeps_drawing rng n \<longleftrightarrow>
     (\<forall>k seen. length seen \<le> n \<longrightarrow> (\<exists>j\<ge>k. hex_encode (rng j) \<notin> set seen))"

section \<open>Lemmas\<close>

definition ids_of :: "rules \<Rightarrow> string list" where
  "ids_of r = map prID (TCP r @ UDP r)"

definition erase_id :: "port_rule \<Rightarrow> port_rule" where
  "erase_id r = r\<lparr>prID := []\<rparr>"

lemma is_lower_hex_hex_digit: "n < 16 \<Longrightarrow> is_lower_hex (hex_digit n)"
  by (auto simp: is_lower_hex_def hex_digit_def Let_def of_char_of take_bit_nat_def)

lemma hex_encode_shape:
  "length (hex_encode bs) = 2 * length bs \<and> list_all is_lower_hex (hex_encode bs)"
proof (induction bs)
  case (Cons b bs)
  have "unat b < 256" using unsigned_less [of b, where ?'a = nat] by simp
  then have "unat b div 16 < 16" "unat b mod 16 < 16" by auto
  with Cons show ?case by (simp add: hex_encode_def is_lower_hex_hex_digit)
qed (simp add: hex_encode_def)

lemma drawn_id_valid: "six_bytes rng \<Longrightarrow> ValidRuleID (hex_encode (rng k))"
  using hex_encode_shape [of "rng k"] by (simp add: ValidRuleID_def six_bytes_def)

lemma redraw_returns:
  assumes "hex_encode (rng j) \<notin> set seen" "k \<le> j"
  shows "\<exists>j' k'. redraw rng seen (hex_encode (rng k)) (Suc k) = Some (hex_encode (rng j'), k')"
  using assms(2)
proof (induction "j - k" arbitrary: k)
  case 0
  then have "j = k" by simp
  then show ?case using assms(1) by (subst redraw.simps) auto
next
  case (Suc d)
  show ?case
  proof (cases "hex_encode (rng k) \<in> set seen")
    case True
    moreover have "d = j - Suc k" "Suc k \<le> j" using Suc.hyps(2) by simp_all
    note Suc.hyps(1) [OF this]
    ultimately show ?thesis by (subst redraw.simps) (auto simp: NewRuleID_def)
  next
    case False
    then show ?thesis by (subst redraw.simps) auto
  qed
qed

lemma redraw_result:
  "redraw rng seen rid k = Some y \<Longrightarrow>
     fst y \<notin> set seen \<and> (fst y = rid \<or> (\<exists>j. fst y = hex_encode (rng j)))"
proof (erule redraw.raw_induct [rotated, of rng seen rid k y])
  fix redraw rng seen rid k y
  assume ih: "\<And>rng seen rid k y. redraw rng seen rid k = Some y \<Longrightarrow>
      fst y \<notin> set seen \<and> (fst y = rid \<or> (\<exists>j. fst y = hex_encode (rng j)))"
    and eq: "(if rid \<in> set seen
              then case NewRuleID rng k of (rid', k') \<Rightarrow> redraw rng seen rid' k'
              else Some (rid, k)) = Some y"
  show "fst y \<notin> set seen \<and> (fst y = rid \<or> (\<exists>j. fst y = hex_encode (rng j)))"
  proof (cases "rid \<in> set seen")
    case True
    with eq have "redraw rng seen (hex_encode (rng k)) (Suc k) = Some y"
      by (simp add: NewRuleID_def)
    from ih [OF this] show ?thesis by blast
  next
    case False
    with eq show ?thesis by auto
  qed
qed

lemma redraw_fresh:
  assumes "six_bytes rng" "redraw rng seen (hex_encode (rng j)) k = Some (rid, k')"
  shows "rid \<notin> set seen \<and> ValidRuleID rid"
  using redraw_result [OF assms(2)] drawn_id_valid [OF assms(1)] by auto

text \<open>One step of a pass: the head keeps its id, or gets a fresh one and the flag is set.\<close>

lemma ensure_list_Cons:
  assumes "six_bytes rng" "ensure_list rng (r # rs) seen k ch = Some (out, seen', k', ch')"
  obtains r' rs' k1 c where "out = r' # rs'"
    "ensure_list rng rs (prID r' # seen) k1 c = Some (rs', seen', k', ch')"
    "ValidRuleID (prID r')" "prID r' \<notin> set seen" "erase_id r' = erase_id r"
    "r' = r \<and> c = ch \<or> r' \<noteq> r \<and> c \<and> (\<not> ValidRuleID (prID r) \<or> prID r \<in> set seen)"
proof (cases "prID r = [] \<or> \<not> ValidRuleID (prID r) \<or> prID r \<in> set seen")
  case True
  with assms(2) obtain rid k1 rs' where
    d: "redraw rng seen (hex_encode (rng k)) (Suc k) = Some (rid, k1)"
    and e: "ensure_list rng rs (rid # seen) k1 True = Some (rs', seen', k', ch')"
    and o: "out = r\<lparr>prID := rid\<rparr> # rs'"
    by (auto simp: NewRuleID_def split: option.splits)
  from redraw_fresh [OF assms(1) d] have f: "rid \<notin> set seen" "ValidRuleID rid" by auto
  from True f have "r\<lparr>prID := rid\<rparr> \<noteq> r" by (cases r) (auto simp: ValidRuleID_def)
  with f True show thesis
    by (intro that [OF o, of k1 True]) (auto simp: erase_id_def e ValidRuleID_def)
next
  case False
  with assms(2) show thesis by (auto split: option.splits intro: that)
qed

lemma ensure_list_ids:
  assumes "six_bytes rng" "ensure_list rng rs seen k ch = Some (rs', seen', k', ch')"
  shows "set seen' = set seen \<union> set (map prID rs') \<and> distinct (map prID rs') \<and>
         set (map prID rs') \<inter> set seen = {} \<and> list_all ValidRuleID (map prID rs')"
  using assms(2)
proof (induction rs arbitrary: seen k ch rs')
  case (Cons r rs)
  from ensure_list_Cons [OF assms(1) Cons.prems] obtain r' rs'' k1 c where
    o: "rs' = r' # rs''" "ValidRuleID (prID r')" "prID r' \<notin> set seen"
    and e: "ensure_list rng rs (prID r' # seen) k1 c = Some (rs'', seen', k', ch')" by metis
  from Cons.IH [OF e] o show ?case by auto
qed simp

lemma ensure_list_shape:
  assumes "six_bytes rng" "ensure_list rng rs seen k ch = Some (rs', seen', k', ch')"
  shows "map erase_id rs' = map erase_id rs \<and> length seen' = length seen + length rs \<and>
         ch' = (ch \<or> rs' \<noteq> rs)"
  using assms(2)
proof (induction rs arbitrary: seen k ch rs')
  case (Cons r rs)
  from ensure_list_Cons [OF assms(1) Cons.prems] obtain r' rs'' k1 c where
    o: "rs' = r' # rs''" "erase_id r' = erase_id r" "r' = r \<and> c = ch \<or> r' \<noteq> r \<and> c"
    and e: "ensure_list rng rs (prID r' # seen) k1 c = Some (rs'', seen', k', ch')" by metis
  from Cons.IH [OF e] o show ?case by auto
qed simp

lemma ensure_list_first_kept:
  assumes "six_bytes rng" "ensure_list rng rs seen k ch = Some (rs', seen', k', ch')"
    "i < length rs" "ValidRuleID (prID (rs ! i))"
    "prID (rs ! i) \<notin> set seen" "prID (rs ! i) \<notin> set (map prID (take i rs'))"
  shows "rs' ! i = rs ! i"
  using assms(2-)
proof (induction rs arbitrary: seen k ch rs' i)
  case (Cons r rs)
  from ensure_list_Cons [OF assms(1) Cons.prems(1)] obtain r' rs'' k1 c where
    o: "rs' = r' # rs''"
      "r' = r \<and> c = ch \<or> r' \<noteq> r \<and> c \<and> (\<not> ValidRuleID (prID r) \<or> prID r \<in> set seen)"
    and e: "ensure_list rng rs (prID r' # seen) k1 c = Some (rs'', seen', k', ch')" by metis
  show ?case
  proof (cases i)
    case 0
    with Cons.prems o show ?thesis by auto
  next
    case (Suc n)
    with Cons.prems o show ?thesis by (auto intro!: Cons.IH [OF e])
  qed
qed simp

lemma ensure_list_keeps:
  "list_all ValidRuleID (map prID rs) \<Longrightarrow> distinct (map prID rs) \<Longrightarrow>
   set (map prID rs) \<inter> set seen = {} \<Longrightarrow>
   ensure_list rng rs seen k ch = Some (rs, rev (map prID rs) @ seen, k, ch)"
  by (induction rs arbitrary: seen) (auto simp: ValidRuleID_def)

lemma ensure_list_returns:
  assumes "six_bytes rng" "keeps_drawing rng n" "length seen + length rs \<le> n"
  shows "\<exists>y. ensure_list rng rs seen k ch = Some y"
  using assms(3)
proof (induction rs arbitrary: seen k ch)
  case (Cons r rs)
  from assms(2) Cons.prems obtain j where "k \<le> j" "hex_encode (rng j) \<notin> set seen"
    unfolding keeps_drawing_def by (metis add_leD1)
  from redraw_returns [of rng j seen k, OF this(2,1)] obtain j' k' where
    d: "redraw rng seen (hex_encode (rng k)) (Suc k) = Some (hex_encode (rng j'), k')" by blast
  have step: "\<exists>y. ensure_list rng rs (x # seen) k2 c = Some y" for x k2 c
    using Cons.IH [of "x # seen"] Cons.prems by simp
  show ?case
    using d step [of "hex_encode (rng j')" k' True] step [of "prID r" k ch]
    by (auto simp: NewRuleID_def)
qed simp

lemma EnsureRuleIDs_passes:
  assumes "EnsureRuleIDs rng k r = Some (r', k', ch)"
  obtains seen k1 ch1 seen' where
    "ensure_list rng (TCP r) [] k False = Some (TCP r', seen, k1, ch1)"
    "ensure_list rng (UDP r) seen k1 ch1 = Some (UDP r', seen', k', ch)"
    "r' = r\<lparr>TCP := TCP r', UDP := UDP r'\<rparr>"
  using assms by (auto simp: EnsureRuleIDs_def split: option.splits prod.splits)

lemma EnsureRuleIDs_returns:
  assumes "six_bytes rng" "keeps_drawing rng (length (TCP r) + length (UDP r))"
  shows "\<exists>y. EnsureRuleIDs rng k r = Some y"
proof -
  obtain tcp seen k1 ch1 where t: "ensure_list rng (TCP r) [] k False = Some (tcp, seen, k1, ch1)"
    using ensure_list_returns [OF assms, of "[]" "TCP r" k False] by auto
  then have "length seen = length (TCP r)" using ensure_list_shape [OF assms(1) t] by simp
  then obtain u where "ensure_list rng (UDP r) seen k1 ch1 = Some u"
    using ensure_list_returns [OF assms, of seen "UDP r" k1 ch1] by auto
  with t show ?thesis by (cases u) (simp add: EnsureRuleIDs_def)
qed

lemma EnsureRuleIDs_result:
  assumes "six_bytes rng" "EnsureRuleIDs rng k r = Some (r', k', ch)"
  shows "list_all ValidRuleID (ids_of r')" "distinct (ids_of r')"
    "map erase_id (TCP r') = map erase_id (TCP r)" "map erase_id (UDP r') = map erase_id (UDP r)"
    "r'\<lparr>TCP := TCP r, UDP := UDP r\<rparr> = r" "ch \<longleftrightarrow> r' \<noteq> r"
proof -
  from assms(2) obtain seen k1 ch1 seen' where
    t: "ensure_list rng (TCP r) [] k False = Some (TCP r', seen, k1, ch1)"
    and u: "ensure_list rng (UDP r) seen k1 ch1 = Some (UDP r', seen', k', ch)"
    and r': "r' = r\<lparr>TCP := TCP r', UDP := UDP r'\<rparr>" by (rule EnsureRuleIDs_passes)
  note T = ensure_list_ids [OF assms(1) t] ensure_list_shape [OF assms(1) t]
    and U = ensure_list_ids [OF assms(1) u] ensure_list_shape [OF assms(1) u]
  show "list_all ValidRuleID (ids_of r')" "distinct (ids_of r')"
    using T U by (auto simp: ids_of_def list_all_iff)
  show "map erase_id (TCP r') = map erase_id (TCP r)" "map erase_id (UDP r') = map erase_id (UDP r)"
    using T U by auto
  show "r'\<lparr>TCP := TCP r, UDP := UDP r\<rparr> = r"
    by (subst r') simp
  show "ch \<longleftrightarrow> r' \<noteq> r"
    using T U by (cases r, cases r', insert r') auto
qed

lemma EnsureRuleIDs_keeps:
  assumes "list_all ValidRuleID (ids_of r)" "distinct (ids_of r)"
  shows "EnsureRuleIDs rng k r = Some (r, k, False)"
proof -
  have "ensure_list rng (TCP r) [] k False = Some (TCP r, rev (map prID (TCP r)) @ [], k, False)"
    using assms by (intro ensure_list_keeps) (auto simp: ids_of_def)
  moreover have "ensure_list rng (UDP r) (rev (map prID (TCP r))) k False =
      Some (UDP r, rev (map prID (UDP r)) @ rev (map prID (TCP r)), k, False)"
    using assms by (intro ensure_list_keeps) (auto simp: ids_of_def)
  ultimately show ?thesis by (simp add: EnsureRuleIDs_def)
qed

text \<open>A rendered id carries all six bytes, so a counter is a source that keeps drawing.\<close>

lemma hex_digit_inj: "hex_digit a = hex_digit b \<Longrightarrow> a < 16 \<Longrightarrow> b < 16 \<Longrightarrow> a = b"
proof -
  assume h: "hex_digit a = hex_digit b" and ab: "a < 16" "b < 16"
  have "(of_char (hex_digit n) :: nat) = (if n < 10 then 48 + n else 87 + n)" if "n < 16" for n
    using that by (simp add: hex_digit_def of_char_of take_bit_nat_def)
  from this [OF ab(1)] this [OF ab(2)] h
  have "(if a < 10 then 48 + a else 87 + a) = (if b < 10 then 48 + b else 87 + b)" by metis
  with ab show ?thesis by (simp split: if_splits)
qed

lemma hex_encode_inj: "hex_encode bs = hex_encode cs \<Longrightarrow> bs = cs"
proof (induction bs arbitrary: cs)
  case Nil
  then show ?case by (cases cs) (auto simp: hex_encode_def)
next
  case (Cons b bs)
  then obtain c cs' where cs: "cs = c # cs'" by (cases cs) (auto simp: hex_encode_def)
  have lt: "unat x div 16 < 16" "unat x mod 16 < 16" for x :: byte
    using unsigned_less [of x, where ?'a = nat] by auto
  from Cons.prems cs have "unat b div 16 = unat c div 16" "unat b mod 16 = unat c mod 16"
    "hex_encode bs = hex_encode cs'"
    by (auto simp: hex_encode_def lt intro: hex_digit_inj)
  then show ?case using cs Cons.IH by (metis div_mult_mod_eq unsigned_word_eqI)
qed

definition counter_source :: random_source where
  "counter_source k = [0, 0, 0, 0, 0, of_nat k]"

lemma counter_source_ok: "six_bytes counter_source" "n < 256 \<Longrightarrow> keeps_drawing counter_source n"
proof -
  show "six_bytes counter_source" by (simp add: six_bytes_def counter_source_def)
  assume n: "n < 256"
  show "keeps_drawing counter_source n"
    unfolding keeps_drawing_def
  proof (intro allI impI, rule ccontr)
    fix k and seen :: "string list"
    assume len: "length seen \<le> n" and "\<not> (\<exists>j\<ge>k. hex_encode (counter_source j) \<notin> set seen)"
    then have "(\<lambda>j. hex_encode (counter_source j)) ` {k..k + n} \<subseteq> set seen" by auto
    moreover have "inj_on (\<lambda>j. hex_encode (counter_source j)) {k..k + n}"
    proof (rule inj_onI)
      fix i j assume ij: "i \<in> {k..k + n}" "j \<in> {k..k + n}"
        "hex_encode (counter_source i) = hex_encode (counter_source j)"
      from hex_encode_inj [OF ij(3)] have "(of_nat i :: byte) = of_nat j"
        by (simp add: counter_source_def)
      then have "i mod 256 = j mod 256" by (simp add: of_nat_eq_iff word_of_nat_eq_iff take_bit_nat_def)
      moreover have "i = 256 * (i div 256) + i mod 256" "j = 256 * (j div 256) + j mod 256"
        by simp_all
      ultimately show "i = j"
        using ij(1,2) n
        by (cases "i div 256" "j div 256" rule: linorder_cases) (simp_all only: atLeastAtMost_iff, linarith+)
    qed
    ultimately have "card {k..k + n} \<le> card (set seen)" by (metis card_inj_on_le List.finite_set)
    with len card_length [of seen] show False by simp
  qed
qed

section \<open>Properties\<close>

text \<open>
  C29. Whatever ids a rule set arrives with, \<open>EnsureRuleIDs\<close> returns, gives every port rule of
  both protocols a well-formed id no other rule has, changes nothing else, and reports a change
  exactly when there is one.
\<close>

theorem EnsureRuleIDs_correct:
  assumes "six_bytes rng" "keeps_drawing rng (length (TCP r) + length (UDP r))"
  shows "\<exists>r' k' ch. EnsureRuleIDs rng k r = Some (r', k', ch) \<and>
    list_all ValidRuleID (ids_of r') \<and> distinct (ids_of r') \<and>
    map erase_id (TCP r') = map erase_id (TCP r) \<and> map erase_id (UDP r') = map erase_id (UDP r) \<and>
    r'\<lparr>TCP := TCP r, UDP := UDP r\<rparr> = r \<and> (ch \<longleftrightarrow> r' \<noteq> r)"
proof -
  obtain r' k' ch where e: "EnsureRuleIDs rng k r = Some (r', k', ch)"
    using EnsureRuleIDs_returns [OF assms] by (metis prod_cases3)
  with EnsureRuleIDs_result [OF assms(1) e] show ?thesis by blast
qed

definition example_port :: "string \<Rightarrow> string \<Rightarrow> port_rule" where
  "example_port rid p =
     \<lparr> prID = rid, prPort = p, prDescription = [], prSSH = False, prScope = [], prSources = [],
       prService = [] \<rparr>"

theorem EnsureRuleIDs_correct_witness:
  "\<exists>r' k' ch. EnsureRuleIDs counter_source 7
      (no_rules\<lparr>TCP := [example_port ''zz'' ''22''], UDP := [example_port [] ''53'']\<rparr>) =
      Some (r', k', ch) \<and> distinct (ids_of r') \<and> length (TCP r') = 1"
proof -
  have "keeps_drawing counter_source 2" by (rule counter_source_ok) simp
  then show ?thesis
    using EnsureRuleIDs_correct [of counter_source
        "no_rules\<lparr>TCP := [example_port ''zz'' ''22''], UDP := [example_port [] ''53'']\<rparr>" 7]
      counter_source_ok(1)
    by (fastforce simp: numeral_2_eq_2)
qed

text \<open>
  Counters survive: a rule whose id is well-formed and not taken by an earlier rule of the
  result keeps it, in both protocols, and a rule set that is already in order is returned
  unchanged, without a draw and without the changed flag, so the ids are stable across saves.
\<close>

theorem EnsureRuleIDs_stable:
  assumes "six_bytes rng" "EnsureRuleIDs rng k r = Some (r', k', ch)"
  shows "(\<forall>i < length (ids_of r). ValidRuleID (ids_of r ! i) \<longrightarrow>
            ids_of r ! i \<notin> set (take i (ids_of r')) \<longrightarrow> ids_of r' ! i = ids_of r ! i) \<and>
         EnsureRuleIDs rng k' r' = Some (r', k', False)"
proof
  from assms(2) obtain seen k1 ch1 seen' where
    t: "ensure_list rng (TCP r) [] k False = Some (TCP r', seen, k1, ch1)"
    and u: "ensure_list rng (UDP r) seen k1 ch1 = Some (UDP r', seen', k', ch)"
    by (rule EnsureRuleIDs_passes)
  have len: "length (TCP r') = length (TCP r)" "length (UDP r') = length (UDP r)"
    using EnsureRuleIDs_result(3,4) [OF assms] by (metis length_map)+
  have seen: "set seen = set (map prID (TCP r'))" using ensure_list_ids [OF assms(1) t] by simp
  show "\<forall>i < length (ids_of r). ValidRuleID (ids_of r ! i) \<longrightarrow>
      ids_of r ! i \<notin> set (take i (ids_of r')) \<longrightarrow> ids_of r' ! i = ids_of r ! i"
  proof (intro allI impI)
    fix i assume i: "i < length (ids_of r)" "ValidRuleID (ids_of r ! i)"
      "ids_of r ! i \<notin> set (take i (ids_of r'))"
    show "ids_of r' ! i = ids_of r ! i"
    proof (cases "i < length (TCP r)")
      case True
      with i len show ?thesis
        using ensure_list_first_kept [OF assms(1) t True]
        by (simp add: ids_of_def nth_append take_map)
    next
      case False
      with i len show ?thesis
        using ensure_list_first_kept [OF assms(1) u, of "i - length (TCP r)"]
        by (auto simp: ids_of_def nth_append take_map seen)
    qed
  qed
  show "EnsureRuleIDs rng k' r' = Some (r', k', False)"
    using EnsureRuleIDs_result(1,2) [OF assms] by (rule EnsureRuleIDs_keeps)
qed

theorem EnsureRuleIDs_stable_witness:
  "EnsureRuleIDs counter_source 1
     (no_rules\<lparr>TCP := [example_port ''000000000000'' ''22'', example_port [] ''80'']\<rparr>) =
   Some (no_rules\<lparr>TCP := [example_port ''000000000000'' ''22'',
                           example_port ''000000000001'' ''80'']\<rparr>, 2, True) \<and>
   EnsureRuleIDs counter_source 2
     (no_rules\<lparr>TCP := [example_port ''000000000000'' ''22'',
                        example_port ''000000000001'' ''80'']\<rparr>) =
   Some (no_rules\<lparr>TCP := [example_port ''000000000000'' ''22'',
                           example_port ''000000000001'' ''80'']\<rparr>, 2, False)"
proof -
  have d: "hex_encode (counter_source (Suc 0)) = ''000000000001''" by code_simp
  have v: "ValidRuleID ''000000000000''" by code_simp
  have f: "redraw counter_source [''000000000000''] ''000000000001'' (Suc (Suc 0)) =
      Some (''000000000001'', 2)" by (subst redraw.simps) simp
  have e: "EnsureRuleIDs counter_source 1
     (no_rules\<lparr>TCP := [example_port ''000000000000'' ''22'', example_port [] ''80'']\<rparr>) =
   Some (no_rules\<lparr>TCP := [example_port ''000000000000'' ''22'',
                           example_port ''000000000001'' ''80'']\<rparr>, 2, True)"
    by (simp add: EnsureRuleIDs_def no_rules_def example_port_def v NewRuleID_def d f)
  from EnsureRuleIDs_stable [OF counter_source_ok(1) e] e show ?thesis by blast
qed

end
