(* ===== verification/Validate.thy ===== *)
theory Validate
  imports RuleIDs
begin

text \<open>
  The trust boundary between the two processes: the checks of
  \<open>internal/shared/validate.go\<close>, every one with its error.  The text of an error message is
  not modelled; its kind and the value it names are.
\<close>

section \<open>Ports\<close>

datatype port_error = NotAPortNumber string | PortOutside int

definition ParsePortNumber :: "string \<Rightarrow> port_error + int" where
  "ParsePortNumber s =
     (case atoi s of
        None \<Rightarrow> Inl (NotAPortNumber s)
      | Some p \<Rightarrow> if p < 1 \<or> p > 65535 then Inl (PortOutside p) else Inr p)"

datatype rule_error =
    PortRequired
  | RangeStart port_error
  | RangeEnd port_error
  | RangeBackwards int int
  | BadPort port_error
  | UnknownScope string
  | BadSource string

definition IsListComment :: "string \<Rightarrow> bool" where
  "IsListComment entry =
     (let e = trim_space entry in e = [] \<or> has_prefix e ''#'')"

definition ValidateIPOrCIDR :: "string \<Rightarrow> string option" where
  "ValidateIPOrCIDR s =
     (if ParseIP s \<noteq> None then None else if ParseCIDR s \<noteq> None then None else Some s)"

definition validatePortSpec :: "string \<Rightarrow> rule_error option" where
  "validatePortSpec port =
     (case cut_char (CHR '':'') port of (start, stop, ok) \<Rightarrow>
        if ok then
          (case ParsePortNumber start of
             Inl e \<Rightarrow> Some (RangeStart e)
           | Inr lo \<Rightarrow>
               (case ParsePortNumber stop of
                  Inl e \<Rightarrow> Some (RangeEnd e)
                | Inr hi \<Rightarrow> if hi < lo then Some (RangeBackwards lo hi) else None))
        else (case ParsePortNumber port of Inl e \<Rightarrow> Some (BadPort e) | Inr _ \<Rightarrow> None))"

definition validatePortRule :: "port_rule \<Rightarrow> rule_error option" where
  "validatePortRule r =
     (if prPort r = [] then Some PortRequired
      else or_err (validatePortSpec (prPort r))
        (or_err
          (if prScope r = [] \<or> prScope r = ScopeHost \<or> prScope r = ScopeForwarded \<or>
              prScope r = ScopeBoth
           then None else Some (UnknownScope (prScope r)))
          (first_err (\<lambda>src. if IsListComment src then None
                            else map_option (\<lambda>_. BadSource src)
                                   (ValidateIPOrCIDR (trim_space src))) (prSources r))))"

section \<open>Rule sets\<close>

datatype rules_error =
    TCPRule string rule_error
  | UDPRule string rule_error
  | NotARuleID string
  | DuplicateRuleID string
  | BadBlocklist string
  | BadAllowlist string
  | UnknownFeed string
  | DuplicateFeed string
  | TooManyCountries nat
  | CustomSeparator nat char
  | BadProtocol string
  | BadSourcePort int
  | BadDestPort int

definition customRuleSeparators :: string where
  "customRuleSeparators = [CHR 0x0A, CHR 0x0D, CHR '';'']"

definition validateCustomRule :: "string \<Rightarrow> char option" where
  "validateCustomRule rule = find (\<lambda>c. c \<in> set customRuleSeparators) rule"

fun validate_ids :: "string list \<Rightarrow> port_rule list \<Rightarrow> rules_error option" where
  "validate_ids seen [] = None"
| "validate_ids seen (r # rs) =
     (if prID r = [] then validate_ids seen rs
      else if \<not> ValidRuleID (prID r) then Some (NotARuleID (prID r))
      else if prID r \<in> set seen then Some (DuplicateRuleID (prID r))
      else validate_ids (prID r # seen) rs)"

fun validate_feeds :: "string list \<Rightarrow> nat \<Rightarrow> string list \<Rightarrow> rules_error option" where
  "validate_feeds seen countries [] =
     (if countries > MaxCountries then Some (TooManyCountries countries) else None)"
| "validate_feeds seen countries (fid # ids) =
     (if \<not> KnownFeedID fid then Some (UnknownFeed fid)
      else if fid \<in> set seen then Some (DuplicateFeed fid)
      else validate_feeds (fid # seen)
             (if IsCountryFeedID fid then Suc countries else countries) ids)"

definition validateForwarding :: "forwarding_rule \<Rightarrow> rules_error option" where
  "validateForwarding fwd =
     (if fwProtocol fwd \<noteq> ''tcp'' \<and> fwProtocol fwd \<noteq> ''udp'' then Some (BadProtocol (fwProtocol fwd))
      else if fwSourcePort fwd < 1 \<or> fwSourcePort fwd > 65535 then Some (BadSourcePort (fwSourcePort fwd))
      else if fwDestPort fwd < 1 \<or> fwDestPort fwd > 65535 then Some (BadDestPort (fwDestPort fwd))
      else None)"

definition validateEntry :: "(string \<Rightarrow> rules_error) \<Rightarrow> string \<Rightarrow> rules_error option" where
  "validateEntry mk ip =
     (if IsListComment ip then None else map_option (\<lambda>_. mk ip) (ValidateIPOrCIDR ip))"

definition ValidateRules :: "rules \<Rightarrow> rules_error option" where
  "ValidateRules r =
     or_err (first_err (\<lambda>p. map_option (TCPRule (prPort p)) (validatePortRule p)) (TCP r))
    (or_err (first_err (\<lambda>p. map_option (UDPRule (prPort p)) (validatePortRule p)) (UDP r))
    (or_err (validate_ids [] (TCP r @ UDP r))
    (or_err (first_err (validateEntry BadBlocklist) (Blocklist r))
    (or_err (first_err (validateEntry BadAllowlist) (Allowlist r))
    (or_err (validate_feeds [] 0 (Feeds r))
    (or_err (first_err (\<lambda>(i, c). map_option (CustomSeparator (Suc i)) (validateCustomRule c))
                       (enumerate 0 (Custom r)))
            (first_err validateForwarding (Forwarding r))))))))"

section \<open>Network lists\<close>

datatype network_list_error = NotACIDR string string | NotAnAddress string string

definition ValidateNetworkList :: "string \<Rightarrow> string list \<Rightarrow> network_list_error option" where
  "ValidateNetworkList what entries =
     first_err (\<lambda>entry. if IsListComment entry then None
        else (case ParseCIDR (trim_space entry) of
                None \<Rightarrow> Some (NotACIDR what entry) | Some _ \<Rightarrow> None)) entries"

definition ValidateAddressList :: "string \<Rightarrow> string list \<Rightarrow> network_list_error option" where
  "ValidateAddressList key entries =
     first_err (\<lambda>entry. if IsListComment entry then None
        else map_option (\<lambda>_. NotAnAddress key entry) (ValidateIPOrCIDR (trim_space entry))) entries"

text \<open>
  \<open>ParseNetwork\<close>: \<open>netip.PrefixFrom(addr, bits).Masked()\<close> over the network \<open>net.ParseCIDR\<close>
  returns, an IPv4-mapped network of 96 bits or more as the IPv4 network it is.
\<close>

definition ParseNetwork :: "string \<Rightarrow> pfx option" where
  "ParseNetwork s =
     (case ParseCIDR (trim_space s) of
        None \<Rightarrow> None
      | Some (ip, bits) \<Rightarrow>
          let a = Addr ip [] in
          if Is4In6 a \<and> bits \<ge> 96 then Some (Masked (Prefix (Unmap a) (bits - 96)))
          else Some (Masked (Prefix a bits)))"

section \<open>Lemmas\<close>

lemma ParsePortNumber_range: "ParsePortNumber s = Inr p \<Longrightarrow> 1 \<le> p \<and> p \<le> 65535"
  by (auto simp: ParsePortNumber_def split: option.splits if_splits)

lemma validate_ids_None:
  "validate_ids seen rs = None \<longleftrightarrow>
     list_all ValidRuleID (filter (\<lambda>i. i \<noteq> []) (map prID rs)) \<and>
     distinct (filter (\<lambda>i. i \<noteq> []) (map prID rs)) \<and>
     set (filter (\<lambda>i. i \<noteq> []) (map prID rs)) \<inter> set seen = {}"
  by (induction seen rs rule: validate_ids.induct) auto

lemma validate_feeds_None:
  "validate_feeds seen n ids = None \<longleftrightarrow>
     list_all KnownFeedID ids \<and> distinct ids \<and> set ids \<inter> set seen = {} \<and>
     n + length (filter IsCountryFeedID ids) \<le> MaxCountries"
  by (induction seen n ids rule: validate_feeds.induct) auto

lemma validateEntry_None:
  "validateEntry mk ip = None \<longleftrightarrow> IsListComment ip \<or> ValidateIPOrCIDR ip = None"
  by (simp add: validateEntry_def)

lemma validateCustomRule_None:
  "validateCustomRule c = None \<longleftrightarrow> set c \<inter> set customRuleSeparators = {}"
  by (auto simp: validateCustomRule_def find_None_iff)

lemma custom_checks_None:
  "(\<forall>x\<in>set (enumerate k cs).
      (case x of (i, c) \<Rightarrow> map_option (CustomSeparator (Suc i)) (validateCustomRule c)) = None) \<longleftrightarrow>
   (\<forall>c\<in>set cs. set c \<inter> set customRuleSeparators = {})"
  by (induction cs arbitrary: k) (simp_all add: validateCustomRule_None)

text \<open>The ports a rule's text names, both ends included; \<open>None\<close> when it names none.\<close>

definition port_interval :: "string \<Rightarrow> (int \<times> int) option" where
  "port_interval port =
     (case cut_char (CHR '':'') port of (start, stop, ok) \<Rightarrow>
        (case (ParsePortNumber start, ParsePortNumber (if ok then stop else start)) of
           (Inr lo, Inr hi) \<Rightarrow> if lo \<le> hi then Some (lo, hi) else None
         | _ \<Rightarrow> None))"

lemma port_interval_bounds: "port_interval p = Some (lo, hi) \<Longrightarrow> 1 \<le> lo \<and> lo \<le> hi \<and> hi \<le> 65535"
  by (auto simp: port_interval_def dest!: ParsePortNumber_range split: sum.splits prod.splits if_splits)

lemma ParsePortNumber_empty: "ParsePortNumber [] = Inl (NotAPortNumber [])"
  by (simp add: ParsePortNumber_def atoi_def)

lemma validatePortSpec_None: "validatePortSpec p = None \<longleftrightarrow> port_interval p \<noteq> None"
  using cut_char_cases [of "CHR '':''" p]
  by (auto simp: validatePortSpec_def port_interval_def not_less split: sum.splits prod.splits if_splits)

definition source_ok :: "string \<Rightarrow> bool" where
  "source_ok src \<longleftrightarrow> IsListComment src \<or> ValidateIPOrCIDR (trim_space src) = None"

definition port_rule_ok :: "port_rule \<Rightarrow> bool" where
  "port_rule_ok p \<longleftrightarrow> port_interval (prPort p) \<noteq> None \<and>
     prScope p \<in> {[], ScopeHost, ScopeForwarded, ScopeBoth} \<and> list_all source_ok (prSources p)"

lemma validatePortRule_None: "validatePortRule p = None \<longleftrightarrow> port_rule_ok p"
proof (cases "prPort p = []")
  case True
  then show ?thesis
    by (simp add: validatePortRule_def port_rule_ok_def port_interval_def cut_char_def
        ParsePortNumber_empty)
next
  case False
  then show ?thesis
    by (auto simp: validatePortRule_def port_rule_ok_def validatePortSpec_None source_ok_def
        list_all_iff split: if_splits)
qed

definition entry_ok :: "string \<Rightarrow> bool" where
  "entry_ok e \<longleftrightarrow> IsListComment e \<or> ParseIP e \<noteq> None \<or> ParseCIDR e \<noteq> None"

definition forwarding_ok :: "forwarding_rule \<Rightarrow> bool" where
  "forwarding_ok f \<longleftrightarrow> fwProtocol f \<in> {''tcp'', ''udp''} \<and> fwSourcePort f \<in> {1..65535} \<and>
     fwDestPort f \<in> {1..65535}"

definition given_ids :: "rules \<Rightarrow> string list" where
  "given_ids r = filter (\<lambda>i. i \<noteq> []) (ids_of r)"

definition rules_ok :: "rules \<Rightarrow> bool" where
  "rules_ok r \<longleftrightarrow>
     list_all port_rule_ok (TCP r @ UDP r) \<and>
     list_all ValidRuleID (given_ids r) \<and> distinct (given_ids r) \<and>
     list_all entry_ok (Blocklist r @ Allowlist r) \<and>
     list_all KnownFeedID (Feeds r) \<and> distinct (Feeds r) \<and>
     length (filter IsCountryFeedID (Feeds r)) \<le> MaxCountries \<and>
     (\<forall>c\<in>set (Custom r). set c \<inter> set customRuleSeparators = {}) \<and>
     list_all forwarding_ok (Forwarding r)"

lemma validateForwarding_None: "validateForwarding f = None \<longleftrightarrow> forwarding_ok f"
  by (auto simp: validateForwarding_def forwarding_ok_def)

lemma ValidateRules_None: "ValidateRules r = None \<longleftrightarrow> rules_ok r"
  unfolding ValidateRules_def rules_ok_def
  by (auto simp: validatePortRule_None validate_ids_None validate_feeds_None custom_checks_None
      validateForwarding_None validateEntry_def entry_ok_def ValidateIPOrCIDR_def list_all_iff
      given_ids_def ids_of_def simp del: enumerate_simps split: if_splits)

section \<open>Properties\<close>

text \<open>
  The store's repair and the boundary's check agree: after \<open>EnsureRuleIDs\<close> a rule set is
  refused exactly as the same set without any ids would be, so no id of a hand-edited file
  can make an apply fail.
\<close>

definition clear_ids :: "rules \<Rightarrow> rules" where
  "clear_ids r = r\<lparr>TCP := map erase_id (TCP r), UDP := map erase_id (UDP r)\<rparr>"

lemma erase_id_port: "prPort (erase_id p) = prPort p"
  by (simp add: erase_id_def)

lemma validatePortRule_erase: "validatePortRule (erase_id p) = validatePortRule p"
  by (simp add: validatePortRule_def erase_id_def)

lemma first_err_erase:
  "first_err (\<lambda>p. map_option (mk (prPort p)) (validatePortRule p)) (map erase_id ps) =
   first_err (\<lambda>p. map_option (mk (prPort p)) (validatePortRule p)) ps"
  by (induction ps) (auto simp: validatePortRule_erase erase_id_port split: option.splits)

lemma validate_ids_erased: "validate_ids seen (map erase_id ps @ map erase_id qs) = None"
  by (auto simp: validate_ids_None erase_id_def filter_empty_conv)

theorem EnsureRuleIDs_validates:
  assumes "six_bytes rng" "EnsureRuleIDs rng k r = Some (r', k', ch)"
  shows "ValidateRules r' = ValidateRules (clear_ids r)"
proof -
  note res = EnsureRuleIDs_result [OF assms]
  have ids: "validate_ids [] (TCP r' @ UDP r') = None"
    using res(1,2) by (auto simp: validate_ids_None ids_of_def list_all_iff distinct_filter)
  have ports: "first_err (\<lambda>p. map_option (mk (prPort p)) (validatePortRule p)) (TCP r') =
      first_err (\<lambda>p. map_option (mk (prPort p)) (validatePortRule p)) (map erase_id (TCP r))"
    "first_err (\<lambda>p. map_option (mk (prPort p)) (validatePortRule p)) (UDP r') =
      first_err (\<lambda>p. map_option (mk (prPort p)) (validatePortRule p)) (map erase_id (UDP r))" for mk
    using first_err_erase [of mk "TCP r'"] first_err_erase [of mk "UDP r'"] res(3,4) by simp_all
  have rest: "Blocklist r' = Blocklist r" "Allowlist r' = Allowlist r" "Feeds r' = Feeds r"
    "Custom r' = Custom r" "Forwarding r' = Forwarding r"
    using arg_cong [OF res(5), of Blocklist] arg_cong [OF res(5), of Allowlist]
      arg_cong [OF res(5), of Feeds] arg_cong [OF res(5), of Custom]
      arg_cong [OF res(5), of Forwarding] by simp_all
  show ?thesis
    unfolding ValidateRules_def clear_ids_def
    by (simp add: ids ports rest validate_ids_erased)
qed

theorem EnsureRuleIDs_validates_witness:
  "EnsureRuleIDs counter_source 1 (no_rules\<lparr>TCP := [example_port ''a;b'' ''22'']\<rparr>) =
     Some (no_rules\<lparr>TCP := [example_port ''000000000001'' ''22'']\<rparr>, 2, True) \<and>
   ValidateRules (no_rules\<lparr>TCP := [example_port ''000000000001'' ''22'']\<rparr>) =
     ValidateRules (clear_ids (no_rules\<lparr>TCP := [example_port ''a;b'' ''22'']\<rparr>)) \<and>
   ValidateRules (no_rules\<lparr>TCP := [example_port ''a;b'' ''22'']\<rparr>) = Some (NotARuleID ''a;b'')"
proof -
  have d: "hex_encode (counter_source (Suc 0)) = ''000000000001''" by code_simp
  have f: "redraw counter_source [] ''000000000001'' (Suc (Suc 0)) = Some (''000000000001'', 2)"
    by (subst redraw.simps) simp
  have e: "EnsureRuleIDs counter_source 1 (no_rules\<lparr>TCP := [example_port ''a;b'' ''22'']\<rparr>) =
     Some (no_rules\<lparr>TCP := [example_port ''000000000001'' ''22'']\<rparr>, 2, True)"
    by (simp add: EnsureRuleIDs_def no_rules_def example_port_def ValidRuleID_def NewRuleID_def d f)
  have "ValidateRules (no_rules\<lparr>TCP := [example_port ''a;b'' ''22'']\<rparr>) = Some (NotARuleID ''a;b'')"
    by code_simp
  with e EnsureRuleIDs_validates [OF counter_source_ok(1) e] show ?thesis by blast
qed

end
