(* ===== verification/RuleGrammar.thy ===== *)
theory RuleGrammar
  imports NetipText Validate "HOL-Library.Code_Target_Nat"
begin

text \<open>
  What a rule set may say, written down without the checks of \<open>internal/shared/validate.go\<close>:
  the texts of ports as a grammar over decimal numerals, the feeds by name, ids by their
  alphabet.  The property says that \<open>ValidateRules\<close> admits exactly these rule sets, so the
  grammar is what the builders behind the boundary may rely on.
\<close>

section \<open>The grammar\<close>

text \<open>
  A port is its decimal numeral, with any zeros and one plus sign in front: \<open>strconv.Atoi\<close> reads
  both.  A range is two ports around a colon, the lower one first.
\<close>

inductive port_text :: "string \<Rightarrow> nat \<Rightarrow> bool" where
  numeral: "1 \<le> n \<Longrightarrow> n \<le> 65535 \<Longrightarrow> port_text (replicate k (CHR ''0'') @ digits_of n) n"
| plus: "1 \<le> n \<Longrightarrow> n \<le> 65535 \<Longrightarrow> port_text (CHR ''+'' # replicate k (CHR ''0'') @ digits_of n) n"

inductive ports_text :: "string \<Rightarrow> nat \<Rightarrow> nat \<Rightarrow> bool" where
  single: "port_text s n \<Longrightarrow> ports_text s n n"
| range: "port_text a lo \<Longrightarrow> port_text b hi \<Longrightarrow> lo \<le> hi \<Longrightarrow> ports_text (a @ '':'' @ b) lo hi"

definition note_line :: "string \<Rightarrow> bool" where
  "note_line e \<longleftrightarrow> trim_space e = [] \<or> (\<exists>rest. trim_space e = CHR ''#'' # rest)"

definition address_text :: "string \<Rightarrow> bool" where
  "address_text e \<longleftrightarrow> ParseIP e \<noteq> None \<or> ParseCIDR e \<noteq> None"

definition country_feed :: "string \<Rightarrow> bool" where
  "country_feed f \<longleftrightarrow> (\<exists>cc\<in>set CountryCodes. f = ''country-'' @ cc)"

definition offered_feed :: "string \<Rightarrow> bool" where
  "offered_feed f \<longleftrightarrow>
     f \<in> {''spamhaus-drop'', ''dshield'', ''blocklist-de-ssh'', ''blocklist-de-imap'', ''cins'', ''et-compromised'',
          ''blocklist-de'', ''ipsum-3'', ''hagezi-tif'', ''tor-exits'', ''own-1'', ''own-2'', ''own-3''} \<or> country_feed f"

definition well_formed_port_rule :: "port_rule \<Rightarrow> bool" where
  "well_formed_port_rule p \<longleftrightarrow>
     (\<exists>lo hi. ports_text (prPort p) lo hi) \<and>
     prScope p \<in> {'''', ''host'', ''forwarded'', ''both''} \<and>
     (\<forall>src\<in>set (prSources p). note_line src \<or> address_text (trim_space src))"

definition well_formed_forward :: "forwarding_rule \<Rightarrow> bool" where
  "well_formed_forward f \<longleftrightarrow>
     fwProtocol f \<in> {''tcp'', ''udp''} \<and> 1 \<le> fwSourcePort f \<and> fwSourcePort f \<le> 65535 \<and>
     1 \<le> fwDestPort f \<and> fwDestPort f \<le> 65535"

text \<open>Two rules never carry the same id; a rule without one is given one by the store.\<close>

definition ids_apart :: "port_rule list \<Rightarrow> bool" where
  "ids_apart rs \<longleftrightarrow>
     (\<forall>i < length rs. \<forall>j < i. prID (rs ! i) = prID (rs ! j) \<longrightarrow> prID (rs ! i) = [])"

definition well_formed_rules :: "rules \<Rightarrow> bool" where
  "well_formed_rules r \<longleftrightarrow>
     (\<forall>p\<in>set (TCP r @ UDP r). well_formed_port_rule p \<and>
        (prID p = [] \<or> length (prID p) = 12 \<and> set (prID p) \<subseteq> set ''0123456789abcdef'')) \<and>
     ids_apart (TCP r @ UDP r) \<and>
     (\<forall>e\<in>set (Blocklist r @ Allowlist r). note_line e \<or> address_text e) \<and>
     (\<forall>f\<in>set (Feeds r). offered_feed f) \<and> distinct (Feeds r) \<and>
     card {f \<in> set (Feeds r). country_feed f} \<le> 30 \<and>
     (\<forall>c\<in>set (Custom r). CHR 0x0A \<notin> set c \<and> CHR 0x0D \<notin> set c \<and> CHR '';'' \<notin> set c) \<and>
     (\<forall>f\<in>set (Forwarding r). well_formed_forward f)"

section \<open>Numerals\<close>

lemma zero_digit: "is_digit (CHR ''0'')" "digit_val (CHR ''0'') = 0"
  by (simp_all add: is_digit_def digit_val_def)

lemma nat_of_zeros: "nat_of_digits (replicate k (CHR ''0'') @ ds) = nat_of_digits ds"
  by (induction k) (simp_all add: nat_of_digits_def zero_digit)

lemma digit_of_char: "is_digit c \<Longrightarrow> char_of (48 + digit_val c) = c"
  by (auto simp: is_digit_def digit_val_def)

lemma digits_of_snoc:
  assumes "is_digit c" "0 < n"
  shows "digits_of (n * 10 + digit_val c) = digits_of n @ [c]"
proof -
  have "digit_val c < 10" using assms(1) by (auto simp: is_digit_def digit_val_def)
  with assms show ?thesis by (subst digits_of.simps) (simp add: digit_of_char)
qed

lemma zero_numeral: "digits_of 0 = ''0''"
  by code_simp

text \<open>Every run of digits is zeros in front of a numeral, the numeral of its value.\<close>

lemma digits_are_numeral:
  assumes "list_all is_digit ds" "ds \<noteq> []"
  shows "\<exists>k. ds = replicate k (CHR ''0'') @ digits_of (nat_of_digits ds)"
  using assms
proof (induction ds rule: rev_induct)
  case (snoc c ds)
  then have c: "is_digit c" by simp
  have v: "nat_of_digits (ds @ [c]) = nat_of_digits ds * 10 + digit_val c" by (simp add: nat_of_digits_def)
  have small: "digit_val c < 10" using c by (auto simp: is_digit_def digit_val_def)
  show ?case
  proof (cases "ds = []")
    case True
    then have "ds @ [c] = replicate 0 (CHR ''0'') @ digits_of (nat_of_digits (ds @ [c]))"
      using small c by (subst digits_of.simps) (simp add: nat_of_digits_def digit_of_char)
    then show ?thesis by blast
  next
    case False
    then obtain k where k: "ds = replicate k (CHR ''0'') @ digits_of (nat_of_digits ds)" using snoc by auto
    show ?thesis
    proof (cases "nat_of_digits ds = 0")
      case True
      then have "ds = replicate (Suc k) (CHR ''0'')"
        using k zero_numeral by (simp add: replicate_append_same)
      moreover have "digits_of (digit_val c) = [c]"
        using small c by (subst digits_of.simps) (simp add: digit_of_char)
      ultimately show ?thesis using v True by (metis add_0 mult_0)
    next
      case False
      with k show ?thesis by (metis append.assoc c digits_of_snoc neq0_conv v)
    qed
  qed
qed simp

lemma port_text_reads:
  assumes "port_text s n"
  shows "ParsePortNumber s = Inr (int n)" and "CHR '':'' \<notin> set s"
proof -
  have dig: "list_all is_digit (replicate k (CHR ''0'') @ digits_of n)" for k
    using digits_of_digits [of n] by (induction k) (simp_all add: zero_digit)
  have colon: "CHR '':'' \<notin> set (replicate k (CHR ''0'') @ digits_of n)" for k
  proof -
    have "\<not> is_digit (CHR '':'')" by (simp add: is_digit_def)
    with dig [of k] show ?thesis unfolding list_all_iff by blast
  qed
  have ne: "replicate k (CHR ''0'') @ digits_of n \<noteq> []" for k by simp
  have first: "c \<noteq> CHR ''-'' \<and> c \<noteq> CHR ''+''" if "replicate k (CHR ''0'') @ digits_of n = c # cs" for k c cs
    using dig [of k] that by (auto simp: is_digit_def)
  have "atoi (replicate k (CHR ''0'') @ digits_of n) = Some (int n)" if "n \<le> 65535" for k
    using that dig [of k] ne [of k] first [of k] nat_of_zeros [of k "digits_of n"]
    by (cases "replicate k (CHR ''0'') @ digits_of n") (auto simp: atoi_def)
  moreover have "atoi (CHR ''+'' # replicate k (CHR ''0'') @ digits_of n) = Some (int n)" if "n \<le> 65535" for k
    using that dig [of k] nat_of_zeros [of k "digits_of n"] by (simp add: atoi_def)
  ultimately show "ParsePortNumber s = Inr (int n)"
    using assms by (auto simp: ParsePortNumber_def elim!: port_text.cases)
  show "CHR '':'' \<notin> set s"
    using assms colon by cases auto
qed

lemma read_port_is_text:
  assumes "ParsePortNumber s = Inr v"
  shows "port_text s (nat v)"
proof -
  have v: "atoi s = Some v" "1 \<le> v" "v \<le> 65535"
    using assms by (auto simp: ParsePortNumber_def split: option.splits if_splits)
  then obtain ds where ds: "s = ds \<or> s = CHR ''+'' # ds" "list_all is_digit ds" "ds \<noteq> []" "nat_of_digits ds = nat v"
    by (cases s) (auto simp: atoi_def Let_def split: if_splits, blast)
  then obtain k where "ds = replicate k (CHR ''0'') @ digits_of (nat v)" using digits_are_numeral by metis
  with ds(1) v show ?thesis by (auto intro: numeral plus)
qed

lemma port_text_iff: "port_text s n \<longleftrightarrow> ParsePortNumber s = Inr (int n)"
  using port_text_reads(1) read_port_is_text [of s "int n"] by auto

lemma ports_text_iff: "(\<exists>lo hi. ports_text s lo hi) \<longleftrightarrow> port_interval s \<noteq> None"
proof
  assume "\<exists>lo hi. ports_text s lo hi"
  then obtain lo hi where "ports_text s lo hi" by blast
  then show "port_interval s \<noteq> None"
  proof cases
    case single
    then show ?thesis
      using port_text_reads by (simp add: port_interval_def cut_char_no)
  next
    case (range a b)
    then show ?thesis
      using port_text_reads [OF range(2)] port_text_reads(1) [OF range(3)]
      by (simp add: port_interval_def cut_char_yes)
  qed
next
  assume "port_interval s \<noteq> None"
  then obtain a b f lo hi where c: "cut_char (CHR '':'') s = (a, b, f)" and
    p: "ParsePortNumber a = Inr lo" "ParsePortNumber (if f then b else a) = Inr hi" "lo \<le> hi"
    by (auto simp: port_interval_def split: prod.splits sum.splits if_splits)
  note t = read_port_is_text [OF p(1)] read_port_is_text [OF p(2)]
  show "\<exists>lo hi. ports_text s lo hi"
  proof (cases f)
    case True
    with t p(3) have "ports_text (a @ '':'' @ b) (nat lo) (nat hi)" by (intro range) auto
    with True cut_char_cases [OF c] show ?thesis by auto
  next
    case False
    with t(1) cut_char_cases [OF c] show ?thesis by (auto intro: single)
  qed
qed

section \<open>Feeds, ids and lists\<close>

lemma country_feed_iff: "country_feed f \<longleftrightarrow> IsCountryFeedID f"
  by (auto simp: country_feed_def IsCountryFeedID_def CountryCode_def countryFeedPrefix_def has_prefix_iff)

lemma own_feeds: "set (map OwnFeedID [1..<Suc MaxOwnFeeds]) = {''own-1'', ''own-2'', ''own-3''}"
proof -
  have "map OwnFeedID [1..<Suc MaxOwnFeeds] = [''own-1'', ''own-2'', ''own-3'']" by code_simp
  then show ?thesis by simp
qed

lemma catalogue_ids:
  "cfID ` set FeedCatalogue = {''spamhaus-drop'', ''dshield'', ''blocklist-de-ssh'', ''blocklist-de-imap'', ''cins'',
     ''et-compromised'', ''blocklist-de'', ''ipsum-3'', ''hagezi-tif'', ''tor-exits''}"
  by (simp add: FeedCatalogue_def)

lemma offered_feed_iff: "offered_feed f \<longleftrightarrow> KnownFeedID f"
proof -
  have "find (\<lambda>c. cfID c = f) FeedCatalogue \<noteq> None \<longleftrightarrow> f \<in> cfID ` set FeedCatalogue"
    by (auto simp: find_None_iff)
  then have "KnownFeedID f \<longleftrightarrow> f \<in> cfID ` set FeedCatalogue \<or> IsOwnFeedID f \<or> IsCountryFeedID f"
    by (auto simp: KnownFeedID_def CatalogueFeedByID_def IsCountryFeedID_def split: option.splits)
  then show ?thesis
    unfolding offered_feed_def country_feed_iff IsOwnFeedID_def own_feeds catalogue_ids
    by (simp only: insert_iff empty_iff simp_thms disj_assoc)
qed

lemma hex_letters: "list_all is_lower_hex s \<longleftrightarrow> set s \<subseteq> set ''0123456789abcdef''"
proof -
  have "map char_of ([48..<58] @ [97..<103 :: nat]) = ''0123456789abcdef''" by code_simp
  then have letters: "set ''0123456789abcdef'' = char_of ` ({48..<58} \<union> {97..<103 :: nat})"
    by (metis image_Un set_append set_map set_upt)
  have "is_lower_hex c \<longleftrightarrow> c \<in> char_of ` ({48..<58} \<union> {97..<103 :: nat})" for c
  proof
    assume "is_lower_hex c"
    then have "(of_char c :: nat) \<in> {48..<58} \<union> {97..<103}" by (auto simp: is_lower_hex_def Let_def)
    then show "c \<in> char_of ` ({48..<58} \<union> {97..<103 :: nat})" by (metis char_of_char image_eqI)
  qed (auto simp: is_lower_hex_def)
  then have "is_lower_hex c \<longleftrightarrow> c \<in> set ''0123456789abcdef''" for c unfolding letters by blast
  then show ?thesis unfolding list_all_iff by blast
qed

lemma ids_apart_iff: "ids_apart rs \<longleftrightarrow> distinct (filter (\<lambda>i. i \<noteq> []) (map prID rs))"
proof (induction rs rule: rev_induct)
  case (snoc r rs)
  have "ids_apart (rs @ [r]) \<longleftrightarrow> ids_apart rs \<and> (prID r \<in> set (map prID rs) \<longrightarrow> prID r = [])"
    by (fastforce simp: ids_apart_def nth_append less_Suc_eq in_set_conv_nth)
  with snoc show ?case by auto
qed (simp add: ids_apart_def)

lemma note_line_iff: "note_line e \<longleftrightarrow> IsListComment e"
  by (auto simp: note_line_def IsListComment_def Let_def has_prefix_iff)

lemma country_count:
  "distinct fs \<Longrightarrow> card {f \<in> set fs. country_feed f} = length (filter IsCountryFeedID fs)"
  using distinct_card [of "filter IsCountryFeedID fs"] by (simp add: country_feed_iff)

lemma well_formed_port_rule_iff: "well_formed_port_rule p \<longleftrightarrow> port_rule_ok p"
  by (auto simp: well_formed_port_rule_def port_rule_ok_def ports_text_iff note_line_iff address_text_def source_ok_def
      list_all_iff ValidateIPOrCIDR_def ScopeHost_def ScopeForwarded_def ScopeBoth_def)

lemma well_formed_forward_iff: "well_formed_forward f \<longleftrightarrow> forwarding_ok f"
  by (auto simp: well_formed_forward_def forwarding_ok_def)

lemma given_ids_hex:
  "list_all ValidRuleID (filter (\<lambda>i. i \<noteq> []) (map prID rs)) \<longleftrightarrow>
   (\<forall>p\<in>set rs. prID p = [] \<or> length (prID p) = 12 \<and> set (prID p) \<subseteq> set ''0123456789abcdef'')"
  unfolding ValidRuleID_def hex_letters [symmetric] by (auto simp: list_all_iff)

section \<open>Properties\<close>

text \<open>
  C30. The boundary admits exactly the well-formed rule sets: every port is the numeral of a
  number from 1 to 65535 or a range of two, low end first, every id is twelve lower-case hex
  digits and nobody else's, every list entry that is not a note is an address or a network,
  every feed is one of the ten offered, the three of one's own or a country, each at most once
  and at most thirty countries, every custom rule is one statement, every forward is TCP or UDP
  between ports in range.  The numeral may carry zeros and a plus sign.
\<close>

theorem ValidateRules_iff: "ValidateRules r = None \<longleftrightarrow> well_formed_rules r"
proof -
  have ids: "list_all ValidRuleID (given_ids r) \<longleftrightarrow> (\<forall>p\<in>set (TCP r @ UDP r). prID p = [] \<or>
      length (prID p) = 12 \<and> set (prID p) \<subseteq> set ''0123456789abcdef'')"
    "distinct (given_ids r) \<longleftrightarrow> ids_apart (TCP r @ UDP r)"
    unfolding given_ids_def ids_of_def map_append [symmetric] by (rule given_ids_hex, rule ids_apart_iff [symmetric])
  have lists: "list_all entry_ok es \<longleftrightarrow> (\<forall>e\<in>set es. note_line e \<or> address_text e)" for es
    by (simp add: list_all_iff entry_ok_def note_line_iff address_text_def)
  have feeds: "distinct (Feeds r) \<and> length (filter IsCountryFeedID (Feeds r)) \<le> MaxCountries \<longleftrightarrow>
      distinct (Feeds r) \<and> card {f \<in> set (Feeds r). country_feed f} \<le> 30"
    using country_count [of "Feeds r"] by (auto simp: MaxCountries_def)
  have statements: "set c \<inter> set customRuleSeparators = {} \<longleftrightarrow>
      CHR 0x0A \<notin> set c \<and> CHR 0x0D \<notin> set c \<and> CHR '';'' \<notin> set c" for c
    by (simp add: customRuleSeparators_def)
  have "rules_ok r \<longleftrightarrow> well_formed_rules r"
    unfolding rules_ok_def well_formed_rules_def ids lists statements unfolding list_all_iff
      well_formed_port_rule_iff [symmetric] well_formed_forward_iff [symmetric] offered_feed_iff [symmetric]
    using feeds by blast
  then show ?thesis by (simp add: ValidateRules_None)
qed

definition listed_port :: "string \<Rightarrow> rules" where
  "listed_port port = no_rules\<lparr>TCP := [example_port [] port]\<rparr>"

theorem ValidateRules_iff_witness:
  "well_formed_rules (listed_port ''1:65535'') \<and> well_formed_rules (listed_port ''+80'') \<and>
   \<not> well_formed_rules (listed_port ''65536'') \<and> \<not> well_formed_rules (listed_port ''0'') \<and>
   \<not> well_formed_rules (listed_port ''443:80'')"
  unfolding ValidateRules_iff [symmetric] by code_simp

end
