(* ===== verification/Acceptance.thy ===== *)
theory Acceptance
  imports Prelude
begin

text \<open>
  \<^verbatim>\<open>internal/core/acceptance.go\<close>: the two-step activation window.  The mutex makes every
  method one atomic step; \<open>Wait\<close> is two of them, the capture of the channels and deadline
  (\<open>wait_ready\<close> is the select it then blocks in) and the decision \<open>wait_finish\<close> taken under
  the lock.  Time is the number of nanoseconds since Go's zero time, read by the caller and
  passed in, so the zero deadline of a controller that never started is \<open>0\<close>.
\<close>

section \<open>State and operations\<close>

datatype acceptance_status = AcceptanceIdle | AcceptancePending | AcceptanceAccepted
  | AcceptanceRolledBack

text \<open>
  \<open>acceptCh\<close> is a channel of capacity one: \<open>None\<close> is the nil channel, \<open>Some b\<close> a made channel
  that holds a value when \<open>b\<close>.  \<open>cancelCh\<close> is never sent on, only closed: \<open>Some True\<close> is closed.
\<close>

record acceptance =
  status :: acceptance_status
  acceptCh :: "bool option"
  cancelCh :: "bool option"
  cancelled :: bool
  accepted :: bool
  duration :: int
  deadline :: int
  stopping :: bool
  reason :: string

definition ReasonTimeout :: string where "ReasonTimeout = ''timeout''"
definition ReasonOperator :: string where "ReasonOperator = ''cancelled by operator''"
definition ReasonPanic :: string where "ReasonPanic = ''panic mode''"
definition ReasonCoreStopped :: string where "ReasonCoreStopped = ''core stopped''"

definition NewAcceptance :: "int \<Rightarrow> acceptance" where
  "NewAcceptance d =
     \<lparr>status = AcceptanceIdle, acceptCh = None, cancelCh = None, cancelled = False,
      accepted = False, duration = d, deadline = 0, stopping = False, reason = ''''\<rparr>"

definition Start :: "int \<Rightarrow> int \<Rightarrow> acceptance \<Rightarrow> acceptance" where
  "Start now d a =
     (if status a = AcceptancePending then a
      else
        let dur = (if d > 0 then d else duration a);
            a1 = a\<lparr>duration := dur, acceptCh := Some False, cancelCh := Some False,
                   cancelled := False, accepted := False, status := AcceptancePending,
                   deadline := now + dur, reason := ReasonTimeout\<rparr>
        in if stopping a
           then a1\<lparr>cancelled := True, reason := ReasonCoreStopped, cancelCh := Some True\<rparr>
           else a1)"

definition Remaining :: "int \<Rightarrow> acceptance \<Rightarrow> int" where
  "Remaining now a =
     (if status a \<noteq> AcceptancePending then 0
      else if deadline a - now > 0 then deadline a - now else 0)"

definition wait_ready :: "int \<Rightarrow> acceptance \<Rightarrow> bool" where
  "wait_ready now a \<longleftrightarrow> cancelCh a = Some True \<or> acceptCh a = Some True \<or> deadline a \<le> now"

definition wait_finish :: "acceptance \<Rightarrow> acceptance \<times> bool" where
  "wait_finish a =
     (a\<lparr>status := (if accepted a then AcceptanceAccepted else AcceptanceRolledBack)\<rparr>, accepted a)"

definition cancel :: "int \<Rightarrow> string \<Rightarrow> acceptance \<Rightarrow> acceptance \<times> bool" where
  "cancel now r a =
     (if status a \<noteq> AcceptancePending \<or> cancelled a \<or> accepted a \<or> cancelCh a = None
         \<or> \<not> now < deadline a
      then (a, False)
      else (a\<lparr>reason := (if r \<noteq> '''' then r else reason a), cancelled := True,
              cancelCh := Some True\<rparr>, True))"

definition CancelByOperator :: "int \<Rightarrow> acceptance \<Rightarrow> acceptance \<times> bool" where
  "CancelByOperator now a = cancel now ReasonOperator a"

definition CancelForPanic :: "int \<Rightarrow> acceptance \<Rightarrow> acceptance \<times> bool" where
  "CancelForPanic now a = cancel now ReasonPanic a"

definition CancelForShutdown :: "int \<Rightarrow> acceptance \<Rightarrow> acceptance" where
  "CancelForShutdown now a = fst (cancel now ReasonCoreStopped (a\<lparr>stopping := True\<rparr>))"

definition RecordRolledBack :: "string \<Rightarrow> acceptance \<Rightarrow> acceptance" where
  "RecordRolledBack r a = a\<lparr>status := AcceptanceRolledBack, reason := r\<rparr>"

definition Accept :: "int \<Rightarrow> acceptance \<Rightarrow> acceptance \<times> bool" where
  "Accept now a =
     (if status a \<noteq> AcceptancePending \<or> cancelled a \<or> \<not> now < deadline a then (a, False)
      else (a\<lparr>accepted := True, acceptCh := Some True\<rparr>, True))"

definition Reset :: "acceptance \<Rightarrow> acceptance" where
  "Reset a = a\<lparr>status := AcceptanceIdle\<rparr>"

lemmas acceptance_defs =
  Start_def Remaining_def wait_ready_def wait_finish_def cancel_def CancelByOperator_def
  CancelForPanic_def CancelForShutdown_def RecordRolledBack_def Accept_def Reset_def

section \<open>Runs of the controller\<close>

text \<open>
  A run interleaves the methods in any order, each at a clock reading that never goes back.
  The event carries the answer the method gave, so a run is also the record of what its
  callers were told.
\<close>

datatype acc_event =
    EvStart int | EvAccept bool | EvCancel string bool | EvShutdown | EvWait bool
  | EvReset | EvRecord string

inductive acc_step :: "int \<Rightarrow> acceptance \<Rightarrow> acc_event \<Rightarrow> acceptance \<Rightarrow> bool" where
  start: "acc_step now a (EvStart d) (Start now d a)"
| accept: "Accept now a = (b, r) \<Longrightarrow> acc_step now a (EvAccept r) b"
| cancel: "why \<in> {'''', ReasonOperator, ReasonPanic} \<Longrightarrow> cancel now why a = (b, r) \<Longrightarrow>
     acc_step now a (EvCancel why r) b"
| shutdown: "acc_step now a EvShutdown (CancelForShutdown now a)"
| wait: "status a = AcceptancePending \<Longrightarrow> wait_ready now a \<Longrightarrow> wait_finish a = (b, r) \<Longrightarrow>
     acc_step now a (EvWait r) b"
| reset: "acc_step now a EvReset (Reset a)"
| record_rolled_back: "acc_step now a (EvRecord why) (RecordRolledBack why a)"

inductive acc_run :: "int \<Rightarrow> acceptance \<Rightarrow> (int \<times> acc_event) list \<Rightarrow> acceptance \<Rightarrow> bool" where
  stop: "acc_run t a [] a"
| more: "t \<le> now \<Longrightarrow> acc_step now a e b \<Longrightarrow> acc_run now b es c \<Longrightarrow>
     acc_run t a ((now, e) # es) c"

inductive_cases acc_step_startE: "acc_step now a (EvStart d) b"
inductive_cases acc_step_acceptE: "acc_step now a (EvAccept r) b"
inductive_cases acc_step_cancelE: "acc_step now a (EvCancel why r) b"
inductive_cases acc_step_waitE: "acc_step now a (EvWait r) b"
inductive_cases acc_run_nilE: "acc_run t a [] c"
inductive_cases acc_run_consE: "acc_run t a (x # es) c"

text \<open>
  What the fields of a controller agree on while a window is open: the channels exist, the
  cancel channel is closed exactly when the window is cancelled, the accept channel holds a
  value exactly when it is accepted, never both, and a reason other than a timeout is the
  reason of a cancel.
\<close>

definition acc_inv :: "acceptance \<Rightarrow> bool" where
  "acc_inv a \<longleftrightarrow>
     (status a = AcceptancePending \<longrightarrow>
        cancelCh a = Some (cancelled a) \<and> acceptCh a = Some (accepted a) \<and>
        \<not> (cancelled a \<and> accepted a) \<and> (\<not> cancelled a \<longrightarrow> reason a = ReasonTimeout))"

lemma acc_inv_new: "acc_inv (NewAcceptance d)"
  by (simp add: acc_inv_def NewAcceptance_def)

lemma acc_step_inv: "acc_step now a e b \<Longrightarrow> acc_inv a \<Longrightarrow> acc_inv b"
  by (induction rule: acc_step.induct)
     (auto simp: acc_inv_def acceptance_defs Let_def split: if_splits)

lemma acc_run_inv: "acc_run t a es b \<Longrightarrow> acc_inv a \<Longrightarrow> acc_inv b"
  by (induction rule: acc_run.induct) (auto intro: acc_step_inv)

lemma stopping_step: "acc_step now a e b \<Longrightarrow> stopping a \<Longrightarrow> stopping b"
  by (induction rule: acc_step.induct)
     (auto simp: acceptance_defs Let_def split: if_splits)

text \<open>While no event closes or reopens the window, a decision once taken stands.\<close>

fun keeps_window :: "acc_event \<Rightarrow> bool" where
  "keeps_window (EvAccept _) = True"
| "keeps_window (EvCancel _ _) = True"
| "keeps_window EvShutdown = True"
| "keeps_window (EvStart _) = True"
| "keeps_window _ = False"

definition decided :: "acceptance \<Rightarrow> bool \<Rightarrow> bool" where
  "decided a r \<longleftrightarrow> status a = AcceptancePending \<and> accepted a = r \<and> cancelled a = (\<not> r)"

lemma decided_step:
  "acc_step now a e b \<Longrightarrow> keeps_window e \<Longrightarrow> decided a r \<Longrightarrow> decided b r"
  by (induction rule: acc_step.induct)
     (auto simp: decided_def acceptance_defs Let_def split: if_splits)

lemma decided_reason_step:
  "acc_step now a e b \<Longrightarrow> keeps_window e \<Longrightarrow> decided a False \<Longrightarrow> reason b = reason a"
  by (induction rule: acc_step.induct)
     (auto simp: decided_def acceptance_defs Let_def split: if_splits)

lemma decided_run:
  "acc_run t a es b \<Longrightarrow> list_all (\<lambda>x. keeps_window (snd x)) es \<Longrightarrow> decided a r \<Longrightarrow> decided b r"
  by (induction rule: acc_run.induct) (auto intro: decided_step)

lemma decided_reason_run:
  "acc_run t a es b \<Longrightarrow> list_all (\<lambda>x. keeps_window (snd x)) es \<Longrightarrow> decided a False \<Longrightarrow>
   reason b = reason a"
  by (induction rule: acc_run.induct) (simp, simp, metis decided_reason_step decided_step)

lemma stopping_run: "acc_run t a es b \<Longrightarrow> stopping a \<Longrightarrow> stopping b"
  by (induction rule: acc_run.induct) (auto intro: stopping_step)

lemma accept_decides: "acc_inv a \<Longrightarrow> acc_step now a (EvAccept True) b \<Longrightarrow> decided b True"
  by (auto elim!: acc_step_acceptE simp: Accept_def decided_def split: if_splits)

lemma cancel_decides:
  "acc_step now a (EvCancel why True) b \<Longrightarrow>
   decided b False \<and> (why \<noteq> '''' \<longrightarrow> reason b = why)"
  by (auto elim!: acc_step_cancelE simp: cancel_def decided_def split: if_splits)

lemma wait_decided:
  "decided a v \<Longrightarrow> acc_step now a (EvWait r) b \<Longrightarrow>
   r = v \<and> status b = (if v then AcceptanceAccepted else AcceptanceRolledBack) \<and>
   reason b = reason a"
  by (auto elim!: acc_step_waitE simp: wait_finish_def decided_def)

section \<open>Properties of the window\<close>

text \<open>
  C27.  A confirmation that was answered with success is the outcome of the window.  In every
  run of the controller from its construction, when \<open>Accept\<close> has answered true and the window
  is not reset, whatever accepts, cancels, shutdowns and starts follow, \<open>Wait\<close> returns true
  and the status becomes accepted.
\<close>

theorem accept_answer_honoured:
  assumes "acc_run t (NewAcceptance d) es a" and "acc_step now a (EvAccept True) b"
    and "acc_run now b es' c" and "list_all (\<lambda>x. keeps_window (snd x)) es'"
    and "acc_step now' c (EvWait r) e"
  shows "r \<and> status e = AcceptanceAccepted"
proof -
  have "acc_inv a" using assms(1) acc_inv_new by (rule acc_run_inv)
  then have "decided b True" using assms(2) by (rule accept_decides)
  with assms(3,4) have "decided c True" by (rule decided_run)
  from wait_decided [OF this assms(5)] show ?thesis by simp
qed

theorem accept_answer_honoured_witness:
  "\<exists>e. acc_step 60 (fst (Accept 50 (Start 10 120 (NewAcceptance 30)))) (EvWait True) e \<and>
       status e = AcceptanceAccepted"
proof -
  let ?a = "Start 10 120 (NewAcceptance 30)"
  let ?b = "fst (Accept 50 ?a)"
  have run: "acc_run 0 (NewAcceptance 30) [(10, EvStart 120)] ?a"
    by (rule acc_run.more [OF _ acc_step.start acc_run.stop]) simp
  have acc: "acc_step 50 ?a (EvAccept True) ?b"
    by (rule acc_step.accept) (simp add: Accept_def Start_def NewAcceptance_def)
  have w: "acc_step 60 ?b (EvWait True) (fst (wait_finish ?b))"
    by (rule acc_step.wait)
       (simp_all add: Accept_def Start_def NewAcceptance_def wait_ready_def wait_finish_def)
  show ?thesis
    using accept_answer_honoured [OF run acc acc_run.stop _ w] w by auto
qed

text \<open>
  A cancel that was answered with success ends the window unconfirmed, with the reason of
  that cancel.  No later accept, cancel or shutdown changes it: \<open>Wait\<close> returns false, the
  status becomes rolled back, and the reason the audit line reads is the one the successful
  cancel recorded.
\<close>

theorem cancel_answer_honoured:
  assumes "acc_step now a (EvCancel why True) b"
    and "acc_run now b es' c" and "list_all (\<lambda>x. keeps_window (snd x)) es'"
    and "acc_step now' c (EvWait r) e" and "why \<noteq> ''''"
  shows "\<not> r \<and> status e = AcceptanceRolledBack \<and> reason e = why"
proof -
  from cancel_decides [OF assms(1)] assms(5)
  have b: "decided b False" "reason b = why" by auto
  then have "decided c False" "reason c = why"
    using assms(2,3) decided_run decided_reason_run by blast+
  with wait_decided [OF this(1) assms(4)] show ?thesis by simp
qed

theorem cancel_answer_honoured_witness:
  "\<exists>e. acc_step 60 (fst (CancelByOperator 50 (Start 10 120 (NewAcceptance 30)))) (EvWait False) e \<and>
       status e = AcceptanceRolledBack \<and> reason e = ''cancelled by operator''"
proof -
  let ?a = "Start 10 120 (NewAcceptance 30)"
  let ?b = "fst (CancelByOperator 50 ?a)"
  have can: "acc_step 50 ?a (EvCancel ReasonOperator True) ?b"
    by (rule acc_step.cancel)
       (simp_all add: CancelByOperator_def cancel_def Start_def NewAcceptance_def)
  have w: "acc_step 60 ?b (EvWait False) (fst (wait_finish ?b))"
    by (rule acc_step.wait) (simp_all add: CancelByOperator_def cancel_def Start_def
        NewAcceptance_def wait_ready_def wait_finish_def)
  show ?thesis
    using cancel_answer_honoured [OF can acc_run.stop _ w] w
    by (auto simp: ReasonOperator_def)
qed

text \<open>
  C28.  \<open>Wait\<close> never outlives its window: in every reachable pending state the select is
  ready exactly when the window was accepted, was cancelled, or its deadline has passed.
\<close>

theorem wait_ready_reachable:
  assumes "acc_run t (NewAcceptance d) es a" and "status a = AcceptancePending"
  shows "wait_ready now a \<longleftrightarrow> accepted a \<or> cancelled a \<or> deadline a \<le> now"
proof -
  have "acc_inv a" using assms(1) acc_inv_new by (rule acc_run_inv)
  with assms(2) show ?thesis by (auto simp: acc_inv_def wait_ready_def)
qed

theorem wait_ready_reachable_witness:
  "wait_ready 130 (Start 10 120 (NewAcceptance 30)) \<and>
   \<not> wait_ready 129 (Start 10 120 (NewAcceptance 30))"
proof -
  let ?a = "Start 10 120 (NewAcceptance 30)"
  have run: "acc_run 0 (NewAcceptance 30) [(10, EvStart 120)] ?a"
    by (rule acc_run.more [OF _ acc_step.start acc_run.stop]) simp
  have pending: "status ?a = AcceptancePending" by (simp add: Start_def NewAcceptance_def)
  show ?thesis
    unfolding wait_ready_reachable [OF run pending]
    by (simp add: Start_def NewAcceptance_def)
qed

text \<open>
  After \<open>CancelForShutdown\<close> no window can be confirmed that was not confirmed before:
  whatever happens in between, a window opened later is born cancelled, so \<open>Accept\<close> refuses,
  \<open>Wait\<close> does not block, and it answers false with the reason that the core stopped.
\<close>

theorem shutdown_latches:
  assumes "acc_run t (CancelForShutdown t0 a) es b" and "status b \<noteq> AcceptancePending"
  shows "let c = Start now dur b in
           \<not> snd (Accept now' c) \<and> wait_ready now' c \<and> \<not> snd (wait_finish c) \<and>
           reason c = ReasonCoreStopped"
proof -
  have "stopping (CancelForShutdown t0 a)"
    by (simp add: CancelForShutdown_def cancel_def)
  with assms(1) have "stopping b" by (rule stopping_run)
  with assms(2) show ?thesis
    by (simp add: Start_def Accept_def wait_ready_def wait_finish_def Let_def)
qed

theorem shutdown_latches_witness:
  "reason (Start 9 120 (CancelForShutdown 5 (NewAcceptance 30))) = ''core stopped''"
proof -
  have "status (CancelForShutdown 5 (NewAcceptance 30)) \<noteq> AcceptancePending"
    by (simp add: CancelForShutdown_def cancel_def NewAcceptance_def)
  from shutdown_latches [OF acc_run.stop this, of 9 120 9] show ?thesis
    by (simp add: Let_def ReasonCoreStopped_def)
qed

text \<open>
  The clock on the screen and the answer of \<open>Accept\<close> are one value: the remaining time is
  never negative, is zero when no window is open, and \<open>Accept\<close> answers true exactly for a
  pending window that is not cancelled and has time remaining.
\<close>

theorem accept_iff_remaining:
  "0 \<le> Remaining now a \<and> (status a \<noteq> AcceptancePending \<longrightarrow> Remaining now a = 0) \<and>
   (snd (Accept now a) \<longleftrightarrow> \<not> cancelled a \<and> Remaining now a > 0)"
  by (auto simp: Remaining_def Accept_def)

theorem accept_iff_remaining_witness:
  "Remaining 40 (Start 10 120 (NewAcceptance 30)) = 90 \<and> Remaining 40 (NewAcceptance 30) = 0"
  using accept_iff_remaining [of 40 "NewAcceptance 30"]
  by (simp add: Remaining_def Start_def NewAcceptance_def)

end
