(* ===== verification/Usage.thy ===== *)
theory Usage
  imports Models
begin

text \<open>
  The usage record (\<open>internal/core/usage.go\<close>): how many packets each port rule has accepted
  since it was written, accumulated from kernel counters that start again at zero whenever the
  table is rebuilt.  Counters are 64-bit words, as in the source; a Go map is a partial
  function; the zero \<open>time.Time\<close> is \<open>0\<close>.  The file is one value: reading it, and writing it
  through a temporary file and a rename, happen in the program that owns the store.
\<close>

section \<open>Definitions\<close>

record rule_usage =
  uPackets :: "64 word"
  uBytes :: "64 word"
  FirstSeen :: int
  LastSeen :: int
  KernelPackets :: "64 word"
  KernelBytes :: "64 word"

definition no_usage :: rule_usage where
  "no_usage = \<lparr> uPackets = 0, uBytes = 0, FirstSeen = 0, LastSeen = 0, KernelPackets = 0,
                KernelBytes = 0 \<rparr>"

record usage_result =
  usage_map :: "string \<rightharpoonup> rule_usage"
  CollectedAt :: int

record rule_counter =
  rcPackets :: "64 word"
  rcBytes :: "64 word"
  rcInputPackets :: "64 word"

definition reservedIDPrefix :: string where "reservedIDPrefix = ''_''"

definition IsReservedRuleID :: "string \<Rightarrow> bool" where
  "IsReservedRuleID rid = has_prefix rid reservedIDPrefix"

text \<open>The body of \<open>Collect\<close>'s loop for one rule.\<close>

definition book :: "int \<Rightarrow> rule_counter \<Rightarrow> rule_usage \<Rightarrow> rule_usage" where
  "book now k e =
     (let deltaPackets = (if rcPackets k \<ge> KernelPackets e then rcPackets k - KernelPackets e
                          else rcPackets k);
          deltaBytes = (if rcBytes k \<ge> KernelBytes e then rcBytes k - KernelBytes e else rcBytes k);
          e1 = (if deltaPackets > 0
                then e\<lparr>uPackets := uPackets e + deltaPackets, uBytes := uBytes e + deltaBytes,
                       LastSeen := now,
                       FirstSeen := (if FirstSeen e = 0 then now else FirstSeen e)\<rparr>
                else e)
      in e1\<lparr>KernelPackets := rcPackets k, KernelBytes := rcBytes k\<rparr>)"

definition Collect_usage ::
  "int \<Rightarrow> (string \<rightharpoonup> rule_counter) \<Rightarrow> (string \<Rightarrow> bool) \<Rightarrow> usage_result \<Rightarrow> usage_result" where
  "Collect_usage now counters live res =
     \<lparr> usage_map = (\<lambda>rid.
         if IsReservedRuleID rid \<or> \<not> live rid then None
         else (case counters rid of
                 None \<Rightarrow> usage_map res rid
               | Some k \<Rightarrow>
                   Some (book now k (case usage_map res rid of None \<Rightarrow> no_usage | Some e \<Rightarrow> e)))),
       CollectedAt = now \<rparr>"

definition ResetBaselines :: "usage_result \<Rightarrow> usage_result" where
  "ResetBaselines res =
     res\<lparr>usage_map := (\<lambda>rid. map_option (\<lambda>e. e\<lparr>KernelPackets := 0, KernelBytes := 0\<rparr>)
                                (usage_map res rid))\<rparr>"

text \<open>\<open>liveRuleIDs\<close>: the ids of the rules in force and of the rules being edited.\<close>

definition liveRuleIDs :: "rules_state \<Rightarrow> string \<Rightarrow> bool" where
  "liveRuleIDs st rid \<longleftrightarrow>
     rid \<noteq> [] \<and>
     rid \<in> set (map prID (TCP (Current st) @ UDP (Current st) @ TCP (Staged st) @ UDP (Staged st)))"

section \<open>Lemmas\<close>

definition usage_at :: "usage_result \<Rightarrow> string \<Rightarrow> rule_usage" where
  "usage_at res rid = (case usage_map res rid of None \<Rightarrow> no_usage | Some e \<Rightarrow> e)"

lemma book_baseline [simp]:
  "KernelPackets (book now k e) = rcPackets k" "KernelBytes (book now k e) = rcBytes k"
  by (simp_all add: book_def Let_def)

lemma book_advance:
  "KernelPackets e \<le> rcPackets k \<Longrightarrow>
     uPackets (book now k e) = uPackets e + (rcPackets k - KernelPackets e)"
  by (auto simp: book_def Let_def word_gt_0)

lemma book_advance_bytes:
  "KernelPackets e \<le> rcPackets k \<Longrightarrow> KernelBytes e \<le> rcBytes k \<Longrightarrow>
   (rcPackets k = KernelPackets e \<Longrightarrow> rcBytes k = KernelBytes e) \<Longrightarrow>
     uBytes (book now k e) = uBytes e + (rcBytes k - KernelBytes e)"
  by (auto simp: book_def Let_def word_gt_0)

lemma usage_at_Collect:
  "live rid \<Longrightarrow> \<not> IsReservedRuleID rid \<Longrightarrow> counters rid = Some k \<Longrightarrow>
     usage_at (Collect_usage now counters live res) rid = book now k (usage_at res rid)"
  by (simp add: usage_at_def Collect_usage_def)

lemma usage_at_Reset:
  "usage_at (ResetBaselines res) rid = (usage_at res rid)\<lparr>KernelPackets := 0, KernelBytes := 0\<rparr>"
  by (auto simp: usage_at_def ResetBaselines_def no_usage_def split: option.splits)

text \<open>
  One life of a table: successive readings of a rule's counter, none below the one before.
  A table's life starts at zero and \<open>ResetBaselines\<close> marks it.
\<close>

fun rising :: "64 word \<Rightarrow> rule_counter list \<Rightarrow> bool" where
  "rising b [] = True"
| "rising b (k # ks) \<longleftrightarrow> b \<le> rcPackets k \<and> rising (rcPackets k) ks"

definition last_reading :: "64 word \<Rightarrow> rule_counter list \<Rightarrow> 64 word" where
  "last_reading b ks = (if ks = [] then b else rcPackets (last ks))"

definition collect_all ::
  "(string \<Rightarrow> bool) \<Rightarrow> (int \<times> (string \<rightharpoonup> rule_counter)) list \<Rightarrow> usage_result \<Rightarrow> usage_result" where
  "collect_all live rs res = foldl (\<lambda>u (now, cs). Collect_usage now cs live u) res rs"

lemma collect_all_baseline:
  assumes live: "live rid" "\<not> IsReservedRuleID rid"
  shows "map (\<lambda>r. snd r rid) rs = map Some ks \<Longrightarrow> rising (KernelPackets (usage_at res rid)) ks \<Longrightarrow>
    uPackets (usage_at (collect_all live rs res) rid) =
      uPackets (usage_at res rid) +
        (last_reading (KernelPackets (usage_at res rid)) ks - KernelPackets (usage_at res rid))"
proof (induction rs arbitrary: ks res)
  case Nil
  then show ?case by (simp add: collect_all_def last_reading_def)
next
  case (Cons r rs)
  obtain now cs where r: "r = (now, cs)" by (cases r)
  let ?u = "Collect_usage now cs live res"
  from Cons.prems(1) r obtain k ks' where ks: "ks = k # ks'" "cs rid = Some k"
    "map (\<lambda>r. snd r rid) rs = map Some ks'" by (cases ks) auto
  have u: "usage_at ?u rid = book now k (usage_at res rid)"
    using live ks(2) by (rule usage_at_Collect)
  from Cons.prems(2) ks u have le: "KernelPackets (usage_at res rid) \<le> rcPackets k"
    and ris: "rising (KernelPackets (usage_at ?u rid)) ks'" by simp_all
  have "uPackets (usage_at (collect_all live (r # rs) res) rid) =
      uPackets (usage_at (collect_all live rs ?u) rid)"
    by (simp add: collect_all_def r)
  also have "\<dots> = uPackets (book now k (usage_at res rid)) +
      (last_reading (rcPackets k) ks' - rcPackets k)"
    using Cons.IH [OF ks(3) ris] by (simp only: u book_baseline)
  also have "\<dots> = uPackets (usage_at res rid) +
      (last_reading (rcPackets k) ks' - KernelPackets (usage_at res rid))"
    by (simp only: book_advance [OF le]) (simp add: algebra_simps)
  finally show ?case using ks by (simp add: last_reading_def)
qed

section \<open>Properties\<close>

text \<open>
  C31. Nothing is counted twice and nothing is lost: from the moment a table is in place and the
  baselines are reset, however often its counter is read, the rule's total grows by exactly
  what the last reading shows, wrap-around of the 64-bit total included.
\<close>

theorem usage_exact:
  assumes "live rid" "\<not> IsReservedRuleID rid" "map (\<lambda>r. snd r rid) rs = map Some ks" "rising 0 ks"
  shows "uPackets (usage_at (collect_all live rs (ResetBaselines res)) rid) =
         uPackets (usage_at res rid) + last_reading 0 ks"
  using collect_all_baseline [of live rid rs ks "ResetBaselines res"] assms
  by (simp add: usage_at_Reset)

definition example_reading :: "64 word \<Rightarrow> int \<times> (string \<rightharpoonup> rule_counter)" where
  "example_reading n = (7, [''000000000000'' \<mapsto> \<lparr> rcPackets = n, rcBytes = 60 * n, rcInputPackets = n \<rparr>])"

theorem usage_exact_witness:
  "uPackets (usage_at (collect_all (\<lambda>r. r = ''000000000000'')
      [example_reading 3, example_reading 3, example_reading 10]
      (ResetBaselines \<lparr> usage_map = [''000000000000'' \<mapsto> no_usage\<lparr>uPackets := 5\<rparr>], CollectedAt = 1 \<rparr>))
    ''000000000000'') = 15"
  using usage_exact [of "\<lambda>r. r = ''000000000000''" "''000000000000''"
      "[example_reading 3, example_reading 3, example_reading 10]"
      "map (\<lambda>n. \<lparr> rcPackets = n, rcBytes = 60 * n, rcInputPackets = n \<rparr>) [3, 3, 10]"
      "\<lparr> usage_map = [''000000000000'' \<mapsto> no_usage\<lparr>uPackets := 5\<rparr>], CollectedAt = 1 \<rparr>"]
  by (simp add: example_reading_def IsReservedRuleID_def has_prefix_def reservedIDPrefix_def
      last_reading_def usage_at_def no_usage_def)

text \<open>
  The record names rules and nothing else: after a collect every entry belongs to a rule of
  the current or the staged set and none is a reserved id, a rule with no counter keeps its
  history, and a reading below the baseline (a table rebuilt without the reset) is booked
  whole, so a rebuild is never read as negative traffic.
\<close>

theorem collect_books_rules_only:
  "(usage_map (Collect_usage now cs (liveRuleIDs st) res) rid \<noteq> None \<longrightarrow>
      liveRuleIDs st rid \<and> \<not> IsReservedRuleID rid) \<and>
   (liveRuleIDs st rid \<and> \<not> IsReservedRuleID rid \<and> cs rid = None \<longrightarrow>
      usage_map (Collect_usage now cs (liveRuleIDs st) res) rid = usage_map res rid) \<and>
   (liveRuleIDs st rid \<and> \<not> IsReservedRuleID rid \<and> cs rid = Some k \<and>
    rcPackets k < KernelPackets (usage_at res rid) \<longrightarrow>
      uPackets (usage_at (Collect_usage now cs (liveRuleIDs st) res) rid) =
      uPackets (usage_at res rid) + rcPackets k)"
proof (intro conjI impI)
  assume "liveRuleIDs st rid \<and> \<not> IsReservedRuleID rid \<and> cs rid = Some k \<and>
    rcPackets k < KernelPackets (usage_at res rid)"
  then show "uPackets (usage_at (Collect_usage now cs (liveRuleIDs st) res) rid) =
      uPackets (usage_at res rid) + rcPackets k"
    by (auto simp: usage_at_Collect book_def Let_def word_gt_0 not_le)
qed (auto simp: Collect_usage_def split: if_splits)

definition example_live_state :: rules_state where
  "example_live_state =
     (let one = no_rules\<lparr>TCP := [\<lparr> prID = ''000000000000'', prPort = ''22'', prDescription = [],
                prSSH = False, prScope = [], prSources = [], prService = [] \<rparr>]\<rparr>
      in \<lparr> Current = one, Staged = no_rules, Backup = no_rules \<rparr>)"

theorem collect_books_rules_only_witness:
  "uPackets (usage_at (Collect_usage 9 (snd (example_reading 2)) (liveRuleIDs example_live_state)
      \<lparr> usage_map = [''000000000000'' \<mapsto> no_usage\<lparr>uPackets := 5, KernelPackets := 8\<rparr>],
        CollectedAt = 1 \<rparr>) ''000000000000'') = 7"
  using collect_books_rules_only [of 9 "snd (example_reading 2)" example_live_state
      "\<lparr> usage_map = [''000000000000'' \<mapsto> no_usage\<lparr>uPackets := 5, KernelPackets := 8\<rparr>],
        CollectedAt = 1 \<rparr>" "''000000000000''"
      "\<lparr> rcPackets = 2, rcBytes = 120, rcInputPackets = 2 \<rparr>"]
  by (simp add: example_reading_def example_live_state_def no_rules_def Let_def liveRuleIDs_def
      IsReservedRuleID_def has_prefix_def reservedIDPrefix_def usage_at_def no_usage_def)

end
