(* ===== verification/World.thy ===== *)
theory World
  imports Acceptance Validate Usage
begin

text \<open>
  The state the privileged daemon keeps and the primitive steps its operations are made of.

  A \<open>world\<close> is the files of the data directory, the daemon's memory and the kernel's
  \<open>inet easywall\<close> table.  Every access that takes a lock or touches a file is one atomic
  \<open>step\<close>.  Before each step the other goroutines act: \<open>others env k\<close> is what they do before
  step \<open>k\<close>, any sequence of the actions the code lets run beside a writer that holds the apply
  slot.  \<open>env\<close> also answers what the operating system answers: which file operation fails,
  what a netlink flush does, what the clock reads.  Nothing is assumed about it here.

  A rename makes each file replacement atomic, so a crash leaves the files as they are between
  two steps; \<open>history\<close> records, for every such moment, the rule set a restart would enforce.
  Of an audit entry the action, the user and the variable part of the detail are kept, not its
  prose; the diagnostics snapshot and the structured log are not state.
\<close>

section \<open>The kernel's table\<close>

type_synonym feed_contents = "string \<rightharpoonup> pfx list"

record ruleset =
  rsRules :: rules
  rsOptions :: firewall_options
  rsNetwork :: network_settings
  rsFeeds :: feed_contents
  rsBridges :: "string list"
  rsCustom :: bool
  rsFinalLog :: bool

datatype kernel = NoTable | EmptyTable | Filtering ruleset

datatype flush_outcome = Flushed | BuildFails string | Refused string | Overflowed bool string

datatype nft_error = NftError string | NothingWritten string

fun nft_error_text :: "nft_error \<Rightarrow> string" where
  "nft_error_text (NftError s) = s"
| "nft_error_text (NothingWritten s) = s"

definition is_custom_command :: "string \<Rightarrow> bool" where
  "is_custom_command rule = (let r = trim_space rule in r \<noteq> [] \<and> \<not> has_prefix r ''#'')"

text \<open>
  \<open>ApplyWithFeeds\<close> as a kernel transaction: the batch, the custom rules the \<open>nft\<close> program
  appends, the final log rule, each of which can fail and leave what came before it.
\<close>

definition write_ruleset ::
  "flush_outcome \<Rightarrow> string option \<Rightarrow> string option \<Rightarrow> ruleset \<Rightarrow> kernel \<Rightarrow>
   kernel \<times> nft_error option" where
  "write_ruleset flush custom_err final_err rs k =
     (if ValidateRules (rsRules rs) \<noteq> None then (k, Some (NftError ''refusing to apply''))
      else (case flush of
        BuildFails e \<Rightarrow> (k, Some (NftError e))
      | Refused e \<Rightarrow> (k, Some (NothingWritten e))
      | Overflowed committed e \<Rightarrow> ((if committed then Filtering rs else k), Some (NftError e))
      | Flushed \<Rightarrow>
          (case (if list_ex is_custom_command (Custom (rsRules rs)) then custom_err else None) of
             Some e \<Rightarrow> (Filtering rs, Some (NftError e))
           | None \<Rightarrow>
               let rs1 = rs\<lparr>rsCustom := True\<rparr> in
               if LogBlocked (rsOptions rs) then
                 (case final_err of
                    Some e \<Rightarrow> (Filtering rs1, Some (NftError e))
                  | None \<Rightarrow> (Filtering (rs1\<lparr>rsFinalLog := True\<rparr>), None))
               else (Filtering rs1, None))))"

text \<open>
  \<open>reset\<close>: the delete is flushed and any error of it ignored, then the add is flushed.
\<close>

definition reset_table :: "string option \<Rightarrow> string option \<Rightarrow> kernel \<Rightarrow> kernel \<times> string option" where
  "reset_table del_err add_err k =
     (let k1 = (if del_err = None then NoTable else k)
      in case add_err of
           Some e \<Rightarrow> (k1, Some e)
         | None \<Rightarrow> ((case k1 of NoTable \<Rightarrow> EmptyTable | _ \<Rightarrow> k1), None))"

section \<open>World and environment\<close>

record audit_entry =
  auAction :: string
  auCause :: string
  auUser :: string

record world =
  rulesFile :: rules_state
  unconfirmed :: "applied_config_result option"
  appliedFile :: "applied_config option"
  lastApplyFile :: "int option"
  panicMarker :: bool
  usageFile :: usage_result
  feedStore :: feed_contents
  config :: core_config
  lastApply :: int
  applying :: bool
  window :: acceptance
  bootBridges :: "string list"
  kernel :: kernel
  audit :: "audit_entry list"
  tick :: nat
  history :: "rules list"
  teardownDue :: bool

datatype io_outcome = IoOk | ReadFails string | WriteFails string

datatype action =
    PlacePanicMarker | CancelForPanicMode | TearDown | RemovePanicMarker
  | Stage rules | Configure core_config | OperatorAccept | OperatorRollback | Shutdown

record env =
  io :: "nat \<Rightarrow> io_outcome"
  statError :: "nat \<Rightarrow> bool"
  flush :: "nat \<Rightarrow> flush_outcome"
  customError :: "nat \<Rightarrow> string option"
  finalError :: "nat \<Rightarrow> string option"
  delError :: "nat \<Rightarrow> string option"
  addError :: "nat \<Rightarrow> string option"
  counters :: "nat \<Rightarrow> string + (string \<rightharpoonup> rule_counter)"
  findings :: "nat \<Rightarrow> string list"
  bridges :: "nat \<Rightarrow> string list"
  clock :: "nat \<Rightarrow> int"
  others :: "nat \<Rightarrow> action list"

fun read_error :: "io_outcome \<Rightarrow> string option" where
  "read_error (ReadFails e) = Some e"
| "read_error _ = None"

fun write_error :: "io_outcome \<Rightarrow> string option" where
  "write_error (WriteFails e) = Some e"
| "write_error _ = None"

text \<open>The rule set a restart enforces: the backup while the marker is there.\<close>

definition effective :: "rules_state \<Rightarrow> applied_config_result option \<Rightarrow> rules" where
  "effective st m = (if m = None then Current st else Backup st)"

definition save_rules :: "rules_state \<Rightarrow> world \<Rightarrow> world" where
  "save_rules st w =
     w\<lparr>rulesFile := st, history := history w @ [effective st (unconfirmed w)]\<rparr>"

definition save_marker :: "applied_config_result option \<Rightarrow> world \<Rightarrow> world" where
  "save_marker m w =
     w\<lparr>unconfirmed := m, history := history w @ [effective (rulesFile w) m]\<rparr>"

section \<open>The other goroutines\<close>

text \<open>
  What can run while a writer holds the apply slot: the pieces of \<open>Panic\<close> in their order (the
  ghost \<open>teardownDue\<close> says a marker was placed whose teardown has not happened), \<open>Resume\<close>'s
  removal of the marker, an edit of the staged rules or of the settings, the operator's answer
  to the open window and the daemon's shutdown.
\<close>

fun interfere :: "env \<Rightarrow> nat \<Rightarrow> world \<Rightarrow> action \<Rightarrow> world" where
  "interfere env k w PlacePanicMarker = w\<lparr>panicMarker := True, teardownDue := True\<rparr>"
| "interfere env k w CancelForPanicMode =
     w\<lparr>window := fst (CancelForPanic (clock env k) (window w))\<rparr>"
| "interfere env k w TearDown =
     (if teardownDue w then
        (case reset_table (delError env k) (addError env k) (kernel w) of
           (kt, e) \<Rightarrow> w\<lparr>kernel := kt, teardownDue := (e \<noteq> None)\<rparr>)
      else w)"
| "interfere env k w RemovePanicMarker = w\<lparr>panicMarker := False\<rparr>"
| "interfere env k w (Stage r) = save_rules ((rulesFile w)\<lparr>Staged := r\<rparr>) w"
| "interfere env k w (Configure c) = w\<lparr>config := c\<rparr>"
| "interfere env k w OperatorAccept = w\<lparr>window := fst (Accept (clock env k) (window w))\<rparr>"
| "interfere env k w OperatorRollback =
     w\<lparr>window := fst (CancelByOperator (clock env k) (window w))\<rparr>"
| "interfere env k w Shutdown = w\<lparr>window := CancelForShutdown (clock env k) (window w)\<rparr>"

definition interfered :: "env \<Rightarrow> world \<Rightarrow> world" where
  "interfered env w = foldl (interfere env (tick w)) w (others env (tick w))"

definition step :: "env \<Rightarrow> (nat \<Rightarrow> world \<Rightarrow> 'a \<times> world) \<Rightarrow> (world, 'a) state" where
  "step env f =
     State (\<lambda>w. case f (tick w) (interfered env w) of (a, w') \<Rightarrow> (a, w'\<lparr>tick := Suc (tick w)\<rparr>))"

lemma wp_step [wp_simps]:
  "wp (step env f) Q w =
     (case f (tick w) (interfered env w) of (a, w') \<Rightarrow> Q a (w'\<lparr>tick := Suc (tick w)\<rparr>))"
  by (simp add: wp_def step_def split: prod.splits)

section \<open>The rules store (\<open>rules.go\<close>)\<close>

definition GetState :: "env \<Rightarrow> (world, string + rules_state) state" where
  "GetState env = step env (\<lambda>k w.
     case read_error (io env k) of
       Some e \<Rightarrow> (Inl (''read rules: '' @ e), w)
     | None \<Rightarrow> (Inr (rulesFile w), w))"

definition update_store ::
  "env \<Rightarrow> (rules_state \<Rightarrow> rules_state) \<Rightarrow> (world, string option) state" where
  "update_store env g = step env (\<lambda>k w.
     case io env k of
       ReadFails e \<Rightarrow> (Some (''read rules: '' @ e), w)
     | WriteFails e \<Rightarrow> (Some e, w)
     | IoOk \<Rightarrow> (None, save_rules (g (rulesFile w)) w))"

definition BackupCurrent :: "env \<Rightarrow> (world, string option) state" where
  "BackupCurrent env = update_store env (\<lambda>st. st\<lparr>Backup := Current st\<rparr>)"

definition PromoteStaged :: "env \<Rightarrow> (world, string option) state" where
  "PromoteStaged env = update_store env (\<lambda>st. st\<lparr>Current := Staged st\<rparr>)"

definition RollbackRules :: "env \<Rightarrow> (world, string option) state" where
  "RollbackRules env = update_store env (\<lambda>st. st\<lparr>Current := Backup st\<rparr>)"

definition WriteAuditLog :: "env \<Rightarrow> string \<Rightarrow> string \<Rightarrow> string \<Rightarrow> (world, unit) state" where
  "WriteAuditLog env act cause user = step env (\<lambda>k w.
     case write_error (io env k) of
       Some _ \<Rightarrow> ((), w)
     | None \<Rightarrow> ((), w\<lparr>audit := audit w @ [\<lparr> auAction = act, auCause = cause, auUser = user \<rparr>]\<rparr>))"

section \<open>Markers and records (\<open>unconfirmed.go\<close>, \<open>panicmode.go\<close>, \<open>appliedconfig.go\<close>)\<close>

definition markUnconfirmed :: "env \<Rightarrow> applied_config_result \<Rightarrow> (world, string option) state" where
  "markUnconfirmed env before = step env (\<lambda>k w.
     case write_error (io env k) of
       Some e \<Rightarrow> (Some e, w)
     | None \<Rightarrow> (None, save_marker (Some before) w))"

definition clearUnconfirmed :: "env \<Rightarrow> (world, unit) state" where
  "clearUnconfirmed env = step env (\<lambda>k w.
     case write_error (io env k) of
       Some _ \<Rightarrow> ((), w)
     | None \<Rightarrow> ((), save_marker None w))"

text \<open>Engaged, and whether that is known; an unreadable marker counts as engaged.\<close>

definition PanicState :: "env \<Rightarrow> (world, bool \<times> bool) state" where
  "PanicState env = step env (\<lambda>k w.
     if statError env k then ((True, False), w) else ((panicMarker w, True), w))"

definition PanicEngaged :: "env \<Rightarrow> (world, bool) state" where
  "PanicEngaged env = do { (engaged, known) \<leftarrow> PanicState env; State_Monad.return engaged }"

definition EngagePanic :: "env \<Rightarrow> (world, string option) state" where
  "EngagePanic env = step env (\<lambda>k w.
     case write_error (io env k) of
       Some e \<Rightarrow> (Some e, w)
     | None \<Rightarrow> (None, w\<lparr>panicMarker := True, teardownDue := True\<rparr>))"

definition ClearPanic :: "env \<Rightarrow> (world, string option) state" where
  "ClearPanic env = step env (\<lambda>k w.
     case write_error (io env k) of
       Some e \<Rightarrow> (Some e, w)
     | None \<Rightarrow> (None, w\<lparr>panicMarker := False\<rparr>))"

definition appliedConfig :: "env \<Rightarrow> (world, applied_config_result) state" where
  "appliedConfig env = step env (\<lambda>k w.
     case (read_error (io env k), appliedFile w) of
       (None, Some c) \<Rightarrow> (\<lparr> arRecorded = True, arConfig = c \<rparr>, w)
     | _ \<Rightarrow> (no_applied_config, w))"

definition recordAppliedConfig ::
  "env \<Rightarrow> firewall_options \<Rightarrow> network_settings \<Rightarrow> (world, unit) state" where
  "recordAppliedConfig env opts nets = step env (\<lambda>k w.
     case write_error (io env k) of
       Some _ \<Rightarrow> ((), w)
     | None \<Rightarrow> ((), w\<lparr>appliedFile := Some \<lparr> apFirewall = opts, apNetwork = nets \<rparr>\<rparr>))"

section \<open>Settings in memory\<close>

definition network_of :: "core_config \<Rightarrow> network_settings" where
  "network_of c = \<lparr> nsIPv6 = ccIPv6 c, nsDocker = ccDocker c, nsRouting = ccRouting c \<rparr>"

definition cfgFirewallOptions :: "env \<Rightarrow> (world, firewall_options) state" where
  "cfgFirewallOptions env = step env (\<lambda>k w. (ccFirewall (config w), w))"

definition cfgNetworkSettings :: "env \<Rightarrow> (world, network_settings) state" where
  "cfgNetworkSettings env = step env (\<lambda>k w. (network_of (config w), w))"

definition cfgAcceptanceEnabled :: "env \<Rightarrow> (world, bool) state" where
  "cfgAcceptanceEnabled env = step env (\<lambda>k w. (acEnabled (ccAcceptance (config w)), w))"

definition cfgAcceptanceDuration :: "env \<Rightarrow> (world, int) state" where
  "cfgAcceptanceDuration env =
     step env (\<lambda>k w. (acDuration (ccAcceptance (config w)) * 1000000000, w))"

definition configToRestore ::
  "env \<Rightarrow> applied_config_result \<Rightarrow> (world, firewall_options \<times> network_settings) state" where
  "configToRestore env before =
     (if arRecorded before
      then State_Monad.return (apFirewall (arConfig before), apNetwork (arConfig before))
      else do {
        opts \<leftarrow> cfgFirewallOptions env;
        nets \<leftarrow> cfgNetworkSettings env;
        State_Monad.return (opts, nets)
      })"

section \<open>Usage, last apply, feeds\<close>

definition RuleCounters :: "env \<Rightarrow> (world, string + (string \<rightharpoonup> rule_counter)) state" where
  "RuleCounters env = step env (\<lambda>k w. (counters env k, w))"

definition collect_into_file ::
  "env \<Rightarrow> (string \<rightharpoonup> rule_counter) \<Rightarrow> (string \<Rightarrow> bool) \<Rightarrow> (world, unit) state" where
  "collect_into_file env cs live = step env (\<lambda>k w.
     if io env k = IoOk
     then ((), w\<lparr>usageFile := Collect_usage (clock env k) cs live (usageFile w)\<rparr>) else ((), w))"

definition collectUsageBeforeWrite :: "env \<Rightarrow> (world, unit) state" where
  "collectUsageBeforeWrite env = do {
     cs \<leftarrow> RuleCounters env;
     (case cs of
        Inl _ \<Rightarrow> State_Monad.return ()
      | Inr m \<Rightarrow> do {
          st \<leftarrow> GetState env;
          (case st of
             Inl _ \<Rightarrow> State_Monad.return ()
           | Inr s \<Rightarrow> collect_into_file env m (liveRuleIDs s))
        })
   }"

definition resetUsageBaselines :: "env \<Rightarrow> (world, unit) state" where
  "resetUsageBaselines env = step env (\<lambda>k w.
     if io env k = IoOk then ((), w\<lparr>usageFile := ResetBaselines (usageFile w)\<rparr>) else ((), w))"

definition setLastApply :: "env \<Rightarrow> (world, unit) state" where
  "setLastApply env = do {
     t \<leftarrow> step env (\<lambda>k w. (clock env k, w\<lparr>lastApply := clock env k\<rparr>));
     step env (\<lambda>k w. case write_error (io env k) of
        Some _ \<Rightarrow> ((), w) | None \<Rightarrow> ((), w\<lparr>lastApplyFile := Some t\<rparr>))
   }"

definition feedContents :: "env \<Rightarrow> rules \<Rightarrow> (world, feed_contents) state" where
  "feedContents env r =
     (if Feeds r = [] then State_Monad.return Map.empty
      else step env (\<lambda>k w. case read_error (io env k) of
             Some _ \<Rightarrow> (Map.empty, w)
           | None \<Rightarrow> (feedStore w |` set (Feeds r), w)))"

definition everConfigured :: "env \<Rightarrow> rules_state \<Rightarrow> (world, bool) state" where
  "everConfigured env st =
     (if \<not> IsEmpty (Current st) then State_Monad.return True
      else step env (\<lambda>k w. (lastApply w \<noteq> 0, w)))"

section \<open>The kernel and the window\<close>

definition ApplyWithFeeds ::
  "env \<Rightarrow> rules_state \<Rightarrow> firewall_options \<Rightarrow> network_settings \<Rightarrow> feed_contents \<Rightarrow>
   (world, nft_error option) state" where
  "ApplyWithFeeds env st opts nets fc = step env (\<lambda>k w.
     let rs = \<lparr> rsRules = Current st, rsOptions = opts, rsNetwork = nets, rsFeeds = fc,
                rsBridges = bridges env k, rsCustom = False, rsFinalLog = False \<rparr>
     in case write_ruleset (flush env k) (customError env k) (finalError env k) rs (kernel w) of
          (kt, e) \<Rightarrow> (e, w\<lparr>kernel := kt\<rparr>))"

definition nftReset :: "env \<Rightarrow> (world, string option) state" where
  "nftReset env = step env (\<lambda>k w.
     case reset_table (delError env k) (addError env k) (kernel w) of
       (kt, e) \<Rightarrow> (e, w\<lparr>kernel := kt\<rparr>))"

text \<open>The console's teardown discharges the marker it placed.\<close>

definition panicReset :: "env \<Rightarrow> (world, string option) state" where
  "panicReset env = step env (\<lambda>k w.
     case reset_table (delError env k) (addError env k) (kernel w) of
       (kt, e) \<Rightarrow> (e, w\<lparr>kernel := kt, teardownDue := (e \<noteq> None)\<rparr>))"

definition LastFindings :: "env \<Rightarrow> (world, string list) state" where
  "LastFindings env = step env (\<lambda>k w. (findings env k, w))"

text \<open>\<open>Start\<close> never fails: a window that is open already stays as it is, and the answer is \<open>nil\<close>.\<close>

definition windowStart :: "env \<Rightarrow> int \<Rightarrow> (world, string option) state" where
  "windowStart env d = step env (\<lambda>k w. (None, w\<lparr>window := Start (clock env k) d (window w)\<rparr>))"

definition windowReset :: "env \<Rightarrow> (world, unit) state" where
  "windowReset env = step env (\<lambda>k w. ((), w\<lparr>window := Reset (window w)\<rparr>))"

definition windowStatus :: "env \<Rightarrow> (world, acceptance_status) state" where
  "windowStatus env = step env (\<lambda>k w. (status (window w), w))"

definition windowReason :: "env \<Rightarrow> (world, string) state" where
  "windowReason env = step env (\<lambda>k w. (reason (window w), w))"

text \<open>
  \<open>Wait\<close>: what the others do while it blocks is in \<open>others\<close>; if none of it decides the
  window, the deadline does, and the decision is the same function of the window either way.
\<close>

definition windowWait :: "env \<Rightarrow> (world, bool) state" where
  "windowWait env = step env (\<lambda>k w.
     case wait_finish (window w) of (a, r) \<Rightarrow> (r, w\<lparr>window := a\<rparr>))"

definition windowCancelForPanic :: "env \<Rightarrow> (world, unit) state" where
  "windowCancelForPanic env =
     step env (\<lambda>k w. ((), w\<lparr>window := fst (CancelForPanic (clock env k) (window w))\<rparr>))"

definition windowRecord :: "env \<Rightarrow> string \<Rightarrow> (world, unit) state" where
  "windowRecord env why = step env (\<lambda>k w. ((), w\<lparr>window := RecordRolledBack why (window w)\<rparr>))"

definition beginApply :: "env \<Rightarrow> (world, bool) state" where
  "beginApply env = step env (\<lambda>k w. if applying w then (False, w) else (True, w\<lparr>applying := True\<rparr>))"

definition endApply :: "env \<Rightarrow> (world, unit) state" where
  "endApply env = step env (\<lambda>k w. ((), w\<lparr>applying := False\<rparr>))"

definition timeNow :: "env \<Rightarrow> (world, int) state" where
  "timeNow env = step env (\<lambda>k w. (clock env k, w))"

text \<open>
  \<open>waitForApplySlot\<close> polls until a deadline; the fuel is the number of polls, one every 50 ms.
\<close>

fun waitForApplySlot :: "env \<Rightarrow> nat \<Rightarrow> int \<Rightarrow> (world, bool) state" where
  "waitForApplySlot env 0 dl = State_Monad.return False"
| "waitForApplySlot env (Suc n) dl = do {
     ok \<leftarrow> beginApply env;
     if ok then State_Monad.return True
     else do {
       t \<leftarrow> timeNow env;
       if t > dl then State_Monad.return False else waitForApplySlot env n dl
     }
   }"

definition setBootBridges :: "env \<Rightarrow> (world, unit) state" where
  "setBootBridges env = step env (\<lambda>k w. ((), w\<lparr>bootBridges := bridges env k\<rparr>))"

end
