(* ===== verification/Firewall.thy ===== *)
theory Firewall
  imports World
begin

text \<open>
  The lifecycle of a rule set (\<open>internal/core/firewall.go\<close>, \<open>restore.go\<close> and
  \<open>unconfirmed.go\<close>): an apply with its acceptance window and rollback, the restore a daemon
  start or a resume performs, panic mode.  Each function of the source is one program of the
  state monad over the primitive steps of \<open>World\<close>, in the source's order.
\<close>

section \<open>Errors and reasons\<close>

datatype fw_error = ErrApplyInProgress | ErrPanicEngaged | FwError string

definition RestoreReasonBoot :: string where "RestoreReasonBoot = ''daemon start''"
definition RestoreReasonResume :: string where "RestoreReasonResume = ''panic mode ended''"
definition RestoreReasonDockerBridge :: string where
  "RestoreReasonDockerBridge = ''a docker bridge appeared''"

definition auditBuildFindings :: "env \<Rightarrow> string list \<Rightarrow> string \<Rightarrow> (world, unit) state" where
  "auditBuildFindings env fs user =
     (if fs = [] then State_Monad.return ()
      else WriteAuditLog env ''health_degraded'' (hd fs) user)"

section \<open>Panic landing during a write\<close>

definition panicLandedDuringWrite ::
  "env \<Rightarrow> bool \<Rightarrow> string \<Rightarrow> string \<Rightarrow> string \<Rightarrow> (world, bool) state" where
  "panicLandedDuringWrite env engaged requested situation user =
     (if \<not> engaged then State_Monad.return False
      else do {
        collectUsageBeforeWrite env;
        err \<leftarrow> nftReset env;
        (case err of
           Some e \<Rightarrow> WriteAuditLog env ''boot_enforce_failed'' (situation @ e) user
         | None \<Rightarrow> WriteAuditLog env requested situation user);
        State_Monad.return True
      })"

section \<open>Rollback\<close>

text \<open>The kernel half of a rollback: the error, the settings written, the failures recorded.\<close>

definition rollback_kernel ::
  "env \<Rightarrow> rules_state \<Rightarrow> applied_config_result \<Rightarrow> string \<Rightarrow>
   (world, nft_error option \<times> firewall_options \<times> network_settings \<times> string list) state" where
  "rollback_kernel env previous before user = do {
     configured \<leftarrow> everConfigured env previous;
     if \<not> configured then do {
       opts \<leftarrow> cfgFirewallOptions env;
       nets \<leftarrow> cfgNetworkSettings env;
       err \<leftarrow> nftReset env;
       (case err of
          None \<Rightarrow> WriteAuditLog env ''boot_not_configured'' [] user
        | Some e \<Rightarrow> WriteAuditLog env ''boot_enforce_failed'' e user);
       State_Monad.return (map_option NftError err, opts, nets, [])
     }
     else do {
       (opts, nets) \<leftarrow> configToRestore env before;
       fc \<leftarrow> feedContents env (Current previous);
       err \<leftarrow> ApplyWithFeeds env previous opts nets fc;
       State_Monad.return (err, opts, nets,
         case err of None \<Rightarrow> [] | Some e \<Rightarrow> [''nftables: '' @ nft_error_text e])
     }
   }"

definition rollback ::
  "env \<Rightarrow> rules_state \<Rightarrow> applied_config_result \<Rightarrow> string \<Rightarrow> (world, unit) state" where
  "rollback env previous before user = do {
     revertErr \<leftarrow> RollbackRules env;
     (if revertErr = None then clearUnconfirmed env else State_Monad.return ());
     (engaged, known) \<leftarrow> PanicState env;
     failures \<leftarrow>
       (if engaged \<and> known then do {
          WriteAuditLog env ''rollback_skipped''
            (case revertErr of None \<Rightarrow> [] | Some e \<Rightarrow> e) user;
          State_Monad.return []
        }
        else do {
          collectUsageBeforeWrite env;
          (applyErr, opts, nets, fails) \<leftarrow> rollback_kernel env previous before user;
          (case applyErr of
             Some (NothingWritten _) \<Rightarrow> State_Monad.return ()
           | _ \<Rightarrow> resetUsageBaselines env);
          (engagedNow, knownNow) \<leftarrow> PanicState env;
          tornDownAgain \<leftarrow> panicLandedDuringWrite env (engagedNow \<and> knownNow)
            ''rollback_skipped'' [] user;
          (if applyErr = None \<and> \<not> tornDownAgain then recordAppliedConfig env opts nets
           else State_Monad.return ());
          State_Monad.return fails
        });
     (let all = (case revertErr of None \<Rightarrow> failures | Some e \<Rightarrow> (''rules file: '' @ e) # failures)
      in if all \<noteq> [] then WriteAuditLog env ''rollback_failed'' (join ''; '' all) user
         else State_Monad.return ())
   }"

section \<open>Apply\<close>

text \<open>The end of an apply: the window decides, or there is none.\<close>

definition apply_confirm ::
  "env \<Rightarrow> bool \<Rightarrow> rules_state \<Rightarrow> applied_config_result \<Rightarrow> string \<Rightarrow> (world, unit) state" where
  "apply_confirm env acceptanceOn prev before user =
     (if \<not> acceptanceOn then do {
        WriteAuditLog env ''apply_started'' [] user;
        setLastApply env;
        WriteAuditLog env ''apply_accepted'' [] user
      }
      else do {
        ok \<leftarrow> windowWait env;
        if \<not> ok then do {
          why \<leftarrow> windowReason env;
          WriteAuditLog env ''apply_rolledback'' why user;
          rollback env prev before user
        }
        else do {
          clearUnconfirmed env;
          setLastApply env;
          WriteAuditLog env ''apply_accepted'' [] user
        }
      })"

text \<open>The kernel write of an apply and everything that follows it.\<close>

definition apply_write ::
  "env \<Rightarrow> bool \<Rightarrow> rules_state \<Rightarrow> rules_state \<Rightarrow> applied_config_result \<Rightarrow> firewall_options \<Rightarrow>
   network_settings \<Rightarrow> string \<Rightarrow> (world, fw_error option) state" where
  "apply_write env acceptanceOn prev updated before opts nets user = do {
     fc \<leftarrow> feedContents env (Current updated);
     err \<leftarrow> ApplyWithFeeds env updated opts nets fc;
     case err of
       Some e \<Rightarrow> do {
         windowReset env;
         WriteAuditLog env ''apply_failed'' (nft_error_text e) user;
         engaged \<leftarrow> PanicEngaged env;
         _ \<leftarrow> panicLandedDuringWrite env engaged ''apply_refused_panic'' [] user;
         rollback env prev before user;
         State_Monad.return (Some (FwError (''apply nftables rules: '' @ nft_error_text e)))
       }
     | None \<Rightarrow> do {
         resetUsageBaselines env;
         engaged \<leftarrow> PanicEngaged env;
         landed \<leftarrow> panicLandedDuringWrite env engaged ''apply_refused_panic'' [] user;
         if landed then do {
           windowReset env;
           rollback env prev before user;
           State_Monad.return (Some ErrPanicEngaged)
         }
         else do {
           fs \<leftarrow> LastFindings env;
           auditBuildFindings env fs user;
           recordAppliedConfig env opts nets;
           apply_confirm env acceptanceOn prev before user;
           State_Monad.return None
         }
       }
   }"

text \<open>The deferred reset of a window still pending when the apply returns.\<close>

definition reset_if_pending :: "env \<Rightarrow> (world, unit) state" where
  "reset_if_pending env = do {
     s \<leftarrow> windowStatus env;
     if s = AcceptancePending then windowReset env else State_Monad.return ()
   }"

definition apply_promoted ::
  "env \<Rightarrow> bool \<Rightarrow> rules_state \<Rightarrow> applied_config_result \<Rightarrow> firewall_options \<Rightarrow>
   network_settings \<Rightarrow> string \<Rightarrow> (world, fw_error option) state" where
  "apply_promoted env acceptanceOn prev before opts nets user = do {
     st \<leftarrow> GetState env;
     case st of
       Inl e \<Rightarrow> do {
         WriteAuditLog env ''apply_failed'' e user;
         State_Monad.return (Some (FwError (''re-read rules after promote: '' @ e)))
       }
     | Inr updated \<Rightarrow>
         if acceptanceOn then do {
           WriteAuditLog env ''apply_started'' [] user;
           d \<leftarrow> cfgAcceptanceDuration env;
           serr \<leftarrow> windowStart env d;
           case serr of
             Some e \<Rightarrow> do {
               WriteAuditLog env ''apply_failed'' e user;
               rollback env prev before user;
               State_Monad.return (Some (FwError e))
             }
           | None \<Rightarrow> do {
               r \<leftarrow> apply_write env True prev updated before opts nets user;
               reset_if_pending env;
               State_Monad.return r
             }
         }
         else apply_write env False prev updated before opts nets user
   }"

definition apply_locked :: "env \<Rightarrow> string \<Rightarrow> (world, fw_error option) state" where
  "apply_locked env user = do {
     engaged \<leftarrow> PanicEngaged env;
     if engaged then do {
       WriteAuditLog env ''apply_refused_panic'' [] user;
       State_Monad.return (Some ErrPanicEngaged)
     }
     else do {
       collectUsageBeforeWrite env;
       st \<leftarrow> GetState env;
       case st of
         Inl e \<Rightarrow> do {
           WriteAuditLog env ''apply_failed'' e user;
           State_Monad.return (Some (FwError (''get rules: '' @ e)))
         }
       | Inr prev \<Rightarrow> do {
           berr \<leftarrow> BackupCurrent env;
           case berr of
             Some e \<Rightarrow> do {
               WriteAuditLog env ''apply_failed'' e user;
               State_Monad.return (Some (FwError (''backup rules: '' @ e)))
             }
           | None \<Rightarrow> do {
               opts \<leftarrow> cfgFirewallOptions env;
               nets \<leftarrow> cfgNetworkSettings env;
               acceptanceOn \<leftarrow> cfgAcceptanceEnabled env;
               before \<leftarrow> appliedConfig env;
               merr \<leftarrow> (if acceptanceOn then markUnconfirmed env before
                       else State_Monad.return None);
               case merr of
                 Some e \<Rightarrow> do {
                   WriteAuditLog env ''apply_failed'' e user;
                   State_Monad.return (Some (FwError (''mark apply unconfirmed: '' @ e)))
                 }
               | None \<Rightarrow> do {
                   perr \<leftarrow> PromoteStaged env;
                   case perr of
                     Some e \<Rightarrow> do {
                       clearUnconfirmed env;
                       WriteAuditLog env ''apply_failed'' e user;
                       State_Monad.return (Some (FwError (''promote staged rules: '' @ e)))
                     }
                   | None \<Rightarrow> apply_promoted env acceptanceOn prev before opts nets user
                 }
             }
         }
     }
   }"

definition Apply :: "env \<Rightarrow> string \<Rightarrow> (world, fw_error option) state" where
  "Apply env user = do {
     ok \<leftarrow> beginApply env;
     if \<not> ok then State_Monad.return (Some ErrApplyInProgress)
     else do {
       r \<leftarrow> apply_locked env user;
       endApply env;
       State_Monad.return r
     }
   }"

section \<open>Restore\<close>

text \<open>The revert once the marker is known to be there.\<close>

definition revert_marked ::
  "env \<Rightarrow> (world, string + (applied_config_result \<times> bool)) state" where
  "revert_marked env = do {
     before \<leftarrow> step env (\<lambda>k w. case (read_error (io env k), unconfirmed w) of
                (None, Some b) \<Rightarrow> (if arRecorded b then b else no_applied_config, w)
              | _ \<Rightarrow> (no_applied_config, w));
     err \<leftarrow> RollbackRules env;
     case err of
       Some e \<Rightarrow> State_Monad.return (Inl (''revert an apply that was never confirmed: '' @ e))
     | None \<Rightarrow> do {
         clearUnconfirmed env;
         windowRecord env ReasonCoreStopped;
         WriteAuditLog env ''apply_rolledback'' ReasonCoreStopped ''core'';
         State_Monad.return (Inr (before, True))
       }
   }"

definition revertUnconfirmed ::
  "env \<Rightarrow> (world, string + (applied_config_result \<times> bool)) state" where
  "revertUnconfirmed env = do {
     m \<leftarrow> step env (\<lambda>k w. case read_error (io env k) of
            Some e \<Rightarrow> (Inl e, w) | None \<Rightarrow> (Inr (unconfirmed w \<noteq> None), w));
     case m of
       Inl e \<Rightarrow> State_Monad.return (Inl (''read unconfirmed marker: '' @ e))
     | Inr there \<Rightarrow>
         if \<not> there then State_Monad.return (Inr (no_applied_config, False))
         else revert_marked env
   }"

text \<open>The settings a restore writes: what the marker recorded, else what was in force, else now's.\<close>

definition restore_config ::
  "env \<Rightarrow> applied_config_result \<Rightarrow> bool \<Rightarrow> (world, firewall_options \<times> network_settings) state" where
  "restore_config env before reverted = do {
     opts \<leftarrow> cfgFirewallOptions env;
     nets \<leftarrow> cfgNetworkSettings env;
     if reverted then configToRestore env before
     else do {
       applied \<leftarrow> appliedConfig env;
       State_Monad.return (if arRecorded applied
         then (apFirewall (arConfig applied), apNetwork (arConfig applied)) else (opts, nets))
     }
   }"

definition restore_write ::
  "env \<Rightarrow> rules_state \<Rightarrow> applied_config_result \<Rightarrow> bool \<Rightarrow> string \<Rightarrow> (world, fw_error option) state" where
  "restore_write env st before reverted why = do {
     setBootBridges env;
     collectUsageBeforeWrite env;
     (opts, nets) \<leftarrow> restore_config env before reverted;
     fc \<leftarrow> feedContents env (Current st);
     err \<leftarrow> ApplyWithFeeds env st opts nets fc;
     case err of
       Some e \<Rightarrow> do {
         WriteAuditLog env ''boot_enforce_failed'' (why @ '': '' @ nft_error_text e) ''core'';
         engaged \<leftarrow> PanicEngaged env;
         _ \<leftarrow> panicLandedDuringWrite env engaged ''boot_enforce_failed'' why ''core'';
         State_Monad.return (Some (FwError (''restore rules: '' @ nft_error_text e)))
       }
     | None \<Rightarrow> do {
         resetUsageBaselines env;
         engaged \<leftarrow> PanicEngaged env;
         landed \<leftarrow> panicLandedDuringWrite env engaged ''boot_enforce_failed'' why ''core'';
         if landed then State_Monad.return None
         else do {
           recordAppliedConfig env opts nets;
           WriteAuditLog env ''boot_enforced'' why ''core'';
           State_Monad.return None
         }
       }
   }"

definition restore_stored ::
  "env \<Rightarrow> applied_config_result \<Rightarrow> bool \<Rightarrow> string \<Rightarrow> (world, fw_error option) state" where
  "restore_stored env before reverted why = do {
     st \<leftarrow> GetState env;
     case st of
       Inl e \<Rightarrow> do {
         WriteAuditLog env ''boot_enforce_failed'' (why @ '': '' @ e) ''core'';
         State_Monad.return (Some (FwError (''get rules: '' @ e)))
       }
     | Inr s \<Rightarrow> do {
         configured \<leftarrow> everConfigured env s;
         if \<not> configured then do {
           WriteAuditLog env ''boot_not_configured'' why ''core'';
           State_Monad.return None
         }
         else restore_write env s before reverted why
       }
   }"

definition restore_locked :: "env \<Rightarrow> string \<Rightarrow> (world, fw_error option) state" where
  "restore_locked env why = do {
     engaged \<leftarrow> PanicEngaged env;
     if engaged then State_Monad.return None
     else do {
       rev \<leftarrow> revertUnconfirmed env;
       case rev of
         Inl e \<Rightarrow> do {
           WriteAuditLog env ''boot_enforce_failed'' (why @ '': '' @ e) ''core'';
           State_Monad.return (Some (FwError e))
         }
       | Inr (before, reverted) \<Rightarrow> restore_stored env before reverted why
     }
   }"

definition restoreSlotPolls :: nat where "restoreSlotPolls = 101"
definition restoreSlotWait :: int where "restoreSlotWait = 5000000000"

definition RestoreCurrent :: "env \<Rightarrow> string \<Rightarrow> (world, fw_error option) state" where
  "RestoreCurrent env why = do {
     engaged \<leftarrow> PanicEngaged env;
     if engaged then State_Monad.return None
     else do {
       t \<leftarrow> timeNow env;
       ok \<leftarrow> waitForApplySlot env restoreSlotPolls (t + restoreSlotWait);
       if \<not> ok then State_Monad.return (Some ErrApplyInProgress)
       else do {
         r \<leftarrow> restore_locked env why;
         endApply env;
         State_Monad.return r
       }
     }
   }"

section \<open>Panic mode\<close>

definition Panic :: "env \<Rightarrow> string \<Rightarrow> (world, fw_error option) state" where
  "Panic env user = do {
     err \<leftarrow> EngagePanic env;
     case err of
       Some e \<Rightarrow> State_Monad.return (Some (FwError (''engage panic mode: '' @ e)))
     | None \<Rightarrow> do {
         WriteAuditLog env ''panic_engaged'' [] user;
         windowCancelForPanic env;
         collectUsageBeforeWrite env;
         rerr \<leftarrow> panicReset env;
         State_Monad.return (map_option (\<lambda>e. FwError (''tear down the table: '' @ e)) rerr)
       }
   }"

record resume_result =
  WasEngaged :: bool
  Restored :: bool

definition Resume :: "env \<Rightarrow> string \<Rightarrow> (world, resume_result \<times> fw_error option) state" where
  "Resume env user = do {
     (engaged, known) \<leftarrow> PanicState env;
     let was = (engaged \<or> \<not> known);
     err \<leftarrow> ClearPanic env;
     case err of
       Some e \<Rightarrow> State_Monad.return
         (\<lparr> WasEngaged = was, Restored = False \<rparr>, Some (FwError (''end panic mode: '' @ e)))
     | None \<Rightarrow> do {
         (if was then WriteAuditLog env ''panic_resumed'' [] user else State_Monad.return ());
         st \<leftarrow> GetState env;
         configured \<leftarrow> (case st of Inl _ \<Rightarrow> State_Monad.return False
                        | Inr s \<Rightarrow> everConfigured env s);
         r \<leftarrow> RestoreCurrent env RestoreReasonResume;
         (if r = Some ErrApplyInProgress then WriteAuditLog env ''resume_restore_skipped'' [] user
          else State_Monad.return ());
         State_Monad.return (\<lparr> WasEngaged = was, Restored = (r = None \<and> configured) \<rparr>, r)
       }
   }"

end
