(* ===== verification/Lifecycle.thy ===== *)
theory Lifecycle
  imports Firewall
begin

text \<open>
  What the lifecycle guarantees, proved with triples over the programs of \<open>Firewall\<close>.

  The locales are the interface between a program and the goroutines beside it: an invariant
  that every outside action keeps (\<open>env_invariant\<close>) is kept by every primitive step that does
  not touch what the invariant talks about.  \<open>record_invariant\<close> leaves the bookkeeping files
  free, \<open>last_free\<close> the time of the last apply, \<open>window_free\<close> the acceptance window, \<open>store_invariant\<close> the kernel, \<open>kernel_invariant\<close>
  the rules file.  Crash safety is an interpretation of \<open>store_invariant\<close>, panic safety one of
  \<open>kernel_invariant\<close>.
\<close>

section \<open>Triples\<close>

named_theorems triples \<open>structural rules of the triples\<close>

definition triple :: "('s \<Rightarrow> bool) \<Rightarrow> ('s, 'a) state \<Rightarrow> ('a \<Rightarrow> 's \<Rightarrow> bool) \<Rightarrow> bool" where
  "triple P m Q \<longleftrightarrow> (\<forall>w. P w \<longrightarrow> wp m Q w)"

abbreviation keeps :: "('s \<Rightarrow> bool) \<Rightarrow> ('s, 'a) state \<Rightarrow> bool" where
  "keeps I m \<equiv> triple I m (\<lambda>_. I)"

lemma tripleD: "triple P m Q \<Longrightarrow> P w \<Longrightarrow> wp m Q w"
  by (simp add: triple_def)

lemma triple_bind: "triple P m R \<Longrightarrow> (\<And>a. triple (R a) (f a) Q) \<Longrightarrow> triple P (State_Monad.bind m f) Q"
  unfolding triple_def wp_bind by (blast intro: wp_mono)

lemma triple_return: "(\<And>w. P w \<Longrightarrow> Q x w) \<Longrightarrow> triple P (State_Monad.return x) Q"
  by (simp add: triple_def wp_return)

lemma triple_weaken:
  "triple P m Q \<Longrightarrow> (\<And>w. P' w \<Longrightarrow> P w) \<Longrightarrow> (\<And>a w. Q a w \<Longrightarrow> Q' a w) \<Longrightarrow> triple P' m Q'"
  unfolding triple_def by (blast intro: wp_mono)

lemma triple_post: "triple P m Q \<Longrightarrow> (\<And>a w. Q a w \<Longrightarrow> Q' a w) \<Longrightarrow> triple P m Q'"
  unfolding triple_def by (blast intro: wp_mono)

lemma triple_pre: "triple P m Q \<Longrightarrow> (\<And>w. P' w \<Longrightarrow> P w) \<Longrightarrow> triple P' m Q"
  by (auto simp: triple_def)

lemma triple_conj: "triple P m Q \<Longrightarrow> triple P' m Q' \<Longrightarrow> triple (\<lambda>w. P w \<and> P' w) m (\<lambda>a w. Q a w \<and> Q' a w)"
  by (auto simp: triple_def wp_conj)

lemma triple_assume: "(b \<Longrightarrow> triple P m Q) \<Longrightarrow> triple (\<lambda>w. P w \<and> b) m Q"
  by (auto simp: triple_def)

lemma triple_step:
  "(\<And>w. P w \<Longrightarrow> case f (tick w) (interfered env w) of (a, w') \<Rightarrow> Q a (w'\<lparr>tick := Suc (tick w)\<rparr>)) \<Longrightarrow>
   triple P (step env f) Q"
  by (auto simp: triple_def wp_step)

lemma keeps_bind [triples]:
  "keeps I m \<Longrightarrow> (\<And>a. keeps I (f a)) \<Longrightarrow> keeps I (State_Monad.bind m f)"
  by (rule triple_bind)

lemma keeps_return [triples]: "keeps I (State_Monad.return x)"
  by (rule triple_return)

lemma triple_if [triples]:
  "(b \<Longrightarrow> triple P m Q) \<Longrightarrow> (\<not> b \<Longrightarrow> triple P n Q) \<Longrightarrow> triple P (if b then m else n) Q"
  by simp

lemma triple_option [triples]:
  "(x = None \<Longrightarrow> triple P m Q) \<Longrightarrow> (\<And>y. x = Some y \<Longrightarrow> triple P (f y) Q) \<Longrightarrow>
   triple P (case x of None \<Rightarrow> m | Some y \<Rightarrow> f y) Q"
  by (cases x) simp_all

lemma triple_sum [triples]:
  "(\<And>y. x = Inl y \<Longrightarrow> triple P (f y) Q) \<Longrightarrow> (\<And>y. x = Inr y \<Longrightarrow> triple P (g y) Q) \<Longrightarrow>
   triple P (case x of Inl y \<Rightarrow> f y | Inr y \<Rightarrow> g y) Q"
  by (cases x) simp_all

lemma triple_prod [triples]:
  "(\<And>a b. x = (a, b) \<Longrightarrow> triple P (f a b) Q) \<Longrightarrow> triple P (case x of (a, b) \<Rightarrow> f a b) Q"
  by (cases x) simp

lemma triple_bool [triples]:
  "(x \<Longrightarrow> triple P m Q) \<Longrightarrow> (\<not> x \<Longrightarrow> triple P n Q) \<Longrightarrow>
   triple P (case x of True \<Rightarrow> m | False \<Rightarrow> n) Q"
  by (cases x) simp_all

lemma triple_nft_error [triples]:
  "(\<And>s. e = NftError s \<Longrightarrow> triple P (f s) Q) \<Longrightarrow> (\<And>s. e = NothingWritten s \<Longrightarrow> triple P (g s) Q) \<Longrightarrow>
   triple P (case e of NftError s \<Rightarrow> f s | NothingWritten s \<Rightarrow> g s) Q"
  by (cases e) simp_all

lemma triple_Let [triples]: "triple P (f x) Q \<Longrightarrow> triple P (let y = x in f y) Q"
  by simp

section \<open>Invariants and the steps that keep them\<close>

locale env_invariant =
  fixes env :: env and I :: "world \<Rightarrow> bool"
  assumes others_keep: "a \<in> set (others env k) \<Longrightarrow> I w \<Longrightarrow> I (interfere env k w a)"
    and frame_tick: "I w \<Longrightarrow> I (w\<lparr>tick := n\<rparr>)"
begin

lemma interfered_keeps: "I w \<Longrightarrow> I (interfered env w)"
proof -
  have "I v \<Longrightarrow> set as \<subseteq> set (others env k) \<Longrightarrow> I (foldl (interfere env k) v as)" for v k as
    by (induction as arbitrary: v) (auto intro: others_keep)
  then show "I w \<Longrightarrow> I (interfered env w)" by (simp add: interfered_def)
qed

lemma step_triple:
  assumes "\<And>k w. I w \<Longrightarrow> case f k w of (a, w') \<Rightarrow> I w' \<and> Q a"
  shows "triple I (step env f) (\<lambda>a w. I w \<and> Q a)"
proof (rule triple_step)
  fix w assume "I w"
  from assms [OF interfered_keeps [OF this], of "tick w"]
  show "case f (tick w) (interfered env w) of (a, w') \<Rightarrow> I (w'\<lparr>tick := Suc (tick w)\<rparr>) \<and> Q a"
    by (auto intro: frame_tick split: prod.splits)
qed

lemma step_effect:
  assumes "\<And>k w n. I w \<Longrightarrow> case f k w of (a, w') \<Rightarrow> Q a (w'\<lparr>tick := n\<rparr>)"
  shows "triple I (step env f) Q"
  by (rule triple_step) (rule assms, erule interfered_keeps)

lemma step_keeps: "(\<And>k w. I w \<Longrightarrow> I (snd (f k w))) \<Longrightarrow> keeps I (step env f)"
  using step_triple [where f = f and Q = "\<lambda>_. True"] by (simp add: case_prod_beta)

end

locale record_invariant = env_invariant +
  assumes frame_audit: "I w \<Longrightarrow> I (w\<lparr>audit := x1\<rparr>)"
    and frame_usage: "I w \<Longrightarrow> I (w\<lparr>usageFile := x2\<rparr>)"
    and frame_applied: "I w \<Longrightarrow> I (w\<lparr>appliedFile := x3\<rparr>)"
    and frame_last_file: "I w \<Longrightarrow> I (w\<lparr>lastApplyFile := x4\<rparr>)"
    and frame_slot: "I w \<Longrightarrow> I (w\<lparr>applying := x6\<rparr>)"
    and frame_bridges: "I w \<Longrightarrow> I (w\<lparr>bootBridges := x7\<rparr>)"
begin

lemmas frames = frame_audit frame_usage frame_applied frame_last_file frame_slot
  frame_bridges

lemma keeps_GetState: "keeps I (GetState env)"
  unfolding GetState_def by (rule step_keeps) (simp split: option.splits)

lemma keeps_audit: "keeps I (WriteAuditLog env act cause user)"
  unfolding WriteAuditLog_def by (rule step_keeps) (simp add: frames split: option.splits)

lemma keeps_PanicState: "keeps I (PanicState env)"
  unfolding PanicState_def by (rule step_keeps) simp

lemma keeps_PanicEngaged: "keeps I (PanicEngaged env)"
  unfolding PanicEngaged_def by (intro triples keeps_PanicState)

lemma keeps_appliedConfig: "keeps I (appliedConfig env)"
  unfolding appliedConfig_def by (rule step_keeps) (simp split: option.splits prod.splits)

lemma keeps_recordAppliedConfig: "keeps I (recordAppliedConfig env opts nets)"
  unfolding recordAppliedConfig_def by (rule step_keeps) (simp add: frames split: option.splits)

lemma keeps_cfg: "keeps I (cfgFirewallOptions env)" "keeps I (cfgNetworkSettings env)"
  "keeps I (cfgAcceptanceEnabled env)" "keeps I (cfgAcceptanceDuration env)"
  unfolding cfgFirewallOptions_def cfgNetworkSettings_def cfgAcceptanceEnabled_def
    cfgAcceptanceDuration_def by (rule step_keeps, simp)+

lemma keeps_configToRestore: "keeps I (configToRestore env before)"
  unfolding configToRestore_def by (intro triples keeps_cfg)

lemma keeps_collect: "keeps I (collectUsageBeforeWrite env)"
proof -
  have "keeps I (RuleCounters env)" unfolding RuleCounters_def by (rule step_keeps) simp
  moreover have "keeps I (collect_into_file env cs live)" for cs live
    unfolding collect_into_file_def by (rule step_keeps) (simp add: frames)
  ultimately show ?thesis
    unfolding collectUsageBeforeWrite_def by (intro triples keeps_GetState)
qed

lemma keeps_resetUsage: "keeps I (resetUsageBaselines env)"
  unfolding resetUsageBaselines_def by (rule step_keeps) (simp add: frames)

lemma keeps_feedContents: "keeps I (feedContents env r)"
  unfolding feedContents_def by (intro triples step_keeps) (simp split: option.splits)

lemma keeps_everConfigured: "keeps I (everConfigured env st)"
  unfolding everConfigured_def by (intro triples step_keeps) simp

lemma keeps_findings: "keeps I (LastFindings env)" "keeps I (auditBuildFindings env fs user)"
  unfolding LastFindings_def auditBuildFindings_def
  by (rule step_keeps, simp) (intro triples keeps_audit)

lemma keeps_slot: "keeps I (beginApply env)" "keeps I (endApply env)"
  unfolding beginApply_def endApply_def by (rule step_keeps, simp add: frames)+

lemma keeps_timeNow: "keeps I (timeNow env)"
  unfolding timeNow_def by (rule step_keeps) simp

lemma keeps_waitForApplySlot: "keeps I (waitForApplySlot env n dl)"
  by (induction n) (auto intro!: triples keeps_slot keeps_timeNow)

lemma keeps_setBootBridges: "keeps I (setBootBridges env)"
  unfolding setBootBridges_def by (rule step_keeps) (simp add: frames)

lemma keeps_restore_config: "keeps I (restore_config env before reverted)"
  unfolding restore_config_def
  by (intro triples keeps_cfg keeps_configToRestore keeps_appliedConfig)

lemma keeps_windowRead: "keeps I (windowStatus env)" "keeps I (windowReason env)"
  unfolding windowStatus_def windowReason_def by (rule step_keeps, simp)+

lemmas record_keeps = keeps_GetState keeps_audit keeps_PanicState keeps_PanicEngaged
  keeps_appliedConfig keeps_recordAppliedConfig keeps_cfg keeps_configToRestore keeps_collect
  keeps_resetUsage keeps_feedContents keeps_everConfigured keeps_findings
  keeps_slot keeps_timeNow keeps_waitForApplySlot keeps_setBootBridges keeps_restore_config
  keeps_windowRead

end

locale last_free = record_invariant +
  assumes frame_last: "I w \<Longrightarrow> I (w\<lparr>lastApply := x5\<rparr>)"
begin

lemma keeps_setLastApply: "keeps I (setLastApply env)"
  unfolding setLastApply_def
  by (intro triples step_keeps) (simp_all add: frames frame_last split: option.splits)

lemmas last_keeps = record_keeps keeps_setLastApply

end

locale window_free = last_free +
  assumes frame_window: "I w \<Longrightarrow> I (w\<lparr>window := x8\<rparr>)"
begin

lemma keeps_window: "keeps I (windowStart env d)" "keeps I (windowReset env)"
  "keeps I (windowWait env)" "keeps I (windowCancelForPanic env)" "keeps I (windowRecord env why)"
  unfolding windowStart_def windowReset_def windowWait_def windowCancelForPanic_def
    windowRecord_def
  by (rule step_keeps, simp add: frame_window split: prod.splits)+

lemma keeps_reset_if_pending: "keeps I (reset_if_pending env)"
  unfolding reset_if_pending_def by (intro triples keeps_windowRead keeps_window)

lemmas window_keeps = last_keeps keeps_window keeps_reset_if_pending

end

locale store_invariant = window_free +
  assumes frame_kernel: "I w \<Longrightarrow> I (w\<lparr>kernel := x9\<rparr>)"
begin

lemma keeps_kernel: "keeps I (ApplyWithFeeds env st opts nets fc)" "keeps I (nftReset env)"
  unfolding ApplyWithFeeds_def nftReset_def
  by (rule step_keeps, simp add: frame_kernel Let_def split: prod.splits)+

lemma keeps_panicLanded: "keeps I (panicLandedDuringWrite env engaged req sit user)"
  unfolding panicLandedDuringWrite_def by (intro triples window_keeps keeps_kernel)

lemma keeps_rollback_kernel: "keeps I (rollback_kernel env previous before user)"
  unfolding rollback_kernel_def by (intro triples window_keeps keeps_kernel)

lemma keeps_restore_write: "keeps I (restore_write env st before reverted why)"
  unfolding restore_write_def by (intro triples window_keeps keeps_kernel keeps_panicLanded)

lemmas store_keeps = window_keeps keeps_kernel keeps_panicLanded keeps_rollback_kernel
  keeps_restore_write

end

locale kernel_invariant = window_free +
  assumes frame_rules: "I w \<Longrightarrow> I (w\<lparr>rulesFile := x10, history := y10\<rparr>)"
    and frame_marker: "I w \<Longrightarrow> I (w\<lparr>unconfirmed := x11, history := y11\<rparr>)"
begin

lemma keeps_update_store: "keeps I (update_store env g)"
  unfolding update_store_def
  by (rule step_keeps) (simp add: save_rules_def frame_rules split: io_outcome.splits)

lemma keeps_store: "keeps I (BackupCurrent env)" "keeps I (PromoteStaged env)"
  "keeps I (RollbackRules env)"
  unfolding BackupCurrent_def PromoteStaged_def RollbackRules_def
  by (rule keeps_update_store)+

lemma keeps_marker: "keeps I (markUnconfirmed env before)" "keeps I (clearUnconfirmed env)"
  unfolding markUnconfirmed_def clearUnconfirmed_def
  by (rule step_keeps, simp add: save_marker_def frame_marker split: option.splits)+

lemma keeps_revertUnconfirmed: "keeps I (revertUnconfirmed env)"
  unfolding revertUnconfirmed_def revert_marked_def
  by (intro triples step_keeps window_keeps keeps_store keeps_marker)
     (auto split: option.splits)

lemmas kernel_keeps = window_keeps keeps_store keeps_marker keeps_revertUnconfirmed

end

end
