(* ===== verification/CrashSafety.thy ===== *)
theory CrashSafety
  imports Lifecycle
begin

text \<open>
  Crash safety of the apply cycle.  Wherever the daemon stops, the rule set a restart enforces
  is the one that was in force before the apply, until the operator has confirmed the new one:
  the unconfirmed marker redirects a restart to the backup, and the marker outlives every step
  at which the rules file holds an unconfirmed set.
\<close>

section \<open>Invariants\<close>

text \<open>The others never switch the acceptance window off, and it is on.\<close>

definition window_on :: "env \<Rightarrow> world \<Rightarrow> bool" where
  "window_on env w \<longleftrightarrow>
     (\<forall>k c. Configure c \<in> set (others env k) \<longrightarrow> acEnabled (ccAcceptance c)) \<and>
     acEnabled (ccAcceptance (config w))"

text \<open>Every moment so far, and this one, a restart enforces \<open>c\<close>.\<close>

definition crash_inv :: "rules \<Rightarrow> world \<Rightarrow> bool" where
  "crash_inv c w \<longleftrightarrow> set (history w) \<subseteq> {c} \<and> effective (rulesFile w) (unconfirmed w) = c"

definition unmarked :: "env \<Rightarrow> rules \<Rightarrow> world \<Rightarrow> bool" where
  "unmarked env c w \<longleftrightarrow> crash_inv c w \<and> unconfirmed w = None \<and> window_on env w"

definition backed_up :: "env \<Rightarrow> rules \<Rightarrow> world \<Rightarrow> bool" where
  "backed_up env c w \<longleftrightarrow> unmarked env c w \<and> Backup (rulesFile w) = c"

definition marked :: "rules \<Rightarrow> world \<Rightarrow> bool" where
  "marked c w \<longleftrightarrow> crash_inv c w \<and> unconfirmed w \<noteq> None"

definition marked_at :: "rules \<Rightarrow> rules \<Rightarrow> world \<Rightarrow> bool" where
  "marked_at c p w \<longleftrightarrow> marked c w \<and> Current (rulesFile w) = p"

text \<open>The kernel holds \<open>p\<close>, or panic mode has taken the table down.\<close>

definition holds_only :: "rules \<Rightarrow> kernel \<Rightarrow> bool" where
  "holds_only p k \<longleftrightarrow> k = NoTable \<or> k = EmptyTable \<or> (\<exists>rs. k = Filtering rs \<and> rsRules rs = p)"

definition live_at :: "rules \<Rightarrow> rules \<Rightarrow> world \<Rightarrow> bool" where
  "live_at c p w \<longleftrightarrow> marked_at c p w \<and> holds_only p (kernel w)"

definition accepted_at :: "rules \<Rightarrow> rules \<Rightarrow> world \<Rightarrow> bool" where
  "accepted_at c p w \<longleftrightarrow> status (window w) = AcceptanceAccepted \<and> set (history w) \<subseteq> {c, p} \<and>
     Current (rulesFile w) = p \<and> Backup (rulesFile w) = c \<and> holds_only p (kernel w)"

lemmas crash_defs = crash_inv_def unmarked_def backed_up_def marked_def marked_at_def
  live_at_def accepted_at_def window_on_def effective_def save_rules_def save_marker_def

lemma accepted_stays:
  "status a = AcceptanceAccepted \<Longrightarrow> status (fst (Accept t a)) = AcceptanceAccepted"
  "status a = AcceptanceAccepted \<Longrightarrow> status (fst (CancelForPanic t a)) = AcceptanceAccepted"
  "status a = AcceptanceAccepted \<Longrightarrow> status (fst (CancelByOperator t a)) = AcceptanceAccepted"
  "status a = AcceptanceAccepted \<Longrightarrow> status (CancelForShutdown t a) = AcceptanceAccepted"
  by (simp_all add: acceptance_defs)

interpretation crash: store_invariant env "crash_inv c" for env c
  apply unfold_locales
  subgoal for a k w by (cases a) (auto simp: crash_defs split: prod.splits)
  by (auto simp: crash_defs)

interpretation unmarked: store_invariant env "unmarked env c" for env c
  apply unfold_locales
  subgoal for a k w by (cases a) (auto simp: crash_defs split: prod.splits)
  by (auto simp: crash_defs)

interpretation backed_up: store_invariant env "backed_up env c" for env c
  apply unfold_locales
  subgoal for a k w by (cases a) (auto simp: crash_defs split: prod.splits)
  by (auto simp: crash_defs)

interpretation marked: store_invariant env "marked c" for env c
  apply unfold_locales
  subgoal for a k w by (cases a) (auto simp: crash_defs split: prod.splits)
  by (auto simp: crash_defs)

interpretation marked_at: store_invariant env "marked_at c p" for env c p
  apply unfold_locales
  subgoal for a k w by (cases a) (auto simp: crash_defs split: prod.splits)
  by (auto simp: crash_defs)

lemma holds_only_reset: "holds_only p k \<Longrightarrow> holds_only p (fst (reset_table d a k))"
  by (auto simp: holds_only_def reset_table_def Let_def split: option.splits kernel.splits)

lemma holds_only_write:
  "write_ruleset fl ce fe rs k = (k', None) \<Longrightarrow> holds_only (rsRules rs) k'"
  by (auto simp: holds_only_def write_ruleset_def Let_def
      split: if_splits flush_outcome.splits option.splits)

interpretation live_at: window_free env "live_at c p" for env c p
  apply unfold_locales
  subgoal for a k w
    using holds_only_reset [of p "kernel w" "delError env k" "addError env k"]
    by (cases a) (auto simp: crash_defs split: prod.splits)
  by (auto simp: crash_defs)

interpretation accepted_at: last_free env "accepted_at c p" for env c p
  apply unfold_locales
  subgoal for a k w
    using holds_only_reset [of p "kernel w" "delError env k" "addError env k"]
    by (cases a) (auto simp: crash_defs accepted_stays split: prod.splits)
  by (auto simp: crash_defs)

section \<open>The steps that touch the rules file\<close>

lemma triple_Backup:
  "triple (unmarked env c) (BackupCurrent env)
     (\<lambda>e w. unmarked env c w \<and> (e = None \<longrightarrow> backed_up env c w))"
  unfolding BackupCurrent_def update_store_def
  by (rule unmarked.step_effect) (auto simp: crash_defs split: io_outcome.splits)

lemma triple_mark:
  "triple (backed_up env c) (markUnconfirmed env before)
     (\<lambda>e w. if e = None then marked_at c c w else crash_inv c w)"
  unfolding markUnconfirmed_def
  by (rule backed_up.step_effect) (auto simp: crash_defs split: option.splits)

lemma triple_Promote:
  "triple (marked_at c c) (PromoteStaged env)
     (\<lambda>e w. if e = None then marked c w else marked_at c c w)"
  unfolding PromoteStaged_def update_store_def
  by (rule marked_at.step_effect) (auto simp: crash_defs split: io_outcome.splits)

lemma triple_clear_same: "triple (marked_at c c) (clearUnconfirmed env) (\<lambda>_. crash_inv c)"
  unfolding clearUnconfirmed_def
  by (rule marked_at.step_effect) (auto simp: crash_defs split: option.splits)

lemma triple_RollbackRules:
  "triple (marked c) (RollbackRules env)
     (\<lambda>e w. if e = None then marked_at c c w else crash_inv c w)"
  unfolding RollbackRules_def update_store_def
  by (rule marked.step_effect) (auto simp: crash_defs split: io_outcome.splits)

lemma triple_GetState:
  "triple (marked c) (GetState env)
     (\<lambda>r w. marked c w \<and> (\<forall>u. r = Inr u \<longrightarrow> marked_at c (Current u) w))"
  unfolding GetState_def
  by (rule marked.step_effect) (auto simp: crash_defs split: option.splits)

lemma marked_at_crash: "marked_at c p w \<Longrightarrow> crash_inv c w"
  by (simp add: crash_defs)

lemma marked_at_marked: "marked_at c p w \<Longrightarrow> marked c w"
  by (simp add: marked_at_def)

lemma triple_rollback: "triple (marked c) (rollback env prev before user) (\<lambda>_. crash_inv c)"
proof -
  have clear: "triple (\<lambda>w. if e = None then marked_at c c w else crash_inv c w)
      (if e = None then clearUnconfirmed env else State_Monad.return ()) (\<lambda>_. crash_inv c)"
    for e :: "string option"
    by (cases e) (simp_all add: triple_clear_same triple_return)
  show ?thesis
    unfolding rollback_def
    by (rule triple_bind [OF triple_RollbackRules], rule triple_bind [OF clear])
       (intro triples crash.store_keeps)
qed

section \<open>The window\<close>

lemma live_marked_at: "live_at c p w \<Longrightarrow> marked_at c p w"
  by (simp add: live_at_def)

lemma live_marked: "live_at c p w \<Longrightarrow> marked c w"
  by (simp add: live_at_def marked_at_def)

lemma triple_wait:
  "triple (live_at c p) (windowWait env) (\<lambda>ok w. live_at c p w \<and> (ok \<longrightarrow> accepted_at c p w))"
  unfolding windowWait_def
  by (rule live_at.step_effect) (auto simp: crash_defs wait_finish_def)

lemma triple_confirm:
  "triple (live_at c p) (apply_confirm env True prev before user)
     (\<lambda>_ w. crash_inv c w \<or> accepted_at c p w)"
proof -
  have undo: "triple (live_at c p)
      (do { why \<leftarrow> windowReason env; WriteAuditLog env ''apply_rolledback'' why user;
            rollback env prev before user })
      (\<lambda>_ w. crash_inv c w \<or> accepted_at c p w)"
    by (rule triple_bind [OF live_at.keeps_windowRead(2)],
        rule triple_bind [OF live_at.keeps_audit],
        rule triple_weaken [OF triple_rollback]) (auto simp: live_marked)
  have "keeps (accepted_at c p) (clearUnconfirmed env)"
    unfolding clearUnconfirmed_def
    by (rule accepted_at.step_effect) (auto simp: crash_defs split: option.splits)
  then have keep: "keeps (accepted_at c p)
      (do { clearUnconfirmed env; setLastApply env; WriteAuditLog env ''apply_accepted'' [] user })"
    by (intro triples accepted_at.last_keeps)
  show ?thesis
    unfolding apply_confirm_def
    by (simp, rule triple_bind [OF triple_wait], rule triple_if,
        rule triple_pre [OF undo], simp, rule triple_weaken [OF keep], simp_all)
qed

lemma triple_reset_if_pending:
  "keeps (\<lambda>w. crash_inv c w \<or> accepted_at c p w) (reset_if_pending env)"
proof -
  have "triple (accepted_at c p) (windowStatus env)
      (\<lambda>s w. accepted_at c p w \<and> s = AcceptanceAccepted)"
    unfolding windowStatus_def by (rule accepted_at.step_effect) (auto simp: crash_defs)
  then have "triple (accepted_at c p) (reset_if_pending env) (\<lambda>_. accepted_at c p)"
    unfolding reset_if_pending_def
    by (rule triple_bind) (auto simp: triple_def wp_simps)
  with crash.keeps_reset_if_pending [of c env] show ?thesis
    by (auto simp: triple_def elim: wp_mono)
qed

section \<open>The apply\<close>

lemma triple_kernel_write:
  "triple (marked_at c (Current u)) (ApplyWithFeeds env u opts nets fc)
     (\<lambda>e w. marked_at c (Current u) w \<and> (e = None \<longrightarrow> live_at c (Current u) w))"
  unfolding ApplyWithFeeds_def Let_def
proof (rule marked_at.step_effect)
  fix k w n
  let ?rs = "\<lparr> rsRules = Current u, rsOptions = opts, rsNetwork = nets, rsFeeds = fc,
      rsBridges = bridges env k, rsCustom = False, rsFinalLog = False \<rparr>"
  assume w: "marked_at c (Current u) w"
  obtain k' e where wr: "write_ruleset (flush env k) (customError env k) (finalError env k) ?rs
      (kernel w) = (k', e)" by (cases "write_ruleset (flush env k) (customError env k)
      (finalError env k) ?rs (kernel w)")
  with holds_only_write [of _ _ _ ?rs _ k'] w
  show "case (case write_ruleset (flush env k) (customError env k) (finalError env k) ?rs (kernel w)
      of (kt, e) \<Rightarrow> (e, w\<lparr>kernel := kt\<rparr>)) of (a, w') \<Rightarrow>
      marked_at c (Current u) (w'\<lparr>tick := n\<rparr>) \<and>
      (a = None \<longrightarrow> live_at c (Current u) (w'\<lparr>tick := n\<rparr>))"
    by (auto simp: crash_defs)
qed

lemma live_panicLanded: "keeps (live_at c p) (panicLandedDuringWrite env engaged req sit user)"
proof -
  have "keeps (live_at c p) (nftReset env)"
    unfolding nftReset_def
    by (rule live_at.step_keeps) (auto simp: crash_defs case_prod_beta intro: holds_only_reset)
  then show ?thesis
    unfolding panicLandedDuringWrite_def by (intro triples live_at.window_keeps)
qed

lemma triple_write:
  "triple (marked_at c (Current updated))
     (apply_write env True prev updated before opts nets user)
     (\<lambda>_ w. crash_inv c w \<or> accepted_at c (Current updated) w)"
proof -
  let ?p = "Current updated"
  have failed: "triple (marked_at c ?p)
      (do { windowReset env; WriteAuditLog env ''apply_failed'' e user;
         engaged \<leftarrow> PanicEngaged env;
         _ \<leftarrow> panicLandedDuringWrite env engaged ''apply_refused_panic'' [] user;
         rollback env prev before user; State_Monad.return x })
      (\<lambda>_ w. crash_inv c w \<or> accepted_at c ?p w)" for e and x :: "fw_error option"
    by (rule triple_bind [OF marked_at.keeps_window(2)], rule triple_bind [OF marked_at.keeps_audit],
        rule triple_bind [OF marked_at.keeps_PanicEngaged],
        rule triple_bind [OF marked_at.keeps_panicLanded],
        rule triple_bind [OF triple_pre [OF triple_rollback marked_at_marked]], assumption,
        rule triple_return) (rule disjI1)
  have landed: "triple (live_at c ?p)
      (do { windowReset env; rollback env prev before user; State_Monad.return x })
      (\<lambda>_ w. crash_inv c w \<or> accepted_at c ?p w)" for x :: "fw_error option"
    by (rule triple_bind [OF live_at.keeps_window(2)],
        rule triple_bind [OF triple_pre [OF triple_rollback live_marked]], assumption,
        rule triple_return) (rule disjI1)
  have finish: "triple (live_at c ?p)
      (do { fs \<leftarrow> LastFindings env; auditBuildFindings env fs user;
            recordAppliedConfig env opts nets; apply_confirm env True prev before user;
            State_Monad.return x })
      (\<lambda>_ w. crash_inv c w \<or> accepted_at c ?p w)" for x :: "fw_error option"
    by (rule triple_bind [OF live_at.keeps_findings(1)],
        rule triple_bind [OF live_at.keeps_findings(2)],
        rule triple_bind [OF live_at.keeps_recordAppliedConfig],
        rule triple_bind [OF triple_confirm], rule triple_return)
  have ok: "triple (live_at c ?p)
      (do { resetUsageBaselines env; engaged \<leftarrow> PanicEngaged env;
         landed \<leftarrow> panicLandedDuringWrite env engaged ''apply_refused_panic'' [] user;
         if landed then do { windowReset env; rollback env prev before user;
           State_Monad.return (Some ErrPanicEngaged) }
         else do { fs \<leftarrow> LastFindings env; auditBuildFindings env fs user;
           recordAppliedConfig env opts nets; apply_confirm env True prev before user;
           State_Monad.return None } }) (\<lambda>_ w. crash_inv c w \<or> accepted_at c ?p w)"
    by (rule triple_bind [OF live_at.keeps_resetUsage],
        rule triple_bind [OF live_at.keeps_PanicEngaged], rule triple_bind [OF live_panicLanded],
        rule triple_if) (rule landed, rule finish)
  show ?thesis
    unfolding apply_write_def
    by (rule triple_bind [OF marked_at.keeps_feedContents],
        rule triple_bind [OF triple_kernel_write], rule triple_option,
        rule triple_pre [OF ok], simp, rule triple_pre [OF failed], simp)
qed

text \<open>
  Nothing was confirmed and a restart enforces \<open>c\<close>, as at every moment before; or the operator
  confirmed, every moment enforced \<open>c\<close> or the set now current, and that set is in the kernel.
\<close>

definition settled :: "rules \<Rightarrow> world \<Rightarrow> bool" where
  "settled c w \<longleftrightarrow> crash_inv c w \<or> (\<exists>p. accepted_at c p w)"

lemma settled_intros: "crash_inv c w \<Longrightarrow> settled c w" "accepted_at c p w \<Longrightarrow> settled c w"
  by (auto simp: settled_def)

lemma triple_window_apply:
  "triple (marked_at c (Current u))
     (do { WriteAuditLog env ''apply_started'' [] user;
           d \<leftarrow> cfgAcceptanceDuration env; serr \<leftarrow> windowStart env d;
           case serr of
             Some e \<Rightarrow> do { WriteAuditLog env ''apply_failed'' e user;
               rollback env prev before user; State_Monad.return (Some (FwError e)) }
           | None \<Rightarrow> do { r \<leftarrow> apply_write env True prev u before opts nets user;
               reset_if_pending env; State_Monad.return r } }) (\<lambda>_. settled c)"
proof -
  have body: "triple (marked_at c (Current u))
      (do { r \<leftarrow> apply_write env True prev u before opts nets user;
            reset_if_pending env; State_Monad.return r }) (\<lambda>_. settled c)"
    by (rule triple_bind [OF triple_write], rule triple_bind [OF triple_reset_if_pending],
        rule triple_return) (auto intro: settled_intros)
  have refused: "triple (marked_at c p) (do { WriteAuditLog env ''apply_failed'' e user;
        rollback env prev before user; State_Monad.return x }) (\<lambda>_. settled c)"
    for p e and x :: "fw_error option"
    by (rule triple_bind [OF marked_at.keeps_audit],
        rule triple_bind [OF triple_pre [OF triple_rollback marked_at_marked]], assumption,
        rule triple_return) (rule settled_intros)
  show ?thesis
    by (rule triple_bind [OF marked_at.keeps_audit],
        rule triple_bind [OF marked_at.keeps_cfg(4)],
        rule triple_bind [OF marked_at.keeps_window(1)], rule triple_option)
       (rule body, rule refused)
qed

lemma triple_promoted:
  "triple (marked c) (apply_promoted env True prev before opts nets user) (\<lambda>_. settled c)"
  unfolding apply_promoted_def if_True
proof (rule triple_bind [OF triple_GetState], rule triple_sum)
  fix r e assume "r = (Inl e :: string + rules_state)"
  show "triple (\<lambda>w. marked c w \<and> (\<forall>u. r = Inr u \<longrightarrow> marked_at c (Current u) w))
      (do { WriteAuditLog env ''apply_failed'' e user;
            State_Monad.return (Some (FwError (''re-read rules after promote: '' @ e))) })
      (\<lambda>_. settled c)"
    by (rule triple_pre [where P = "crash_inv c"])
       (auto intro!: triple_bind [OF crash.keeps_audit] triple_return settled_intros(1)
         simp: marked_def)
next
  fix r u assume "r = (Inr u :: string + rules_state)"
  then show "triple (\<lambda>w. marked c w \<and> (\<forall>u. r = Inr u \<longrightarrow> marked_at c (Current u) w))
      (do { WriteAuditLog env ''apply_started'' [] user;
           d \<leftarrow> cfgAcceptanceDuration env; serr \<leftarrow> windowStart env d;
           case serr of
             Some e \<Rightarrow> do { WriteAuditLog env ''apply_failed'' e user;
               rollback env prev before user; State_Monad.return (Some (FwError e)) }
           | None \<Rightarrow> do { r \<leftarrow> apply_write env True prev u before opts nets user;
               reset_if_pending env; State_Monad.return r } }) (\<lambda>_. settled c)"
    by (intro triple_pre [OF triple_window_apply]) simp
qed

text \<open>The tail of an apply from the marker on.\<close>

lemma triple_from_mark:
  "triple (backed_up env c)
     (do { merr \<leftarrow> markUnconfirmed env before;
           case merr of
             Some e \<Rightarrow> do { WriteAuditLog env ''apply_failed'' e user;
                 State_Monad.return (Some (FwError (''mark apply unconfirmed: '' @ e))) }
           | None \<Rightarrow> do {
               perr \<leftarrow> PromoteStaged env;
               case perr of
                 Some e \<Rightarrow> do { clearUnconfirmed env; WriteAuditLog env ''apply_failed'' e user;
                     State_Monad.return (Some (FwError (''promote staged rules: '' @ e))) }
               | None \<Rightarrow> apply_promoted env True prev before opts nets user } }) (\<lambda>_. settled c)"
proof -
  have fail: "triple (crash_inv c) (do { WriteAuditLog env ''apply_failed'' e user;
      State_Monad.return x }) (\<lambda>_. settled c)" for e and x :: "fw_error option"
    by (rule triple_bind [OF crash.keeps_audit], rule triple_return) (rule settled_intros)
  have unpromoted: "triple (marked_at c c) (do { clearUnconfirmed env;
      WriteAuditLog env ''apply_failed'' e user; State_Monad.return x }) (\<lambda>_. settled c)"
    for e and x :: "fw_error option"
    by (rule triple_bind [OF triple_clear_same]) (rule fail)
  show ?thesis
    by (rule triple_bind [OF triple_mark], rule triple_option,
        simp, rule triple_bind [OF triple_Promote], rule triple_option)
       (simp_all add: triple_promoted unpromoted fail)
qed

lemma triple_apply_locked: "triple (unmarked env c) (apply_locked env user) (\<lambda>_. settled c)"
proof -
  have stop: "triple (unmarked env c) (do { WriteAuditLog env act e user; State_Monad.return x })
      (\<lambda>_. settled c)" for act e and x :: "fw_error option"
    by (rule triple_bind [OF unmarked.keeps_audit], rule triple_return)
       (auto intro: settled_intros simp: unmarked_def)
  have on: "triple (backed_up env c) (cfgAcceptanceEnabled env) (\<lambda>b w. backed_up env c w \<and> b)"
    unfolding cfgAcceptanceEnabled_def by (rule backed_up.step_effect) (auto simp: crash_defs)
  show ?thesis
    unfolding apply_locked_def
    apply (rule triple_bind [OF unmarked.keeps_PanicEngaged], rule triple_if, rule stop)
    apply (rule triple_bind [OF unmarked.keeps_collect],
        rule triple_bind [OF unmarked.keeps_GetState], rule triple_sum, rule stop)
    apply (rule triple_bind [OF triple_Backup], rule triple_option)
     apply (rule triple_pre [where P = "backed_up env c"])
      apply (rule triple_bind [OF backed_up.keeps_cfg(1)],
        rule triple_bind [OF backed_up.keeps_cfg(2)], rule triple_bind [OF on], rule triple_assume)
      apply (rule triple_bind [OF backed_up.keeps_appliedConfig],
        simp only: if_True, rule triple_from_mark)
     apply blast
    apply (rule triple_pre [OF stop], blast)
    done
qed

lemma unmarked_settled: "unmarked env c w \<Longrightarrow> settled c w"
  by (auto simp: unmarked_def intro: settled_intros)

lemma settled_endApply: "keeps (settled c) (endApply env)"
  using crash.keeps_slot(2) [of c env] accepted_at.keeps_slot(2) [of c _ env]
  by (fastforce simp: triple_def settled_def elim: wp_mono)

section \<open>Properties\<close>


text \<open>
  C13. An apply with the acceptance window on, whatever fails in it and whatever the operator,
  the console and the other goroutines do meanwhile: at every moment the daemon could stop, a
  restart enforces the rule set that was in force before the apply, unless the operator
  confirmed the new one; when the apply returns unconfirmed, a restart still does, and when it
  returns confirmed the kernel holds the confirmed set or panic mode took the table down.
\<close>

theorem apply_crash_safe:
  assumes "unconfirmed w = None" "history w = []" "window_on env w"
    "run_state (Apply env user) w = (r, w')"
  shows "(set (history w') \<subseteq> {Current (rulesFile w)} \<and>
            effective (rulesFile w') (unconfirmed w') = Current (rulesFile w)) \<or>
         (status (window w') = AcceptanceAccepted \<and>
            set (history w') \<subseteq> {Current (rulesFile w), Current (rulesFile w')} \<and>
            (kernel w' = NoTable \<or> kernel w' = EmptyTable \<or>
             (\<exists>rs. kernel w' = Filtering rs \<and> rsRules rs = Current (rulesFile w'))))"
proof -
  let ?c = "Current (rulesFile w)"
  have "triple (unmarked env ?c) (Apply env user) (\<lambda>_. settled ?c)"
    unfolding Apply_def
    by (rule triple_bind [OF unmarked.keeps_slot(1)], rule triple_if,
        rule triple_return, erule unmarked_settled,
        rule triple_bind [OF triple_apply_locked], rule triple_bind [OF settled_endApply],
        rule triple_return)
  moreover have "unmarked env ?c w" using assms by (simp add: crash_defs)
  ultimately have "settled ?c w'" using assms(4) by (blast dest: tripleD wp_result)
  then show ?thesis by (auto simp: settled_def crash_inv_def accepted_at_def holds_only_def)
qed

end
