(* ===== verification/RestoreSafety.thy ===== *)
theory RestoreSafety
  imports CrashSafety
begin

text \<open>
  What a restore may do: it enforces the effective rule set or nothing, and on an installation
  that never applied anything it writes nothing to the kernel.
\<close>

section \<open>Invariant\<close>

text \<open>
  \<open>c\<close> is the effective rule set, \<open>k0\<close> the table the restore found, \<open>t0\<close> the time of the last
  apply: the kernel holds what was found, nothing, or \<open>c\<close>, and \<open>c\<close> only where something was
  applied once.
\<close>

definition table_ok :: "rules \<Rightarrow> kernel \<Rightarrow> int \<Rightarrow> kernel \<Rightarrow> bool" where
  "table_ok c k0 t0 k \<longleftrightarrow>
     k = k0 \<or> k = NoTable \<or> k = EmptyTable \<or>
     (\<exists>rs. k = Filtering rs \<and> rsRules rs = c \<and> \<not> (IsEmpty c \<and> t0 = 0))"

definition restoring :: "rules \<Rightarrow> kernel \<Rightarrow> int \<Rightarrow> world \<Rightarrow> bool" where
  "restoring c k0 t0 w \<longleftrightarrow> crash_inv c w \<and> table_ok c k0 t0 (kernel w) \<and> lastApply w = t0"

definition ready :: "rules \<Rightarrow> kernel \<Rightarrow> int \<Rightarrow> world \<Rightarrow> bool" where
  "ready c k0 t0 w \<longleftrightarrow> restoring c k0 t0 w \<and> Current (rulesFile w) = c"

lemmas restore_defs = restoring_def ready_def crash_defs

lemma table_ok_reset: "table_ok c k0 t0 k \<Longrightarrow> table_ok c k0 t0 (fst (reset_table d a k))"
  by (auto simp: table_ok_def reset_table_def Let_def split: option.splits kernel.splits)

lemma table_ok_write:
  "table_ok c k0 t0 k \<Longrightarrow> rsRules rs = c \<Longrightarrow> \<not> (IsEmpty c \<and> t0 = 0) \<Longrightarrow>
   table_ok c k0 t0 (fst (write_ruleset fl ce fe rs k))"
  by (auto simp: table_ok_def write_ruleset_def Let_def split: flush_outcome.splits option.splits)

interpretation restoring: record_invariant env "restoring c k0 t0" for env c k0 t0
  apply unfold_locales
  subgoal for a k w
    using table_ok_reset [of c k0 t0 "kernel w" "delError env k" "addError env k"]
    by (cases a) (auto simp: restore_defs split: prod.splits)
  by (auto simp: restore_defs)

interpretation ready: record_invariant env "ready c k0 t0" for env c k0 t0
  apply unfold_locales
  subgoal for a k w
    using table_ok_reset [of c k0 t0 "kernel w" "delError env k" "addError env k"]
    by (cases a) (auto simp: restore_defs split: prod.splits)
  by (auto simp: restore_defs)

lemma ready_restoring: "ready c k0 t0 w \<Longrightarrow> restoring c k0 t0 w"
  by (simp add: ready_def)

section \<open>Steps\<close>

lemma restoring_kernel: "restoring c k0 t0 w \<Longrightarrow> table_ok c k0 t0 k \<Longrightarrow> restoring c k0 t0 (w\<lparr>kernel := k\<rparr>)"
  by (auto simp: restore_defs)

lemma restoring_reset: "keeps (restoring c k0 t0) (nftReset env)"
  unfolding nftReset_def
proof (rule restoring.step_keeps)
  fix k w assume w: "restoring c k0 t0 w"
  then have t: "table_ok c k0 t0 (kernel w)" by (simp add: restoring_def)
  show "restoring c k0 t0 (snd (case reset_table (delError env k) (addError env k) (kernel w)
      of (kt, e) \<Rightarrow> (e, w\<lparr>kernel := kt\<rparr>)))"
    by (simp add: case_prod_beta restoring_kernel [OF w] table_ok_reset [OF t])
qed

lemma restoring_panicLanded: "keeps (restoring c k0 t0) (panicLandedDuringWrite env b req sit user)"
  unfolding panicLandedDuringWrite_def
  by (intro triples restoring.record_keeps restoring_reset)

lemma ready_write:
  assumes "Current st = c" "\<not> (IsEmpty c \<and> t0 = 0)"
  shows "triple (ready c k0 t0) (ApplyWithFeeds env st opts nets fc) (\<lambda>_. restoring c k0 t0)"
  unfolding ApplyWithFeeds_def Let_def
proof (rule ready.step_effect)
  fix k w n
  let ?rs = "\<lparr> rsRules = Current st, rsOptions = opts, rsNetwork = nets, rsFeeds = fc,
      rsBridges = bridges env k, rsCustom = False, rsFinalLog = False \<rparr>"
  assume w: "ready c k0 t0 w"
  then have "restoring c k0 t0 w" "table_ok c k0 t0 (kernel w)"
    by (simp_all add: ready_def restoring_def)
  from restoring_kernel [OF this(1) table_ok_write [OF this(2), of ?rs]] assms
  show "case (case write_ruleset (flush env k) (customError env k) (finalError env k) ?rs (kernel w)
      of (kt, e) \<Rightarrow> (e, w\<lparr>kernel := kt\<rparr>)) of (a, w') \<Rightarrow> restoring c k0 t0 (w'\<lparr>tick := n\<rparr>)"
    by (simp add: case_prod_beta restoring.frame_tick)
qed

text \<open>The revert of an unconfirmed apply, by the state of the marker.\<close>

definition rmarked :: "rules \<Rightarrow> kernel \<Rightarrow> int \<Rightarrow> world \<Rightarrow> bool" where
  "rmarked c k0 t0 w \<longleftrightarrow> restoring c k0 t0 w \<and> unconfirmed w \<noteq> None"

definition rboth :: "rules \<Rightarrow> kernel \<Rightarrow> int \<Rightarrow> world \<Rightarrow> bool" where
  "rboth c k0 t0 w \<longleftrightarrow> ready c k0 t0 w \<and> Backup (rulesFile w) = c"

interpretation rmarked: record_invariant env "rmarked c k0 t0" for env c k0 t0
  apply unfold_locales
  subgoal for a k w
    using table_ok_reset [of c k0 t0 "kernel w" "delError env k" "addError env k"]
    by (cases a) (auto simp: rmarked_def restore_defs split: prod.splits)
  by (auto simp: rmarked_def restore_defs)

interpretation rboth: record_invariant env "rboth c k0 t0" for env c k0 t0
  apply unfold_locales
  subgoal for a k w
    using table_ok_reset [of c k0 t0 "kernel w" "delError env k" "addError env k"]
    by (cases a) (auto simp: rboth_def restore_defs split: prod.splits)
  by (auto simp: rboth_def restore_defs)

lemma rmarked_Rollback:
  "triple (rmarked c k0 t0) (RollbackRules env)
     (\<lambda>e w. if e = None then rboth c k0 t0 w else restoring c k0 t0 w)"
  unfolding RollbackRules_def update_store_def
  by (rule rmarked.step_effect)
     (auto simp: rmarked_def rboth_def restore_defs split: io_outcome.splits)

lemma rboth_clear: "triple (rboth c k0 t0) (clearUnconfirmed env) (\<lambda>_. ready c k0 t0)"
  unfolding clearUnconfirmed_def
  by (rule rboth.step_effect) (auto simp: rboth_def restore_defs split: option.splits)

lemma ready_record: "keeps (ready c k0 t0) (windowRecord env why)"
  unfolding windowRecord_def by (rule ready.step_keeps) (auto simp: restore_defs)

lemma rmarked_revert:
  "triple (rmarked c k0 t0) (revert_marked env)
     (\<lambda>r w. if isl r then restoring c k0 t0 w else ready c k0 t0 w)"
proof -
  have look: "keeps (rmarked c k0 t0)
      (step env (\<lambda>k w. case (read_error (io env k), unconfirmed w) of
                    (None, Some b) \<Rightarrow> (if arRecorded b then b else no_applied_config, w)
                  | _ \<Rightarrow> (no_applied_config, w)))"
    by (rule rmarked.step_keeps) (auto split: option.splits)
  have tail: "triple (rboth c k0 t0)
      (do { clearUnconfirmed env; windowRecord env ReasonCoreStopped;
            WriteAuditLog env ''apply_rolledback'' ReasonCoreStopped ''core'';
            State_Monad.return (Inr x) })
      (\<lambda>r w. if isl r then restoring c k0 t0 w else ready c k0 t0 w)"
    for x :: "applied_config_result \<times> bool"
    by (rule triple_bind [OF rboth_clear], rule triple_bind [OF ready_record],
        rule triple_bind [OF ready.keeps_audit], rule triple_return) simp
  show ?thesis
    unfolding revert_marked_def
    by (rule triple_bind [OF look], rule triple_bind [OF rmarked_Rollback], rule triple_option)
       (simp_all only: simp_thms if_True if_False option.distinct tail,
        rule triple_return, simp)
qed

lemma restoring_revert:
  "triple (restoring c k0 t0) (revertUnconfirmed env)
     (\<lambda>r w. if isl r then restoring c k0 t0 w else ready c k0 t0 w)"
proof -
  have look: "triple (restoring c k0 t0)
      (step env (\<lambda>k w. case read_error (io env k) of
            Some e \<Rightarrow> (Inl e, w) | None \<Rightarrow> (Inr (unconfirmed w \<noteq> None), w)))
      (\<lambda>m w. case m of Inl _ \<Rightarrow> restoring c k0 t0 w
         | Inr b \<Rightarrow> if b then rmarked c k0 t0 w else ready c k0 t0 w)"
    by (rule restoring.step_effect) (auto simp: rmarked_def restore_defs split: option.splits)
  show ?thesis
    unfolding revertUnconfirmed_def
    by (rule triple_bind [OF look], rule triple_sum)
       (auto intro!: triple_return simp: rmarked_revert)
qed

section \<open>The restore\<close>

lemma ready_restore_write:
  assumes "Current st = c" "\<not> (IsEmpty c \<and> t0 = 0)"
  shows "triple (ready c k0 t0) (restore_write env st before reverted why) (\<lambda>_. restoring c k0 t0)"
  unfolding restore_write_def
  apply (rule triple_bind [OF ready.keeps_setBootBridges], rule triple_bind [OF ready.keeps_collect],
      rule triple_bind [OF ready.keeps_restore_config], rule triple_prod,
      rule triple_bind [OF ready.keeps_feedContents], rule triple_bind [OF ready_write [OF assms]])
  by (intro triples restoring.record_keeps restoring_panicLanded)

lemma triple_restore_stored:
  "triple (ready c k0 t0) (restore_stored env before reverted why) (\<lambda>_. restoring c k0 t0)"
proof -
  have state: "triple (ready c k0 t0) (GetState env)
      (\<lambda>r w. ready c k0 t0 w \<and> (\<forall>u. r = Inr u \<longrightarrow> Current u = c))"
    unfolding GetState_def by (rule ready.step_effect) (auto simp: restore_defs split: option.splits)
  have ever: "triple (ready (Current st) k0 t0) (everConfigured env st)
      (\<lambda>b w. ready (Current st) k0 t0 w \<and> (b \<longrightarrow> \<not> (IsEmpty (Current st) \<and> t0 = 0)))" for st
    unfolding everConfigured_def
    by (auto intro!: triple_if triple_return ready.step_effect simp: restore_defs)
  have stop: "triple (ready c k0 t0) (do { WriteAuditLog env act e user; State_Monad.return x })
      (\<lambda>_. restoring c k0 t0)" for c act e user and x :: "fw_error option"
    by (rule triple_bind [OF ready.keeps_audit], rule triple_return) (rule ready_restoring)
  have go: "triple (ready (Current st) k0 t0)
      (do { configured \<leftarrow> everConfigured env st;
            if \<not> configured then do { WriteAuditLog env ''boot_not_configured'' why ''core'';
              State_Monad.return None } else restore_write env st before reverted why })
      (\<lambda>_. restoring (Current st) k0 t0)" for st
    by (rule triple_bind [OF ever], rule triple_if, rule triple_pre [OF stop], blast,
        rule triple_pre [OF triple_assume]) (auto intro!: ready_restore_write)
  show ?thesis
    unfolding restore_stored_def
  proof (rule triple_bind [OF state], rule triple_sum)
    fix r s assume "r = (Inr s :: string + rules_state)"
    then show "triple (\<lambda>w. ready c k0 t0 w \<and> (\<forall>u. r = Inr u \<longrightarrow> Current u = c))
      (do { configured \<leftarrow> everConfigured env s;
            if \<not> configured then do { WriteAuditLog env ''boot_not_configured'' why ''core'';
              State_Monad.return None } else restore_write env s before reverted why })
      (\<lambda>_. restoring c k0 t0)"
      using go [of s] by (auto simp: triple_def)
  qed (rule triple_pre [OF stop], blast)
qed

lemma triple_restore_locked: "keeps (restoring c k0 t0) (restore_locked env why)"
  unfolding restore_locked_def
proof (rule triple_bind [OF restoring.keeps_PanicEngaged], rule triple_if, rule triple_return,
    assumption, rule triple_bind [OF restoring_revert], rule triple_sum)
  fix r :: "string + applied_config_result \<times> bool" and y
  assume "r = Inr y"
  then show "triple (\<lambda>w. if isl r then restoring c k0 t0 w else ready c k0 t0 w)
      (case y of (before, reverted) \<Rightarrow> restore_stored env before reverted why)
      (\<lambda>_. restoring c k0 t0)"
    by (auto intro!: triple_prod triple_restore_stored)
qed (auto intro!: triple_bind [OF restoring.keeps_audit] triple_return)

section \<open>Properties\<close>

text \<open>
  C14. A restore, whatever fails and whatever happens beside it, enforces the set the files say
  is in force (the backup while an apply is unconfirmed, the current set otherwise) or
  nothing: the kernel ends with the table it had, with no rules, or with exactly that set; a
  crash at any moment of the restore leaves a later one with the same set; and on an
  installation where nothing was ever applied it puts no rules in the kernel at all, so it
  cannot close a machine nobody has configured.
\<close>

theorem restore_enforces_effective:
  assumes "history w = []" "c = effective (rulesFile w) (unconfirmed w)"
    "run_state (RestoreCurrent env why) w = (r, w')"
  shows "(kernel w' = kernel w \<or> kernel w' = NoTable \<or> kernel w' = EmptyTable \<or>
            (\<exists>rs. kernel w' = Filtering rs \<and> rsRules rs = c \<and>
                  \<not> (IsEmpty c \<and> lastApply w = 0))) \<and>
         set (history w') \<subseteq> {c} \<and> effective (rulesFile w') (unconfirmed w') = c"
proof -
  have "keeps (restoring c (kernel w) (lastApply w)) (RestoreCurrent env why)"
    unfolding RestoreCurrent_def
    by (intro triples restoring.record_keeps triple_restore_locked)
  moreover have "restoring c (kernel w) (lastApply w) w"
    using assms by (simp add: restore_defs table_ok_def)
  ultimately have "restoring c (kernel w) (lastApply w) w'"
    using assms(3) by (blast dest: tripleD wp_result)
  then show ?thesis by (simp add: restoring_def crash_inv_def table_ok_def)
qed

end
