(* ===== verification/PanicSafety.thy ===== *)
theory PanicSafety
  imports Lifecycle
begin

text \<open>
  Panic mode outranks every writer.  The console places the marker and then tears the table
  down, without taking the apply slot; a writer that finds the marker after its write takes
  the table down again.  Between them, once the teardown has happened, a machine with the
  marker in place is not filtering.
\<close>

section \<open>Invariant\<close>

definition not_filtering :: "kernel \<Rightarrow> bool" where
  "not_filtering k \<longleftrightarrow> k = NoTable \<or> k = EmptyTable"

text \<open>The marker can be read, and the kernel deletes a table that is there.\<close>

definition orderly :: "env \<Rightarrow> bool" where
  "orderly env \<longleftrightarrow> (\<forall>k. \<not> statError env k \<and> delError env k = None)"

definition panic_inv :: "env \<Rightarrow> world \<Rightarrow> bool" where
  "panic_inv env w \<longleftrightarrow>
     orderly env \<and> (panicMarker w \<longrightarrow> not_filtering (kernel w) \<or> teardownDue w)"

definition wrote :: "env \<Rightarrow> world \<Rightarrow> bool" where
  "wrote env w \<longleftrightarrow> orderly env"

definition unseen :: "env \<Rightarrow> bool \<Rightarrow> world \<Rightarrow> bool" where
  "unseen env engaged w \<longleftrightarrow> (if engaged then wrote env w else panic_inv env w)"

lemmas panic_defs = panic_inv_def wrote_def unseen_def orderly_def not_filtering_def

lemma reset_not_filtering: "not_filtering (fst (reset_table None a k))"
  by (auto simp: reset_table_def not_filtering_def split: option.splits kernel.splits)

interpretation panic: kernel_invariant env "panic_inv env" for env
  apply unfold_locales
  subgoal for a k w
    using reset_not_filtering [of "addError env k" "kernel w"]
    by (cases a) (auto simp: panic_defs save_rules_def split: prod.splits)
  by (auto simp: panic_defs)

interpretation wrote: kernel_invariant env "wrote env" for env
  by unfold_locales (auto simp: wrote_def)

lemma panic_wrote: "panic_inv env w \<Longrightarrow> wrote env w"
  by (simp add: panic_inv_def wrote_def)

section \<open>Writes and the check after them\<close>

lemma pm_kernel_write:
  "triple (panic_inv env) (ApplyWithFeeds env st opts nets fc) (\<lambda>_. wrote env)"
  unfolding ApplyWithFeeds_def by (rule panic.step_effect) (auto simp: panic_defs split: prod.splits)

lemma pm_reset: "triple (wrote env) (nftReset env) (\<lambda>_. panic_inv env)"
  unfolding nftReset_def
  using reset_not_filtering
  by (intro wrote.step_effect) (auto simp: panic_defs case_prod_beta)

lemma pm_check: "triple (wrote env) (PanicEngaged env) (unseen env)"
  unfolding PanicEngaged_def
proof (rule triple_bind)
  show "triple (wrote env) (PanicState env) (\<lambda>(e, known) w. known \<and> unseen env e w)"
    unfolding PanicState_def by (rule wrote.step_effect) (auto simp: panic_defs)
qed (auto simp: triple_def wp_simps)

lemma pm_check_known:
  "triple (wrote env) (PanicState env) (\<lambda>(e, known) w. unseen env (e \<and> known) w)"
  unfolding PanicState_def by (rule wrote.step_effect) (auto simp: panic_defs)

lemma unseen_cases [simp]: "unseen env True = wrote env" "unseen env False = panic_inv env"
  by (auto simp: unseen_def)

lemma pm_landed:
  "triple (unseen env engaged) (panicLandedDuringWrite env engaged req sit user)
     (\<lambda>_. panic_inv env)"
proof (cases engaged)
  case True
  have "triple (wrote env)
      (do { collectUsageBeforeWrite env; err \<leftarrow> nftReset env;
        (case err of
           Some e \<Rightarrow> WriteAuditLog env ''boot_enforce_failed'' (sit @ e) user
         | None \<Rightarrow> WriteAuditLog env req sit user);
        State_Monad.return True }) (\<lambda>_. panic_inv env)"
    by (rule triple_bind [OF wrote.keeps_collect], rule triple_bind [OF pm_reset])
       (intro triples panic.keeps_audit)
  with True show ?thesis by (simp add: panicLandedDuringWrite_def)
qed (auto simp: panicLandedDuringWrite_def triple_def wp_simps)

section \<open>Operations\<close>

lemma pm_rollback_kernel:
  "triple (panic_inv env) (rollback_kernel env previous before user) (\<lambda>_. wrote env)"
proof -
  have fresh: "triple (panic_inv env)
      (do { opts \<leftarrow> cfgFirewallOptions env; nets \<leftarrow> cfgNetworkSettings env; err \<leftarrow> nftReset env;
        (case err of
           None \<Rightarrow> WriteAuditLog env ''boot_not_configured'' [] user
         | Some e \<Rightarrow> WriteAuditLog env ''boot_enforce_failed'' e user);
        State_Monad.return (map_option NftError err, opts, nets, [] :: string list) })
      (\<lambda>_. wrote env)"
    by (rule triple_weaken [of "wrote env" _ "\<lambda>_. wrote env"])
       (intro triples wrote.window_keeps triple_post [OF pm_reset] panic_wrote, auto simp: panic_wrote)
  have again: "triple (panic_inv env)
      (do { (opts, nets) \<leftarrow> configToRestore env before; fc \<leftarrow> feedContents env (Current previous);
        err \<leftarrow> ApplyWithFeeds env previous opts nets fc;
        State_Monad.return (err, opts, nets,
          case err of None \<Rightarrow> [] | Some e \<Rightarrow> [''nftables: '' @ nft_error_text e]) })
      (\<lambda>_. wrote env)"
    by (rule triple_bind [OF panic.keeps_configToRestore], rule triple_prod,
        rule triple_bind [OF panic.keeps_feedContents], rule triple_bind [OF pm_kernel_write],
        rule triple_return)
  show ?thesis
    unfolding rollback_kernel_def
    by (rule triple_bind [OF panic.keeps_everConfigured], rule triple_if) (rule fresh, rule again)
qed

text \<open>A write that the check follows, before and after what each operation does with it.\<close>

lemmas checked_landed = triple_bind [OF pm_check triple_bind [OF pm_landed]]

lemma pm_rollback: "keeps (panic_inv env) (rollback env previous before user)"
proof -
  have body: "keeps (panic_inv env)
      (do { collectUsageBeforeWrite env;
          (applyErr, opts, nets, fails) \<leftarrow> rollback_kernel env previous before user;
          (case applyErr of
             Some (NothingWritten _) \<Rightarrow> State_Monad.return ()
           | _ \<Rightarrow> resetUsageBaselines env);
          (engagedNow, knownNow) \<leftarrow> PanicState env;
          tornDownAgain \<leftarrow> panicLandedDuringWrite env (engagedNow \<and> knownNow)
            ''rollback_skipped'' [] user;
          (if applyErr = None \<and> \<not> tornDownAgain then recordAppliedConfig env opts nets
           else State_Monad.return ());
          State_Monad.return fails })"
    apply (rule triple_bind [OF panic.keeps_collect], rule triple_bind [OF pm_rollback_kernel])
    apply (rule triple_prod)+
    apply (rule triple_bind [where R = "\<lambda>_. wrote env"])
     apply (intro triples wrote.window_keeps)
    apply (rule triple_bind [OF pm_check_known])
    apply (rule triple_prod, simp only: prod.case)
    apply (rule triple_bind [OF pm_landed])
    apply (intro triples panic.window_keeps)
    done
  show ?thesis
    unfolding rollback_def
    by (intro triples panic.kernel_keeps body)
qed

lemma pm_confirm: "keeps (panic_inv env) (apply_confirm env on prev before user)"
  unfolding apply_confirm_def by (intro triples panic.kernel_keeps pm_rollback)

lemma pm_write:
  "keeps (panic_inv env) (apply_write env on prev updated before opts nets user)"
proof -
  have failed: "triple (wrote env)
      (do { windowReset env; WriteAuditLog env ''apply_failed'' e user;
         engaged \<leftarrow> PanicEngaged env;
         _ \<leftarrow> panicLandedDuringWrite env engaged ''apply_refused_panic'' [] user;
         rollback env prev before user; State_Monad.return x }) (\<lambda>_. panic_inv env)"
    for e and x :: "fw_error option"
    by (rule triple_bind [OF wrote.keeps_window(2)], rule triple_bind [OF wrote.keeps_audit],
        rule checked_landed) (intro triples pm_rollback)
  have ok: "triple (wrote env)
      (do { resetUsageBaselines env; engaged \<leftarrow> PanicEngaged env;
         landed \<leftarrow> panicLandedDuringWrite env engaged ''apply_refused_panic'' [] user;
         if landed then do { windowReset env; rollback env prev before user;
           State_Monad.return (Some ErrPanicEngaged) }
         else do { fs \<leftarrow> LastFindings env; auditBuildFindings env fs user;
           recordAppliedConfig env opts nets; apply_confirm env on prev before user;
           State_Monad.return None } }) (\<lambda>_. panic_inv env)"
    by (rule triple_bind [OF wrote.keeps_resetUsage], rule checked_landed)
       (intro triples panic.kernel_keeps pm_rollback pm_confirm)
  show ?thesis
    unfolding apply_write_def
    by (rule triple_bind [OF panic.keeps_feedContents], rule triple_bind [OF pm_kernel_write],
        rule triple_option) (rule ok, rule failed)
qed

lemma pm_apply: "keeps (panic_inv env) (Apply env user)"
  unfolding Apply_def apply_locked_def apply_promoted_def
  by (intro triples panic.kernel_keeps pm_rollback pm_write)

lemma pm_restore_write:
  "keeps (panic_inv env) (restore_write env st before reverted why)"
proof -
  have failed: "triple (wrote env)
      (do { WriteAuditLog env ''boot_enforce_failed'' d ''core''; engaged \<leftarrow> PanicEngaged env;
         _ \<leftarrow> panicLandedDuringWrite env engaged ''boot_enforce_failed'' why ''core'';
         State_Monad.return x }) (\<lambda>_. panic_inv env)" for d and x :: "fw_error option"
    by (rule triple_bind [OF wrote.keeps_audit], rule checked_landed) (intro triples)
  have ok: "triple (wrote env)
      (do { resetUsageBaselines env; engaged \<leftarrow> PanicEngaged env;
         landed \<leftarrow> panicLandedDuringWrite env engaged ''boot_enforce_failed'' why ''core'';
         if landed then State_Monad.return None
         else do { recordAppliedConfig env opts nets;
           WriteAuditLog env ''boot_enforced'' why ''core'';
           State_Monad.return (None :: fw_error option) } }) (\<lambda>_. panic_inv env)" for opts nets
    by (rule triple_bind [OF wrote.keeps_resetUsage], rule checked_landed)
       (intro triples panic.window_keeps)
  show ?thesis
    unfolding restore_write_def
    by (rule triple_bind [OF panic.keeps_setBootBridges], rule triple_bind [OF panic.keeps_collect],
        rule triple_bind [OF panic.keeps_restore_config], rule triple_prod,
        rule triple_bind [OF panic.keeps_feedContents], rule triple_bind [OF pm_kernel_write],
        rule triple_option) (rule ok, rule failed)
qed

lemma pm_restore: "keeps (panic_inv env) (RestoreCurrent env why)"
  unfolding RestoreCurrent_def restore_locked_def restore_stored_def
  by (intro triples panic.kernel_keeps pm_restore_write)

lemma pm_panic_steps:
  "keeps (panic_inv env) (EngagePanic env)" "keeps (panic_inv env) (ClearPanic env)"
  "keeps (panic_inv env) (panicReset env)"
proof -
  show "keeps (panic_inv env) (EngagePanic env)"
    unfolding EngagePanic_def
    by (rule panic.step_keeps) (auto simp: panic_defs split: option.splits)
  show "keeps (panic_inv env) (ClearPanic env)"
    unfolding ClearPanic_def
    by (rule panic.step_keeps) (auto simp: panic_defs split: option.splits)
  show "keeps (panic_inv env) (panicReset env)"
    unfolding panicReset_def using reset_not_filtering
    by (intro panic.step_keeps) (auto simp: panic_defs case_prod_beta)
qed

lemma pm_panic: "keeps (panic_inv env) (Panic env user)"
  unfolding Panic_def by (intro triples panic.kernel_keeps pm_panic_steps)

lemma pm_resume: "keeps (panic_inv env) (Resume env user)"
  unfolding Resume_def by (intro triples panic.kernel_keeps pm_panic_steps pm_restore)

section \<open>Any sequence of operations\<close>

datatype operation = OpApply string | OpRestore string | OpPanic string | OpResume string

fun run_operation :: "env \<Rightarrow> operation \<Rightarrow> (world, unit) state" where
  "run_operation env (OpApply user) = do { _ \<leftarrow> Apply env user; State_Monad.return () }"
| "run_operation env (OpRestore why) = do { _ \<leftarrow> RestoreCurrent env why; State_Monad.return () }"
| "run_operation env (OpPanic user) = do { _ \<leftarrow> Panic env user; State_Monad.return () }"
| "run_operation env (OpResume user) = do { _ \<leftarrow> Resume env user; State_Monad.return () }"

fun run_operations :: "env \<Rightarrow> operation list \<Rightarrow> (world, unit) state" where
  "run_operations env [] = State_Monad.return ()"
| "run_operations env (x # xs) = do { run_operation env x; run_operations env xs }"

lemma pm_operation: "keeps (panic_inv env) (run_operation env x)"
  by (cases x) (auto intro!: triples pm_apply pm_restore pm_panic pm_resume)

lemma pm_operations: "keeps (panic_inv env) (run_operations env xs)"
  by (induction xs) (auto intro!: triples pm_operation)

section \<open>Properties\<close>

text \<open>
  C15. Panic mode wins every race.  Start without the marker, run any sequence of applies,
  restores, panics and resumes, with any console and web activity interleaved at every step
  and any write failing: as long as the marker can be read and the kernel deletes a table
  that exists, whenever the marker is in place and no teardown is still due, no rule is in
  force.
\<close>

theorem panic_outranks_writers:
  assumes "orderly env" "\<not> panicMarker w"
    "run_state (run_operations env ops) w = (u, w')" "panicMarker w'" "\<not> teardownDue w'"
  shows "kernel w' = NoTable \<or> kernel w' = EmptyTable"
proof -
  have "panic_inv env w" using assms by (simp add: panic_inv_def)
  then have "panic_inv env w'"
    using assms(3) pm_operations by (blast dest: tripleD wp_result)
  with assms show ?thesis by (simp add: panic_inv_def not_filtering_def)
qed

end
