(* ===== verification/LifecycleRuns.thy ===== *)
theory LifecycleRuns
  imports RestoreSafety PanicSafety
begin

text \<open>
  Complete runs of the lifecycle: what an undisturbed restore and an undisturbed unconfirmed
  apply leave behind, the concrete runs that instantiate the safety theorems, and the runs
  that show two defects of the marker's handling and one of the resume's answer.
\<close>

section \<open>Undisturbed environments\<close>

definition calm :: "env \<Rightarrow> bool" where
  "calm env \<longleftrightarrow> (\<forall>k. io env k = IoOk \<and> \<not> statError env k \<and> flush env k = Flushed \<and>
     customError env k = None \<and> finalError env k = None \<and> delError env k = None \<and>
     addError env k = None \<and> others env k = [])"

definition quiet :: env where
  "quiet = \<lparr> io = (\<lambda>_. IoOk), statError = (\<lambda>_. False), flush = (\<lambda>_. Flushed),
             customError = (\<lambda>_. None), finalError = (\<lambda>_. None), delError = (\<lambda>_. None),
             addError = (\<lambda>_. None), counters = (\<lambda>_. Inr Map.empty), findings = (\<lambda>_. []),
             bridges = (\<lambda>_. []), clock = (\<lambda>k. int k), others = (\<lambda>_. []) \<rparr>"

definition example_config :: core_config where
  "example_config =
     \<lparr> ccFirewall = zero_options, ccAcceptance = \<lparr> acEnabled = True, acDuration = 60 \<rparr>,
       ccUsage = \<lparr> ucInterval = None \<rparr>,
       ccPacketLog = \<lparr> plGroup = None, plEntries = None, plPersist = False \<rparr>,
       ccIPv6 = nsIPv6 zero_network, ccDocker = nsDocker zero_network,
       ccRouting = nsRouting zero_network, ccSocketPath = [], ccDataDir = [], ccLogDir = [] \<rparr>"

definition custom_rules :: "string \<Rightarrow> rules" where
  "custom_rules s = no_rules\<lparr>Custom := [s]\<rparr>"

definition example_world :: "rules \<Rightarrow> rules \<Rightarrow> world" where
  "example_world cur staged =
     \<lparr> rulesFile = \<lparr> Current = cur, Staged = staged, Backup = no_rules \<rparr>, unconfirmed = None,
       appliedFile = None, lastApplyFile = None, panicMarker = False,
       usageFile = \<lparr> usage_map = Map.empty, CollectedAt = 0 \<rparr>, feedStore = Map.empty,
       config = example_config, lastApply = 5, applying = False, window = NewAcceptance 60,
       bootBridges = [], kernel = NoTable, audit = [], tick = 0, history = [],
       teardownDue = False \<rparr>"

definition run_in :: "env \<Rightarrow> operation list \<Rightarrow> world \<Rightarrow> world" where
  "run_in env ops w = snd (run_state (run_operations env ops) w)"

definition kernel_rules :: "kernel \<Rightarrow> rules option" where
  "kernel_rules k = (case k of Filtering rs \<Rightarrow> Some (rsRules rs) | _ \<Rightarrow> None)"

section \<open>Undisturbed runs\<close>

text \<open>
  Nobody acts beside the program and nothing fails; \<open>c\<close> is a non-empty rule set the boundary
  admits.  The stages of a run are invariants again, so the steps between them are framed.
\<close>

definition base :: "env \<Rightarrow> rules \<Rightarrow> rules \<Rightarrow> world \<Rightarrow> bool" where
  "base env c s w \<longleftrightarrow> calm env \<and> \<not> IsEmpty c \<and> ValidateRules c = None \<and> \<not> panicMarker w \<and>
     Staged (rulesFile w) = s \<and> acEnabled (ccAcceptance (config w))"

definition at_rest :: "env \<Rightarrow> rules \<Rightarrow> rules \<Rightarrow> world \<Rightarrow> bool" where
  "at_rest env c s w \<longleftrightarrow> base env c s w \<and> Current (rulesFile w) = c \<and> unconfirmed w = None"

definition saved :: "env \<Rightarrow> rules \<Rightarrow> rules \<Rightarrow> world \<Rightarrow> bool" where
  "saved env c s w \<longleftrightarrow> base env c s w \<and> Backup (rulesFile w) = c"

definition undecided :: "env \<Rightarrow> rules \<Rightarrow> rules \<Rightarrow> world \<Rightarrow> bool" where
  "undecided env c s w \<longleftrightarrow> saved env c s w \<and> \<not> accepted (window w)"

definition in_force :: "env \<Rightarrow> rules \<Rightarrow> rules \<Rightarrow> world \<Rightarrow> bool" where
  "in_force env c s w \<longleftrightarrow> at_rest env c s w \<and> kernel_rules (kernel w) = Some c"

text \<open>No window is open that somebody has answered already; only before the window does it matter.\<close>

definition unanswered :: "world \<Rightarrow> bool" where
  "unanswered w \<longleftrightarrow> (status (window w) = AcceptancePending \<longrightarrow> \<not> accepted (window w))"

definition poised :: "env \<Rightarrow> rules \<Rightarrow> rules \<Rightarrow> world \<Rightarrow> bool" where
  "poised env c s w \<longleftrightarrow> at_rest env c s w \<and> unanswered w"

definition kept :: "env \<Rightarrow> rules \<Rightarrow> rules \<Rightarrow> world \<Rightarrow> bool" where
  "kept env c s w \<longleftrightarrow> saved env c s w \<and> unanswered w"

lemmas run_defs = base_def at_rest_def saved_def undecided_def in_force_def unanswered_def poised_def kept_def
  save_rules_def save_marker_def

lemma calmD:
  assumes "calm env"
  shows "io env k = IoOk" "statError env k = False" "flush env k = Flushed"
    "customError env k = None" "finalError env k = None" "others env k = []"
  using assms by (simp_all add: calm_def)

interpretation at_rest: store_invariant env "at_rest env c s" for env c s
  by unfold_locales (auto simp: run_defs calmD)

interpretation saved: store_invariant env "saved env c s" for env c s
  by unfold_locales (auto simp: run_defs calmD)

interpretation poised: record_invariant env "poised env c s" for env c s
  by unfold_locales (auto simp: run_defs calmD)

interpretation kept: record_invariant env "kept env c s" for env c s
  by unfold_locales (auto simp: run_defs calmD)

interpretation undecided: record_invariant env "undecided env c s" for env c s
  by unfold_locales (auto simp: run_defs calmD)

interpretation in_force: window_free env "in_force env c s" for env c s
  by unfold_locales (auto simp: run_defs calmD)

lemma quiet_PanicState:
  "triple (at_rest env c s) (PanicState env) (\<lambda>p w. at_rest env c s w \<and> p = (False, True))"
  "triple (in_force env c s) (PanicState env) (\<lambda>p w. in_force env c s w \<and> p = (False, True))"
  "triple (poised env c s) (PanicState env) (\<lambda>p w. poised env c s w \<and> p = (False, True))"
  unfolding PanicState_def
  by (rule at_rest.step_effect in_force.step_effect poised.step_effect, auto simp: run_defs calmD)+

lemma quiet_everConfigured:
  assumes "Current st = c"
  shows "triple (at_rest env c s) (everConfigured env st) (\<lambda>b w. at_rest env c s w \<and> b)"
  using assms unfolding everConfigured_def
  by (auto simp: run_defs triple_def wp_simps)

lemma quiet_write:
  assumes "Current st = c"
  shows "triple (at_rest env c s) (ApplyWithFeeds env st opts nets fc)
    (\<lambda>e w. in_force env c s w \<and> e = None)"
  unfolding ApplyWithFeeds_def Let_def
  by (rule at_rest.step_effect)
     (use assms in \<open>auto simp: run_defs calmD write_ruleset_def Let_def kernel_rules_def\<close>)

lemma quiet_rollback_kernel:
  assumes "Current prev = c"
  shows "triple (at_rest env c s) (rollback_kernel env prev before user)
    (\<lambda>(e, _, _, _) w. in_force env c s w \<and> e = None)"
  unfolding rollback_kernel_def
  apply (rule triple_bind [OF quiet_everConfigured [OF assms]], rule triple_assume)
  apply (simp, rule triple_bind [OF at_rest.keeps_configToRestore], rule triple_prod)
  apply (rule triple_bind [OF at_rest.keeps_feedContents], rule triple_bind [OF quiet_write [OF assms]])
  apply (rule triple_return, simp)
  done

lemma quiet_landed:
  "triple (in_force env c s) (panicLandedDuringWrite env False req sit user)
     (\<lambda>b w. in_force env c s w \<and> \<not> b)"
  by (simp add: panicLandedDuringWrite_def triple_def wp_simps)

lemma quiet_RollbackRules:
  "triple (saved env c s) (RollbackRules env)
     (\<lambda>e w. e = None \<and> saved env c s w \<and> Current (rulesFile w) = c)"
  unfolding RollbackRules_def update_store_def
  by (rule saved.step_effect) (auto simp: run_defs calmD)

lemma quiet_clear:
  "triple (\<lambda>w. saved env c s w \<and> Current (rulesFile w) = c) (clearUnconfirmed env)
     (\<lambda>_. at_rest env c s)"
  unfolding clearUnconfirmed_def
  by (rule triple_step) (auto simp: run_defs calmD interfered_def)

lemma quiet_rollback:
  assumes "Current prev = c"
  shows "triple (saved env c s) (rollback env prev before user) (\<lambda>_. in_force env c s)"
proof -
  have kern: "triple (at_rest env c s)
      (do { collectUsageBeforeWrite env;
          (applyErr, opts, nets, fails) \<leftarrow> rollback_kernel env prev before user;
          (case applyErr of
             Some (NothingWritten _) \<Rightarrow> State_Monad.return ()
           | _ \<Rightarrow> resetUsageBaselines env);
          (engagedNow, knownNow) \<leftarrow> PanicState env;
          tornDownAgain \<leftarrow> panicLandedDuringWrite env (engagedNow \<and> knownNow)
            ''rollback_skipped'' [] user;
          (if applyErr = None \<and> \<not> tornDownAgain then recordAppliedConfig env opts nets
           else State_Monad.return ());
          State_Monad.return fails }) (\<lambda>_. in_force env c s)"
    apply (rule triple_bind [OF at_rest.keeps_collect],
        rule triple_bind [OF quiet_rollback_kernel [OF assms]], (rule triple_prod)+)
    apply (rule triple_bind [where R = "\<lambda>_. in_force env c s"])
     apply (rule triple_pre [where P = "in_force env c s"], intro triples in_force.window_keeps, simp)
    apply (rule triple_bind [OF quiet_PanicState(2)], rule triple_assume, simp)
    apply (rule triple_bind [OF quiet_landed], rule triple_assume)
    apply (intro triples in_force.window_keeps)
    done
  have clear: "triple (\<lambda>w. e = None \<and> saved env c s w \<and> Current (rulesFile w) = c)
      (if e = None then clearUnconfirmed env else State_Monad.return ()) (\<lambda>_. at_rest env c s)"
    for e :: "string option"
    using quiet_clear [of env c s] by (cases e) (simp_all add: triple_def)
  show ?thesis
    unfolding rollback_def
    apply (rule triple_bind [OF quiet_RollbackRules], rule triple_bind [OF clear])
    apply (rule triple_bind [OF quiet_PanicState(1)], rule triple_assume)
    apply (simp only: prod.case simp_thms if_False, rule triple_bind [OF kern])
    apply (intro triples in_force.window_keeps)
    done
qed

lemma quiet_Backup:
  "triple (poised env c s) (BackupCurrent env) (\<lambda>e w. kept env c s w \<and> e = None)"
  unfolding BackupCurrent_def update_store_def
  by (rule poised.step_effect) (auto simp: run_defs calmD)

lemma quiet_kept_steps:
  "triple (kept env c s) (markUnconfirmed env before) (\<lambda>e w. kept env c s w \<and> e = None)"
  "triple (kept env c s) (PromoteStaged env) (\<lambda>e w. kept env c s w \<and> e = None)"
  "triple (kept env c s) (cfgAcceptanceEnabled env) (\<lambda>b w. kept env c s w \<and> b)"
  unfolding markUnconfirmed_def PromoteStaged_def update_store_def cfgAcceptanceEnabled_def
  by (rule kept.step_effect, auto simp: run_defs calmD)+

lemma quiet_GetState:
  "triple (at_rest env c s) (GetState env)
     (\<lambda>r w. at_rest env c s w \<and> (\<exists>u. r = Inr u \<and> Current u = c))"
  "triple (poised env c s) (GetState env)
     (\<lambda>r w. poised env c s w \<and> (\<exists>u. r = Inr u \<and> Current u = c))"
  "triple (kept env c s) (GetState env) (\<lambda>r w. kept env c s w \<and> (\<exists>u. r = Inr u))"
  unfolding GetState_def
  by (rule at_rest.step_effect poised.step_effect kept.step_effect, auto simp: run_defs calmD)+

lemma quiet_start: "triple (kept env c s) (windowStart env d) (\<lambda>e w. undecided env c s w \<and> e = None)"
  unfolding windowStart_def
  by (rule kept.step_effect) (auto simp: run_defs Start_def Let_def)

lemma undecided_saved: "undecided env c s w \<Longrightarrow> saved env c s w"
  by (simp add: undecided_def)

lemma quiet_undecided_steps:
  "keeps (undecided env c s) (ApplyWithFeeds env st opts nets fc)"
  "keeps (undecided env c s) (windowReset env)"
  "triple (undecided env c s) (windowWait env) (\<lambda>ok w. undecided env c s w \<and> \<not> ok)"
  "triple (undecided env c s) (PanicEngaged env) (\<lambda>b w. undecided env c s w \<and> \<not> b)"
proof -
  show "keeps (undecided env c s) (ApplyWithFeeds env st opts nets fc)"
    unfolding ApplyWithFeeds_def Let_def
    by (rule undecided.step_keeps) (auto simp: run_defs case_prod_beta)
  show "keeps (undecided env c s) (windowReset env)"
    unfolding windowReset_def by (rule undecided.step_keeps) (auto simp: run_defs Reset_def)
  show "triple (undecided env c s) (windowWait env) (\<lambda>ok w. undecided env c s w \<and> \<not> ok)"
    unfolding windowWait_def by (rule undecided.step_effect) (auto simp: run_defs wait_finish_def)
  have "triple (undecided env c s) (PanicState env) (\<lambda>p w. undecided env c s w \<and> p = (False, True))"
    unfolding PanicState_def by (rule undecided.step_effect) (auto simp: run_defs calmD)
  then show "triple (undecided env c s) (PanicEngaged env) (\<lambda>b w. undecided env c s w \<and> \<not> b)"
    unfolding PanicEngaged_def by (rule triple_bind) (auto simp: triple_def wp_simps)
qed

lemma quiet_confirm:
  assumes "Current prev = c"
  shows "triple (undecided env c s) (apply_confirm env True prev before user) (\<lambda>_. in_force env c s)"
proof -
  have "triple (undecided env c s)
      (do { why \<leftarrow> windowReason env; WriteAuditLog env ''apply_rolledback'' why user;
            rollback env prev before user }) (\<lambda>_. in_force env c s)"
    by (rule triple_bind [OF undecided.keeps_windowRead(2)],
        rule triple_bind [OF undecided.keeps_audit],
        rule triple_pre [OF quiet_rollback [OF assms] undecided_saved])
  then show ?thesis
    unfolding apply_confirm_def if_not_P if_False simp_thms
    by (intro triple_bind [OF quiet_undecided_steps(3)] triple_assume) simp
qed

lemma quiet_apply_write:
  assumes "Current prev = c"
  shows "triple (undecided env c s) (apply_write env True prev u before opts nets user)
    (\<lambda>_. in_force env c s)"
proof -
  have calm_landed: "panicLandedDuringWrite env False req sit user' = State_Monad.return False"
    for req sit user' by (simp add: panicLandedDuringWrite_def)
  have undo: "triple (undecided env c s)
      (do { rollback env prev before user; State_Monad.return x }) (\<lambda>_. in_force env c s)"
    for x :: "fw_error option"
    by (rule triple_bind [OF triple_pre [OF quiet_rollback [OF assms] undecided_saved]])
       (assumption, rule triple_return)
  have failed: "triple (undecided env c s)
      (do { windowReset env; WriteAuditLog env ''apply_failed'' e user;
         engaged \<leftarrow> PanicEngaged env;
         _ \<leftarrow> panicLandedDuringWrite env engaged ''apply_refused_panic'' [] user;
         rollback env prev before user; State_Monad.return x }) (\<lambda>_. in_force env c s)"
    for e and x :: "fw_error option"
    by (rule triple_bind [OF quiet_undecided_steps(2)], rule triple_bind [OF undecided.keeps_audit],
        rule triple_bind [OF quiet_undecided_steps(4)], rule triple_assume)
       (simp add: calm_landed undo)
  have tail: "triple (undecided env c s)
      (do { fs \<leftarrow> LastFindings env; auditBuildFindings env fs user;
            recordAppliedConfig env opts nets; apply_confirm env True prev before user;
            State_Monad.return x }) (\<lambda>_. in_force env c s)" for x :: "fw_error option"
    by (rule triple_bind [OF undecided.keeps_findings(1)],
        rule triple_bind [OF undecided.keeps_findings(2)],
        rule triple_bind [OF undecided.keeps_recordAppliedConfig],
        rule triple_bind [OF quiet_confirm [OF assms]], rule triple_return)
  have ok: "triple (undecided env c s)
      (do { resetUsageBaselines env; engaged \<leftarrow> PanicEngaged env;
         landed \<leftarrow> panicLandedDuringWrite env engaged ''apply_refused_panic'' [] user;
         if landed then do { windowReset env; rollback env prev before user;
           State_Monad.return (Some ErrPanicEngaged) }
         else do { fs \<leftarrow> LastFindings env; auditBuildFindings env fs user;
           recordAppliedConfig env opts nets; apply_confirm env True prev before user;
           State_Monad.return None } }) (\<lambda>_. in_force env c s)"
    by (rule triple_bind [OF undecided.keeps_resetUsage],
        rule triple_bind [OF quiet_undecided_steps(4)], rule triple_assume)
       (simp add: calm_landed tail)
  show ?thesis
    unfolding apply_write_def
    by (rule triple_bind [OF undecided.keeps_feedContents],
        rule triple_bind [OF quiet_undecided_steps(1)], rule triple_option) (rule ok, rule failed)
qed

lemma quiet_promoted:
  assumes "Current prev = c"
  shows "triple (kept env c s) (apply_promoted env True prev before opts nets user)
    (\<lambda>_. in_force env c s)"
proof -
  have started: "triple (kept env c s)
      (do { WriteAuditLog env ''apply_started'' [] user;
           d \<leftarrow> cfgAcceptanceDuration env; serr \<leftarrow> windowStart env d;
           case serr of
             Some e \<Rightarrow> do { WriteAuditLog env ''apply_failed'' e user;
               rollback env prev before user; State_Monad.return (Some (FwError e)) }
           | None \<Rightarrow> do { r \<leftarrow> apply_write env True prev u before opts nets user;
               reset_if_pending env; State_Monad.return r } }) (\<lambda>_. in_force env c s)" for u
    by (rule triple_bind [OF kept.keeps_audit], rule triple_bind [OF kept.keeps_cfg(4)],
        rule triple_bind [OF quiet_start], rule triple_assume, simp only: option.case,
        rule triple_bind [OF quiet_apply_write [OF assms]],
        rule triple_bind [OF in_force.keeps_reset_if_pending], rule triple_return)
  show ?thesis
    unfolding apply_promoted_def if_True
    by (rule triple_bind [OF quiet_GetState(3)], rule triple_sum)
       (rule triple_pre [where P = "\<lambda>_. False"], simp add: triple_def, simp,
        rule triple_pre [OF started], simp)
qed

lemma quiet_apply: "triple (poised env c s) (apply_locked env user) (\<lambda>_. in_force env c s)"
proof -
  have engaged: "triple (poised env c s) (PanicEngaged env) (\<lambda>b w. poised env c s w \<and> \<not> b)"
    unfolding PanicEngaged_def
    by (rule triple_bind [OF quiet_PanicState(3)]) (auto simp: triple_def wp_simps)
  have tail: "triple (poised env c s) (do {
       berr \<leftarrow> BackupCurrent env;
       case berr of
         Some e \<Rightarrow> do { WriteAuditLog env ''apply_failed'' e user;
           State_Monad.return (Some (FwError (''backup rules: '' @ e))) }
       | None \<Rightarrow> do {
           opts \<leftarrow> cfgFirewallOptions env; nets \<leftarrow> cfgNetworkSettings env;
           acceptanceOn \<leftarrow> cfgAcceptanceEnabled env; before \<leftarrow> appliedConfig env;
           merr \<leftarrow> (if acceptanceOn then markUnconfirmed env before else State_Monad.return None);
           case merr of
             Some e \<Rightarrow> do { WriteAuditLog env ''apply_failed'' e user;
               State_Monad.return (Some (FwError (''mark apply unconfirmed: '' @ e))) }
           | None \<Rightarrow> do {
               perr \<leftarrow> PromoteStaged env;
               case perr of
                 Some e \<Rightarrow> do { clearUnconfirmed env; WriteAuditLog env ''apply_failed'' e user;
                   State_Monad.return (Some (FwError (''promote staged rules: '' @ e))) }
               | None \<Rightarrow> apply_promoted env acceptanceOn prev before opts nets user } } })
      (\<lambda>_. in_force env c s)" if "Current prev = c" for prev
    apply (rule triple_bind [OF quiet_Backup], rule triple_assume, simp only: option.case)
    apply (rule triple_bind [OF kept.keeps_cfg(1)], rule triple_bind [OF kept.keeps_cfg(2)],
        rule triple_bind [OF quiet_kept_steps(3)], rule triple_assume,
        rule triple_bind [OF kept.keeps_appliedConfig])
    apply (simp only: if_True, rule triple_bind [OF quiet_kept_steps(1)], rule triple_assume,
        simp only: option.case)
    apply (rule triple_bind [OF quiet_kept_steps(2)], rule triple_assume,
        simp only: option.case, rule quiet_promoted [OF that])
    done
  show ?thesis
    unfolding apply_locked_def
    apply (rule triple_bind [OF engaged], rule triple_assume, simp only: if_False)
    apply (rule triple_bind [OF poised.keeps_collect], rule triple_bind [OF quiet_GetState(2)],
        rule triple_assume, elim exE conjE, simp only: sum.case)
    apply (rule tail, simp)
    done
qed

section \<open>An undisturbed restore\<close>

text \<open>The stage before the revert: \<open>c\<close> is what the files say is in force.\<close>

definition to_restore :: "env \<Rightarrow> rules \<Rightarrow> rules \<Rightarrow> world \<Rightarrow> bool" where
  "to_restore env c s w \<longleftrightarrow> base env c s w \<and> effective (rulesFile w) (unconfirmed w) = c"

interpretation to_restore: store_invariant env "to_restore env c s" for env c s
  by unfold_locales (auto simp: to_restore_def run_defs calmD)

lemma quiet_revert:
  "triple (to_restore env c s) (revertUnconfirmed env)
     (\<lambda>r w. at_rest env c s w \<and> (\<exists>b v. r = Inr (b, v)))"
proof -
  have look: "triple (to_restore env c s)
      (step env (\<lambda>k w. case read_error (io env k) of
            Some e \<Rightarrow> (Inl e, w) | None \<Rightarrow> (Inr (unconfirmed w \<noteq> None), w)))
      (\<lambda>m w. \<exists>b. m = Inr b \<and> (if b then saved env c s w else at_rest env c s w))"
    by (rule to_restore.step_effect)
       (auto simp: to_restore_def run_defs calmD effective_def split: if_splits)
  have "triple (saved env c s) (revert_marked env)
      (\<lambda>r w. at_rest env c s w \<and> (\<exists>b v. r = Inr (b, v)))"
    unfolding revert_marked_def
    apply (rule triple_bind [where R = "\<lambda>_. saved env c s"])
     apply (rule saved.step_keeps, auto split: option.splits)[1]
    apply (rule triple_bind [OF quiet_RollbackRules])
    apply (rule triple_option, rule triple_bind [OF triple_pre [OF quiet_clear]], blast)
     apply (rule triple_bind [OF at_rest.keeps_window(5)], rule triple_bind [OF at_rest.keeps_audit],
        rule triple_return, blast)
    apply (simp add: triple_def)
    done
  then show ?thesis
    unfolding revertUnconfirmed_def
    by (intro triple_bind [OF look] triple_sum) (auto simp: triple_def wp_simps)
qed

lemma quiet_restore_write:
  assumes "Current st = c"
  shows "triple (at_rest env c s) (restore_write env st before reverted why)
    (\<lambda>r w. in_force env c s w \<and> r = None)"
proof -
  have engaged: "triple (in_force env c s) (PanicEngaged env) (\<lambda>b w. in_force env c s w \<and> \<not> b)"
    unfolding PanicEngaged_def
    by (rule triple_bind [OF quiet_PanicState(2)]) (auto simp: triple_def wp_simps)
  show ?thesis
    unfolding restore_write_def
    apply (rule triple_bind [OF at_rest.keeps_setBootBridges],
        rule triple_bind [OF at_rest.keeps_collect],
        rule triple_bind [OF at_rest.keeps_restore_config], rule triple_prod,
        rule triple_bind [OF at_rest.keeps_feedContents],
        rule triple_bind [OF quiet_write [OF assms]], rule triple_assume, simp only: option.case)
    apply (rule triple_bind [OF in_force.keeps_resetUsage], rule triple_bind [OF engaged],
        rule triple_assume, simp only: , rule triple_bind [OF quiet_landed], rule triple_assume,
        simp only: if_False)
    apply (rule triple_bind [OF in_force.keeps_recordAppliedConfig],
        rule triple_bind [OF in_force.keeps_audit], rule triple_return, simp)
    done
qed

lemma quiet_restore:
  "triple (to_restore env c s) (restore_locked env why) (\<lambda>r w. in_force env c s w \<and> r = None)"
proof -
  have engaged: "triple (to_restore env c s) (PanicState env)
      (\<lambda>p w. to_restore env c s w \<and> p = (False, True))"
    unfolding PanicState_def by (rule to_restore.step_effect) (auto simp: to_restore_def run_defs calmD)
  then have engaged: "triple (to_restore env c s) (PanicEngaged env) (\<lambda>b w. to_restore env c s w \<and> \<not> b)"
    unfolding PanicEngaged_def by (rule triple_bind) (auto simp: triple_def wp_simps)
  have stored: "triple (at_rest env c s) (restore_stored env before reverted why)
      (\<lambda>r w. in_force env c s w \<and> r = None)" for before reverted
    unfolding restore_stored_def
    apply (rule triple_bind [OF quiet_GetState(1)], rule triple_assume, elim exE conjE,
        simp only: sum.case)
    apply (rule triple_bind [OF quiet_everConfigured], assumption, rule triple_assume,
        simp only: if_False simp_thms, rule quiet_restore_write, assumption)
    done
  show ?thesis
    unfolding restore_locked_def
    apply (rule triple_bind [OF engaged], rule triple_assume, simp only: if_False)
    apply (rule triple_bind [OF quiet_revert], rule triple_assume, elim exE,
        simp only: sum.case prod.case, rule stored)
    done
qed

section \<open>Properties\<close>

text \<open>
  C16. An apply nobody confirms undoes itself completely: run undisturbed with the window on, and
  started when no earlier window is still open with an answer in it, the kernel ends with exactly the rule set that was in force, the rules file with it as the
  current set, no marker is left, the staged edits are kept and the apply slot is free;
  whatever the staged rules are, a set the boundary refuses included.
\<close>

theorem unconfirmed_apply_reverts:
  assumes "calm env" "\<not> panicMarker w" "\<not> applying w" "unconfirmed w = None"
    "status (window w) = AcceptancePending \<Longrightarrow> \<not> accepted (window w)"
    "acEnabled (ccAcceptance (config w))" "\<not> IsEmpty (Current (rulesFile w))"
    "ValidateRules (Current (rulesFile w)) = None" "run_state (Apply env user) w = (r, w')"
  shows "kernel_rules (kernel w') = Some (Current (rulesFile w)) \<and>
    Current (rulesFile w') = Current (rulesFile w) \<and>
    Staged (rulesFile w') = Staged (rulesFile w) \<and> unconfirmed w' = None \<and> \<not> applying w'"
proof -
  let ?c = "Current (rulesFile w)" and ?s = "Staged (rulesFile w)"
  have slot: "triple (\<lambda>v. v = w) (beginApply env) (\<lambda>ok v. poised env ?c ?s v \<and> ok)"
    unfolding beginApply_def using assms
    by (intro triple_step) (auto simp: run_defs interfered_def calmD)
  have free: "triple (in_force env ?c ?s) (endApply env) (\<lambda>_ v. in_force env ?c ?s v \<and> \<not> applying v)"
    unfolding endApply_def by (rule in_force.step_effect) (auto simp: run_defs)
  have "triple (\<lambda>v. v = w) (Apply env user) (\<lambda>_ v. in_force env ?c ?s v \<and> \<not> applying v)"
    unfolding Apply_def
    by (rule triple_bind [OF slot], rule triple_assume, simp only: simp_thms if_False,
        rule triple_bind [OF quiet_apply], rule triple_bind [OF free], rule triple_return)
  then have "in_force env ?c ?s w' \<and> \<not> applying w'"
    using assms(9) by (blast dest: tripleD wp_result)
  then show ?thesis by (simp add: run_defs)
qed

text \<open>
  A restart brings the firewall back: undisturbed, with panic mode off, a restore returns
  without an error and the kernel then enforces the rule set the files say is in force, an
  apply the last process never saw confirmed being reverted first and its marker removed.
\<close>

theorem restore_brings_back:
  assumes "calm env" "\<not> panicMarker w" "\<not> applying w" "acEnabled (ccAcceptance (config w))"
    "c = effective (rulesFile w) (unconfirmed w)" "\<not> IsEmpty c" "ValidateRules c = None"
    "run_state (RestoreCurrent env why) w = (r, w')"
  shows "r = None \<and> kernel_rules (kernel w') = Some c \<and> Current (rulesFile w') = c \<and>
    unconfirmed w' = None \<and> Staged (rulesFile w') = Staged (rulesFile w) \<and> \<not> applying w'"
proof -
  let ?s = "Staged (rulesFile w)"
  have polls: "restoreSlotPolls = Suc 100" by (simp add: restoreSlotPolls_def)
  have "wp (PanicEngaged env) (\<lambda>b v. \<not> b \<and> v = w\<lparr>tick := Suc (tick w)\<rparr>) w"
    using assms(1,2) by (simp add: PanicEngaged_def PanicState_def wp_simps interfered_def calmD)
  then have engaged: "triple (\<lambda>v. v = w) (PanicEngaged env) (\<lambda>b v. v = w\<lparr>tick := Suc (tick w)\<rparr> \<and> \<not> b)"
    by (simp add: triple_def conj_commute)
  have time: "triple (\<lambda>v. v = w\<lparr>tick := Suc (tick w)\<rparr>) (timeNow env)
      (\<lambda>_ v. v = w\<lparr>tick := Suc (Suc (tick w))\<rparr>)"
    unfolding timeNow_def using assms(1) by (simp add: triple_def wp_simps interfered_def calmD)
  have slot: "triple (\<lambda>v. v = w\<lparr>tick := Suc (Suc (tick w))\<rparr>)
      (waitForApplySlot env restoreSlotPolls dl) (\<lambda>ok v. to_restore env c ?s v \<and> ok)" for dl
    unfolding polls waitForApplySlot.simps beginApply_def using assms(1-7)
    by (simp add: triple_def wp_simps interfered_def calmD to_restore_def run_defs)
  have free: "triple (\<lambda>v. in_force env c ?s v \<and> r' = None) (endApply env)
      (\<lambda>_ v. in_force env c ?s v \<and> \<not> applying v \<and> r' = None)" for r' :: "fw_error option"
    unfolding endApply_def
    by (rule triple_step) (auto simp: run_defs interfered_def calmD)
  have "triple (\<lambda>v. v = w) (RestoreCurrent env why)
      (\<lambda>r v. in_force env c ?s v \<and> \<not> applying v \<and> r = None)"
    unfolding RestoreCurrent_def
    by (rule triple_bind [OF engaged], rule triple_assume, simp only: if_False,
        rule triple_bind [OF time], rule triple_bind [OF slot], rule triple_assume, simp only: simp_thms if_False,
        rule triple_bind [OF quiet_restore], rule triple_bind [OF free], rule triple_return)
  then have "in_force env c ?s w' \<and> \<not> applying w' \<and> r = None"
    using assms(8) by (blast dest: tripleD wp_result)
  then show ?thesis by (simp add: run_defs)
qed

section \<open>Concrete runs\<close>

text \<open>The \<open>n\<close>-th file operation fails; another goroutine does \<open>x\<close> before step \<open>m\<close>.\<close>

definition mishap :: "nat \<Rightarrow> nat \<Rightarrow> action \<Rightarrow> env" where
  "mishap n m x = quiet\<lparr>io := (\<lambda>k. if k = n then ReadFails ''io'' else IoOk),
                         others := (\<lambda>k. if k = m then [x] else [])\<rparr>"

lemma quiet_calm: "calm quiet"
  by (simp add: calm_def quiet_def)

theorem apply_crash_safe_witness:
  "effective (rulesFile (snd (run_state (Apply quiet ''op'')
       (example_world (custom_rules ''a'') (custom_rules ''b'')))))
     (unconfirmed (snd (run_state (Apply quiet ''op'')
       (example_world (custom_rules ''a'') (custom_rules ''b''))))) = custom_rules ''a''"
proof -
  let ?w = "example_world (custom_rules ''a'') (custom_rules ''b'')"
  have "status (window (snd (run_state (Apply quiet ''op'') ?w))) = AcceptanceRolledBack"
    by code_simp
  then show ?thesis
    using apply_crash_safe [of ?w quiet "''op''" "fst (run_state (Apply quiet ''op'') ?w)"
        "snd (run_state (Apply quiet ''op'') ?w)"]
    by (simp add: example_world_def window_on_def quiet_def example_config_def)
qed

lemma custom_a_valid: "ValidateRules (custom_rules ''a'') = None"
  by code_simp

definition crashed_in_window :: world where
  "crashed_in_window =
     (example_world (custom_rules ''b'') no_rules)\<lparr>
       rulesFile := \<lparr> Current = custom_rules ''b'', Staged = custom_rules ''b'',
                      Backup = custom_rules ''a'' \<rparr>,
       unconfirmed := Some no_applied_config\<rparr>"

lemmas example_defs = example_world_def example_config_def crashed_in_window_def effective_def

theorem unconfirmed_apply_reverts_witness:
  "kernel_rules (kernel (snd (run_state (Apply quiet ''op'')
     (example_world (custom_rules ''a'') (custom_rules ''b;c''))))) = Some (custom_rules ''a'')"
  using unconfirmed_apply_reverts [OF quiet_calm, of
      "example_world (custom_rules ''a'') (custom_rules ''b;c'')" "''op''"] custom_a_valid
  by (simp add: example_defs custom_rules_def IsEmpty_def NewAcceptance_def prod_eq_iff)

theorem restore_brings_back_witness:
  "kernel_rules (kernel (snd (run_state (RestoreCurrent quiet RestoreReasonBoot) crashed_in_window))) =
   Some (custom_rules ''a'')"
  using restore_brings_back [OF quiet_calm, of crashed_in_window "custom_rules ''a''" RestoreReasonBoot]
    custom_a_valid
  by (simp add: example_defs custom_rules_def IsEmpty_def prod_eq_iff)

definition never_configured :: world where
  "never_configured = (example_world no_rules (custom_rules ''b''))\<lparr>lastApply := 0\<rparr>"

theorem restore_enforces_effective_witness:
  "kernel (snd (run_state (RestoreCurrent quiet RestoreReasonBoot) never_configured)) = NoTable \<or>
   kernel (snd (run_state (RestoreCurrent quiet RestoreReasonBoot) never_configured)) = EmptyTable"
  using restore_enforces_effective [of never_configured no_rules quiet RestoreReasonBoot]
  by (fastforce simp: never_configured_def example_defs IsEmpty_iff prod_eq_iff)

definition filtering_world :: world where
  "filtering_world =
     (example_world (custom_rules ''a'') no_rules)\<lparr>
       kernel := Filtering \<lparr> rsRules = custom_rules ''a'', rsOptions = zero_options,
         rsNetwork = zero_network, rsFeeds = Map.empty, rsBridges = [], rsCustom = True,
         rsFinalLog = False \<rparr>\<rparr>"

theorem panic_outranks_writers_witness:
  "kernel_rules (kernel (run_in quiet [OpPanic ''op''] filtering_world)) = None"
proof -
  have "panicMarker (run_in quiet [OpPanic ''op''] filtering_world)"
    "\<not> teardownDue (run_in quiet [OpPanic ''op''] filtering_world)" by code_simp+
  then show ?thesis
    using panic_outranks_writers [of quiet filtering_world "[OpPanic ''op'']" "()"
        "run_in quiet [OpPanic ''op''] filtering_world"]
    by (auto simp: run_in_def orderly_def quiet_def filtering_world_def example_world_def
        kernel_rules_def prod_eq_iff)
qed

section \<open>Defects\<close>

text \<open>
  A marker left by an apply that failed after its promotion makes the next apply forget
  the confirmed set.  The first apply of \<open>b\<close> over the confirmed \<open>a\<close> cannot re-read the rules
  and returns an error with the marker in place; the second apply, of \<open>c\<close>, backs up the
  unconfirmed \<open>b\<close>; nobody confirms either, and the machine ends enforcing \<open>b\<close>, which no
  operator ever confirmed, with no copy of \<open>a\<close> left in the file.
\<close>

theorem stale_marker_loses_confirmed_set:
  "let w' = run_in (mishap 13 16 (Stage (custom_rules ''c''))) [OpApply ''op'', OpApply ''op'']
              (example_world (custom_rules ''a'') (custom_rules ''b''))
   in status (window w') = AcceptanceRolledBack \<and> \<not> list_ex (\<lambda>e. auAction e = ''apply_accepted'') (audit w') \<and>
      kernel_rules (kernel w') = Some (custom_rules ''b'') \<and>
      Current (rulesFile w') = custom_rules ''b'' \<and> Backup (rulesFile w') = custom_rules ''b''"
  by code_simp

text \<open>
  With the window switched off, a marker left behind is never removed: the apply of \<open>c\<close> is
  final and reported as accepted, and the next daemon start reverts it.
\<close>

definition window_off :: core_config where
  "window_off = example_config\<lparr>ccAcceptance := \<lparr> acEnabled = False, acDuration = 60 \<rparr>\<rparr>"

theorem stale_marker_reverts_accepted:
  "let w1 = run_in (mishap 13 16 (Configure window_off)) [OpApply ''op'']
              (example_world (custom_rules ''a'') (custom_rules ''b''));
       w2 = run_in (mishap 13 16 (Configure window_off)) [OpApply ''op'']
              (w1\<lparr>rulesFile := (rulesFile w1)\<lparr>Staged := custom_rules ''c''\<rparr>\<rparr>);
       w3 = run_in quiet [OpRestore RestoreReasonBoot] w2
   in kernel_rules (kernel w2) = Some (custom_rules ''c'') \<and>
      list_ex (\<lambda>e. auAction e = ''apply_accepted'') (audit w2) \<and>
      kernel_rules (kernel w3) = Some (custom_rules ''b'')"
  by code_simp

text \<open>
  \<open>Resume\<close> answers from the rules it read before the restore: after a crash in the window
  of the very first apply and a panic, it reports the rules restored although the restore
  reverted to the empty set and wrote nothing, so no table is in the kernel.
\<close>

definition panicked_first_apply :: world where
  "panicked_first_apply =
     (example_world no_rules no_rules)\<lparr>
       rulesFile := \<lparr> Current = custom_rules ''b'', Staged = custom_rules ''b'', Backup = no_rules \<rparr>,
       unconfirmed := Some no_applied_config, panicMarker := True, lastApply := 0\<rparr>"

theorem resume_claims_restored:
  "Restored (fst (fst (run_state (Resume quiet ''op'') panicked_first_apply))) \<and>
   snd (fst (run_state (Resume quiet ''op'') panicked_first_apply)) = None \<and>
   kernel_rules (kernel (snd (run_state (Resume quiet ''op'') panicked_first_apply))) = None \<and>
   \<not> panicMarker (snd (run_state (Resume quiet ''op'') panicked_first_apply))"
  by code_simp

text \<open>
  \<open>Reset\<close> ignores every error of the delete, not only that of a missing table: when the
  kernel refuses the delete and accepts the add, panic mode reports that the machine is
  unfiltered while every rule is still in force.
\<close>

theorem panic_reports_unfiltered:
  "fst (run_state (Panic (quiet\<lparr>delError := (\<lambda>_. Some ''busy'')\<rparr>) ''op'') filtering_world) = None \<and>
   kernel_rules (kernel (snd (run_state (Panic (quiet\<lparr>delError := (\<lambda>_. Some ''busy'')\<rparr>) ''op'')
     filtering_world))) = Some (custom_rules ''a'')"
  by code_simp

end
