(* ===== verification/Nft.thy ===== *)
theory Nft
  imports Models
begin

text \<open>
  The language the rule builders write in, and what the kernel does with it.  The netlink
  library the sources call (\<open>github.com/google/nftables\<close>) contributes the shape of a batch and
  of the expressions; the evaluation below is the documented behaviour of the kernel's
  \<open>nf_tables\<close> for exactly those expressions.  Byte order of the host is a parameter \<open>ne\<close>, the
  library's \<open>NativeEndian.PutUint32\<close>, of which \<open>native_order\<close> states what the builders rely on.
\<close>

section \<open>Expressions\<close>

datatype meta_key = NFPROTO | L4PROTO | IIFNAME | PKTTYPE
datatype payload_base = NetworkHeader | TransportHeader
datatype cmp_op = CmpEq | CmpNeq | CmpGte | CmpLte
datatype verdict = VAccept | VDrop | VReturn | VJump string
datatype limit_unit = PerSecond | PerMinute
datatype dynset_op = DynsetAdd | DynsetUpdate

datatype expr =
    Meta meta_key nat
  | Cmp cmp_op nat "byte list"
  | Payload nat payload_base nat nat
  | Bitwise nat nat nat "byte list" "byte list"
  | CtState nat
  | FibAddrType nat
  | Lookup nat string
  | Dynset nat string dynset_op int "expr list"
  | Limit "64 word" bool limit_unit "32 word"
  | Connlimit "32 word" "32 word"
  | Counter
  | Log "32 word" string "16 word" "32 word"
  | Immediate nat "byte list"
  | Redir nat
  | Verdict verdict

section \<open>A netlink batch\<close>

datatype chain_type = FilterChain | NATChain
datatype hook = HookPrerouting | HookInput | HookForward | HookOutput
datatype policy = PolicyAccept | PolicyDrop

record base_chain =
  bcType :: chain_type
  bcHook :: hook
  bcPriority :: int
  bcPolicy :: "policy option"

record set_element =
  seKey :: "byte list"
  IntervalEnd :: bool

record set_spec =
  stName :: string
  stKeyLen :: nat
  stInterval :: bool
  stDynamic :: bool
  stTimeout :: int

datatype cmd =
    AddTable | DelTable
  | AddChain string "base_chain option"
  | AddRule string "expr list" "string option"
  | AddSet set_spec
  | AddElements string "set_element list"
  | FlushSet string

type_synonym rule = "expr list \<times> string option"

fun rules_of :: "string \<Rightarrow> cmd list \<Rightarrow> rule list" where
  "rules_of c [] = []"
| "rules_of c (AddRule d es tag # cs) =
     (if d = c then (es, tag) # rules_of c cs else rules_of c cs)"
| "rules_of c (_ # cs) = rules_of c cs"

text \<open>The elements a set holds after a batch, from those it held before.\<close>

fun set_after :: "string \<Rightarrow> set_element list \<Rightarrow> cmd list \<Rightarrow> set_element list" where
  "set_after n s [] = s"
| "set_after n s (AddElements k es # cs) = set_after n (if k = n then s @ es else s) cs"
| "set_after n s (FlushSet k # cs) = set_after n (if k = n then [] else s) cs"
| "set_after n s (DelTable # cs) = set_after n [] cs"
| "set_after n s (_ # cs) = set_after n s cs"

fun built_rules :: "cmd list \<Rightarrow> rule list" where
  "built_rules [] = []"
| "built_rules (AddRule d es tag # cs) = (es, tag) # built_rules cs"
| "built_rules (_ # cs) = built_rules cs"

lemma rules_of_append [simp]: "rules_of c (xs @ ys) = rules_of c xs @ rules_of c ys"
  by (induction c xs rule: rules_of.induct) auto

lemma set_after_append [simp]: "set_after n s (xs @ ys) = set_after n (set_after n s xs) ys"
  by (induction n s xs rule: set_after.induct) auto

lemma built_rules_append [simp]: "built_rules (xs @ ys) = built_rules xs @ built_rules ys"
  by (induction xs rule: built_rules.induct) auto

lemma rules_of_concat: "rules_of c (concat xss) = concat (map (rules_of c) xss)"
  by (induction xss) auto

lemma built_rules_concat: "built_rules (concat xss) = concat (map built_rules xss)"
  by (induction xss) auto

section \<open>Evaluation\<close>

record packet =
  pkIif :: "byte list"
  pkFamily :: byte
  pkProto :: byte
  pkType :: byte
  pkNet :: "byte list"
  pkTrans :: "byte list"
  pkCt :: "32 word"
  pkAddrType :: "32 word"

text \<open>
  What depends on more than the packet: whether a rate limit, a per-source rate limit or a
  connection count lets the rule go on, and which keys a named set holds.
\<close>

record meters =
  overLimit :: "expr \<Rightarrow> bool"
  overDynset :: "string \<Rightarrow> byte list \<Rightarrow> bool"
  inSet :: "string \<Rightarrow> byte list \<Rightarrow> bool"

datatype outcome = Go "nat \<Rightarrow> byte list" | Break | Stop verdict

definition be_nat :: "byte list \<Rightarrow> nat" where
  "be_nat bs = foldl (\<lambda>a b. 256 * a + unat b) 0 bs"

definition xor_bytes :: "byte list \<Rightarrow> byte list \<Rightarrow> byte list" where
  "xor_bytes m b = map2 (XOR) b m"

fun compare :: "cmp_op \<Rightarrow> byte list \<Rightarrow> byte list \<Rightarrow> bool" where
  "compare CmpEq a b \<longleftrightarrow> a = b"
| "compare CmpNeq a b \<longleftrightarrow> a \<noteq> b"
| "compare CmpGte a b \<longleftrightarrow> be_nat a \<ge> be_nat b"
| "compare CmpLte a b \<longleftrightarrow> be_nat a \<le> be_nat b"

definition header :: "packet \<Rightarrow> payload_base \<Rightarrow> byte list" where
  "header p b = (case b of NetworkHeader \<Rightarrow> pkNet p | TransportHeader \<Rightarrow> pkTrans p)"

definition meta_of :: "packet \<Rightarrow> meta_key \<Rightarrow> byte list" where
  "meta_of p k = (case k of NFPROTO \<Rightarrow> [pkFamily p] | L4PROTO \<Rightarrow> [pkProto p]
                  | IIFNAME \<Rightarrow> pkIif p | PKTTYPE \<Rightarrow> [pkType p])"

fun eval_expr ::
  "(32 word \<Rightarrow> byte list) \<Rightarrow> meters \<Rightarrow> packet \<Rightarrow> (nat \<Rightarrow> byte list) \<Rightarrow> expr \<Rightarrow> outcome" where
  "eval_expr ne m p r (Meta k d) = Go (r(d := meta_of p k))"
| "eval_expr ne m p r (Cmp cop s dat) =
     (if compare cop (take (length dat) (r s)) dat then Go r else Break)"
| "eval_expr ne m p r (Payload d b off len) =
     (if off + len \<le> length (header p b) then Go (r(d := take len (drop off (header p b)))) else Break)"
| "eval_expr ne m p r (Bitwise s d len msk x) =
     Go (r(d := xor_bytes x (and_bytes msk (take len (r s)))))"
| "eval_expr ne m p r (CtState d) = Go (r(d := ne (pkCt p)))"
| "eval_expr ne m p r (FibAddrType d) = Go (r(d := ne (pkAddrType p)))"
| "eval_expr ne m p r (Lookup s n) = (if inSet m n (r s) then Go r else Break)"
| "eval_expr ne m p r (Dynset s n op t es) = (if overDynset m n (r s) then Go r else Break)"
| "eval_expr ne m p r (Limit a b c d) = (if overLimit m (Limit a b c d) then Go r else Break)"
| "eval_expr ne m p r (Connlimit a b) = (if overLimit m (Connlimit a b) then Go r else Break)"
| "eval_expr ne m p r Counter = Go r"
| "eval_expr ne m p r (Log a b c d) = Go r"
| "eval_expr ne m p r (Immediate d dat) = Go (r(d := dat))"
| "eval_expr ne m p r (Redir s) = Stop VAccept"
| "eval_expr ne m p r (Verdict v) = Stop v"

text \<open>A rule: its expressions in order, until one breaks or gives a verdict.\<close>

fun eval_exprs ::
  "(32 word \<Rightarrow> byte list) \<Rightarrow> meters \<Rightarrow> packet \<Rightarrow> (nat \<Rightarrow> byte list) \<Rightarrow> expr list \<Rightarrow> verdict option" where
  "eval_exprs ne m p r [] = None"
| "eval_exprs ne m p r (e # es) =
     (case eval_expr ne m p r e of
        Go r' \<Rightarrow> eval_exprs ne m p r' es | Break \<Rightarrow> None | Stop v \<Rightarrow> Some v)"

text \<open>
  A chain: the first verdict wins, a return ends the chain undecided, and a jump goes on behind
  itself when its target left the packet undecided.  The fuel bounds the depth of jumps; the
  builders jump at most twice in a row (\<open>input\<close> to \<open>sshbrute\<close> to \<open>sshbrute-over\<close>), and every
  lemma on a chain they build holds for any fuel of two or more.
\<close>

datatype chain_result = Through | Returned | Decided bool

fun eval_rules ::
  "(32 word \<Rightarrow> byte list) \<Rightarrow> meters \<Rightarrow> packet \<Rightarrow> (string \<Rightarrow> rule list) \<Rightarrow> nat \<Rightarrow> rule list \<Rightarrow>
   chain_result" where
  "eval_rules ne m p tbl n [] = Through"
| "eval_rules ne m p tbl n ((es, tag) # rs) =
     (case eval_exprs ne m p (\<lambda>_. []) es of
        None \<Rightarrow> eval_rules ne m p tbl n rs
      | Some VAccept \<Rightarrow> Decided True
      | Some VDrop \<Rightarrow> Decided False
      | Some VReturn \<Rightarrow> Returned
      | Some (VJump c) \<Rightarrow>
          (case n of
             0 \<Rightarrow> eval_rules ne m p tbl n rs
           | Suc k \<Rightarrow> (case eval_rules ne m p tbl k (tbl c) of
                         Decided v \<Rightarrow> Decided v
                       | _ \<Rightarrow> eval_rules ne m p tbl n rs)))"

text \<open>
  The verdict of a base chain: its policy when no rule decided, and the kernel's default policy
  is to accept.
\<close>

fun base_policy :: "string \<Rightarrow> cmd list \<Rightarrow> bool" where
  "base_policy c [] = True"
| "base_policy c (AddChain d (Some bc) # cs) =
     (if d = c then bcPolicy bc \<noteq> Some PolicyDrop else base_policy c cs)"
| "base_policy c (_ # cs) = base_policy c cs"

definition chain_accepts ::
  "(32 word \<Rightarrow> byte list) \<Rightarrow> meters \<Rightarrow> packet \<Rightarrow> cmd list \<Rightarrow> string \<Rightarrow> bool" where
  "chain_accepts ne m p batch c =
     (case eval_rules ne m p (\<lambda>d. rules_of d batch) 2 (rules_of c batch) of
        Decided v \<Rightarrow> v | _ \<Rightarrow> base_policy c batch)"

text \<open>Stages compose: a later stage sees what the earlier ones let through.\<close>

definition next_stage :: "chain_result \<Rightarrow> chain_result \<Rightarrow> chain_result" where
  "next_stage a b = (case a of Through \<Rightarrow> b | _ \<Rightarrow> a)"

lemma next_stage_simps [simp]:
  "next_stage Through b = b" "next_stage Returned b = Returned"
  "next_stage (Decided v) b = Decided v" "next_stage a Through = a"
  by (simp_all add: next_stage_def split: chain_result.splits)

lemma next_stage_assoc: "next_stage (next_stage a b) c = next_stage a (next_stage b c)"
  by (simp add: next_stage_def split: chain_result.splits)

lemma next_stage_if: "next_stage (if b then x else y) c = (if b then next_stage x c else next_stage y c)"
  by simp

lemma eval_rules_append:
  "eval_rules ne m p tbl n (xs @ ys) =
   next_stage (eval_rules ne m p tbl n xs) (eval_rules ne m p tbl n ys)"
  by (induction ne m p tbl n xs rule: eval_rules.induct)
     (auto split: option.splits verdict.splits nat.splits chain_result.splits)

section \<open>Matches\<close>

text \<open>
  A match is a prefix of a rule that goes on exactly when a condition holds; what it leaves in
  the registers does not matter, because every match loads the register it compares.
\<close>

definition selects ::
  "(32 word \<Rightarrow> byte list) \<Rightarrow> meters \<Rightarrow> packet \<Rightarrow> expr list \<Rightarrow> bool \<Rightarrow> bool" where
  "selects ne m p es b \<longleftrightarrow>
     (\<forall>r rest. \<exists>r'. eval_exprs ne m p r (es @ rest) = (if b then eval_exprs ne m p r' rest else None))"

lemma selects_Nil: "selects ne m p [] True"
  by (auto simp: selects_def)

lemma selects_append:
  assumes "selects ne m p es b" "selects ne m p fs c"
  shows "selects ne m p (es @ fs) (b \<and> c)"
  unfolding selects_def
proof (intro allI)
  fix r rest
  from assms(1) obtain r1 where 1: "eval_exprs ne m p r (es @ (fs @ rest)) =
      (if b then eval_exprs ne m p r1 (fs @ rest) else None)" unfolding selects_def by blast
  from assms(2) obtain r2 where 2: "eval_exprs ne m p r1 (fs @ rest) =
      (if c then eval_exprs ne m p r2 rest else None)" unfolding selects_def by blast
  show "\<exists>r'. eval_exprs ne m p r ((es @ fs) @ rest) =
      (if b \<and> c then eval_exprs ne m p r' rest else None)"
    using 1 2 by (intro exI [of _ r2]) simp
qed

lemma selects_verdict:
  "selects ne m p es b \<Longrightarrow>
   eval_exprs ne m p r (es @ [Verdict v]) = (if b then Some v else None)"
  unfolding selects_def by (drule spec [of _ r], drule spec [of _ "[Verdict v]"]) auto

lemma selects_no_verdict:
  "selects ne m p es b \<Longrightarrow> eval_exprs ne m p r es = None"
  unfolding selects_def by (drule spec [of _ r], drule spec [of _ "[]"]) auto

lemma selects_Counter: "selects ne m p [Counter] True"
  by (auto simp: selects_def)

lemma selects_iff: "selects ne m p es b \<Longrightarrow> b = c \<Longrightarrow> selects ne m p es c"
  by simp

section \<open>Host byte order\<close>

locale native_order =
  fixes ne :: "32 word \<Rightarrow> byte list"
  assumes ne_length: "length (ne x) = 4"
    and ne_inj: "ne x = ne y \<Longrightarrow> x = y"
    and ne_and: "and_bytes (ne m) (ne x) = ne (x AND m)"
    and ne_zero: "ne 0 = [0, 0, 0, 0]"
begin

lemma native_xor_zero4: "length b = 4 \<Longrightarrow> xor_bytes [0, 0, 0, 0] b = b"
  by (auto simp: xor_bytes_def numeral_eq_Suc length_Suc_conv)

lemma ct_mask_test:
  "take 4 (xor_bytes [0, 0, 0, 0] (and_bytes (ne m) (take 4 (ne x)))) \<noteq> [0, 0, 0, 0] \<longleftrightarrow>
   x AND m \<noteq> 0"
proof -
  have "xor_bytes [0, 0, 0, 0] (and_bytes (ne m) (take 4 (ne x))) = ne (x AND m)"
    by (simp add: ne_length ne_and native_xor_zero4)
  moreover have "ne (x AND m) = [0, 0, 0, 0] \<longleftrightarrow> x AND m = 0"
    using ne_inj [of "x AND m" 0] by (auto simp: ne_zero)
  ultimately show ?thesis by (simp add: ne_length)
qed

lemma native_eq: "take (length (ne y)) (ne x) = ne y \<longleftrightarrow> x = y"
  using ne_inj by (auto simp: ne_length)

end

definition le32 :: "32 word \<Rightarrow> byte list" where
  "le32 x = [ucast x, ucast (drop_bit 8 x), ucast (drop_bit 16 x), ucast (drop_bit 24 x)]"

definition be32 :: "32 word \<Rightarrow> byte list" where
  "be32 x = rev (le32 x)"

lemma le32_inj: "le32 x = le32 y \<Longrightarrow> x = y"
proof (rule bit_eqI)
  fix n
  assume h: "le32 x = le32 y" and n: "possible_bit TYPE(32 word) n"
  have byte: "bit (ucast (drop_bit k x) :: byte) i = bit (ucast (drop_bit k y) :: byte) i"
    if "k = 0 \<or> k = 8 \<or> k = 16 \<or> k = 24" for k i
    using h that by (auto simp: le32_def)
  have "n < 32" using n by simp
  then consider "n < 8" | "8 \<le> n \<and> n < 16" | "16 \<le> n \<and> n < 24" | "24 \<le> n \<and> n < 32" by linarith
  then show "bit x n = bit y n"
    using byte [of 0 n] byte [of 8 "n - 8"] byte [of 16 "n - 16"] byte [of 24 "n - 24"]
    by cases (auto simp: bit_simps)
qed

interpretation little: native_order le32
proof
  fix m x :: "32 word"
  show "and_bytes (le32 m) (le32 x) = le32 (x AND m)"
    unfolding and_bytes_def le32_def
    by (auto intro!: bit_eqI simp: bit_simps)
qed (auto simp: le32_inj, auto simp: le32_def)

lemma and_bytes_rev:
  "length a = length b \<Longrightarrow> and_bytes (rev a) (rev b) = rev (and_bytes a b)"
  unfolding and_bytes_def by (simp add: zip_rev rev_map)

interpretation big: native_order be32
proof
  fix m x :: "32 word"
  show "and_bytes (be32 m) (be32 x) = be32 (x AND m)"
    by (simp add: be32_def and_bytes_rev little.ne_length little.ne_and)
qed (auto simp: be32_def little.ne_length le32_inj, auto simp: le32_def)

end
