(* ===== verification/Builders.thy ===== *)
theory Builders
  imports Nft Validate
begin

text \<open>
  The rule builders of \<open>internal/core/nftables.go\<close>: from a rule set and its settings to the
  expressions of each rule.  A builder returns the netlink commands it queues, in order; the
  manager's fields a builder reads (log sink, what the netlink library refuses, host byte
  order) travel in \<open>nft_manager\<close>.  \<open>userdata.AppendString(nil, TypeComment, id)\<close> is \<open>Some id\<close>.
\<close>

section \<open>Constants\<close>

definition inputChainName :: string where "inputChainName = ''input''"
definition forwardChainName :: string where "forwardChainName = ''forward''"
definition forwardListsChainName :: string where "forwardListsChainName = ''forward-lists''"
definition fragmentChainName :: string where "fragmentChainName = ''fragments''"

definition prioFilter :: int where "prioFilter = 0"
definition prioNAT :: int where "prioNAT = -100"
definition prioBeforeDefrag :: int where "prioBeforeDefrag = -450"

definition nftConnlimitInvert :: "32 word" where "nftConnlimitInvert = push_bit 0 1"

text \<open>The numbers the kernel's headers give the protocols and address types.\<close>

abbreviation familyIPv4 :: byte where "familyIPv4 \<equiv> 2"
abbreviation familyIPv6 :: byte where "familyIPv6 \<equiv> 10"
abbreviation IPPROTO_ICMP :: byte where "IPPROTO_ICMP \<equiv> 1"
abbreviation IPPROTO_TCP :: byte where "IPPROTO_TCP \<equiv> 6"
abbreviation IPPROTO_UDP :: byte where "IPPROTO_UDP \<equiv> 17"
abbreviation IPPROTO_ICMPV6 :: byte where "IPPROTO_ICMPV6 \<equiv> 58"
abbreviation RTN_LOCAL :: "32 word" where "RTN_LOCAL \<equiv> 2"
abbreviation RTN_ANYCAST :: "32 word" where "RTN_ANYCAST \<equiv> 4"

definition lo_name :: "byte list" where "lo_name = [0x6c, 0x6f, 0x00]"

section \<open>Logging\<close>

definition logPrefixInvalid :: string where "logPrefixInvalid = ''easywall invalid: ''"
definition logPrefixFragment :: string where "logPrefixFragment = ''easywall fragment: ''"
definition logPrefixBogon :: string where "logPrefixBogon = ''easywall bogon: ''"
definition logPrefixPortScan :: string where "logPrefixPortScan = ''easywall portscan: ''"
definition logPrefixSYNFlood :: string where "logPrefixSYNFlood = ''easywall syn-flood: ''"
definition logPrefixICMPFlood :: string where "logPrefixICMPFlood = ''easywall icmp-flood: ''"
definition logPrefixSSH :: string where "logPrefixSSH = ''easywall ssh: ''"
definition logPrefixTCPRST :: string where "logPrefixTCPRST = ''easywall tcp-rst: ''"
definition logPrefixBlocklist :: string where "logPrefixBlocklist = ''easywall blocklist: ''"
definition logPrefixDrop :: string where "logPrefixDrop = ''easywall drop: ''"

definition FeedLogPrefix :: "string \<Rightarrow> string" where
  "FeedLogPrefix fid = ''easywall '' @ ''feed: '' @ fid @ '' ''"

record log_spec =
  lgEnabled :: bool
  lgPrefix :: string
  lgPerMinute :: int

record log_sink =
  skNflog :: bool
  skGroup :: "16 word"

record nft_manager =
  mgSink :: log_sink
  mgAddSetErr :: "set_spec \<Rightarrow> bool"
  mgAddElementsErr :: "string \<Rightarrow> set_element list \<Rightarrow> bool"
  mgNative :: "32 word \<Rightarrow> byte list"

definition packetSnaplen :: "32 word" where "packetSnaplen = 128"

text \<open>
  The log expression's key is a bit mask over the attribute indices: prefix 2, group 1,
  snap length 3.
\<close>

definition logExprs :: "string \<Rightarrow> int \<Rightarrow> log_sink \<Rightarrow> expr list" where
  "logExprs pfx perMinute sink =
     (let rate = (if perMinute \<le> 0 then 60 else perMinute) in
      [Limit (word_of_int rate) False PerMinute (word_of_int rate),
       (if skNflog sink
        then Log (push_bit 2 1 OR (push_bit 1 1 OR push_bit 3 1)) pfx (skGroup sink) packetSnaplen
        else Log (push_bit 2 1) pfx 0 0)])"

definition addLogged ::
  "nft_manager \<Rightarrow> string \<Rightarrow> expr list \<Rightarrow> log_spec \<Rightarrow> string option \<Rightarrow> expr list \<Rightarrow> cmd list" where
  "addLogged mg c match lg tag action =
     (if lgEnabled lg
      then [AddRule c (match @ logExprs (lgPrefix lg) (lgPerMinute lg) (mgSink mg)) None] else []) @
     [AddRule c (match @ action) tag]"

definition addFiltered ::
  "nft_manager \<Rightarrow> string \<Rightarrow> expr list \<Rightarrow> expr \<Rightarrow> log_spec \<Rightarrow> cmd list" where
  "addFiltered mg c match action lg = addLogged mg c match lg None [action]"

section \<open>The base rules of the input chain\<close>

definition addFamilyVerdict :: "string \<Rightarrow> byte \<Rightarrow> verdict \<Rightarrow> cmd list" where
  "addFamilyVerdict c family kind =
     [AddRule c [Meta NFPROTO 1, Cmp CmpEq 1 [family], Verdict kind] None]"

definition addLoopbackAccept :: "string \<Rightarrow> cmd list" where
  "addLoopbackAccept c =
     [AddRule c [Meta IIFNAME 1, Cmp CmpEq 1 lo_name, Verdict VAccept] None]"

definition ctStateInvalid :: "32 word" where "ctStateInvalid = 0x01"
definition ctStateEstablished :: "32 word" where "ctStateEstablished = 0x02"
definition ctStateRelated :: "32 word" where "ctStateRelated = 0x04"
definition ctStateNew :: "32 word" where "ctStateNew = 0x08"

definition ctStateMask :: "nft_manager \<Rightarrow> 32 word \<Rightarrow> byte list" where
  "ctStateMask mg bits = mgNative mg bits"

definition ctStateNoMatch :: "byte list" where "ctStateNoMatch = [0x00, 0x00, 0x00, 0x00]"

definition ReservedIDEstablished :: string where "ReservedIDEstablished = ''_established''"

definition addEstablishedAccept :: "nft_manager \<Rightarrow> string \<Rightarrow> cmd list" where
  "addEstablishedAccept mg c =
     [AddRule c
        [CtState 1,
         Bitwise 1 1 4 (ctStateMask mg (ctStateEstablished OR ctStateRelated)) ctStateNoMatch,
         Cmp CmpNeq 1 ctStateNoMatch, Counter, Verdict VAccept]
        (if c = inputChainName then Some ReservedIDEstablished else None)]"

definition ICMPv4Accepted :: "bool \<Rightarrow> byte list" where
  "ICMPv4Accepted echo = (if echo then [8] else [])"

definition ICMPv6Accepted :: "bool \<Rightarrow> ipv6_config \<Rightarrow> byte list" where
  "ICMPv6Accepted echo v6 =
     (if echo then [128] else []) @
     (if ICMPAllowRouterAdvertisement v6 then [133, 134] else []) @
     (if ICMPAllowNeighborAdvertisement v6 then [135, 136] else [])"

definition addICMPTypeAccept :: "string \<Rightarrow> byte \<Rightarrow> byte \<Rightarrow> cmd list" where
  "addICMPTypeAccept c proto typ =
     [AddRule c
        [Meta L4PROTO 1, Cmp CmpEq 1 [proto], Payload 1 TransportHeader 0 1, Cmp CmpEq 1 [typ],
         Verdict VAccept] None]"

definition addICMPRules :: "string \<Rightarrow> ipv6_config \<Rightarrow> cmd list" where
  "addICMPRules c v6 =
     (if v6Mode v6 \<noteq> IPv6Filter then []
      else concat (map (addICMPTypeAccept c IPPROTO_ICMPV6) (ICMPv6Accepted False v6)))"

definition addEchoAccepts :: "string \<Rightarrow> bool \<Rightarrow> ipv6_config \<Rightarrow> cmd list" where
  "addEchoAccepts c echo v6 =
     concat (map (addICMPTypeAccept c IPPROTO_ICMP) (ICMPv4Accepted echo)) @
     (if v6Mode v6 \<noteq> IPv6Filter then []
      else concat (map (addICMPTypeAccept c IPPROTO_ICMPV6)
                       (ICMPv6Accepted echo (nsIPv6 zero_network))))"

section \<open>Ports\<close>

definition parsePort :: "string \<Rightarrow> 16 word" where
  "parsePort s = (case ParsePortNumber (trim_space s) of Inl _ \<Rightarrow> 0 | Inr p \<Rightarrow> word_of_int p)"

definition portBytes :: "int \<Rightarrow> byte list" where
  "portBytes p =
     (if p < 1 \<or> p > 65535 then [0, 0]
      else let v = (word_of_int p :: 16 word) in [ucast (drop_bit 8 v), ucast v])"

definition matchPortEq :: "16 word \<Rightarrow> expr list" where
  "matchPortEq p = [Payload 1 TransportHeader 2 2, Cmp CmpEq 1 (portBytes (uint p))]"

definition buildPortExprs :: "string \<Rightarrow> expr list" where
  "buildPortExprs port =
     (case cut_char (CHR '':'') port of (lo, hi, ok) \<Rightarrow>
        if ok then
          (case (ParsePortNumber (trim_space lo), ParsePortNumber (trim_space hi)) of
             (Inr start, Inr stop) \<Rightarrow>
               if stop < start then matchPortEq 0
               else [Payload 1 TransportHeader 2 2, Cmp CmpGte 1 (portBytes start),
                     Cmp CmpLte 1 (portBytes stop)]
           | _ \<Rightarrow> matchPortEq 0)
        else matchPortEq (parsePort port))"

section \<open>Networks\<close>

text \<open>
  A \<open>net.IPNet\<close>: address and mask.  \<open>parseIPNet\<close> hands over \<open>AsSlice\<close> of the prefix's address,
  four or sixteen bytes, and the mask of its length.
\<close>

type_synonym ipnet = "byte list \<times> byte list"

definition parseIPNet :: "string \<Rightarrow> ipnet option" where
  "parseIPNet s =
     map_option (\<lambda>p. (abytes (paddr p), cidr_mask (pbits p) (length (abytes (paddr p)))))
       (ParseNetwork s)"

definition ipv4SourceMatch :: "string \<Rightarrow> expr list option" where
  "ipv4SourceMatch entry0 =
     (if IsListComment entry0 then None
      else
        let entry = trim_space entry0;
            ipNet = (case ParseIP entry of
                       Some ip \<Rightarrow> map_option (\<lambda>ip4. (ip4, cidr_mask 32 4)) (to4 ip)
                     | None \<Rightarrow>
                         (case parseIPNet entry of
                            None \<Rightarrow> None
                          | Some (ip, msk) \<Rightarrow> map_option (\<lambda>ip4. (ip4, msk)) (to4 ip)))
        in map_option (\<lambda>(ip, msk).
             [Meta NFPROTO 1, Cmp CmpEq 1 [familyIPv4], Payload 1 NetworkHeader 12 4,
              Bitwise 1 1 4 msk [0, 0, 0, 0], Cmp CmpEq 1 ip]) ipNet)"

record addr_pos =
  posV4 :: nat
  posV6 :: nat

definition posSrcAddr :: addr_pos where "posSrcAddr = \<lparr> posV4 = 12, posV6 = 8 \<rparr>"
definition posDstAddr :: addr_pos where "posDstAddr = \<lparr> posV4 = 16, posV6 = 24 \<rparr>"

text \<open>
  \<open>cidrMatchOp\<close>.  The mask is one \<open>CIDRMask\<close> made, so \<open>Mask.Size()\<close> returns the prefix length
  and the width in bits, equal exactly for the full mask.
\<close>

definition to16 :: "byte list \<Rightarrow> byte list option" where
  "to16 b = (if length b = 4 then Some (v4_in_v6_prefix @ b)
             else if length b = 16 then Some b else None)"

definition cidrMatchOp :: "string \<Rightarrow> addr_pos \<Rightarrow> cmp_op \<Rightarrow> expr list option" where
  "cidrMatchOp entry0 pos cop =
     (if IsListComment entry0 then None
      else
        let entry = trim_space entry0;
            ipNet = (case ParseIP entry of
                       Some ip \<Rightarrow>
                         (case to4 ip of
                            Some ip4 \<Rightarrow> Some (ip4, cidr_mask 32 4)
                          | None \<Rightarrow> map_option (\<lambda>ip6. (ip6, cidr_mask 128 16)) (to16 ip))
                     | None \<Rightarrow> parseIPNet entry)
        in case ipNet of
             None \<Rightarrow> None
           | Some (ip, msk) \<Rightarrow>
               let (family, offset, len, addr) =
                     (case to4 ip of
                        Some ip4 \<Rightarrow> (familyIPv4, posV4 pos, 4, Some ip4)
                      | None \<Rightarrow> (familyIPv6, posV6 pos, 16, to16 ip))
               in case addr of
                    None \<Rightarrow> None
                  | Some a \<Rightarrow>
                      if length msk \<noteq> len then None
                      else Some ([Meta NFPROTO 1, Cmp CmpEq 1 [family],
                                  Payload 1 NetworkHeader offset len] @
                                 (if msk \<noteq> replicate (length msk) 0xff
                                  then [Bitwise 1 1 len msk (replicate len 0)] else []) @
                                 [Cmp cop 1 a]))"

definition cidrMatch :: "string \<Rightarrow> addr_pos \<Rightarrow> expr list option" where
  "cidrMatch entry pos = cidrMatchOp entry pos CmpEq"

definition cidrMatchNegated :: "string \<Rightarrow> addr_pos \<Rightarrow> expr list option" where
  "cidrMatchNegated entry pos = cidrMatchOp entry pos CmpNeq"

fun withoutFamilyTest :: "expr list \<Rightarrow> expr list" where
  "withoutFamilyTest (Meta k d # Cmp cop s dat # es) = es"
| "withoutFamilyTest es = es"

section \<open>Address families and meters\<close>

record addr_family =
  afName :: string
  afNfproto :: byte
  afOffset :: nat
  afKeyLen :: nat

definition addrFamilies :: "addr_family list" where
  "addrFamilies =
     [\<lparr> afName = ''ipv4'', afNfproto = familyIPv4, afOffset = 12, afKeyLen = 4 \<rparr>,
      \<lparr> afName = ''ipv6'', afNfproto = familyIPv6, afOffset = 8, afKeyLen = 16 \<rparr>]"

definition srcAddrExprs :: "addr_family \<Rightarrow> expr list" where
  "srcAddrExprs f =
     [Meta NFPROTO 1, Cmp CmpEq 1 [afNfproto f], Payload 1 NetworkHeader (afOffset f) (afKeyLen f)]"

definition familySuffix :: "addr_family \<Rightarrow> string" where
  "familySuffix f = (if afNfproto f = familyIPv6 then ''v6'' else ''v4'')"

definition addOverRateChain :: "nft_manager \<Rightarrow> string \<Rightarrow> log_spec \<Rightarrow> cmd list" where
  "addOverRateChain mg name lg =
     [AddChain name None] @
     (if lgEnabled lg
      then [AddRule name (logExprs (lgPrefix lg) (lgPerMinute lg) (mgSink mg)) None] else []) @
     [AddRule name [Verdict VDrop] None]"

record per_source_rate =
  psSetPrefix :: string
  psRate :: "64 word"
  psUnit :: limit_unit
  psBurst :: "32 word"
  psTimeout :: int

definition per_source_set :: "per_source_rate \<Rightarrow> addr_family \<Rightarrow> set_spec" where
  "per_source_set r f =
     \<lparr> stName = psSetPrefix r @ ''-'' @ familySuffix f, stKeyLen = afKeyLen f, stInterval = False,
        stDynamic = True, stTimeout = psTimeout r \<rparr>"

definition addPerSourceRateLimit ::
  "nft_manager \<Rightarrow> string \<Rightarrow> (addr_family \<Rightarrow> expr list) \<Rightarrow> per_source_rate \<Rightarrow> string \<Rightarrow> cmd list" where
  "addPerSourceRateLimit mg c match r target =
     concat (map (\<lambda>f.
       if mgAddSetErr mg (per_source_set r f) then []
       else [AddSet (per_source_set r f),
             AddRule c
               ([Meta NFPROTO 1, Cmp CmpEq 1 [afNfproto f]] @ match f @
                [Payload 1 NetworkHeader (afOffset f) (afKeyLen f),
                 Dynset 1 (stName (per_source_set r f)) DynsetUpdate (psTimeout r)
                   [Limit (psRate r) True (psUnit r) (psBurst r)],
                 Verdict (VJump target)]) None]) addrFamilies)"

definition connlimit_set :: "addr_family \<Rightarrow> set_spec" where
  "connlimit_set f =
     \<lparr> stName = ''connlimit-'' @ familySuffix f, stKeyLen = afKeyLen f, stInterval = False,
        stDynamic = True, stTimeout = 0 \<rparr>"

definition addConnectionLimit :: "nft_manager \<Rightarrow> string \<Rightarrow> firewall_options \<Rightarrow> cmd list" where
  "addConnectionLimit mg c opts =
     (let lim = (if ConnectionLimitMax opts \<le> 0 then 100 else ConnectionLimitMax opts) in
      concat (map (\<lambda>f.
        if mgAddSetErr mg (connlimit_set f) then []
        else [AddSet (connlimit_set f),
              AddRule c
                (srcAddrExprs f @
                 [Dynset 1 (stName (connlimit_set f)) DynsetAdd 0
                    [Connlimit (word_of_int lim) nftConnlimitInvert],
                  Verdict VDrop]) None]) addrFamilies))"

end
