(* ===== verification/Protections.thy ===== *)
theory Protections
  imports Builders
begin

text \<open>
  The optional protection modules, the operator's lists and the port rules of
  \<open>internal/core/nftables.go\<close>, each as the commands it queues.
\<close>

section \<open>Modules that look at one packet\<close>

definition ct_state_match :: "nft_manager \<Rightarrow> 32 word \<Rightarrow> expr list" where
  "ct_state_match mg bits =
     [CtState 1, Bitwise 1 1 4 (ctStateMask mg bits) ctStateNoMatch, Cmp CmpNeq 1 ctStateNoMatch]"

definition addInvalidPacketDrop :: "nft_manager \<Rightarrow> string \<Rightarrow> firewall_options \<Rightarrow> cmd list" where
  "addInvalidPacketDrop mg c opts =
     addFiltered mg c (ct_state_match mg ctStateInvalid) (Verdict VDrop)
       \<lparr> lgEnabled = InvalidPacketsLog opts, lgPrefix = logPrefixInvalid, lgPerMinute = 0 \<rparr>"

definition fragment_match :: "nft_manager \<Rightarrow> expr list" where
  "fragment_match mg =
     [Meta NFPROTO 1, Cmp CmpEq 1 [familyIPv4], Meta IIFNAME 1, Cmp CmpNeq 1 lo_name,
      Payload 1 NetworkHeader 6 2, Bitwise 1 1 2 [0x3f, 0xff] [0x00, 0x00],
      Cmp CmpNeq 1 [0x00, 0x00], FibAddrType 1, Cmp CmpEq 1 (mgNative mg RTN_LOCAL)]"

definition addFragmentDrop :: "nft_manager \<Rightarrow> string \<Rightarrow> firewall_options \<Rightarrow> cmd list" where
  "addFragmentDrop mg c opts =
     addFiltered mg c (fragment_match mg) (Verdict VDrop)
       \<lparr> lgEnabled = FragmentsLog opts, lgPrefix = logPrefixFragment, lgPerMinute = 0 \<rparr>"

definition tcp_flags_match :: "byte \<Rightarrow> byte \<Rightarrow> expr list" where
  "tcp_flags_match msk flags =
     [Meta L4PROTO 1, Cmp CmpEq 1 [IPPROTO_TCP], Payload 1 TransportHeader 13 1,
      Bitwise 1 1 1 [msk] [0x00], Cmp CmpEq 1 [flags]]"

definition scanCombos :: "(byte \<times> byte) list" where
  "scanCombos = [(0x00, 0xff), (0x01, 0xff), (0x03, 0x03), (0x05, 0x05), (0x06, 0x06),
                 (0x29, 0x29), (0xff, 0xff)]"

definition addPortScanPrevention :: "nft_manager \<Rightarrow> string \<Rightarrow> firewall_options \<Rightarrow> cmd list" where
  "addPortScanPrevention mg c opts =
     [AddChain ''portscan'' None] @
     (if PortScanLog opts
      then [AddRule ''portscan'' (logExprs logPrefixPortScan 0 (mgSink mg)) None] else []) @
     [AddRule ''portscan'' [Verdict VDrop] None] @
     map (\<lambda>(flags, msk).
            AddRule c (tcp_flags_match msk flags @ [Verdict (VJump ''portscan'')]) None) scanCombos"

definition addAnycastDrop :: "nft_manager \<Rightarrow> string \<Rightarrow> cmd list" where
  "addAnycastDrop mg c =
     [AddRule c [FibAddrType 1, Cmp CmpEq 1 (mgNative mg RTN_ANYCAST), Verdict VDrop] None]"

definition pktTypeBroadcast :: byte where "pktTypeBroadcast = 0x01"
definition pktTypeMulticast :: byte where "pktTypeMulticast = 0x02"

definition addBroadcastDrop :: "string \<Rightarrow> cmd list" where
  "addBroadcastDrop c =
     [AddRule c [Meta PKTTYPE 1, Cmp CmpEq 1 [pktTypeBroadcast], Verdict VDrop] None]"

definition addMulticastDrop :: "string \<Rightarrow> cmd list" where
  "addMulticastDrop c =
     [AddRule c [Meta PKTTYPE 1, Cmp CmpEq 1 [pktTypeMulticast], Verdict VDrop] None]"

section \<open>Modules that meter a source\<close>

definition addSYNFloodProtection :: "nft_manager \<Rightarrow> string \<Rightarrow> firewall_options \<Rightarrow> cmd list" where
  "addSYNFloodProtection mg c opts =
     (let limit = (if SYNFloodLimit opts \<le> 0 then 100 else SYNFloodLimit opts) in
      addOverRateChain mg ''synflood-over''
        \<lparr> lgEnabled = SYNFloodLog opts, lgPrefix = logPrefixSYNFlood, lgPerMinute = 0 \<rparr> @
      addPerSourceRateLimit mg c (\<lambda>_. tcp_flags_match 0x17 0x02)
        \<lparr> psSetPrefix = ''synflood'', psRate = word_of_int limit, psUnit = PerSecond,
           psBurst = word_of_int (limit * 2), psTimeout = 60 \<rparr> ''synflood-over'')"

definition echo_request_match :: "addr_family \<Rightarrow> expr list" where
  "echo_request_match f =
     (let (proto, echo) = (if afNfproto f = familyIPv6 then (IPPROTO_ICMPV6, 128)
                           else (IPPROTO_ICMP, 8)) in
      [Meta L4PROTO 1, Cmp CmpEq 1 [proto], Payload 1 TransportHeader 0 1, Cmp CmpEq 1 [echo]])"

definition addICMPFloodProtection :: "nft_manager \<Rightarrow> string \<Rightarrow> firewall_options \<Rightarrow> cmd list" where
  "addICMPFloodProtection mg c opts =
     (let limit = (if ICMPFloodConnectionLimit opts \<le> 0 then 10 else ICMPFloodConnectionLimit opts) in
      addOverRateChain mg ''icmpflood-over''
        \<lparr> lgEnabled = ICMPFloodLog opts, lgPrefix = logPrefixICMPFlood,
           lgPerMinute = ICMPFloodLogLimit opts \<rparr> @
      addPerSourceRateLimit mg c echo_request_match
        \<lparr> psSetPrefix = ''icmpflood'', psRate = word_of_int limit, psUnit = PerSecond,
           psBurst = word_of_int limit, psTimeout = 60 \<rparr> ''icmpflood-over'')"

definition addTCPRSTFlood :: "nft_manager \<Rightarrow> string \<Rightarrow> firewall_options \<Rightarrow> cmd list" where
  "addTCPRSTFlood mg c opts =
     (let limit = (if TCPRSTFloodLimit opts \<le> 0 then 100 else TCPRSTFloodLimit opts) in
      addOverRateChain mg ''tcprst-over''
        \<lparr> lgEnabled = TCPRSTFloodLog opts, lgPrefix = logPrefixTCPRST, lgPerMinute = 0 \<rparr> @
      addPerSourceRateLimit mg c (\<lambda>_. tcp_flags_match 0x04 0x04)
        \<lparr> psSetPrefix = ''tcprst'', psRate = word_of_int limit, psUnit = PerSecond,
           psBurst = word_of_int limit, psTimeout = 60 \<rparr> ''tcprst-over'')"

definition sshMeteredPorts :: "rules \<Rightarrow> string list" where
  "sshMeteredPorts rs =
     (let ports = map prPort (filter (\<lambda>r. prSSH r \<and> FiltersHost r) (TCP rs)) in
      if ports = [] then [''22''] else ports)"

definition l4_match :: "byte \<Rightarrow> expr list" where
  "l4_match proto = [Meta L4PROTO 1, Cmp CmpEq 1 [proto]]"

definition addSSHBruteForce ::
  "nft_manager \<Rightarrow> string \<Rightarrow> rules \<Rightarrow> firewall_options \<Rightarrow> cmd list" where
  "addSSHBruteForce mg c rs opts =
     (let limit = (if SSHBruteForceConnectionLimit opts \<le> 0 then 5
                   else SSHBruteForceConnectionLimit opts) in
      [AddChain ''sshbrute'' None] @
      addOverRateChain mg ''sshbrute-over''
        \<lparr> lgEnabled = SSHBruteForceLog opts, lgPrefix = logPrefixSSH,
           lgPerMinute = SSHBruteForceLogLimit opts \<rparr> @
      addPerSourceRateLimit mg ''sshbrute'' (\<lambda>_. [])
        \<lparr> psSetPrefix = ''sshbrute'', psRate = word_of_int limit, psUnit = PerMinute,
           psBurst = word_of_int limit, psTimeout = 600 \<rparr> ''sshbrute-over'' @
      [AddRule ''sshbrute'' [Verdict VReturn] None] @
      map (\<lambda>port. AddRule c
             (l4_match IPPROTO_TCP @ buildPortExprs port @ ct_state_match mg ctStateNew @
              [Verdict (VJump ''sshbrute'')]) None) (sshMeteredPorts rs))"

section \<open>The bogon filter\<close>

definition BogonRanges :: "string list" where
  "BogonRanges =
     [''0.0.0.0/8'', ''10.0.0.0/8'', ''100.64.0.0/10'', ''127.0.0.0/8'', ''169.254.0.0/16'',
      ''172.16.0.0/12'', ''192.0.2.0/24'', ''192.168.0.0/16'', ''198.51.100.0/24'',
      ''203.0.113.0/24'', ''240.0.0.0/4'']"

definition bogon_exempt :: "string \<Rightarrow> cmd list" where
  "bogon_exempt cidr =
     (case ipv4SourceMatch cidr of
        None \<Rightarrow> [] | Some match \<Rightarrow> [AddRule ''bogon'' (match @ [Verdict VReturn]) None])"

definition bogon_port_exempt :: "byte \<Rightarrow> port_rule \<Rightarrow> cmd list" where
  "bogon_port_exempt proto r =
     (if \<not> FiltersHost r then []
      else concat (map (\<lambda>src.
        (case ipv4SourceMatch src of
           None \<Rightarrow> []
         | Some match \<Rightarrow>
             [AddRule ''bogon''
                (match @ l4_match proto @ buildPortExprs (prPort r) @ [Verdict VReturn]) None]))
        (prSources r)))"

definition bogon_drop :: "nft_manager \<Rightarrow> firewall_options \<Rightarrow> string \<Rightarrow> cmd list" where
  "bogon_drop mg opts cidr =
     (case ipv4SourceMatch cidr of
        None \<Rightarrow> []
      | Some match \<Rightarrow> addFiltered mg ''bogon'' match (Verdict VDrop)
          \<lparr> lgEnabled = BogonsLog opts, lgPrefix = logPrefixBogon, lgPerMinute = 0 \<rparr>)"

definition addBogonFilter ::
  "nft_manager \<Rightarrow> string \<Rightarrow> firewall_options \<Rightarrow> string list \<Rightarrow> rules \<Rightarrow> cmd list" where
  "addBogonFilter mg c opts exempt rs =
     [AddChain ''bogon'' None] @
     concat (map bogon_exempt exempt) @
     concat (map (bogon_port_exempt IPPROTO_TCP) (TCP rs)) @
     concat (map (bogon_port_exempt IPPROTO_UDP) (UDP rs)) @
     concat (map (bogon_drop mg opts) BogonRanges) @
     [AddRule c [Meta NFPROTO 1, Cmp CmpEq 1 [familyIPv4], Meta IIFNAME 1, Cmp CmpNeq 1 lo_name,
                 Verdict (VJump ''bogon'')] None]"

section \<open>The operator's lists\<close>

definition v4_source_exprs :: "byte list option \<Rightarrow> byte list \<Rightarrow> expr list" where
  "v4_source_exprs msk ip =
     [Meta NFPROTO 1, Cmp CmpEq 1 [familyIPv4], Payload 1 NetworkHeader 12 4] @
     (case msk of Some k \<Rightarrow> [Bitwise 1 1 4 k [0, 0, 0, 0]] | None \<Rightarrow> []) @ [Cmp CmpEq 1 ip]"

definition v6_source_exprs :: "byte list option \<Rightarrow> byte list \<Rightarrow> expr list" where
  "v6_source_exprs msk ip =
     [Meta NFPROTO 1, Cmp CmpEq 1 [familyIPv6], Payload 1 NetworkHeader 8 16] @
     (case msk of Some k \<Rightarrow> [Bitwise 1 1 16 k (replicate 16 0)] | None \<Rightarrow> []) @ [Cmp CmpEq 1 ip]"

text \<open>\<open>To16\<close> of a slice that is neither four nor sixteen bytes is \<open>nil\<close>, an empty comparison.\<close>

definition nil_slice :: "byte list option \<Rightarrow> byte list" where
  "nil_slice b = (case b of Some x \<Rightarrow> x | None \<Rightarrow> [])"

definition cidrDropMatch :: "string \<Rightarrow> expr list option" where
  "cidrDropMatch cidr =
     (case parseIPNet cidr of
        None \<Rightarrow> None
      | Some (ip, msk) \<Rightarrow>
          (case to4 ip of
             Some ip4 \<Rightarrow> Some (v4_source_exprs (Some msk) ip4)
           | None \<Rightarrow> Some (v6_source_exprs (Some msk) (nil_slice (to16 ip)))))"

definition addCIDRAccept :: "string \<Rightarrow> string \<Rightarrow> cmd list" where
  "addCIDRAccept c cidr =
     (if IsListComment cidr then []
      else (case parseIPNet (trim_space cidr) of
              None \<Rightarrow> []
            | Some (ip, msk) \<Rightarrow>
                (case to4 ip of
                   Some ip4 \<Rightarrow> [AddRule c (v4_source_exprs (Some msk) ip4 @ [Verdict VAccept]) None]
                 | None \<Rightarrow>
                     [AddRule c (v6_source_exprs (Some msk) (nil_slice (to16 ip)) @ [Verdict VAccept])
                        None])))"

definition blocklist_match :: "string \<Rightarrow> expr list option" where
  "blocklist_match ip =
     (case ParseIP ip of
        None \<Rightarrow> cidrDropMatch ip
      | Some parsed \<Rightarrow>
          (case to4 parsed of
             Some ip4 \<Rightarrow> Some (v4_source_exprs None ip4)
           | None \<Rightarrow> Some (v6_source_exprs None (nil_slice (to16 parsed)))))"

definition addBlocklistRule ::
  "nft_manager \<Rightarrow> string \<Rightarrow> firewall_options \<Rightarrow> string \<Rightarrow> cmd list" where
  "addBlocklistRule mg c opts ip =
     (if IsListComment ip then []
      else (case blocklist_match ip of
              None \<Rightarrow> []
            | Some match \<Rightarrow> addFiltered mg c match (Verdict VDrop)
                \<lparr> lgEnabled = LogBlocklist opts, lgPrefix = logPrefixBlocklist,
                   lgPerMinute = LogBlocklistLimit opts \<rparr>))"

definition addAllowlistRule :: "string \<Rightarrow> string \<Rightarrow> cmd list" where
  "addAllowlistRule c ip =
     (if IsListComment ip then []
      else (case ParseIP ip of
              None \<Rightarrow> addCIDRAccept c ip
            | Some parsed \<Rightarrow>
                (case to4 parsed of
                   Some ip4 \<Rightarrow> [AddRule c (v4_source_exprs None ip4 @ [Verdict VAccept]) None]
                 | None \<Rightarrow>
                     [AddRule c (v6_source_exprs None (nil_slice (to16 parsed)) @ [Verdict VAccept])
                        None])))"

section \<open>Port rules, forwarding and the final log\<close>

definition port_match :: "byte \<Rightarrow> port_rule \<Rightarrow> expr list \<Rightarrow> expr list" where
  "port_match proto r prefix =
     prefix @ l4_match proto @ buildPortExprs (prPort r) @ [Counter, Verdict VAccept]"

definition portAcceptRules :: "string \<Rightarrow> port_rule \<Rightarrow> rule list" where
  "portAcceptRules proto r =
     (let protoNum = (if proto = ''udp'' then IPPROTO_UDP else IPPROTO_TCP);
          tag = (if prID r = [] then None else Some (prID r));
          matches = List.map_filter (\<lambda>src. cidrMatch src posSrcAddr) (prSources r)
      in if prSources r \<noteq> [] \<and> matches = [] then []
         else if matches = [] then [(port_match protoNum r [], tag)]
         else map (\<lambda>match. (port_match protoNum r match, tag)) matches)"

definition add_rules :: "string \<Rightarrow> rule list \<Rightarrow> cmd list" where
  "add_rules c rs = map (\<lambda>(es, tag). AddRule c es tag) rs"

definition addPortAccept :: "string \<Rightarrow> string \<Rightarrow> port_rule \<Rightarrow> cmd list" where
  "addPortAccept c proto r = add_rules c (portAcceptRules proto r)"

definition redirect_exprs :: "nft_manager \<Rightarrow> forwarding_rule \<Rightarrow> expr list" where
  "redirect_exprs mg fwd =
     [FibAddrType 1, Cmp CmpEq 1 (mgNative mg RTN_LOCAL), Meta L4PROTO 1,
      Cmp CmpEq 1 [if fwProtocol fwd = ''udp'' then IPPROTO_UDP else IPPROTO_TCP],
      Payload 1 TransportHeader 2 2, Cmp CmpEq 1 (portBytes (fwSourcePort fwd)),
      Immediate 1 (portBytes (fwDestPort fwd)), Redir 1]"

definition addForwardingRules :: "nft_manager \<Rightarrow> forwarding_rule list \<Rightarrow> cmd list" where
  "addForwardingRules mg fs =
     [AddChain ''prerouting''
        (Some \<lparr> bcType = NATChain, bcHook = HookPrerouting, bcPriority = prioNAT, bcPolicy = None \<rparr>)] @
     map (\<lambda>fwd. AddRule ''prerouting'' (redirect_exprs mg fwd) None) fs"

definition addFinalLog :: "nft_manager \<Rightarrow> string \<Rightarrow> firewall_options \<Rightarrow> cmd list" where
  "addFinalLog mg c opts =
     [AddRule c (logExprs logPrefixDrop
        (if LogBlockedLimit opts \<le> 0 then 60 else LogBlockedLimit opts) (mgSink mg)) None]"

end
