(* ===== verification/Ruleset.thy ===== *)
theory Ruleset
  imports FeedSets
begin

text \<open>
  The whole table: the container networks and address families of
  \<open>internal/core/forward_family.go\<close>, the forward chain, and the batch
  \<open>NftablesManager.ApplyWithFeeds\<close> queues for one transaction.
\<close>

section \<open>Container networks\<close>

definition network_of :: "string \<Rightarrow> pfx option" where
  "network_of c = (if IsListComment c then None else ParseNetwork c)"

definition cidrFamilies :: "string list \<Rightarrow> bool \<times> bool" where
  "cidrFamilies cidrs =
     fold (\<lambda>c (v4, v6).
        if IsListComment c then (v4, v6)
        else (case ParseNetwork c of
                None \<Rightarrow> (v4, v6)
              | Some p \<Rightarrow> if Is4 (paddr p) then (True, v6) else (v4, True))) cidrs (False, False)"

definition withoutIPv6 :: "string list \<Rightarrow> string list" where
  "withoutIPv6 cidrs =
     filter (\<lambda>c. \<not> (\<not> IsListComment c \<and>
                   (case ParseNetwork c of Some p \<Rightarrow> \<not> Is4 (paddr p) | None \<Rightarrow> False))) cidrs"

definition containerNetworks :: "docker_config \<Rightarrow> string list \<Rightarrow> string \<Rightarrow> string list" where
  "containerNetworks docker detected mode =
     (if \<not> dkEnabled docker then []
      else
        let cidrs = (if AllowBridgeNetworks docker then detected else []) @ CustomNetworks docker
        in if mode = IPv6Block then withoutIPv6 cidrs else cidrs)"

fun ruleFamily :: "expr list \<Rightarrow> byte option" where
  "ruleFamily (Meta k d # Cmp cop s dat # es) =
     (if k \<noteq> NFPROTO then None else if length dat \<noteq> 1 then None else Some (hd dat))"
| "ruleFamily es = None"

definition forwardFamilyPin :: "expr list \<Rightarrow> byte \<Rightarrow> expr list" where
  "forwardFamilyPin es family =
     (case ruleFamily es of
        Some _ \<Rightarrow> es | None \<Rightarrow> [Meta NFPROTO 1, Cmp CmpEq 1 [family]] @ es)"

section \<open>The forward chain\<close>

definition forwardExceptionMatches :: "string list \<Rightarrow> expr list list" where
  "forwardExceptionMatches cidrs =
     concat (map (\<lambda>cidr. List.map_filter (\<lambda>pos. cidrMatch cidr pos) [posSrcAddr, posDstAddr]) cidrs)"

definition addForwardExceptions :: "string \<Rightarrow> expr list list \<Rightarrow> cmd list" where
  "addForwardExceptions c matches =
     map (\<lambda>match. AddRule c (match @ [Verdict VAccept]) None) matches"

definition list_rule :: "verdict \<Rightarrow> expr list \<Rightarrow> cmd" where
  "list_rule v match = AddRule forwardListsChainName (match @ [Verdict v]) None"

text \<open>The second component is \<open>m.fwdLists\<close>: the chain the feeds' forwarded rules go to.\<close>

definition addForwardLists ::
  "string \<Rightarrow> rules \<Rightarrow> routing_config \<Rightarrow> string list \<Rightarrow> cmd list \<times> string option" where
  "addForwardLists c rs routing cidrs =
     (let blocked = List.map_filter (\<lambda>entry. cidrMatch entry posSrcAddr) (Blocklist rs) in
      if blocked = [] \<and> Feeds rs = [] then ([], None)
      else
        ([AddChain forwardListsChainName None] @
         map (list_rule VReturn) (List.map_filter (\<lambda>cidr. cidrMatch cidr posSrcAddr) cidrs) @
         map (\<lambda>match. list_rule VDrop (match @ [Counter])) blocked @
         map (list_rule VReturn) (List.map_filter (\<lambda>entry. cidrMatch entry posSrcAddr) (Allowlist rs)) @
         (if rtMode routing \<noteq> RoutingOpen
          then [AddRule c ([] @ [Verdict (VJump forwardListsChainName)]) None]
          else map (\<lambda>match. AddRule c (match @ [Verdict (VJump forwardListsChainName)]) None)
                 (List.map_filter (\<lambda>cidr. cidrMatch cidr posDstAddr) cidrs)),
         Some forwardListsChainName))"

definition forwardPortRulesRender :: "docker_config \<Rightarrow> string list \<Rightarrow> bool" where
  "forwardPortRulesRender docker cidrs \<longleftrightarrow>
     FiltersPublishedPorts docker \<and> (fst (cidrFamilies cidrs) \<or> snd (cidrFamilies cidrs))"

text \<open>
  One forwarded port rule: the rules that name a family through their source, less the IPv6
  ones when IPv6 is blocked, then the source-less rule pinned to each family in use.
\<close>

definition forward_port_rules :: "bool \<times> bool \<Rightarrow> string \<Rightarrow> string \<Rightarrow> port_rule \<Rightarrow> rule list" where
  "forward_port_rules families mode proto r =
     (if \<not> FiltersForwarded r then []
      else
        filter (\<lambda>(es, tag).
                  case ruleFamily es of
                    None \<Rightarrow> False | Some fam \<Rightarrow> \<not> (fam = familyIPv6 \<and> mode = IPv6Block))
               (portAcceptRules proto r) @
        concat (map (\<lambda>(on, fam).
                  if \<not> on then []
                  else map (\<lambda>(es, tag). (forwardFamilyPin es fam, tag))
                         (filter (\<lambda>(es, tag). ruleFamily es = None) (portAcceptRules proto r)))
                  [(fst families, familyIPv4), (snd families, familyIPv6)]))"

definition forward_deny :: "string \<Rightarrow> rule list" where
  "forward_deny cidr =
     (case (cidrMatch cidr posDstAddr, cidrMatchNegated cidr posSrcAddr) of
        (Some dst, Some src) \<Rightarrow> [(dst @ withoutFamilyTest src @ [Counter, Verdict VDrop], None)]
      | _ \<Rightarrow> [])"

definition addForwardPortRules ::
  "string \<Rightarrow> rules \<Rightarrow> docker_config \<Rightarrow> string list \<Rightarrow> string \<Rightarrow> cmd list" where
  "addForwardPortRules c rs docker cidrs mode =
     (if \<not> FiltersPublishedPorts docker then []
      else
        let families = cidrFamilies cidrs in
        if \<not> fst families \<and> \<not> snd families then []
        else add_rules c (concat (map (forward_port_rules families mode ''tcp'') (TCP rs))) @
             add_rules c (concat (map (forward_port_rules families mode ''udp'') (UDP rs))) @
             add_rules c (concat (map forward_deny cidrs)))"

definition buildForwardChain ::
  "nft_manager \<Rightarrow> string \<Rightarrow> rules \<Rightarrow> docker_config \<Rightarrow> routing_config \<Rightarrow> string list \<Rightarrow> string \<Rightarrow>
   cmd list \<times> string option" where
  "buildForwardChain mg c rs docker routing dockerCIDRs mode =
     (let exceptions =
            (if rtMode routing \<noteq> RoutingOpen
             then forwardExceptionMatches
                    (if rtMode routing = RoutingNetworks then dockerCIDRs @ rtNetworks routing
                     else dockerCIDRs)
             else []) in
      if \<not> forwardPortRulesRender docker dockerCIDRs \<and> exceptions = [] then ([], None)
      else
        let (listCmds, fwdLists) = addForwardLists c rs routing dockerCIDRs in
        (addEstablishedAccept mg c @ listCmds @
         addForwardPortRules c rs docker dockerCIDRs mode @ addForwardExceptions c exceptions,
         fwdLists))"

section \<open>The batch\<close>

definition base_filter :: "hook \<Rightarrow> int \<Rightarrow> policy \<Rightarrow> base_chain option" where
  "base_filter h prio pol =
     Some \<lparr> bcType = FilterChain, bcHook = h, bcPriority = prio, bcPolicy = Some pol \<rparr>"

definition effective_ipv6 :: "ipv6_config \<Rightarrow> ipv6_config" where
  "effective_ipv6 v6 = (if ValidIPv6Mode (v6Mode v6) then v6 else v6\<lparr>v6Mode := IPv6Filter\<rparr>)"

definition effective_routing :: "routing_config \<Rightarrow> routing_config" where
  "effective_routing rt = (if ValidRoutingMode (rtMode rt) then rt else rt\<lparr>rtMode := RoutingClosed\<rparr>)"

definition table_setup :: "routing_config \<Rightarrow> cmd list" where
  "table_setup routing =
     [AddTable, DelTable, AddTable,
      AddChain inputChainName (base_filter HookInput prioFilter PolicyDrop),
      AddChain ''output'' (base_filter HookOutput prioFilter PolicyAccept),
      AddChain forwardChainName (base_filter HookForward prioFilter
        (if rtMode routing = RoutingOpen then PolicyAccept else PolicyDrop))]"

definition ipv6_disposition :: "ipv6_config \<Rightarrow> cmd list" where
  "ipv6_disposition v6 =
     (if v6Mode v6 = IPv6Passthrough then addFamilyVerdict inputChainName familyIPv6 VAccept
      else if v6Mode v6 = IPv6Block then addFamilyVerdict inputChainName familyIPv6 VDrop
      else [])"

definition fragment_chain :: "nft_manager \<Rightarrow> firewall_options \<Rightarrow> cmd list" where
  "fragment_chain mg opts =
     [AddChain fragmentChainName (base_filter HookPrerouting prioBeforeDefrag PolicyAccept)] @
     addFragmentDrop mg fragmentChainName opts"

definition protection_modules ::
  "nft_manager \<Rightarrow> rules \<Rightarrow> firewall_options \<Rightarrow> string list \<Rightarrow> cmd list" where
  "protection_modules mg rs opts dockerCIDRs =
     (if PortScan opts then addPortScanPrevention mg inputChainName opts else []) @
     (if SYNFlood opts then addSYNFloodProtection mg inputChainName opts else []) @
     (if InvalidPackets opts then addInvalidPacketDrop mg inputChainName opts else []) @
     (if Fragments opts then fragment_chain mg opts else []) @
     (if Bogons opts
      then addBogonFilter mg inputChainName opts (Allowlist rs @ dockerCIDRs) rs else []) @
     (if SSHBruteForce opts then addSSHBruteForce mg inputChainName rs opts else []) @
     (if ConnectionLimit opts then addConnectionLimit mg inputChainName opts else []) @
     (if DropBroadcast opts then addBroadcastDrop inputChainName else []) @
     (if DropMulticast opts then addMulticastDrop inputChainName else []) @
     (if DropAnycast opts then addAnycastDrop mg inputChainName else [])"

text \<open>
  The container networks of one apply.  \<open>detected\<close> is what \<open>detectDockerBridges\<close> returned; it is
  asked only when the settings want it.
\<close>

definition docker_cidrs :: "network_settings \<Rightarrow> string list \<Rightarrow> string list" where
  "docker_cidrs net detected =
     (let docker = nsDocker net in
      containerNetworks docker
        (if dkEnabled docker \<and> AllowBridgeNetworks docker then detected else [])
        (v6Mode (effective_ipv6 (nsIPv6 net))))"

text \<open>
  \<open>build_batch\<close>: what \<open>ApplyWithFeeds\<close> queues between its checks and its first flush, with the
  size the feeds add to the batch.
\<close>

definition build_batch ::
  "nft_manager \<Rightarrow> rules \<Rightarrow> firewall_options \<Rightarrow> network_settings \<Rightarrow> feed_contents \<Rightarrow> string list \<Rightarrow>
   string + (nat \<times> cmd list)" where
  "build_batch mg rs opts net feeds detected =
     (let v6 = effective_ipv6 (nsIPv6 net); routing = effective_routing (nsRouting net);
          docker = nsDocker net; dockerCIDRs = docker_cidrs net detected;
          (forwardCmds, fwdLists) =
            buildForwardChain mg forwardChainName rs docker routing dockerCIDRs (v6Mode v6)
      in case addFeeds mg inputChainName (Feeds rs) feeds opts fwdLists of
           Inl e \<Rightarrow> Inl e
         | Inr (feedBytes, feedCmds) \<Rightarrow>
             Inr (feedBytes,
               table_setup routing @
               addLoopbackAccept inputChainName @
               ipv6_disposition v6 @
               (if ICMPFlood opts then addICMPFloodProtection mg inputChainName opts else []) @
               (if TCPRSTFlood opts then addTCPRSTFlood mg inputChainName opts else []) @
               addEstablishedAccept mg inputChainName @
               addICMPRules inputChainName v6 @
               forwardCmds @
               protection_modules mg rs opts dockerCIDRs @
               concat (map (addCIDRAccept inputChainName) dockerCIDRs) @
               concat (map (addBlocklistRule mg inputChainName opts) (Blocklist rs)) @
               concat (map (addAllowlistRule inputChainName) (Allowlist rs)) @
               feedCmds @
               addEchoAccepts inputChainName (ICMPAllowEchoRequest opts) v6 @
               concat (map (addPortAccept inputChainName ''tcp'') (filter FiltersHost (TCP rs))) @
               concat (map (addPortAccept inputChainName ''udp'') (filter FiltersHost (UDP rs))) @
               (if Forwarding rs \<noteq> [] then addForwardingRules mg (Forwarding rs) else [])))"

text \<open>The commands of the custom rules as text, and the second flush's log rule.\<close>

definition custom_commands :: "string list \<Rightarrow> string list" where
  "custom_commands rs =
     map (\<lambda>r. ''add rule inet easywall input '' @ r)
       (filter (\<lambda>r. \<not> (r = [] \<or> has_prefix r ''#'')) (map trim_space rs))"

definition final_batch :: "nft_manager \<Rightarrow> firewall_options \<Rightarrow> cmd list" where
  "final_batch mg opts = (if LogBlocked opts then addFinalLog mg inputChainName opts else [])"

end
