(* ===== verification/Packets.thy ===== *)
theory Packets
  imports Ruleset
begin

text \<open>
  What the matches of the rule builders say about a packet, in the terms an operator thinks in:
  source address, network, port, TCP flags, connection state.  Each lemma of the second half
  relates one match the builders emit to its predicate.
\<close>

section \<open>Packets\<close>

definition wf_packet :: "packet \<Rightarrow> bool" where
  "wf_packet p \<longleftrightarrow>
     pkFamily p = familyIPv4 \<and> 20 \<le> length (pkNet p) \<or>
     pkFamily p = familyIPv6 \<and> 40 \<le> length (pkNet p)"

definition packet_src :: "packet \<Rightarrow> addr" where
  "packet_src p =
     (if pkFamily p = familyIPv4 then Addr (take 4 (drop 12 (pkNet p))) []
      else Addr (take 16 (drop 8 (pkNet p))) [])"

definition packet_dst :: "packet \<Rightarrow> addr" where
  "packet_dst p =
     (if pkFamily p = familyIPv4 then Addr (take 4 (drop 16 (pkNet p))) []
      else Addr (take 16 (drop 24 (pkNet p))) [])"

definition addr_at :: "addr_pos \<Rightarrow> packet \<Rightarrow> addr" where
  "addr_at pos p =
     (if pkFamily p = familyIPv4 then Addr (take 4 (drop (posV4 pos) (pkNet p))) []
      else Addr (take 16 (drop (posV6 pos) (pkNet p))) [])"

definition from_loopback :: "packet \<Rightarrow> bool" where
  "from_loopback p \<longleftrightarrow> take 3 (pkIif p) = lo_name"

definition ct_in :: "32 word \<Rightarrow> packet \<Rightarrow> bool" where
  "ct_in bits p \<longleftrightarrow> pkCt p AND bits \<noteq> 0"

definition tcp_flags_are :: "byte \<Rightarrow> byte \<Rightarrow> packet \<Rightarrow> bool" where
  "tcp_flags_are msk flags p \<longleftrightarrow>
     pkProto p = IPPROTO_TCP \<and> 14 \<le> length (pkTrans p) \<and> pkTrans p ! 13 AND msk = flags"

definition icmp_type_is :: "byte \<Rightarrow> byte \<Rightarrow> packet \<Rightarrow> bool" where
  "icmp_type_is proto typ p \<longleftrightarrow> pkProto p = proto \<and> pkTrans p \<noteq> [] \<and> hd (pkTrans p) = typ"

definition dst_port :: "packet \<Rightarrow> nat" where
  "dst_port p = be_nat (take 2 (drop 2 (pkTrans p)))"

definition port_covers :: "string \<Rightarrow> packet \<Rightarrow> bool" where
  "port_covers port p \<longleftrightarrow>
     4 \<le> length (pkTrans p) \<and>
     (case port_interval port of
        None \<Rightarrow> False | Some (lo, hi) \<Rightarrow> lo \<le> int (dst_port p) \<and> int (dst_port p) \<le> hi)"

section \<open>List entries\<close>

text \<open>
  The network an entry of a list names: the host network of an address, an IPv4-mapped one as
  the IPv4 address it is, or the network of a prefix.
\<close>

definition entry_network :: "string \<Rightarrow> pfx option" where
  "entry_network e =
     (if IsListComment e then None
      else (case ParseIP (trim_space e) of
              Some ip \<Rightarrow> (let a = Unmap (Addr ip []) in Some (Prefix a (BitLen a)))
            | None \<Rightarrow> ParseNetwork e))"

definition entry_covers :: "string \<Rightarrow> addr \<Rightarrow> bool" where
  "entry_covers e a \<longleftrightarrow> (case entry_network e of None \<Rightarrow> False | Some q \<Rightarrow> Contains q a)"

section \<open>Bytes\<close>

lemma xor_zero [simp]: "length b \<le> n \<Longrightarrow> xor_bytes (replicate n 0) b = b"
  unfolding xor_bytes_def by (rule nth_equalityI) auto

lemma xor_zero4 [simp]: "length b = 4 \<Longrightarrow> xor_bytes [0, 0, 0, 0] b = b"
  using xor_zero [of b 4] by (simp add: numeral_eq_Suc)

lemma be_nat_snoc: "be_nat (bs @ [b]) = 256 * be_nat bs + unat b"
  by (simp add: be_nat_def)

lemma be_nat_Nil [simp]: "be_nat [] = 0"
  by (simp add: be_nat_def)

lemma be_nat_less: "be_nat bs < 256 ^ length bs"
proof (induction bs rule: rev_induct)
  case (snoc b bs)
  have "unat b < 256" using unsigned_less [of b, where ?'a = nat] by simp
  with snoc show ?case by (simp add: be_nat_snoc)
qed simp

lemma length_be_bytes [simp]: "length (be_bytes k n) = k"
  by (induction k n rule: be_bytes.induct) auto

lemma be_nat_be_bytes: "n < 256 ^ k \<Longrightarrow> be_nat (be_bytes k n) = n"
proof (induction k n rule: be_bytes.induct)
  case (2 k n)
  have "unat (of_nat (n mod 256) :: byte) = n mod 256"
    by (simp add: unat_of_nat)
  with 2 show ?case by (simp add: be_nat_snoc less_mult_imp_div_less)
qed simp

lemma be_bytes_be_nat: "be_bytes (length bs) (be_nat bs) = bs"
proof (induction bs rule: rev_induct)
  case (snoc b bs)
  have "unat b < 256" using unsigned_less [of b, where ?'a = nat] by simp
  with snoc show ?case by (simp add: be_nat_snoc)
qed simp

lemma be_nat_inj: "length a = length b \<Longrightarrow> be_nat a = be_nat b \<Longrightarrow> a = b"
  by (metis be_bytes_be_nat)

lemma portBytes_length [simp]: "length (portBytes p) = 2"
  by (simp add: portBytes_def Let_def)

lemma be_nat_portBytes: "1 \<le> p \<Longrightarrow> p \<le> 65535 \<Longrightarrow> be_nat (portBytes p) = nat p"
proof -
  assume p: "1 \<le> p" "p \<le> 65535"
  define v where "v = (word_of_int p :: 16 word)"
  have v: "unat v = nat p"
    using p by (simp add: v_def unat_eq_nat_uint uint_word_of_int)
  have "unat (ucast (drop_bit 8 v) :: byte) = unat v div 256"
    using unsigned_less [of v, where ?'a = nat] by (simp add: unsigned_ucast_eq take_bit_eq_mod drop_bit_eq_div unat_div_distrib)
  moreover have "unat (ucast v :: byte) = unat v mod 256"
    by (simp add: unsigned_ucast_eq take_bit_eq_mod)
  ultimately show ?thesis
    using p v by (simp add: portBytes_def Let_def be_nat_def flip: v_def)
qed

section \<open>Text that holds no white space and no zone\<close>

definition plain :: "char \<Rightarrow> bool" where
  "plain c \<longleftrightarrow> 33 \<le> (of_char c :: nat) \<and> (of_char c :: nat) \<le> 126 \<and> c \<noteq> CHR ''%''"

lemma no_leading_space:
  assumes "list_all plain s" "\<forall>e\<in>set encs. e \<noteq> [] \<and> \<not> plain (hd e)"
  shows "trim_left encs s = s"
proof -
  have "\<not> has_prefix s e" if "e \<in> set encs" for e
    using that assms by (force simp: has_prefix_iff list_all_iff)
  then have "leading_space encs s = None"
    by (auto simp: leading_space_def find_None_iff)
  then show ?thesis unfolding trim_left_def by (cases "length s") simp_all
qed

lemma trim_space_plain: "list_all plain s \<Longrightarrow> trim_space s = s"
proof -
  assume s: "list_all plain s"
  have a: "\<forall>e\<in>set space_encodings. e \<noteq> [] \<and> \<not> plain (hd e)" by code_simp
  have b: "\<forall>e\<in>set (map rev space_encodings). e \<noteq> [] \<and> \<not> plain (hd e)" by code_simp
  have "list_all plain (rev s)" using s by simp
  then show ?thesis
    unfolding trim_space_def using no_leading_space [OF s a] no_leading_space [OF _ b] by simp
qed

text \<open>The characters an address without a zone is written in.\<close>

definition addr_char :: "char \<Rightarrow> bool" where
  "addr_char c \<longleftrightarrow> hex_val c \<noteq> None \<or> c = CHR ''.'' \<or> c = CHR '':''"

lemma digit_addr_char: "is_digit c \<Longrightarrow> addr_char c"
  by (auto simp: is_digit_def addr_char_def hex_val_def Let_def)

lemma hex_addr_char: "hex_val c \<noteq> None \<Longrightarrow> addr_char c"
  by (simp add: addr_char_def)

lemma addr_char_plain: "addr_char c \<Longrightarrow> plain c"
  by (auto simp: addr_char_def hex_val_def plain_def Let_def split: if_splits)

lemma addr_char_separators [simp]: "addr_char (CHR ''.'')" "addr_char (CHR '':'')"
  by (simp_all add: addr_char_def)

lemma digit_plain: "is_digit c \<Longrightarrow> plain c"
  by (auto simp: is_digit_def plain_def)

lemma plain_separators [simp]:
  "plain (CHR ''.'')" "plain (CHR '':'')" "plain (CHR ''/'')" "plain (CHR ''+'')" "plain (CHR ''-'')"
  by code_simp+

lemma ipv4_fields_addr_chars: "ipv4_fields pr v n fs s = Some b \<Longrightarrow> list_all addr_char s"
  by (induction pr v n fs s arbitrary: b rule: ipv4_fields.induct) (auto simp: digit_addr_char split: if_splits)

lemma parse_ipv4_addr_chars: "parse_ipv4 s = Some b \<Longrightarrow> list_all addr_char s"
  by (auto simp: parse_ipv4_def dest: ipv4_fields_addr_chars)

lemma ipv6_groups_addr_chars: "ipv6_groups k bs ell s = Some (b, e, []) \<Longrightarrow> list_all addr_char s"
proof (induction k bs ell s arbitrary: b e rule: ipv6_groups.induct)
  case (2 k bs ell s)
  let ?ds = "takeWhile (\<lambda>c. hex_val c \<noteq> None) s" and ?rest = "dropWhile (\<lambda>c. hex_val c \<noteq> None) s"
  have ds: "list_all addr_char ?ds"
    unfolding list_all_iff by (intro ballI hex_addr_char) (drule set_takeWhileD, simp)
  have "list_all addr_char ?rest \<or> list_all addr_char s"
  proof (cases "?rest = []")
    case True
    then show ?thesis by (simp only: list.pred_inject simp_thms)
  next
    case False
    then obtain c cs where r: "?rest = c # cs" by (cases ?rest) auto
    show ?thesis
    proof (cases "c = CHR ''.''")
      case True
      with 2(3) r show ?thesis
        by (auto simp: Let_def split: if_splits option.splits dest: parse_ipv4_addr_chars)
    next
      case nodot: False
      with 2(3) r have c: "c = CHR '':''" "cs \<noteq> []" by (auto simp: Let_def split: if_splits)
      obtain d ds where cs: "cs = d # ds" using c by (cases cs) auto
      show ?thesis
      proof (cases "d = CHR '':''")
        case True
        with 2(3) r c cs have "ds = [] \<or> list_all addr_char ds"
          using 2(1) [OF refl refl]
          by (auto simp: Let_def split: if_splits)
        with r c cs True show ?thesis by auto
      next
        case False
        with 2(3) r c cs have "list_all addr_char cs"
          using 2(2) [OF refl refl] by (auto simp: Let_def split: if_splits)
        with r c show ?thesis by auto
      qed
    qed
  qed
  with ds show ?case
    by (metis list_all_append takeWhile_dropWhile_id)
qed simp

lemma parse_ipv6_addr_chars:
  assumes h: "parse_ipv6 s = Some a" and z: "azone a = []"
  shows "list_all addr_char s"
proof -
  obtain s1 zn hz where c: "cut_char (CHR ''%'') s = (s1, zn, hz)" by (metis prod_cases3)
  have zn: "zn = [] \<and> \<not> hz"
    using h z c by (auto simp: parse_ipv6_def Let_def split: if_splits option.splits prod.splits)
  then have s: "s = s1" using cut_char_cases [OF c] by simp
  show ?thesis
  proof (cases "has_prefix s1 ''::''")
    case True
    then obtain r where r: "s1 = '':'' @ '':'' @ r" by (auto simp: has_prefix_iff)
    have "r = [] \<or> (\<exists>bs ell. ipv6_groups 8 [] (Some 0) r = Some (bs, ell, []))"
      using h c True r by (auto simp: parse_ipv6_def Let_def split: if_splits option.splits prod.splits)
    then show ?thesis using s r by (auto dest: ipv6_groups_addr_chars)
  next
    case False
    then have "\<exists>bs ell. ipv6_groups 8 [] None s1 = Some (bs, ell, [])"
      using h c by (auto simp: parse_ipv6_def Let_def split: if_splits option.splits prod.splits)
    then show ?thesis using s by (auto dest: ipv6_groups_addr_chars)
  qed
qed

lemma ParseAddr_addr_chars: "ParseAddr s = Some a \<Longrightarrow> azone a = [] \<Longrightarrow> list_all addr_char s"
  by (auto simp: ParseAddr_def split: option.splits if_splits dest: parse_ipv4_addr_chars parse_ipv6_addr_chars)

lemma ParseAddr_plain: "ParseAddr s = Some a \<Longrightarrow> azone a = [] \<Longrightarrow> list_all plain s"
  by (drule (1) ParseAddr_addr_chars) (auto simp: list_all_iff addr_char_plain)

lemma ParseIP_no_slash: "ParseIP s = Some ip \<Longrightarrow> CHR ''/'' \<notin> set s"
proof -
  assume "ParseIP s = Some ip"
  then have "list_all addr_char s"
    by (auto simp: ParseIP_def split: option.splits if_splits dest: ParseAddr_addr_chars)
  moreover have "\<not> addr_char (CHR ''/'')" by code_simp
  ultimately show ?thesis by (auto simp: list_all_iff)
qed

lemma ParseCIDR_slash: "ParseCIDR s = Some n \<Longrightarrow> CHR ''/'' \<in> set s"
  using cut_char_cases [of "CHR ''/''" s] by (auto simp: ParseCIDR_def split: prod.splits if_splits)

lemma ParseIP_plain: "ParseIP s = Some ip \<Longrightarrow> list_all plain s"
  by (auto simp: ParseIP_def split: option.splits if_splits dest: ParseAddr_plain)

lemma ParseCIDR_plain: "ParseCIDR s = Some n \<Longrightarrow> list_all plain s"
proof -
  assume h: "ParseCIDR s = Some n"
  obtain a m f where c: "cut_char (CHR ''/'') s = (a, m, f)" by (metis prod_cases3)
  from h c obtain ip k where f: f and a: "ParseAddr a = Some ip" "azone ip = []" and k: "dtoi m = Some k"
    by (auto simp: ParseCIDR_def Let_def split: if_splits option.splits)
  have "list_all plain m"
    using k by (auto simp: dtoi_def list_all_iff digit_plain split: if_splits)
  then show ?thesis using cut_char_cases [OF c] f ParseAddr_plain [OF a] by simp
qed

lemma atoi_plain: "atoi s = Some v \<Longrightarrow> list_all plain s"
  by (cases s) (auto simp: atoi_def Let_def list_all_iff digit_plain split: if_splits)

lemma ParsePortNumber_plain: "ParsePortNumber s = Inr v \<Longrightarrow> list_all plain s"
  by (auto simp: ParsePortNumber_def split: option.splits dest: atoi_plain)

end
