(* ===== verification/Matches.thy ===== *)
theory Matches
  imports Packets
begin

text \<open>
  What each match the builders emit selects: networks, ports, flags, connection states.
\<close>

section \<open>Networks\<close>

definition net_ok :: "pfx \<Rightarrow> bool" where
  "net_ok q \<longleftrightarrow>
     azone (paddr q) = [] \<and> pbits q \<le> BitLen (paddr q) \<and>
     (length (abytes (paddr q)) = 4 \<or> length (abytes (paddr q)) = 16 \<and> to4 (abytes (paddr q)) = None) \<and>
     and_bytes (cidr_mask (pbits q) (length (abytes (paddr q)))) (abytes (paddr q)) = abytes (paddr q)"

lemma cidr_mask_low_bit: "i < k \<Longrightarrow> n < 8 * (i + 1) \<Longrightarrow> \<not> bit (cidr_mask n k ! i) 0"
proof (induction n k arbitrary: i rule: cidr_mask.induct)
  case (2 ones n)
  show ?case
  proof (cases i)
    case 0
    with 2 have "ones < 8" by simp
    then have "ones \<in> {0, 1, 2, 3, 4, 5, 6, 7}" by auto
    with 0 show ?thesis by (auto simp: bit_simps drop_bit_eq_div)
  next
    case (Suc j)
    with 2 show ?thesis by (cases "8 \<le> ones") auto
  qed
qed simp

lemma masked_not_mapped:
  assumes "length b = 16" "n < 96" "and_bytes (cidr_mask n 16) b = b"
  shows "to4 b = None"
proof -
  have b: "b ! 11 = b ! 11 AND cidr_mask n 16 ! 11"
    using arg_cong [OF assms(3), of "\<lambda>x. x ! 11"] assms(1) by (simp add: and_bytes_def)
  have "\<not> bit (cidr_mask n 16 ! 11) 0"
    using assms(2) by (intro cidr_mask_low_bit) simp_all
  then have "\<not> bit (b ! 11) 0"
    by (subst b) (simp add: bit_and_iff)
  moreover have "bit (v4_in_v6_prefix ! 11) 0" by code_simp
  moreover have "take 12 b ! 11 = b ! 11" by (rule nth_take) simp
  ultimately have "take 12 b \<noteq> v4_in_v6_prefix" by metis
  then show ?thesis using assms(1) by (simp add: to4_def)
qed

lemma ParseCIDR_masked:
  "ParseCIDR s = Some (b, n) \<Longrightarrow>
   (length b = 4 \<or> length b = 16) \<and> n \<le> 8 * length b \<and> and_bytes (cidr_mask n (length b)) b = b"
  by (auto simp: ParseCIDR_def Let_def BitLen_def split: if_splits option.splits prod.splits
      dest: ParseAddr_length)

lemma cidr_mask_drop: "cidr_mask (8 * j + n) (j + k) = replicate j 0xff @ cidr_mask n k"
  by (induction j) auto

lemma and_bytes_append:
  "length a = length b \<Longrightarrow> and_bytes (a @ c) (b @ d) = and_bytes a b @ and_bytes c d"
  by (simp add: and_bytes_def)

lemma masked_mapped:
  assumes "length b = 16" "96 \<le> n" "n \<le> 128" "take 12 b = v4_in_v6_prefix"
    "and_bytes (cidr_mask n 16) b = b"
  shows "and_bytes (cidr_mask (n - 96) 4) (drop 12 b) = drop 12 b"
proof -
  have "cidr_mask n 16 = replicate 12 0xff @ cidr_mask (n - 96) 4"
    using cidr_mask_drop [of 12 "n - 96" 4] assms(2) by simp
  then have "and_bytes (replicate 12 0xff) (take 12 b) @ and_bytes (cidr_mask (n - 96) 4) (drop 12 b) = b"
    using and_bytes_append [of "replicate 12 0xff" "take 12 b" "cidr_mask (n - 96) 4" "drop 12 b"]
      assms(1,5) by simp
  then have "drop 12 (and_bytes (replicate 12 0xff) (take 12 b) @
      and_bytes (cidr_mask (n - 96) 4) (drop 12 b)) = drop 12 b" by simp
  then show ?thesis using assms(1) by simp
qed

lemma ParseNetwork_ok: "ParseNetwork s = Some q \<Longrightarrow> net_ok q"
proof -
  assume h: "ParseNetwork s = Some q"
  then obtain b n where c: "ParseCIDR (trim_space s) = Some (b, n)"
    by (auto simp: ParseNetwork_def split: option.splits)
  note m = ParseCIDR_masked [OF c]
  show ?thesis
  proof (cases "Is4In6 (Addr b []) \<and> 96 \<le> n")
    case True
    then have t: "length b = 16" "take 12 b = v4_in_v6_prefix"
      by (auto simp: Is4In6_def Is6_def)
    have k: "and_bytes (cidr_mask (n - 96) 4) (drop 12 b) = drop 12 b"
      using masked_mapped [of b n] t True m by simp
    have "q = Prefix (Addr (drop 12 b) []) (n - 96)"
      using h c True t k by (simp add: ParseNetwork_def Let_def Masked_def Unmap_def)
    moreover have "n - 96 \<le> 32" using m t by (simp add: le_diff_conv)
    ultimately show ?thesis using k t by (simp add: net_ok_def BitLen_def)
  next
    case False
    have "q = Prefix (Addr b []) n"
      using h c False m by (auto simp: ParseNetwork_def Let_def Masked_def)
    moreover have "length b = 16 \<Longrightarrow> to4 b = None"
      using False m masked_not_mapped [of b n]
      by (auto simp: Is4In6_def Is6_def to4_def not_le)
    ultimately show ?thesis using m by (auto simp: net_ok_def BitLen_def)
  qed
qed

lemma host_network_ok: "ParseIP s = Some ip \<Longrightarrow>
   net_ok (Prefix (Unmap (Addr ip [])) (BitLen (Unmap (Addr ip []))))"
proof -
  assume h: "ParseIP s = Some ip"
  then have l: "length ip = 16"
    by (auto simp: ParseIP_def As16_def Is4_def v4_in_v6_prefix_def split: option.splits if_splits
        dest: ParseAddr_length)
  let ?a = "Unmap (Addr ip [])"
  have w: "length (abytes ?a) = 4 \<or> length (abytes ?a) = 16 \<and> to4 (abytes ?a) = None"
    using l by (auto simp: Unmap_def Is4In6_def Is6_def to4_def)
  have "and_bytes (cidr_mask (8 * length (abytes ?a)) (length (abytes ?a))) (abytes ?a) = abytes ?a"
    by (simp only: cidr_mask_full and_bytes_full)
  with w show ?thesis by (simp add: net_ok_def BitLen_def Unmap_def)
qed

lemma entry_network_ok: "entry_network e = Some q \<Longrightarrow> net_ok q"
  by (auto simp: entry_network_def Let_def host_network_ok ParseNetwork_ok split: if_splits option.splits)

lemma ParseIP_To: "ParseIP s = Some ip \<Longrightarrow>
   to4 ip = (if Is4 (Unmap (Addr ip [])) then Some (abytes (Unmap (Addr ip []))) else None) \<and>
   to16 ip = Some ip \<and> length ip = 16"
  by (auto simp: ParseIP_def As16_def Is4_def v4_in_v6_prefix_def to4_def to16_def Unmap_def Is4In6_def
      Is6_def split: option.splits if_splits dest: ParseAddr_length)

section \<open>The address match\<close>

text \<open>Every address match of the builders is this one, with or without the mask.\<close>

definition addr_exprs ::
  "byte \<Rightarrow> nat \<Rightarrow> nat \<Rightarrow> byte list option \<Rightarrow> cmp_op \<Rightarrow> byte list \<Rightarrow> expr list" where
  "addr_exprs fam off len msk cop ip =
     [Meta NFPROTO 1, Cmp CmpEq 1 [fam], Payload 1 NetworkHeader off len] @
     (case msk of Some k \<Rightarrow> [Bitwise 1 1 len k (replicate len 0)] | None \<Rightarrow> []) @ [Cmp cop 1 ip]"

lemma selects_addr_exprs:
  assumes "length ip = len" "case msk of Some k \<Rightarrow> length k = len | None \<Rightarrow> True"
  shows "selects ne m p (addr_exprs fam off len msk cop ip)
    (pkFamily p = fam \<and> off + len \<le> length (pkNet p) \<and>
     compare cop ((case msk of Some k \<Rightarrow> and_bytes k | None \<Rightarrow> id) (take len (drop off (pkNet p)))) ip)"
  unfolding selects_def addr_exprs_def
  using assms by (cases msk) (auto simp: meta_of_def header_def)

definition at_pos :: "byte list \<Rightarrow> addr_pos \<Rightarrow> nat" where
  "at_pos ip pos = (if length ip = 4 then posV4 pos else posV6 pos)"

definition fam_of :: "byte list \<Rightarrow> byte" where
  "fam_of ip = (if length ip = 4 then familyIPv4 else familyIPv6)"

definition pos_ok :: "addr_pos \<Rightarrow> bool" where
  "pos_ok pos \<longleftrightarrow> posV4 pos + 4 \<le> 20 \<and> posV6 pos + 16 \<le> 40"

text \<open>
  A network's match: its own family, the mask of its length (which may be left out when it is
  the full one), its address.  It selects the packets whose address lies in the network.
\<close>

definition net_exprs :: "pfx \<Rightarrow> addr_pos \<Rightarrow> bool \<Rightarrow> cmp_op \<Rightarrow> expr list" where
  "net_exprs q pos masked cop =
     (let ip = abytes (paddr q) in
      addr_exprs (fam_of ip) (at_pos ip pos) (length ip)
        (if masked then Some (cidr_mask (pbits q) (length ip)) else None) cop ip)"

lemma length_addr_at:
  "wf_packet p \<Longrightarrow> pos_ok pos \<Longrightarrow>
   length (abytes (addr_at pos p)) = (if pkFamily p = familyIPv4 then 4 else 16)"
  by (auto simp: wf_packet_def addr_at_def pos_ok_def)

lemma Contains_addr_at:
  assumes "wf_packet p" "pos_ok pos" "net_ok q"
  shows "Contains q (addr_at pos p) \<longleftrightarrow>
    pkFamily p = fam_of (abytes (paddr q)) \<and>
    and_bytes (cidr_mask (pbits q) (length (abytes (paddr q)))) (abytes (addr_at pos p)) = abytes (paddr q)"
  using assms length_addr_at [OF assms(1,2)]
  by (auto simp: Contains_def net_ok_def fam_of_def IsValid_def Is4_def Is6_def wf_packet_def
      addr_at_def split: if_splits)

lemma selects_net_exprs:
  assumes p: "wf_packet p" "pos_ok pos" and q: "net_ok q"
    and full: "masked \<or> pbits q = BitLen (paddr q)"
  shows "selects ne m p (net_exprs q pos masked CmpEq) (Contains q (addr_at pos p))"
    and "selects ne m p (net_exprs q pos masked CmpNeq)
      (pkFamily p = fam_of (abytes (paddr q)) \<and> \<not> Contains q (addr_at pos p))"
proof -
  let ?ip = "abytes (paddr q)"
  let ?k = "cidr_mask (pbits q) (length ?ip)"
  have len: "length ?ip = 4 \<or> length ?ip = 16" using q by (auto simp: net_ok_def)
  have at: "take (length ?ip) (drop (at_pos ?ip pos) (pkNet p)) = abytes (addr_at pos p) \<and>
      at_pos ?ip pos + length ?ip \<le> length (pkNet p)" if "pkFamily p = fam_of ?ip"
    using that p len by (auto simp: fam_of_def at_pos_def addr_at_def wf_packet_def pos_ok_def)
  have msk: "(case if masked then Some ?k else None of Some k \<Rightarrow> and_bytes k | None \<Rightarrow> id)
      (abytes (addr_at pos p)) = and_bytes ?k (abytes (addr_at pos p))" if "pkFamily p = fam_of ?ip"
  proof (cases masked)
    case False
    with full have "?k = replicate (length ?ip) 0xff"
      by (simp add: BitLen_def cidr_mask_full)
    moreover have "length (abytes (addr_at pos p)) = length ?ip"
      using that len length_addr_at [OF p] by (auto simp: fam_of_def split: if_splits)
    ultimately show ?thesis using False by (simp add: and_bytes_full)
  qed simp
  note sel = selects_addr_exprs [of ?ip "length ?ip" "if masked then Some ?k else None" ne m p
      "fam_of ?ip" "at_pos ?ip pos"]
  show "selects ne m p (net_exprs q pos masked CmpEq) (Contains q (addr_at pos p))"
    unfolding net_exprs_def Let_def
    by (rule selects_iff [OF sel]) (use at msk in \<open>auto simp: Contains_addr_at [OF p q]\<close>)
  show "selects ne m p (net_exprs q pos masked CmpNeq)
      (pkFamily p = fam_of ?ip \<and> \<not> Contains q (addr_at pos p))"
    unfolding net_exprs_def Let_def
    by (rule selects_iff [OF sel]) (use at msk in \<open>auto simp: Contains_addr_at [OF p q]\<close>)
qed

section \<open>Trimming twice is trimming once\<close>

lemma trim_left_n_stop:
  "\<forall>e\<in>set encs. e \<noteq> [] \<Longrightarrow> length s \<le> n \<Longrightarrow> leading_space encs (trim_left_n n encs s) = None"
proof (induction n encs s rule: trim_left_n.induct)
  case (1 encs s)
  then show ?case by (auto simp: leading_space_def find_None_iff has_prefix_def)
next
  case (2 n encs s)
  show ?case
  proof (cases "leading_space encs s")
    case (Some e)
    then have "e \<in> set encs" by (auto simp: leading_space_def find_Some_iff)
    then have "0 < length e" using 2(2) by simp
    then have "length (drop (length e) s) \<le> n" using 2(3) by (simp only: length_drop)
    with 2 Some show ?thesis by simp
  qed simp
qed

lemma trim_left_id: "leading_space encs s = None \<Longrightarrow> trim_left encs s = s"
  by (cases "length s") (simp_all add: trim_left_def)

lemma trim_left_suffix: "\<exists>k. trim_left_n n encs s = drop k s"
proof (induction n encs s rule: trim_left_n.induct)
  case (1 encs s)
  show ?case by (simp add: exI [of _ 0])
next
  case (2 n encs s)
  show ?case
  proof (cases "leading_space encs s")
    case None
    then show ?thesis by (simp add: exI [of _ 0])
  next
    case (Some e)
    with 2 show ?thesis by (auto simp: drop_drop)
  qed
qed

lemma leading_space_take: "leading_space encs s = None \<Longrightarrow> leading_space encs (take k s) = None"
proof -
  assume h: "leading_space encs s = None"
  have "has_prefix (take k s) e \<Longrightarrow> has_prefix s e" for e
    unfolding has_prefix_iff by (metis append.assoc append_take_drop_id)
  with h show ?thesis by (auto simp: leading_space_def find_None_iff)
qed

lemma trim_space_idem [simp]: "trim_space (trim_space s) = trim_space s"
proof -
  let ?r = "map rev space_encodings"
  define u where "u = trim_left space_encodings s"
  define w where "w = trim_left ?r (rev u)"
  have ne: "\<forall>e\<in>set space_encodings. e \<noteq> []" "\<forall>e\<in>set ?r. e \<noteq> []"
    using space_encodings_nonempty by auto
  have u: "leading_space space_encodings u = None"
    unfolding u_def trim_left_def using ne(1) by (simp add: trim_left_n_stop)
  have w: "leading_space ?r w = None"
    unfolding w_def trim_left_def using trim_left_n_stop [OF ne(2)] by simp
  obtain k where "w = drop k (rev u)"
    unfolding w_def trim_left_def using trim_left_suffix by blast
  then have "rev w = take (length u - k) u" by (simp add: rev_drop)
  then have "leading_space space_encodings (rev w) = None" using u leading_space_take by simp
  then have "trim_left space_encodings (rev w) = rev w" "trim_left ?r w = w"
    using w by (simp_all add: trim_left_id)
  moreover have "trim_space s = rev w" by (simp add: trim_space_def w_def u_def)
  ultimately show ?thesis by (simp add: trim_space_def)
qed

lemma IsListComment_trim [simp]: "IsListComment (trim_space e) = IsListComment e"
  by (simp add: IsListComment_def)

lemma ParseNetwork_trim [simp]: "ParseNetwork (trim_space e) = ParseNetwork e"
  by (simp add: ParseNetwork_def)

section \<open>The builders' address matches\<close>

lemma cidr_mask_is_full:
  assumes "n \<le> 8 * k" "0 < k"
  shows "cidr_mask n k = replicate k 0xff \<longleftrightarrow> n = 8 * k"
proof
  assume h: "cidr_mask n k = replicate k 0xff"
  show "n = 8 * k"
  proof (rule ccontr)
    assume "n \<noteq> 8 * k"
    with assms have "\<not> bit (cidr_mask n k ! (k - 1)) 0" by (intro cidr_mask_low_bit) auto
    with h assms show False by simp
  qed
qed (simp add: cidr_mask_full)

definition full_net :: "pfx \<Rightarrow> bool" where
  "full_net q \<longleftrightarrow> pbits q = BitLen (paddr q)"

lemma cidr_mask_full4: "cidr_mask 32 4 = replicate 4 0xff"
  using cidr_mask_full [of 4] by simp

lemma cidr_mask_full16: "cidr_mask 128 16 = replicate 16 0xff"
  using cidr_mask_full [of 16] by simp

lemma net_mask_full:
  "net_ok q \<Longrightarrow> cidr_mask (pbits q) (length (abytes (paddr q))) = replicate (length (abytes (paddr q))) 0xff
    \<longleftrightarrow> full_net q"
  unfolding net_ok_def full_net_def BitLen_def by (rule cidr_mask_is_full) auto

lemma net_ok_to:
  assumes "net_ok q"
  shows "to4 (abytes (paddr q)) = (if Is4 (paddr q) then Some (abytes (paddr q)) else None)"
    and "to16 (abytes (paddr q)) \<noteq> None"
    and "\<not> Is4 (paddr q) \<Longrightarrow> to16 (abytes (paddr q)) = Some (abytes (paddr q))"
  using assms by (auto simp: net_ok_def to4_def to16_def Is4_def)

lemma to4_four [simp]: "length b = 4 \<Longrightarrow> to4 b = Some b"
  by (simp add: to4_def)

lemma cidrMatchOp_net:
  "cidrMatchOp e pos cop = map_option (\<lambda>q. net_exprs q pos (\<not> full_net q) cop) (entry_network e)"
proof (cases "IsListComment e")
  case True
  then show ?thesis by (simp add: cidrMatchOp_def entry_network_def)
next
  case False
  show ?thesis
  proof (cases "ParseIP (trim_space e)")
    case (Some ip)
    note f = ParseIP_To [OF Some] host_network_ok [OF Some]
    let ?a = "Unmap (Addr ip [])"
    have n: "entry_network e = Some (Prefix ?a (BitLen ?a))"
      using False Some by (simp add: entry_network_def Let_def)
    show ?thesis
    proof (cases "Is4 ?a")
      case True
      then have "length (abytes ?a) = 4" by (simp add: Is4_def)
      with True f False Some n show ?thesis
        by (simp add: cidrMatchOp_def net_exprs_def addr_exprs_def fam_of_def at_pos_def full_net_def
            cidr_mask_full4)
    next
      case False4: False
      then have "length (abytes ?a) = 16 \<and> ?a = Addr ip []"
        using f by (auto simp: Unmap_def Is4In6_def Is6_def Is4_def)
      with False4 f False Some n show ?thesis
        by (simp add: cidrMatchOp_def net_exprs_def addr_exprs_def fam_of_def at_pos_def full_net_def
            cidr_mask_full16)
    qed
  next
    case None
    then have n: "entry_network e = ParseNetwork e" using False by (simp add: entry_network_def)
    show ?thesis
    proof (cases "ParseNetwork e")
      case q: (Some q)
      note ok = ParseNetwork_ok [OF q]
      have "length (abytes (paddr q)) = (if Is4 (paddr q) then 4 else 16)"
        using ok by (auto simp: net_ok_def Is4_def)
      with q None n False net_ok_to [OF ok] net_mask_full [OF ok] show ?thesis
        by (auto simp: cidrMatchOp_def net_exprs_def addr_exprs_def fam_of_def at_pos_def parseIPNet_def)
    qed (use None n False in \<open>simp add: cidrMatchOp_def parseIPNet_def\<close>)
  qed
qed

lemma ipv4SourceMatch_net:
  "ipv4SourceMatch e =
     (case entry_network e of
        None \<Rightarrow> None
      | Some q \<Rightarrow> if Is4 (paddr q) then Some (net_exprs q posSrcAddr True CmpEq) else None)"
proof (cases "IsListComment e")
  case True
  then show ?thesis by (simp add: ipv4SourceMatch_def entry_network_def)
next
  case False
  show ?thesis
  proof (cases "ParseIP (trim_space e)")
    case (Some ip)
    note f = ParseIP_To [OF Some]
    let ?a = "Unmap (Addr ip [])"
    have n: "entry_network e = Some (Prefix ?a (BitLen ?a))"
      using False Some by (simp add: entry_network_def Let_def)
    show ?thesis
    proof (cases "Is4 ?a")
      case True
      then have "length (abytes ?a) = 4" by (simp add: Is4_def)
      with True f False Some n show ?thesis
        by (simp add: ipv4SourceMatch_def net_exprs_def addr_exprs_def fam_of_def at_pos_def BitLen_def
            posSrcAddr_def numeral_eq_Suc)
    qed (use f False Some n in \<open>simp add: ipv4SourceMatch_def\<close>)
  next
    case None
    then have n: "entry_network e = ParseNetwork e" using False by (simp add: entry_network_def)
    show ?thesis
    proof (cases "ParseNetwork e")
      case q: (Some q)
      note ok = ParseNetwork_ok [OF q]
      show ?thesis
      proof (cases "Is4 (paddr q)")
        case True
        then have "length (abytes (paddr q)) = 4" by (simp add: Is4_def)
        with q None n False True net_ok_to [OF ok] show ?thesis
          by (simp add: ipv4SourceMatch_def net_exprs_def addr_exprs_def fam_of_def at_pos_def
              posSrcAddr_def parseIPNet_def numeral_eq_Suc)
      qed (use q None n False net_ok_to [OF ok] in \<open>simp add: ipv4SourceMatch_def parseIPNet_def\<close>)
    qed (use None n False in \<open>simp add: ipv4SourceMatch_def parseIPNet_def\<close>)
  qed
qed

text \<open>A validated list entry is a comment or names a network, and has no space around it.\<close>

lemma entry_ok_trim: "entry_ok e \<Longrightarrow> \<not> IsListComment e \<Longrightarrow> trim_space e = e"
  by (auto simp: entry_ok_def intro!: trim_space_plain dest: ParseIP_plain ParseCIDR_plain)

lemma v4_source_net:
  "length (abytes (paddr q)) = 4 \<Longrightarrow>
   v4_source_exprs (Some (cidr_mask (pbits q) 4)) (abytes (paddr q)) = net_exprs q posSrcAddr True CmpEq"
  "length (abytes (paddr q)) = 4 \<Longrightarrow>
   v4_source_exprs None (abytes (paddr q)) = net_exprs q posSrcAddr False CmpEq"
  by (simp_all add: v4_source_exprs_def net_exprs_def addr_exprs_def fam_of_def at_pos_def
      posSrcAddr_def numeral_eq_Suc)

lemma v6_source_net:
  "length (abytes (paddr q)) = 16 \<Longrightarrow>
   v6_source_exprs (Some (cidr_mask (pbits q) 16)) (abytes (paddr q)) = net_exprs q posSrcAddr True CmpEq"
  "length (abytes (paddr q)) = 16 \<Longrightarrow>
   v6_source_exprs None (abytes (paddr q)) = net_exprs q posSrcAddr False CmpEq"
  by (simp_all add: v6_source_exprs_def net_exprs_def addr_exprs_def fam_of_def at_pos_def posSrcAddr_def)

lemma cidrDropMatch_net:
  "cidrDropMatch e = map_option (\<lambda>q. net_exprs q posSrcAddr True CmpEq) (ParseNetwork e)"
proof (cases "ParseNetwork e")
  case (Some q)
  note ok = ParseNetwork_ok [OF Some]
  show ?thesis
  proof (cases "Is4 (paddr q)")
    case True
    then have "length (abytes (paddr q)) = 4" by (simp add: Is4_def)
    with Some True net_ok_to [OF ok] show ?thesis
      by (simp add: cidrDropMatch_def parseIPNet_def v4_source_net)
  next
    case False
    then have "length (abytes (paddr q)) = 16" using ok by (auto simp: Is4_def net_ok_def)
    with Some False net_ok_to [OF ok] show ?thesis
      by (simp add: cidrDropMatch_def parseIPNet_def v6_source_net nil_slice_def)
  qed
qed (simp add: cidrDropMatch_def parseIPNet_def)

lemma addCIDRAccept_net:
  "addCIDRAccept c e =
     (if IsListComment e then []
      else (case ParseNetwork e of
              None \<Rightarrow> []
            | Some q \<Rightarrow> [AddRule c (net_exprs q posSrcAddr True CmpEq @ [Verdict VAccept]) None]))"
proof -
  have "addCIDRAccept c e =
     (if IsListComment e then []
      else (case cidrDropMatch e of None \<Rightarrow> [] | Some es \<Rightarrow> [AddRule c (es @ [Verdict VAccept]) None]))"
    by (auto simp: addCIDRAccept_def cidrDropMatch_def parseIPNet_def split: option.splits)
  then show ?thesis by (simp add: cidrDropMatch_net split: option.splits)
qed

text \<open>A host network's match needs no mask; the networks of lists keep theirs.\<close>

definition list_exprs :: "string \<Rightarrow> pfx \<Rightarrow> expr list" where
  "list_exprs e q = net_exprs q posSrcAddr (ParseIP e = None) CmpEq"

lemma host_source_net:
  assumes "ParseIP e = Some ip"
  shows "(case to4 ip of Some ip4 \<Rightarrow> v4_source_exprs None ip4
          | None \<Rightarrow> v6_source_exprs None (nil_slice (to16 ip))) =
         net_exprs (Prefix (Unmap (Addr ip [])) (BitLen (Unmap (Addr ip [])))) posSrcAddr False CmpEq"
proof -
  note f = ParseIP_To [OF assms]
  let ?q = "Prefix (Unmap (Addr ip [])) (BitLen (Unmap (Addr ip [])))"
  show ?thesis
  proof (cases "Is4 (Unmap (Addr ip []))")
    case True
    then have "length (abytes (paddr ?q)) = 4" by (simp add: Is4_def)
    from v4_source_net(2) [OF this] True f show ?thesis by simp
  next
    case False
    then have u: "Unmap (Addr ip []) = Addr ip []"
      using f by (auto simp: Unmap_def Is4In6_def Is6_def Is4_def)
    then have "length (abytes (paddr ?q)) = 16" using f by simp
    from v6_source_net(2) [OF this] False f u show ?thesis by (simp add: nil_slice_def)
  qed
qed

lemma blocklist_match_net:
  assumes "entry_ok e" "\<not> IsListComment e"
  shows "blocklist_match e = map_option (list_exprs e) (entry_network e)"
proof (cases "ParseIP e")
  case (Some ip)
  with assms entry_ok_trim [OF assms] host_source_net [OF Some] show ?thesis
    by (simp add: blocklist_match_def entry_network_def list_exprs_def Let_def split: option.splits)
next
  case None
  with assms entry_ok_trim [OF assms] show ?thesis
    by (simp add: blocklist_match_def entry_network_def list_exprs_def [abs_def] cidrDropMatch_net)
qed

lemma addAllowlistRule_net:
  assumes "entry_ok e" "\<not> IsListComment e"
  shows "addAllowlistRule c e =
    (case entry_network e of None \<Rightarrow> [] | Some q \<Rightarrow> [AddRule c (list_exprs e q @ [Verdict VAccept]) None])"
proof (cases "ParseIP e")
  case (Some ip)
  have "addAllowlistRule c e =
    [AddRule c ((case to4 ip of Some ip4 \<Rightarrow> v4_source_exprs None ip4
          | None \<Rightarrow> v6_source_exprs None (nil_slice (to16 ip))) @ [Verdict VAccept]) None]"
    using assms Some by (simp add: addAllowlistRule_def split: option.splits)
  with assms Some entry_ok_trim [OF assms] host_source_net [OF Some] show ?thesis
    by (simp add: entry_network_def list_exprs_def Let_def)
next
  case None
  with assms entry_ok_trim [OF assms] show ?thesis
    by (cases "ParseNetwork e")
       (simp_all add: addAllowlistRule_def entry_network_def list_exprs_def addCIDRAccept_net)
qed

text \<open>No validated entry is lost: the network it names exists.\<close>

lemma entry_network_total: "entry_ok e \<Longrightarrow> \<not> IsListComment e \<Longrightarrow> entry_network e \<noteq> None"
  using entry_ok_trim [of e]
  by (auto simp: entry_ok_def entry_network_def ParseNetwork_def Let_def split: option.splits)

lemma selects_list_exprs:
  assumes "wf_packet p" "entry_ok e" "entry_network e = Some q"
  shows "selects ne m p (list_exprs e q) (Contains q (addr_at posSrcAddr p))"
proof -
  have c: "\<not> IsListComment e" using assms(3) by (auto simp: entry_network_def)
  note t = entry_ok_trim [OF assms(2) c]
  have "ParseIP e = None \<or> pbits q = BitLen (paddr q)"
    using assms(3) t c by (auto simp: entry_network_def Let_def split: option.splits)
  moreover have "pos_ok posSrcAddr" by (simp add: pos_ok_def posSrcAddr_def)
  ultimately show ?thesis
    unfolding list_exprs_def using selects_net_exprs(1) [OF assms(1) _ entry_network_ok [OF assms(3)]]
    by auto
qed

section \<open>Protocols, ports, flags and states\<close>

lemma selects_l4: "selects ne m p (l4_match proto) (pkProto p = proto)"
  by (auto simp: selects_def l4_match_def meta_of_def)

lemma selects_icmp:
  "selects ne m p
     [Meta L4PROTO 1, Cmp CmpEq 1 [proto], Payload 1 TransportHeader 0 1, Cmp CmpEq 1 [typ]]
     (icmp_type_is proto typ p)"
  by (cases "pkTrans p") (auto simp: selects_def icmp_type_is_def meta_of_def header_def)

lemma take1_drop: "n < length xs \<Longrightarrow> take (Suc 0) (drop n xs) = [xs ! n]"
  by (simp add: take_Suc_conv_app_nth)

lemma selects_tcp_flags: "selects ne m p (tcp_flags_match msk flags) (tcp_flags_are msk flags p)"
  unfolding selects_def tcp_flags_match_def tcp_flags_are_def
  by (auto simp: meta_of_def header_def xor_bytes_def and_bytes_def take1_drop)

context native_order
begin

lemma selects_ct:
  "mgNative mg = ne \<Longrightarrow> selects ne m p (ct_state_match mg bits) (ct_in bits p)"
  using ct_mask_test [of bits "pkCt p"]
  by (auto simp: selects_def ct_state_match_def ctStateMask_def ctStateNoMatch_def ct_in_def
      eval_nat_numeral)

lemma selects_fib:
  "selects ne m p [FibAddrType 1, Cmp CmpEq 1 (ne t)] (pkAddrType p = t)"
  using native_eq [of t "pkAddrType p"] by (auto simp: selects_def)

end

lemma two_bytes: "4 \<le> length t \<Longrightarrow> length (take 2 (drop 2 t)) = 2"
  by simp

lemma selects_matchPortEq:
  assumes "1 \<le> lo" "lo \<le> 65535"
  shows "selects ne m p (matchPortEq (word_of_int lo)) (4 \<le> length (pkTrans p) \<and> int (dst_port p) = lo)"
proof -
  have "uint (word_of_int lo :: 16 word) = lo"
    using assms by (simp add: uint_word_of_int)
  moreover have "take 2 (drop 2 (pkTrans p)) = portBytes lo \<longleftrightarrow> int (dst_port p) = lo"
    if "4 \<le> length (pkTrans p)"
    using be_nat_portBytes [OF assms] be_nat_inj [of "take 2 (drop 2 (pkTrans p))" "portBytes lo"] that assms
    by (auto simp: dst_port_def)
  ultimately show ?thesis
    by (auto simp: selects_def matchPortEq_def header_def)
qed

lemma selects_port_range:
  assumes "1 \<le> lo" "lo \<le> hi" "hi \<le> 65535"
  shows "selects ne m p
     [Payload 1 TransportHeader 2 2, Cmp CmpGte 1 (portBytes lo), Cmp CmpLte 1 (portBytes hi)]
     (4 \<le> length (pkTrans p) \<and> lo \<le> int (dst_port p) \<and> int (dst_port p) \<le> hi)"
  using be_nat_portBytes [of lo] be_nat_portBytes [of hi] assms
  by (auto simp: selects_def header_def dst_port_def nat_le_iff le_nat_iff)

lemma selects_port:
  assumes "port_interval port \<noteq> None"
  shows "selects ne m p (buildPortExprs port) (port_covers port p)"
proof -
  obtain a b ok where c: "cut_char (CHR '':'') port = (a, b, ok)" by (metis prod_cases3)
  obtain lo hi where i: "port_interval port = Some (lo, hi)" using assms by auto
  note bounds = port_interval_bounds [OF i]
  from i c have ports: "ParsePortNumber a = Inr lo" "ParsePortNumber (if ok then b else a) = Inr hi"
    by (auto simp: port_interval_def split: sum.splits if_splits)
  then have trim: "trim_space a = a" "ok \<Longrightarrow> trim_space b = b"
    by (auto intro!: trim_space_plain dest: ParsePortNumber_plain)
  show ?thesis
  proof (cases ok)
    case True
    with c ports trim bounds have "buildPortExprs port =
      [Payload 1 TransportHeader 2 2, Cmp CmpGte 1 (portBytes lo), Cmp CmpLte 1 (portBytes hi)]"
      by (simp add: buildPortExprs_def)
    moreover have "port_covers port p \<longleftrightarrow>
        4 \<le> length (pkTrans p) \<and> lo \<le> int (dst_port p) \<and> int (dst_port p) \<le> hi"
      using i by (simp add: port_covers_def)
    ultimately show ?thesis using selects_port_range [of lo hi ne m p] bounds by simp
  next
    case False
    then have "port = a" using cut_char_cases [OF c] by simp
    with c ports trim False have "buildPortExprs port = matchPortEq (word_of_int lo)" "hi = lo"
      by (auto simp: buildPortExprs_def parsePort_def)
    moreover have "port_covers port p \<longleftrightarrow> 4 \<le> length (pkTrans p) \<and> int (dst_port p) = lo"
      using i \<open>hi = lo\<close> by (auto simp: port_covers_def)
    ultimately show ?thesis using selects_matchPortEq [of lo ne m p] bounds by simp
  qed
qed

section \<open>Sources and sets\<close>

lemma addr_at_src: "addr_at posSrcAddr p = packet_src p"
  by (simp add: addr_at_def posSrcAddr_def packet_src_def)

lemma addr_at_dst: "addr_at posDstAddr p = packet_dst p"
  by (simp add: addr_at_def posDstAddr_def packet_dst_def)

lemma pos_ok_src: "pos_ok posSrcAddr" and pos_ok_dst: "pos_ok posDstAddr"
  by (simp_all add: pos_ok_def posSrcAddr_def posDstAddr_def)

lemma selects_family: "selects ne m p [Meta NFPROTO 1, Cmp CmpEq 1 [fam]] (pkFamily p = fam)"
  by (auto simp: selects_def meta_of_def)

definition family_key :: "addr_family \<Rightarrow> packet \<Rightarrow> bool" where
  "family_key f p \<longleftrightarrow> afOffset f + afKeyLen f \<le> length (pkNet p) \<and>
     take (afKeyLen f) (drop (afOffset f) (pkNet p)) = abytes (packet_src p)"

lemma family_key:
  "f \<in> set addrFamilies \<Longrightarrow> wf_packet p \<Longrightarrow> pkFamily p = afNfproto f \<Longrightarrow> family_key f p"
  by (auto simp: addrFamilies_def wf_packet_def family_key_def packet_src_def)

lemma selects_meter:
  assumes "f \<in> set addrFamilies" "wf_packet p" "selects ne m p es b"
  shows "selects ne m p
    ([Meta NFPROTO 1, Cmp CmpEq 1 [afNfproto f]] @ es @
     [Payload 1 NetworkHeader (afOffset f) (afKeyLen f), Dynset 1 n cop t xs])
    (pkFamily p = afNfproto f \<and> b \<and> overDynset m n (abytes (packet_src p)))"
proof (cases "pkFamily p = afNfproto f")
  case True
  have "selects ne m p [Payload 1 NetworkHeader (afOffset f) (afKeyLen f), Dynset 1 n cop t xs]
     (overDynset m n (abytes (packet_src p)))"
    using family_key [OF assms(1,2) True] by (auto simp: selects_def family_key_def header_def)
  from selects_append [OF selects_family selects_append [OF assms(3) this]] show ?thesis by simp
next
  case False
  then show ?thesis by (auto simp: selects_def meta_of_def)
qed

lemma selects_lookup:
  assumes "f \<in> set addrFamilies" "wf_packet p"
  shows "selects ne m p (srcAddrExprs f @ [Lookup 1 n])
    (pkFamily p = afNfproto f \<and> inSet m n (abytes (packet_src p)))"
proof (cases "pkFamily p = afNfproto f")
  case True
  with family_key [OF assms True] show ?thesis
    by (auto simp: selects_def srcAddrExprs_def family_key_def header_def meta_of_def)
qed (auto simp: selects_def srcAddrExprs_def meta_of_def)

lemma selects_log: "eval_exprs ne m p r (logExprs pfx n sink) = None"
  by (simp add: logExprs_def Let_def)

lemma selects_then_log:
  assumes "selects ne m p es b"
  shows "eval_exprs ne m p r (es @ logExprs pfx n sink) = None"
proof -
  obtain r' where "eval_exprs ne m p r (es @ logExprs pfx n sink) =
      (if b then eval_exprs ne m p r' (logExprs pfx n sink) else None)"
    using assms unfolding selects_def by blast
  then show ?thesis by (simp add: selects_log)
qed

end
