(* ===== verification/InputPolicy.thy ===== *)
theory InputPolicy
  imports Matches
begin

text \<open>
  What the input chain promises, as a decision list in the operator's terms: the first stage
  that has an opinion on a packet decides it, and the policy drops what no stage decided.  The
  expressions, registers and byte orders of the rules do not appear here;  \<open>InputChain\<close> proves
  that the rules the builders write decide every packet the same way.
\<close>

definition accept_if :: "bool \<Rightarrow> chain_result" where
  "accept_if b = (if b then Decided True else Through)"

definition drop_if :: "bool \<Rightarrow> chain_result" where
  "drop_if b = (if b then Decided False else Through)"

definition first_match :: "chain_result list \<Rightarrow> chain_result" where
  "first_match ds = foldr next_stage ds Through"

section \<open>Meters\<close>

definition family_rec :: "packet \<Rightarrow> addr_family" where
  "family_rec p = (if pkFamily p = familyIPv4 then addrFamilies ! 0 else addrFamilies ! 1)"

definition meter_set :: "string \<Rightarrow> int \<Rightarrow> addr_family \<Rightarrow> set_spec" where
  "meter_set name timeout f =
     \<lparr> stName = name @ ''-'' @ familySuffix f, stKeyLen = afKeyLen f, stInterval = False,
        stDynamic = True, stTimeout = timeout \<rparr>"

text \<open>The packet's source is over its rate, in a set the library created.\<close>

definition source_over :: "nft_manager \<Rightarrow> meters \<Rightarrow> (addr_family \<Rightarrow> set_spec) \<Rightarrow> packet \<Rightarrow> bool" where
  "source_over mg m st p \<longleftrightarrow>
     \<not> mgAddSetErr mg (st (family_rec p)) \<and>
     overDynset m (stName (st (family_rec p))) (abytes (packet_src p))"

definition echo_request :: "packet \<Rightarrow> bool" where
  "echo_request p \<longleftrightarrow>
     (if pkFamily p = familyIPv6 then icmp_type_is IPPROTO_ICMPV6 128 p
      else icmp_type_is IPPROTO_ICMP 8 p)"

section \<open>Stages\<close>

definition ipv6_stage :: "ipv6_config \<Rightarrow> packet \<Rightarrow> chain_result" where
  "ipv6_stage v6 p =
     (if v6Mode v6 = IPv6Passthrough then accept_if (pkFamily p = familyIPv6)
      else if v6Mode v6 = IPv6Block then drop_if (pkFamily p = familyIPv6)
      else Through)"

definition established :: "packet \<Rightarrow> bool" where
  "established p \<longleftrightarrow> ct_in (ctStateEstablished OR ctStateRelated) p"

definition discovery :: "ipv6_config \<Rightarrow> packet \<Rightarrow> bool" where
  "discovery v6 p \<longleftrightarrow> v6Mode v6 = IPv6Filter \<and>
     (\<exists>t\<in>set (ICMPv6Accepted False v6). icmp_type_is IPPROTO_ICMPV6 t p)"

definition scan_flags :: "packet \<Rightarrow> bool" where
  "scan_flags p \<longleftrightarrow> (\<exists>(flags, msk)\<in>set scanCombos. tcp_flags_are msk flags p)"

definition in_entries :: "string list \<Rightarrow> packet \<Rightarrow> bool" where
  "in_entries es p \<longleftrightarrow> (\<exists>e\<in>set es. entry_covers e (packet_src p))"

definition port_sourced :: "byte \<Rightarrow> port_rule \<Rightarrow> packet \<Rightarrow> bool" where
  "port_sourced proto r p \<longleftrightarrow>
     FiltersHost r \<and> in_entries (prSources r) p \<and> pkProto p = proto \<and> port_covers (prPort r) p"

definition bogon :: "rules \<Rightarrow> string list \<Rightarrow> packet \<Rightarrow> bool" where
  "bogon rs dockerCIDRs p \<longleftrightarrow>
     pkFamily p = familyIPv4 \<and> \<not> from_loopback p \<and> in_entries BogonRanges p \<and>
     \<not> in_entries (Allowlist rs) p \<and> \<not> in_entries dockerCIDRs p \<and>
     \<not> (\<exists>r\<in>set (TCP rs). port_sourced IPPROTO_TCP r p) \<and>
     \<not> (\<exists>r\<in>set (UDP rs). port_sourced IPPROTO_UDP r p)"

definition ssh_attempt :: "rules \<Rightarrow> packet \<Rightarrow> bool" where
  "ssh_attempt rs p \<longleftrightarrow>
     pkProto p = IPPROTO_TCP \<and> ct_in ctStateNew p \<and>
     (\<exists>port\<in>set (sshMeteredPorts rs). port_covers port p)"

text \<open>A container network names networks only, never single addresses.\<close>

definition in_networks :: "string list \<Rightarrow> packet \<Rightarrow> bool" where
  "in_networks cidrs p \<longleftrightarrow>
     (\<exists>c\<in>set cidrs. case network_of c of None \<Rightarrow> False | Some q \<Rightarrow> Contains q (packet_src p))"

definition in_feeds :: "meters \<Rightarrow> string list \<Rightarrow> packet \<Rightarrow> bool" where
  "in_feeds m ids p \<longleftrightarrow>
     (\<exists>fid\<in>set ids. inSet m (feedSetName fid (pkFamily p = familyIPv6)) (abytes (packet_src p)))"

definition echo_accepted :: "bool \<Rightarrow> ipv6_config \<Rightarrow> packet \<Rightarrow> bool" where
  "echo_accepted echo v6 p \<longleftrightarrow> echo \<and>
     (icmp_type_is IPPROTO_ICMP 8 p \<or> v6Mode v6 = IPv6Filter \<and> icmp_type_is IPPROTO_ICMPV6 128 p)"

text \<open>A port rule opens its ports to everyone, or to the sources it names; comments name none.\<close>

definition port_open :: "byte \<Rightarrow> port_rule \<Rightarrow> packet \<Rightarrow> bool" where
  "port_open proto r p \<longleftrightarrow>
     pkProto p = proto \<and> port_covers (prPort r) p \<and>
     (prSources r = [] \<or> in_entries (prSources r) p)"

definition ports_open :: "byte \<Rightarrow> port_rule list \<Rightarrow> packet \<Rightarrow> bool" where
  "ports_open proto rs p \<longleftrightarrow> (\<exists>r\<in>set rs. FiltersHost r \<and> port_open proto r p)"

section \<open>The policy\<close>

definition module_stages ::
  "nft_manager \<Rightarrow> meters \<Rightarrow> rules \<Rightarrow> firewall_options \<Rightarrow> string list \<Rightarrow> packet \<Rightarrow> chain_result list" where
  "module_stages mg m rs opts dockerCIDRs p =
     [drop_if (PortScan opts \<and> scan_flags p),
      drop_if (SYNFlood opts \<and> tcp_flags_are 0x17 0x02 p \<and> source_over mg m (meter_set ''synflood'' 60) p),
      drop_if (InvalidPackets opts \<and> ct_in ctStateInvalid p),
      drop_if (Bogons opts \<and> bogon rs dockerCIDRs p),
      drop_if (SSHBruteForce opts \<and> ssh_attempt rs p \<and> source_over mg m (meter_set ''sshbrute'' 600) p),
      drop_if (ConnectionLimit opts \<and> source_over mg m connlimit_set p),
      drop_if (DropBroadcast opts \<and> pkType p = pktTypeBroadcast),
      drop_if (DropMulticast opts \<and> pkType p = pktTypeMulticast),
      drop_if (DropAnycast opts \<and> pkAddrType p = RTN_ANYCAST)]"

definition input_policy ::
  "nft_manager \<Rightarrow> meters \<Rightarrow> rules \<Rightarrow> firewall_options \<Rightarrow> ipv6_config \<Rightarrow> string list \<Rightarrow> packet \<Rightarrow>
   chain_result" where
  "input_policy mg m rs opts v6 dockerCIDRs p =
     first_match
       ([accept_if (from_loopback p),
         ipv6_stage v6 p,
         drop_if (ICMPFlood opts \<and> echo_request p \<and> source_over mg m (meter_set ''icmpflood'' 60) p),
         drop_if (TCPRSTFlood opts \<and> tcp_flags_are 0x04 0x04 p \<and>
                  source_over mg m (meter_set ''tcprst'' 60) p),
         accept_if (established p),
         accept_if (discovery v6 p)] @
        module_stages mg m rs opts dockerCIDRs p @
        [accept_if (in_networks dockerCIDRs p),
         drop_if (in_entries (Blocklist rs) p),
         accept_if (in_entries (Allowlist rs) p),
         drop_if (in_feeds m (Feeds rs) p),
         accept_if (echo_accepted (ICMPAllowEchoRequest opts) v6 p),
         accept_if (ports_open IPPROTO_TCP (TCP rs) p),
         accept_if (ports_open IPPROTO_UDP (UDP rs) p)])"

definition lets_in :: "chain_result \<Rightarrow> bool" where
  "lets_in r = (case r of Decided v \<Rightarrow> v | _ \<Rightarrow> False)"

end
