(* ===== verification/InputStages.thy ===== *)
theory InputStages
  imports InputPolicy
begin

text \<open>
  Each builder of the input chain keeps a contract: it writes to the input chain and to chains
  of its own, and what it writes decides a packet as its stage of the policy says.  The contract
  is the locale \<open>input_stage\<close>; stages compose in the order they are written.
\<close>

named_theorems stage_simps \<open>rules the builders put into a chain\<close>

section \<open>Evaluating runs of rules\<close>

lemma eval_selected:
  assumes "selects ne m p es b"
  shows "eval_rules ne m p tbl n [(es @ [Verdict VAccept], tag)] = accept_if b"
    and "eval_rules ne m p tbl n [(es @ [Verdict VDrop], tag)] = drop_if b"
    and "eval_rules ne m p tbl n [(es @ [Verdict VReturn], tag)] = (if b then Returned else Through)"
    and "eval_rules ne m p tbl n [(es @ [Counter, Verdict VAccept], tag)] = accept_if b"
    and "eval_rules ne m p tbl n [(es @ [Counter, Verdict VDrop], tag)] = drop_if b"
    and "eval_rules ne m p tbl n [(es @ logExprs pfx k sink, tag)] = Through"
  using selects_verdict [OF assms] selects_then_log [OF assms]
    selects_verdict [OF selects_append [OF assms selects_Counter]]
  by (simp_all add: accept_if_def drop_if_def)

lemma eval_jump:
  assumes "selects ne m p es b"
  shows "eval_rules ne m p tbl (Suc n) [(es @ [Verdict (VJump c)], tag)] =
    (if b then (case eval_rules ne m p tbl n (tbl c) of Decided v \<Rightarrow> Decided v | _ \<Rightarrow> Through) else Through)"
  using selects_verdict [OF assms] by (simp split: chain_result.splits)

lemma eval_rules_Cons:
  "rs \<noteq> [] \<Longrightarrow> eval_rules ne m p tbl n (r # rs) =
   next_stage (eval_rules ne m p tbl n [r]) (eval_rules ne m p tbl n rs)"
  using eval_rules_append [of ne m p tbl n "[r]" rs] by simp

lemma drop_if_or [simp]: "next_stage (drop_if a) (drop_if b) = drop_if (a \<or> b)"
  by (simp add: drop_if_def)

lemma accept_if_or [simp]: "next_stage (accept_if a) (accept_if b) = accept_if (a \<or> b)"
  by (simp add: accept_if_def)

lemma undecided [simp]: "drop_if False = Through" "accept_if False = Through"
  by (simp_all add: drop_if_def accept_if_def)

lemma eval_drop_each:
  "(\<And>x. x \<in> set xs \<Longrightarrow> eval_rules ne m p tbl n (f x) = drop_if (P x)) \<Longrightarrow>
   eval_rules ne m p tbl n (concat (map f xs)) = drop_if (\<exists>x\<in>set xs. P x)"
  by (induction xs) (auto simp: eval_rules_append)

lemma eval_accept_each:
  "(\<And>x. x \<in> set xs \<Longrightarrow> eval_rules ne m p tbl n (f x) = accept_if (P x)) \<Longrightarrow>
   eval_rules ne m p tbl n (concat (map f xs)) = accept_if (\<exists>x\<in>set xs. P x)"
  by (induction xs) (auto simp: eval_rules_append)

lemma eval_return_each:
  "(\<And>x. x \<in> set xs \<Longrightarrow> eval_rules ne m p tbl n (f x) = (if P x then Returned else Through)) \<Longrightarrow>
   eval_rules ne m p tbl n (concat (map f xs)) = (if \<exists>x\<in>set xs. P x then Returned else Through)"
  by (induction xs) (auto simp: eval_rules_append)

section \<open>The contract\<close>

locale input_stage =
  fixes mg :: nft_manager and build :: "cmd list" and own :: "string list" and other :: "string list"
    and pre :: bool and decide :: "meters \<Rightarrow> packet \<Rightarrow> chain_result"
  assumes own_chains: "inputChainName \<notin> set own"
    and confined: "c \<noteq> inputChainName \<Longrightarrow> c \<notin> set own \<Longrightarrow> c \<notin> set other \<Longrightarrow> rules_of c build = []"
    and decides: "native_order (mgNative mg) \<Longrightarrow> pre \<Longrightarrow> wf_packet p \<Longrightarrow>
      (\<And>c. c \<in> set own \<Longrightarrow> tbl c = rules_of c build) \<Longrightarrow>
      eval_rules (mgNative mg) m p tbl (Suc (Suc n)) (rules_of inputChainName build) = decide m p"
begin

text \<open>A switch in front of a stage.\<close>

lemma switched:
  "input_stage mg (if b then build else []) own other pre (\<lambda>m p. if b then decide m p else Through)"
proof
  show "inputChainName \<notin> set own" by (rule own_chains)
next
  fix c
  assume "c \<noteq> inputChainName" "c \<notin> set own" "c \<notin> set other"
  then show "rules_of c (if b then build else []) = []" by (simp add: confined)
next
  fix p tbl m n
  assume "native_order (mgNative mg)" pre "wf_packet p"
    "\<And>c. c \<in> set own \<Longrightarrow> tbl c = rules_of c (if b then build else [])"
  then show "eval_rules (mgNative mg) m p tbl (Suc (Suc n))
      (rules_of inputChainName (if b then build else [])) = (if b then decide m p else Through)"
    by (cases b) (simp_all add: decides)
qed

text \<open>The verdict of the whole chain, whatever fuel is left over.\<close>

lemma accepts_iff:
  assumes "native_order (mgNative mg)" pre "wf_packet p" "\<not> base_policy inputChainName build"
  shows "chain_accepts (mgNative mg) m p build inputChainName = lets_in (decide m p)"
  using decides [OF assms(1-3), of "\<lambda>d. rules_of d build" m 0] assms(4)
  by (simp add: chain_accepts_def lets_in_def numeral_2_eq_2 split: chain_result.splits)

end

lemma stage_append:
  assumes a: "input_stage mg b1 own1 other1 pre1 d1" and b: "input_stage mg b2 own2 other2 pre2 d2"
    and apart: "set own1 \<inter> set (own2 @ other2) = {}" "set own2 \<inter> set (own1 @ other1) = {}"
  shows "input_stage mg (b1 @ b2) (own1 @ own2) (other1 @ other2) (pre1 \<and> pre2)
    (\<lambda>m p. next_stage (d1 m p) (d2 m p))"
proof
  show "inputChainName \<notin> set (own1 @ own2)"
    using input_stage.own_chains [OF a] input_stage.own_chains [OF b] by simp
next
  fix c
  assume "c \<noteq> inputChainName" "c \<notin> set (own1 @ own2)" "c \<notin> set (other1 @ other2)"
  then show "rules_of c (b1 @ b2) = []"
    using input_stage.confined [OF a] input_stage.confined [OF b] by simp
next
  fix p tbl m n
  assume h: "native_order (mgNative mg)" "pre1 \<and> pre2" "wf_packet p"
    and t: "\<And>c. c \<in> set (own1 @ own2) \<Longrightarrow> tbl c = rules_of c (b1 @ b2)"
  have "tbl c = rules_of c b1" if "c \<in> set own1" for c
    using t [of c] that input_stage.confined [OF b, of c] input_stage.own_chains [OF a] apart by auto
  moreover have "tbl c = rules_of c b2" if "c \<in> set own2" for c
    using t [of c] that input_stage.confined [OF a, of c] input_stage.own_chains [OF b] apart by auto
  ultimately show "eval_rules (mgNative mg) m p tbl (Suc (Suc n)) (rules_of inputChainName (b1 @ b2)) =
      next_stage (d1 m p) (d2 m p)"
    using h by (simp add: eval_rules_append input_stage.decides [OF a] input_stage.decides [OF b])
qed

section \<open>Stages of one rule\<close>

lemma lo_name_length [simp]: "length lo_name = 3"
  by (simp add: lo_name_def)

interpretation loopback: input_stage mg "addLoopbackAccept inputChainName" "[]" "[]" True
  "\<lambda>m p. accept_if (from_loopback p)" for mg
  by unfold_locales
     (auto simp: addLoopbackAccept_def from_loopback_def accept_if_def meta_of_def)

lemma eval_family_verdict:
  "eval_rules ne m p tbl n (rules_of c (addFamilyVerdict c fam VAccept)) = accept_if (pkFamily p = fam)"
  "eval_rules ne m p tbl n (rules_of c (addFamilyVerdict c fam VDrop)) = drop_if (pkFamily p = fam)"
  by (auto simp: addFamilyVerdict_def accept_if_def drop_if_def meta_of_def)

interpretation ipv6: input_stage mg "ipv6_disposition v6" "[]" "[]" True "\<lambda>m p. ipv6_stage v6 p" for mg v6
  by unfold_locales (auto simp: ipv6_disposition_def ipv6_stage_def eval_family_verdict, auto simp: addFamilyVerdict_def)

lemma eval_established:
  assumes "native_order (mgNative mg)"
  shows "eval_rules (mgNative mg) m p tbl n (rules_of c (addEstablishedAccept mg c)) =
    accept_if (established p)"
  using eval_selected(4) [OF native_order.selects_ct [OF assms refl,
        where bits = "ctStateEstablished OR ctStateRelated"]]
  by (simp add: addEstablishedAccept_def ct_state_match_def established_def)

interpretation established: input_stage mg "addEstablishedAccept mg inputChainName" "[]" "[]" True
  "\<lambda>m p. accept_if (established p)" for mg
  by unfold_locales (simp_all add: eval_established, simp add: addEstablishedAccept_def)

lemma eval_icmp_type:
  "eval_rules ne m p tbl n (rules_of c (addICMPTypeAccept c proto t)) = accept_if (icmp_type_is proto t p)"
  using eval_selected(1) [OF selects_icmp, of ne m p tbl n proto t] by (simp add: addICMPTypeAccept_def)

lemma eval_icmp_types:
  "eval_rules ne m p tbl n (rules_of c (concat (map (addICMPTypeAccept c proto) ts))) =
   accept_if (\<exists>t\<in>set ts. icmp_type_is proto t p)"
  unfolding rules_of_concat map_map o_def
  by (rule eval_accept_each) (rule eval_icmp_type)

lemma icmp_type_confined: "d \<noteq> c \<Longrightarrow> rules_of d (addICMPTypeAccept c proto t) = []"
  by (simp add: addICMPTypeAccept_def)

lemma icmp_types_confined:
  "d \<noteq> c \<Longrightarrow> rules_of d (concat (map (addICMPTypeAccept c proto) ts)) = []"
  by (simp add: rules_of_concat addICMPTypeAccept_def)

interpretation discovery: input_stage mg "addICMPRules inputChainName v6" "[]" "[]" True
  "\<lambda>m p. accept_if (discovery v6 p)" for mg v6
  by unfold_locales (auto simp: addICMPRules_def discovery_def eval_icmp_types icmp_types_confined)

interpretation echo: input_stage mg "addEchoAccepts inputChainName b v6" "[]" "[]" True
  "\<lambda>m p. accept_if (echo_accepted b v6 p)" for mg b v6
  by (unfold_locales; cases b)
     (auto simp: addEchoAccepts_def echo_accepted_def eval_rules_append eval_icmp_types
       icmp_type_confined eval_icmp_type ICMPv4Accepted_def ICMPv6Accepted_def zero_network_def)

interpretation broadcast: input_stage mg "addBroadcastDrop inputChainName" "[]" "[]" True
  "\<lambda>m p. drop_if (pkType p = pktTypeBroadcast)" for mg
  by unfold_locales (auto simp: addBroadcastDrop_def drop_if_def meta_of_def)

interpretation multicast: input_stage mg "addMulticastDrop inputChainName" "[]" "[]" True
  "\<lambda>m p. drop_if (pkType p = pktTypeMulticast)" for mg
  by unfold_locales (auto simp: addMulticastDrop_def drop_if_def meta_of_def)

lemma eval_anycast:
  assumes "native_order (mgNative mg)"
  shows "eval_rules (mgNative mg) m p tbl n (rules_of c (addAnycastDrop mg c)) =
    drop_if (pkAddrType p = RTN_ANYCAST)"
  using eval_selected(2) [OF native_order.selects_fib [OF assms, where t = RTN_ANYCAST]]
  by (simp add: addAnycastDrop_def)

interpretation anycast: input_stage mg "addAnycastDrop mg inputChainName" "[]" "[]" True
  "\<lambda>m p. drop_if (pkAddrType p = RTN_ANYCAST)" for mg
  by unfold_locales (simp_all add: eval_anycast, simp add: addAnycastDrop_def)

lemma eval_filtered:
  assumes "selects (mgNative mg) m p es b"
  shows "eval_rules (mgNative mg) m p tbl n (rules_of c (addLogged mg c es lg tag [Verdict VDrop])) = drop_if b"
    and "eval_rules (mgNative mg) m p tbl n (rules_of c (addLogged mg c es lg tag [Counter, Verdict VDrop])) =
      drop_if b"
  using eval_selected [OF assms] eval_rules_append
    [of "mgNative mg" m p tbl n "[(es @ logExprs (lgPrefix lg) (lgPerMinute lg) (mgSink mg), None)]"]
  by (cases "lgEnabled lg"; simp add: addLogged_def)+

lemma logged_confined [simp]: "d \<noteq> c \<Longrightarrow> rules_of d (addLogged mg c es lg tag act) = []"
  by (simp add: addLogged_def)

interpretation invalid: input_stage mg "addInvalidPacketDrop mg inputChainName opts" "[]" "[]" True
  "\<lambda>m p. drop_if (ct_in ctStateInvalid p)" for mg opts
  by unfold_locales
     (simp_all add: addInvalidPacketDrop_def addFiltered_def eval_filtered native_order.selects_ct)

section \<open>Stages that meter a source\<close>

lemma family_rec_in: "wf_packet p \<Longrightarrow> family_rec p \<in> set addrFamilies"
  by (simp add: family_rec_def addrFamilies_def)

lemma family_rec_iff:
  "wf_packet p \<Longrightarrow> f \<in> set addrFamilies \<Longrightarrow> pkFamily p = afNfproto f \<longleftrightarrow> f = family_rec p"
  by (auto simp: family_rec_def addrFamilies_def wf_packet_def)

lemma per_source_set_meter:
  "per_source_set r = meter_set (psSetPrefix r) (psTimeout r)"
  by (rule ext) (simp add: per_source_set_def meter_set_def)

lemma eval_metered:
  assumes wf: "wf_packet p" and sel: "\<And>f. f \<in> set addrFamilies \<Longrightarrow> selects (mgNative mg) m p (match f) (b f)"
    and over: "eval_rules (mgNative mg) m p tbl n (tbl target) = Decided False"
  shows "eval_rules (mgNative mg) m p tbl (Suc n)
      (rules_of c (addPerSourceRateLimit mg c match r target)) =
    drop_if (b (family_rec p) \<and> source_over mg m (meter_set (psSetPrefix r) (psTimeout r)) p)"
proof -
  let ?st = "per_source_set r"
  let ?cmds = "\<lambda>f. if mgAddSetErr mg (?st f) then []
       else [AddSet (?st f),
             AddRule c
               ([Meta NFPROTO 1, Cmp CmpEq 1 [afNfproto f]] @ match f @
                [Payload 1 NetworkHeader (afOffset f) (afKeyLen f),
                 Dynset 1 (stName (?st f)) DynsetUpdate (psTimeout r)
                   [Limit (psRate r) True (psUnit r) (psBurst r)],
                 Verdict (VJump target)]) None]"
  have each: "eval_rules (mgNative mg) m p tbl (Suc n) (rules_of c (?cmds f)) =
    drop_if (f = family_rec p \<and> b f \<and> \<not> mgAddSetErr mg (?st f) \<and>
             overDynset m (stName (?st f)) (abytes (packet_src p)))"
    if f: "f \<in> set addrFamilies" for f
  proof (cases "mgAddSetErr mg (?st f)")
    case False
    then have "rules_of c (?cmds f) =
      [(([Meta NFPROTO 1, Cmp CmpEq 1 [afNfproto f]] @ match f @
         [Payload 1 NetworkHeader (afOffset f) (afKeyLen f),
          Dynset 1 (stName (?st f)) DynsetUpdate (psTimeout r)
            [Limit (psRate r) True (psUnit r) (psBurst r)]]) @ [Verdict (VJump target)], None)]"
      by simp
    then show ?thesis
      using eval_jump [OF selects_meter [OF f wf sel [OF f]]] over family_rec_iff [OF wf f] False
      by (simp only: if_False) (auto simp: drop_if_def)
  qed simp
  have "eval_rules (mgNative mg) m p tbl (Suc n)
      (rules_of c (addPerSourceRateLimit mg c match r target)) =
    drop_if (\<exists>f\<in>set addrFamilies. f = family_rec p \<and> b f \<and> \<not> mgAddSetErr mg (?st f) \<and>
             overDynset m (stName (?st f)) (abytes (packet_src p)))"
    unfolding addPerSourceRateLimit_def rules_of_concat map_map o_def
    by (rule eval_drop_each) (rule each)
  also have "\<dots> = drop_if (b (family_rec p) \<and> source_over mg m ?st p)"
    using family_rec_in [OF wf] by (auto simp: source_over_def intro: arg_cong [of _ _ drop_if])
  finally show ?thesis by (simp add: per_source_set_meter)
qed

lemma metered_confined:
  "d \<noteq> c \<Longrightarrow> rules_of d (addPerSourceRateLimit mg c match r target) = []"
  by (auto simp: addPerSourceRateLimit_def rules_of_concat)

lemma over_rate_confined: "d \<noteq> name \<Longrightarrow> rules_of d (addOverRateChain mg name lg) = []"
  by (simp add: addOverRateChain_def)

lemma eval_over_rate:
  "eval_rules ne m p tbl n (rules_of name (addOverRateChain mg name lg)) = Decided False"
  by (simp add: addOverRateChain_def selects_log)

text \<open>A meter module: the over-rate chain, then the metering rules in the input chain.\<close>

lemma meter_stage:
  assumes sel: "\<And>m p f. f \<in> set addrFamilies \<Longrightarrow> selects (mgNative mg) m p (match f) (b f p)"
    and name: "inputChainName \<noteq> over"
  shows "input_stage mg
    (addOverRateChain mg over lg @ addPerSourceRateLimit mg inputChainName match r over) [over] [] True
    (\<lambda>m p. drop_if (b (family_rec p) p \<and> source_over mg m (meter_set (psSetPrefix r) (psTimeout r)) p))"
proof
  fix p tbl m n
  assume wf: "wf_packet p" and t: "\<And>c. c \<in> set [over] \<Longrightarrow> tbl c = rules_of c
      (addOverRateChain mg over lg @ addPerSourceRateLimit mg inputChainName match r over)"
  have "tbl over = rules_of over (addOverRateChain mg over lg)"
    using t name by (simp add: metered_confined)
  then have over: "eval_rules (mgNative mg) m p tbl (Suc n) (tbl over) = Decided False"
    by (simp add: eval_over_rate)
  show "eval_rules (mgNative mg) m p tbl (Suc (Suc n)) (rules_of inputChainName
      (addOverRateChain mg over lg @ addPerSourceRateLimit mg inputChainName match r over)) =
    drop_if (b (family_rec p) p \<and> source_over mg m (meter_set (psSetPrefix r) (psTimeout r)) p)"
    using eval_metered [OF wf sel over] name by (simp add: over_rate_confined)
qed (use name in \<open>simp_all add: metered_confined over_rate_confined\<close>)

lemma echo_request_family:
  "f \<in> set addrFamilies \<Longrightarrow> selects ne m p (echo_request_match f)
     (if afNfproto f = familyIPv6 then icmp_type_is IPPROTO_ICMPV6 128 p else icmp_type_is IPPROTO_ICMP 8 p)"
  using selects_icmp [of ne m p IPPROTO_ICMPV6 128] selects_icmp [of ne m p IPPROTO_ICMP 8]
  by (simp add: echo_request_match_def)

lemma echo_request_rec:
  "wf_packet p \<Longrightarrow>
   (if afNfproto (family_rec p) = familyIPv6 then icmp_type_is IPPROTO_ICMPV6 128 p
    else icmp_type_is IPPROTO_ICMP 8 p) = echo_request p"
  by (auto simp: echo_request_def family_rec_def addrFamilies_def wf_packet_def)

text \<open>Stages agree on the packets the kernel can hand over.\<close>

lemma stage_cong:
  assumes "input_stage mg build own other pre d" "\<And>m p. wf_packet p \<Longrightarrow> d m p = d' m p"
  shows "input_stage mg build own other pre d'"
  using assms(1) by (auto simp: input_stage_def assms(2))

lemma over_names: "inputChainName \<noteq> ''synflood-over''" "inputChainName \<noteq> ''icmpflood-over''"
  "inputChainName \<noteq> ''tcprst-over''" "inputChainName \<noteq> ''sshbrute-over''" "inputChainName \<noteq> ''sshbrute''"
  "inputChainName \<noteq> ''portscan''" "inputChainName \<noteq> ''bogon''" "inputChainName \<noteq> ''prerouting''"
  "inputChainName \<noteq> forwardListsChainName" "inputChainName \<noteq> forwardChainName"
  "inputChainName \<noteq> fragmentChainName"
  by (simp_all add: inputChainName_def forwardListsChainName_def forwardChainName_def fragmentChainName_def)

interpretation synflood: input_stage mg "addSYNFloodProtection mg inputChainName opts" "[''synflood-over'']" "[]"
  True "\<lambda>m p. drop_if (tcp_flags_are 0x17 0x02 p \<and> source_over mg m (meter_set ''synflood'' 60) p)"
  for mg opts
  unfolding addSYNFloodProtection_def Let_def
  by (rule stage_cong, rule meter_stage, rule selects_tcp_flags, rule over_names) simp

interpretation tcprst: input_stage mg "addTCPRSTFlood mg inputChainName opts" "[''tcprst-over'']" "[]"
  True "\<lambda>m p. drop_if (tcp_flags_are 0x04 0x04 p \<and> source_over mg m (meter_set ''tcprst'' 60) p)"
  for mg opts
  unfolding addTCPRSTFlood_def Let_def
  by (rule stage_cong, rule meter_stage, rule selects_tcp_flags, rule over_names) simp

interpretation icmpflood: input_stage mg "addICMPFloodProtection mg inputChainName opts" "[''icmpflood-over'']" "[]"
  True "\<lambda>m p. drop_if (echo_request p \<and> source_over mg m (meter_set ''icmpflood'' 60) p)"
  for mg opts
  unfolding addICMPFloodProtection_def Let_def
  by (rule stage_cong, rule meter_stage, erule echo_request_family, rule over_names)
     (simp add: echo_request_rec)

lemma eval_scan:
  "eval_rules ne m p tbl (Suc n) (rules_of c (map (\<lambda>(flags, msk).
      AddRule c (tcp_flags_match msk flags @ [Verdict (VJump d)]) None) xs)) =
    drop_if (\<exists>(flags, msk)\<in>set xs. tcp_flags_are msk flags p)"
  if "eval_rules ne m p tbl n (tbl d) = Decided False"
proof (induction xs)
  case (Cons x xs)
  obtain flags msk where x: "x = (flags, msk)" by fastforce
  have "rules_of c (map (\<lambda>(flags, msk). AddRule c (tcp_flags_match msk flags @ [Verdict (VJump d)]) None) (x # xs)) =
    [(tcp_flags_match msk flags @ [Verdict (VJump d)], None)] @ rules_of c (map (\<lambda>(flags, msk).
      AddRule c (tcp_flags_match msk flags @ [Verdict (VJump d)]) None) xs)"
    by (simp add: x)
  then show ?case
    using Cons that eval_jump [OF selects_tcp_flags [of ne m p msk flags], of tbl n d None]
    by (simp only: eval_rules_append) (auto simp: x drop_if_def)
qed simp

lemma scan_rules_confined:
  "d \<noteq> c \<Longrightarrow> rules_of d (map (\<lambda>(flags, msk). AddRule c (g flags msk) None) xs) = []"
  by (induction xs) auto

interpretation portscan: input_stage mg "addPortScanPrevention mg inputChainName opts" "[''portscan'']" "[]"
  True "\<lambda>m p. drop_if (scan_flags p)" for mg opts
proof
  fix p tbl m n
  assume t: "\<And>c. c \<in> set [''portscan''] \<Longrightarrow> tbl c = rules_of c (addPortScanPrevention mg inputChainName opts)"
  have "eval_rules (mgNative mg) m p tbl (Suc n) (tbl ''portscan'') = Decided False"
    using t over_names(6) by (simp add: addPortScanPrevention_def scan_rules_confined selects_log)
  from eval_scan [OF this] show "eval_rules (mgNative mg) m p tbl (Suc (Suc n))
      (rules_of inputChainName (addPortScanPrevention mg inputChainName opts)) = drop_if (scan_flags p)"
    using over_names(6) by (simp add: addPortScanPrevention_def scan_flags_def del: eval_rules.simps)
qed (use over_names(6) in \<open>simp_all add: addPortScanPrevention_def scan_rules_confined\<close>)

section \<open>Connection limit and SSH\<close>

lemma eval_connlimit:
  assumes wf: "wf_packet p"
  shows "eval_rules (mgNative mg) m p tbl n (rules_of c (addConnectionLimit mg c opts)) =
    drop_if (source_over mg m connlimit_set p)"
proof -
  define lim where "lim = (if ConnectionLimitMax opts \<le> 0 then 100 else ConnectionLimitMax opts)"
  let ?cmds = "\<lambda>f. if mgAddSetErr mg (connlimit_set f) then []
        else [AddSet (connlimit_set f),
              AddRule c
                (srcAddrExprs f @
                 [Dynset 1 (stName (connlimit_set f)) DynsetAdd 0
                    [Connlimit (word_of_int lim) nftConnlimitInvert],
                  Verdict VDrop]) None]"
  have each: "eval_rules (mgNative mg) m p tbl n (rules_of c (?cmds f)) =
    drop_if (f = family_rec p \<and> \<not> mgAddSetErr mg (connlimit_set f) \<and>
             overDynset m (stName (connlimit_set f)) (abytes (packet_src p)))"
    if f: "f \<in> set addrFamilies" for f
  proof (cases "mgAddSetErr mg (connlimit_set f)")
    case False
    then have "rules_of c (?cmds f) =
      [(([Meta NFPROTO 1, Cmp CmpEq 1 [afNfproto f]] @ [] @
         [Payload 1 NetworkHeader (afOffset f) (afKeyLen f),
          Dynset 1 (stName (connlimit_set f)) DynsetAdd 0
                    [Connlimit (word_of_int lim) nftConnlimitInvert]]) @ [Verdict VDrop], None)]"
      by (simp add: srcAddrExprs_def)
    then show ?thesis
      using eval_selected(2) [OF selects_meter [OF f wf selects_Nil]] family_rec_iff [OF wf f] False
      by (simp only:) (auto simp: drop_if_def)
  qed simp
  have "eval_rules (mgNative mg) m p tbl n (rules_of c (addConnectionLimit mg c opts)) =
    drop_if (\<exists>f\<in>set addrFamilies. f = family_rec p \<and> \<not> mgAddSetErr mg (connlimit_set f) \<and>
             overDynset m (stName (connlimit_set f)) (abytes (packet_src p)))"
    unfolding addConnectionLimit_def rules_of_concat map_map o_def Let_def lim_def [symmetric]
    by (rule eval_drop_each) (rule each)
  then show ?thesis
    using family_rec_in [OF wf] by (auto simp: source_over_def intro: arg_cong [of _ _ drop_if])
qed

interpretation connlimit: input_stage mg "addConnectionLimit mg inputChainName opts" "[]" "[]" True
  "\<lambda>m p. drop_if (source_over mg m connlimit_set p)" for mg opts
  by unfold_locales
     (simp_all add: eval_connlimit, auto simp: addConnectionLimit_def rules_of_concat Let_def)

lemma eval_ssh_chain:
  assumes wf: "wf_packet p" and over: "eval_rules (mgNative mg) m p tbl n (tbl target) = Decided False"
  shows "(case eval_rules (mgNative mg) m p tbl (Suc n)
      (rules_of c (addPerSourceRateLimit mg c (\<lambda>_. []) r target @ [AddRule c [Verdict VReturn] None])) of
      Decided v \<Rightarrow> Decided v | _ \<Rightarrow> Through) =
    drop_if (source_over mg m (meter_set (psSetPrefix r) (psTimeout r)) p)"
  using eval_metered [OF wf, of mg m "\<lambda>_. []" "\<lambda>_. True" tbl n target c r] over
  by (auto simp: eval_rules_append selects_Nil drop_if_def split: chain_result.splits)

lemma eval_ssh_jumps:
  assumes nat: "native_order (mgNative mg)"
    and ports: "\<forall>port\<in>set ports. port_interval port \<noteq> None"
    and chain: "(case eval_rules (mgNative mg) m p tbl n (tbl d) of Decided v \<Rightarrow> Decided v | _ \<Rightarrow> Through) =
      drop_if over"
  shows "eval_rules (mgNative mg) m p tbl (Suc n) (rules_of c (map (\<lambda>port. AddRule c
             (l4_match IPPROTO_TCP @ buildPortExprs port @ ct_state_match mg ctStateNew @
              [Verdict (VJump d)]) None) ports)) =
    drop_if (pkProto p = IPPROTO_TCP \<and> ct_in ctStateNew p \<and> (\<exists>port\<in>set ports. port_covers port p) \<and> over)"
  using ports
proof (induction ports)
  case (Cons port ports)
  let ?f = "\<lambda>port. AddRule c (l4_match IPPROTO_TCP @ buildPortExprs port @ ct_state_match mg ctStateNew @
              [Verdict (VJump d)]) None"
  have sel: "selects (mgNative mg) m p (l4_match IPPROTO_TCP @ buildPortExprs port @ ct_state_match mg ctStateNew)
      (pkProto p = IPPROTO_TCP \<and> port_covers port p \<and> ct_in ctStateNew p)"
    using Cons(2) by (intro selects_append selects_l4 selects_port native_order.selects_ct [OF nat refl]) simp
  have "rules_of c (map ?f (port # ports)) =
    [((l4_match IPPROTO_TCP @ buildPortExprs port @ ct_state_match mg ctStateNew) @ [Verdict (VJump d)], None)] @
     rules_of c (map ?f ports)" by simp
  then show ?case
    using Cons chain eval_jump [OF sel, of tbl n d None]
    by (simp only: eval_rules_append) (auto simp: drop_if_def)
qed simp

lemma ssh_ports_valid:
  "list_all port_rule_ok (TCP rs) \<Longrightarrow> port \<in> set (sshMeteredPorts rs) \<Longrightarrow> port_interval port \<noteq> None"
proof -
  have "port_interval ''22'' = Some (22, 22)" by code_simp
  then show "list_all port_rule_ok (TCP rs) \<Longrightarrow> port \<in> set (sshMeteredPorts rs) \<Longrightarrow> ?thesis"
    by (auto simp: sshMeteredPorts_def Let_def list_all_iff port_rule_ok_def split: if_splits)
qed

lemma map_rules_confined: "d \<noteq> c \<Longrightarrow> rules_of d (map (\<lambda>x. AddRule c (g x) None) xs) = []"
  by (induction xs) auto

interpretation sshbrute: input_stage mg "addSSHBruteForce mg inputChainName rs opts"
  "[''sshbrute'', ''sshbrute-over'']" "[]" "list_all port_rule_ok (TCP rs)"
  "\<lambda>m p. drop_if (ssh_attempt rs p \<and> source_over mg m (meter_set ''sshbrute'' 600) p)" for mg rs opts
proof
  fix p tbl m n
  assume nat: "native_order (mgNative mg)" and ok: "list_all port_rule_ok (TCP rs)" and wf: "wf_packet p"
    and t: "\<And>c. c \<in> set [''sshbrute'', ''sshbrute-over''] \<Longrightarrow>
      tbl c = rules_of c (addSSHBruteForce mg inputChainName rs opts)"
  define r where "r = (let limit = (if SSHBruteForceConnectionLimit opts \<le> 0 then 5
                   else SSHBruteForceConnectionLimit opts) in
     \<lparr> psSetPrefix = ''sshbrute'', psRate = word_of_int limit, psUnit = PerMinute,
           psBurst = word_of_int limit, psTimeout = 600 \<rparr>)"
  have over: "eval_rules (mgNative mg) m p tbl n (tbl ''sshbrute-over'') = Decided False"
    using t over_names by (simp add: addSSHBruteForce_def Let_def map_rules_confined metered_confined
        eval_over_rate del: eval_rules.simps)
  have "tbl ''sshbrute'' = rules_of ''sshbrute''
      (addPerSourceRateLimit mg ''sshbrute'' (\<lambda>_. []) r ''sshbrute-over'' @ [AddRule ''sshbrute'' [Verdict VReturn] None])"
    using t over_names by (simp add: addSSHBruteForce_def Let_def map_rules_confined over_rate_confined r_def)
  from eval_ssh_chain [OF wf over, of "''sshbrute''" r, folded this]
  have chain: "(case eval_rules (mgNative mg) m p tbl (Suc n) (tbl ''sshbrute'') of
      Decided v \<Rightarrow> Decided v | _ \<Rightarrow> Through) = drop_if (source_over mg m (meter_set ''sshbrute'' 600) p)"
    by (simp add: r_def Let_def)
  have input: "rules_of inputChainName (addSSHBruteForce mg inputChainName rs opts) =
      rules_of inputChainName (map (\<lambda>port. AddRule inputChainName
             (l4_match IPPROTO_TCP @ buildPortExprs port @ ct_state_match mg ctStateNew @
              [Verdict (VJump ''sshbrute'')]) None) (sshMeteredPorts rs))"
    using over_names by (simp add: addSSHBruteForce_def Let_def over_rate_confined metered_confined)
  have ports: "\<forall>port\<in>set (sshMeteredPorts rs). port_interval port \<noteq> None"
    using ssh_ports_valid [OF ok] by blast
  show "eval_rules (mgNative mg) m p tbl (Suc (Suc n))
      (rules_of inputChainName (addSSHBruteForce mg inputChainName rs opts)) =
    drop_if (ssh_attempt rs p \<and> source_over mg m (meter_set ''sshbrute'' 600) p)"
    unfolding input eval_ssh_jumps [OF nat ports chain] ssh_attempt_def by (simp add: conj_assoc)
qed (use over_names in \<open>auto simp: addSSHBruteForce_def Let_def over_rate_confined metered_confined map_rules_confined\<close>)

section \<open>Lists, networks, ports and feeds\<close>

lemma entry_covers_network: "entry_network e = Some q \<Longrightarrow> entry_covers e a = Contains q a"
  by (simp add: entry_covers_def)

lemma entry_covers_None: "entry_network e = None \<Longrightarrow> \<not> entry_covers e a"
  by (simp add: entry_covers_def)

lemma eval_blocklist:
  assumes "wf_packet p" "entry_ok e"
  shows "eval_rules (mgNative mg) m p tbl n (rules_of c (addBlocklistRule mg c opts e)) =
    drop_if (entry_covers e (packet_src p))"
proof (cases "IsListComment e")
  case True
  then show ?thesis by (simp add: addBlocklistRule_def entry_covers_def entry_network_def)
next
  case False
  then obtain q where q: "entry_network e = Some q"
    using entry_network_total [OF assms(2)] by auto
  with False blocklist_match_net [OF assms(2) False] eval_filtered(1) [OF selects_list_exprs [OF assms q]]
  show ?thesis by (simp add: addBlocklistRule_def addFiltered_def entry_covers_network addr_at_src)
qed

lemma blocklist_confined: "d \<noteq> c \<Longrightarrow> rules_of d (addBlocklistRule mg c opts e) = []"
  by (simp add: addBlocklistRule_def addFiltered_def split: option.splits)

interpretation blocklist: input_stage mg "concat (map (addBlocklistRule mg inputChainName opts) es)" "[]" "[]"
  "list_all entry_ok es" "\<lambda>m p. drop_if (in_entries es p)" for mg opts es
  by unfold_locales
     (auto simp: rules_of_concat o_def blocklist_confined in_entries_def list_all_iff
       intro!: eval_drop_each eval_blocklist)

lemma eval_allowlist:
  assumes "wf_packet p" "entry_ok e"
  shows "eval_rules ne m p tbl n (rules_of c (addAllowlistRule c e)) =
    accept_if (entry_covers e (packet_src p))"
proof (cases "IsListComment e")
  case True
  then show ?thesis by (simp add: addAllowlistRule_def entry_covers_def entry_network_def)
next
  case False
  then obtain q where q: "entry_network e = Some q"
    using entry_network_total [OF assms(2)] by auto
  with addAllowlistRule_net [OF assms(2) False] eval_selected(1) [OF selects_list_exprs [OF assms q]]
  show ?thesis by (simp add: entry_covers_network addr_at_src)
qed

lemma allowlist_confined: "d \<noteq> c \<Longrightarrow> rules_of d (addAllowlistRule c e) = []"
  by (simp add: addAllowlistRule_def addCIDRAccept_def split: option.splits)

interpretation allowlist: input_stage mg "concat (map (addAllowlistRule inputChainName) es)" "[]" "[]"
  "list_all entry_ok es" "\<lambda>m p. accept_if (in_entries es p)" for mg es
  by unfold_locales
     (auto simp: rules_of_concat o_def allowlist_confined in_entries_def list_all_iff
       intro!: eval_accept_each eval_allowlist)

lemma eval_network:
  assumes "wf_packet p"
  shows "eval_rules ne m p tbl n (rules_of c (addCIDRAccept c e)) =
    accept_if (case network_of e of None \<Rightarrow> False | Some q \<Rightarrow> Contains q (packet_src p))"
proof (cases "network_of e")
  case None
  then show ?thesis
    by (auto simp: addCIDRAccept_net network_of_def split: if_splits)
next
  case (Some q)
  then have q: "ParseNetwork e = Some q" "\<not> IsListComment e"
    by (auto simp: network_of_def split: if_splits)
  with Some eval_selected(1) [OF selects_net_exprs(1) [OF assms pos_ok_src ParseNetwork_ok [OF q(1)]]]
  show ?thesis by (simp add: addCIDRAccept_net addr_at_src)
qed

lemma network_confined: "d \<noteq> c \<Longrightarrow> rules_of d (addCIDRAccept c e) = []"
  by (simp add: addCIDRAccept_def split: option.splits)

interpretation networks: input_stage mg "concat (map (addCIDRAccept inputChainName) cidrs)" "[]" "[]"
  True "\<lambda>m p. accept_if (in_networks cidrs p)" for mg cidrs
  by unfold_locales
     (auto simp: rules_of_concat o_def network_confined in_networks_def
       intro!: eval_accept_each eval_network)

text \<open>A port rule's matches: one per source that names a network.\<close>

definition proto_num :: "string \<Rightarrow> byte" where
  "proto_num proto = (if proto = ''udp'' then IPPROTO_UDP else IPPROTO_TCP)"

lemma port_matches:
  "List.map_filter (\<lambda>src. cidrMatch src posSrcAddr) srcs =
   map (\<lambda>q. net_exprs q posSrcAddr (\<not> full_net q) CmpEq) (List.map_filter entry_network srcs)"
  by (induction srcs) (auto simp: List.map_filter_simps cidrMatch_def cidrMatchOp_net split: option.splits)

lemma in_entries_networks:
  "in_entries es p \<longleftrightarrow> (\<exists>q\<in>set (List.map_filter entry_network es). Contains q (packet_src p))"
  by (induction es) (auto simp: in_entries_def List.map_filter_simps entry_covers_def split: option.splits)

lemma map_filter_net_ok: "q \<in> set (List.map_filter entry_network es) \<Longrightarrow> net_ok q"
  by (auto simp: List.map_filter_def entry_network_ok)

lemma eval_port_match:
  assumes "selects ne m p es b" "port_interval (prPort r) \<noteq> None"
  shows "eval_rules ne m p tbl n [(port_match proto r es, tag)] =
    accept_if (b \<and> pkProto p = proto \<and> port_covers (prPort r) p)"
  using eval_selected(4) [OF selects_append [OF assms(1) selects_append [OF selects_l4 selects_port [OF assms(2)]]]]
  by (simp add: port_match_def)

lemma selects_net_src:
  "wf_packet p \<Longrightarrow> net_ok q \<Longrightarrow>
   selects ne m p (net_exprs q posSrcAddr (\<not> full_net q) CmpEq) (Contains q (packet_src p))"
  using selects_net_exprs(1) [OF _ pos_ok_src, of p q "\<not> full_net q"]
  by (auto simp: full_net_def addr_at_src)

lemma eval_rules_map:
  "(\<And>x. x \<in> set xs \<Longrightarrow> eval_rules ne m p tbl n [f x] = accept_if (P x)) \<Longrightarrow>
   eval_rules ne m p tbl n (map f xs) = accept_if (\<exists>x\<in>set xs. P x)"
  using eval_accept_each [of xs ne m p tbl n "\<lambda>x. [f x]" P] by (simp add: concat_map_singleton)

lemma eval_port_rules:
  assumes wf: "wf_packet p" and ok: "port_rule_ok r"
  shows "eval_rules ne m p tbl n (portAcceptRules proto r) = accept_if (port_open (proto_num proto) r p)"
proof -
  let ?qs = "List.map_filter entry_network (prSources r)"
  have iv: "port_interval (prPort r) \<noteq> None" using ok by (simp add: port_rule_ok_def)
  consider (none) "prSources r = []" | (lost) "prSources r \<noteq> []" "?qs = []" | (some) "?qs \<noteq> []"
    by blast
  then show ?thesis
  proof cases
    case none
    then show ?thesis
      using eval_port_match [OF selects_Nil iv]
      by (simp add: portAcceptRules_def port_open_def proto_num_def Let_def List.map_filter_simps)
  next
    case lost
    then show ?thesis
      by (simp add: portAcceptRules_def port_open_def Let_def port_matches in_entries_networks)
  next
    case some
    then have "prSources r \<noteq> []" by (auto simp: List.map_filter_simps)
    have "eval_rules ne m p tbl n (map (\<lambda>q. (port_match (proto_num proto) r
          (net_exprs q posSrcAddr (\<not> full_net q) CmpEq), if prID r = [] then None else Some (prID r))) ?qs) =
      accept_if (\<exists>q\<in>set ?qs. Contains q (packet_src p) \<and> pkProto p = proto_num proto \<and> port_covers (prPort r) p)"
      by (rule eval_rules_map) (rule eval_port_match [OF selects_net_src [OF wf map_filter_net_ok] iv])
    also have "\<dots> = accept_if (port_open (proto_num proto) r p)"
      using \<open>prSources r \<noteq> []\<close> by (auto simp: port_open_def in_entries_networks intro: arg_cong [of _ _ accept_if])
    finally show ?thesis
      using some by (simp add: portAcceptRules_def Let_def port_matches proto_num_def o_def)
  qed
qed

lemma rules_of_add_rules [simp]: "rules_of d (add_rules c rs) = (if d = c then rs else [])"
  by (induction rs) (auto simp: add_rules_def)

interpretation ports: input_stage mg "concat (map (addPortAccept inputChainName proto) (filter FiltersHost rs))"
  "[]" "[]" "list_all port_rule_ok rs" "\<lambda>m p. accept_if (ports_open (proto_num proto) rs p)" for mg proto rs
proof
  fix p tbl m n
  assume wf: "wf_packet p" and ok: "list_all port_rule_ok rs"
  have "eval_rules (mgNative mg) m p tbl (Suc (Suc n)) (concat (map (portAcceptRules proto) (filter FiltersHost rs))) =
    accept_if (\<exists>r\<in>set (filter FiltersHost rs). port_open (proto_num proto) r p)"
    by (rule eval_accept_each) (use ok in \<open>auto simp: list_all_iff intro!: eval_port_rules [OF wf]\<close>)
  moreover have "(\<exists>r\<in>set (filter FiltersHost rs). port_open (proto_num proto) r p) = ports_open (proto_num proto) rs p"
    by (auto simp: ports_open_def)
  ultimately show "eval_rules (mgNative mg) m p tbl (Suc (Suc n))
      (rules_of inputChainName (concat (map (addPortAccept inputChainName proto) (filter FiltersHost rs)))) =
    accept_if (ports_open (proto_num proto) rs p)"
    by (simp add: rules_of_concat o_def addPortAccept_def)
qed (simp_all add: rules_of_concat o_def addPortAccept_def)

section \<open>The bogon filter\<close>

lemma ipv4_source_selects:
  assumes "wf_packet p" "pkFamily p = familyIPv4"
  shows "case ipv4SourceMatch e of
      None \<Rightarrow> \<not> entry_covers e (packet_src p)
    | Some es \<Rightarrow> selects ne m p es (entry_covers e (packet_src p))"
proof (cases "entry_network e")
  case None
  then show ?thesis by (simp add: ipv4SourceMatch_net entry_covers_def)
next
  case (Some q)
  note ok = entry_network_ok [OF Some]
  show ?thesis
  proof (cases "Is4 (paddr q)")
    case True
    with Some selects_net_exprs(1) [OF assms(1) pos_ok_src ok, of True ne m] show ?thesis
      by (simp add: ipv4SourceMatch_net entry_covers_network addr_at_src)
  next
    case False
    then have "\<not> Contains q (packet_src p)"
      using assms by (auto simp: Contains_def packet_src_def wf_packet_def Is4_def)
    with Some False show ?thesis by (simp add: ipv4SourceMatch_net entry_covers_network)
  qed
qed

lemma eval_bogon_exempt:
  assumes "wf_packet p" "pkFamily p = familyIPv4"
  shows "eval_rules ne m p tbl n (rules_of ''bogon'' (bogon_exempt e)) =
    (if entry_covers e (packet_src p) then Returned else Through)"
  using ipv4_source_selects [OF assms, of e ne m]
  by (auto simp: bogon_exempt_def eval_selected simp del: eval_rules.simps(2) split: option.splits)

lemma eval_bogon_port_exempt:
  assumes wf: "wf_packet p" "pkFamily p = familyIPv4" and ok: "port_rule_ok r"
  shows "eval_rules ne m p tbl n (rules_of ''bogon'' (bogon_port_exempt proto r)) =
    (if port_sourced proto r p then Returned else Through)"
proof (cases "FiltersHost r")
  case True
  let ?b = "pkProto p = proto \<and> port_covers (prPort r) p"
  let ?f = "\<lambda>src. case ipv4SourceMatch src of None \<Rightarrow> []
         | Some match \<Rightarrow>
             [AddRule ''bogon'' (match @ l4_match proto @ buildPortExprs (prPort r) @ [Verdict VReturn]) None]"
  have port: "selects ne m p (l4_match proto @ buildPortExprs (prPort r)) ?b"
    using ok by (intro selects_append selects_l4 selects_port) (simp add: port_rule_ok_def)
  have "eval_rules ne m p tbl n (rules_of ''bogon'' (?f src)) =
    (if entry_covers src (packet_src p) \<and> ?b then Returned else Through)" for src
  proof (cases "ipv4SourceMatch src")
    case (Some es)
    with ipv4_source_selects [OF wf, of src ne m]
    have sel: "selects ne m p es (entry_covers src (packet_src p))" by simp
    from Some eval_selected(3) [OF selects_append [OF sel port]] show ?thesis
      by (simp del: eval_rules.simps)
  qed (use ipv4_source_selects [OF wf, of src ne m] in simp)
  then have "eval_rules ne m p tbl n (concat (map (\<lambda>src. rules_of ''bogon'' (?f src)) (prSources r))) =
    (if \<exists>src\<in>set (prSources r). entry_covers src (packet_src p) \<and> ?b then Returned else Through)"
    by (intro eval_return_each) simp
  with True show ?thesis
    by (auto simp: bogon_port_exempt_def rules_of_concat o_def port_sourced_def in_entries_def)
qed (simp add: bogon_port_exempt_def port_sourced_def)

lemma eval_bogon_drop:
  assumes "wf_packet p" "pkFamily p = familyIPv4"
  shows "eval_rules (mgNative mg) m p tbl n (rules_of ''bogon'' (bogon_drop mg opts e)) =
    drop_if (entry_covers e (packet_src p))"
  using ipv4_source_selects [OF assms, of e "mgNative mg" m]
  by (auto simp: bogon_drop_def addFiltered_def eval_filtered split: option.splits)

lemma bogon_parts_confined:
  "d \<noteq> ''bogon'' \<Longrightarrow> rules_of d (bogon_exempt e) = []"
  "d \<noteq> ''bogon'' \<Longrightarrow> rules_of d (bogon_port_exempt proto r) = []"
  "d \<noteq> ''bogon'' \<Longrightarrow> rules_of d (bogon_drop mg opts e) = []"
  by (auto simp: bogon_exempt_def bogon_port_exempt_def bogon_drop_def addFiltered_def rules_of_concat
      split: option.splits)

definition bogon_spared :: "rules \<Rightarrow> string list \<Rightarrow> packet \<Rightarrow> bool" where
  "bogon_spared rs exempt p \<longleftrightarrow>
     in_entries exempt p \<or> (\<exists>r\<in>set (TCP rs). port_sourced IPPROTO_TCP r p) \<or>
     (\<exists>r\<in>set (UDP rs). port_sourced IPPROTO_UDP r p)"

lemma eval_bogon_chain:
  assumes wf: "wf_packet p" "pkFamily p = familyIPv4"
    and ok: "list_all port_rule_ok (TCP rs @ UDP rs)"
  shows "eval_rules (mgNative mg) m p tbl n (concat (map (\<lambda>e. rules_of ''bogon'' (bogon_exempt e)) exempt) @
      concat (map (\<lambda>r. rules_of ''bogon'' (bogon_port_exempt IPPROTO_TCP r)) (TCP rs)) @
      concat (map (\<lambda>r. rules_of ''bogon'' (bogon_port_exempt IPPROTO_UDP r)) (UDP rs)) @
      concat (map (\<lambda>e. rules_of ''bogon'' (bogon_drop mg opts e)) BogonRanges)) =
    (if bogon_spared rs exempt p then Returned else drop_if (in_entries BogonRanges p))"
proof -
  have "eval_rules (mgNative mg) m p tbl n (concat (map (\<lambda>e. rules_of ''bogon'' (bogon_exempt e)) exempt)) =
    (if in_entries exempt p then Returned else Through)"
    unfolding in_entries_def by (rule eval_return_each) (rule eval_bogon_exempt [OF wf])
  moreover have "eval_rules (mgNative mg) m p tbl n
      (concat (map (\<lambda>r. rules_of ''bogon'' (bogon_port_exempt proto r)) prs)) =
    (if \<exists>r\<in>set prs. port_sourced proto r p then Returned else Through)" if "list_all port_rule_ok prs" for proto prs
    by (rule eval_return_each, rule eval_bogon_port_exempt [OF wf]) (use that in \<open>simp add: list_all_iff\<close>)
  moreover have "eval_rules (mgNative mg) m p tbl n
      (concat (map (\<lambda>e. rules_of ''bogon'' (bogon_drop mg opts e)) BogonRanges)) = drop_if (in_entries BogonRanges p)"
    unfolding in_entries_def by (rule eval_drop_each) (rule eval_bogon_drop [OF wf])
  ultimately show ?thesis
    using ok by (auto simp: eval_rules_append bogon_spared_def)
qed

interpretation bogons: input_stage mg "addBogonFilter mg inputChainName opts (Allowlist rs @ cidrs) rs"
  "[''bogon'']" "[]" "list_all port_rule_ok (TCP rs @ UDP rs)" "\<lambda>m p. drop_if (bogon rs cidrs p)"
  for mg opts rs cidrs
proof
  fix p tbl m n
  assume ok: "list_all port_rule_ok (TCP rs @ UDP rs)" and wf: "wf_packet p"
    and t: "\<And>c. c \<in> set [''bogon''] \<Longrightarrow>
      tbl c = rules_of c (addBogonFilter mg inputChainName opts (Allowlist rs @ cidrs) rs)"
  let ?es = "[Meta NFPROTO 1, Cmp CmpEq 1 [familyIPv4], Meta IIFNAME 1, Cmp CmpNeq 1 lo_name]"
  have sel: "selects (mgNative mg) m p ?es (pkFamily p = familyIPv4 \<and> \<not> from_loopback p)"
    by (auto simp: selects_def meta_of_def from_loopback_def)
  have input: "rules_of inputChainName (addBogonFilter mg inputChainName opts (Allowlist rs @ cidrs) rs) =
      [(?es @ [Verdict (VJump ''bogon'')], None)]"
    using over_names by (simp add: addBogonFilter_def rules_of_concat o_def bogon_parts_confined)
  have "tbl ''bogon'' = concat (map (\<lambda>e. rules_of ''bogon'' (bogon_exempt e)) (Allowlist rs @ cidrs)) @
      concat (map (\<lambda>r. rules_of ''bogon'' (bogon_port_exempt IPPROTO_TCP r)) (TCP rs)) @
      concat (map (\<lambda>r. rules_of ''bogon'' (bogon_port_exempt IPPROTO_UDP r)) (UDP rs)) @
      concat (map (\<lambda>e. rules_of ''bogon'' (bogon_drop mg opts e)) BogonRanges)"
    using t over_names by (simp add: addBogonFilter_def rules_of_concat o_def)
  with eval_bogon_chain [OF wf _ ok]
  have chain: "eval_rules (mgNative mg) m p tbl (Suc n) (tbl ''bogon'') =
    (if bogon_spared rs (Allowlist rs @ cidrs) p then Returned else drop_if (in_entries BogonRanges p))"
    if "pkFamily p = familyIPv4" using that by metis
  have spec: "bogon rs cidrs p \<longleftrightarrow> pkFamily p = familyIPv4 \<and> \<not> from_loopback p \<and>
      in_entries BogonRanges p \<and> \<not> bogon_spared rs (Allowlist rs @ cidrs) p"
    by (auto simp: bogon_def bogon_spared_def in_entries_def)
  show "eval_rules (mgNative mg) m p tbl (Suc (Suc n))
      (rules_of inputChainName (addBogonFilter mg inputChainName opts (Allowlist rs @ cidrs) rs)) =
    drop_if (bogon rs cidrs p)"
    unfolding input eval_jump [OF sel] using chain by (auto simp: spec drop_if_def)
qed (use over_names in \<open>auto simp: addBogonFilter_def rules_of_concat bogon_parts_confined\<close>)

section \<open>Feeds\<close>

lemma seq_cmds_Cons:
  "seq_cmds g (x # xs) = Inr ds \<longleftrightarrow> (\<exists>cs es. g x = Inr cs \<and> seq_cmds g xs = Inr es \<and> ds = cs @ es)"
  by (auto split: sum.splits)

text \<open>What holds of the rules of each part holds of the sequence, stage by stage.\<close>

lemma seq_cmds_drop:
  assumes "seq_cmds g xs = Inr cs"
    and "\<And>x cs. x \<in> set xs \<Longrightarrow> g x = Inr cs \<Longrightarrow> eval_rules ne m p tbl n (rules_of c cs) = drop_if (P x)"
  shows "eval_rules ne m p tbl n (rules_of c cs) = drop_if (\<exists>x\<in>set xs. P x)"
  using assms
proof (induction xs arbitrary: cs)
  case (Cons x xs)
  from Cons(2) obtain as bs where *: "g x = Inr as" "seq_cmds g xs = Inr bs" "cs = as @ bs"
    by (auto simp: seq_cmds_Cons simp del: seq_cmds.simps)
  have "eval_rules ne m p tbl n (rules_of c bs) = drop_if (\<exists>x\<in>set xs. P x)"
    using Cons(1) [OF *(2)] Cons(3) by (meson list.set_intros(2))
  moreover have "eval_rules ne m p tbl n (rules_of c as) = drop_if (P x)"
    using Cons(3) [OF _ *(1)] by simp
  ultimately show ?case using *(3) by (simp add: eval_rules_append)
qed simp

lemma seq_cmds_confined:
  assumes "seq_cmds g xs = Inr cs" "\<And>x cs. g x = Inr cs \<Longrightarrow> rules_of d cs = []"
  shows "rules_of d cs = []"
  using assms by (induction xs arbitrary: cs) (auto simp: seq_cmds_Cons simp del: seq_cmds.simps(2))

lemma elements_no_rules: "addFeedElements mg st ranges = Inr cs \<Longrightarrow> rules_of d cs = []"
proof (induction mg st ranges arbitrary: cs rule: addFeedElements.induct)
  case (1 mg st ranges)
  then show ?case
    by (subst (asm) addFeedElements.simps) (auto simp: Let_def split: if_splits sum.splits)
qed

lemma feed_family_rules:
  assumes "add_feed_family mg c opts fwd fid ranges f = Inr cs" "fwd \<noteq> Some d"
  shows "rules_of d cs = rules_of d (addLogged mg c (feed_match fid f)
      \<lparr> lgEnabled = LogFeed opts, lgPrefix = FeedLogPrefix fid, lgPerMinute = LogFeedLimit opts \<rparr>
      (Some (feedCounterID fid)) [Counter, Verdict VDrop])"
  using assms elements_no_rules
  by (auto simp: add_feed_family_def split: if_splits sum.splits option.splits)

lemma selects_feed:
  assumes "f \<in> set addrFamilies" "wf_packet p"
  shows "selects ne m p (feed_match fid f)
    (pkFamily p = afNfproto f \<and> inSet m (feedSetName fid (pkFamily p = familyIPv6)) (abytes (packet_src p)))"
  by (rule selects_iff, unfold feed_match_def, rule selects_lookup [OF assms]) (auto simp: feedSet_def)

lemma feeds_stage:
  assumes built: "addFeeds mg inputChainName ids feeds opts fwd = Inr (k, cs)"
    and fwd: "fwd = None \<or> fwd = Some forwardListsChainName"
  shows "input_stage mg cs [] [forwardListsChainName] True (\<lambda>m p. drop_if (in_feeds m ids p))"
proof
  let ?ranges = "\<lambda>fid f. if afNfproto f = familyIPv6 then snd (splitFamilies (mergeRanges (feeds fid)))
                         else fst (splitFamilies (mergeRanges (feeds fid)))"
  let ?g = "\<lambda>fid f. add_feed_family mg inputChainName opts fwd fid (?ranges fid f) f"
  have seq: "seq_cmds (\<lambda>fid. seq_cmds (?g fid) addrFamilies) (FeedRuleOrder ids) = Inr cs"
    using built by (auto simp: addFeeds_def Let_def split: sum.splits)
  show "rules_of c cs = []" if "c \<noteq> inputChainName" "c \<notin> set []" "c \<notin> set [forwardListsChainName]" for c
  proof (rule seq_cmds_confined [OF seq])
    fix fid ds
    assume "seq_cmds (?g fid) addrFamilies = Inr ds"
    then show "rules_of c ds = []"
      by (rule seq_cmds_confined) (use feed_family_rules [of mg inputChainName opts fwd] that fwd in auto)
  qed
  fix p tbl m n
  assume wf: "wf_packet p"
  have fam: "eval_rules (mgNative mg) m p tbl (Suc (Suc n)) (rules_of inputChainName ds) =
    drop_if (pkFamily p = afNfproto f \<and> inSet m (feedSetName fid (pkFamily p = familyIPv6)) (abytes (packet_src p)))"
    if "f \<in> set addrFamilies" "?g fid f = Inr ds" for fid f ds
    using feed_family_rules [OF that(2), of inputChainName] fwd over_names
      eval_filtered(2) [OF selects_feed [OF that(1) wf]] by auto
  have one: "eval_rules (mgNative mg) m p tbl (Suc (Suc n)) (rules_of inputChainName ds) =
    drop_if (inSet m (feedSetName fid (pkFamily p = familyIPv6)) (abytes (packet_src p)))"
    if "seq_cmds (?g fid) addrFamilies = Inr ds" for fid ds
  proof -
    have "eval_rules (mgNative mg) m p tbl (Suc (Suc n)) (rules_of inputChainName ds) =
      drop_if (\<exists>f\<in>set addrFamilies. pkFamily p = afNfproto f \<and>
        inSet m (feedSetName fid (pkFamily p = familyIPv6)) (abytes (packet_src p)))"
      by (rule seq_cmds_drop [OF that]) (rule fam)
    also have "(\<exists>f\<in>set addrFamilies. pkFamily p = afNfproto f \<and>
        inSet m (feedSetName fid (pkFamily p = familyIPv6)) (abytes (packet_src p))) =
      inSet m (feedSetName fid (pkFamily p = familyIPv6)) (abytes (packet_src p))"
      using family_rec_in [OF wf] family_rec_iff [OF wf] by blast
    finally show ?thesis .
  qed
  have "eval_rules (mgNative mg) m p tbl (Suc (Suc n)) (rules_of inputChainName cs) =
    drop_if (\<exists>fid\<in>set (FeedRuleOrder ids).
      inSet m (feedSetName fid (pkFamily p = familyIPv6)) (abytes (packet_src p)))"
    by (rule seq_cmds_drop [OF seq]) (rule one)
  then show "eval_rules (mgNative mg) m p tbl (Suc (Suc n)) (rules_of inputChainName cs) =
    drop_if (in_feeds m ids p)" by (simp add: in_feeds_def mset_FeedRuleOrder)
qed simp

end
