(* ===== verification/InputChain.thy ===== *)
theory InputChain
  imports InputStages
begin

text \<open>
  The refinement: the input chain of the batch \<open>ApplyWithFeeds\<close> builds decides every packet as
  \<open>input_policy\<close> says, for every rule set that validates, all settings, any meter and either
  byte order.
\<close>

section \<open>Stages that leave the input chain alone\<close>

lemma silent_stage:
  assumes "\<And>c. c \<notin> set other \<Longrightarrow> rules_of c build = []" "inputChainName \<notin> set other"
  shows "input_stage mg build [] other True (\<lambda>m p. Through)"
  by unfold_locales (use assms in auto)

lemma setup_no_rules: "rules_of c (table_setup routing) = []"
  by (simp add: table_setup_def)

lemma rules_of_list_rules:
  "rules_of d (map (\<lambda>es. list_rule v (f es)) xs) =
     (if d = forwardListsChainName then map (\<lambda>es. (f es @ [Verdict v], None)) xs else [])"
  by (induction xs) (auto simp: list_rule_def)

lemma forward_lists_confined:
  "d \<noteq> c \<Longrightarrow> d \<noteq> forwardListsChainName \<Longrightarrow> rules_of d (fst (addForwardLists c rs routing cidrs)) = []"
  using rules_of_list_rules [of d VReturn "\<lambda>es. es"]
  by (simp add: addForwardLists_def Let_def rules_of_list_rules map_rules_confined)

lemma established_confined: "d \<noteq> c \<Longrightarrow> rules_of d (addEstablishedAccept mg c) = []"
  by (simp add: addEstablishedAccept_def)

lemma forward_ports_confined: "d \<noteq> c \<Longrightarrow> rules_of d (addForwardPortRules c rs docker cidrs mode) = []"
  by (simp add: addForwardPortRules_def Let_def)

lemma forward_confined:
  "d \<noteq> c \<Longrightarrow> d \<noteq> forwardListsChainName \<Longrightarrow>
   rules_of d (fst (buildForwardChain mg c rs docker routing cidrs mode)) = []"
  using forward_lists_confined [of d c rs routing cidrs]
  by (auto simp: buildForwardChain_def Let_def forward_ports_confined established_confined
      addForwardExceptions_def map_rules_confined split: prod.splits)

lemma forward_lists_name:
  "snd (buildForwardChain mg c rs docker routing cidrs mode) \<in> {None, Some forwardListsChainName}"
  by (auto simp: buildForwardChain_def addForwardLists_def Let_def split: prod.splits if_splits)

lemma redirect_confined: "d \<noteq> ''prerouting'' \<Longrightarrow> rules_of d (addForwardingRules mg fs) = []"
  by (simp add: addForwardingRules_def map_rules_confined)

lemma fragment_confined: "d \<noteq> fragmentChainName \<Longrightarrow> rules_of d (fragment_chain mg opts) = []"
  by (simp add: fragment_chain_def addFragmentDrop_def addFiltered_def)

section \<open>Composition\<close>

lemma switch_drop: "(if b then drop_if x else Through) = drop_if (b \<and> x)"
  by (simp add: drop_if_def)

lemmas chain_name_defs =
  inputChainName_def forwardChainName_def forwardListsChainName_def fragmentChainName_def

lemma fragment_stage: "input_stage mg (fragment_chain mg opts) [] [fragmentChainName] True (\<lambda>m p. Through)"
  by (rule silent_stage) (auto simp: fragment_confined over_names)

lemma stage_conv:
  assumes "input_stage mg build own other pre d" "set own = set own'" "set other = set other'" "pre' \<Longrightarrow> pre"
    "\<And>m p. wf_packet p \<Longrightarrow> d m p = d' m p"
  shows "input_stage mg build own' other' pre' d'"
  using assms by (auto simp: input_stage_def)

definition module_chains :: "string list" where
  "module_chains = [''portscan'', ''synflood-over'', ''bogon'', ''sshbrute'', ''sshbrute-over'']"

lemma first_match_Cons [simp]: "first_match (d # ds) = next_stage d (first_match ds)"
  by (simp add: first_match_def)

lemma first_match_Nil [simp]: "first_match [] = Through"
  by (simp add: first_match_def)

lemma first_match_append: "first_match (ds @ es) = next_stage (first_match ds) (first_match es)"
  by (induction ds) (simp_all add: next_stage_assoc)

lemma modules_stage:
  "input_stage mg (protection_modules mg rs opts cidrs) module_chains [fragmentChainName]
     (list_all port_rule_ok (TCP rs @ UDP rs)) (\<lambda>m p. first_match (module_stages mg m rs opts cidrs p))"
proof -
  note app = stage_append
  show ?thesis
    unfolding protection_modules_def
    apply (rule stage_conv)
        apply (rule app, rule portscan.switched)
          apply (rule app, rule synflood.switched)
            apply (rule app, rule invalid.switched)
              apply (rule app, rule input_stage.switched, rule fragment_stage)
                apply (rule app, rule bogons.switched)
                  apply (rule app, rule sshbrute.switched)
                    apply (rule app, rule connlimit.switched)
                      apply (rule app, rule broadcast.switched)
                        apply (rule app, rule multicast.switched, rule anycast.switched)
    by (simp_all add: module_chains_def chain_name_defs module_stages_def switch_drop)
qed

lemma forward_stage:
  "input_stage mg (fst (buildForwardChain mg forwardChainName rs docker routing cidrs mode)) []
     [forwardChainName, forwardListsChainName] True (\<lambda>m p. Through)"
  by (rule silent_stage) (auto simp: forward_confined over_names)

lemma setup_stage: "input_stage mg (table_setup routing) [] [] True (\<lambda>m p. Through)"
  by (rule silent_stage) (auto simp: setup_no_rules)

lemma redirect_stage: "input_stage mg (addForwardingRules mg fs) [] [''prerouting''] True (\<lambda>m p. Through)"
  by (rule silent_stage) (auto simp: redirect_confined over_names)

lemma tcp_ports: "input_stage mg (concat (map (addPortAccept inputChainName ''tcp'') (filter FiltersHost rs)))
  [] [] (list_all port_rule_ok rs) (\<lambda>m p. accept_if (ports_open IPPROTO_TCP rs p))"
  using ports.input_stage_axioms [of mg "''tcp''" rs] by (simp add: proto_num_def)

lemma udp_ports: "input_stage mg (concat (map (addPortAccept inputChainName ''udp'') (filter FiltersHost rs)))
  [] [] (list_all port_rule_ok rs) (\<lambda>m p. accept_if (ports_open IPPROTO_UDP rs p))"
  using ports.input_stage_axioms [of mg "''udp''" rs] by (simp add: proto_num_def)

definition batch_chains :: "string list" where
  "batch_chains = [''icmpflood-over'', ''tcprst-over''] @ module_chains"

definition other_chains :: "string list" where
  "other_chains = [forwardChainName, forwardListsChainName, fragmentChainName, ''prerouting'']"

lemma batch_stage:
  assumes built: "build_batch mg rs opts net feeds detected = Inr (k, batch)"
  shows "input_stage mg batch batch_chains other_chains (rules_ok rs)
    (\<lambda>m p. input_policy mg m rs opts (effective_ipv6 (nsIPv6 net)) (docker_cidrs net detected) p)"
proof -
  let ?v6 = "effective_ipv6 (nsIPv6 net)" and ?rt = "effective_routing (nsRouting net)"
    and ?cidrs = "docker_cidrs net detected"
  let ?fw = "buildForwardChain mg forwardChainName rs (nsDocker net) ?rt ?cidrs (v6Mode ?v6)"
  obtain feedCmds where
    feeds: "addFeeds mg inputChainName (Feeds rs) feeds opts (snd ?fw) = Inr (k, feedCmds)"
    and batch: "batch = table_setup ?rt @ addLoopbackAccept inputChainName @ ipv6_disposition ?v6 @
      (if ICMPFlood opts then addICMPFloodProtection mg inputChainName opts else []) @
      (if TCPRSTFlood opts then addTCPRSTFlood mg inputChainName opts else []) @
      addEstablishedAccept mg inputChainName @ addICMPRules inputChainName ?v6 @ fst ?fw @
      protection_modules mg rs opts ?cidrs @
      concat (map (addCIDRAccept inputChainName) ?cidrs) @
      concat (map (addBlocklistRule mg inputChainName opts) (Blocklist rs)) @
      concat (map (addAllowlistRule inputChainName) (Allowlist rs)) @ feedCmds @
      addEchoAccepts inputChainName (ICMPAllowEchoRequest opts) ?v6 @
      concat (map (addPortAccept inputChainName ''tcp'') (filter FiltersHost (TCP rs))) @
      concat (map (addPortAccept inputChainName ''udp'') (filter FiltersHost (UDP rs))) @
      (if Forwarding rs \<noteq> [] then addForwardingRules mg (Forwarding rs) else [])"
    using built by (auto simp: build_batch_def Let_def split: prod.splits sum.splits)
  have fwd: "snd ?fw = None \<or> snd ?fw = Some forwardListsChainName"
    using forward_lists_name by fast
  note app = stage_append
  show ?thesis
    unfolding batch
    apply (rule stage_conv)
        apply (rule app, rule setup_stage)
          apply (rule app, rule loopback.input_stage_axioms)
            apply (rule app, rule ipv6.input_stage_axioms)
              apply (rule app, rule icmpflood.switched)
                apply (rule app, rule tcprst.switched)
                  apply (rule app, rule established.input_stage_axioms)
                    apply (rule app, rule discovery.input_stage_axioms)
                      apply (rule app, rule forward_stage)
                        apply (rule app, rule modules_stage)
                          apply (rule app, rule networks.input_stage_axioms)
                            apply (rule app, rule blocklist.input_stage_axioms)
                              apply (rule app, rule allowlist.input_stage_axioms)
                                apply (rule app, rule feeds_stage [OF feeds fwd])
                                  apply (rule app, rule echo.input_stage_axioms)
                                    apply (rule app, rule tcp_ports)
                                      apply (rule app, rule udp_ports, rule input_stage.switched, rule redirect_stage)
    by (simp_all add: batch_chains_def other_chains_def module_chains_def chain_name_defs switch_drop
        rules_ok_def list_all_iff input_policy_def first_match_append next_stage_assoc insert_commute)
qed

lemma batch_input_policy:
  assumes "build_batch mg rs opts net feeds detected = Inr (k, batch)"
  shows "\<not> base_policy inputChainName batch"
  using assms
  by (auto simp: build_batch_def Let_def table_setup_def base_filter_def split: prod.splits sum.splits)

definition host_byte_order :: "nft_manager \<Rightarrow> bool" where
  "host_byte_order mg \<longleftrightarrow> mgNative mg = le32 \<or> mgNative mg = be32"

lemma host_native: "host_byte_order mg \<Longrightarrow> native_order (mgNative mg)"
  using little.native_order_axioms big.native_order_axioms by (auto simp: host_byte_order_def)

lemma input_chain_exact:
  assumes "rules_ok rs" "build_batch mg rs opts net feeds detected = Inr (k, batch)"
    "host_byte_order mg" "wf_packet p"
  shows "chain_accepts (mgNative mg) m p batch inputChainName =
    lets_in (input_policy mg m rs opts (effective_ipv6 (nsIPv6 net)) (docker_cidrs net detected) p)"
  using input_stage.accepts_iff [OF batch_stage [OF assms(2)] host_native [OF assms(3)] assms(1,4)
      batch_input_policy [OF assms(2)]] .

text \<open>The policy as a formula.\<close>

lemma lets_in_stages:
  "lets_in (next_stage (accept_if a) d) \<longleftrightarrow> a \<or> lets_in d"
  "lets_in (next_stage (drop_if a) d) \<longleftrightarrow> \<not> a \<and> lets_in d"
  "lets_in (accept_if a) \<longleftrightarrow> a"
  "lets_in (next_stage (ipv6_stage v6 p) d) \<longleftrightarrow>
     (pkFamily p = familyIPv6 \<and> v6Mode v6 = IPv6Passthrough) \<or>
     \<not> (pkFamily p = familyIPv6 \<and> v6Mode v6 = IPv6Block) \<and> lets_in d"
  by (auto simp: lets_in_def accept_if_def drop_if_def ipv6_stage_def IPv6Passthrough_def IPv6Block_def)

lemma lets_in_policy:
  "lets_in (input_policy mg m rs opts v6 cidrs p) \<longleftrightarrow>
     from_loopback p \<or> pkFamily p = familyIPv6 \<and> v6Mode v6 = IPv6Passthrough \<or>
     \<not> (pkFamily p = familyIPv6 \<and> v6Mode v6 = IPv6Block) \<and>
     \<not> (ICMPFlood opts \<and> echo_request p \<and> source_over mg m (meter_set ''icmpflood'' 60) p) \<and>
     \<not> (TCPRSTFlood opts \<and> tcp_flags_are 0x04 0x04 p \<and> source_over mg m (meter_set ''tcprst'' 60) p) \<and>
     (established p \<or> discovery v6 p \<or>
      first_match (module_stages mg m rs opts cidrs p) = Through \<and>
      (in_networks cidrs p \<or>
       \<not> in_entries (Blocklist rs) p \<and>
       (in_entries (Allowlist rs) p \<or>
        \<not> in_feeds m (Feeds rs) p \<and>
        (echo_accepted (ICMPAllowEchoRequest opts) v6 p \<or> ports_open IPPROTO_TCP (TCP rs) p \<or>
         ports_open IPPROTO_UDP (UDP rs) p))))"
proof -
  have modules: "lets_in (next_stage (first_match (module_stages mg m rs opts cidrs p)) d) \<longleftrightarrow>
      first_match (module_stages mg m rs opts cidrs p) = Through \<and> lets_in d" for d
    by (simp add: module_stages_def drop_if_def lets_in_def)
  show ?thesis
    unfolding input_policy_def first_match_append first_match_Cons
    by (simp add: next_stage_assoc lets_in_stages modules)
qed

section \<open>The chain one apply leaves behind\<close>

text \<open>
  \<open>ApplyWithFeeds\<close> fills the input chain in three goes: the batch of its first flush, then the
  operator's custom rules, which \<open>nft\<close> appends one command at a time, then the log rule of the
  second flush.  What the rule \<open>nft\<close> makes of one command decides on a packet is the parameter
  \<open>custom\<close>: the language of those lines belongs to \<open>nft\<close> and is not parsed by the program.
\<close>

definition custom_policy :: "(string \<Rightarrow> packet \<Rightarrow> chain_result) \<Rightarrow> string list \<Rightarrow> packet \<Rightarrow> chain_result" where
  "custom_policy custom cmds p = first_match (map (\<lambda>c. custom c p) cmds)"

definition input_verdict ::
  "(string \<Rightarrow> packet \<Rightarrow> chain_result) \<Rightarrow> nft_manager \<Rightarrow> meters \<Rightarrow> packet \<Rightarrow> rules \<Rightarrow> firewall_options \<Rightarrow>
   cmd list \<Rightarrow> bool" where
  "input_verdict custom mg m p rs opts batch =
     (let tail = final_batch mg opts;
          run = eval_rules (mgNative mg) m p (\<lambda>c. rules_of c (batch @ tail)) 2
      in case next_stage (run (rules_of inputChainName batch))
                (next_stage (custom_policy custom (custom_commands (Custom rs)) p)
                   (run (rules_of inputChainName tail))) of
           Decided v \<Rightarrow> v
         | _ \<Rightarrow> base_policy inputChainName batch)"

lemma final_log_silent: "eval_rules ne m p tbl n (rules_of inputChainName (final_batch mg opts)) = Through"
  by (simp add: final_batch_def addFinalLog_def logExprs_def Let_def)

lemma final_log_confined: "c \<noteq> inputChainName \<Longrightarrow> rules_of c (final_batch mg opts) = []"
  by (simp add: final_batch_def addFinalLog_def)

lemma lets_in_next: "lets_in (next_stage a b) \<longleftrightarrow> lets_in a \<or> a = Through \<and> lets_in b"
  by (cases a) (simp_all add: lets_in_def)

lemma input_verdict_exact:
  assumes "rules_ok rs" "build_batch mg rs opts net feeds detected = Inr (k, batch)"
    "host_byte_order mg" "wf_packet p"
  shows "input_verdict custom mg m p rs opts batch =
    lets_in (next_stage (input_policy mg m rs opts (effective_ipv6 (nsIPv6 net)) (docker_cidrs net detected) p)
      (custom_policy custom (custom_commands (Custom rs)) p))"
proof -
  note stage = batch_stage [OF assms(2)]
  have same: "rules_of c (batch @ final_batch mg opts) = rules_of c batch" if "c \<in> set batch_chains" for c
    using that input_stage.own_chains [OF stage] final_log_confined [of c] by auto
  have "eval_rules (mgNative mg) m p (\<lambda>c. rules_of c (batch @ final_batch mg opts)) 2 (rules_of inputChainName batch) =
      input_policy mg m rs opts (effective_ipv6 (nsIPv6 net)) (docker_cidrs net detected) p"
    unfolding numeral_2_eq_2
    using same by (intro input_stage.decides [OF stage host_native [OF assms(3)] assms(1,4)])
  then show ?thesis
    using batch_input_policy [OF assms(2)]
    by (simp add: input_verdict_def Let_def final_log_silent lets_in_def split: chain_result.splits)
qed

section \<open>Properties\<close>

text \<open>
  C1. Refinement of the input chain: for every rule set the boundary admits, every combination
  of settings, any state of meters and sets, and a host of either byte order, the chain one
  apply leaves behind accepts exactly the packets the policy lets in, and of those the policy
  leaves undecided the ones a custom rule accepts.  The custom rules come last: whatever \<open>nft\<close>
  makes of them, they decide nothing the policy has decided, and the log rule behind them
  decides nothing at all.
\<close>

theorem input_chain_refines_policy:
  assumes "ValidateRules rs = None" "build_batch mg rs opts net feeds detected = Inr (k, batch)"
    "host_byte_order mg" "wf_packet p"
  shows "input_verdict custom mg m p rs opts batch =
    lets_in (next_stage (input_policy mg m rs opts (effective_ipv6 (nsIPv6 net)) (docker_cidrs net detected) p)
      (custom_policy custom (custom_commands (Custom rs)) p))"
  using input_verdict_exact [OF _ assms(2-4)] assms(1) by (simp add: ValidateRules_None)

text \<open>
  C4. The blocklist outranks everything an operator opens: a source on it gets no new traffic
  in, through the allowlist, an open port, an answered ping or a feed's absence.  Only what
  stands above the lists still does: loopback, passed-through IPv6, established traffic,
  neighbour discovery and the container networks.
\<close>

theorem blocklisted_source_is_dropped:
  assumes "ValidateRules rs = None" "build_batch mg rs opts net feeds detected = Inr (k, batch)"
    "host_byte_order mg" "wf_packet p" "in_entries (Blocklist rs) p"
    "\<not> from_loopback p" "\<not> established p" "\<not> discovery (effective_ipv6 (nsIPv6 net)) p"
    "\<not> in_networks (docker_cidrs net detected) p"
    "v6Mode (nsIPv6 net) = IPv6Passthrough \<Longrightarrow> pkFamily p \<noteq> familyIPv6"
  shows "\<not> chain_accepts (mgNative mg) m p batch inputChainName"
proof -
  have "\<not> lets_in (input_policy mg m rs opts (effective_ipv6 (nsIPv6 net)) (docker_cidrs net detected) p)"
    using assms(5-10) unfolding lets_in_policy
    by (auto simp: effective_ipv6_def IPv6Filter_def IPv6Passthrough_def split: if_splits)
  with assms show ?thesis by (simp add: input_chain_exact ValidateRules_None)
qed

end
