(* ===== verification/Reach.thy ===== *)
theory Reach
  imports InputChain
begin

text \<open>
  \<open>internal/shared/reach.go\<close>: the interface's own answer to whether a new connection would still
  get through, computed from the rules without the kernel.  The lemmas hold it against the
  input chain: neither "open" nor "blocked" is ever said where the table decides otherwise.
\<close>

section \<open>The oracle's parts\<close>

definition ReachOpen :: string where "ReachOpen = ''open''"
definition ReachBlocked :: string where "ReachBlocked = ''blocked''"
definition ReachUnknown :: string where "ReachUnknown = ''unknown''"

lemmas reach_verdicts = ReachOpen_def ReachBlocked_def ReachUnknown_def

datatype reach_reason =
    ReasonNoAddress | ReasonProxied | ReasonLoopback | ReasonIPv6Passthrough | ReasonIPv6Blocked
  | ReasonBogonFilter | ReasonDockerNetwork | ReasonDockerBridge | ReasonBlocklisted
  | ReasonAllowlisted | ReasonInFeed | ReasonFeedsUnreadable | ReasonTrustedProxy | ReasonPortOpen
  | ReasonPortSourceMismatch | ReasonCustomRules | ReasonNoRule

definition InAnyEntry :: "addr \<Rightarrow> string list \<Rightarrow> bool" where
  "InAnyEntry src entries \<longleftrightarrow>
     list_ex (\<lambda>entry.
       \<not> IsListComment entry \<and>
       (let e = trim_space entry in
        case ParseAddr e of
          Some a \<Rightarrow> Unmap a = src
        | None \<Rightarrow> (case ParseNetwork e of Some q \<Rightarrow> Contains q src | None \<Rightarrow> False))) entries"

definition inAnyCIDR :: "addr \<Rightarrow> string list \<Rightarrow> bool" where
  "inAnyCIDR src cidrs \<longleftrightarrow>
     list_ex (\<lambda>c. \<not> IsListComment c \<and>
       (case ParseNetwork c of Some q \<Rightarrow> Contains q src | None \<Rightarrow> False)) cidrs"

definition PortInRule :: "string \<Rightarrow> nat \<Rightarrow> bool" where
  "PortInRule spec0 port =
     (case cut_char (CHR '':'') (trim_space spec0) of (low, high, isRange) \<Rightarrow>
        (case parse_uint16 (trim_space low) of
           None \<Rightarrow> False
         | Some lo \<Rightarrow>
             if \<not> isRange then lo = port
             else (case parse_uint16 (trim_space high) of
                     None \<Rightarrow> False | Some hi \<Rightarrow> lo \<le> port \<and> port \<le> hi)))"

definition dockerPoolRanges :: "string list" where
  "dockerPoolRanges = [''172.16.0.0/12'']"

text \<open>The loop over the TCP rules: \<open>Inl\<close> is its early return, \<open>Inr\<close> the flag it leaves behind.\<close>

fun port_loop :: "addr \<Rightarrow> nat \<Rightarrow> bool \<Rightarrow> port_rule list \<Rightarrow> unit + bool" where
  "port_loop src port restricted [] = Inr restricted"
| "port_loop src port restricted (r # rs) =
     (if \<not> PortInRule (prPort r) port then port_loop src port restricted rs
      else if \<not> FiltersHost r then port_loop src port restricted rs
      else if prSources r = [] then Inl ()
      else if InAnyEntry src (prSources r) then Inl ()
      else port_loop src port True rs)"

definition Reachable ::
  "rules \<Rightarrow> firewall_options \<Rightarrow> network_settings \<Rightarrow> addr \<Rightarrow> nat \<Rightarrow> bool \<Rightarrow> bool \<Rightarrow> string list \<Rightarrow>
   string \<times> reach_reason" where
  "Reachable r opts n src0 port proxied loc feedHits =
     (if proxied then (ReachUnknown, ReasonProxied)
      else
        let src = WithZone (Unmap src0) [];
            dockerNets = (if dkEnabled (nsDocker n) then CustomNetworks (nsDocker n) else []) in
        if \<not> IsValid src then (ReachUnknown, ReasonNoAddress)
        else if loc \<or> IsLoopback src then (ReachOpen, ReasonLoopback)
        else if Is6 src \<and> v6Mode (nsIPv6 n) = IPv6Passthrough then (ReachOpen, ReasonIPv6Passthrough)
        else if Is6 src \<and> v6Mode (nsIPv6 n) = IPv6Block then (ReachBlocked, ReasonIPv6Blocked)
        else if Bogons opts \<and> Is4 src \<and> inAnyCIDR src BogonRanges \<and>
                \<not> InAnyEntry src (Allowlist r) \<and> \<not> inAnyCIDR src dockerNets
             then (ReachUnknown, ReasonBogonFilter)
        else if dkEnabled (nsDocker n) \<and> inAnyCIDR src dockerNets then (ReachOpen, ReasonDockerNetwork)
        else if dkEnabled (nsDocker n) \<and> AllowBridgeNetworks (nsDocker n) \<and> inAnyCIDR src dockerPoolRanges
             then (ReachUnknown, ReasonDockerBridge)
        else if InAnyEntry src (Blocklist r) then (ReachBlocked, ReasonBlocklisted)
        else if InAnyEntry src (Allowlist r) then (ReachOpen, ReasonAllowlisted)
        else if list_ex (\<lambda>fid. fid \<in> set feedHits) (Feeds r) then (ReachBlocked, ReasonInFeed)
        else (case port_loop src port False (TCP r) of
                Inl _ \<Rightarrow> (ReachOpen, ReasonPortOpen)
              | Inr restricted \<Rightarrow>
                  if list_ex (\<lambda>line. \<not> IsListComment line) (Custom r) then (ReachUnknown, ReasonCustomRules)
                  else if restricted then (ReachBlocked, ReasonPortSourceMismatch)
                  else (ReachBlocked, ReasonNoRule)))"

section \<open>The oracle's parts against the chain's\<close>

definition good_addr :: "addr \<Rightarrow> bool" where
  "good_addr a \<longleftrightarrow> IsValid a \<and> azone a = [] \<and> \<not> Is4In6 a"

lemma host_Contains:
  assumes "good_addr a" "azone b = []" "length (abytes b) = 4 \<or> length (abytes b) = 16"
  shows "Contains (Prefix b (BitLen b)) a \<longleftrightarrow> b = a"
proof -
  have full: "and_bytes (cidr_mask (8 * k) k) x = x" if "length x = k" for k x
    using that by (simp only: cidr_mask_full and_bytes_full)
  show ?thesis
  proof
    assume c: "Contains (Prefix b (BitLen b)) a"
    then have l: "length (abytes a) = length (abytes b)" by (simp add: Contains_def)
    with c full [OF l] full [OF refl, of "abytes b"] have "abytes a = abytes b"
      by (simp add: Contains_def BitLen_def l)
    with assms show "b = a" by (cases a; cases b) (simp add: good_addr_def)
  next
    assume "b = a"
    with assms show "Contains (Prefix b (BitLen b)) a" by (auto simp: Contains_def good_addr_def)
  qed
qed

lemma ParseIP_ParseAddr:
  "ParseIP s = Some ip \<Longrightarrow> \<exists>a. ParseAddr s = Some a \<and> azone a = [] \<and> Unmap (Addr ip []) = Unmap a"
proof -
  assume "ParseIP s = Some ip"
  then obtain a where a: "ParseAddr s = Some a" "azone a = []" "ip = As16 a"
    by (auto simp: ParseIP_def split: option.splits if_splits)
  have "length (abytes a) = 4 \<or> length (abytes a) = 16" using ParseAddr_length [OF a(1)] by auto
  moreover have "Unmap (Addr (As16 a) []) = Unmap a"
    using calculation a(2)
    by (cases a) (auto simp: As16_def Is4_def Unmap_def Is4In6_def Is6_def v4_in_v6_prefix_def)
  ultimately show ?thesis using a by auto
qed

lemma ParseAddr_zone: "ParseAddr s = Some a \<Longrightarrow> CHR ''%'' \<notin> set s \<Longrightarrow> azone a = []"
  by (auto simp: ParseAddr_def parse_ipv6_def cut_char_no Let_def split: option.splits if_splits)

lemma entry_ok_source: "source_ok e \<Longrightarrow> \<not> IsListComment e \<Longrightarrow> entry_ok (trim_space e)"
  by (auto simp: source_ok_def entry_ok_def ValidateIPOrCIDR_def split: if_splits)

lemma entry_not_addr:
  assumes "source_ok e" "\<not> IsListComment e" "ParseIP (trim_space e) = None"
  shows "ParseAddr (trim_space e) = None"
proof (rule ccontr)
  have "ParseCIDR (trim_space e) \<noteq> None"
    using entry_ok_source [OF assms(1,2)] assms(2,3) by (auto simp: entry_ok_def)
  then have no_zone: "CHR ''%'' \<notin> set (trim_space e)"
    by (auto simp: list_all_iff plain_def dest!: ParseCIDR_plain)
  assume "ParseAddr (trim_space e) \<noteq> None"
  then obtain x where x: "ParseAddr (trim_space e) = Some x" by blast
  with assms(3) have "azone x \<noteq> []" by (auto simp: ParseIP_def split: if_splits)
  with ParseAddr_zone [OF x] no_zone show False by blast
qed

lemma entry_covers_parse:
  assumes a: "good_addr a" and ok: "source_ok e" and c: "\<not> IsListComment e"
  shows "entry_covers e a \<longleftrightarrow>
    (case ParseAddr (trim_space e) of
       Some x \<Rightarrow> Unmap x = a
     | None \<Rightarrow> (case ParseNetwork (trim_space e) of Some q \<Rightarrow> Contains q a | None \<Rightarrow> False))"
proof (cases "ParseIP (trim_space e)")
  case (Some ip)
  from ParseIP_ParseAddr [OF this] obtain x where
    x: "ParseAddr (trim_space e) = Some x" "azone x = []" "Unmap (Addr ip []) = Unmap x" by blast
  have "azone (Unmap x) = [] \<and> (length (abytes (Unmap x)) = 4 \<or> length (abytes (Unmap x)) = 16)"
    using ParseAddr_length [OF x(1)] x(2) by (auto simp: Unmap_def Is4In6_def Is6_def)
  with host_Contains [OF a, of "Unmap x"] Some c x show ?thesis
    by (simp add: entry_covers_def entry_network_def Let_def)
next
  case None
  with entry_not_addr [OF ok c] c show ?thesis by (simp add: entry_covers_def entry_network_def)
qed

lemma InAnyEntry_iff:
  assumes "good_addr a" "list_all source_ok es"
  shows "InAnyEntry a es \<longleftrightarrow> (\<exists>e\<in>set es. entry_covers e a)"
proof -
  have "entry_covers e a \<longleftrightarrow> \<not> IsListComment e \<and> (case ParseAddr (trim_space e) of
       Some x \<Rightarrow> Unmap x = a
     | None \<Rightarrow> (case ParseNetwork (trim_space e) of Some q \<Rightarrow> Contains q a | None \<Rightarrow> False))"
    if "e \<in> set es" for e
    using that assms entry_covers_parse [OF assms(1), of e]
    by (cases "IsListComment e") (auto simp: list_all_iff entry_covers_def entry_network_def)
  then show ?thesis by (auto simp: InAnyEntry_def list_ex_iff Let_def)
qed

lemma entry_source_ok: "entry_ok e \<Longrightarrow> source_ok e"
  using entry_ok_trim [of e]
  by (cases "IsListComment e") (auto simp: entry_ok_def source_ok_def ValidateIPOrCIDR_def)

lemma inAnyCIDR_iff: "inAnyCIDR a cs \<longleftrightarrow>
   (\<exists>c\<in>set cs. case network_of c of None \<Rightarrow> False | Some q \<Rightarrow> Contains q a)"
  by (auto simp: inAnyCIDR_def list_ex_iff network_of_def split: option.splits)

text \<open>A network entry is never read as a single address.\<close>

lemma ParseNetwork_not_IP: "ParseNetwork c = Some q \<Longrightarrow> ParseIP (trim_space c) = None"
  using ParseCIDR_slash [of "trim_space c"] ParseIP_no_slash [of "trim_space c"]
  by (cases "ParseIP (trim_space c)") (auto simp: ParseNetwork_def split: option.splits)

lemma network_of_entry: "network_of c = Some q \<Longrightarrow> entry_network c = Some q"
  by (auto simp: network_of_def entry_network_def ParseNetwork_not_IP split: if_splits)

lemma network_entry_covers:
  "(case network_of c of None \<Rightarrow> False | Some q \<Rightarrow> Contains q a) \<Longrightarrow> entry_covers c a"
  by (auto simp: entry_covers_def network_of_entry split: option.splits)

section \<open>Ports\<close>

lemma parse_uint16_atoi: "parse_uint16 s = Some v \<Longrightarrow> atoi s = Some (int v)"
proof -
  assume h: "parse_uint16 s = Some v"
  then obtain c cs where s: "s = c # cs" by (cases s) (auto simp: parse_uint16_def)
  with h have "is_digit c" by (auto simp: parse_uint16_def split: if_splits)
  then have "c \<noteq> CHR ''-''" "c \<noteq> CHR ''+''" by (auto simp: is_digit_def)
  with h s show ?thesis
    by (auto simp: parse_uint16_def atoi_def Let_def split: if_splits)
qed

lemma atoi_parse_uint16:
  assumes "atoi s = Some v" "1 \<le> v" "v \<le> 65535" "CHR ''+'' \<notin> set s"
  shows "parse_uint16 s = Some (nat v)"
  using assms by (cases s) (auto simp: atoi_def parse_uint16_def Let_def split: if_splits)

lemma ParsePortNumber_atoi: "ParsePortNumber s = Inr v \<longleftrightarrow> atoi s = Some v \<and> 1 \<le> v \<and> v \<le> 65535"
  by (auto simp: ParsePortNumber_def split: option.splits)

lemma port_interval_parts:
  assumes "port_interval port = Some (lo, hi)"
  obtains a b ok where "cut_char (CHR '':'') (trim_space port) = (a, b, ok)"
    "ParsePortNumber a = Inr lo" "ParsePortNumber (if ok then b else a) = Inr hi"
    "trim_space a = a" "ok \<Longrightarrow> trim_space b = b" "set a \<union> (if ok then set b else {}) \<subseteq> set port"
proof -
  obtain a b ok where c: "cut_char (CHR '':'') port = (a, b, ok)" by (metis prod_cases3)
  from assms c have p: "ParsePortNumber a = Inr lo" "ParsePortNumber (if ok then b else a) = Inr hi"
    by (auto simp: port_interval_def split: sum.splits if_splits)
  have pl: "list_all plain a" "ok \<Longrightarrow> list_all plain b"
    using p by (auto dest: ParsePortNumber_plain)
  have split: "port = (if ok then a @ CHR '':'' # b else a)" using cut_char_cases [OF c] by auto
  then have "trim_space port = port"
    using pl by (intro trim_space_plain) (cases ok, auto)
  with c p pl split show thesis
    by (intro that [of a b ok]) (auto intro: trim_space_plain split: if_splits)
qed

lemma PortInRule_covers:
  assumes "port_interval port = Some (lo, hi)" "PortInRule port n"
  shows "lo \<le> int n \<and> int n \<le> hi"
proof -
  from port_interval_parts [OF assms(1)] obtain a b ok where
    p: "cut_char (CHR '':'') (trim_space port) = (a, b, ok)" "ParsePortNumber a = Inr lo"
    "ParsePortNumber (if ok then b else a) = Inr hi" "trim_space a = a" "ok \<Longrightarrow> trim_space b = b" by metis
  with assms(2) show ?thesis
    by (auto simp: PortInRule_def ParsePortNumber_atoi split: option.splits if_splits
        dest!: parse_uint16_atoi)
qed

lemma covers_PortInRule:
  assumes "port_interval port = Some (lo, hi)" "lo \<le> int n" "int n \<le> hi" "CHR ''+'' \<notin> set port"
  shows "PortInRule port n"
proof -
  from port_interval_parts [OF assms(1)] obtain a b ok where
    p: "cut_char (CHR '':'') (trim_space port) = (a, b, ok)" "ParsePortNumber a = Inr lo"
    "ParsePortNumber (if ok then b else a) = Inr hi" "trim_space a = a" "ok \<Longrightarrow> trim_space b = b"
    "set a \<union> (if ok then set b else {}) \<subseteq> set port" by metis
  have "CHR ''+'' \<notin> set a" "ok \<Longrightarrow> CHR ''+'' \<notin> set b" using p(6) assms(4) by auto
  with p have "parse_uint16 a = Some (nat lo)" "parse_uint16 (if ok then b else a) = Some (nat hi)"
    by (auto simp: ParsePortNumber_atoi intro!: atoi_parse_uint16)
  with p assms(2,3) show ?thesis
    by (cases ok) (auto simp: PortInRule_def nat_le_iff le_nat_iff ParsePortNumber_atoi)
qed

text \<open>A new TCP connection's first packet, as the interface asks about it.\<close>

definition first_packet :: "addr \<Rightarrow> nat \<Rightarrow> packet \<Rightarrow> bool" where
  "first_packet src port p \<longleftrightarrow>
     wf_packet p \<and> packet_src p = WithZone (Unmap src) [] \<and> pkProto p = IPPROTO_TCP \<and>
     20 \<le> length (pkTrans p) \<and> pkTrans p ! 13 = 0x02 \<and> dst_port p = port \<and>
     pkCt p = ctStateNew \<and> pkType p = 0 \<and> pkAddrType p = RTN_LOCAL"

definition signless :: "rules \<Rightarrow> bool" where
  "signless rs \<longleftrightarrow> (\<forall>r\<in>set (TCP rs). CHR ''+'' \<notin> set (prPort r))"

lemma port_covers_iff:
  assumes "first_packet src port p" "port_rule_ok r"
  shows "PortInRule (prPort r) port \<Longrightarrow> port_covers (prPort r) p"
    and "CHR ''+'' \<notin> set (prPort r) \<Longrightarrow> port_covers (prPort r) p \<Longrightarrow> PortInRule (prPort r) port"
proof -
  obtain lo hi where i: "port_interval (prPort r) = Some (lo, hi)"
    using assms(2) by (auto simp: port_rule_ok_def)
  show "PortInRule (prPort r) port \<Longrightarrow> port_covers (prPort r) p"
    using PortInRule_covers [OF i] assms(1) i by (auto simp: port_covers_def first_packet_def)
  show "CHR ''+'' \<notin> set (prPort r) \<Longrightarrow> port_covers (prPort r) p \<Longrightarrow> PortInRule (prPort r) port"
    using covers_PortInRule [OF i] assms(1) i by (auto simp: port_covers_def first_packet_def)
qed

lemma port_loop_open:
  "port_loop src port res rs = Inl () \<longleftrightarrow>
   (\<exists>r\<in>set rs. PortInRule (prPort r) port \<and> FiltersHost r \<and>
     (prSources r = [] \<or> InAnyEntry src (prSources r)))"
  by (induction src port res rs rule: port_loop.induct) auto

section \<open>The chain on a first packet\<close>

lemma first_packet_facts:
  assumes "first_packet src port p"
  shows "\<not> established p" "\<not> discovery v6 p" "\<not> echo_request p" "\<not> tcp_flags_are 0x04 0x04 p"
    "\<not> scan_flags p" "\<not> ct_in ctStateInvalid p" "pkType p \<noteq> pktTypeBroadcast"
    "pkType p \<noteq> pktTypeMulticast" "pkAddrType p \<noteq> RTN_ANYCAST" "\<not> echo_accepted b v6 p"
    "\<not> ports_open IPPROTO_UDP rs p"
  using assms
  by (simp_all add: first_packet_def established_def ct_in_def ctStateNew_def ctStateEstablished_def
      ctStateRelated_def ctStateInvalid_def discovery_def icmp_type_is_def echo_request_def
      tcp_flags_are_def scan_flags_def scanCombos_def pktTypeBroadcast_def pktTypeMulticast_def
      echo_accepted_def ports_open_def port_open_def)

lemma first_packet_addr:
  assumes "first_packet src port p"
  shows "good_addr (packet_src p)" "Is4 (packet_src p) \<longleftrightarrow> pkFamily p = familyIPv4"
    "Is6 (packet_src p) \<longleftrightarrow> pkFamily p = familyIPv6"
proof -
  have wf: "wf_packet p" and src: "packet_src p = WithZone (Unmap src) []"
    using assms by (auto simp: first_packet_def)
  have "azone (packet_src p) = []" by (simp add: packet_src_def)
  moreover have "IsValid (packet_src p)"
    using wf by (auto simp: packet_src_def wf_packet_def IsValid_def Is4_def Is6_def)
  moreover have "\<not> Is4In6 (packet_src p)"
    unfolding src WithZone_def Unmap_def by (auto simp: Is4In6_def Is6_def)
  ultimately show "good_addr (packet_src p)" by (simp add: good_addr_def)
  show "Is4 (packet_src p) \<longleftrightarrow> pkFamily p = familyIPv4" "Is6 (packet_src p) \<longleftrightarrow> pkFamily p = familyIPv6"
    using wf by (auto simp: packet_src_def wf_packet_def Is4_def Is6_def)
qed

text \<open>What is left of the policy for a first packet: eleven stages.\<close>

definition reach_stages ::
  "nft_manager \<Rightarrow> meters \<Rightarrow> rules \<Rightarrow> firewall_options \<Rightarrow> ipv6_config \<Rightarrow> string list \<Rightarrow> packet \<Rightarrow>
   chain_result list" where
  "reach_stages mg m rs opts v6 cidrs p =
     [accept_if (from_loopback p), ipv6_stage v6 p,
      drop_if (SYNFlood opts \<and> tcp_flags_are 0x17 0x02 p \<and> source_over mg m (meter_set ''synflood'' 60) p),
      drop_if (Bogons opts \<and> bogon rs cidrs p),
      drop_if (SSHBruteForce opts \<and> ssh_attempt rs p \<and> source_over mg m (meter_set ''sshbrute'' 600) p),
      drop_if (ConnectionLimit opts \<and> source_over mg m connlimit_set p),
      accept_if (in_networks cidrs p), drop_if (in_entries (Blocklist rs) p),
      accept_if (in_entries (Allowlist rs) p), drop_if (in_feeds m (Feeds rs) p),
      accept_if (ports_open IPPROTO_TCP (TCP rs) p)]"

lemma first_packet_policy:
  "first_packet src port p \<Longrightarrow>
   input_policy mg m rs opts v6 cidrs p = first_match (reach_stages mg m rs opts v6 cidrs p)"
  unfolding input_policy_def module_stages_def reach_stages_def
  by (simp add: first_packet_facts)

text \<open>The oracle's questions about the lists, asked of the packet's source.\<close>

lemma reach_lists:
  assumes p: "first_packet src port p" and ok: "rules_ok rs"
  shows "InAnyEntry (packet_src p) (Blocklist rs) = in_entries (Blocklist rs) p"
    and "InAnyEntry (packet_src p) (Allowlist rs) = in_entries (Allowlist rs) p"
    and "r \<in> set (TCP rs) \<Longrightarrow> InAnyEntry (packet_src p) (prSources r) = in_entries (prSources r) p"
    and "inAnyCIDR (packet_src p) cs = in_networks cs p"
    and "in_networks cs p \<Longrightarrow> in_entries cs p"
proof -
  note good = first_packet_addr(1) [OF p]
  have "list_all source_ok (Blocklist rs)" "list_all source_ok (Allowlist rs)"
    "r \<in> set (TCP rs) \<Longrightarrow> list_all source_ok (prSources r)"
    using ok by (auto simp: rules_ok_def list_all_iff entry_source_ok port_rule_ok_def)
  then show "InAnyEntry (packet_src p) (Blocklist rs) = in_entries (Blocklist rs) p"
    "InAnyEntry (packet_src p) (Allowlist rs) = in_entries (Allowlist rs) p"
    "r \<in> set (TCP rs) \<Longrightarrow> InAnyEntry (packet_src p) (prSources r) = in_entries (prSources r) p"
    by (simp_all add: InAnyEntry_iff [OF good] in_entries_def)
  show "inAnyCIDR (packet_src p) cs = in_networks cs p"
    by (simp add: inAnyCIDR_iff in_networks_def)
  show "in_networks cs p \<Longrightarrow> in_entries cs p"
    by (auto simp: in_networks_def in_entries_def intro: network_entry_covers)
qed

lemma reach_ports:
  assumes p: "first_packet src port p" and ok: "rules_ok rs"
  shows "port_loop (packet_src p) port False (TCP rs) = Inl () \<Longrightarrow> ports_open IPPROTO_TCP (TCP rs) p"
    and "signless rs \<Longrightarrow> ports_open IPPROTO_TCP (TCP rs) p \<Longrightarrow>
      port_loop (packet_src p) port False (TCP rs) = Inl ()"
proof -
  have r: "port_rule_ok r" if "r \<in> set (TCP rs)" for r
    using ok that by (auto simp: rules_ok_def list_all_iff)
  have tcp: "pkProto p = IPPROTO_TCP" using p by (simp add: first_packet_def)
  show "port_loop (packet_src p) port False (TCP rs) = Inl () \<Longrightarrow> ports_open IPPROTO_TCP (TCP rs) p"
    using port_covers_iff(1) [OF p r] reach_lists(3) [OF p ok] tcp
    by (auto simp: port_loop_open ports_open_def port_open_def)
  show "signless rs \<Longrightarrow> ports_open IPPROTO_TCP (TCP rs) p \<Longrightarrow>
      port_loop (packet_src p) port False (TCP rs) = Inl ()"
    using port_covers_iff(2) [OF p r] reach_lists(3) [OF p ok]
    by (fastforce simp: port_loop_open ports_open_def port_open_def signless_def)
qed

text \<open>Which container networks the core knows, against those the interface can name.\<close>

lemma docker_networks:
  assumes p: "first_packet src port p"
  shows "in_networks (docker_cidrs net detected) p \<longleftrightarrow>
    dkEnabled (nsDocker net) \<and> \<not> (v6Mode (effective_ipv6 (nsIPv6 net)) = IPv6Block \<and> pkFamily p = familyIPv6) \<and>
    (in_networks (CustomNetworks (nsDocker net)) p \<or>
     AllowBridgeNetworks (nsDocker net) \<and> in_networks detected p)"
proof -
  have fam: "Contains q (packet_src p) \<Longrightarrow> Is4 (paddr q) \<longleftrightarrow> pkFamily p \<noteq> familyIPv6" for q
    using first_packet_addr [OF p] p
    by (auto simp: Contains_def Is4_def Is6_def first_packet_def wf_packet_def)
  have "in_networks (withoutIPv6 cs) p \<longleftrightarrow> pkFamily p \<noteq> familyIPv6 \<and> in_networks cs p" for cs
    using fam by (fastforce simp: in_networks_def withoutIPv6_def network_of_def split: option.splits if_splits)
  moreover have "in_networks (as @ bs) p \<longleftrightarrow> in_networks as p \<or> in_networks bs p" for as bs
    by (auto simp: in_networks_def)
  moreover have "\<not> in_networks [] p" by (simp add: in_networks_def)
  ultimately show ?thesis
    by (auto simp: docker_cidrs_def containerNetworks_def Let_def)
qed

lemma bogon_ranges_networks: "in_entries BogonRanges p \<longleftrightarrow> in_networks BogonRanges p"
proof -
  have "list_all (\<lambda>c. network_of c \<noteq> None) BogonRanges" by code_simp
  then have "entry_network c = network_of c" if "c \<in> set BogonRanges" for c
    using that network_of_entry by (fastforce simp: list_all_iff)
  then show ?thesis by (auto simp: in_entries_def in_networks_def entry_covers_def)
qed

lemma reach_bogon:
  assumes p: "first_packet src port p"
    and b: "bogon rs (docker_cidrs net detected) p"
  shows "Is4 (packet_src p) \<and> in_networks BogonRanges p \<and> \<not> in_entries (Allowlist rs) p \<and>
    \<not> (dkEnabled (nsDocker net) \<and> in_networks (CustomNetworks (nsDocker net)) p)"
proof -
  have "\<not> in_networks (docker_cidrs net detected) p"
    using b by (auto simp: bogon_def in_networks_def in_entries_def dest: network_entry_covers)
  moreover have "pkFamily p \<noteq> familyIPv6" using b by (simp add: bogon_def)
  ultimately show ?thesis
    using b docker_networks [OF p, of net detected]
    by (auto simp: bogon_def bogon_ranges_networks first_packet_addr(2) [OF p])
qed

lemma effective_mode:
  "v6Mode (effective_ipv6 v6) = IPv6Passthrough \<longleftrightarrow> v6Mode v6 = IPv6Passthrough"
  "v6Mode (effective_ipv6 v6) = IPv6Block \<longleftrightarrow> v6Mode v6 = IPv6Block"
  by (auto simp: effective_ipv6_def ValidIPv6Mode_def IPv6Filter_def IPv6Passthrough_def IPv6Block_def)

definition hits_match :: "meters \<Rightarrow> rules \<Rightarrow> string list \<Rightarrow> packet \<Rightarrow> bool" where
  "hits_match m rs feedHits p \<longleftrightarrow>
     (list_ex (\<lambda>fid. fid \<in> set feedHits) (Feeds rs) \<longleftrightarrow> in_feeds m (Feeds rs) p)"

lemmas reach_unfolds = lets_in_stages reach_stages_def effective_mode

lemma reach_open:
  assumes p: "first_packet src port p" and ok: "rules_ok rs"
    and lo: "from_loopback p \<longleftrightarrow> loc \<or> IsLoopback (packet_src p)"
    and quiet: "\<And>n key. \<not> overDynset m n key" and hits: "hits_match m rs feedHits p"
    and r: "Reachable rs opts net src port proxied loc feedHits = (ReachOpen, why)"
  shows "lets_in (input_policy mg m rs opts (effective_ipv6 (nsIPv6 net)) (docker_cidrs net detected) p)"
proof -
  have src: "WithZone (Unmap src) [] = packet_src p" using p by (simp add: first_packet_def)
  have over: "\<not> source_over mg m st p" for st using quiet by (simp add: source_over_def)
  have none: "\<not> in_networks [] p" by (simp add: in_networks_def)
  show ?thesis
    unfolding first_packet_policy [OF p] using r lo hits over reach_bogon [OF p, of rs net detected]
      reach_ports(1) [OF p ok] none
    by (auto simp: Reachable_def Let_def src reach_lists [OF p ok] docker_networks [OF p] hits_match_def
        first_packet_addr [OF p] reach_unfolds reach_verdicts split: if_splits sum.splits)
qed

lemma reach_blocked:
  assumes p: "first_packet src port p" and ok: "rules_ok rs" and sign: "signless rs"
    and lo: "from_loopback p \<longleftrightarrow> loc \<or> IsLoopback (packet_src p)"
    and bridges: "in_networks detected p \<Longrightarrow> in_networks dockerPoolRanges p"
    and hits: "hits_match m rs feedHits p"
    and r: "Reachable rs opts net src port proxied loc feedHits = (ReachBlocked, why)"
  shows "\<not> lets_in (input_policy mg m rs opts (effective_ipv6 (nsIPv6 net)) (docker_cidrs net detected) p)"
proof -
  have src: "WithZone (Unmap src) [] = packet_src p" using p by (simp add: first_packet_def)
  let ?D = "nsDocker net"
  have view: "\<not> loc \<and> \<not> IsLoopback (packet_src p) \<and>
    \<not> (pkFamily p = familyIPv6 \<and> v6Mode (nsIPv6 net) = IPv6Passthrough) \<and>
    (pkFamily p = familyIPv6 \<and> v6Mode (nsIPv6 net) = IPv6Block \<or>
     \<not> (dkEnabled ?D \<and> in_networks (CustomNetworks ?D) p) \<and>
     \<not> (dkEnabled ?D \<and> AllowBridgeNetworks ?D \<and> in_networks dockerPoolRanges p) \<and>
     (in_entries (Blocklist rs) p \<or>
      \<not> in_entries (Allowlist rs) p \<and>
      (in_feeds m (Feeds rs) p \<or> port_loop (packet_src p) port False (TCP rs) \<noteq> Inl ())))"
    using r hits
    by (simp add: Reachable_def Let_def src reach_lists [OF p ok] hits_match_def first_packet_addr [OF p]
        reach_verdicts split: if_splits sum.splits)
  have nets: "in_networks (docker_cidrs net detected) p \<Longrightarrow> dkEnabled ?D \<and>
      (in_networks (CustomNetworks ?D) p \<or> AllowBridgeNetworks ?D \<and> in_networks dockerPoolRanges p)"
    using docker_networks [OF p] bridges by blast
  have ports: "port_loop (packet_src p) port False (TCP rs) \<noteq> Inl () \<Longrightarrow> \<not> ports_open IPPROTO_TCP (TCP rs) p"
    using reach_ports(2) [OF p ok sign] by blast
  have "lets_in (first_match (reach_stages mg m rs opts (effective_ipv6 (nsIPv6 net)) (docker_cidrs net detected) p)) \<Longrightarrow>
    from_loopback p \<or> pkFamily p = familyIPv6 \<and> v6Mode (nsIPv6 net) = IPv6Passthrough \<or>
    \<not> (pkFamily p = familyIPv6 \<and> v6Mode (nsIPv6 net) = IPv6Block) \<and>
    (in_networks (docker_cidrs net detected) p \<or> \<not> in_entries (Blocklist rs) p \<and>
      (in_entries (Allowlist rs) p \<or> \<not> in_feeds m (Feeds rs) p \<and> ports_open IPPROTO_TCP (TCP rs) p))"
    by (simp add: reach_unfolds) blast
  then show ?thesis
    unfolding first_packet_policy [OF p] using view nets ports lo by blast
qed

section \<open>Properties\<close>

text \<open>
  C2. An "open" is never wrong: when the interface says a new connection would get in, the
  table of the same rules accepts its first packet, as long as no meter counts the source as
  over its rate.  The packet arrives over loopback exactly when the source is one of the host's
  own addresses, and the feed hits are those of the sets in the kernel.
\<close>

theorem reachable_open_is_accepted:
  assumes "ValidateRules rs = None" "build_batch mg rs opts net feeds detected = Inr (k, batch)"
    "host_byte_order mg" "first_packet src port p"
    "from_loopback p \<longleftrightarrow> loc \<or> IsLoopback (packet_src p)" "hits_match m rs feedHits p"
    "\<And>n key. \<not> overDynset m n key"
    "Reachable rs opts net src port proxied loc feedHits = (ReachOpen, why)"
  shows "chain_accepts (mgNative mg) m p batch inputChainName"
proof -
  have "wf_packet p" using assms(4) by (simp add: first_packet_def)
  with assms reach_open [OF assms(4) _ assms(5) assms(7) assms(6) assms(8)]
  show ?thesis by (simp add: input_chain_exact ValidateRules_None)
qed

text \<open>
  C3. A "blocked" is never wrong, whatever the meters say: the table drops the first packet.
  The two things the interface cannot know are hypotheses, a bridge Docker placed outside the
  default pool and a port written with a plus sign.
\<close>

theorem reachable_blocked_is_dropped:
  assumes "ValidateRules rs = None" "build_batch mg rs opts net feeds detected = Inr (k, batch)"
    "host_byte_order mg" "first_packet src port p"
    "from_loopback p \<longleftrightarrow> loc \<or> IsLoopback (packet_src p)" "hits_match m rs feedHits p"
    "in_networks detected p \<Longrightarrow> in_networks dockerPoolRanges p" "signless rs"
    "Reachable rs opts net src port proxied loc feedHits = (ReachBlocked, why)"
  shows "\<not> chain_accepts (mgNative mg) m p batch inputChainName"
proof -
  have "wf_packet p" using assms(4) by (simp add: first_packet_def)
  with assms reach_blocked [OF assms(4) _ assms(8,5,7,6,9)]
  show ?thesis by (simp add: input_chain_exact ValidateRules_None)
qed

end
