(* ===== verification/FeedRanges.thy ===== *)
theory FeedRanges
  imports Packets
begin

text \<open>
  A feed's set in the kernel is exact: the ranges \<open>mergeRanges\<close> makes are disjoint, sorted and
  never adjacent, and the interval set filled with their elements holds an address exactly when
  one of the feed's prefixes contains it.
\<close>

section \<open>Masks as division\<close>

lemma byte_and_full [simp]: "(x :: byte) AND 255 = x" "255 AND (x :: byte) = x"
proof -
  have "(255 :: byte) = - 1" by simp
  then show "x AND 255 = x" "255 AND x = x" by (metis and.right_neutral, metis and.left_neutral)
qed

lemma byte_and_none [simp]: "(x :: byte) AND - 256 = 0"
proof -
  have "(- 256 :: byte) = 0" by simp
  then show ?thesis by (metis and_zero_eq)
qed

lemma be_nat_Cons: "be_nat (b # bs) = unat b * 256 ^ length bs + be_nat bs"
proof (induction bs rule: rev_induct)
  case (snoc c cs)
  then show ?case using be_nat_snoc [of "b # cs" c] be_nat_snoc [of cs c] by (simp add: algebra_simps)
qed (simp add: be_nat_def)

lemma byte_clear_low:
  assumes n: "n < 8" and full: "\<And>j. bit f j \<longleftrightarrow> j < 8"
  shows "x AND NOT (drop_bit n f) = push_bit (8 - n) (drop_bit (8 - n) (x :: byte))"
proof (rule bit_eqI)
  fix i
  assume "possible_bit TYPE(8 word) i"
  then have "i < 8" by simp
  then show "bit (x AND NOT (drop_bit n f)) i \<longleftrightarrow> bit (push_bit (8 - n) (drop_bit (8 - n) x)) i"
    using n by (auto simp: bit_and_iff bit_not_iff bit_drop_bit_eq bit_push_bit_iff full)
qed

lemma bit_full_byte: "bit (0xff :: byte) j \<longleftrightarrow> j < 8"
proof -
  have "(0xff :: byte) = mask 8" by (simp add: mask_eq_exp_minus_1)
  then show ?thesis by (simp only: bit_mask_iff) simp
qed

lemma byte_push_drop: "unat (push_bit k (drop_bit k (x :: byte))) = unat x div 2 ^ k * 2 ^ k"
proof -
  have less: "unat x < 256" using unsigned_less [of x, where ?'a = nat] by simp
  have "unat x div 2 ^ k * 2 ^ k \<le> unat x" by simp
  also note less
  finally have "take_bit 8 (push_bit k (drop_bit k (unat x))) = unat x div 2 ^ k * 2 ^ k"
    by (simp add: push_bit_eq_mult drop_bit_eq_div take_bit_eq_mod)
  moreover have "take_bit 8 (unat x) = unat x" using less by (simp add: take_bit_eq_mod)
  ultimately show ?thesis
    by (simp only: unsigned_push_bit_eq unsigned_drop_bit_eq) simp
qed

lemma byte_mask_low:
  "n < 8 \<Longrightarrow> unat (x AND NOT (drop_bit n 0xff) :: byte) = unat x div 2 ^ (8 - n) * 2 ^ (8 - n)"
  by (simp only: byte_clear_low [OF _ bit_full_byte] byte_push_drop)

lemma div_mult_split:
  fixes x y a h :: nat
  assumes "2 ^ h dvd a" 
  shows "(x * a + y) div 2 ^ h * 2 ^ h = x * a + y div 2 ^ h * 2 ^ h"
proof -
  obtain c where "a = 2 ^ h * c" using assms by (elim dvdE)
  then have "x * a + y = y + (x * c) * 2 ^ h" by simp
  then have "(x * a + y) div 2 ^ h = (y + (x * c) * 2 ^ h) div 2 ^ h" by (simp only:)
  also have "\<dots> = x * c + y div 2 ^ h" by simp
  finally have "(x * a + y) div 2 ^ h = x * c + y div 2 ^ h" .
  then show ?thesis using \<open>a = 2 ^ h * c\<close> by (simp add: algebra_simps)
qed

lemma cidr_mask_zero: "and_bytes (cidr_mask 0 k) b = replicate (min k (length b)) 0"
proof (induction k arbitrary: b)
  case (Suc k)
  show ?case
  proof (cases b)
    case (Cons x xs)
    then show ?thesis using Suc [of xs] by (simp add: and_bytes_def)
  qed (simp add: and_bytes_def)
qed (simp add: and_bytes_def)

lemma be_nat_zeros [simp]: "be_nat (replicate k 0) = 0"
  by (induction k) (simp_all add: be_nat_Cons)

lemma masked_nat:
  "length b = k \<Longrightarrow> n \<le> 8 * k \<Longrightarrow>
   be_nat (and_bytes (cidr_mask n k) b) = be_nat b div 2 ^ (8 * k - n) * 2 ^ (8 * k - n)"
proof (induction n k arbitrary: b rule: cidr_mask.induct)
  case (2 ones k)
  then obtain x xs where b: "b = x # xs" "length xs = k" by (cases b) auto
  show ?case
  proof (cases "8 \<le> ones")
    case True
    have "and_bytes (cidr_mask ones (Suc k)) b = x # and_bytes (cidr_mask (ones - 8) k) xs"
      using True b by (simp add: and_bytes_def)
    moreover have "8 * Suc k - ones = 8 * k - (ones - 8)" using True 2(4) by simp
    moreover have "(2::nat) ^ (8 * k - (ones - 8)) dvd 256 ^ k"
    proof -
      have "(256::nat) ^ k = 2 ^ (8 * k)" by (simp add: power_mult)
      then show ?thesis by (simp add: le_imp_power_dvd)
    qed
    ultimately show ?thesis
      using 2(1) [OF True, of xs] b 2(4) True
      by (simp add: be_nat_Cons div_mult_split le_diff_conv)
  next
    case False
    then have "and_bytes (cidr_mask ones (Suc k)) b =
        (x AND NOT (drop_bit ones 0xff)) # replicate k 0"
      using b by (simp add: cidr_mask_zero [unfolded and_bytes_def] and_bytes_def)
    then have "be_nat (and_bytes (cidr_mask ones (Suc k)) b) =
        unat x div 2 ^ (8 - ones) * 2 ^ (8 - ones) * 256 ^ k"
      using byte_mask_low [of ones x] False by (simp add: be_nat_Cons)
    moreover have pow: "(2::nat) ^ (8 * Suc k - ones) = 2 ^ (8 - ones) * 256 ^ k"
    proof -
      have "8 * Suc k - ones = (8 - ones) + 8 * k" using False by simp
      then show ?thesis by (simp only: power_add power_mult) simp
    qed
    moreover have "be_nat b div 2 ^ (8 * Suc k - ones) = unat x div 2 ^ (8 - ones)"
    proof -
      have p: "(2::nat) ^ (8 * Suc k - ones) = 256 ^ k * 2 ^ (8 - ones)"
        using pow by simp
      have "be_nat b div 256 ^ k = unat x"
        using b be_nat_less [of xs] by (simp add: be_nat_Cons)
      then show ?thesis unfolding p by (simp add: div_mult2_eq)
    qed
    ultimately show ?thesis by simp
  qed
qed (simp add: and_bytes_def)

section \<open>Host bits as addition\<close>

definition le_nat :: "byte list \<Rightarrow> nat" where
  "le_nat bs = be_nat (rev bs)"

lemma le_nat_Cons: "le_nat (b # bs) = unat b + 256 * le_nat bs"
  by (simp add: le_nat_def be_nat_snoc)

lemma le_nat_Nil [simp]: "le_nat [] = 0"
  by (simp add: le_nat_def)

lemma byte_or_low:
  assumes "h \<le> 8"
  shows "unat ((b :: byte) OR (push_bit h 1 - 1)) = unat b div 2 ^ h * 2 ^ h + 2 ^ h - 1"
proof -
  have m: "push_bit h 1 - 1 = (mask h :: byte)" by (simp add: mask_eq_exp_minus_1 push_bit_eq_mult)
  have "b OR mask h = push_bit h (drop_bit h b) OR mask h"
    by (rule bit_eqI) (auto simp: bit_or_iff bit_mask_iff bit_push_bit_iff bit_drop_bit_eq)
  also have "unat \<dots> = unat (push_bit h (drop_bit h b)) OR unat (mask h :: byte)"
    by (simp add: unsigned_or_eq)
  also have "unat (push_bit h (drop_bit h b)) = unat b div 2 ^ h * 2 ^ h"
    by (rule byte_push_drop)
  also have "unat (mask h :: byte) = mask h"
  proof -
    have "h \<in> {0, 1, 2, 3, 4, 5, 6, 7, 8}" using assms by auto
    then show ?thesis by (elim insertE) (simp_all add: mask_eq_exp_minus_1)
  qed
  also have "unat b div 2 ^ h * 2 ^ h OR mask h = unat b div 2 ^ h * 2 ^ h + mask h"
  proof (rule disjunctive_add_eq_or [symmetric])
    show "unat b div 2 ^ h * 2 ^ h AND mask h = 0"
      by (simp add: take_bit_eq_mod flip: take_bit_eq_mask)
  qed
  finally show ?thesis unfolding m by (simp add: mask_eq_exp_minus_1)
qed

lemma le_nat_host_bits:
  "h \<le> 8 * length bs \<Longrightarrow> le_nat (set_host_bits h bs) = le_nat bs div 2 ^ h * 2 ^ h + 2 ^ h - 1"
proof (induction h bs rule: set_host_bits.induct)
  case (2 h b bs)
  show ?case
  proof (cases "h < 8")
    case True
    have "le_nat (b # bs) div 2 ^ h * 2 ^ h = unat b div 2 ^ h * 2 ^ h + 256 * le_nat bs"
    proof -
      have "(2::nat) ^ h dvd 256" using True le_imp_power_dvd [of h 8 "2::nat"] by simp
      from div_mult_split [OF this, of "le_nat bs" "unat b"] show ?thesis
        by (simp add: le_nat_Cons algebra_simps)
    qed
    moreover have "le_nat (set_host_bits h (b # bs)) = unat (b OR (push_bit h 1 - 1)) + 256 * le_nat bs"
      using True by (cases bs) (auto simp: le_nat_Cons)
    moreover have "0 < (2::nat) ^ h" by simp
    ultimately show ?thesis
      using byte_or_low [of h b] True by linarith
  next
    case False
    then have m: "min h 8 = 8" "h \<noteq> 0" by auto
    have b: "unat (b OR (push_bit 8 1 - 1)) = 255"
    proof -
      have "unat b div 2 ^ 8 = 0" using unsigned_less [of b, where ?'a = nat] by simp
      with byte_or_low [of 8 b] show ?thesis by simp
    qed
    have p: "(2::nat) ^ h = 256 * 2 ^ (h - 8)"
      using False power_add [of "2::nat" 8 "h - 8"] by simp
    have d: "le_nat (b # bs) div 2 ^ h = le_nat bs div 2 ^ (h - 8)"
    proof -
      have "(unat b + 256 * le_nat bs) div 256 = le_nat bs"
        using unsigned_less [of b, where ?'a = nat] by simp
      then show ?thesis unfolding p le_nat_Cons by (simp only: div_mult2_eq)
    qed
    have ih: "le_nat (set_host_bits (h - 8) bs) = le_nat bs div 2 ^ (h - 8) * 2 ^ (h - 8) + 2 ^ (h - 8) - 1"
      using 2(1) [of] m 2(2) by simp
    have "le_nat (set_host_bits h (b # bs)) = 255 + 256 * le_nat (set_host_bits (h - 8) bs)"
      using m b by (simp add: le_nat_Cons)
    moreover have "0 < (2::nat) ^ (h - 8)" by simp
    ultimately have "le_nat (set_host_bits h (b # bs)) = le_nat bs div 2 ^ (h - 8) * 2 ^ h + 2 ^ h - 1"
      unfolding ih p by (simp add: algebra_simps del: set_host_bits.simps)
    then show ?thesis by (simp only: d)
  qed
qed simp

lemma length_set_host_bits [simp]: "length (set_host_bits h bs) = length bs"
  by (induction h bs rule: set_host_bits.induct) auto

lemma set_host_bits_0 [simp]: "set_host_bits 0 bs = bs"
  by (cases bs) auto

lemma set_host_bits_append:
  "h \<le> 8 * length xs \<Longrightarrow> set_host_bits h (xs @ ys) = set_host_bits h xs @ ys"
  by (induction h xs rule: set_host_bits.induct) (auto simp: neq_Nil_conv split: if_splits)

section \<open>A prefix is an interval of addresses\<close>

definition host_bits :: "pfx \<Rightarrow> nat" where
  "host_bits p = 8 * length (abytes (paddr p)) - pbits p"

lemma Masked_nat:
  assumes "pfx_valid p"
  shows "be_nat (abytes (paddr (Masked p))) =
      be_nat (abytes (paddr p)) div 2 ^ host_bits p * 2 ^ host_bits p"
    and "length (abytes (paddr (Masked p))) = length (abytes (paddr p))"
    and "azone (paddr (Masked p)) = []"
  using assms masked_nat [of "abytes (paddr p)" _ "pbits p"]
  by (simp_all add: Masked_def pfx_valid_def BitLen_def host_bits_def)

lemma lastAddr_bytes:
  assumes "pfx_valid p"
  shows "lastAddr p = Addr (rev (set_host_bits (host_bits p) (rev (abytes (paddr (Masked p)))))) []"
proof -
  let ?b = "abytes (paddr (Masked p))"
  have len: "length ?b = length (abytes (paddr p))" using Masked_nat(2) [OF assms] .
  show ?thesis
  proof (cases "Is4 (paddr p)")
    case True
    then have l: "length ?b = 4" "host_bits p = 32 - pbits p" using len by (auto simp: Is4_def host_bits_def)
    then have "rev (set_host_bits (32 - pbits p) (rev (v4_in_v6_prefix @ ?b))) =
        v4_in_v6_prefix @ rev (set_host_bits (32 - pbits p) (rev ?b))"
      by (simp add: set_host_bits_append)
    moreover have "As16 (paddr (Masked p)) = v4_in_v6_prefix @ ?b" using l by (simp add: As16_def Is4_def)
    moreover have "length v4_in_v6_prefix = 12" by (simp add: v4_in_v6_prefix_def)
    ultimately show ?thesis
      using True l by (simp add: lastAddr_def Let_def Unmap_def Is4In6_def Is6_def)
  next
    case False
    then have l: "length ?b = 16" "host_bits p = 128 - pbits p"
      using len assms by (auto simp: Is4_def host_bits_def pfx_valid_def IsValid_def Is6_def)
    then show ?thesis using False by (simp add: lastAddr_def Let_def As16_def Is4_def)
  qed
qed

lemma lastAddr_nat:
  assumes "pfx_valid p"
  shows "be_nat (abytes (lastAddr p)) =
      be_nat (abytes (paddr p)) div 2 ^ host_bits p * 2 ^ host_bits p + (2 ^ host_bits p - 1)"
    and "length (abytes (lastAddr p)) = length (abytes (paddr p))"
    and "azone (lastAddr p) = []"
proof -
  let ?b = "abytes (paddr (Masked p))" and ?h = "host_bits p"
  have h: "?h \<le> 8 * length (rev ?b)" using Masked_nat(2) [OF assms] by (simp add: host_bits_def)
  have "be_nat (abytes (lastAddr p)) = le_nat (set_host_bits ?h (rev ?b))"
    by (simp add: lastAddr_bytes [OF assms] le_nat_def)
  also have "\<dots> = be_nat ?b div 2 ^ ?h * 2 ^ ?h + 2 ^ ?h - 1"
    using le_nat_host_bits [OF h] by (simp add: le_nat_def)
  finally show "be_nat (abytes (lastAddr p)) =
      be_nat (abytes (paddr p)) div 2 ^ ?h * 2 ^ ?h + (2 ^ ?h - 1)"
    using Masked_nat(1) [OF assms] by simp
  show "length (abytes (lastAddr p)) = length (abytes (paddr p))" "azone (lastAddr p) = []"
    using Masked_nat(2) [OF assms] by (simp_all add: lastAddr_bytes [OF assms])
qed

text \<open>Containment is being between the first and the last address.\<close>

definition range_holds :: "addr_range \<Rightarrow> addr \<Rightarrow> bool" where
  "range_holds r a \<longleftrightarrow> addr_rank (rgFrom r) \<le> addr_rank a \<and> addr_rank a \<le> addr_rank (rgTo r)"

definition plain_addr :: "addr \<Rightarrow> bool" where
  "plain_addr a \<longleftrightarrow> IsValid a \<and> azone a = []"

lemma be_nat4: "length b = 4 \<Longrightarrow> be_nat b < 2 ^ 32"
  using be_nat_less [of b] by simp

lemma Contains_nat:
  assumes "pfx_valid p" "plain_addr a"
  shows "Contains p a \<longleftrightarrow> length (abytes a) = length (abytes (paddr p)) \<and>
    be_nat (abytes a) div 2 ^ host_bits p = be_nat (abytes (paddr p)) div 2 ^ host_bits p"
proof (cases "length (abytes a) = length (abytes (paddr p))")
  case True
  let ?m = "cidr_mask (pbits p) (length (abytes a))"
  have n: "be_nat (and_bytes ?m (abytes a)) = be_nat (abytes a) div 2 ^ host_bits p * 2 ^ host_bits p"
    "be_nat (and_bytes ?m (abytes (paddr p))) =
       be_nat (abytes (paddr p)) div 2 ^ host_bits p * 2 ^ host_bits p"
    using assms(1) True masked_nat [of "abytes a" _ "pbits p"] masked_nat [of "abytes (paddr p)" _ "pbits p"]
    by (simp_all add: host_bits_def pfx_valid_def BitLen_def)
  have "and_bytes ?m (abytes a) = and_bytes ?m (abytes (paddr p)) \<longleftrightarrow>
      be_nat (and_bytes ?m (abytes a)) = be_nat (and_bytes ?m (abytes (paddr p)))"
    using be_nat_inj [of "and_bytes ?m (abytes a)" "and_bytes ?m (abytes (paddr p))"] True by auto
  with True n assms(2) show ?thesis by (simp add: Contains_def plain_addr_def)
qed (simp add: Contains_def)

lemma div_interval: "(x::nat) div k = y div k \<longleftrightarrow> y div k * k \<le> x \<and> x \<le> y div k * k + (k - 1)" if "0 < k"
proof
  assume "x div k = y div k"
  then have "x = y div k * k + x mod k" by (metis div_mult_mod_eq)
  moreover have "x mod k \<le> k - 1" using that mod_less_divisor [of k x] by linarith
  ultimately show "y div k * k \<le> x \<and> x \<le> y div k * k + (k - 1)" by linarith
next
  assume "y div k * k \<le> x \<and> x \<le> y div k * k + (k - 1)"
  then have "x = y div k * k + (x - y div k * k)" "x - y div k * k < k" using that by linarith+
  then show "x div k = y div k" by (metis div_less div_mult_self1 add.right_neutral add.commute that
        less_not_refl)
qed

lemma addr_rank_family:
  "length (abytes a) = 4 \<Longrightarrow> addr_rank a < 2 ^ 32" "length (abytes a) = 16 \<Longrightarrow> 2 ^ 32 \<le> addr_rank a"
  using be_nat4 [of "abytes a"] by (simp_all add: addr_rank_def Is4_def)

lemma plain_addr_length: "plain_addr a \<Longrightarrow> length (abytes a) = 4 \<or> length (abytes a) = 16"
  by (auto simp: plain_addr_def IsValid_def Is4_def Is6_def)

lemma addr_rank_inj: "plain_addr a \<Longrightarrow> plain_addr b \<Longrightarrow> addr_rank a = addr_rank b \<Longrightarrow> a = b"
  using plain_addr_length [of a] plain_addr_length [of b] addr_rank_family [of a] addr_rank_family [of b]
    be_nat_inj [of "abytes a" "abytes b"]
  by (cases a; cases b) (auto simp: addr_rank_def Is4_def plain_addr_def)

text \<open>A range both of whose ends are addresses of one family, in order.\<close>

definition range_ok :: "addr_range \<Rightarrow> bool" where
  "range_ok r \<longleftrightarrow> plain_addr (rgFrom r) \<and> plain_addr (rgTo r) \<and>
     length (abytes (rgFrom r)) = length (abytes (rgTo r)) \<and> addr_rank (rgFrom r) \<le> addr_rank (rgTo r)"

lemma prefix_range_ok:
  assumes "pfx_valid p"
  shows "range_ok \<lparr> rgFrom = paddr (Masked p), rgTo = lastAddr p \<rparr>"
proof -
  have le: "(x::nat) \<le> x + 2 ^ host_bits p - Suc 0" for x
    using one_le_power [of "2::nat" "host_bits p"] by linarith
  from assms Masked_nat [OF assms] lastAddr_nat [OF assms] show ?thesis
    by (auto simp: range_ok_def plain_addr_def pfx_valid_def IsValid_def Is4_def Is6_def addr_rank_def
        intro: le)
qed

lemma prefix_range_holds:
  assumes p: "pfx_valid p" and a: "plain_addr a"
  shows "range_holds \<lparr> rgFrom = paddr (Masked p), rgTo = lastAddr p \<rparr> a \<longleftrightarrow> Contains p a"
proof (cases "length (abytes a) = length (abytes (paddr p))")
  case True
  have "Is4 (paddr (Masked p)) = Is4 a" "Is4 (lastAddr p) = Is4 a"
    using True Masked_nat(2) [OF p] lastAddr_nat(2) [OF p] by (simp_all add: Is4_def)
  then show ?thesis
    using Contains_nat [OF p a] True Masked_nat(1) [OF p] lastAddr_nat(1) [OF p]
      div_interval [of "2 ^ host_bits p" "be_nat (abytes a)" "be_nat (abytes (paddr p))"]
    by (auto simp: range_holds_def addr_rank_def)
next
  case False
  have "length (abytes (paddr p)) = 4 \<or> length (abytes (paddr p)) = 16"
    using p by (auto simp: pfx_valid_def IsValid_def Is4_def Is6_def)
  with False plain_addr_length [OF a] have "\<not> range_holds \<lparr> rgFrom = paddr (Masked p), rgTo = lastAddr p \<rparr> a"
    using addr_rank_family [of a] addr_rank_family [of "lastAddr p"] addr_rank_family [of "paddr (Masked p)"]
      Masked_nat(2) [OF p] lastAddr_nat(2) [OF p]
    by (auto simp: range_holds_def)
  with False show ?thesis by (simp add: Contains_def)
qed

section \<open>Merging\<close>

text \<open>Two ranges with a gap between them: neither overlapping nor adjacent.\<close>

definition apart :: "addr_range \<Rightarrow> addr_range \<Rightarrow> bool" where
  "apart r s \<longleftrightarrow> addr_rank (rgTo r) < addr_rank (rgFrom s) \<and> addr_next (rgTo r) \<noteq> Some (rgFrom s)"

lemma addr_next_rank:
  assumes "plain_addr a" "addr_next a = Some b"
  shows "plain_addr b" "addr_rank b = addr_rank a + 1" "length (abytes b) = length (abytes a)"
proof -
  let ?w = "length (abytes a)"
  have b: "b = Addr (be_bytes ?w (be_nat (abytes a) + 1)) []" and top: "be_nat (abytes a) + 1 \<noteq> 256 ^ ?w"
    using assms by (auto simp: addr_next_def Let_def plain_addr_def split: if_splits)
  have "be_nat (abytes b) = be_nat (abytes a) + 1"
    using be_nat_less [of "abytes a"] top by (simp add: b be_nat_be_bytes)
  moreover show l: "length (abytes b) = ?w" by (simp add: b)
  ultimately show "addr_rank b = addr_rank a + 1" by (simp add: addr_rank_def Is4_def)
  show "plain_addr b" using assms(1) l by (simp add: plain_addr_def IsValid_def Is4_def Is6_def b)
qed

lemma merge_step_snoc:
  "merge_step (out @ [l]) r =
     (if addr_rank (rgFrom r) \<le> addr_rank (rgTo l) \<or> addr_next (rgTo l) = Some (rgFrom r)
      then out @ [if addr_rank (rgTo r) > addr_rank (rgTo l) then l\<lparr>rgTo := rgTo r\<rparr> else l]
      else out @ [l, r])"
  by (simp add: merge_step_def Let_def)

definition merged :: "addr_range list \<Rightarrow> bool" where
  "merged out \<longleftrightarrow> list_all range_ok out \<and> sorted_wrt apart out"

definition holds_any :: "addr_range list \<Rightarrow> addr \<Rightarrow> bool" where
  "holds_any rs a \<longleftrightarrow> (\<exists>r\<in>set rs. range_holds r a)"

lemma apart_from: "apart r s \<Longrightarrow> range_ok r \<Longrightarrow> addr_rank (rgFrom r) < addr_rank (rgFrom s)"
  by (auto simp: apart_def range_ok_def)

text \<open>One step keeps the output merged and adds exactly the range's addresses.\<close>

lemma merge_step_correct:
  assumes out: "merged out" and r: "range_ok r"
    and order: "\<And>s. s \<in> set out \<Longrightarrow> addr_rank (rgFrom s) \<le> addr_rank (rgFrom r)"
  shows "merged (merge_step out r) \<and>
    (\<forall>a. plain_addr a \<longrightarrow> holds_any (merge_step out r) a = (holds_any out a \<or> range_holds r a)) \<and>
    (\<forall>s\<in>set (merge_step out r). addr_rank (rgFrom s) \<le> addr_rank (rgFrom r))"
proof (cases out rule: rev_cases)
  case Nil
  with r show ?thesis by (auto simp: merge_step_def merged_def holds_any_def)
next
  case (snoc xs l)
  have lok: "range_ok l" and ap: "\<And>s. s \<in> set xs \<Longrightarrow> apart s l"
    and xs: "list_all range_ok xs" "sorted_wrt apart xs"
    using out snoc by (auto simp: merged_def sorted_wrt_append)
  have le: "addr_rank (rgFrom l) \<le> addr_rank (rgFrom r)" using order snoc by simp
  show ?thesis
  proof (cases "addr_rank (rgFrom r) \<le> addr_rank (rgTo l) \<or> addr_next (rgTo l) = Some (rgFrom r)")
    case touch: True
    let ?new = "if addr_rank (rgTo r) > addr_rank (rgTo l) then l\<lparr>rgTo := rgTo r\<rparr> else l"
    have nxt: "addr_next (rgTo l) = Some (rgFrom r) \<Longrightarrow>
        addr_rank (rgFrom r) = addr_rank (rgTo l) + 1 \<and>
        length (abytes (rgFrom r)) = length (abytes (rgTo l))"
      using addr_next_rank [of "rgTo l" "rgFrom r"] lok by (auto simp: range_ok_def)
    have reach: "addr_rank (rgFrom r) \<le> addr_rank (rgTo l) + 1" using touch nxt by auto
    have family: "length (abytes (rgTo r)) = length (abytes (rgFrom l))"
    proof -
      have "length (abytes (rgFrom r)) = length (abytes (rgTo l))"
      proof (cases "addr_next (rgTo l) = Some (rgFrom r)")
        case False
        then show ?thesis
          using touch le r lok addr_rank_family [of "rgFrom r"] addr_rank_family [of "rgTo l"]
            addr_rank_family [of "rgFrom l"]
          by (auto simp: range_ok_def dest!: plain_addr_length)
      qed (use nxt in simp)
      with r lok show ?thesis by (simp add: range_ok_def)
    qed
    have new_ok: "range_ok ?new" using r lok family by (auto simp: range_ok_def)
    moreover have "apart s ?new" if "s \<in> set xs" for s using ap [OF that] by (simp add: apart_def)
    moreover have "range_holds ?new a \<longleftrightarrow> range_holds l a \<or> range_holds r a" for a
      using reach le r lok by (auto simp: range_holds_def range_ok_def)
    ultimately show ?thesis
      using touch xs le order unfolding snoc
      by (auto simp: merge_step_snoc merged_def holds_any_def sorted_wrt_append)
  next
    case False
    then have "apart l r" by (simp add: apart_def)
    moreover have "apart s r" if "s \<in> set xs" for s
    proof -
      have "addr_rank (rgTo s) < addr_rank (rgFrom l)" using ap [OF that] by (simp add: apart_def)
      also have "\<dots> \<le> addr_rank (rgTo l)" using lok by (simp add: range_ok_def)
      finally have lt: "addr_rank (rgTo s) + 1 < addr_rank (rgFrom r)" using False by auto
      have "plain_addr (rgTo s)" using that xs by (auto simp: list_all_iff range_ok_def)
      with lt addr_next_rank(2) [of "rgTo s"] show ?thesis by (fastforce simp: apart_def)
    qed
    ultimately show ?thesis
      using False xs lok r order ap unfolding snoc
      by (auto simp: merge_step_snoc merged_def holds_any_def sorted_wrt_append)
  qed
qed

lemma merge_fold_correct:
  assumes "merged out" "list_all range_ok rs" "sorted (map (\<lambda>r. addr_rank (rgFrom r)) rs)"
    "\<And>s r. s \<in> set out \<Longrightarrow> r \<in> set rs \<Longrightarrow> addr_rank (rgFrom s) \<le> addr_rank (rgFrom r)"
  shows "merged (foldl merge_step out rs) \<and>
    (\<forall>a. plain_addr a \<longrightarrow> holds_any (foldl merge_step out rs) a = (holds_any out a \<or> holds_any rs a))"
  using assms
proof (induction rs arbitrary: out)
  case (Cons r rs)
  have "range_ok r" using Cons(3) by simp
  note step = merge_step_correct [OF Cons(2) this]
  have one: "merged (merge_step out r)"
    "\<And>a. plain_addr a \<Longrightarrow> holds_any (merge_step out r) a = (holds_any out a \<or> range_holds r a)"
    "\<And>s. s \<in> set (merge_step out r) \<Longrightarrow> addr_rank (rgFrom s) \<le> addr_rank (rgFrom r)"
    using step Cons(5) by auto
  have "addr_rank (rgFrom s) \<le> addr_rank (rgFrom x)" if "s \<in> set (merge_step out r)" "x \<in> set rs" for s x
    using one(3) [OF that(1)] Cons(4) that(2) by fastforce
  from Cons(1) [OF one(1) _ _ this] Cons(3,4) one(2) show ?case
    by (auto simp: holds_any_def)
qed (simp add: holds_any_def)

lemma mergeRanges_correct:
  "merged (mergeRanges ps)"
  "plain_addr a \<Longrightarrow> holds_any (mergeRanges ps) a \<longleftrightarrow> (\<exists>p\<in>set ps. pfx_valid p \<and> Contains p a)"
proof -
  let ?rs = "sort_key (\<lambda>r. addr_rank (rgFrom r)) (prefix_ranges ps)"
  have ok: "list_all range_ok ?rs" by (auto simp: list_all_iff prefix_ranges_def prefix_range_ok)
  have f: "merged (foldl merge_step [] ?rs) \<and>
      (\<forall>a. plain_addr a \<longrightarrow> holds_any (foldl merge_step [] ?rs) a = (holds_any [] a \<or> holds_any ?rs a))"
    by (rule merge_fold_correct [OF _ ok]) (simp_all add: merged_def)
  then show "merged (mergeRanges ps)" by (simp add: mergeRanges_def)
  show "plain_addr a \<Longrightarrow> holds_any (mergeRanges ps) a \<longleftrightarrow> (\<exists>p\<in>set ps. pfx_valid p \<and> Contains p a)"
    using f by (auto simp: mergeRanges_def holds_any_def prefix_ranges_def prefix_range_holds)
qed

section \<open>The families of a merged list\<close>

lemma bsearch_partitioned:
  assumes "i \<le> n" "n \<le> j" "j \<le> length xs"
    and "\<And>k. k < length xs \<Longrightarrow> below (xs ! k) \<longleftrightarrow> k < n"
  shows "bsearch below xs i j = n"
  using assms
proof (induction below xs i j rule: bsearch.induct)
  case (1 below xs i j)
  show ?case
  proof (cases "i < j")
    case True
    define h where "h = (i + j) div 2"
    have h: "i \<le> h" "h < j" using True by (auto simp: h_def)
    have b: "below (xs ! h) \<longleftrightarrow> h < n" using 1(6) h(2) 1(5) by simp
    have "bsearch below xs (h + 1) j = n" if "h < n"
      using 1(1) [OF True h_def] b that 1(4-6) by simp
    moreover have "bsearch below xs i h = n" if "\<not> h < n"
      using 1(2) [OF True h_def] b that 1(3,5,6) h(2) by simp
    ultimately show ?thesis
      using True b by (subst bsearch.simps) (simp add: Let_def flip: h_def)
  qed (use 1 in \<open>subst bsearch.simps, simp\<close>)
qed

lemma split_partitioned:
  assumes "sorted_wrt (\<lambda>x y. below y \<longrightarrow> below x) xs"
  defines "i \<equiv> bsearch below xs 0 (length xs)"
  shows "take i xs = filter below xs" "drop i xs = filter (\<lambda>x. \<not> below x) xs"
proof -
  let ?n = "length (takeWhile below xs)"
  have tw: "takeWhile below xs = filter below xs \<and> dropWhile below xs = filter (\<lambda>x. \<not> below x) xs"
    using assms(1)
  proof (induction xs)
    case (Cons x xs)
    then show ?case by (cases "below x") (auto simp: filter_empty_conv filter_id_conv)
  qed simp
  have "below (xs ! k) \<longleftrightarrow> k < ?n" if "k < length xs" for k
  proof (cases "k < ?n")
    case True
    then show ?thesis using nth_mem [OF True] set_takeWhileD [of "xs ! k" below xs]
      by (simp add: takeWhile_nth)
  next
    case False
    then have "xs ! k = drop ?n xs ! (k - ?n)" "k - ?n < length (drop ?n xs)" using that by auto
    then have "xs ! k \<in> set (dropWhile below xs)" by (metis nth_mem dropWhile_eq_drop)
    then show ?thesis using tw False by auto
  qed
  then have "i = ?n"
    unfolding i_def by (intro bsearch_partitioned) (simp_all add: length_takeWhile_le)
  then show "take i xs = filter below xs" "drop i xs = filter (\<lambda>x. \<not> below x) xs"
    using tw by (metis takeWhile_eq_take, metis dropWhile_eq_drop)
qed

lemma splitFamilies_merged:
  assumes "merged rs"
  shows "splitFamilies rs = (filter (\<lambda>r. Is4 (rgFrom r)) rs, filter (\<lambda>r. \<not> Is4 (rgFrom r)) rs)"
proof -
  have "sorted_wrt (\<lambda>x y. Is4 (rgFrom y) \<longrightarrow> Is4 (rgFrom x)) rs"
  proof (rule sorted_wrt_mono_rel [of rs apart])
    fix x y
    assume "x \<in> set rs" "y \<in> set rs" and ap: "apart x y"
    with assms have ok: "range_ok x" "range_ok y" by (auto simp: merged_def list_all_iff)
    show "Is4 (rgFrom y) \<longrightarrow> Is4 (rgFrom x)"
      using apart_from [OF ap ok(1)] ok plain_addr_length [of "rgFrom x"]
        addr_rank_family [of "rgFrom x"] addr_rank_family [of "rgFrom y"]
      by (auto simp: range_ok_def Is4_def)
  qed (use assms in \<open>simp add: merged_def\<close>)
  from split_partitioned [OF this] show ?thesis by (simp add: splitFamilies_def Let_def)
qed

section \<open>The set the kernel keeps\<close>

text \<open>
  Membership in an interval set, as the kernel documents it: a key belongs when the last element
  at or below it opens an interval.
\<close>

definition interval_holds :: "set_element list \<Rightarrow> byte list \<Rightarrow> bool" where
  "interval_holds es k \<longleftrightarrow>
     (\<exists>e\<in>set es. \<not> IntervalEnd e \<and> be_nat (seKey e) \<le> be_nat k \<and>
       (\<forall>x\<in>set es. IntervalEnd x \<longrightarrow> \<not> (be_nat (seKey e) < be_nat (seKey x) \<and> be_nat (seKey x) \<le> be_nat k)))"

lemma interval_holds_cong: "set es = set es' \<Longrightarrow> interval_holds es k = interval_holds es' k"
  by (simp add: interval_holds_def)

text \<open>Within one family the order of keys is the order of addresses.\<close>

lemma addr_rank_width:
  "length (abytes a) = length (abytes b) \<Longrightarrow>
     (addr_rank a \<le> addr_rank b \<longleftrightarrow> be_nat (abytes a) \<le> be_nat (abytes b)) \<and>
     (addr_rank a < addr_rank b \<longleftrightarrow> be_nat (abytes a) < be_nat (abytes b))"
  by (simp add: addr_rank_def Is4_def)

text \<open>The elements of one range, within its family: where it opens and where it has closed.\<close>

definition range_stops :: "addr_range \<Rightarrow> nat \<Rightarrow> bool" where
  "range_stops r n \<longleftrightarrow> (\<exists>stop. addr_next (rgTo r) = Some stop \<and> be_nat (abytes stop) = n)"

lemma rangeElements_opens:
  "(\<exists>e\<in>set (rangeElements rs). \<not> IntervalEnd e \<and> P (seKey e)) \<longleftrightarrow> (\<exists>r\<in>set rs. P (abytes (rgFrom r)))"
proof -
  have "(\<exists>e\<in>set (range_elements1 r). \<not> IntervalEnd e \<and> P (seKey e)) \<longleftrightarrow> P (abytes (rgFrom r))" for r
    by (cases "addr_next (rgTo r)") (simp_all add: range_elements1_def)
  then show ?thesis by (simp add: rangeElements_def)
qed

lemma rangeElements_closes:
  "(\<forall>e\<in>set (rangeElements rs). IntervalEnd e \<longrightarrow> Q (be_nat (seKey e))) \<longleftrightarrow>
   (\<forall>s\<in>set rs. \<forall>n. range_stops s n \<longrightarrow> Q n)"
proof -
  have "(\<forall>e\<in>set (range_elements1 r). IntervalEnd e \<longrightarrow> Q (be_nat (seKey e))) \<longleftrightarrow>
      (\<forall>n. range_stops r n \<longrightarrow> Q n)" for r
    by (cases "addr_next (rgTo r)") (simp_all add: range_elements1_def range_stops_def)
  then show ?thesis by (simp add: rangeElements_def)
qed

lemma interval_rangeElements:
  "interval_holds (rangeElements rs) k \<longleftrightarrow>
     (\<exists>r\<in>set rs. be_nat (abytes (rgFrom r)) \<le> be_nat k \<and>
       (\<forall>s\<in>set rs. \<forall>n. range_stops s n \<longrightarrow> \<not> (be_nat (abytes (rgFrom r)) < n \<and> n \<le> be_nat k)))"
  unfolding interval_holds_def
    rangeElements_closes [where Q = "\<lambda>n. \<not> (be_nat (seKey _) < n \<and> n \<le> be_nat k)"]
  by (rule rangeElements_opens)

lemma range_stops_rank:
  assumes "range_ok r" "length (abytes (rgFrom r)) = w" "range_stops r n"
  shows "n = be_nat (abytes (rgTo r)) + 1"
  using assms addr_next_rank [of "rgTo r"]
  by (auto simp: range_stops_def range_ok_def addr_rank_def Is4_def split: if_splits)

lemma range_no_stop:
  assumes "range_ok r" "length (abytes (rgFrom r)) = length k" "\<And>n. \<not> range_stops r n"
  shows "be_nat k \<le> be_nat (abytes (rgTo r))"
proof -
  have "be_nat (abytes (rgTo r)) + 1 = 256 ^ length (abytes (rgTo r))"
    using assms(3) by (cases "be_nat (abytes (rgTo r)) + 1 = 256 ^ length (abytes (rgTo r))")
      (auto simp: range_stops_def addr_next_def Let_def)
  then show ?thesis using be_nat_less [of k] assms(1,2) by (simp add: range_ok_def)
qed

lemma interval_holds_ranges:
  assumes m: "merged rs" and w: "\<And>r. r \<in> set rs \<Longrightarrow> length (abytes (rgFrom r)) = length k"
  shows "interval_holds (rangeElements rs) k \<longleftrightarrow> holds_any rs (Addr k [])"
proof -
  have ok: "range_ok r" if "r \<in> set rs" for r using m that by (auto simp: merged_def list_all_iff)
  have val: "range_holds r (Addr k []) \<longleftrightarrow>
      be_nat (abytes (rgFrom r)) \<le> be_nat k \<and> be_nat k \<le> be_nat (abytes (rgTo r))" if "r \<in> set rs" for r
    using w [OF that] ok [OF that] addr_rank_width [of "rgFrom r" "Addr k []"]
      addr_rank_width [of "Addr k []" "rgTo r"]
    by (simp add: range_holds_def range_ok_def)
  have order: "r = s \<or> be_nat (abytes (rgTo r)) < be_nat (abytes (rgFrom s)) \<or>
      be_nat (abytes (rgTo s)) < be_nat (abytes (rgFrom r))" if "r \<in> set rs" "s \<in> set rs" for r s
  proof -
    have "r = s \<or> apart r s \<or> apart s r"
      using m that by (metis merged_def sorted_wrt_iff_nth_less in_set_conv_nth nat_neq_iff)
    then show ?thesis
      using addr_rank_width [of "rgTo r" "rgFrom s"] addr_rank_width [of "rgTo s" "rgFrom r"]
        ok [OF that(1)] ok [OF that(2)] w [OF that(1)] w [OF that(2)]
      by (auto simp: apart_def range_ok_def)
  qed
  have le: "be_nat (abytes (rgFrom r)) \<le> be_nat (abytes (rgTo r))" if "r \<in> set rs" for r
    using ok [OF that] addr_rank_width [of "rgFrom r" "rgTo r"] by (simp add: range_ok_def)
  show ?thesis
  proof
    assume "interval_holds (rangeElements rs) k"
    then obtain r where r: "r \<in> set rs" "be_nat (abytes (rgFrom r)) \<le> be_nat k"
      "\<And>n. range_stops r n \<Longrightarrow> \<not> (be_nat (abytes (rgFrom r)) < n \<and> n \<le> be_nat k)"
      unfolding interval_rangeElements by blast
    have "be_nat k \<le> be_nat (abytes (rgTo r))"
    proof (cases "\<exists>n. range_stops r n")
      case True
      then obtain n where n: "range_stops r n" by blast
      then show ?thesis
        using r(3) [OF n] range_stops_rank [OF ok [OF r(1)] refl n] le [OF r(1)] by linarith
    next
      case False
      then show ?thesis using range_no_stop [OF ok [OF r(1)] w [OF r(1)]] by blast
    qed
    with r val show "holds_any rs (Addr k [])" by (auto simp: holds_any_def)
  next
    assume "holds_any rs (Addr k [])"
    then obtain r where r: "r \<in> set rs" "be_nat (abytes (rgFrom r)) \<le> be_nat k"
      "be_nat k \<le> be_nat (abytes (rgTo r))" using val by (auto simp: holds_any_def)
    have "\<not> (be_nat (abytes (rgFrom r)) < n \<and> n \<le> be_nat k)" if "s \<in> set rs" "range_stops s n" for s n
      using range_stops_rank [OF ok [OF that(1)] refl that(2)] order [OF r(1) that(1)] le [OF that(1)] r(3)
      by auto
    with r show "interval_holds (rangeElements rs) k" unfolding interval_rangeElements by blast
  qed
qed

end
