(* ===== verification/FeedKernel.thy ===== *)
theory FeedKernel
  imports FeedRanges InputChain
begin

text \<open>
  From a feed's prefixes to the packets its rules drop: the elements go to the kernel in messages
  of bounded size that add up to the whole set, nothing else in the batch touches that set, and
  so the set holds exactly the addresses of the feed's prefixes.  The same for a refresh, which
  empties and fills the two sets of a feed in place.
\<close>

section \<open>Messages\<close>

lemma addFeedElements_simps:
  "addFeedElements mg st [] = Inr []"
  "rs \<noteq> [] \<Longrightarrow> addFeedElements mg st rs =
     (let n = min (feedRangesPerChunk (stKeyLen st = 16)) (length rs); els = rangeElements (take n rs) in
      if mgAddElementsErr mg (stName st) els then Inl (stName st)
      else (case addFeedElements mg st (drop n rs) of
              Inl e \<Rightarrow> Inl e | Inr cs \<Rightarrow> Inr (AddElements (stName st) els # cs)))"
  by (simp_all add: addFeedElements.simps)

lemma rangeElements_append: "rangeElements (xs @ ys) = rangeElements xs @ rangeElements ys"
  by (simp add: rangeElements_def)

lemma rangeElements_length: "length (rangeElements rs) \<le> 2 * length rs"
proof (induction rs)
  case (Cons r rs)
  moreover have "length (range_elements1 r) \<le> 2"
    by (simp add: range_elements1_def split: option.splits)
  ultimately show ?case by (simp add: rangeElements_def)
qed (simp add: rangeElements_def)

text \<open>One message: it fills the set it names, from no more ranges than fit.\<close>

definition element_message :: "set_spec \<Rightarrow> cmd \<Rightarrow> bool" where
  "element_message st c \<longleftrightarrow>
     (\<exists>rs. c = AddElements (stName st) (rangeElements rs) \<and> rs \<noteq> [] \<and>
       length rs \<le> feedRangesPerChunk (stKeyLen st = 16))"

lemma addFeedElements_messages:
  assumes "addFeedElements mg st rs = Inr cs"
  shows "list_all (element_message st) cs \<and>
    set_after n s cs = (if n = stName st then s @ rangeElements rs else s)"
  using assms
proof (induction mg st rs arbitrary: cs s rule: addFeedElements.induct)
  case (1 mg st rs)
  show ?case
  proof (cases "rs = []")
    case True
    with 1(2) show ?thesis by (simp add: addFeedElements_simps rangeElements_def)
  next
    case False
    define k where "k = min (feedRangesPerChunk (stKeyLen st = 16)) (length rs)"
    have err: "\<not> mgAddElementsErr mg (stName st) (rangeElements (take k rs))"
      using 1(2) False by (auto simp: addFeedElements_simps Let_def k_def split: if_splits)
    obtain ds where ds: "addFeedElements mg st (drop k rs) = Inr ds"
      "cs = AddElements (stName st) (rangeElements (take k rs)) # ds"
      using 1(2) False err by (auto simp: addFeedElements_simps Let_def k_def [symmetric] split: sum.splits)
    have "element_message st (AddElements (stName st) (rangeElements (take k rs)))"
      unfolding element_message_def using False feedRangesPerChunk_pos
      by (intro exI [of _ "take k rs"]) (simp add: k_def)
    moreover have "rangeElements (take k rs) @ rangeElements (drop k rs) = rangeElements rs"
      by (simp flip: rangeElements_append)
    ultimately show ?thesis
      using 1(1) [OF False k_def refl err ds(1)] ds(2) by auto
  qed
qed

lemma addFeedElements_total:
  assumes "\<And>n es. \<not> mgAddElementsErr mg n es"
  shows "\<exists>cs. addFeedElements mg st rs = Inr cs"
  using assms
proof (induction mg st rs rule: addFeedElements.induct)
  case (1 mg st rs)
  show ?case
  proof (cases "rs = []")
    case False
    from 1(1) [OF False refl refl] 1(2) False show ?thesis
      by (auto simp: addFeedElements_simps Let_def)
  qed (simp add: addFeedElements_simps)
qed

text \<open>
  The size of one message: at the bytes a range takes on the wire, the element list stays within
  what a netlink attribute can carry.
\<close>

lemma chunk_bytes:
  "n \<le> feedRangesPerChunk v6 \<Longrightarrow>
     n * (if v6 then feedRangeBytesV6 else feedRangeBytesV4) \<le> maxElemListBytes"
  by (auto simp: feedRangesPerChunk_def feedRangeBytesV4_def feedRangeBytesV6_def maxElemListBytes_def)

section \<open>What else a batch holds\<close>

definition keeps_sets :: "cmd list \<Rightarrow> bool" where
  "keeps_sets cs \<longleftrightarrow>
     list_all (\<lambda>c. case c of AddElements _ _ \<Rightarrow> False | FlushSet _ \<Rightarrow> False | DelTable \<Rightarrow> False | _ \<Rightarrow> True) cs"

lemma keeps_sets_simps [simp]:
  "keeps_sets []" "keeps_sets (xs @ ys) \<longleftrightarrow> keeps_sets xs \<and> keeps_sets ys"
  "keeps_sets (AddRule c es tag # cs) = keeps_sets cs" "keeps_sets (AddSet st # cs) = keeps_sets cs"
  "keeps_sets (AddChain c bc # cs) = keeps_sets cs" "keeps_sets (AddTable # cs) = keeps_sets cs"
  "keeps_sets (concat xss) \<longleftrightarrow> (\<forall>xs\<in>set xss. keeps_sets xs)"
  by (auto simp: keeps_sets_def list_all_iff)

lemma set_after_keeps: "keeps_sets cs \<Longrightarrow> set_after n s cs = s"
  by (induction n s cs rule: set_after.induct) (auto simp: keeps_sets_def)

lemma keeps_sets_map [simp]: "keeps_sets (map (\<lambda>x. AddRule (c x) (g x) (t x)) xs)"
  by (induction xs) auto

lemma keeps_add_rules [simp]: "keeps_sets (add_rules c rs)"
  unfolding add_rules_def by (simp add: case_prod_unfold)

lemmas keeps_defs = addLogged_def addFiltered_def addOverRateChain_def addPerSourceRateLimit_def

lemma keeps_logged [simp]:
  "keeps_sets (addLogged mg c match lg tag action)" "keeps_sets (addFiltered mg c match e lg)"
  "keeps_sets (addOverRateChain mg c lg)" "keeps_sets (addPerSourceRateLimit mg c g r target)"
  by (simp_all add: keeps_defs addrFamilies_def)

lemma keeps_protections:
  "keeps_sets (protection_modules mg rs opts cidrs)"
  unfolding protection_modules_def fragment_chain_def
  by (auto simp: addPortScanPrevention_def addSYNFloodProtection_def addInvalidPacketDrop_def
      addFragmentDrop_def addBogonFilter_def bogon_exempt_def bogon_port_exempt_def bogon_drop_def
      addSSHBruteForce_def addConnectionLimit_def addBroadcastDrop_def addMulticastDrop_def
      addAnycastDrop_def scanCombos_def Let_def addrFamilies_def split: option.splits)

lemma keeps_list_rule [simp]: "keeps_sets (map (list_rule v) xs)"
  by (induction xs) (auto simp: list_rule_def)

lemma keeps_forward: "keeps_sets (fst (buildForwardChain mg c rs docker routing cidrs mode))"
  by (simp add: buildForwardChain_def addForwardLists_def addForwardPortRules_def addForwardExceptions_def
      addEstablishedAccept_def list_rule_def Let_def case_prod_unfold)

lemma keeps_lists:
  "keeps_sets (addCIDRAccept c x)" "keeps_sets (addBlocklistRule mg c opts x)"
  "keeps_sets (addAllowlistRule c x)" "keeps_sets (addPortAccept c proto r)"
  "keeps_sets (addForwardingRules mg fs)" "keeps_sets (addEchoAccepts c echo v6)"
  "keeps_sets (addICMPRules c v6)" "keeps_sets (addEstablishedAccept mg c)"
  "keeps_sets (addICMPFloodProtection mg c opts)" "keeps_sets (addTCPRSTFlood mg c opts)"
  "keeps_sets (ipv6_disposition v6)" "keeps_sets (addLoopbackAccept c)"
  by (auto simp: addCIDRAccept_def addBlocklistRule_def addAllowlistRule_def addPortAccept_def
      addForwardingRules_def addEchoAccepts_def addICMPRules_def addICMPTypeAccept_def
      addEstablishedAccept_def addICMPFloodProtection_def addTCPRSTFlood_def ipv6_disposition_def
      addLoopbackAccept_def addFamilyVerdict_def Let_def split: option.splits prod.splits)

section \<open>The feeds' part\<close>

lemma feedSetName_inj [simp]: "feedSetName fid v6 = feedSetName fid' v6' \<longleftrightarrow> fid = fid' \<and> v6 = v6'"
  by (auto simp: feedSetName_def)

text \<open>The elements one feed loads into the set of one family.\<close>

definition feed_family_ranges :: "pfx list \<Rightarrow> bool \<Rightarrow> addr_range list" where
  "feed_family_ranges ps v6 =
     (if v6 then snd (splitFamilies (mergeRanges ps)) else fst (splitFamilies (mergeRanges ps)))"

lemma set_after_family:
  assumes "add_feed_family mg c opts fwd fid ranges f = Inr cs"
  shows "set_after n s cs = (if n = stName (feedSet fid f) then s @ rangeElements ranges else s)"
  using assms addFeedElements_messages [of mg "feedSet fid f" ranges]
  by (auto simp: add_feed_family_def set_after_keeps split: if_splits sum.splits option.splits)

lemma set_after_seq:
  assumes "seq_cmds g xs = Inr cs"
    and "\<And>x s cs. x \<in> set xs \<Longrightarrow> g x = Inr cs \<Longrightarrow> set_after n s cs = s @ h x"
  shows "set_after n s cs = s @ concat (map h xs)"
  using assms
proof (induction xs arbitrary: cs s)
  case (Cons x xs)
  from Cons(2) obtain as bs where *: "g x = Inr as" "seq_cmds g xs = Inr bs" "cs = as @ bs"
    by (auto simp: seq_cmds_Cons simp del: seq_cmds.simps)
  show ?case using Cons(1) [OF *(2)] Cons(3) [OF _ *(1)] Cons(3) *(3) by simp
qed simp

lemma set_after_feeds:
  assumes "addFeeds mg c ids feeds opts fwd = Inr (k, cs)"
  shows "set_after (feedSetName fid v6) s cs =
    s @ concat (map (\<lambda>i. if i = fid then rangeElements (feed_family_ranges (feeds i) v6) else [])
      (FeedRuleOrder ids))"
proof -
  let ?n = "feedSetName fid v6"
  let ?g = "\<lambda>i f. add_feed_family mg c opts fwd i
    (if afNfproto f = familyIPv6 then snd (splitFamilies (mergeRanges (feeds i)))
     else fst (splitFamilies (mergeRanges (feeds i)))) f"
  have seq: "seq_cmds (\<lambda>i. seq_cmds (?g i) addrFamilies) (FeedRuleOrder ids) = Inr cs"
    using assms by (auto simp: addFeeds_def Let_def split: sum.splits)
  have one: "set_after ?n s ds = s @ (if i = fid then rangeElements (feed_family_ranges (feeds i) v6) else [])"
    if "seq_cmds (?g i) addrFamilies = Inr ds" for i ds s
  proof -
    have "set_after ?n s ds = s @ concat (map (\<lambda>f. if i = fid \<and> v6 = (afNfproto f = familyIPv6)
        then rangeElements (feed_family_ranges (feeds i) v6) else []) addrFamilies)"
      by (rule set_after_seq [OF that])
        (auto dest!: set_after_family [where n = ?n] simp: feedSet_def feed_family_ranges_def)
    then show ?thesis by (simp add: addrFamilies_def)
  qed
  show ?thesis by (rule set_after_seq [OF seq]) (rule one)
qed

lemma set_after_batch:
  assumes "build_batch mg rs opts net feeds detected = Inr (k, batch)"
  shows "set (set_after (feedSetName fid v6) s batch) =
    (if fid \<in> set (Feeds rs) then set (rangeElements (feed_family_ranges (feeds fid) v6)) else {})"
proof -
  let ?n = "feedSetName fid v6"
  let ?fw = "buildForwardChain mg forwardChainName rs (nsDocker net) (effective_routing (nsRouting net))
    (docker_cidrs net detected) (v6Mode (effective_ipv6 (nsIPv6 net)))"
  obtain ds where ds: "addFeeds mg inputChainName (Feeds rs) feeds opts (snd ?fw) = Inr (k, ds)"
    using assms by (auto simp: build_batch_def Let_def split: prod.splits sum.splits)
  have fresh: "set_after ?n s (table_setup rt) = []" for rt by (simp add: table_setup_def)
  have "set_after ?n s batch = set_after ?n [] ds"
    using assms ds keeps_forward [of mg forwardChainName rs "nsDocker net" "effective_routing (nsRouting net)"
        "docker_cidrs net detected" "v6Mode (effective_ipv6 (nsIPv6 net))"]
    by (auto simp: build_batch_def Let_def fresh set_after_keeps keeps_lists keeps_protections
        split: prod.splits sum.splits if_splits)
  then show ?thesis unfolding set_after_feeds [OF ds] by (auto simp: mset_FeedRuleOrder)
qed

section \<open>Membership\<close>

lemma feed_family_filter:
  "feed_family_ranges ps v6 = filter (\<lambda>r. Is4 (rgFrom r) = (\<not> v6)) (mergeRanges ps)"
  by (simp add: feed_family_ranges_def splitFamilies_merged [OF mergeRanges_correct(1)])

lemma interval_feed:
  assumes "length k = (if v6 then 16 else 4)"
  shows "interval_holds (rangeElements (feed_family_ranges ps v6)) k \<longleftrightarrow>
    (\<exists>q\<in>set ps. pfx_valid q \<and> Contains q (Addr k []))"
proof -
  let ?rs = "feed_family_ranges ps v6"
  have ok: "range_ok r" if "r \<in> set (mergeRanges ps)" for r
    using mergeRanges_correct(1) [of ps] that by (auto simp: merged_def list_all_iff)
  have plain: "plain_addr (Addr k [])"
    using assms by (auto simp: plain_addr_def IsValid_def Is4_def Is6_def split: if_splits)
  have w: "length (abytes (rgFrom r)) = length k" if "r \<in> set ?rs" for r
    using that assms ok [of r] plain_addr_length [of "rgFrom r"]
    by (auto simp: feed_family_filter Is4_def range_ok_def split: if_splits)
  have "merged ?rs"
    using mergeRanges_correct(1) [of ps] ok by (auto simp: merged_def feed_family_filter list_all_iff sorted_wrt_filter)
  from interval_holds_ranges [OF this w]
  have "interval_holds (rangeElements ?rs) k \<longleftrightarrow> holds_any ?rs (Addr k [])" .
  also have "\<dots> \<longleftrightarrow> holds_any (mergeRanges ps) (Addr k [])"
  proof -
    have "Is4 (rgFrom r) = (\<not> v6)" if r: "r \<in> set (mergeRanges ps)" "range_holds r (Addr k [])" for r
    proof -
      have "length (abytes (rgFrom r)) = length k"
        using r(2) ok [OF r(1)] plain_addr_length [of "rgFrom r"] addr_rank_family [of "rgFrom r"]
          addr_rank_family [of "rgTo r"] addr_rank_family [of "Addr k []"] plain_addr_length [OF plain]
        by (auto simp: range_ok_def range_holds_def)
      with assms show ?thesis by (simp add: Is4_def)
    qed
    then show ?thesis by (auto simp: holds_any_def feed_family_filter)
  qed
  finally show ?thesis using mergeRanges_correct(2) [OF plain] by simp
qed

text \<open>The state of the meters once a batch has been loaded: its interval sets are what it filled.\<close>

definition loaded :: "meters \<Rightarrow> cmd list \<Rightarrow> meters" where
  "loaded m batch = m\<lparr>inSet := (\<lambda>n k. interval_holds (set_after n [] batch) k)\<rparr>"

definition feed_lists :: "feed_contents \<Rightarrow> string list \<Rightarrow> packet \<Rightarrow> bool" where
  "feed_lists feeds ids p \<longleftrightarrow>
     (\<exists>fid\<in>set ids. \<exists>q\<in>set (feeds fid). pfx_valid q \<and> Contains q (packet_src p))"

lemma in_feeds_loaded:
  assumes "build_batch mg rs opts net feeds detected = Inr (k, batch)" "wf_packet p"
  shows "in_feeds (loaded m batch) (Feeds rs) p = feed_lists feeds (Feeds rs) p"
proof -
  let ?v6 = "pkFamily p = familyIPv6"
  have src: "packet_src p = Addr (abytes (packet_src p)) []"
    "length (abytes (packet_src p)) = (if ?v6 then 16 else 4)"
    using assms(2) by (auto simp: wf_packet_def packet_src_def)
  have "interval_holds (set_after (feedSetName fid ?v6) [] batch) (abytes (packet_src p)) \<longleftrightarrow>
      (\<exists>q\<in>set (feeds fid). pfx_valid q \<and> Contains q (packet_src p))" if "fid \<in> set (Feeds rs)" for fid
    using set_after_batch [OF assms(1), of fid ?v6 "[]"] that interval_feed [OF src(2), of "feeds fid"] src(1)
    by (metis interval_holds_cong)
  then show ?thesis by (simp add: in_feeds_def loaded_def feed_lists_def)
qed

section \<open>Replacing a feed in place\<close>

lemma ReplaceFeedSet_cmds:
  assumes "ReplaceFeedSet mg fid r4 r6 = Inr (k, cs)"
  obtains c4 c6 where
    "cs = FlushSet (feedSetName fid False) # c4 @ FlushSet (feedSetName fid True) # c6"
    "addFeedElements mg (feedSet fid (addrFamilies ! 0)) r4 = Inr c4"
    "addFeedElements mg (feedSet fid (addrFamilies ! 1)) r6 = Inr c6"
  using assms
  by (auto simp: ReplaceFeedSet_def addrFamilies_def feedSet_def split: sum.splits)

lemma ReplaceFeedSet_after:
  assumes "ReplaceFeedSet mg fid r4 r6 = Inr (k, cs)"
  shows "set_after n s cs =
    (if n = feedSetName fid False then rangeElements r4
     else if n = feedSetName fid True then rangeElements r6 else s)"
proof -
  obtain c4 c6 where cs: "cs = FlushSet (feedSetName fid False) # c4 @ FlushSet (feedSetName fid True) # c6"
    and el: "addFeedElements mg (feedSet fid (addrFamilies ! 0)) r4 = Inr c4"
    "addFeedElements mg (feedSet fid (addrFamilies ! 1)) r6 = Inr c6"
    using ReplaceFeedSet_cmds [OF assms] .
  have name: "stName (feedSet fid (addrFamilies ! 0)) = feedSetName fid False"
    "stName (feedSet fid (addrFamilies ! 1)) = feedSetName fid True"
    by (simp_all add: feedSet_def addrFamilies_def)
  show ?thesis
    using addFeedElements_messages [OF el(1), unfolded name] addFeedElements_messages [OF el(2), unfolded name]
    by (auto simp: cs)
qed

section \<open>Properties\<close>

text \<open>
  C7. A feed drops exactly the addresses it lists: whatever overlaps, duplicates or invalid
  prefixes a feed has and in whatever order they come, once the batch of an apply is loaded the
  packets its rules match are those whose source one of the enabled feeds' prefixes contains.
  This covers the sort and merge of the prefixes, the family split by binary search, the interval
  ends, the top of each address family and the cutting into messages.
\<close>

theorem feeds_match_exactly:
  assumes "build_batch mg rs opts net feeds detected = Inr (k, batch)" "wf_packet p"
  shows "in_feeds (loaded m batch) (Feeds rs) p \<longleftrightarrow>
    (\<exists>fid\<in>set (Feeds rs). \<exists>q\<in>set (feeds fid). pfx_valid q \<and> Contains q (packet_src p))"
  using in_feeds_loaded [OF assms] by (simp add: feed_lists_def)

text \<open>
  A source a feed lists gets no new traffic in through an open port or an answered ping.
  Only the allowlist and what stands above the lists outranks the feeds.
\<close>

theorem feed_source_is_dropped:
  assumes "ValidateRules rs = None" "build_batch mg rs opts net feeds detected = Inr (k, batch)"
    "host_byte_order mg" "wf_packet p"
    "fid \<in> set (Feeds rs)" "q \<in> set (feeds fid)" "pfx_valid q" "Contains q (packet_src p)"
    "\<not> in_entries (Allowlist rs) p"
    "\<not> from_loopback p" "\<not> established p" "\<not> discovery (effective_ipv6 (nsIPv6 net)) p"
    "\<not> in_networks (docker_cidrs net detected) p"
    "v6Mode (nsIPv6 net) = IPv6Passthrough \<Longrightarrow> pkFamily p \<noteq> familyIPv6"
  shows "\<not> chain_accepts (mgNative mg) (loaded m batch) p batch inputChainName"
proof -
  have "in_feeds (loaded m batch) (Feeds rs) p"
    using in_feeds_loaded [OF assms(2,4)] assms(5-8) by (auto simp: feed_lists_def)
  then have "\<not> lets_in (input_policy mg (loaded m batch) rs opts (effective_ipv6 (nsIPv6 net))
      (docker_cidrs net detected) p)"
    using assms(9-14) unfolding lets_in_policy
    by (auto simp: effective_ipv6_def IPv6Filter_def IPv6Passthrough_def split: if_splits)
  with assms show ?thesis by (simp add: input_chain_exact ValidateRules_None)
qed

text \<open>
  A refresh replaces a feed's two sets exactly and touches nothing else: the sets hold the
  addresses of the new prefixes, whatever they held before, and every other set is as it was.
\<close>

theorem ReplaceFeedSet_exact:
  assumes "splitFamilies (mergeRanges ps) = (r4, r6)" "ReplaceFeedSet mg fid r4 r6 = Inr (k, cs)"
  shows "(\<forall>key v6. length key = (if v6 then 16 else 4) \<longrightarrow>
      interval_holds (set_after (feedSetName fid v6) s cs) key =
        (\<exists>q\<in>set ps. pfx_valid q \<and> Contains q (Addr key []))) \<and>
    (\<forall>n. n \<noteq> feedSetName fid False \<longrightarrow> n \<noteq> feedSetName fid True \<longrightarrow> set_after n s cs = s)"
proof -
  have "set_after (feedSetName fid v6) s cs = rangeElements (feed_family_ranges ps v6)" for v6
    using assms(1) ReplaceFeedSet_after [OF assms(2)] by (cases v6) (simp_all add: feed_family_ranges_def)
  then show ?thesis using interval_feed ReplaceFeedSet_after [OF assms(2)] by simp
qed

text \<open>
  Every message that fills a feed's set stays within the size of a netlink attribute: the
  ranges it carries, at the bytes a range takes on the wire, fit in \<open>maxElemListBytes\<close>, which is
  below \<open>2 ^ 16 - 4\<close>; and when the netlink library refuses nothing, every list of ranges, however
  long, is cut and sent.
\<close>

theorem addFeedElements_bounded:
  "(\<forall>cs. addFeedElements mg st rs = Inr cs \<longrightarrow>
      (\<forall>c\<in>set cs. \<exists>part. c = AddElements (stName st) (rangeElements part) \<and> part \<noteq> [] \<and>
         length part * (if stKeyLen st = 16 then feedRangeBytesV6 else feedRangeBytesV4) \<le> 0xffff - 4)) \<and>
   ((\<forall>n es. \<not> mgAddElementsErr mg n es) \<longrightarrow> (\<exists>cs. addFeedElements mg st rs = Inr cs))"
proof -
  have "\<exists>part. c = AddElements (stName st) (rangeElements part) \<and> part \<noteq> [] \<and>
      length part * (if stKeyLen st = 16 then feedRangeBytesV6 else feedRangeBytesV4) \<le> maxElemListBytes"
    if "addFeedElements mg st rs = Inr cs" "c \<in> set cs" for cs c
  proof -
    have "element_message st c"
      using addFeedElements_messages [OF that(1)] that(2) by (auto simp: list_all_iff)
    then show ?thesis unfolding element_message_def using chunk_bytes by blast
  qed
  then show ?thesis using addFeedElements_total by (simp add: maxElemListBytes_def)
qed

end
