(* ===== verification/ForwardChain.thy ===== *)
theory ForwardChain
  imports FeedKernel
begin

text \<open>
  The forward chain: what is routed through the machine rather than to it.  An abstract policy in
  the operator's terms, and the refinement: the chain \<open>buildForwardChain\<close> writes, with the feeds'
  part of the lists chain that \<open>addFeeds\<close> adds later in the batch, decides every packet as the
  policy says.
\<close>

section \<open>The policy\<close>

definition to_entries :: "string list \<Rightarrow> packet \<Rightarrow> bool" where
  "to_entries es p \<longleftrightarrow> (\<exists>e\<in>set es. entry_covers e (packet_dst p))"

text \<open>
  The lists refuse a source that is blocked, or in a feed and not allowed.  A container speaks
  for itself and is never asked; with routing open only what is bound for a container is.
\<close>

definition forward_refused ::
  "meters \<Rightarrow> rules \<Rightarrow> routing_config \<Rightarrow> string list \<Rightarrow> packet \<Rightarrow> bool" where
  "forward_refused m rs routing cidrs p \<longleftrightarrow>
     (rtMode routing \<noteq> RoutingOpen \<or> to_entries cidrs p) \<and> \<not> in_entries cidrs p \<and>
     (in_entries (Blocklist rs) p \<or> \<not> in_entries (Allowlist rs) p \<and> in_feeds m (Feeds rs) p)"

text \<open>A forwarded port rule: one without sources covers the families the containers have.\<close>

definition forward_family :: "bool \<times> bool \<Rightarrow> string \<Rightarrow> port_rule \<Rightarrow> packet \<Rightarrow> bool" where
  "forward_family families mode r p \<longleftrightarrow>
     (if prSources r = []
      then (if pkFamily p = familyIPv6 then snd families else fst families)
      else \<not> (pkFamily p = familyIPv6 \<and> mode = IPv6Block))"

definition forward_open ::
  "bool \<times> bool \<Rightarrow> string \<Rightarrow> byte \<Rightarrow> port_rule list \<Rightarrow> packet \<Rightarrow> bool" where
  "forward_open families mode proto rs p \<longleftrightarrow>
     (\<exists>r\<in>set rs. FiltersForwarded r \<and> port_open proto r p \<and> forward_family families mode r p)"

text \<open>Into a container network from outside of it.\<close>

definition crosses_in :: "string list \<Rightarrow> packet \<Rightarrow> bool" where
  "crosses_in cidrs p \<longleftrightarrow>
     (\<exists>c\<in>set cidrs. entry_covers c (packet_dst p) \<and> \<not> entry_covers c (packet_src p))"

definition exception_networks :: "routing_config \<Rightarrow> string list \<Rightarrow> string list" where
  "exception_networks routing cidrs =
     (if rtMode routing = RoutingOpen then []
      else if rtMode routing = RoutingNetworks then cidrs @ rtNetworks routing else cidrs)"

definition forward_managed :: "docker_config \<Rightarrow> routing_config \<Rightarrow> string list \<Rightarrow> bool" where
  "forward_managed docker routing cidrs \<longleftrightarrow>
     forwardPortRulesRender docker cidrs \<or>
     (\<exists>c\<in>set (exception_networks routing cidrs). entry_network c \<noteq> None)"

definition forward_stages ::
  "meters \<Rightarrow> rules \<Rightarrow> docker_config \<Rightarrow> routing_config \<Rightarrow> string list \<Rightarrow> string \<Rightarrow> packet \<Rightarrow> chain_result" where
  "forward_stages m rs docker routing cidrs mode p =
     (if \<not> forward_managed docker routing cidrs then Through
      else first_match
        [accept_if (established p),
         drop_if (forward_refused m rs routing cidrs p),
         accept_if (forwardPortRulesRender docker cidrs \<and>
                    forward_open (cidrFamilies cidrs) mode IPPROTO_TCP (TCP rs) p),
         accept_if (forwardPortRulesRender docker cidrs \<and>
                    forward_open (cidrFamilies cidrs) mode IPPROTO_UDP (UDP rs) p),
         drop_if (forwardPortRulesRender docker cidrs \<and> crosses_in cidrs p),
         accept_if (in_entries (exception_networks routing cidrs) p \<or>
                    to_entries (exception_networks routing cidrs) p)])"

definition forward_policy ::
  "meters \<Rightarrow> rules \<Rightarrow> docker_config \<Rightarrow> routing_config \<Rightarrow> string list \<Rightarrow> string \<Rightarrow> packet \<Rightarrow> bool" where
  "forward_policy m rs docker routing cidrs mode p \<longleftrightarrow>
     (case forward_stages m rs docker routing cidrs mode p of
        Decided v \<Rightarrow> v | _ \<Rightarrow> rtMode routing = RoutingOpen)"

section \<open>Address matches\<close>

lemma entry_matches:
  "List.map_filter (\<lambda>e. cidrMatch e pos) es =
   map (\<lambda>q. net_exprs q pos (\<not> full_net q) CmpEq) (List.map_filter entry_network es)"
  by (induction es) (auto simp: List.map_filter_simps cidrMatch_def cidrMatchOp_net split: option.splits)

lemma to_entries_networks:
  "to_entries es p \<longleftrightarrow> (\<exists>q\<in>set (List.map_filter entry_network es). Contains q (packet_dst p))"
  by (induction es) (auto simp: to_entries_def List.map_filter_simps entry_covers_def split: option.splits)

lemma selects_net_dst:
  "wf_packet p \<Longrightarrow> net_ok q \<Longrightarrow>
   selects ne m p (net_exprs q posDstAddr (\<not> full_net q) CmpEq) (Contains q (packet_dst p))"
  using selects_net_exprs(1) [OF _ pos_ok_dst, of p q "\<not> full_net q"]
  by (auto simp: full_net_def addr_at_dst)

lemma rules_of_own_rules: "rules_of c (map (\<lambda>x. AddRule c (g x) t) xs) = map (\<lambda>x. (g x, t)) xs"
  by (induction xs) simp_all

lemma eval_each:
  assumes "\<And>x. x \<in> set xs \<Longrightarrow> selects ne m p (f x) (P x)"
  shows "eval_rules ne m p tbl n (map (\<lambda>x. (f x @ [Verdict VAccept], None)) xs) = accept_if (\<exists>x\<in>set xs. P x)"
    and "eval_rules ne m p tbl n (map (\<lambda>x. (f x @ [Counter, Verdict VDrop], None)) xs) = drop_if (\<exists>x\<in>set xs. P x)"
    and "eval_rules ne m p tbl n (map (\<lambda>x. (f x @ [Verdict VReturn], None)) xs) =
      (if \<exists>x\<in>set xs. P x then Returned else Through)"
  using eval_accept_each [of xs ne m p tbl n "\<lambda>x. [(f x @ [Verdict VAccept], None)]" P]
    eval_drop_each [of xs ne m p tbl n "\<lambda>x. [(f x @ [Counter, Verdict VDrop], None)]" P]
    eval_return_each [of xs ne m p tbl n "\<lambda>x. [(f x @ [Verdict VReturn], None)]" P]
    eval_selected [OF assms]
  by (simp_all add: concat_map_singleton)

text \<open>The lists chain returns, drops and returns by entry.\<close>

lemma eval_entries:
  assumes "wf_packet p"
  defines "ms \<equiv> \<lambda>es. List.map_filter (\<lambda>e. cidrMatch e posSrcAddr) es"
  shows "eval_rules ne m p tbl n (map (\<lambda>x. (x @ [Verdict VReturn], None)) (ms es)) =
      (if in_entries es p then Returned else Through)"
    and "eval_rules ne m p tbl n (map (\<lambda>x. (x @ [Counter, Verdict VDrop], None)) (ms es)) =
      drop_if (in_entries es p)"
  using eval_each(2,3) [of "List.map_filter entry_network es" ne m p
      "\<lambda>q. net_exprs q posSrcAddr (\<not> full_net q) CmpEq" "\<lambda>q. Contains q (packet_src p)" tbl n]
    selects_net_src [OF assms(1) map_filter_net_ok]
  by (simp_all add: ms_def entry_matches in_entries_networks o_def)

lemma eval_exceptions:
  assumes "wf_packet p"
  shows "eval_rules ne m p tbl n (rules_of c (addForwardExceptions c (forwardExceptionMatches cidrs))) =
    accept_if (in_entries cidrs p \<or> to_entries cidrs p)"
proof -
  have rules: "rules_of c (addForwardExceptions c ms) = map (\<lambda>x. (x @ [Verdict VAccept], None)) ms" for ms
    by (induction ms) (simp_all add: addForwardExceptions_def)
  have one: "eval_rules ne m p tbl n (map (\<lambda>x. (x @ [Verdict VAccept], None))
      (List.map_filter (\<lambda>pos. cidrMatch e pos) [posSrcAddr, posDstAddr])) =
    accept_if (entry_covers e (packet_src p) \<or> entry_covers e (packet_dst p))" for e
  proof (cases "entry_network e")
    case (Some q)
    have "selects ne m p (net_exprs q pos (\<not> full_net q) CmpEq) (Contains q (addr_at pos p))"
      if "pos \<in> set [posSrcAddr, posDstAddr]" for pos
      using that selects_net_src [OF assms entry_network_ok [OF Some]]
        selects_net_dst [OF assms entry_network_ok [OF Some]] by (auto simp: addr_at_src addr_at_dst)
    from eval_each(1) [of "[posSrcAddr, posDstAddr]" ne m p "\<lambda>pos. net_exprs q pos (\<not> full_net q) CmpEq"
        "\<lambda>pos. Contains q (addr_at pos p)", OF this, of tbl n] Some show ?thesis
      by (simp add: List.map_filter_simps cidrMatch_def cidrMatchOp_net entry_covers_def addr_at_src addr_at_dst
          del: eval_rules.simps)
  qed (simp add: List.map_filter_simps cidrMatch_def cidrMatchOp_net entry_covers_def)
  have "eval_rules ne m p tbl n (concat (map (\<lambda>e. map (\<lambda>x. (x @ [Verdict VAccept], None))
      (List.map_filter (\<lambda>pos. cidrMatch e pos) [posSrcAddr, posDstAddr])) cidrs)) =
    accept_if (\<exists>e\<in>set cidrs. entry_covers e (packet_src p) \<or> entry_covers e (packet_dst p))"
    by (rule eval_accept_each) (rule one)
  moreover have "(\<exists>e\<in>set cidrs. entry_covers e (packet_src p) \<or> entry_covers e (packet_dst p)) \<longleftrightarrow>
      in_entries cidrs p \<or> to_entries cidrs p" by (auto simp: in_entries_def to_entries_def)
  ultimately show ?thesis
    by (simp add: rules forwardExceptionMatches_def map_concat o_def)
qed

lemma exceptions_empty:
  "forwardExceptionMatches cidrs = [] \<longleftrightarrow> (\<forall>c\<in>set cidrs. entry_network c = None)"
  by (auto simp: forwardExceptionMatches_def List.map_filter_simps cidrMatch_def cidrMatchOp_net split: option.splits)

section \<open>The lists chain\<close>

lemma feed_family_forward:
  assumes "add_feed_family mg c opts (Some d) fid ranges f = Inr cs" "d \<noteq> c"
  shows "rules_of d cs = [(feed_match fid f @ [Counter, Verdict VDrop], None)]"
  using assms elements_no_rules
  by (auto simp: add_feed_family_def split: if_splits sum.splits)

lemma eval_forward_feeds:
  assumes built: "addFeeds mg c ids feeds opts (Some d) = Inr (k, cs)" and d: "d \<noteq> c" and wf: "wf_packet p"
  shows "eval_rules ne m p tbl n (rules_of d cs) = drop_if (in_feeds m ids p)"
proof -
  let ?g = "\<lambda>fid f. add_feed_family mg c opts (Some d) fid
    (if afNfproto f = familyIPv6 then snd (splitFamilies (mergeRanges (feeds fid)))
     else fst (splitFamilies (mergeRanges (feeds fid)))) f"
  let ?in = "\<lambda>fid. inSet m (feedSetName fid (pkFamily p = familyIPv6)) (abytes (packet_src p))"
  have seq: "seq_cmds (\<lambda>fid. seq_cmds (?g fid) addrFamilies) (FeedRuleOrder ids) = Inr cs"
    using built by (auto simp: addFeeds_def Let_def split: sum.splits)
  have fam: "eval_rules ne m p tbl n (rules_of d ds) = drop_if (pkFamily p = afNfproto f \<and> ?in fid)"
    if "f \<in> set addrFamilies" "?g fid f = Inr ds" for fid f ds
    using feed_family_forward [OF that(2) d] eval_selected(5) [OF selects_feed [OF that(1) wf]] by simp
  have one: "eval_rules ne m p tbl n (rules_of d ds) = drop_if (?in fid)"
    if "seq_cmds (?g fid) addrFamilies = Inr ds" for fid ds
  proof -
    have "eval_rules ne m p tbl n (rules_of d ds) =
      drop_if (\<exists>f\<in>set addrFamilies. pkFamily p = afNfproto f \<and> ?in fid)"
      by (rule seq_cmds_drop [OF that]) (rule fam)
    moreover have "(\<exists>f\<in>set addrFamilies. pkFamily p = afNfproto f \<and> ?in fid) = ?in fid"
      using family_rec_in [OF wf] family_rec_iff [OF wf] by blast
    ultimately show ?thesis by simp
  qed
  have "eval_rules ne m p tbl n (rules_of d cs) = drop_if (\<exists>fid\<in>set (FeedRuleOrder ids). ?in fid)"
    by (rule seq_cmds_drop [OF seq]) (rule one)
  then show ?thesis by (simp add: in_feeds_def mset_FeedRuleOrder)
qed

lemma lists_chain_rules:
  assumes "addForwardLists c rs routing cidrs = (cs, Some d)" "c \<noteq> forwardListsChainName"
  shows "d = forwardListsChainName" "rules_of d cs =
    map (\<lambda>x. (x @ [Verdict VReturn], None)) (List.map_filter (\<lambda>e. cidrMatch e posSrcAddr) cidrs) @
    map (\<lambda>x. (x @ [Counter, Verdict VDrop], None)) (List.map_filter (\<lambda>e. cidrMatch e posSrcAddr) (Blocklist rs)) @
    map (\<lambda>x. (x @ [Verdict VReturn], None)) (List.map_filter (\<lambda>e. cidrMatch e posSrcAddr) (Allowlist rs))"
  using assms rules_of_list_rules [of forwardListsChainName VReturn "\<lambda>es. es"]
    rules_of_list_rules [of forwardListsChainName VDrop "\<lambda>es. es @ [Counter]"]
  by (auto simp: addForwardLists_def Let_def map_rules_confined split: if_splits)

lemma lists_chain_verdict:
  assumes lists: "addForwardLists c rs routing cidrs = (cs, Some d)" and c: "c \<noteq> forwardListsChainName"
    and wf: "wf_packet p" and fs: "eval_rules ne m p tbl n fr = drop_if (in_feeds m (Feeds rs) p)"
  shows "(case eval_rules ne m p tbl n (rules_of d cs @ fr) of Decided v \<Rightarrow> Decided v | _ \<Rightarrow> Through) =
    drop_if (\<not> in_entries cidrs p \<and>
      (in_entries (Blocklist rs) p \<or> \<not> in_entries (Allowlist rs) p \<and> in_feeds m (Feeds rs) p))"
  unfolding lists_chain_rules(2) [OF lists c] eval_rules_append eval_entries [OF wf] fs
  by (simp add: drop_if_def)

text \<open>The jumps into the lists, once for everything or once per container network.\<close>

lemma jumps_each:
  assumes "\<And>x. x \<in> set xs \<Longrightarrow> selects ne m p (f x) (P x)"
    and "(case eval_rules ne m p tbl n (tbl d) of Decided v \<Rightarrow> Decided v | _ \<Rightarrow> Through) = drop_if L"
  shows "eval_rules ne m p tbl (Suc n) (map (\<lambda>x. (f x @ [Verdict (VJump d)], None)) xs) =
    drop_if ((\<exists>x\<in>set xs. P x) \<and> L)"
proof -
  have "eval_rules ne m p tbl (Suc n) (concat (map (\<lambda>x. [(f x @ [Verdict (VJump d)], None)]) xs)) =
      drop_if (\<exists>x\<in>set xs. P x \<and> L)"
    by (rule eval_drop_each) (use eval_jump [OF assms(1)] assms(2) in \<open>simp add: drop_if_def del: eval_rules.simps\<close>)
  moreover have "(\<exists>x\<in>set xs. P x \<and> L) \<longleftrightarrow> (\<exists>x\<in>set xs. P x) \<and> L" by blast
  ultimately show ?thesis by (simp add: concat_map_singleton)
qed

lemma lists_jumps:
  assumes lists: "addForwardLists c rs routing cidrs = (cs, Some d)" and c: "c \<noteq> forwardListsChainName"
    and wf: "wf_packet p" and tbl: "tbl d = rules_of d cs @ fr"
    and fs: "\<And>n. eval_rules ne m p tbl n fr = drop_if (in_feeds m (Feeds rs) p)"
  shows "eval_rules ne m p tbl (Suc n) (rules_of c cs) = drop_if (forward_refused m rs routing cidrs p)"
proof -
  let ?L = "\<not> in_entries cidrs p \<and>
      (in_entries (Blocklist rs) p \<or> \<not> in_entries (Allowlist rs) p \<and> in_feeds m (Feeds rs) p)"
  let ?qs = "List.map_filter entry_network cidrs"
  have L: "(case eval_rules ne m p tbl n (tbl d) of Decided v \<Rightarrow> Decided v | _ \<Rightarrow> Through) = drop_if ?L" for n
    unfolding tbl by (rule lists_chain_verdict [OF lists c wf fs])
  have rules: "rules_of c cs = (if rtMode routing \<noteq> RoutingOpen then [([] @ [Verdict (VJump d)], None)]
      else map (\<lambda>q. (net_exprs q posDstAddr (\<not> full_net q) CmpEq @ [Verdict (VJump d)], None)) ?qs)"
    using lists lists_chain_rules(1) [OF lists c] c rules_of_list_rules [of c VReturn "\<lambda>es. es"]
    by (auto simp: addForwardLists_def Let_def rules_of_list_rules entry_matches o_def rules_of_own_rules
        split: if_splits)
  show ?thesis
  proof (cases "rtMode routing = RoutingOpen")
    case True
    have "eval_rules ne m p tbl (Suc n) (map (\<lambda>q. (net_exprs q posDstAddr (\<not> full_net q) CmpEq @
        [Verdict (VJump d)], None)) ?qs) = drop_if ((\<exists>q\<in>set ?qs. Contains q (packet_dst p)) \<and> ?L)"
      by (rule jumps_each [OF selects_net_dst [OF wf map_filter_net_ok] L])
    with True show ?thesis by (simp add: rules forward_refused_def to_entries_networks)
  next
    case False
    have "eval_rules ne m p tbl (Suc n) [([] @ [Verdict (VJump d)], None)] = drop_if ?L"
      unfolding eval_jump [OF selects_Nil] using L by simp
    with False show ?thesis by (simp add: rules forward_refused_def del: append_Nil)
  qed
qed

section \<open>Forwarded ports\<close>

lemma ruleFamily_net: "ruleFamily (port_match proto r (net_exprs q pos msk cop)) = Some (fam_of (abytes (paddr q)))"
  by (simp add: port_match_def net_exprs_def addr_exprs_def Let_def)

lemma ruleFamily_port: "ruleFamily (port_match proto r []) = None"
  by (simp add: port_match_def l4_match_def)

lemma Contains_family:
  "wf_packet p \<Longrightarrow> net_ok q \<Longrightarrow> Contains q (packet_src p) \<Longrightarrow> fam_of (abytes (paddr q)) = pkFamily p"
  using Contains_addr_at [OF _ pos_ok_src, of p q] by (simp add: addr_at_src)

lemma eval_forward_port:
  assumes wf: "wf_packet p" and ok: "port_rule_ok r"
  shows "eval_rules ne m p tbl n (forward_port_rules families mode proto r) =
    accept_if (FiltersForwarded r \<and> port_open (proto_num proto) r p \<and> forward_family families mode r p)"
proof (cases "FiltersForwarded r")
  case ff: True
  let ?qs = "List.map_filter entry_network (prSources r)" and ?pr = "proto_num proto"
  let ?tag = "if prID r = [] then None else Some (prID r)"
  have iv: "port_interval (prPort r) \<noteq> None" using ok by (simp add: port_rule_ok_def)
  show ?thesis
  proof (cases "prSources r = []")
    case True
    have rule: "portAcceptRules proto r = [(port_match ?pr r [], ?tag)]"
      using True by (simp add: portAcceptRules_def proto_num_def Let_def List.map_filter_simps)
    let ?pin = "\<lambda>on fam. if \<not> on then [] else [([Meta NFPROTO 1, Cmp CmpEq 1 [fam]] @ port_match ?pr r [], ?tag)]"
    have pin: "eval_rules ne m p tbl n (?pin on fam) =
        accept_if (on \<and> pkFamily p = fam \<and> pkProto p = ?pr \<and> port_covers (prPort r) p)" for on fam
      using eval_port_match [OF selects_family iv, where tbl = tbl and n = n and proto = ?pr and tag = ?tag]
      by (simp add: port_match_def del: eval_rules.simps) simp
    have "forward_port_rules families mode proto r = ?pin (fst families) familyIPv4 @ ?pin (snd families) familyIPv6"
      using ff by (simp add: forward_port_rules_def rule ruleFamily_port forwardFamilyPin_def)
    then have "eval_rules ne m p tbl n (forward_port_rules families mode proto r) =
        accept_if (fst families \<and> pkFamily p = familyIPv4 \<and> pkProto p = ?pr \<and> port_covers (prPort r) p \<or>
          snd families \<and> pkFamily p = familyIPv6 \<and> pkProto p = ?pr \<and> port_covers (prPort r) p)"
      by (simp only: eval_rules_append pin accept_if_or)
    with True ff wf show ?thesis
      by (auto simp: port_open_def forward_family_def wf_packet_def intro!: arg_cong [of _ _ accept_if])
  next
    case False
    let ?es = "\<lambda>q. port_match ?pr r (net_exprs q posSrcAddr (\<not> full_net q) CmpEq)"
    let ?keep = "\<lambda>q. \<not> (fam_of (abytes (paddr q)) = familyIPv6 \<and> mode = IPv6Block)"
    have rule: "portAcceptRules proto r = map (\<lambda>q. (?es q, ?tag)) ?qs"
      using False by (auto simp: portAcceptRules_def proto_num_def Let_def port_matches)
    have "forward_port_rules families mode proto r = map (\<lambda>q. (?es q, ?tag)) (filter ?keep ?qs)"
      using ff by (simp add: forward_port_rules_def rule filter_map o_def ruleFamily_net)
    moreover have "eval_rules ne m p tbl n (map (\<lambda>q. (?es q, ?tag)) (filter ?keep ?qs)) =
      accept_if (\<exists>q\<in>set (filter ?keep ?qs).
        Contains q (packet_src p) \<and> pkProto p = ?pr \<and> port_covers (prPort r) p)"
      by (rule eval_rules_map, rule eval_port_match [OF selects_net_src [OF wf map_filter_net_ok [of _ "prSources r"]] iv], simp)
    moreover have "(\<exists>q\<in>set (filter ?keep ?qs). Contains q (packet_src p) \<and> pkProto p = ?pr \<and> port_covers (prPort r) p) \<longleftrightarrow>
      port_open ?pr r p \<and> forward_family families mode r p"
      using False Contains_family [OF wf map_filter_net_ok]
      by (auto simp: port_open_def forward_family_def in_entries_networks)
    ultimately show ?thesis using ff by simp
  qed
qed (simp add: forward_port_rules_def)

text \<open>The deny rule of a network: into it, from outside of it.\<close>

lemma selects_outside:
  assumes wf: "wf_packet p" and q: "net_ok q"
  shows "selects ne m p (net_exprs q posDstAddr (\<not> full_net q) CmpEq @
      withoutFamilyTest (net_exprs q posSrcAddr (\<not> full_net q) CmpNeq))
    (Contains q (packet_dst p) \<and> \<not> Contains q (packet_src p))"
proof (cases "pkFamily p = fam_of (abytes (paddr q))")
  case True
  have full: "\<not> full_net q \<or> pbits q = BitLen (paddr q)" by (auto simp: full_net_def)
  have "eval_exprs ne m p r (withoutFamilyTest (net_exprs q posSrcAddr (\<not> full_net q) CmpNeq) @ rest) =
      eval_exprs ne m p r (net_exprs q posSrcAddr (\<not> full_net q) CmpNeq @ rest)" for r rest
    using True by (simp add: net_exprs_def addr_exprs_def Let_def meta_of_def)
  with selects_net_exprs(2) [OF wf pos_ok_src q full, of ne m] True
  have "selects ne m p (withoutFamilyTest (net_exprs q posSrcAddr (\<not> full_net q) CmpNeq))
      (\<not> Contains q (packet_src p))"
    by (simp add: selects_def addr_at_src)
  from selects_append [OF selects_net_dst [OF wf q] this] show ?thesis .
next
  case False
  then have "\<not> Contains q (packet_dst p)"
    using Contains_addr_at [OF wf pos_ok_dst q] by (simp add: addr_at_dst)
  with selects_net_dst [OF wf q, of ne m] show ?thesis
    unfolding selects_def by auto
qed

lemma eval_forward_deny:
  assumes "wf_packet p"
  shows "eval_rules ne m p tbl n (concat (map forward_deny cidrs)) = drop_if (crosses_in cidrs p)"
  unfolding crosses_in_def
proof (rule eval_drop_each)
  fix c
  show "eval_rules ne m p tbl n (forward_deny c) =
    drop_if (entry_covers c (packet_dst p) \<and> \<not> entry_covers c (packet_src p))"
  proof (cases "entry_network c")
    case (Some q)
    then show ?thesis
      using eval_selected(5) [OF selects_outside [OF assms entry_network_ok [OF Some]]]
      by (simp add: forward_deny_def cidrMatch_def cidrMatchNegated_def cidrMatchOp_net entry_covers_def
          del: eval_rules.simps)
  qed (simp add: forward_deny_def cidrMatch_def cidrMatchOp_net entry_covers_def)
qed

section \<open>The chain\<close>

lemma forward_ports_rules:
  "rules_of c (addForwardPortRules c rs docker cidrs mode) =
     (if forwardPortRulesRender docker cidrs
      then concat (map (forward_port_rules (cidrFamilies cidrs) mode ''tcp'') (TCP rs)) @
           concat (map (forward_port_rules (cidrFamilies cidrs) mode ''udp'') (UDP rs)) @
           concat (map forward_deny cidrs)
      else [])"
  by (auto simp: addForwardPortRules_def forwardPortRulesRender_def Let_def)

lemma eval_forward_ports:
  assumes wf: "wf_packet p" and ok: "list_all port_rule_ok rs"
  shows "eval_rules ne m p tbl n (concat (map (forward_port_rules families mode proto) rs)) =
    accept_if (forward_open families mode (proto_num proto) rs p)"
  unfolding forward_open_def
  by (rule eval_accept_each, rule eval_forward_port [OF wf]) (use ok in \<open>simp add: list_all_iff\<close>)

lemma accept_switch: "accept_if (b \<and> x) = (if b then accept_if x else Through)"
  "drop_if (b \<and> x) = (if b then drop_if x else Through)"
  by (simp_all add: accept_if_def drop_if_def)

lemma no_lists:
  assumes "addForwardLists c rs routing cidrs = (cs, None)"
  shows "cs = [] \<and> \<not> forward_refused m rs routing cidrs p"
proof -
  have "List.map_filter entry_network (Blocklist rs) = []" "Feeds rs = []" "cs = []"
    using assms by (auto simp: addForwardLists_def Let_def entry_matches split: if_splits)
  then show ?thesis by (simp add: forward_refused_def in_entries_networks in_feeds_def)
qed

lemma exceptions_managed:
  "forward_managed docker routing cidrs \<longleftrightarrow> forwardPortRulesRender docker cidrs \<or>
     forwardExceptionMatches (exception_networks routing cidrs) \<noteq> []"
  by (auto simp: forward_managed_def exceptions_empty)

lemma buildForwardChain_alt:
  "buildForwardChain mg c rs docker routing cidrs mode =
     (if \<not> forward_managed docker routing cidrs then ([], None)
      else let (listCmds, fwdLists) = addForwardLists c rs routing cidrs in
        (addEstablishedAccept mg c @ listCmds @ addForwardPortRules c rs docker cidrs mode @
         addForwardExceptions c (forwardExceptionMatches (exception_networks routing cidrs)), fwdLists))"
proof -
  have "(if rtMode routing \<noteq> RoutingOpen
         then forwardExceptionMatches (if rtMode routing = RoutingNetworks then cidrs @ rtNetworks routing else cidrs)
         else []) = forwardExceptionMatches (exception_networks routing cidrs)"
    by (simp add: exception_networks_def forwardExceptionMatches_def)
  then show ?thesis by (simp add: buildForwardChain_def exceptions_managed Let_def)
qed

lemma eval_forward_chain:
  assumes nat: "native_order (mgNative mg)" and wf: "wf_packet p"
    and ok: "list_all port_rule_ok (TCP rs @ UDP rs)" and c: "c \<noteq> forwardListsChainName"
    and chain: "buildForwardChain mg c rs docker routing cidrs mode = (cs, fwd)"
    and tbl: "\<And>d. fwd = Some d \<Longrightarrow> tbl d = rules_of d cs @ fr"
    and fs: "\<And>n d. fwd = Some d \<Longrightarrow> eval_rules (mgNative mg) m p tbl n fr = drop_if (in_feeds m (Feeds rs) p)"
  shows "eval_rules (mgNative mg) m p tbl (Suc n) (rules_of c cs) =
    forward_stages m rs docker routing cidrs mode p"
proof (cases "forward_managed docker routing cidrs")
  case True
  obtain ls where ls: "addForwardLists c rs routing cidrs = (ls, fwd)"
    and cs: "cs = addEstablishedAccept mg c @ ls @ addForwardPortRules c rs docker cidrs mode @
      addForwardExceptions c (forwardExceptionMatches (exception_networks routing cidrs))"
    using chain True by (auto simp: buildForwardChain_alt split: prod.splits)
  have jumps: "eval_rules (mgNative mg) m p tbl (Suc n) (rules_of c ls) =
      drop_if (forward_refused m rs routing cidrs p)"
  proof (cases fwd)
    case None
    then show ?thesis using no_lists [of c rs routing cidrs ls m p] ls by simp
  next
    case (Some d)
    have d: "d \<noteq> c" using lists_chain_rules(1) [OF ls [unfolded Some] c] c by simp
    have "tbl d = rules_of d ls @ fr"
      using tbl [OF Some] d
      by (simp add: cs established_confined forward_ports_confined addForwardExceptions_def map_rules_confined)
    from lists_jumps [OF ls [unfolded Some] c wf this fs [OF Some]] show ?thesis .
  qed
  show ?thesis
    using True ok
    by (simp add: cs eval_rules_append eval_established [OF nat] jumps forward_ports_rules
        eval_forward_ports [OF wf] eval_forward_deny [OF wf] eval_exceptions [OF wf] forward_stages_def
        accept_switch proto_num_def next_stage_assoc)
next
  case False
  then show ?thesis using chain by (auto simp: buildForwardChain_alt forward_stages_def)
qed

section \<open>The chain in its batch\<close>

lemma forward_in_batch:
  assumes built: "build_batch mg rs opts net feeds detected = Inr (k, batch)"
  obtains cs fwd fcs where
    "buildForwardChain mg forwardChainName rs (nsDocker net) (effective_routing (nsRouting net))
       (docker_cidrs net detected) (v6Mode (effective_ipv6 (nsIPv6 net))) = (cs, fwd)"
    "addFeeds mg inputChainName (Feeds rs) feeds opts fwd = Inr (k, fcs)"
    "rules_of forwardChainName batch = rules_of forwardChainName cs"
    "rules_of forwardListsChainName batch =
       rules_of forwardListsChainName cs @ rules_of forwardListsChainName fcs"
proof -
  let ?cidrs = "docker_cidrs net detected" and ?v6 = "effective_ipv6 (nsIPv6 net)"
  obtain cs fwd where fw: "buildForwardChain mg forwardChainName rs (nsDocker net)
      (effective_routing (nsRouting net)) ?cidrs (v6Mode ?v6) = (cs, fwd)" by fastforce
  obtain fcs where fcs: "addFeeds mg inputChainName (Feeds rs) feeds opts fwd = Inr (k, fcs)"
    using built fw by (auto simp: build_batch_def Let_def split: sum.splits)
  have fwd: "fwd = None \<or> fwd = Some forwardListsChainName"
    using forward_lists_name [of mg forwardChainName rs "nsDocker net" "effective_routing (nsRouting net)"
        ?cidrs "v6Mode ?v6"] fw by auto
  have feed_part: "rules_of forwardChainName fcs = []"
    using input_stage.confined [OF feeds_stage [OF fcs fwd], of forwardChainName]
    by (simp add: chain_name_defs)
  have quiet: "rules_of d (table_setup rt) = []" "rules_of d (addLoopbackAccept inputChainName) = []"
      "rules_of d (ipv6_disposition ?v6) = []" "rules_of d (addEstablishedAccept mg inputChainName) = []"
      "rules_of d (addICMPRules inputChainName ?v6) = []"
      "rules_of d (addICMPFloodProtection mg inputChainName opts) = []"
      "rules_of d (addTCPRSTFlood mg inputChainName opts) = []"
      "rules_of d (protection_modules mg rs opts ?cidrs) = []"
      "rules_of d (concat (map (addCIDRAccept inputChainName) ?cidrs)) = []"
      "rules_of d (concat (map (addBlocklistRule mg inputChainName opts) (Blocklist rs))) = []"
      "rules_of d (concat (map (addAllowlistRule inputChainName) (Allowlist rs))) = []"
      "rules_of d (addEchoAccepts inputChainName (ICMPAllowEchoRequest opts) ?v6) = []"
      "rules_of d (concat (map (addPortAccept inputChainName pr) (filter FiltersHost prs))) = []"
      "rules_of d (addForwardingRules mg (Forwarding rs)) = []"
    if "d \<in> {forwardChainName, forwardListsChainName}" for d rt pr prs
    using that setup_no_rules loopback.confined ipv6.confined established.confined discovery.confined
      icmpflood.confined tcprst.confined input_stage.confined [OF modules_stage] networks.confined
      blocklist.confined allowlist.confined echo.confined ports.confined redirect_confined
    by (auto simp: chain_name_defs module_chains_def)
  have "rules_of forwardChainName batch = rules_of forwardChainName cs"
    "rules_of forwardListsChainName batch =
       rules_of forwardListsChainName cs @ rules_of forwardListsChainName fcs"
    using built fw fcs feed_part by (auto simp: build_batch_def Let_def quiet)
  with that fw fcs show thesis by blast
qed

lemma forward_base_policy:
  assumes "build_batch mg rs opts net feeds detected = Inr (k, batch)"
  shows "base_policy forwardChainName batch \<longleftrightarrow> rtMode (effective_routing (nsRouting net)) = RoutingOpen"
  using assms
  by (auto simp: build_batch_def Let_def table_setup_def base_filter_def chain_name_defs
      split: prod.splits sum.splits if_splits)

lemma forward_chain_exact:
  assumes ok: "rules_ok rs" and built: "build_batch mg rs opts net feeds detected = Inr (k, batch)"
    and order: "host_byte_order mg" and wf: "wf_packet p"
  shows "chain_accepts (mgNative mg) m p batch forwardChainName =
    forward_policy m rs (nsDocker net) (effective_routing (nsRouting net)) (docker_cidrs net detected)
      (v6Mode (effective_ipv6 (nsIPv6 net))) p"
proof -
  obtain cs fwd fcs where
    fw: "buildForwardChain mg forwardChainName rs (nsDocker net) (effective_routing (nsRouting net))
       (docker_cidrs net detected) (v6Mode (effective_ipv6 (nsIPv6 net))) = (cs, fwd)"
    and fcs: "addFeeds mg inputChainName (Feeds rs) feeds opts fwd = Inr (k, fcs)"
    and rules: "rules_of forwardChainName batch = rules_of forwardChainName cs"
    "rules_of forwardListsChainName batch =
       rules_of forwardListsChainName cs @ rules_of forwardListsChainName fcs"
    using forward_in_batch [OF built] .
  have ne: "forwardChainName \<noteq> forwardListsChainName" "forwardListsChainName \<noteq> inputChainName"
    by (simp_all add: chain_name_defs)
  have name: "d = forwardListsChainName" if "fwd = Some d" for d
    using forward_lists_name [of mg forwardChainName rs "nsDocker net" "effective_routing (nsRouting net)"
        "docker_cidrs net detected" "v6Mode (effective_ipv6 (nsIPv6 net))"] fw that by auto
  have ports: "list_all port_rule_ok (TCP rs @ UDP rs)" using ok by (auto simp: rules_ok_def list_all_iff)
  have "eval_rules (mgNative mg) m p (\<lambda>d. rules_of d batch) (Suc (Suc 0)) (rules_of forwardChainName cs) =
    forward_stages m rs (nsDocker net) (effective_routing (nsRouting net)) (docker_cidrs net detected)
      (v6Mode (effective_ipv6 (nsIPv6 net))) p"
    by (rule eval_forward_chain [OF host_native [OF order] wf ports ne(1) fw,
          where fr = "rules_of forwardListsChainName fcs"])
      (use name rules eval_forward_feeds [OF _ ne(2) wf] fcs in \<open>auto\<close>)
  then show ?thesis
    using forward_base_policy [OF built]
    by (simp add: chain_accepts_def rules numeral_2_eq_2 forward_policy_def split: chain_result.splits)
qed

section \<open>Properties\<close>

lemma cidrFamilies_some:
  assumes "c \<in> set cidrs" "network_of c = Some q"
  shows "fst (cidrFamilies cidrs) \<or> snd (cidrFamilies cidrs)"
proof -
  let ?f = "\<lambda>c (v4, v6). if IsListComment c then (v4, v6)
        else (case ParseNetwork c of None \<Rightarrow> (v4, v6)
              | Some p \<Rightarrow> if Is4 (paddr p) then (True, v6) else (v4, True))"
  have keep: "fst a \<or> snd a \<Longrightarrow> fst (fold ?f cs a) \<or> snd (fold ?f cs a)" for cs :: "string list" and a
    by (induction cs arbitrary: a) (auto split: prod.splits option.splits)
  have "fst (fold ?f cidrs a) \<or> snd (fold ?f cidrs a)" for a
    using assms(1)
  proof (induction cidrs arbitrary: a)
    case (Cons d ds)
    show ?case
    proof (cases "d = c")
      case True
      then have "fst (?f d a) \<or> snd (?f d a)"
        using assms(2) by (auto simp: network_of_def split: prod.splits if_splits)
      with keep [of "?f d a" ds] show ?thesis by simp
    qed (use Cons in auto)
  qed simp
  then show ?thesis by (simp add: cidrFamilies_def)
qed

lemma forwarded_network: "network_of c = Some q \<Longrightarrow> entry_network c = Some q"
  using ParseIP_no_slash [of "trim_space c"] ParseCIDR_slash [of "trim_space c"]
  by (cases "ParseIP (trim_space c)")
     (auto simp: network_of_def entry_network_def ParseNetwork_def split: if_splits option.splits)

text \<open>
  C5. Refinement of the forward chain: for every rule set the boundary admits, every setting of
  routing and containers and either byte order, the table one apply builds forwards exactly the
  packets the policy names.
\<close>

theorem forward_chain_refines_policy:
  assumes "ValidateRules rs = None" "build_batch mg rs opts net feeds detected = Inr (k, batch)"
    "host_byte_order mg" "wf_packet p"
  shows "chain_accepts (mgNative mg) m p batch forwardChainName =
    forward_policy m rs (nsDocker net) (effective_routing (nsRouting net)) (docker_cidrs net detected)
      (v6Mode (effective_ipv6 (nsIPv6 net))) p"
  using forward_chain_exact [OF _ assms(2-4)] assms(1) by (simp add: ValidateRules_None)

text \<open>
  C6. Published container ports are closed unless a rule opens them: with the filtered setting,
  a new connection from outside into a container network is dropped, whatever the routing mode
  and its exceptions say, unless a forwarded port rule accepts it.
\<close>

theorem published_ports_are_filtered:
  assumes "ValidateRules rs = None" "build_batch mg rs opts net feeds detected = Inr (k, batch)"
    "host_byte_order mg" "wf_packet p"
    "FiltersPublishedPorts (nsDocker net)" "c \<in> set (docker_cidrs net detected)" "network_of c = Some q"
    "Contains q (packet_dst p)" "\<not> Contains q (packet_src p)" "\<not> established p"
    "\<And>r. r \<in> set (TCP rs) \<Longrightarrow> FiltersForwarded r \<Longrightarrow> \<not> port_open IPPROTO_TCP r p"
    "\<And>r. r \<in> set (UDP rs) \<Longrightarrow> FiltersForwarded r \<Longrightarrow> \<not> port_open IPPROTO_UDP r p"
  shows "\<not> chain_accepts (mgNative mg) m p batch forwardChainName"
proof -
  let ?cidrs = "docker_cidrs net detected"
  have render: "forwardPortRulesRender (nsDocker net) ?cidrs"
    using assms(5) cidrFamilies_some [OF assms(6,7)] by (simp add: forwardPortRulesRender_def)
  have "crosses_in ?cidrs p"
    using assms(6,8,9) forwarded_network [OF assms(7)] unfolding crosses_in_def
    by (intro bexI [of _ c]) (simp_all add: entry_covers_def)
  moreover have "\<not> forward_open families mode IPPROTO_TCP (TCP rs) p"
    "\<not> forward_open families mode IPPROTO_UDP (UDP rs) p" for families mode
    using assms(11,12) by (auto simp: forward_open_def)
  ultimately have "\<not> forward_policy m rs (nsDocker net) (effective_routing (nsRouting net)) ?cidrs
      (v6Mode (effective_ipv6 (nsIPv6 net))) p"
    using render assms(10)
    by (simp add: forward_policy_def forward_stages_def forward_managed_def drop_if_def)
  with assms show ?thesis by (simp add: forward_chain_exact ValidateRules_None)
qed

end
