(* ===== verification/NftCheck.thy ===== *)
theory NftCheck
  imports ForwardChain
begin

text \<open>
  The check in front of netlink (\<open>internal/core/nftables_check.go\<close>): \<open>CheckRules\<close> over the rules
  of one transaction, what an empty report means, and the proof that no batch the builders make,
  from any rules and settings, has anything to report.
\<close>

section \<open>The check\<close>

record finding =
  fnChain :: string
  fnIndex :: int
  fnReason :: string

definition noIndex :: int where "noIndex = -1"

definition ctStateAllBits :: "32 word" where
  "ctStateAllBits = ctStateInvalid OR ctStateEstablished OR ctStateRelated OR ctStateNew"

text \<open>
  The builders load no conntrack key but the state, so the nearest conntrack load into the
  register is a load of the state whenever there is one.
\<close>

definition precededByCtState :: "expr list \<Rightarrow> nat \<Rightarrow> nat \<Rightarrow> bool" where
  "precededByCtState exprs i src =
     (case find (\<lambda>e. case e of CtState d \<Rightarrow> d = src | _ \<Rightarrow> False) (rev (take i exprs)) of
        None \<Rightarrow> False | Some _ \<Rightarrow> True)"

record check_state =
  csFindings :: "finding list"
  csAccepts :: "string list"
  csJumped :: "(string \<times> string \<times> nat) list"
  csPerChain :: "string \<Rightarrow> nat"

definition maskWidth :: string where
  "maskWidth = ''a conntrack state mask is not four bytes wide''"
definition maskBits :: string where
  "maskBits = ''the conntrack state mask names bits no conntrack state carries; it is probably byte-reversed''"
definition jumpMissing :: string where
  "jumpMissing = ''the rule jumps to a chain this transaction does not create''"
definition jumpAccepts :: string where
  "jumpAccepts = ''a jumped-to chain accepts, so it outranks every rule after the jump; it must drop or return''"

definition add_finding :: "string \<Rightarrow> nat \<Rightarrow> string \<Rightarrow> check_state \<Rightarrow> check_state" where
  "add_finding chain idx reason st =
     st\<lparr>csFindings := csFindings st @ [\<lparr> fnChain = chain, fnIndex = int idx, fnReason = reason \<rparr>]\<rparr>"

text \<open>One expression of one rule.  \<open>rd\<close> is the library's \<open>NativeEndian.Uint32\<close>.\<close>

definition check_expr ::
  "(byte list \<Rightarrow> 32 word) \<Rightarrow> string \<Rightarrow> nat \<Rightarrow> expr list \<Rightarrow> nat \<times> expr \<Rightarrow> check_state \<Rightarrow> check_state" where
  "check_expr rd chain idx exprs ie st =
     (case snd ie of
        Bitwise src d len msk x \<Rightarrow>
          (if \<not> precededByCtState exprs (fst ie) src then st
           else if length msk \<noteq> 4 then add_finding chain idx maskWidth st
           else let native = rd msk in
             if native = 0 \<or> native AND NOT ctStateAllBits \<noteq> 0 then add_finding chain idx maskBits st else st)
      | Verdict v \<Rightarrow>
          (case v of
             VJump target \<Rightarrow> st\<lparr>csJumped := csJumped st @ [(target, chain, idx)]\<rparr>
           | VAccept \<Rightarrow> st\<lparr>csAccepts := chain # csAccepts st\<rparr>
           | VDrop \<Rightarrow> st | VReturn \<Rightarrow> st)
      | _ \<Rightarrow> st)"

definition check_rule ::
  "(byte list \<Rightarrow> 32 word) \<Rightarrow> string \<times> expr list \<Rightarrow> check_state \<Rightarrow> check_state" where
  "check_rule rd r st =
     (let (chain, exprs) = r; idx = csPerChain st chain in
      fold (check_expr rd chain idx exprs) (List.enumerate 0 exprs)
        (st\<lparr>csPerChain := (csPerChain st)(chain := idx + 1)\<rparr>))"

text \<open>
  The two checks per target.  The source ranges over a map, in no order; here the targets come
  in the order of their first jump.
\<close>

definition target_findings ::
  "string list \<Rightarrow> string list \<Rightarrow> string list \<Rightarrow> (string \<times> string \<times> nat) list \<Rightarrow> string \<Rightarrow> finding list" where
  "target_findings created accepts acceptingChains jumped target =
     (if target \<notin> set created
      then map (\<lambda>(_, from, idx). \<lparr> fnChain = from, fnIndex = int idx, fnReason = jumpMissing \<rparr>)
             (filter (\<lambda>(t, _). t = target) jumped)
      else []) @
     (if target \<in> set accepts \<and> target \<notin> set acceptingChains
      then [\<lparr> fnChain = target, fnIndex = noIndex, fnReason = jumpAccepts \<rparr>] else [])"

definition CheckRules ::
  "(byte list \<Rightarrow> 32 word) \<Rightarrow> (string \<times> expr list) list \<Rightarrow> string list \<Rightarrow> finding list" where
  "CheckRules rd rs acceptingChains =
     (let created = map fst rs;
          st = fold (check_rule rd) rs
                 \<lparr> csFindings = [], csAccepts = [], csJumped = [], csPerChain = (\<lambda>_. 0) \<rparr>
      in csFindings st @
         concat (map (target_findings created (csAccepts st) acceptingChains (csJumped st))
                     (remdups (map fst (csJumped st)))))"

text \<open>The rules of a batch with their chains, as the manager records them, and \<open>checkBuilt\<close>.\<close>

fun chain_rules :: "cmd list \<Rightarrow> (string \<times> expr list) list" where
  "chain_rules [] = []"
| "chain_rules (AddRule c es tag # cs) = (c, es) # chain_rules cs"
| "chain_rules (_ # cs) = chain_rules cs"

definition checkBuilt :: "(byte list \<Rightarrow> 32 word) \<Rightarrow> cmd list \<Rightarrow> finding list" where
  "checkBuilt rd batch = CheckRules rd (chain_rules batch) []"

section \<open>What an empty report means\<close>

definition state_mask_ok :: "(byte list \<Rightarrow> 32 word) \<Rightarrow> byte list \<Rightarrow> bool" where
  "state_mask_ok rd msk \<longleftrightarrow>
     length msk = 4 \<and> rd msk \<noteq> 0 \<and> rd msk AND NOT ctStateAllBits = 0"

text \<open>Every mask over a register that last held a conntrack state names states only.\<close>

fun masks_from :: "(byte list \<Rightarrow> 32 word) \<Rightarrow> nat list \<Rightarrow> expr list \<Rightarrow> bool" where
  "masks_from rd seen [] \<longleftrightarrow> True"
| "masks_from rd seen (CtState d # es) \<longleftrightarrow> masks_from rd (d # seen) es"
| "masks_from rd seen (Bitwise s d len msk x # es) \<longleftrightarrow>
     (s \<in> set seen \<longrightarrow> state_mask_ok rd msk) \<and> masks_from rd seen es"
| "masks_from rd seen (e # es) \<longleftrightarrow> masks_from rd seen es"

lemma preceded_iff: "precededByCtState es i src \<longleftrightarrow> CtState src \<in> set (take i es)"
proof -
  have "(case e of CtState d \<Rightarrow> d = src | _ \<Rightarrow> False) \<longleftrightarrow> e = CtState src" for e
    by (cases e) auto
  then have "find (\<lambda>e. case e of CtState d \<Rightarrow> d = src | _ \<Rightarrow> False) (rev (take i es)) = None \<longleftrightarrow>
      CtState src \<notin> set (take i es)"
    by (simp add: find_None_iff)
  then show ?thesis by (auto simp: precededByCtState_def split: option.splits)
qed

lemma check_expr_accepts:
  "set (csAccepts (check_expr rd c idx es ie st)) =
     set (csAccepts st) \<union> (if snd ie = Verdict VAccept then {c} else {})"
  by (auto simp: check_expr_def add_finding_def Let_def split: expr.splits verdict.splits)

lemma check_expr_jumped:
  "fst ` set (csJumped (check_expr rd c idx es ie st)) =
     fst ` set (csJumped st) \<union> {t. snd ie = Verdict (VJump t)}"
  by (auto simp: check_expr_def add_finding_def Let_def split: expr.splits verdict.splits)

definition expr_mask_ok :: "(byte list \<Rightarrow> 32 word) \<Rightarrow> expr list \<Rightarrow> nat \<times> expr \<Rightarrow> bool" where
  "expr_mask_ok rd es ie \<longleftrightarrow>
     (case snd ie of
        Bitwise s d len msk x \<Rightarrow> CtState s \<in> set (take (fst ie) es) \<longrightarrow> state_mask_ok rd msk | _ \<Rightarrow> True)"

lemma check_expr_findings:
  "csFindings (check_expr rd c idx es ie st) = [] \<longleftrightarrow> csFindings st = [] \<and> expr_mask_ok rd es ie"
  by (auto simp: check_expr_def expr_mask_ok_def add_finding_def state_mask_ok_def preceded_iff Let_def
      split: expr.splits verdict.splits)

lemma check_exprs_fold:
  "set (csAccepts (fold (check_expr rd c idx es) xs st)) =
     set (csAccepts st) \<union> (if \<exists>i. (i, Verdict VAccept) \<in> set xs then {c} else {})"
  "fst ` set (csJumped (fold (check_expr rd c idx es) xs st)) =
     fst ` set (csJumped st) \<union> {t. \<exists>i. (i, Verdict (VJump t)) \<in> set xs}"
  "csFindings (fold (check_expr rd c idx es) xs st) = [] \<longleftrightarrow>
     csFindings st = [] \<and> list_all (expr_mask_ok rd es) xs"
  by (induction xs arbitrary: st)
     (auto simp: check_expr_accepts check_expr_jumped check_expr_findings split: if_splits)

lemma enumerate_mem: "(\<exists>i. (i, e) \<in> set (List.enumerate n es)) \<longleftrightarrow> e \<in> set es"
  by (induction es arbitrary: n) (auto simp: ex_disj_distrib)

lemma masks_enumerate:
  assumes "\<And>s. s \<in> set seen \<longleftrightarrow> CtState s \<in> set pre"
  shows "list_all (expr_mask_ok rd (pre @ es)) (List.enumerate (length pre) es) \<longleftrightarrow> masks_from rd seen es"
  using assms
proof (induction es arbitrary: pre seen)
  case (Cons e es)
  have "masks_from rd seen (e # es) \<longleftrightarrow>
      expr_mask_ok rd (pre @ e # es) (length pre, e) \<and>
      masks_from rd (case e of CtState d \<Rightarrow> d # seen | _ \<Rightarrow> seen) es"
    using Cons(2) by (cases e) (simp_all add: expr_mask_ok_def)
  moreover have "s \<in> set (case e of CtState d \<Rightarrow> d # seen | _ \<Rightarrow> seen) \<longleftrightarrow> CtState s \<in> set (pre @ [e])" for s
    using Cons(2) by (cases e) auto
  ultimately show ?case using Cons(1) [of "case e of CtState d \<Rightarrow> d # seen | _ \<Rightarrow> seen" "pre @ [e]"] by simp
qed simp

lemma masks_all: "list_all (expr_mask_ok rd es) (List.enumerate 0 es) \<longleftrightarrow> masks_from rd [] es"
  using masks_enumerate [of "[]" "[]" rd es] by simp

lemma check_rule_effect:
  "set (csAccepts (check_rule rd (c, es) st)) =
     set (csAccepts st) \<union> (if Verdict VAccept \<in> set es then {c} else {})"
  "fst ` set (csJumped (check_rule rd (c, es) st)) =
     fst ` set (csJumped st) \<union> {t. Verdict (VJump t) \<in> set es}"
  "csFindings (check_rule rd (c, es) st) = [] \<longleftrightarrow> csFindings st = [] \<and> masks_from rd [] es"
  by (simp_all add: check_rule_def Let_def check_exprs_fold enumerate_mem masks_all)

lemma check_rules_accepts:
  "set (csAccepts (fold (check_rule rd) rs st)) =
     set (csAccepts st) \<union> {c. \<exists>es. (c, es) \<in> set rs \<and> Verdict VAccept \<in> set es}"
proof (induction rs arbitrary: st)
  case (Cons r rs)
  obtain c es where "r = (c, es)" by (cases r)
  with Cons [of "check_rule rd r st"] show ?case by (auto simp: check_rule_effect)
qed simp

lemma check_rules_jumped:
  "fst ` set (csJumped (fold (check_rule rd) rs st)) =
     fst ` set (csJumped st) \<union> {t. \<exists>c es. (c, es) \<in> set rs \<and> Verdict (VJump t) \<in> set es}"
proof (induction rs arbitrary: st)
  case (Cons r rs)
  obtain c es where "r = (c, es)" by (cases r)
  with Cons [of "check_rule rd r st"]
  have "fst ` set (csJumped (fold (check_rule rd) (r # rs) st)) =
    fst ` set (csJumped st) \<union> {t. Verdict (VJump t) \<in> set es} \<union>
      {t. \<exists>c es. (c, es) \<in> set rs \<and> Verdict (VJump t) \<in> set es}"
    by (simp add: check_rule_effect)
  with \<open>r = (c, es)\<close> show ?case by auto
qed simp

lemma check_rules_findings:
  "csFindings (fold (check_rule rd) rs st) = [] \<longleftrightarrow>
     csFindings st = [] \<and> (\<forall>(c, es)\<in>set rs. masks_from rd [] es)"
proof (induction rs arbitrary: st)
  case (Cons r rs)
  obtain c es where "r = (c, es)" by (cases r)
  with Cons [of "check_rule rd r st"] show ?case by (simp add: check_rule_effect conj_assoc)
qed simp

lemma target_findings_empty:
  assumes "target \<in> fst ` set jumped"
  shows "target_findings created accepts accepting jumped target = [] \<longleftrightarrow>
    target \<in> set created \<and> (target \<in> set accepts \<longrightarrow> target \<in> set accepting)"
  using assms by (auto simp: target_findings_def filter_empty_conv)

definition jumps_of :: "(string \<times> expr list) list \<Rightarrow> string set" where
  "jumps_of rs = {t. \<exists>c es. (c, es) \<in> set rs \<and> Verdict (VJump t) \<in> set es}"

definition accepts_in :: "(string \<times> expr list) list \<Rightarrow> string set" where
  "accepts_in rs = {c. \<exists>es. (c, es) \<in> set rs \<and> Verdict VAccept \<in> set es}"

lemma CheckRules_empty:
  "CheckRules rd rs accepting = [] \<longleftrightarrow>
     (\<forall>(c, es)\<in>set rs. masks_from rd [] es) \<and>
     jumps_of rs \<subseteq> fst ` set rs \<and> jumps_of rs \<inter> accepts_in rs \<subseteq> set accepting"
proof -
  let ?st = "fold (check_rule rd) rs \<lparr> csFindings = [], csAccepts = [], csJumped = [], csPerChain = (\<lambda>_. 0) \<rparr>"
  have acc: "set (csAccepts ?st) = accepts_in rs" by (simp add: check_rules_accepts accepts_in_def)
  have jmp: "fst ` set (csJumped ?st) = jumps_of rs" by (simp add: check_rules_jumped jumps_of_def)
  let ?f = "target_findings (map fst rs) (csAccepts ?st) accepting (csJumped ?st)"
  have "concat (map ?f (remdups (map fst (csJumped ?st)))) = [] \<longleftrightarrow> (\<forall>t\<in>fst ` set (csJumped ?st). ?f t = [])"
    by auto
  also have "\<dots> \<longleftrightarrow> (\<forall>t\<in>fst ` set (csJumped ?st).
      t \<in> fst ` set rs \<and> (t \<in> accepts_in rs \<longrightarrow> t \<in> set accepting))"
    by (rule ball_cong) (simp_all only: target_findings_empty acc set_map)
  finally have "concat (map ?f (remdups (map fst (csJumped ?st)))) = [] \<longleftrightarrow>
      jumps_of rs \<subseteq> fst ` set rs \<and> jumps_of rs \<inter> accepts_in rs \<subseteq> set accepting"
    unfolding jmp by blast
  then show ?thesis
    unfolding CheckRules_def Let_def append_is_Nil_conv check_rules_findings by simp
qed

section \<open>Reading a mask back\<close>

locale native_codec = native_order ne for ne :: "32 word \<Rightarrow> byte list" +
  fixes rd :: "byte list \<Rightarrow> 32 word"
  assumes rd_ne: "rd (ne x) = x"
begin

lemma state_mask_written:
  "x \<noteq> 0 \<Longrightarrow> x AND NOT ctStateAllBits = 0 \<Longrightarrow> state_mask_ok rd (ne x)"
  by (simp add: state_mask_ok_def ne_length rd_ne)

lemma state_masks:
  "state_mask_ok rd (ne (ctStateEstablished OR ctStateRelated))"
  "state_mask_ok rd (ne ctStateInvalid)" "state_mask_ok rd (ne ctStateNew)"
  by (rule state_mask_written; code_simp)+

end

definition le_read32 :: "byte list \<Rightarrow> 32 word" where
  "le_read32 b =
     (case b of
        [b0, b1, b2, b3] \<Rightarrow> ucast b0 OR push_bit 8 (ucast b1) OR push_bit 16 (ucast b2) OR push_bit 24 (ucast b3)
      | _ \<Rightarrow> 0)"

definition be_read32 :: "byte list \<Rightarrow> 32 word" where
  "be_read32 b = le_read32 (rev b)"

lemma le_read32_le32: "le_read32 (le32 x) = x"
proof (rule bit_eqI)
  fix n
  assume "possible_bit TYPE(32 word) n"
  then have "n < 32" by simp
  then consider "n < 8" | "8 \<le> n \<and> n < 16" | "16 \<le> n \<and> n < 24" | "24 \<le> n \<and> n < 32" by linarith
  then show "bit (le_read32 (le32 x)) n = bit x n"
    by cases (auto simp: le_read32_def le32_def bit_simps)
qed

interpretation little_codec: native_codec le32 le_read32
  by unfold_locales (rule le_read32_le32)

interpretation big_codec: native_codec be32 be_read32
  by unfold_locales (simp add: be_read32_def be32_def le_read32_le32)

section \<open>Every batch passes\<close>

text \<open>A match: no conntrack load and no verdict, so whatever masks it has are not state masks.\<close>

fun plain_expr :: "expr \<Rightarrow> bool" where
  "plain_expr (CtState d) \<longleftrightarrow> False"
| "plain_expr (Verdict v) \<longleftrightarrow> False"
| "plain_expr _ \<longleftrightarrow> True"

definition plain_match :: "expr list \<Rightarrow> bool" where
  "plain_match es \<longleftrightarrow> list_all plain_expr es"

lemma plain_match_simps [simp]:
  "plain_match []" "plain_match (xs @ ys) \<longleftrightarrow> plain_match xs \<and> plain_match ys"
  "plain_match (e # es) \<longleftrightarrow> plain_expr e \<and> plain_match es"
  by (simp_all add: plain_match_def)

lemma masks_plain: "plain_match xs \<Longrightarrow> masks_from rd [] (xs @ ys) = masks_from rd [] ys"
  by (induction rd "[] :: nat list" xs rule: masks_from.induct) (auto simp: plain_match_def)

lemma verdict_plain: "plain_match xs \<Longrightarrow> Verdict v \<notin> set xs"
  by (auto simp: plain_match_def list_all_iff)

text \<open>What a list of commands contributes: sound rules, the chains it jumps to and those it fills.\<close>

definition sound_cmds :: "(byte list \<Rightarrow> 32 word) \<Rightarrow> cmd list \<Rightarrow> bool" where
  "sound_cmds rd cs \<longleftrightarrow> (\<forall>(c, es)\<in>set (chain_rules cs). masks_from rd [] es \<and>
     (Verdict VAccept \<in> set es \<longrightarrow> c = inputChainName \<or> c = forwardChainName))"

definition jump_closed :: "cmd list \<Rightarrow> bool" where
  "jump_closed cs \<longleftrightarrow> jumps_of (chain_rules cs) \<subseteq> fst ` set (chain_rules cs)"

definition passes :: "(byte list \<Rightarrow> 32 word) \<Rightarrow> cmd list \<Rightarrow> bool" where
  "passes rd cs \<longleftrightarrow> sound_cmds rd cs \<and> jump_closed cs \<and>
     jumps_of (chain_rules cs) \<inter> {inputChainName, forwardChainName} = {}"

lemma chain_rules_append [simp]: "chain_rules (xs @ ys) = chain_rules xs @ chain_rules ys"
  by (induction xs rule: chain_rules.induct) auto

lemma chain_rules_concat: "chain_rules (concat xss) = concat (map chain_rules xss)"
  by (induction xss) auto

lemma chain_rules_map: "chain_rules (map (\<lambda>x. AddRule (c x) (g x) (tag x)) xs) = map (\<lambda>x. (c x, g x)) xs"
  by (induction xs) auto

lemma chain_rules_rules: "(c, es) \<in> set (chain_rules cs) \<longleftrightarrow> es \<in> fst ` set (rules_of c cs)"
  by (induction cs rule: chain_rules.induct) (auto split: if_splits)

lemma jumps_of_append [simp]: "jumps_of (xs @ ys) = jumps_of xs \<union> jumps_of ys"
  by (auto simp: jumps_of_def)

lemma jumps_of_Cons [simp]: "jumps_of ((c, es) # rs) = {t. Verdict (VJump t) \<in> set es} \<union> jumps_of rs"
  "jumps_of [] = {}"
  by (auto simp: jumps_of_def)

lemma passes_append: "passes rd xs \<Longrightarrow> passes rd ys \<Longrightarrow> passes rd (xs @ ys)"
  by (auto simp: passes_def sound_cmds_def jump_closed_def)

lemma passes_Nil [simp]: "passes rd []"
  by (simp add: passes_def sound_cmds_def jump_closed_def)

lemma passes_concat: "(\<And>x. x \<in> set xs \<Longrightarrow> passes rd (f x)) \<Longrightarrow> passes rd (concat (map f xs))"
  by (induction xs) (auto intro: passes_append)

lemma passes_checked:
  assumes "passes rd batch"
  shows "checkBuilt rd batch = []"
proof -
  have "accepts_in (chain_rules batch) \<subseteq> {inputChainName, forwardChainName}"
    using assms by (auto simp: passes_def sound_cmds_def accepts_in_def)
  then show ?thesis
    using assms unfolding checkBuilt_def CheckRules_empty
    by (auto simp: passes_def sound_cmds_def jump_closed_def)
qed

lemma plain_log [simp]: "plain_match (logExprs pfx n sink)"
  by (simp add: logExprs_def Let_def plain_match_def)

lemma plain_nets [simp]: "plain_match (net_exprs q pos msk cop)"
  by (simp add: net_exprs_def addr_exprs_def Let_def plain_match_def split: option.splits)

lemma plain_cidr: "cidrMatchOp e pos cop = Some es \<Longrightarrow> plain_match es"
  by (auto simp: cidrMatchOp_net)

lemma plain_sources [simp]: "plain_match (v4_source_exprs msk ip)" "plain_match (v6_source_exprs msk ip)"
  by (simp_all add: v4_source_exprs_def v6_source_exprs_def plain_match_def split: option.splits)

lemma plain_ipv4: "ipv4SourceMatch e = Some es \<Longrightarrow> plain_match es"
  by (auto simp: ipv4SourceMatch_def Let_def plain_match_def split: if_splits option.splits)

lemma plain_blocklist: "blocklist_match e = Some es \<Longrightarrow> plain_match es"
  by (auto simp: blocklist_match_def cidrDropMatch_def split: option.splits)

lemma plain_ports [simp]: "plain_match (buildPortExprs port)"
  by (auto simp: buildPortExprs_def matchPortEq_def plain_match_def split: prod.splits sum.splits)

lemma plain_fixed [simp]:
  "plain_match (l4_match proto)" "plain_match (tcp_flags_match a b)" "plain_match (fragment_match mg)"
  "plain_match (echo_request_match f)" "plain_match (srcAddrExprs f)" "plain_match (feed_match fid f)"
  "plain_match (redirect_exprs mg fwd)"
  by (simp_all add: l4_match_def tcp_flags_match_def fragment_match_def echo_request_match_def
      srcAddrExprs_def feed_match_def redirect_exprs_def plain_match_def split: prod.splits)

lemma masks_plain_all: "plain_match xs \<Longrightarrow> masks_from rd [] xs"
  using masks_plain [of xs rd "[]"] by simp

lemmas pass_simps =
  passes_def sound_cmds_def jump_closed_def chain_rules_concat chain_rules_map masks_plain masks_plain_all
  verdict_plain

lemma passes_logged:
  assumes "plain_match es"
  shows "passes rd (addLogged mg c es lg tag [Verdict VDrop])"
    "passes rd (addLogged mg c es lg tag [Counter, Verdict VDrop])"
    "passes rd (addFiltered mg c es (Verdict VDrop) lg)"
  using assms by (simp_all add: addLogged_def addFiltered_def pass_simps)

lemma passes_over:
  "passes rd (addOverRateChain mg name lg)"
  "name \<in> fst ` set (chain_rules (addOverRateChain mg name lg))"
  by (simp_all add: addOverRateChain_def pass_simps)

text \<open>A metered module: its jumps go to the chain the same module fills.\<close>

lemma passes_metered:
  assumes "\<And>f. plain_match (g f)" "name \<noteq> inputChainName" "name \<noteq> forwardChainName"
  shows "passes rd (addOverRateChain mg name lg @ addPerSourceRateLimit mg c g r name)"
  using assms
  by (auto simp: addOverRateChain_def addPerSourceRateLimit_def addrFamilies_def pass_simps)

lemma passes_lists:
  "passes rd (addCIDRAccept inputChainName e)" "passes rd (addBlocklistRule mg inputChainName opts e)"
  "passes rd (addAllowlistRule inputChainName e)" "passes rd (addLoopbackAccept inputChainName)"
  "passes rd (ipv6_disposition v6)"
proof -
  show "passes rd (addCIDRAccept inputChainName e)" for e
    by (auto simp: addCIDRAccept_def pass_simps split: option.splits)
  then show "passes rd (addAllowlistRule inputChainName e)"
    by (auto simp: addAllowlistRule_def, auto simp: pass_simps split: option.splits)
  show "passes rd (addBlocklistRule mg inputChainName opts e)"
    by (auto simp: addBlocklistRule_def passes_logged plain_blocklist split: option.splits)
qed (auto simp: addLoopbackAccept_def ipv6_disposition_def addFamilyVerdict_def pass_simps)

lemma passes_icmp: "passes rd (addICMPTypeAccept inputChainName proto ty)"
  by (simp add: addICMPTypeAccept_def pass_simps)

lemma passes_icmps: "passes rd (addICMPRules inputChainName v6)" "passes rd (addEchoAccepts inputChainName b v6)"
  by (auto simp: addICMPRules_def addEchoAccepts_def intro!: passes_concat passes_icmp passes_append)

lemma passes_port_rules:
  assumes "c = inputChainName \<or> c = forwardChainName"
    "\<And>es tag. (es, tag) \<in> set rs \<Longrightarrow> \<exists>pre. plain_match pre \<and>
      (es = pre @ [Counter, Verdict VAccept] \<or> es = pre @ [Counter, Verdict VDrop])"
  shows "passes rd (add_rules c rs)"
proof -
  have "masks_from rd [] es \<and> (\<forall>t. Verdict (VJump t) \<notin> set es)" if "(es, tag) \<in> set rs" for es tag
    using assms(2) [OF that] by (auto simp: masks_plain verdict_plain)
  moreover have "chain_rules (add_rules c rs) = map (\<lambda>r. (c, fst r)) rs"
    by (simp add: add_rules_def case_prod_unfold chain_rules_map)
  ultimately show ?thesis
    using assms(1) unfolding passes_def sound_cmds_def jump_closed_def jumps_of_def by fastforce
qed

lemma port_rule_shape:
  assumes "(es, tag) \<in> set (portAcceptRules proto r)"
  shows "\<exists>pre. plain_match pre \<and> es = pre @ [Counter, Verdict VAccept]"
proof -
  obtain pr ms where "es = port_match pr r ms" "plain_match ms"
    using assms that [OF _ plain_match_simps(1)] that [OF _ plain_nets]
    by (auto simp: portAcceptRules_def Let_def port_matches split: if_splits)
  then show ?thesis
    by (intro exI [of _ "ms @ l4_match pr @ buildPortExprs (prPort r)"]) (simp add: port_match_def)
qed

lemma passes_ports: "passes rd (addPortAccept inputChainName proto r)"
  unfolding addPortAccept_def by (rule passes_port_rules) (auto dest: port_rule_shape)

lemma forward_rule_shape:
  assumes "(es, tag) \<in> set (forward_port_rules families m proto r)"
  shows "\<exists>pre. plain_match pre \<and> es = pre @ [Counter, Verdict VAccept]"
proof -
  have pin: "plain_match pre \<Longrightarrow> \<exists>pre'. plain_match pre' \<and>
      forwardFamilyPin (pre @ [Counter, Verdict VAccept]) fam = pre' @ [Counter, Verdict VAccept]" for pre fam
    by (cases "ruleFamily (pre @ [Counter, Verdict VAccept])")
      (auto simp: forwardFamilyPin_def intro!: exI [of _ "[Meta NFPROTO 1, Cmp CmpEq 1 [fam]] @ pre"])
  from assms pin show ?thesis
    by (fastforce simp: forward_port_rules_def dest: port_rule_shape split: if_splits)
qed

lemma deny_rule_shape:
  assumes "(es, tag) \<in> set (forward_deny c)"
  shows "\<exists>pre. plain_match pre \<and> es = pre @ [Counter, Verdict VDrop]"
proof -
  obtain q where es: "es = net_exprs q posDstAddr (\<not> full_net q) CmpEq @
      withoutFamilyTest (net_exprs q posSrcAddr (\<not> full_net q) CmpNeq) @ [Counter, Verdict VDrop]"
    using assms by (cases "entry_network c")
      (auto simp: forward_deny_def cidrMatch_def cidrMatchNegated_def cidrMatchOp_net)
  moreover have "plain_match (withoutFamilyTest (net_exprs q posSrcAddr (\<not> full_net q) CmpNeq))"
    by (simp add: net_exprs_def addr_exprs_def Let_def plain_match_def)
  ultimately show ?thesis
    by (intro exI [of _ "net_exprs q posDstAddr (\<not> full_net q) CmpEq @
        withoutFamilyTest (net_exprs q posSrcAddr (\<not> full_net q) CmpNeq)"]) simp
qed

lemma passes_forward_ports: "passes rd (addForwardPortRules forwardChainName rs docker cidrs mode)"
proof -
  have "passes rd (add_rules forwardChainName (concat (map (forward_port_rules families m proto) prs)))"
    for families m proto prs
  proof (rule passes_port_rules)
    fix es tag
    assume "(es, tag) \<in> set (concat (map (forward_port_rules families m proto) prs))"
    then obtain r where "(es, tag) \<in> set (forward_port_rules families m proto r)" by auto
    from forward_rule_shape [OF this] show "\<exists>pre. plain_match pre \<and>
      (es = pre @ [Counter, Verdict VAccept] \<or> es = pre @ [Counter, Verdict VDrop])" by blast
  qed simp
  moreover have "passes rd (add_rules forwardChainName (concat (map forward_deny cidrs)))"
  proof (rule passes_port_rules)
    fix es tag
    assume "(es, tag) \<in> set (concat (map forward_deny cidrs))"
    then obtain c where "(es, tag) \<in> set (forward_deny c)" by auto
    from deny_rule_shape [OF this] show "\<exists>pre. plain_match pre \<and>
      (es = pre @ [Counter, Verdict VAccept] \<or> es = pre @ [Counter, Verdict VDrop])" by blast
  qed simp
  ultimately show ?thesis by (simp add: addForwardPortRules_def Let_def passes_append)
qed

lemma masks_snoc: "masks_from rd seen (es @ [Verdict v]) = masks_from rd seen es"
  by (induction rd seen es rule: masks_from.induct) auto

text \<open>Jumps to a chain the commands before them fill.\<close>

lemma passes_jumps:
  assumes "passes rd xs" "d \<in> fst ` set (chain_rules xs)" "d \<noteq> inputChainName" "d \<noteq> forwardChainName"
    "\<And>y. y \<in> set ys \<Longrightarrow> masks_from rd [] (f y) \<and> (\<forall>v. Verdict v \<notin> set (f y))"
  shows "passes rd (xs @ map (\<lambda>y. AddRule c (f y @ [Verdict (VJump d)]) None) ys)"
proof -
  let ?js = "map (\<lambda>y. (c, f y @ [Verdict (VJump d)])) ys"
  have "jumps_of ?js \<subseteq> {d}" using assms(5) by (auto simp: jumps_of_def)
  with assms show ?thesis
    by (auto simp: passes_def sound_cmds_def jump_closed_def chain_rules_map masks_snoc)
qed

lemma passes_AddChain [simp]: "passes rd (AddChain c bc # xs) = passes rd xs"
  by (simp add: passes_def sound_cmds_def jump_closed_def)

context native_codec
begin

lemma passes_ct:
  assumes "mgNative mg = ne"
  shows "c = inputChainName \<or> c = forwardChainName \<Longrightarrow> passes rd (addEstablishedAccept mg c)"
    "passes rd (addInvalidPacketDrop mg c opts)"
    "passes rd (addSSHBruteForce mg inputChainName rs opts)"
proof -
  show "c = inputChainName \<or> c = forwardChainName \<Longrightarrow> passes rd (addEstablishedAccept mg c)"
    using state_masks by (auto simp: addEstablishedAccept_def ctStateMask_def assms pass_simps)
  show "passes rd (addInvalidPacketDrop mg c opts)"
    using state_masks
    by (auto simp: addInvalidPacketDrop_def addFiltered_def addLogged_def ct_state_match_def logExprs_def
        ctStateMask_def assms pass_simps Let_def)
  let ?own = "\<lambda>lg r. (addOverRateChain mg ''sshbrute-over'' lg @
    addPerSourceRateLimit mg ''sshbrute'' (\<lambda>_. []) r ''sshbrute-over'') @
    [AddRule ''sshbrute'' [Verdict VReturn] None]"
  have own: "passes rd (?own lg r)" for lg r
    by (intro passes_append passes_metered) (simp_all add: chain_name_defs pass_simps)
  have "passes rd (?own lg r @ map (\<lambda>port. AddRule inputChainName ((l4_match IPPROTO_TCP @ buildPortExprs port @
      ct_state_match mg ctStateNew) @ [Verdict (VJump ''sshbrute'')]) None) (sshMeteredPorts rs))" for lg r
    by (rule passes_jumps [OF own])
      (use state_masks(3) in \<open>simp_all add: chain_name_defs ct_state_match_def ctStateMask_def assms masks_plain verdict_plain\<close>)
  then show "passes rd (addSSHBruteForce mg inputChainName rs opts)"
    by (simp add: addSSHBruteForce_def Let_def)
qed

end

lemma passes_modules:
  "passes rd (addPortScanPrevention mg inputChainName opts)" "passes rd (fragment_chain mg opts)"
  "passes rd (addConnectionLimit mg inputChainName opts)" "passes rd (addBroadcastDrop inputChainName)"
  "passes rd (addMulticastDrop inputChainName)" "passes rd (addAnycastDrop mg inputChainName)"
  by (auto simp: addPortScanPrevention_def fragment_chain_def addFragmentDrop_def addFiltered_def addLogged_def
      addConnectionLimit_def addBroadcastDrop_def addMulticastDrop_def addAnycastDrop_def addrFamilies_def
      scanCombos_def pass_simps Let_def chain_name_defs)

lemma passes_floods:
  "passes rd (addSYNFloodProtection mg inputChainName opts)"
  "passes rd (addICMPFloodProtection mg inputChainName opts)"
  "passes rd (addTCPRSTFlood mg inputChainName opts)"
  by (auto simp: addSYNFloodProtection_def addICMPFloodProtection_def addTCPRSTFlood_def Let_def
      chain_name_defs intro!: passes_metered)

lemma passes_exempt:
  "passes rd (bogon_exempt e)" "passes rd (bogon_port_exempt proto r)" "passes rd (bogon_drop mg opts e)"
proof -
  show "passes rd (bogon_exempt e)"
    by (cases "ipv4SourceMatch e") (auto simp: bogon_exempt_def pass_simps plain_ipv4)
  show "passes rd (bogon_drop mg opts e)"
    by (cases "ipv4SourceMatch e") (auto simp: bogon_drop_def passes_logged plain_ipv4)
  have "passes rd (case ipv4SourceMatch src of None \<Rightarrow> []
      | Some match \<Rightarrow> [AddRule ''bogon''
          (match @ l4_match proto @ buildPortExprs (prPort r) @ [Verdict VReturn]) None])" for src
    by (cases "ipv4SourceMatch src") (auto simp: pass_simps plain_ipv4)
  then show "passes rd (bogon_port_exempt proto r)"
    by (auto simp: bogon_port_exempt_def intro!: passes_concat)
qed

lemma passes_bogons: "passes rd (addBogonFilter mg inputChainName opts exempt rs)"
proof -
  let ?own = "concat (map bogon_exempt exempt) @ concat (map (bogon_port_exempt IPPROTO_TCP) (TCP rs)) @
    concat (map (bogon_port_exempt IPPROTO_UDP) (UDP rs)) @ concat (map (bogon_drop mg opts) BogonRanges)"
  have "passes rd ?own" by (intro passes_append passes_concat passes_exempt)
  moreover have "''bogon'' \<in> fst ` set (chain_rules ?own)"
  proof -
    have "ipv4SourceMatch ''10.0.0.0/8'' \<noteq> None" by code_simp
    then have "''bogon'' \<in> fst ` set (chain_rules (bogon_drop mg opts ''10.0.0.0/8''))"
      by (auto simp: bogon_drop_def addFiltered_def addLogged_def)
    moreover have "''10.0.0.0/8'' \<in> set BogonRanges" by (simp add: BogonRanges_def)
    ultimately show ?thesis by (force simp: chain_rules_concat)
  qed
  ultimately have "passes rd (?own @ [AddRule inputChainName ([Meta NFPROTO 1, Cmp CmpEq 1 [familyIPv4],
      Meta IIFNAME 1, Cmp CmpNeq 1 lo_name] @ [Verdict (VJump ''bogon'')]) None])"
    using passes_jumps [of rd ?own "''bogon''" "[()]" "\<lambda>_. [Meta NFPROTO 1, Cmp CmpEq 1 [familyIPv4],
      Meta IIFNAME 1, Cmp CmpNeq 1 lo_name]" inputChainName] by (simp add: chain_name_defs)
  then show ?thesis by (simp add: addBogonFilter_def)
qed

lemma passes_redirect: "passes rd (addForwardingRules mg fs)"
proof -
  have "Verdict v \<notin> set (redirect_exprs mg f)" "masks_from rd [] (redirect_exprs mg f)" for v f
    by (simp_all add: verdict_plain masks_plain_all)
  then show ?thesis
    by (auto simp: addForwardingRules_def passes_def sound_cmds_def jump_closed_def chain_rules_map jumps_of_def)
qed

section \<open>Forwarded lists and feeds\<close>

lemma passes_perm: "set (chain_rules xs) = set (chain_rules ys) \<Longrightarrow> passes rd xs = passes rd ys"
  by (simp add: passes_def sound_cmds_def jump_closed_def jumps_of_def)

lemma passes_rules:
  assumes "\<And>c es. (c, es) \<in> set (chain_rules cs) \<Longrightarrow> \<exists>pre. plain_match pre \<and>
    (es = pre \<or> es = pre @ [Verdict VDrop] \<or> es = pre @ [Verdict VReturn])"
  shows "passes rd cs"
proof -
  have "masks_from rd [] es \<and> Verdict VAccept \<notin> set es \<and> (\<forall>t. Verdict (VJump t) \<notin> set es)"
    if "(c, es) \<in> set (chain_rules cs)" for c es
    using assms [OF that] by (auto simp: masks_plain masks_plain_all verdict_plain)
  then show ?thesis unfolding passes_def sound_cmds_def jump_closed_def jumps_of_def by fastforce
qed

lemma elements_chain_rules: "addFeedElements mg st rs = Inr cs \<Longrightarrow> chain_rules cs = []"
proof -
  assume "addFeedElements mg st rs = Inr cs"
  then have "list_all (element_message st) cs" using addFeedElements_messages by blast
  then show ?thesis by (induction cs) (auto simp: element_message_def)
qed

lemma passes_feed_family:
  assumes "add_feed_family mg c opts fwd fid ranges f = Inr cs"
  shows "passes rd cs" "fwd = Some d \<Longrightarrow> d \<in> fst ` set (chain_rules cs)"
proof -
  obtain els where els: "addFeedElements mg (feedSet fid f) ranges = Inr els"
    and cs: "chain_rules cs = chain_rules (addLogged mg c (feed_match fid f)
        \<lparr> lgEnabled = LogFeed opts, lgPrefix = FeedLogPrefix fid, lgPerMinute = LogFeedLimit opts \<rparr>
        (Some (feedCounterID fid)) [Counter, Verdict VDrop] @
      (case fwd of None \<Rightarrow> [] | Some d \<Rightarrow> [AddRule d (feed_match fid f @ [Counter, Verdict VDrop]) None]))"
    using assms by (auto simp: add_feed_family_def elements_chain_rules split: if_splits sum.splits option.splits)
  show "fwd = Some d \<Longrightarrow> d \<in> fst ` set (chain_rules cs)" by (simp add: cs)
  show "passes rd cs"
    unfolding passes_perm [OF arg_cong [of _ _ set, OF cs]]
    by (intro passes_append passes_logged) (auto simp: pass_simps split: option.splits)
qed

lemma passes_seq:
  assumes "seq_cmds g xs = Inr cs" "\<And>x cs. g x = Inr cs \<Longrightarrow> passes rd cs"
  shows "passes rd cs"
  using assms
  by (induction xs arbitrary: cs) (auto simp: seq_cmds_Cons intro!: passes_append simp del: seq_cmds.simps(2))

lemma seq_homes:
  assumes "seq_cmds g xs = Inr cs" "\<And>x cs. g x = Inr cs \<Longrightarrow> d \<in> fst ` set (chain_rules cs)" "xs \<noteq> []"
  shows "d \<in> fst ` set (chain_rules cs)"
  using assms by (cases xs) (auto simp: seq_cmds_Cons image_Un simp del: seq_cmds.simps(2))

lemma passes_feeds:
  assumes "addFeeds mg c ids feeds opts fwd = Inr (k, cs)"
  shows "passes rd cs" "fwd = Some d \<Longrightarrow> ids \<noteq> [] \<Longrightarrow> d \<in> fst ` set (chain_rules cs)"
proof -
  let ?g = "\<lambda>fid f. add_feed_family mg c opts fwd fid
    (if afNfproto f = familyIPv6 then snd (splitFamilies (mergeRanges (feeds fid)))
     else fst (splitFamilies (mergeRanges (feeds fid)))) f"
  have seq: "seq_cmds (\<lambda>fid. seq_cmds (?g fid) addrFamilies) (FeedRuleOrder ids) = Inr cs"
    using assms by (auto simp: addFeeds_def Let_def split: sum.splits)
  show "passes rd cs" by (rule passes_seq [OF seq], rule passes_seq) (auto dest: passes_feed_family(1))
  assume d: "fwd = Some d" "ids \<noteq> []"
  have "addrFamilies \<noteq> []" "FeedRuleOrder ids \<noteq> []"
    using d(2) mset_FeedRuleOrder [of ids] by (auto simp: addrFamilies_def simp flip: set_empty)
  have inner: "d \<in> fst ` set (chain_rules ds)" if "seq_cmds (?g fid) addrFamilies = Inr ds" for fid ds
    by (rule seq_homes [OF that]) (use passes_feed_family(2) d(1) \<open>addrFamilies \<noteq> []\<close> in blast)+
  show "d \<in> fst ` set (chain_rules cs)"
    by (rule seq_homes [OF seq inner \<open>FeedRuleOrder ids \<noteq> []\<close>])
qed

lemma chain_rules_lists:
  "chain_rules (map (\<lambda>x. list_rule v (f x)) xs) = map (\<lambda>x. (forwardListsChainName, f x @ [Verdict v])) xs"
  by (simp add: list_rule_def chain_rules_map)

lemma passes_forward_lists:
  assumes ls: "addForwardLists forwardChainName rs routing cidrs = (ls, fwd)" and fc: "passes rd fcs"
    and home: "\<And>d. fwd = Some d \<Longrightarrow> Feeds rs \<noteq> [] \<Longrightarrow> d \<in> fst ` set (chain_rules fcs)"
  shows "passes rd (ls @ fcs)"
proof (cases fwd)
  case None
  then have "ls = []" using no_lists ls by blast
  with fc show ?thesis by simp
next
  case (Some d)
  let ?ms = "\<lambda>es. List.map_filter (\<lambda>e. cidrMatch e posSrcAddr) es"
  let ?own = "map (list_rule VReturn) (?ms cidrs) @ map (\<lambda>x. list_rule VDrop (x @ [Counter])) (?ms (Blocklist rs)) @
    map (list_rule VReturn) (?ms (Allowlist rs))"
  let ?jumps = "if rtMode routing \<noteq> RoutingOpen then [AddRule forwardChainName ([] @ [Verdict (VJump d)]) None]
    else map (\<lambda>x. AddRule forwardChainName (x @ [Verdict (VJump d)]) None)
      (List.map_filter (\<lambda>c. cidrMatch c posDstAddr) cidrs)"
  have d: "d = forwardListsChainName" and shape: "ls = AddChain d None # ?own @ ?jumps"
    and some: "?ms (Blocklist rs) \<noteq> [] \<or> Feeds rs \<noteq> []"
    using ls Some by (auto simp: addForwardLists_def Let_def split: if_splits)
  have ne: "d \<noteq> inputChainName" "d \<noteq> forwardChainName" by (simp_all add: d chain_name_defs)
  have plain: "plain_match x" if "x \<in> set (List.map_filter (\<lambda>e. cidrMatch e pos) es)" for x pos es
    using that by (auto simp: entry_matches)
  have "passes rd ?own"
  proof (rule passes_rules)
    fix c es
    assume "(c, es) \<in> set (chain_rules ?own)"
    then obtain x where "plain_match x" "es = x @ [Verdict VReturn] \<or> es = (x @ [Counter]) @ [Verdict VDrop]"
      using plain chain_rules_lists [of VReturn "\<lambda>x. x"] by (auto simp: chain_rules_lists)
    then show "\<exists>pre. plain_match pre \<and> (es = pre \<or> es = pre @ [Verdict VDrop] \<or> es = pre @ [Verdict VReturn])"
      by (metis plain_match_simps plain_expr.simps)
  qed
  then have base: "passes rd (?own @ fcs)" using fc by (rule passes_append)
  have dest: "d \<in> fst ` set (chain_rules (?own @ fcs))"
  proof (cases "Feeds rs = []")
    case True
    with some obtain x where "x \<in> set (?ms (Blocklist rs))" by (cases "?ms (Blocklist rs)") auto
    then show ?thesis by (force simp: list_rule_def chain_rules_map d)
  qed (use home [OF Some] in \<open>simp add: image_Un\<close>)
  have jumps: "passes rd ((?own @ fcs) @ map (\<lambda>x. AddRule forwardChainName (x @ [Verdict (VJump d)]) None) xs)"
    if "\<And>x. x \<in> set xs \<Longrightarrow> plain_match x" for xs
    by (rule passes_jumps [OF base dest ne]) (use that in \<open>simp add: masks_plain_all verdict_plain\<close>)
  have "passes rd ((?own @ fcs) @ ?jumps)"
    using jumps [of "[[]]"] jumps [of "List.map_filter (\<lambda>c. cidrMatch c posDstAddr) cidrs"] plain by simp
  moreover have "set (chain_rules (ls @ fcs)) = set (chain_rules ((?own @ fcs) @ ?jumps))"
    unfolding shape chain_rules_append append_Cons chain_rules.simps set_append by blast
  ultimately show ?thesis using passes_perm by blast
qed

section \<open>The batch\<close>

context native_codec
begin

lemma passes_protections:
  assumes "mgNative mg = ne"
  shows "passes rd (protection_modules mg rs opts cidrs)"
  unfolding protection_modules_def
  by (intro passes_append)
    (simp_all add: passes_modules passes_floods passes_ct [OF assms] passes_bogons)

lemma passes_forward:
  assumes mg: "mgNative mg = ne"
    and fw: "buildForwardChain mg forwardChainName rs docker routing cidrs mode = (cs, fwd)"
    and fcs: "addFeeds mg c (Feeds rs) feeds opts fwd = Inr (k, fcs)"
  shows "passes rd (cs @ fcs)"
proof (cases "forward_managed docker routing cidrs")
  case True
  let ?exc = "addForwardExceptions forwardChainName (forwardExceptionMatches (exception_networks routing cidrs))"
  obtain ls where ls: "addForwardLists forwardChainName rs routing cidrs = (ls, fwd)"
    and cs: "cs = addEstablishedAccept mg forwardChainName @ ls @
      addForwardPortRules forwardChainName rs docker cidrs mode @ ?exc"
    using fw True by (auto simp: buildForwardChain_alt split: prod.splits)
  have "plain_match x" if "x \<in> set (forwardExceptionMatches es)" for x es
    using that by (auto simp: forwardExceptionMatches_def List.map_filter_simps cidrMatch_def plain_cidr
        split: option.splits)
  then have exc: "passes rd ?exc"
    by (auto simp: addForwardExceptions_def passes_def sound_cmds_def jump_closed_def chain_rules_map
        jumps_of_def masks_plain verdict_plain)
  have "passes rd (ls @ fcs)"
    by (rule passes_forward_lists [OF ls passes_feeds(1) [OF fcs] passes_feeds(2) [OF fcs]])
  with exc have "passes rd (addEstablishedAccept mg forwardChainName @ (ls @ fcs) @
      addForwardPortRules forwardChainName rs docker cidrs mode @ ?exc)"
    using passes_append [OF passes_ct(1) [OF mg]
        passes_append [OF _ passes_append [OF passes_forward_ports]]] by blast
  moreover have "set (chain_rules (cs @ fcs)) = set (chain_rules (addEstablishedAccept mg forwardChainName @
      (ls @ fcs) @ addForwardPortRules forwardChainName rs docker cidrs mode @ ?exc))"
    by (auto simp: cs)
  ultimately show ?thesis using passes_perm by blast
next
  case False
  then show ?thesis using fw passes_feeds(1) [OF fcs] by (auto simp: buildForwardChain_alt)
qed

lemma batch_passes:
  assumes mg: "mgNative mg = ne" and built: "build_batch mg rs opts net feeds detected = Inr (k, batch)"
  shows "passes rd batch" "passes rd (batch @ final_batch mg opts)"
proof -
  let ?cidrs = "docker_cidrs net detected" and ?v6 = "effective_ipv6 (nsIPv6 net)"
    and ?rt = "effective_routing (nsRouting net)"
  obtain cs fwd where fw: "buildForwardChain mg forwardChainName rs (nsDocker net) ?rt ?cidrs (v6Mode ?v6) = (cs, fwd)"
    by fastforce
  obtain fcs where fcs: "addFeeds mg inputChainName (Feeds rs) feeds opts fwd = Inr (k, fcs)"
    using built fw by (auto simp: build_batch_def Let_def split: sum.splits)
  let ?head = "table_setup ?rt @ addLoopbackAccept inputChainName @ ipv6_disposition ?v6 @
      (if ICMPFlood opts then addICMPFloodProtection mg inputChainName opts else []) @
      (if TCPRSTFlood opts then addTCPRSTFlood mg inputChainName opts else []) @
      addEstablishedAccept mg inputChainName @ addICMPRules inputChainName ?v6"
  let ?mid = "protection_modules mg rs opts ?cidrs @ concat (map (addCIDRAccept inputChainName) ?cidrs) @
      concat (map (addBlocklistRule mg inputChainName opts) (Blocklist rs)) @
      concat (map (addAllowlistRule inputChainName) (Allowlist rs))"
  let ?tail = "addEchoAccepts inputChainName (ICMPAllowEchoRequest opts) ?v6 @
      concat (map (addPortAccept inputChainName ''tcp'') (filter FiltersHost (TCP rs))) @
      concat (map (addPortAccept inputChainName ''udp'') (filter FiltersHost (UDP rs))) @
      (if Forwarding rs \<noteq> [] then addForwardingRules mg (Forwarding rs) else [])"
  have batch: "batch = ?head @ cs @ ?mid @ fcs @ ?tail"
    using built fw fcs by (simp add: build_batch_def Let_def)
  have start: "passes rd (table_setup ?rt)" by (simp add: table_setup_def passes_def sound_cmds_def jump_closed_def)
  have "passes rd (?head @ ?mid @ ?tail @ (cs @ fcs))"
    by (intro passes_append passes_concat passes_forward [OF mg fw fcs])
      (simp_all add: start passes_lists passes_floods passes_ct [OF mg] passes_icmps
        passes_protections [OF mg] passes_ports passes_redirect)
  moreover have "set (chain_rules batch) = set (chain_rules (?head @ ?mid @ ?tail @ (cs @ fcs)))"
    unfolding batch by (simp only: chain_rules_append set_append) blast
  ultimately show "passes rd batch" using passes_perm by blast
  moreover have "passes rd (final_batch mg opts)"
    by (simp add: final_batch_def addFinalLog_def pass_simps)
  ultimately show "passes rd (batch @ final_batch mg opts)" by (rule passes_append)
qed

end

section \<open>Properties\<close>

text \<open>
  What an empty report of the check means, exactly: every mask applied to a register a
  conntrack state was last loaded into is four bytes that decode to some of the four states,
  every jump goes to a chain the transaction fills, and no jumped-to chain accepts.
\<close>

theorem CheckRules_exact:
  "CheckRules rd rs accepting = [] \<longleftrightarrow>
     (\<forall>(c, es)\<in>set rs. \<forall>i<length es. \<forall>src d len msk x.
        es ! i = Bitwise src d len msk x \<longrightarrow> CtState src \<in> set (take i es) \<longrightarrow>
        length msk = 4 \<and> rd msk \<noteq> 0 \<and> rd msk AND NOT ctStateAllBits = 0) \<and>
     (\<forall>(c, es)\<in>set rs. \<forall>target. Verdict (VJump target) \<in> set es \<longrightarrow>
        target \<in> fst ` set rs \<and>
        ((\<exists>fs. (target, fs) \<in> set rs \<and> Verdict VAccept \<in> set fs) \<longrightarrow> target \<in> set accepting))"
proof -
  have masks: "masks_from rd [] es \<longleftrightarrow> (\<forall>i<length es. \<forall>src d len msk x.
      es ! i = Bitwise src d len msk x \<longrightarrow> CtState src \<in> set (take i es) \<longrightarrow> state_mask_ok rd msk)" for es
    unfolding masks_all [symmetric] list_all_length
    by (auto simp: expr_mask_ok_def nth_enumerate_eq split: expr.splits) blast
  have jumps: "jumps_of rs \<subseteq> fst ` set rs \<and> jumps_of rs \<inter> accepts_in rs \<subseteq> set accepting \<longleftrightarrow>
     (\<forall>(c, es)\<in>set rs. \<forall>target. Verdict (VJump target) \<in> set es \<longrightarrow>
        target \<in> fst ` set rs \<and>
        ((\<exists>fs. (target, fs) \<in> set rs \<and> Verdict VAccept \<in> set fs) \<longrightarrow> target \<in> set accepting))"
    unfolding jumps_of_def accepts_in_def by blast
  show ?thesis unfolding CheckRules_empty masks jumps unfolding state_mask_ok_def ..
qed

text \<open>
  C32. No apply is ever reported degraded by the check: whatever the rules, options, networks,
  feeds and detected containers, and on a host of either byte order, the check finds nothing in
  the batch the builders make, before the first flush and before the second.
\<close>

theorem built_tables_pass_the_check:
  assumes "mgNative mg = le32 \<and> rd = le_read32 \<or> mgNative mg = be32 \<and> rd = be_read32"
    "build_batch mg rs opts net feeds detected = Inr (k, batch)"
  shows "checkBuilt rd batch = [] \<and> checkBuilt rd (batch @ final_batch mg opts) = []"
  using assms(1) little_codec.batch_passes [OF _ assms(2)] big_codec.batch_passes [OF _ assms(2)]
  by (auto intro: passes_checked)

end
