(* ===== verification/TableRuns.thy ===== *)
theory TableRuns
  imports Reach NftCheck "HOL-Library.Code_Target_Nat"
begin

text \<open>Concrete tables and packets, on which the properties of the input chain are applied and
  evaluated.\<close>

text \<open>A host with an open port, a list and every module on, and a packet to it.\<close>

definition example_manager :: nft_manager where
  "example_manager =
     \<lparr> mgSink = \<lparr> skNflog = False, skGroup = 0 \<rparr>, mgAddSetErr = (\<lambda>_. False),
        mgAddElementsErr = (\<lambda>_ _. False), mgNative = le32 \<rparr>"

definition example_rules :: rules where
  "example_rules = no_rules\<lparr>TCP := [example_port [] ''22'', example_port [] ''8000:8080''],
     Blocklist := [''203.0.113.7'', ''# a note''], Allowlist := [''198.51.100.0/24''],
     Feeds := [''dshield'']\<rparr>"

definition example_feeds :: feed_contents where
  "example_feeds fid = [Prefix (Addr [192, 0, 2, 0] []) 24, Prefix (Addr [192, 0, 3, 0] []) 24]"

definition example_options :: firewall_options where
  "example_options = zero_options\<lparr>PortScan := True, InvalidPackets := True, Fragments := True\<rparr>"

definition tcp_packet :: "byte list \<Rightarrow> byte list \<Rightarrow> packet" where
  "tcp_packet src dport =
     \<lparr> pkIif = [0x65, 0x74, 0x68, 0x30, 0], pkFamily = familyIPv4, pkProto = IPPROTO_TCP, pkType = 0,
        pkNet = replicate 12 0 @ src @ [192, 168, 0, 1],
        pkTrans = [0x80, 0] @ dport @ replicate 9 0 @ [0x02] @ replicate 6 0,
        pkCt = ctStateNew, pkAddrType = RTN_LOCAL \<rparr>"

definition quiet_meters :: meters where
  "quiet_meters = \<lparr> overLimit = (\<lambda>_. False), overDynset = (\<lambda>_ _. False), inSet = (\<lambda>_ _. False) \<rparr>"

definition example_batch :: "cmd list" where
  "example_batch =
     (case build_batch example_manager example_rules example_options zero_network example_feeds [] of
        Inr (k, batch) \<Rightarrow> batch | Inl _ \<Rightarrow> [])"

lemma example_built:
  "\<exists>k. build_batch example_manager example_rules example_options zero_network example_feeds [] =
     Inr (k, example_batch)"
proof -
  have "case build_batch example_manager example_rules example_options zero_network example_feeds [] of
     Inr (k, batch) \<Rightarrow> True | Inl _ \<Rightarrow> False"
    by code_simp
  then show ?thesis by (auto simp: example_batch_def split: sum.splits)
qed

lemma example_valid: "ValidateRules example_rules = None"
  by code_simp

lemma example_order: "host_byte_order example_manager"
  by (simp add: host_byte_order_def example_manager_def)

text \<open>
  One custom line beside the example's own rules, and an \<open>nft\<close> whose rule for it accepts one port.
\<close>

definition lone_custom :: "string \<Rightarrow> packet \<Rightarrow> chain_result" where
  "lone_custom cmd p =
     (if cmd = ''add rule inet easywall input tcp dport 23 accept'' then accept_if (port_covers ''23'' p) else Through)"

definition telnet_rules :: rules where
  "telnet_rules = example_rules\<lparr>Custom := ['' tcp dport 23 accept'', ''# telnet'']\<rparr>"

definition telnet_batch :: "cmd list" where
  "telnet_batch =
     (case build_batch example_manager telnet_rules example_options zero_network example_feeds [] of
        Inr (_, b) \<Rightarrow> b | Inl _ \<Rightarrow> [])"

lemma telnet_built:
  "\<exists>k. build_batch example_manager telnet_rules example_options zero_network example_feeds [] = Inr (k, telnet_batch)"
proof -
  have "case build_batch example_manager telnet_rules example_options zero_network example_feeds [] of
     Inr (k, batch) \<Rightarrow> True | Inl _ \<Rightarrow> False"
    by code_simp
  then show ?thesis by (auto simp: telnet_batch_def split: sum.splits)
qed

theorem input_chain_refines_policy_witness:
  "input_verdict lone_custom example_manager quiet_meters (tcp_packet [198, 18, 0, 1] [0, 22]) telnet_rules
     example_options telnet_batch \<and>
   input_verdict lone_custom example_manager quiet_meters (tcp_packet [198, 18, 0, 1] [0, 23]) telnet_rules
     example_options telnet_batch \<and>
   \<not> input_verdict lone_custom example_manager quiet_meters (tcp_packet [198, 18, 0, 1] [0, 24]) telnet_rules
     example_options telnet_batch \<and>
   \<not> input_verdict lone_custom example_manager quiet_meters (tcp_packet [203, 0, 113, 7] [0, 23]) telnet_rules
     example_options telnet_batch"
proof -
  let ?policy = "\<lambda>src port. next_stage (input_policy example_manager quiet_meters telnet_rules example_options
      (effective_ipv6 (nsIPv6 zero_network)) (docker_cidrs zero_network []) (tcp_packet src port))
      (custom_policy lone_custom (custom_commands (Custom telnet_rules)) (tcp_packet src port))"
  obtain k where b: "build_batch example_manager telnet_rules example_options zero_network example_feeds [] =
     Inr (k, telnet_batch)" using telnet_built by blast
  have valid: "ValidateRules telnet_rules = None" by code_simp
  have wf: "wf_packet (tcp_packet src port)" if "length src = 4" for src port
    using that by (simp add: wf_packet_def tcp_packet_def)
  have eq: "input_verdict lone_custom example_manager quiet_meters (tcp_packet src port) telnet_rules
      example_options telnet_batch = lets_in (?policy src port)" if "length src = 4" for src port
    by (rule input_chain_refines_policy [OF valid b example_order wf [OF that]])
  have "lets_in (?policy [198, 18, 0, 1] [0, 22])" by code_simp
  moreover have "lets_in (?policy [198, 18, 0, 1] [0, 23])" by code_simp
  moreover have "\<not> lets_in (?policy [198, 18, 0, 1] [0, 24])" by code_simp
  moreover have "\<not> lets_in (?policy [203, 0, 113, 7] [0, 23])" by code_simp
  ultimately show ?thesis by (simp add: eq)
qed

lemma example_first_packet:
  "first_packet (Addr [198, 18, 0, 1] []) 22 (tcp_packet [198, 18, 0, 1] [0, 22])"
  "first_packet (Addr [203, 0, 113, 7] []) 22 (tcp_packet [203, 0, 113, 7] [0, 22])"
  by code_simp+

lemma quiet_never: "\<not> overDynset quiet_meters n key"
  by (simp add: quiet_meters_def)

theorem reachable_open_is_accepted_witness:
  "Reachable example_rules example_options zero_network (Addr [198, 18, 0, 1] []) 22 False False [] =
     (ReachOpen, ReasonPortOpen) \<and>
   chain_accepts le32 quiet_meters (tcp_packet [198, 18, 0, 1] [0, 22]) example_batch inputChainName"
proof -
  obtain k where b: "build_batch example_manager example_rules example_options zero_network example_feeds [] =
     Inr (k, example_batch)" using example_built by blast
  have lo: "from_loopback (tcp_packet [198, 18, 0, 1] [0, 22]) \<longleftrightarrow>
      False \<or> IsLoopback (packet_src (tcp_packet [198, 18, 0, 1] [0, 22]))" by code_simp
  have hits: "hits_match quiet_meters example_rules [] (tcp_packet [198, 18, 0, 1] [0, 22])" by code_simp
  have r: "Reachable example_rules example_options zero_network (Addr [198, 18, 0, 1] []) 22 False False [] =
     (ReachOpen, ReasonPortOpen)" by code_simp
  show ?thesis
    using reachable_open_is_accepted [OF example_valid b example_order example_first_packet(1) lo hits
        quiet_never r] r by (simp add: example_manager_def)
qed

theorem reachable_blocked_is_dropped_witness:
  "Reachable example_rules example_options zero_network (Addr [203, 0, 113, 7] []) 22 False False [] =
     (ReachBlocked, ReasonBlocklisted) \<and>
   \<not> chain_accepts le32 quiet_meters (tcp_packet [203, 0, 113, 7] [0, 22]) example_batch inputChainName"
proof -
  obtain k where b: "build_batch example_manager example_rules example_options zero_network example_feeds [] =
     Inr (k, example_batch)" using example_built by blast
  have lo: "from_loopback (tcp_packet [203, 0, 113, 7] [0, 22]) \<longleftrightarrow>
      False \<or> IsLoopback (packet_src (tcp_packet [203, 0, 113, 7] [0, 22]))" by code_simp
  have hits: "hits_match quiet_meters example_rules [] (tcp_packet [203, 0, 113, 7] [0, 22])" by code_simp
  have sign: "signless example_rules" by code_simp
  have nets: "in_networks [] (tcp_packet [203, 0, 113, 7] [0, 22]) \<Longrightarrow>
      in_networks dockerPoolRanges (tcp_packet [203, 0, 113, 7] [0, 22])" by (simp add: in_networks_def)
  have r: "Reachable example_rules example_options zero_network (Addr [203, 0, 113, 7] []) 22 False False [] =
     (ReachBlocked, ReasonBlocklisted)" by code_simp
  show ?thesis
    using reachable_blocked_is_dropped [OF example_valid b example_order example_first_packet(2) lo hits
        nets sign r] r by (simp add: example_manager_def)
qed

theorem blocklisted_source_is_dropped_witness:
  "in_entries (Blocklist example_rules) (tcp_packet [203, 0, 113, 7] [0, 22]) \<and>
   \<not> chain_accepts le32 quiet_meters (tcp_packet [203, 0, 113, 7] [0, 22]) example_batch inputChainName"
proof -
  obtain k where b: "build_batch example_manager example_rules example_options zero_network example_feeds [] =
     Inr (k, example_batch)" using example_built by blast
  let ?p = "tcp_packet [203, 0, 113, 7] [0, 22]"
  have wf: "wf_packet ?p" by (simp add: wf_packet_def tcp_packet_def)
  have e: "in_entries (Blocklist example_rules) ?p" by code_simp
  have "\<not> from_loopback ?p" "\<not> established ?p" "\<not> discovery (effective_ipv6 (nsIPv6 zero_network)) ?p"
    "\<not> in_networks (docker_cidrs zero_network []) ?p" "pkFamily ?p \<noteq> familyIPv6"
    by code_simp+
  with blocklisted_source_is_dropped [OF example_valid b example_order wf e] e show ?thesis
    by (simp add: example_manager_def)
qed

section \<open>Feeds\<close>

lemma example_wf: "length src = 4 \<Longrightarrow> wf_packet (tcp_packet src port)"
  by (simp add: wf_packet_def tcp_packet_def)

text \<open>Two adjacent prefixes become one interval; its last address is listed and the next is not.\<close>

theorem feeds_match_exactly_witness:
  "in_feeds (loaded quiet_meters example_batch) (Feeds example_rules) (tcp_packet [192, 0, 3, 255] [0, 22]) \<and>
   \<not> in_feeds (loaded quiet_meters example_batch) (Feeds example_rules) (tcp_packet [192, 0, 4, 0] [0, 22])"
proof -
  obtain k where b: "build_batch example_manager example_rules example_options zero_network example_feeds [] =
     Inr (k, example_batch)" using example_built by blast
  note listed = feeds_match_exactly [OF b example_wf]
  have "\<exists>fid\<in>set (Feeds example_rules). \<exists>q\<in>set (example_feeds fid).
      pfx_valid q \<and> Contains q (packet_src (tcp_packet [192, 0, 3, 255] [0, 22]))" by code_simp
  moreover have "\<not> (\<exists>fid\<in>set (Feeds example_rules). \<exists>q\<in>set (example_feeds fid).
      pfx_valid q \<and> Contains q (packet_src (tcp_packet [192, 0, 4, 0] [0, 22])))" by code_simp
  ultimately show ?thesis by (simp add: listed)
qed

theorem feed_source_is_dropped_witness:
  "\<not> chain_accepts le32 (loaded quiet_meters example_batch) (tcp_packet [192, 0, 2, 9] [0, 22])
     example_batch inputChainName"
proof -
  obtain k where b: "build_batch example_manager example_rules example_options zero_network example_feeds [] =
     Inr (k, example_batch)" using example_built by blast
  let ?p = "tcp_packet [192, 0, 2, 9] [0, 22]" and ?q = "Prefix (Addr [192, 0, 2, 0] []) 24"
  have wf: "wf_packet ?p" by (simp add: example_wf)
  have "''dshield'' \<in> set (Feeds example_rules)" "?q \<in> set (example_feeds ''dshield'')"
    "pfx_valid ?q" "Contains ?q (packet_src ?p)" "\<not> in_entries (Allowlist example_rules) ?p"
    "\<not> from_loopback ?p" "\<not> established ?p" "\<not> discovery (effective_ipv6 (nsIPv6 zero_network)) ?p"
    "\<not> in_networks (docker_cidrs zero_network []) ?p" "pkFamily ?p \<noteq> familyIPv6"
    by code_simp+
  with feed_source_is_dropped [OF example_valid b example_order wf] show ?thesis
    by (simp add: example_manager_def)
qed

text \<open>A refresh onto overlapping prefixes, over a set that held something else.\<close>

theorem ReplaceFeedSet_exact_witness:
  "\<exists>k cs. ReplaceFeedSet example_manager ''dshield''
       [\<lparr> rgFrom = Addr [10, 0, 0, 0] [], rgTo = Addr [10, 255, 255, 255] [] \<rparr>] [] = Inr (k, cs) \<and>
     interval_holds (set_after (feedSetName ''dshield'' False)
       [\<lparr> seKey = [11, 0, 0, 0], IntervalEnd = False \<rparr>] cs) [10, 1, 2, 3] \<and>
     \<not> interval_holds (set_after (feedSetName ''dshield'' False)
       [\<lparr> seKey = [11, 0, 0, 0], IntervalEnd = False \<rparr>] cs) [11, 0, 0, 1]"
proof -
  let ?r4 = "[\<lparr> rgFrom = Addr [10, 0, 0, 0] [], rgTo = Addr [10, 255, 255, 255] [] \<rparr>]"
  let ?ps = "[Prefix (Addr [10, 7, 0, 0] []) 16, Prefix (Addr [10, 0, 0, 0] []) 8]"
  let ?old = "[\<lparr> seKey = [11, 0, 0, 0], IntervalEnd = False \<rparr>]"
  have split: "splitFamilies (mergeRanges ?ps) = (?r4, [])" by code_simp
  have "case ReplaceFeedSet example_manager ''dshield'' ?r4 [] of Inr x \<Rightarrow> True | Inl _ \<Rightarrow> False"
    by code_simp
  then obtain k cs where r: "ReplaceFeedSet example_manager ''dshield'' ?r4 [] = Inr (k, cs)"
    by (auto split: sum.splits)
  have "\<exists>q\<in>set ?ps. pfx_valid q \<and> Contains q (Addr [10, 1, 2, 3] [])" by code_simp
  moreover have "\<not> (\<exists>q\<in>set ?ps. pfx_valid q \<and> Contains q (Addr [11, 0, 0, 1] []))" by code_simp
  moreover have "interval_holds (set_after (feedSetName ''dshield'' False) ?old cs) key =
      (\<exists>q\<in>set ?ps. pfx_valid q \<and> Contains q (Addr key []))" if "length key = 4" for key
    using ReplaceFeedSet_exact [OF split r, of ?old] that by (metis (full_types))
  ultimately show ?thesis using r by simp
qed

theorem addFeedElements_bounded_witness:
  "\<exists>cs. addFeedElements example_manager (feedSet ''dshield'' (addrFamilies ! 0))
     [\<lparr> rgFrom = Addr [10, 0, 0, 0] [], rgTo = Addr [10, 255, 255, 255] [] \<rparr>] = Inr cs"
  using addFeedElements_bounded [of example_manager] by (simp add: example_manager_def)

section \<open>Routing\<close>

definition routed_packet :: "byte list \<Rightarrow> byte list \<Rightarrow> byte list \<Rightarrow> packet" where
  "routed_packet src dst dport = (tcp_packet src dport)\<lparr>pkNet := replicate 12 0 @ src @ dst\<rparr>"

definition container_network :: network_settings where
  "container_network =
     zero_network\<lparr>nsDocker := (nsDocker zero_network)\<lparr>dkEnabled := True, AllowBridgeNetworks := True,
        PublishedPorts := PublishedPortsFiltered\<rparr>,
       nsRouting := (nsRouting zero_network)\<lparr>rtMode := RoutingOpen\<rparr>\<rparr>"

definition container_rules :: rules where
  "container_rules = no_rules\<lparr>TCP := [(example_port [] ''8080'')\<lparr>prScope := ScopeForwarded\<rparr>],
     Blocklist := [''203.0.113.7'']\<rparr>"

definition container_batch :: "cmd list" where
  "container_batch =
     (case build_batch example_manager container_rules zero_options container_network example_feeds
             [''172.17.0.0/16''] of
        Inr (k, batch) \<Rightarrow> batch | Inl _ \<Rightarrow> [])"

lemma container_built:
  "\<exists>k. build_batch example_manager container_rules zero_options container_network example_feeds
     [''172.17.0.0/16''] = Inr (k, container_batch)"
proof -
  have "case build_batch example_manager container_rules zero_options container_network example_feeds
      [''172.17.0.0/16''] of Inr (k, batch) \<Rightarrow> True | Inl _ \<Rightarrow> False"
    by code_simp
  then show ?thesis by (auto simp: container_batch_def split: sum.splits)
qed

lemma container_valid: "ValidateRules container_rules = None"
  by code_simp

lemma routed_wf: "length src = 4 \<Longrightarrow> length dst = 4 \<Longrightarrow> wf_packet (routed_packet src dst port)"
  by (simp add: wf_packet_def routed_packet_def tcp_packet_def)

text \<open>The open port reaches a container, and not from a blocked source.\<close>

theorem forward_chain_refines_policy_witness:
  "chain_accepts le32 quiet_meters (routed_packet [198, 18, 0, 1] [172, 17, 0, 2] [31, 144])
     container_batch forwardChainName \<and>
   \<not> chain_accepts le32 quiet_meters (routed_packet [203, 0, 113, 7] [172, 17, 0, 2] [31, 144])
     container_batch forwardChainName"
proof -
  obtain k where b: "build_batch example_manager container_rules zero_options container_network example_feeds
     [''172.17.0.0/16''] = Inr (k, container_batch)" using container_built by blast
  have eq: "chain_accepts le32 quiet_meters (routed_packet src [172, 17, 0, 2] [31, 144])
      container_batch forwardChainName =
    forward_policy quiet_meters container_rules (nsDocker container_network)
      (effective_routing (nsRouting container_network)) (docker_cidrs container_network [''172.17.0.0/16''])
      (v6Mode (effective_ipv6 (nsIPv6 container_network))) (routed_packet src [172, 17, 0, 2] [31, 144])"
    if "length src = 4" for src
    using forward_chain_refines_policy [OF container_valid b example_order routed_wf [OF that], of "[172, 17, 0, 2]"]
    by (simp add: example_manager_def)
  have "forward_policy quiet_meters container_rules (nsDocker container_network)
      (effective_routing (nsRouting container_network)) (docker_cidrs container_network [''172.17.0.0/16''])
      (v6Mode (effective_ipv6 (nsIPv6 container_network)))
      (routed_packet [198, 18, 0, 1] [172, 17, 0, 2] [31, 144])" by code_simp
  moreover have "\<not> forward_policy quiet_meters container_rules (nsDocker container_network)
      (effective_routing (nsRouting container_network)) (docker_cidrs container_network [''172.17.0.0/16''])
      (v6Mode (effective_ipv6 (nsIPv6 container_network)))
      (routed_packet [203, 0, 113, 7] [172, 17, 0, 2] [31, 144])" by code_simp
  ultimately show ?thesis by (simp add: eq)
qed

theorem published_ports_are_filtered_witness:
  "\<not> chain_accepts le32 quiet_meters (routed_packet [198, 18, 0, 1] [172, 17, 0, 2] [0, 22])
     container_batch forwardChainName"
proof -
  obtain k where b: "build_batch example_manager container_rules zero_options container_network example_feeds
     [''172.17.0.0/16''] = Inr (k, container_batch)" using container_built by blast
  let ?p = "routed_packet [198, 18, 0, 1] [172, 17, 0, 2] [0, 22]"
  have wf: "wf_packet ?p" by (simp add: routed_wf)
  have h: "FiltersPublishedPorts (nsDocker container_network)"
    "''172.17.0.0/16'' \<in> set (docker_cidrs container_network [''172.17.0.0/16''])"
    "network_of ''172.17.0.0/16'' = Some (Prefix (Addr [172, 17, 0, 0] []) 16)"
    "Contains (Prefix (Addr [172, 17, 0, 0] []) 16) (packet_dst ?p)"
    "\<not> Contains (Prefix (Addr [172, 17, 0, 0] []) 16) (packet_src ?p)" "\<not> established ?p"
    "\<forall>r\<in>set (TCP container_rules). \<not> (FiltersForwarded r \<and> port_open IPPROTO_TCP r ?p)"
    "\<forall>r\<in>set (UDP container_rules). \<not> (FiltersForwarded r \<and> port_open IPPROTO_UDP r ?p)"
    by code_simp+
  show ?thesis
    using published_ports_are_filtered [OF container_valid b example_order wf h(1-6)] h(7,8)
    by (simp add: example_manager_def)
qed

section \<open>The check in front of netlink\<close>

definition reversed_mask_rule :: "string \<times> expr list" where
  "reversed_mask_rule =
     (inputChainName, [CtState 1, Bitwise 1 1 4 (be32 (ctStateEstablished OR ctStateRelated)) ctStateNoMatch,
        Cmp CmpNeq 1 ctStateNoMatch, Verdict VAccept])"

text \<open>The defect the check was written for: a state mask in the wrong byte order is reported.\<close>

theorem CheckRules_exact_witness:
  "CheckRules le_read32 [reversed_mask_rule] [] \<noteq> [] \<and>
   CheckRules be_read32 [reversed_mask_rule] [] = []"
proof -
  have wide: "le_read32 (be32 (ctStateEstablished OR ctStateRelated)) AND NOT ctStateAllBits \<noteq> 0"
    by code_simp
  have "CheckRules le_read32 [reversed_mask_rule] [] \<noteq> []"
  proof
    assume "CheckRules le_read32 [reversed_mask_rule] [] = []"
    then have "\<forall>i<length (snd reversed_mask_rule). \<forall>src d len msk x.
        snd reversed_mask_rule ! i = Bitwise src d len msk x \<longrightarrow>
        CtState src \<in> set (take i (snd reversed_mask_rule)) \<longrightarrow>
        length msk = 4 \<and> le_read32 msk \<noteq> 0 \<and> le_read32 msk AND NOT ctStateAllBits = 0"
      unfolding CheckRules_exact by (simp only: list.set ball_simps case_prod_unfold) (erule conjunct1 [OF conjunct1])
    from this [rule_format, of "Suc 0" 1 1 4 "be32 (ctStateEstablished OR ctStateRelated)" ctStateNoMatch] wide
    show False by (simp add: reversed_mask_rule_def)
  qed
  moreover have "CheckRules be_read32 [reversed_mask_rule] [] = []" by code_simp
  ultimately show ?thesis ..
qed

theorem built_tables_pass_the_check_witness:
  "checkBuilt le_read32 example_batch = [] \<and> checkBuilt le_read32 container_batch = []"
proof -
  obtain k where b: "build_batch example_manager example_rules example_options zero_network example_feeds [] =
     Inr (k, example_batch)" using example_built by blast
  obtain k' where c: "build_batch example_manager container_rules zero_options container_network example_feeds
     [''172.17.0.0/16''] = Inr (k', container_batch)" using container_built by blast
  have "mgNative example_manager = le32" by (simp add: example_manager_def)
  then show ?thesis
    using built_tables_pass_the_check [OF _ b] built_tables_pass_the_check [OF _ c] by auto
qed

section \<open>A port written with a sign\<close>

definition signed_rules :: rules where
  "signed_rules = no_rules\<lparr>TCP := [example_port [] ''+80'']\<rparr>"

text \<open>
  A port rule written \<open>+80\<close> passes the boundary and opens port 80 in the kernel, while the
  interface reports the port as closed: \<open>ParsePortNumber\<close> reads the text with \<open>strconv.Atoi\<close>,
  which takes a leading sign, and \<open>PortInRule\<close> with \<open>strconv.ParseUint\<close>, which does not.
\<close>

theorem signed_port_misreported:
  "ValidateRules signed_rules = None \<and>
   Reachable signed_rules zero_options zero_network (Addr [198, 18, 0, 1] []) 80 False False [] =
     (ReachBlocked, ReasonNoRule) \<and>
   (case build_batch example_manager signed_rules zero_options zero_network example_feeds [] of
      Inl _ \<Rightarrow> False
    | Inr (k, batch) \<Rightarrow>
        chain_accepts le32 quiet_meters (tcp_packet [198, 18, 0, 1] [0, 80]) batch inputChainName)"
  by code_simp

end
