(* ===== verification/Store.thy ===== *)
theory Store
  imports Validate "HOL-Library.Monad_Syntax"
begin

text \<open>
  The rules store (\<open>internal/core/rules.go\<close>): one JSON document with three copies of the rules,
  replaced whole by a rename.  Documents are JSON values; \<open>encoding/json\<close> is modelled for the
  structs of this file, with its tags, its omitted fields, its matching of keys by case folding
  and its errors.  The text of a document, the repair of bytes that are not UTF-8 and objects that
  repeat a key are outside the model.
\<close>

section \<open>JSON values\<close>

datatype json =
    JNull | JBool bool | JNum int | JReal string | JStr string
  | JArr "json list" | JObj "(string \<times> json) list"

text \<open>
  \<open>foldName\<close>: ASCII letters in upper case; the two runes outside ASCII that fold into it, the
  Kelvin sign and the long s, as the letters they fold to.
\<close>

definition up_char :: "char \<Rightarrow> char" where
  "up_char c =
     (if 97 \<le> (of_char c :: nat) \<and> (of_char c :: nat) \<le> 122 then char_of ((of_char c :: nat) - 32) else c)"

fun fold_key :: "string \<Rightarrow> string" where
  "fold_key [] = []"
| "fold_key (c # cs) =
     (if take 3 (c # cs) = [CHR 0xE2, CHR 0x84, CHR 0xAA] then CHR ''K'' # fold_key (drop 2 cs)
      else if take 2 (c # cs) = [CHR 0xC5, CHR 0xBF] then CHR ''S'' # fold_key (drop 1 cs)
      else up_char c # fold_key cs)"

definition json_field :: "string \<Rightarrow> (string \<times> json) list \<Rightarrow> json option" where
  "json_field name obj = map_option snd (find (\<lambda>(k, _). fold_key k = fold_key name) obj)"

section \<open>Decoding\<close>

text \<open>An absent field and \<open>null\<close> leave the zero value; anything of another type is an error.\<close>

fun dec_str :: "json option \<Rightarrow> string option" where
  "dec_str None = Some []"
| "dec_str (Some JNull) = Some []"
| "dec_str (Some (JStr s)) = Some s"
| "dec_str (Some _) = None"

fun dec_bool :: "json option \<Rightarrow> bool option" where
  "dec_bool None = Some False"
| "dec_bool (Some JNull) = Some False"
| "dec_bool (Some (JBool b)) = Some b"
| "dec_bool (Some _) = None"

fun dec_int :: "json option \<Rightarrow> int option" where
  "dec_int None = Some 0"
| "dec_int (Some JNull) = Some 0"
| "dec_int (Some (JNum n)) = (if - (2 ^ 63) \<le> n \<and> n < 2 ^ 63 then Some n else None)"
| "dec_int (Some _) = None"

fun dec_each :: "(json \<Rightarrow> 'a option) \<Rightarrow> json list \<Rightarrow> 'a list option" where
  "dec_each d [] = Some []"
| "dec_each d (x # xs) = do { y \<leftarrow> d x; ys \<leftarrow> dec_each d xs; Some (y # ys) }"

fun dec_list :: "(json \<Rightarrow> 'a option) \<Rightarrow> json option \<Rightarrow> 'a list option" where
  "dec_list d None = Some []"
| "dec_list d (Some JNull) = Some []"
| "dec_list d (Some (JArr xs)) = dec_each d xs"
| "dec_list d (Some _) = None"

definition zero_port_rule :: port_rule where
  "zero_port_rule =
     \<lparr> prID = [], prPort = [], prDescription = [], prSSH = False, prScope = [], prSources = [], prService = [] \<rparr>"

definition dec_lines :: "json option \<Rightarrow> string list option" where
  "dec_lines = dec_list (\<lambda>j. dec_str (Some j))"

fun dec_port_rule :: "json \<Rightarrow> port_rule option" where
  "dec_port_rule JNull = Some zero_port_rule"
| "dec_port_rule (JObj fs) = do {
     rid \<leftarrow> dec_str (json_field ''id'' fs);
     port \<leftarrow> dec_str (json_field ''port'' fs);
     desc \<leftarrow> dec_str (json_field ''description'' fs);
     ssh \<leftarrow> dec_bool (json_field ''ssh'' fs);
     scope \<leftarrow> dec_str (json_field ''scope'' fs);
     sources \<leftarrow> dec_lines (json_field ''sources'' fs);
     service \<leftarrow> dec_str (json_field ''service'' fs);
     Some \<lparr> prID = rid, prPort = port, prDescription = desc, prSSH = ssh, prScope = scope,
            prSources = sources, prService = service \<rparr> }"
| "dec_port_rule _ = None"

fun dec_forwarding :: "json \<Rightarrow> forwarding_rule option" where
  "dec_forwarding JNull = Some \<lparr> fwProtocol = [], fwSourcePort = 0, fwDestPort = 0 \<rparr>"
| "dec_forwarding (JObj fs) = do {
     proto \<leftarrow> dec_str (json_field ''protocol'' fs);
     src \<leftarrow> dec_int (json_field ''source_port'' fs);
     dst \<leftarrow> dec_int (json_field ''dest_port'' fs);
     Some \<lparr> fwProtocol = proto, fwSourcePort = src, fwDestPort = dst \<rparr> }"
| "dec_forwarding _ = None"

fun dec_rules :: "json option \<Rightarrow> rules option" where
  "dec_rules None = Some no_rules"
| "dec_rules (Some JNull) = Some no_rules"
| "dec_rules (Some (JObj fs)) = do {
     tcp \<leftarrow> dec_list dec_port_rule (json_field ''tcp'' fs);
     udp \<leftarrow> dec_list dec_port_rule (json_field ''udp'' fs);
     blocklist \<leftarrow> dec_lines (json_field ''blocklist'' fs);
     allowlist \<leftarrow> dec_lines (json_field ''allowlist'' fs);
     forwarding \<leftarrow> dec_list dec_forwarding (json_field ''forwarding'' fs);
     custom \<leftarrow> dec_lines (json_field ''custom'' fs);
     feeds \<leftarrow> dec_lines (json_field ''feeds'' fs);
     Some \<lparr> TCP = tcp, UDP = udp, Blocklist = blocklist, Allowlist = allowlist,
            Forwarding = forwarding, Custom = custom, Feeds = feeds \<rparr> }"
| "dec_rules (Some _) = None"

fun dec_rules_state :: "json \<Rightarrow> rules_state option" where
  "dec_rules_state JNull = Some \<lparr> Current = no_rules, Staged = no_rules, Backup = no_rules \<rparr>"
| "dec_rules_state (JObj fs) = do {
     current \<leftarrow> dec_rules (json_field ''current'' fs);
     staged \<leftarrow> dec_rules (json_field ''staged'' fs);
     backup \<leftarrow> dec_rules (json_field ''backup'' fs);
     Some \<lparr> Current = current, Staged = staged, Backup = backup \<rparr> }"
| "dec_rules_state _ = None"

section \<open>Encoding\<close>

text \<open>An empty slice and a nil one are both written as the empty array; both read back empty.\<close>

definition omit_empty :: "string \<Rightarrow> 'a list \<Rightarrow> json \<Rightarrow> (string \<times> json) list" where
  "omit_empty k v j = (if v = [] then [] else [(k, j)])"

definition enc_lines :: "string list \<Rightarrow> json" where
  "enc_lines xs = JArr (map JStr xs)"

definition enc_port_rule :: "port_rule \<Rightarrow> json" where
  "enc_port_rule r =
     JObj (omit_empty ''id'' (prID r) (JStr (prID r)) @
           [(''port'', JStr (prPort r)), (''description'', JStr (prDescription r)), (''ssh'', JBool (prSSH r))] @
           omit_empty ''scope'' (prScope r) (JStr (prScope r)) @
           omit_empty ''sources'' (prSources r) (enc_lines (prSources r)) @
           omit_empty ''service'' (prService r) (JStr (prService r)))"

definition enc_forwarding :: "forwarding_rule \<Rightarrow> json" where
  "enc_forwarding f =
     JObj [(''protocol'', JStr (fwProtocol f)), (''source_port'', JNum (fwSourcePort f)),
           (''dest_port'', JNum (fwDestPort f))]"

definition enc_rules :: "rules \<Rightarrow> json" where
  "enc_rules r =
     JObj ([(''tcp'', JArr (map enc_port_rule (TCP r))), (''udp'', JArr (map enc_port_rule (UDP r))),
            (''blocklist'', enc_lines (Blocklist r)), (''allowlist'', enc_lines (Allowlist r)),
            (''forwarding'', JArr (map enc_forwarding (Forwarding r))), (''custom'', enc_lines (Custom r))] @
           omit_empty ''feeds'' (Feeds r) (enc_lines (Feeds r)))"

definition enc_rules_state :: "rules_state \<Rightarrow> json" where
  "enc_rules_state st =
     JObj [(''current'', enc_rules (Current st)), (''staged'', enc_rules (Staged st)),
           (''backup'', enc_rules (Backup st))]"

section \<open>Reading what was written\<close>

lemma dec_each_map: "(\<And>x. x \<in> set xs \<Longrightarrow> d (e x) = Some x) \<Longrightarrow> dec_each d (map e xs) = Some xs"
  by (induction xs) auto

lemma dec_enc_lines [simp]: "dec_lines (Some (enc_lines xs)) = Some xs"
  by (simp add: dec_lines_def enc_lines_def dec_each_map)

lemma json_field_simps [simp]:
  "json_field n [] = None"
  "json_field n ((k, v) # fs) = (if fold_key k = fold_key n then Some v else json_field n fs)"
  by (simp_all add: json_field_def)

lemma json_field_omit [simp]:
  "json_field n (omit_empty k v j @ fs) =
     (if v \<noteq> [] \<and> fold_key k = fold_key n then Some j else json_field n fs)"
  "json_field n (omit_empty k v j) = (if v \<noteq> [] \<and> fold_key k = fold_key n then Some j else None)"
  by (simp_all add: omit_empty_def)

lemma dec_lines_None [simp]: "dec_lines None = Some []"
  by (simp add: dec_lines_def)

lemma dec_enc_port_rule [simp]: "dec_port_rule (enc_port_rule r) = Some r"
  by (cases r) (auto simp: enc_port_rule_def up_char_def)

definition forwarding_fits :: "forwarding_rule \<Rightarrow> bool" where
  "forwarding_fits f \<longleftrightarrow> - (2 ^ 63) \<le> fwSourcePort f \<and> fwSourcePort f < 2 ^ 63 \<and>
     - (2 ^ 63) \<le> fwDestPort f \<and> fwDestPort f < 2 ^ 63"

lemma dec_enc_forwarding: "forwarding_fits f \<Longrightarrow> dec_forwarding (enc_forwarding f) = Some f"
  by (cases f) (simp add: enc_forwarding_def forwarding_fits_def up_char_def)

lemma forwarding_ok_fits: "forwarding_ok f \<Longrightarrow> forwarding_fits f"
  by (auto simp: forwarding_ok_def forwarding_fits_def)

lemma dec_enc_rules:
  assumes "list_all forwarding_fits (Forwarding r)"
  shows "dec_rules (Some (enc_rules r)) = Some r"
proof -
  have "dec_each dec_port_rule (map enc_port_rule ps) = Some ps" for ps by (simp add: dec_each_map)
  moreover have "dec_each dec_forwarding (map enc_forwarding (Forwarding r)) = Some (Forwarding r)"
    using assms by (intro dec_each_map) (auto simp: list_all_iff dec_enc_forwarding)
  ultimately show ?thesis by (cases r) (simp add: enc_rules_def up_char_def)
qed

definition state_fits :: "rules_state \<Rightarrow> bool" where
  "state_fits st \<longleftrightarrow> list_all forwarding_fits (Forwarding (Current st) @ Forwarding (Staged st) @ Forwarding (Backup st))"

lemma dec_enc_rules_state: "state_fits st \<Longrightarrow> dec_rules_state (enc_rules_state st) = Some st"
  by (cases st) (simp add: enc_rules_state_def state_fits_def dec_enc_rules up_char_def)

section \<open>The store\<close>

text \<open>
  The file on disk: not there, not to be reached, there but not readable as rules, or a document.
  The error of a read and of a write (of the temporary file, its close or the rename) are inputs.
\<close>

datatype store_file = Absent | Unreachable string | Unparsable | Document json

record store_io =
  readError :: "string option"
  writeError :: "string option"

datatype store_error =
    ReadRules string | ParseRules | StoreUnreachable string | UnknownRuleType string
  | BadPayload | InvalidRules rules_error | WriteRules string

definition getState :: "store_io \<Rightarrow> store_file \<Rightarrow> store_error + rules_state" where
  "getState fio f =
     (case readError fio of
        Some e \<Rightarrow> Inl (ReadRules e)
      | None \<Rightarrow>
          (case f of
             Absent \<Rightarrow> Inl (ReadRules ''no such file or directory'')
           | Unreachable e \<Rightarrow> Inl (ReadRules e)
           | Unparsable \<Rightarrow> Inl ParseRules
           | Document j \<Rightarrow>
               (case dec_rules_state j of None \<Rightarrow> Inl ParseRules | Some st \<Rightarrow> Inr st)))"

text \<open>\<open>save\<close>: the new document appears by rename or not at all.\<close>

definition save_state :: "store_io \<Rightarrow> rules_state \<Rightarrow> store_file \<Rightarrow> store_error option \<times> store_file" where
  "save_state fio st f =
     (case writeError fio of
        Some e \<Rightarrow> (Some (WriteRules e), f) | None \<Rightarrow> (None, Document (enc_rules_state st)))"

definition emptyState :: rules_state where
  "emptyState = \<lparr> Current = no_rules, Staged = no_rules, Backup = no_rules \<rparr>"

text \<open>
  Operations that fill in ids draw from the random source at position \<open>k\<close>; \<open>None\<close> is a redraw
  that never ends.
\<close>

definition backfillIDs ::
  "random_source \<Rightarrow> store_io \<Rightarrow> nat \<Rightarrow> store_file \<Rightarrow> (store_error option \<times> nat \<times> store_file) option" where
  "backfillIDs rng fio k f =
     (case getState fio f of
        Inl e \<Rightarrow> Some (Some e, k, f)
      | Inr st \<Rightarrow> do {
          (current, k1, ch1) \<leftarrow> EnsureRuleIDs rng k (Current st);
          (staged, k2, ch2) \<leftarrow> EnsureRuleIDs rng k1 (Staged st);
          (backup, k3, ch3) \<leftarrow> EnsureRuleIDs rng k2 (Backup st);
          if \<not> (ch1 \<or> ch2 \<or> ch3) then Some (None, k3, f)
          else let (err, f') = save_state fio \<lparr> Current = current, Staged = staged, Backup = backup \<rparr> f
               in Some (err, k3, f') })"

definition NewRulesStore ::
  "random_source \<Rightarrow> store_io \<Rightarrow> nat \<Rightarrow> store_file \<Rightarrow> (store_error option \<times> nat \<times> store_file) option" where
  "NewRulesStore rng fio k f =
     (case f of
        Unreachable e \<Rightarrow> Some (Some (StoreUnreachable e), k, f)
      | Absent \<Rightarrow>
          (case save_state fio emptyState f of
             (Some e, f') \<Rightarrow> Some (Some e, k, f') | (None, f') \<Rightarrow> backfillIDs rng fio k f')
      | _ \<Rightarrow> backfillIDs rng fio k f)"

text \<open>The switch of \<open>SaveStaged\<close>; \<open>data\<close> is the payload encoded again by \<open>json.Marshal\<close>.\<close>

definition stage_payload :: "string \<Rightarrow> json \<Rightarrow> rules \<Rightarrow> store_error + rules" where
  "stage_payload ruleType data staged =
     (let put = (\<lambda>v g. case v of None \<Rightarrow> Inl BadPayload | Some x \<Rightarrow> Inr (g x));
          ports = dec_list dec_port_rule (Some data); lines = dec_lines (Some data) in
      if ruleType = ''tcp'' then (case ports of None \<Rightarrow> Inl BadPayload | Some v \<Rightarrow> Inr (staged\<lparr>TCP := v\<rparr>))
      else if ruleType = ''udp'' then (case ports of None \<Rightarrow> Inl BadPayload | Some v \<Rightarrow> Inr (staged\<lparr>UDP := v\<rparr>))
      else if ruleType = ''blocklist'' then put lines (\<lambda>v. staged\<lparr>Blocklist := v\<rparr>)
      else if ruleType = ''allowlist'' then put lines (\<lambda>v. staged\<lparr>Allowlist := v\<rparr>)
      else if ruleType = ''feeds'' then put lines (\<lambda>v. staged\<lparr>Feeds := v\<rparr>)
      else if ruleType = ''forwarding'' then
        (case dec_list dec_forwarding (Some data) of
           None \<Rightarrow> Inl BadPayload | Some v \<Rightarrow> Inr (staged\<lparr>Forwarding := v\<rparr>))
      else if ruleType = ''custom'' then put lines (\<lambda>v. staged\<lparr>Custom := v\<rparr>)
      else Inl (UnknownRuleType ruleType))"

definition SaveStaged ::
  "random_source \<Rightarrow> store_io \<Rightarrow> nat \<Rightarrow> string \<Rightarrow> json \<Rightarrow> store_file \<Rightarrow>
   (store_error option \<times> nat \<times> store_file) option" where
  "SaveStaged rng fio k ruleType data f =
     (case getState fio f of
        Inl e \<Rightarrow> Some (Some e, k, f)
      | Inr st \<Rightarrow>
          (case stage_payload ruleType data (Staged st) of
             Inl e \<Rightarrow> Some (Some e, k, f)
           | Inr staged \<Rightarrow> do {
               (staged', k', _) \<leftarrow> EnsureRuleIDs rng k staged;
               case ValidateRules staged' of
                 Some e \<Rightarrow> Some (Some (InvalidRules e), k', f)
               | None \<Rightarrow> let (err, f') = save_state fio (st\<lparr>Staged := staged'\<rparr>) f in Some (err, k', f') }))"

definition ImportRules ::
  "random_source \<Rightarrow> store_io \<Rightarrow> nat \<Rightarrow> json option \<Rightarrow> store_file \<Rightarrow>
   (store_error option \<times> nat \<times> store_file) option" where
  "ImportRules rng fio k data f =
     (case data of
        None \<Rightarrow> Some (Some BadPayload, k, f)
      | Some j \<Rightarrow>
          (case dec_rules (Some j) of
             None \<Rightarrow> Some (Some BadPayload, k, f)
           | Some rs \<Rightarrow> do {
               (rs', k', _) \<leftarrow> EnsureRuleIDs rng k rs;
               case ValidateRules rs' of
                 Some e \<Rightarrow> Some (Some (InvalidRules e), k', f)
               | None \<Rightarrow>
                   (case getState fio f of
                      Inl e \<Rightarrow> Some (Some e, k', f)
                    | Inr st \<Rightarrow> let (err, f') = save_state fio (st\<lparr>Staged := rs'\<rparr>) f in Some (err, k', f')) }))"

definition ExportStaged :: "store_io \<Rightarrow> store_file \<Rightarrow> store_error + json" where
  "ExportStaged fio f =
     (case getState fio f of Inl e \<Rightarrow> Inl e | Inr st \<Rightarrow> Inr (enc_rules (Staged st)))"

text \<open>The three moves between the slots, each a read, an assignment and a save.\<close>

definition move_slot :: "(rules_state \<Rightarrow> rules_state) \<Rightarrow> store_io \<Rightarrow> store_file \<Rightarrow> store_error option \<times> store_file" where
  "move_slot g fio f = (case getState fio f of Inl e \<Rightarrow> (Some e, f) | Inr st \<Rightarrow> save_state fio (g st) f)"

definition BackupCurrentFile :: "store_io \<Rightarrow> store_file \<Rightarrow> store_error option \<times> store_file" where
  "BackupCurrentFile = move_slot (\<lambda>st. st\<lparr>Backup := Current st\<rparr>)"

definition PromoteStagedFile :: "store_io \<Rightarrow> store_file \<Rightarrow> store_error option \<times> store_file" where
  "PromoteStagedFile = move_slot (\<lambda>st. st\<lparr>Current := Staged st\<rparr>)"

definition RollbackFile :: "store_io \<Rightarrow> store_file \<Rightarrow> store_error option \<times> store_file" where
  "RollbackFile = move_slot (\<lambda>st. st\<lparr>Current := Backup st\<rparr>)"

section \<open>Runs\<close>

datatype store_op =
  OpenStore | StageOp string json | ImportOp "json option" | BackupOp | PromoteOp | RollbackOp

fun store_step ::
  "random_source \<Rightarrow> store_io \<Rightarrow> store_op \<Rightarrow> nat \<times> store_file \<Rightarrow> (store_error option \<times> nat \<times> store_file) option" where
  "store_step rng fio OpenStore (k, f) = NewRulesStore rng fio k f"
| "store_step rng fio (StageOp ruleType data) (k, f) = SaveStaged rng fio k ruleType data f"
| "store_step rng fio (ImportOp data) (k, f) = ImportRules rng fio k data f"
| "store_step rng fio BackupOp (k, f) = (case BackupCurrentFile fio f of (err, f') \<Rightarrow> Some (err, k, f'))"
| "store_step rng fio PromoteOp (k, f) = (case PromoteStagedFile fio f of (err, f') \<Rightarrow> Some (err, k, f'))"
| "store_step rng fio RollbackOp (k, f) = (case RollbackFile fio f of (err, f') \<Rightarrow> Some (err, k, f'))"

text \<open>Whatever is asked of a store that did not exist, with any failures of the disk on the way.\<close>

inductive store_reaches :: "random_source \<Rightarrow> nat \<times> store_file \<Rightarrow> bool" for rng where
  start: "store_reaches rng (k, Absent)"
| step: "store_reaches rng s \<Longrightarrow> store_step rng fio op s = Some (err, s') \<Longrightarrow> store_reaches rng s'"

inductive_cases store_reachesE: "store_reaches rng s"

definition slot_ok :: "rules \<Rightarrow> bool" where
  "slot_ok r \<longleftrightarrow> ValidateRules r = None \<and> list_all ValidRuleID (ids_of r) \<and> distinct (ids_of r)"

definition state_ok :: "rules_state \<Rightarrow> bool" where
  "state_ok st \<longleftrightarrow> slot_ok (Current st) \<and> slot_ok (Staged st) \<and> slot_ok (Backup st)"

definition store_ok :: "store_file \<Rightarrow> bool" where
  "store_ok f \<longleftrightarrow> f = Absent \<or> (\<exists>st. f = Document (enc_rules_state st) \<and> state_ok st)"

lemma slot_ok_empty: "slot_ok no_rules"
  by (simp add: slot_ok_def ValidateRules_None rules_ok_def given_ids_def ids_of_def no_rules_def)

lemma state_ok_fits: "state_ok st \<Longrightarrow> state_fits st"
  by (auto simp: state_ok_def slot_ok_def ValidateRules_None rules_ok_def state_fits_def list_all_iff
      forwarding_ok_fits)

lemma getState_stored:
  "state_ok st \<Longrightarrow> getState fio (Document (enc_rules_state st)) =
     (case readError fio of Some e \<Rightarrow> Inl (ReadRules e) | None \<Rightarrow> Inr st)"
  by (simp add: getState_def dec_enc_rules_state [OF state_ok_fits] split: option.splits)

lemma getState_ok: "store_ok f \<Longrightarrow> getState fio f = Inr st \<Longrightarrow> state_ok st \<and> f = Document (enc_rules_state st)"
  by (auto simp: store_ok_def getState_stored split: option.splits) (auto simp: getState_def split: option.splits)

lemma save_state_ok: "store_ok f \<Longrightarrow> state_ok st \<Longrightarrow> store_ok (snd (save_state fio st f))"
  by (auto simp: save_state_def store_ok_def split: option.splits)

lemma save_staged_ok:
  "store_ok f \<Longrightarrow> getState fio f = Inr st \<Longrightarrow> slot_ok r \<Longrightarrow> save_state fio (st\<lparr>Staged := r\<rparr>) f = (err, f') \<Longrightarrow>
     store_ok f'"
  using save_state_ok [of f "st\<lparr>Staged := r\<rparr>" fio] getState_ok [of f fio st] by (simp add: state_ok_def)

lemma staged_ok:
  assumes "six_bytes rng" "EnsureRuleIDs rng k r = Some (r', k', ch)" "ValidateRules r' = None"
  shows "slot_ok r'"
  using assms EnsureRuleIDs_result(1,2) [OF assms(1,2)] by (simp add: slot_ok_def)

lemma backfill_ok:
  assumes "store_ok f" "backfillIDs rng fio k f = Some (err, k', f')"
  shows "f' = f"
  using assms getState_ok [OF assms(1), of fio]
  by (auto simp: backfillIDs_def state_ok_def slot_ok_def EnsureRuleIDs_keeps Let_def split: sum.splits)

lemma move_slot_ok:
  assumes "store_ok f" "\<And>st. state_ok st \<Longrightarrow> state_ok (g st)"
  shows "store_ok (snd (move_slot g fio f))"
  using assms getState_ok [OF assms(1), of fio] save_state_ok [OF assms(1)]
  by (auto simp: move_slot_def split: sum.splits)

lemma moves_ok:
  assumes "store_ok f"
  shows "store_ok (snd (BackupCurrentFile fio f))" "store_ok (snd (PromoteStagedFile fio f))"
    "store_ok (snd (RollbackFile fio f))"
  unfolding BackupCurrentFile_def PromoteStagedFile_def RollbackFile_def
  by (rule move_slot_ok [OF assms]; simp add: state_ok_def)+

lemma store_step_ok:
  assumes rng: "six_bytes rng" and f: "store_ok f" and step: "store_step rng fio op (k, f) = Some (err, k', f')"
  shows "store_ok f'"
proof (cases op)
  case OpenStore
  have "store_ok (snd (save_state fio emptyState f))"
    by (rule save_state_ok [OF f]) (simp add: emptyState_def state_ok_def slot_ok_empty)
  with OpenStore step f show ?thesis
    by (auto simp: NewRulesStore_def split: store_file.splits prod.splits option.splits dest: backfill_ok)
next
  case (StageOp ruleType data)
  show ?thesis
  proof (cases "f' = f")
    case False
    with step StageOp obtain st rs r' ch where "getState fio f = Inr st" "EnsureRuleIDs rng k rs = Some (r', k', ch)"
      "ValidateRules r' = None" "save_state fio (st\<lparr>Staged := r'\<rparr>) f = (err, f')"
      by (auto simp: SaveStaged_def Let_def bind_eq_Some_conv split: sum.splits option.splits prod.splits)
    then show ?thesis using save_staged_ok [OF f _ staged_ok [OF rng]] by blast
  qed (simp add: f)
next
  case (ImportOp data)
  show ?thesis
  proof (cases "f' = f")
    case False
    with step ImportOp obtain st where st: "getState fio f = Inr st"
      by (cases "getState fio f") (auto simp: ImportRules_def bind_eq_Some_conv split: option.splits)
    with step ImportOp False obtain rs r' ch where "EnsureRuleIDs rng k rs = Some (r', k', ch)"
      "ValidateRules r' = None" "save_state fio (st\<lparr>Staged := r'\<rparr>) f = (err, f')"
      by (auto simp: ImportRules_def Let_def bind_eq_Some_conv split: option.splits prod.splits)
    then show ?thesis using save_staged_ok [OF f st staged_ok [OF rng]] by blast
  qed (simp add: f)
qed (use step moves_ok [OF f, of fio] in \<open>auto split: prod.splits\<close>)

lemma store_reaches_ok: "store_reaches rng s \<Longrightarrow> six_bytes rng \<Longrightarrow> store_ok (snd s)"
proof (induction rule: store_reaches.induct)
  case (step s fio op err s')
  then show ?case using store_step_ok [of rng "snd s" fio op "fst s" err "fst s'" "snd s'"] by simp
qed (simp add: store_ok_def)

section \<open>Properties\<close>

text \<open>
  C33. Whatever sequence of stagings, imports, backups, promotions and rollbacks a store goes
  through from its creation, with any of its reads and writes failing, all three slots hold rule
  sets the boundary admits, in which every port rule has an id of its own.
\<close>

theorem store_slots_stay_valid:
  assumes "store_reaches rng (k, f)" "six_bytes rng" "getState fio f = Inr st" "r \<in> {Current st, Staged st, Backup st}"
  shows "ValidateRules r = None \<and> list_all ValidRuleID (ids_of r) \<and> distinct (ids_of r)"
  using getState_ok [of f fio st] store_reaches_ok [OF assms(1,2)] assms(3,4)
  by (auto simp: state_ok_def slot_ok_def)

text \<open>
  C34. An export brought back by an import stages the very rules it was taken from, ids included,
  and leaves the other two slots alone, whichever store of this program it is imported into.
\<close>

theorem export_import_roundtrip:
  assumes "six_bytes rng" "store_reaches rng (k, f)" "store_reaches rng (k', g)"
    "getState fio f = Inr st" "ExportStaged fio f = Inr doc"
    "getState gio g = Inr st'" "writeError gio = None"
  shows "\<exists>g'. ImportRules rng gio k' (Some doc) g = Some (None, k', g') \<and>
    getState gio g' = Inr (st'\<lparr>Staged := Staged st\<rparr>)"
proof -
  have ok: "state_ok st" "state_ok st'"
    using getState_ok [of f fio st] getState_ok [of g gio st'] store_reaches_ok [OF assms(2,1)]
      store_reaches_ok [OF assms(3,1)] assms(4,6) by auto
  have doc: "doc = enc_rules (Staged st)" using assms(4,5) by (simp add: ExportStaged_def)
  have fits: "list_all forwarding_fits (Forwarding (Staged st))"
    using state_ok_fits [OF ok(1)] by (simp add: state_fits_def)
  have slot: "slot_ok (Staged st)" using ok(1) by (simp add: state_ok_def)
  have "EnsureRuleIDs rng k' (Staged st) = Some (Staged st, k', False)" "ValidateRules (Staged st) = None"
    using slot by (simp_all add: slot_ok_def EnsureRuleIDs_keeps)
  then have "ImportRules rng gio k' (Some doc) g =
      Some (None, k', Document (enc_rules_state (st'\<lparr>Staged := Staged st\<rparr>)))"
    by (simp add: ImportRules_def doc dec_enc_rules [OF fits] assms(6) save_state_def assms(7))
  moreover have "getState gio (Document (enc_rules_state (st'\<lparr>Staged := Staged st\<rparr>))) =
      Inr (st'\<lparr>Staged := Staged st\<rparr>)"
  proof -
    have "state_ok (st'\<lparr>Staged := Staged st\<rparr>)" using ok slot by (simp add: state_ok_def)
    moreover have "readError gio = None" using assms(6) by (simp add: getState_def split: option.splits)
    ultimately show ?thesis by (simp add: getState_stored)
  qed
  ultimately show ?thesis by blast
qed

section \<open>Witnesses\<close>

definition quiet_io :: store_io where
  "quiet_io = \<lparr> readError = None, writeError = None \<rparr>"

definition port_document :: json where
  "port_document = JArr [JObj [(''Port'', JStr ''22''), (''ssh'', JBool True), (''colour'', JNum 3)]]"

text \<open>A store created, a port staged with its key in another case, an unknown field ignored.\<close>

definition staged_once :: store_file where
  "staged_once = Document (enc_rules_state (emptyState\<lparr>Staged := no_rules\<lparr>TCP :=
     [zero_port_rule\<lparr>prID := ''000000000000'', prPort := ''22'', prSSH := True\<rparr>]\<rparr>\<rparr>))"

lemma state_ok_empty: "state_ok emptyState"
  by (simp add: emptyState_def state_ok_def slot_ok_empty)

lemma open_empty:
  "NewRulesStore rng quiet_io k Absent = Some (None, k, Document (enc_rules_state emptyState))"
proof -
  have "getState quiet_io (Document (enc_rules_state emptyState)) = Inr emptyState"
    by (simp add: getState_stored state_ok_empty quiet_io_def)
  moreover have "EnsureRuleIDs rng j no_rules = Some (no_rules, j, False)" for j
    using slot_ok_empty by (simp add: EnsureRuleIDs_keeps slot_ok_def)
  ultimately have "backfillIDs rng quiet_io k (Document (enc_rules_state emptyState)) =
      Some (None, k, Document (enc_rules_state emptyState))"
    by (simp add: backfillIDs_def) (simp add: emptyState_def)
  then show ?thesis by (simp add: NewRulesStore_def save_state_def) (simp add: quiet_io_def)
qed

lemma staged_once_reached: "store_reaches counter_source (1, staged_once)"
proof -
  have first: "store_reaches counter_source (0, Document (enc_rules_state emptyState))"
    using store_reaches.step [OF store_reaches.start [of counter_source 0], of quiet_io OpenStore None]
    by (simp add: open_empty)
  have "getState quiet_io (Document (enc_rules_state emptyState)) = Inr emptyState"
    by (simp add: getState_stored state_ok_empty quiet_io_def)
  moreover have "stage_payload ''tcp'' port_document (Staged emptyState) =
      Inr (no_rules\<lparr>TCP := [zero_port_rule\<lparr>prPort := ''22'', prSSH := True\<rparr>]\<rparr>)" by code_simp
  moreover have "EnsureRuleIDs counter_source 0 (no_rules\<lparr>TCP := [zero_port_rule\<lparr>prPort := ''22'', prSSH := True\<rparr>]\<rparr>) =
      Some (no_rules\<lparr>TCP := [zero_port_rule\<lparr>prID := ''000000000000'', prPort := ''22'', prSSH := True\<rparr>]\<rparr>, 1, True)"
  proof -
    have "hex_encode (counter_source 0) = ''000000000000''" by code_simp
    then show ?thesis
      by (simp add: EnsureRuleIDs_def no_rules_def zero_port_rule_def NewRuleID_def redraw.simps)
  qed
  moreover have "ValidateRules (no_rules\<lparr>TCP :=
      [zero_port_rule\<lparr>prID := ''000000000000'', prPort := ''22'', prSSH := True\<rparr>]\<rparr>) = None" by code_simp
  ultimately have "SaveStaged counter_source quiet_io 0 ''tcp'' port_document (Document (enc_rules_state emptyState)) =
      Some (None, 1, staged_once)"
    by (simp add: SaveStaged_def save_state_def staged_once_def emptyState_def) (simp add: quiet_io_def)
  with store_reaches.step [OF first, of quiet_io "StageOp ''tcp'' port_document" None] show ?thesis by simp
qed

lemma staged_once_state:
  "getState quiet_io staged_once = Inr (emptyState\<lparr>Staged := no_rules\<lparr>TCP :=
     [zero_port_rule\<lparr>prID := ''000000000000'', prPort := ''22'', prSSH := True\<rparr>]\<rparr>\<rparr>)"
proof -
  have "slot_ok (no_rules\<lparr>TCP := [zero_port_rule\<lparr>prID := ''000000000000'', prPort := ''22'', prSSH := True\<rparr>]\<rparr>)"
    by code_simp
  then show ?thesis
    unfolding staged_once_def
    by (subst getState_stored) (simp_all add: quiet_io_def state_ok_def emptyState_def slot_ok_empty)
qed

theorem store_slots_stay_valid_witness:
  "\<exists>st. getState quiet_io staged_once = Inr st \<and> length (TCP (Staged st)) = 1 \<and> ValidateRules (Staged st) = None"
  using store_slots_stay_valid [OF staged_once_reached counter_source_ok(1) staged_once_state]
    staged_once_state by simp

text \<open>The staged port is exported and imported into a store that has just been created.\<close>

theorem export_import_roundtrip_witness:
  "\<exists>g'. ImportRules counter_source quiet_io 0 (Some (enc_rules (no_rules\<lparr>TCP :=
       [zero_port_rule\<lparr>prID := ''000000000000'', prPort := ''22'', prSSH := True\<rparr>]\<rparr>)))
     (Document (enc_rules_state emptyState)) = Some (None, 0, g') \<and>
   getState quiet_io g' = getState quiet_io staged_once"
proof -
  have g: "store_reaches counter_source (0, Document (enc_rules_state emptyState))"
    using store_reaches.step [OF store_reaches.start [of counter_source 0], of quiet_io OpenStore None]
    by (simp add: open_empty)
  have gs: "getState quiet_io (Document (enc_rules_state emptyState)) = Inr emptyState"
    by (simp add: getState_stored state_ok_empty quiet_io_def)
  have ex: "ExportStaged quiet_io staged_once = Inr (enc_rules (no_rules\<lparr>TCP :=
       [zero_port_rule\<lparr>prID := ''000000000000'', prPort := ''22'', prSSH := True\<rparr>]\<rparr>))"
    by (simp add: ExportStaged_def staged_once_state)
  have w: "writeError quiet_io = None" by (simp add: quiet_io_def)
  show ?thesis
    using export_import_roundtrip [OF counter_source_ok(1) staged_once_reached g staged_once_state ex gs w]
    by (simp add: staged_once_state)
qed

end
