(* ===== verification/Diff.thy ===== *)
theory Diff
  imports Store InputChain
begin

text \<open>
  The diff the apply screen shows (\<open>internal/shared/diff.go\<close>), which is also what the core calls
  a pending change.  The lemmas say when an empty diff means that applying the staged rules
  changes nothing for any packet, and a theorem shows where it does not.
\<close>

section \<open>Deltas\<close>

datatype delta_kind = DeltaAdded | DeltaRemoved | DeltaChanged

record rule_delta =
  rdSet :: string
  rdKind :: delta_kind
  rdKey :: string
  rdLabel :: string
  rdFrom :: string
  rdTo :: string

definition delta :: "string \<Rightarrow> delta_kind \<Rightarrow> string \<Rightarrow> rule_delta" where
  "delta s k key = \<lparr> rdSet = s, rdKind = k, rdKey = key, rdLabel = [], rdFrom = [], rdTo = [] \<rparr>"

section \<open>Ports\<close>

definition em_dash :: string where "em_dash = [CHR 0xE2, CHR 0x80, CHR 0x94]"

definition port_marks :: "port_rule \<Rightarrow> string list" where
  "port_marks r =
     (if prSSH r then [''(ssh)''] else []) @
     (if prScope r \<noteq> [] \<and> prScope r \<noteq> ScopeHost then [''('' @ prScope r @ '')''] else [])"

definition add_mark :: "string \<Rightarrow> string \<Rightarrow> string" where
  "add_mark detail m = (if detail = [] then m else detail @ '' '' @ m)"

definition named_sources :: "port_rule \<Rightarrow> string list" where
  "named_sources r = map trim_space (filter (\<lambda>s. \<not> IsListComment s) (prSources r))"

definition portDetail :: "port_rule \<Rightarrow> string" where
  "portDetail r =
     (let detail = foldl add_mark (prDescription r) (port_marks r); sources = named_sources r in
      if sources \<noteq> [] then
        (let from = ''from '' @ join '', '' sources in
         if detail = [] then from else detail @ '' '' @ em_dash @ '' '' @ from)
      else detail)"

definition index_port :: "(string \<rightharpoonup> string) \<Rightarrow> port_rule \<Rightarrow> (string \<rightharpoonup> string)" where
  "index_port m r =
     (case m (prPort r) of
        Some prev \<Rightarrow> m(prPort r \<mapsto> prev @ '' | '' @ portDetail r)
      | None \<Rightarrow> m(prPort r \<mapsto> portDetail r))"

definition indexPorts :: "port_rule list \<Rightarrow> (string \<rightharpoonup> string)" where
  "indexPorts rs = foldl index_port Map.empty rs"

definition map_get :: "(string \<rightharpoonup> string) \<Rightarrow> string \<Rightarrow> string" where
  "map_get m k = (case m k of Some v \<Rightarrow> v | None \<Rightarrow> [])"

fun port_arrivals ::
  "string \<Rightarrow> (string \<rightharpoonup> string) \<Rightarrow> (string \<rightharpoonup> string) \<Rightarrow> string list \<Rightarrow> port_rule list \<Rightarrow> rule_delta list" where
  "port_arrivals st cur nxt seen [] = []"
| "port_arrivals st cur nxt seen (r # rs) =
     (if prPort r \<in> set seen then port_arrivals st cur nxt seen rs
      else
        let to = map_get nxt (prPort r) in
        (case cur (prPort r) of
           None \<Rightarrow> [(delta st DeltaAdded (prPort r))\<lparr>rdLabel := to\<rparr>]
         | Some before \<Rightarrow>
             if before \<noteq> to
             then [(delta st DeltaChanged (prPort r))\<lparr>rdLabel := to, rdFrom := before, rdTo := to\<rparr>] else []) @
        port_arrivals st cur nxt (prPort r # seen) rs)"

fun port_departures ::
  "string \<Rightarrow> (string \<rightharpoonup> string) \<Rightarrow> (string \<rightharpoonup> string) \<Rightarrow> string list \<Rightarrow> port_rule list \<Rightarrow> rule_delta list" where
  "port_departures st cur nxt seen [] = []"
| "port_departures st cur nxt seen (r # rs) =
     (if prPort r \<in> set seen then port_departures st cur nxt seen rs
      else
        (if nxt (prPort r) = None
         then [(delta st DeltaRemoved (prPort r))\<lparr>rdLabel := map_get cur (prPort r)\<rparr>] else []) @
        port_departures st cur nxt (prPort r # seen) rs)"

definition diffPorts :: "string \<Rightarrow> port_rule list \<Rightarrow> port_rule list \<Rightarrow> rule_delta list" where
  "diffPorts st current staged =
     (let cur = indexPorts current; nxt = indexPorts staged in
      port_arrivals st cur nxt [] staged @ port_departures st cur nxt [] current)"

section \<open>Lists and feeds\<close>

fun first_seen :: "string list \<Rightarrow> string list \<Rightarrow> string list" where
  "first_seen seen [] = []"
| "first_seen seen (l # ls) =
     (if IsListComment l then first_seen seen ls
      else let e = trim_space l in
        if e \<in> set seen then first_seen seen ls else e # first_seen (e # seen) ls)"

definition listEntries :: "string list \<Rightarrow> string list" where
  "listEntries ls = first_seen [] ls"

definition diffList :: "string \<Rightarrow> string list \<Rightarrow> string list \<Rightarrow> rule_delta list" where
  "diffList st current staged =
     map (delta st DeltaAdded) (filter (\<lambda>e. e \<notin> set (listEntries current)) (listEntries staged)) @
     map (delta st DeltaRemoved) (filter (\<lambda>e. e \<notin> set (listEntries staged)) (listEntries current))"

definition diffFeeds :: "string list \<Rightarrow> string list \<Rightarrow> rule_delta list" where
  "diffFeeds current staged =
     map (\<lambda>d. if FeedDisplayName (rdKey d) \<noteq> rdKey d then d\<lparr>rdLabel := FeedDisplayName (rdKey d)\<rparr> else d)
       (diffList ''feeds'' current staged)"

section \<open>Forwarding\<close>

definition forwardID :: "forwarding_rule \<Rightarrow> string" where
  "forwardID r = itoa (fwSourcePort r) @ ''/'' @ fwProtocol r"

definition forwardText :: "forwarding_rule \<Rightarrow> string" where
  "forwardText r = itoa (fwSourcePort r) @ ''->'' @ itoa (fwDestPort r) @ ''/'' @ fwProtocol r"

definition indexForwards :: "forwarding_rule list \<Rightarrow> (string \<rightharpoonup> forwarding_rule)" where
  "indexForwards rs = foldl (\<lambda>m r. if m (forwardID r) = None then m(forwardID r \<mapsto> r) else m) Map.empty rs"

fun forward_arrivals ::
  "(string \<rightharpoonup> forwarding_rule) \<Rightarrow> string list \<Rightarrow> forwarding_rule list \<Rightarrow> rule_delta list" where
  "forward_arrivals cur seen [] = []"
| "forward_arrivals cur seen (r # rs) =
     (if forwardID r \<in> set seen then forward_arrivals cur seen rs
      else
        (case cur (forwardID r) of
           None \<Rightarrow> [delta ''forwarding'' DeltaAdded (forwardText r)]
         | Some before \<Rightarrow>
             if fwDestPort before \<noteq> fwDestPort r
             then [(delta ''forwarding'' DeltaChanged (forwardID r))\<lparr>rdFrom := forwardText before, rdTo := forwardText r\<rparr>]
             else []) @
        forward_arrivals cur (forwardID r # seen) rs)"

fun forward_departures ::
  "(string \<rightharpoonup> forwarding_rule) \<Rightarrow> string list \<Rightarrow> forwarding_rule list \<Rightarrow> rule_delta list" where
  "forward_departures nxt seen [] = []"
| "forward_departures nxt seen (r # rs) =
     (if forwardID r \<in> set seen then forward_departures nxt seen rs
      else (if nxt (forwardID r) = None then [delta ''forwarding'' DeltaRemoved (forwardText r)] else []) @
        forward_departures nxt (forwardID r # seen) rs)"

definition diffForwarding :: "forwarding_rule list \<Rightarrow> forwarding_rule list \<Rightarrow> rule_delta list" where
  "diffForwarding current staged =
     forward_arrivals (indexForwards current) [] staged @ forward_departures (indexForwards staged) [] current"

section \<open>Custom rules and the whole diff\<close>

definition customLines :: "string list \<Rightarrow> string list" where
  "customLines ls = map trim_space (filter (\<lambda>l. \<not> IsListComment l) ls)"

definition custom_key :: "nat \<Rightarrow> string" where
  "custom_key i = ''#'' @ itoa (int (i + 1))"

definition diffCustom :: "string list \<Rightarrow> string list \<Rightarrow> rule_delta list" where
  "diffCustom current staged =
     (let cur = customLines current; nxt = customLines staged in
      concat (map (\<lambda>i.
        if i \<ge> length cur then [(delta ''custom'' DeltaAdded (custom_key i))\<lparr>rdLabel := nxt ! i\<rparr>]
        else if cur ! i \<noteq> nxt ! i
          then [(delta ''custom'' DeltaChanged (custom_key i))\<lparr>rdFrom := cur ! i, rdTo := nxt ! i\<rparr>]
        else []) [0..<length nxt]) @
      map (\<lambda>i. (delta ''custom'' DeltaRemoved (custom_key i))\<lparr>rdLabel := cur ! i\<rparr>) [length nxt..<length cur])"

definition DiffRules :: "rules \<Rightarrow> rules \<Rightarrow> rule_delta list" where
  "DiffRules current staged =
     diffPorts ''tcp'' (TCP current) (TCP staged) @
     diffPorts ''udp'' (UDP current) (UDP staged) @
     diffList ''blocklist'' (Blocklist current) (Blocklist staged) @
     diffList ''allowlist'' (Allowlist current) (Allowlist staged) @
     diffFeeds (Feeds current) (Feeds staged) @
     diffForwarding (Forwarding current) (Forwarding staged) @
     diffCustom (Custom current) (Custom staged)"

definition HasPendingChanges :: "store_io \<Rightarrow> store_file \<Rightarrow> store_error + bool" where
  "HasPendingChanges fio f =
     (case getState fio f of
        Inl e \<Rightarrow> Inl e | Inr st \<Rightarrow> Inr (length (DiffRules (Current st) (Staged st)) > 0))"

section \<open>When a diff is empty\<close>

lemma index_port_dom: "dom (index_port m r) = insert (prPort r) (dom m)"
  by (auto simp: index_port_def split: option.splits)

lemma indexPorts_dom: "dom (foldl index_port m rs) = prPort ` set rs \<union> dom m"
  by (induction rs arbitrary: m) (auto simp: index_port_dom)

lemma port_arrivals_empty:
  "port_arrivals st cur nxt seen rs = [] \<longleftrightarrow>
     (\<forall>r\<in>set rs. prPort r \<notin> set seen \<longrightarrow> cur (prPort r) = Some (map_get nxt (prPort r)))"
  by (induction rs arbitrary: seen) (auto simp: Let_def split: option.splits)

lemma port_departures_empty:
  "port_departures st cur nxt seen rs = [] \<longleftrightarrow>
     (\<forall>r\<in>set rs. prPort r \<notin> set seen \<longrightarrow> nxt (prPort r) \<noteq> None)"
  by (induction rs arbitrary: seen) auto

lemma diffPorts_empty: "diffPorts st current staged = [] \<longleftrightarrow> indexPorts current = indexPorts staged"
proof -
  have dom: "dom (indexPorts rs) = prPort ` set rs" for rs by (simp add: indexPorts_def indexPorts_dom)
  have "diffPorts st current staged = [] \<longleftrightarrow>
      (\<forall>r\<in>set staged. indexPorts current (prPort r) = indexPorts staged (prPort r)) \<and>
      (\<forall>r\<in>set current. prPort r \<in> dom (indexPorts staged))"
  proof -
    have "Some (map_get (indexPorts staged) (prPort r)) = indexPorts staged (prPort r)" if "r \<in> set staged" for r
      using dom [of staged] that by (auto simp: map_get_def split: option.splits)
    then show ?thesis
      by (auto simp: diffPorts_def Let_def port_arrivals_empty port_departures_empty)
  qed
  also have "\<dots> \<longleftrightarrow> indexPorts current = indexPorts staged"
  proof
    assume h: "(\<forall>r\<in>set staged. indexPorts current (prPort r) = indexPorts staged (prPort r)) \<and>
      (\<forall>r\<in>set current. prPort r \<in> dom (indexPorts staged))"
    show "indexPorts current = indexPorts staged"
    proof
      fix k
      show "indexPorts current k = indexPorts staged k"
      proof (cases "k \<in> prPort ` set staged")
        case False
        then have "k \<notin> dom (indexPorts staged)" "k \<notin> dom (indexPorts current)" using h dom by auto
        then show ?thesis by (simp add: domIff)
      qed (use h in auto)
    qed
  qed (use dom [of current] in auto)
  finally show ?thesis .
qed

lemma indexPorts_distinct:
  assumes "distinct (map prPort rs)" "r \<in> set rs"
  shows "indexPorts rs (prPort r) = Some (portDetail r)"
proof -
  have "foldl index_port m rs (prPort r) = Some (portDetail r)"
    if "prPort ` set rs \<inter> dom m = {}" for m
    using assms that
  proof (induction rs arbitrary: m)
    case (Cons x xs)
    have keep: "foldl index_port n ys k = n k" if "k \<notin> prPort ` set ys" for n ys k
      using that by (induction ys arbitrary: n) (auto simp: index_port_def split: option.splits)
    show ?case
    proof (cases "r = x")
      case True
      then have "foldl index_port (index_port m x) xs (prPort r) = index_port m x (prPort r)"
        using Cons(2) by (intro keep) auto
      moreover have "index_port m x (prPort x) = Some (portDetail x)"
        using Cons(4) by (auto simp: index_port_def domIff split: option.splits)
      ultimately show ?thesis using True by simp
    next
      case False
      then show ?thesis using Cons by (auto simp: index_port_dom)
    qed
  qed simp
  then show ?thesis by (simp add: indexPorts_def)
qed

lemma first_seen_set: "set (first_seen seen ls) = trim_space ` {l \<in> set ls. \<not> IsListComment l} - set seen"
  by (induction ls arbitrary: seen) (auto simp: Let_def)

lemma diffList_empty:
  "diffList st current staged = [] \<longleftrightarrow>
     trim_space ` {l \<in> set current. \<not> IsListComment l} = trim_space ` {l \<in> set staged. \<not> IsListComment l}"
proof -
  have "diffList st current staged = [] \<longleftrightarrow> set (listEntries current) = set (listEntries staged)"
    by (auto simp: diffList_def filter_empty_conv)
  then show ?thesis by (simp add: listEntries_def first_seen_set)
qed

lemma entry_covers_trim: "entry_covers (trim_space e) a = entry_covers e a"
  by (simp add: entry_covers_def entry_network_def Let_def split: option.splits)

lemma entry_covers_comment: "IsListComment e \<Longrightarrow> \<not> entry_covers e a"
  by (simp add: entry_covers_def entry_network_def)

lemma in_entries_trimmed:
  "in_entries es p \<longleftrightarrow> (\<exists>e\<in>trim_space ` {l \<in> set es. \<not> IsListComment l}. entry_covers e (packet_src p))"
  using entry_covers_comment by (auto simp: in_entries_def entry_covers_trim)

lemma same_list: "diffList st current staged = [] \<Longrightarrow> in_entries current p = in_entries staged p"
  by (simp add: diffList_empty in_entries_trimmed)

section \<open>What a port's detail determines\<close>

lemma join_append: "xs \<noteq> [] \<Longrightarrow> join sep (x # xs) = x @ sep @ join sep xs"
  by (cases xs) simp_all

lemma join_inj:
  assumes "list_all (\<lambda>x. c \<notin> set x) xs" "list_all (\<lambda>x. c \<notin> set x) ys" "xs \<noteq> []" "ys \<noteq> []"
    "join (c # sep) xs = join (c # sep) ys"
  shows "xs = ys"
  using assms
proof (induction xs arbitrary: ys)
  case (Cons x xs)
  obtain y ys' where ys: "ys = y # ys'" using Cons(5) by (cases ys) auto
  have head: "takeWhile (\<lambda>a. a \<noteq> c) (join (c # sep) (z # zs)) = z" if "c \<notin> set z" for z zs
    using that by (cases zs) (auto simp: takeWhile_eq_all_conv takeWhile_append)
  have "x = y"
    using head [of x xs] head [of y ys'] Cons(2,3,6) ys by (simp add: list_all_iff)
  show ?case
  proof (cases "xs = [] \<or> ys' = []")
    case True
    then show ?thesis
      using Cons(6) \<open>x = y\<close> ys by (cases xs; cases ys') auto
  next
    case False
    then have "join (c # sep) xs = join (c # sep) ys'"
      using Cons(6) \<open>x = y\<close> ys by (simp add: join_append)
    with Cons(1) [of ys'] Cons(2,3) False ys \<open>x = y\<close> show ?thesis by simp
  qed
qed simp

definition mark_text :: "port_rule \<Rightarrow> string" where
  "mark_text r = concat (map (\<lambda>m. '' '' @ m) (port_marks r))"

definition source_text :: "port_rule \<Rightarrow> string" where
  "source_text r =
     (if named_sources r = [] then [] else '' '' @ em_dash @ '' from '' @ join '', '' (named_sources r))"

lemma add_marks: "d \<noteq> [] \<Longrightarrow> foldl add_mark d ms = d @ concat (map (\<lambda>m. '' '' @ m) ms)"
  by (induction ms arbitrary: d) (auto simp: add_mark_def)

lemma portDetail_described: "prDescription r \<noteq> [] \<Longrightarrow> portDetail r = prDescription r @ mark_text r @ source_text r"
  by (simp add: portDetail_def Let_def add_marks mark_text_def source_text_def)

lemma portDetail_bare:
  assumes "prDescription r = []"
  shows "portDetail r =
    (if mark_text r \<noteq> [] then tl (mark_text r @ source_text r) else drop 5 (source_text r))"
proof (cases "port_marks r")
  case Nil
  with assms show ?thesis
    by (simp add: portDetail_def mark_text_def source_text_def em_dash_def Let_def)
next
  case (Cons m ms)
  have "m \<noteq> []" using Cons by (auto simp: port_marks_def split: if_splits)
  with Cons assms show ?thesis
    by (simp add: portDetail_def mark_text_def source_text_def Let_def add_mark_def add_marks)
qed

lemma mark_text_cases:
  assumes "port_rule_ok r"
  shows "mark_text r =
    (if prSSH r then '' (ssh)'' else []) @
    (if prScope r = ScopeForwarded then '' (forwarded)'' else if prScope r = ScopeBoth then '' (both)'' else [])"
  using assms
  by (auto simp: mark_text_def port_marks_def port_rule_ok_def ScopeHost_def ScopeForwarded_def ScopeBoth_def)

definition port_same :: "port_rule \<Rightarrow> port_rule \<Rightarrow> bool" where
  "port_same r s \<longleftrightarrow>
     prPort r = prPort s \<and> prSSH r = prSSH s \<and> FiltersHost r = FiltersHost s \<and>
     FiltersForwarded r = FiltersForwarded s \<and> named_sources r = named_sources s"

lemma source_text_shape: "source_text r = [] \<or> (\<exists>u. source_text r = CHR '' '' # CHR 0xE2 # u)"
  by (simp add: source_text_def em_dash_def)

lemma texts_inj:
  assumes ok: "port_rule_ok r" "port_rule_ok s"
    and eq: "mark_text r @ source_text r = mark_text s @ source_text s"
  shows "mark_text r = mark_text s \<and> source_text r = source_text s \<and> prSSH r = prSSH s \<and>
    FiltersHost r = FiltersHost s \<and> FiltersForwarded r = FiltersForwarded s"
  using eq source_text_shape [of r] source_text_shape [of s] ok
  unfolding mark_text_cases [OF ok(1)] mark_text_cases [OF ok(2)]
  by (auto simp: FiltersHost_def FiltersForwarded_def port_rule_ok_def ScopeHost_def ScopeForwarded_def
      ScopeBoth_def split: if_splits)

lemma detail_texts:
  assumes ok: "port_rule_ok r" "port_rule_ok s"
    and d: "prDescription r = prDescription s" and eq: "portDetail r = portDetail s"
  shows "mark_text r @ source_text r = mark_text s @ source_text s"
proof (cases "prDescription r = []")
  case False
  then show ?thesis using eq d by (simp add: portDetail_described)
next
  case True
  have src: "source_text x = [] \<or> (\<exists>v. source_text x = '' '' @ em_dash @ '' f'' @ v)" for x
    by (simp add: source_text_def)
  have mark: "mark_text x = [] \<or> (\<exists>u. mark_text x = CHR '' '' # CHR ''('' # u)" if "port_rule_ok x" for x
    using that by (simp add: mark_text_cases)
  from eq mark [OF ok(1)] mark [OF ok(2)] src [of r] src [of s] show ?thesis
    using True d by (auto simp: portDetail_bare em_dash_def split: if_splits)
qed

text \<open>Sources are addresses and networks, which have no comma in them.\<close>

lemma address_no_comma: "list_all addr_char s \<Longrightarrow> CHR '','' \<notin> set s"
proof -
  have "\<not> addr_char (CHR '','')" by code_simp
  then show "list_all addr_char s \<Longrightarrow> CHR '','' \<notin> set s" by (auto simp: list_all_iff)
qed

lemma ParseCIDR_no_comma: "ParseCIDR s = Some n \<Longrightarrow> CHR '','' \<notin> set s"
proof -
  assume h: "ParseCIDR s = Some n"
  obtain a m f where c: "cut_char (CHR ''/'') s = (a, m, f)" by (metis prod_cases3)
  from h c obtain ip k where f: f and a: "ParseAddr a = Some ip" "azone ip = []" and k: "dtoi m = Some k"
    by (auto simp: ParseCIDR_def Let_def split: if_splits option.splits)
  have "\<not> is_digit (CHR '','')" by code_simp
  then have "CHR '','' \<notin> set m" using k by (auto simp: dtoi_def list_all_iff split: if_splits)
  then show ?thesis using cut_char_cases [OF c] f address_no_comma [OF ParseAddr_addr_chars [OF a]] by simp
qed

lemma named_source_char: "port_rule_ok r \<Longrightarrow> x \<in> set (named_sources r) \<Longrightarrow> CHR '','' \<notin> set x"
proof -
  assume ok: "port_rule_ok r" and "x \<in> set (named_sources r)"
  then obtain s where "\<not> IsListComment s" "x = trim_space s" "s \<in> set (prSources r)"
    by (auto simp: named_sources_def)
  then have "ParseIP x \<noteq> None \<or> ParseCIDR x \<noteq> None"
    using ok by (auto simp: port_rule_ok_def list_all_iff source_ok_def ValidateIPOrCIDR_def split: if_splits)
  then show ?thesis
  proof
    assume "ParseIP x \<noteq> None"
    then have "list_all addr_char x"
      by (auto simp: ParseIP_def split: option.splits if_splits dest: ParseAddr_addr_chars)
    then show ?thesis by (rule address_no_comma)
  qed (use ParseCIDR_no_comma in blast)
qed

lemma portDetail_inj:
  assumes ok: "port_rule_ok r" "port_rule_ok s" and port: "prPort r = prPort s"
    and d: "prDescription r = prDescription s" and eq: "portDetail r = portDetail s"
  shows "port_same r s"
proof -
  note t = texts_inj [OF ok detail_texts [OF ok d eq]]
  have "named_sources r = named_sources s"
  proof (cases "named_sources r = [] \<or> named_sources s = []")
    case True
    then show ?thesis using t by (auto simp: source_text_def split: if_splits)
  next
    case False
    then have "join '', '' (named_sources r) = join '', '' (named_sources s)"
      using t by (simp add: source_text_def)
    with False named_source_char ok show ?thesis
      by (intro join_inj [where c = "CHR '',''" and sep = "'' ''"]) (auto simp: list_all_iff)
  qed
  with t port show ?thesis by (simp add: port_same_def)
qed

section \<open>The same rules for every packet\<close>

text \<open>
  The conditions under which the diff sees everything: a port is listed once, its description is
  the same on both sides, and a source list that is not empty names a source.
\<close>

definition diff_readable :: "port_rule list \<Rightarrow> port_rule list \<Rightarrow> bool" where
  "diff_readable cur st \<longleftrightarrow>
     distinct (map prPort cur) \<and> distinct (map prPort st) \<and>
     (\<forall>r\<in>set (cur @ st). prSources r \<noteq> [] \<longrightarrow> named_sources r \<noteq> []) \<and>
     (\<forall>r\<in>set cur. \<forall>s\<in>set st. prPort r = prPort s \<longrightarrow> prDescription r = prDescription s)"

definition same_ports :: "port_rule list \<Rightarrow> port_rule list \<Rightarrow> bool" where
  "same_ports cur st \<longleftrightarrow>
     (\<forall>r\<in>set cur. \<exists>s\<in>set st. port_same r s \<and> (prSources r = [] \<longleftrightarrow> prSources s = [])) \<and>
     (\<forall>s\<in>set st. \<exists>r\<in>set cur. port_same r s \<and> (prSources r = [] \<longleftrightarrow> prSources s = []))"

lemma empty_diff_same_ports:
  assumes ok: "list_all port_rule_ok cur" "list_all port_rule_ok st" and rd: "diff_readable cur st"
    and eq: "diffPorts n cur st = []"
  shows "same_ports cur st"
proof -
  have idx: "indexPorts cur = indexPorts st" using eq by (simp add: diffPorts_empty)
  have dist: "distinct (map prPort cur)" "distinct (map prPort st)" using rd by (simp_all add: diff_readable_def)
  have pair: "port_same r s \<and> (prSources r = [] \<longleftrightarrow> prSources s = [])"
    if "r \<in> set cur" "s \<in> set st" "prPort r = prPort s" for r s
  proof -
    have "portDetail r = portDetail s"
      using idx indexPorts_distinct [OF dist(1) that(1)] indexPorts_distinct [OF dist(2) that(2)] that(3) by simp
    then have same: "port_same r s"
      using ok rd that by (intro portDetail_inj) (auto simp: list_all_iff diff_readable_def)
    moreover have "prSources x = [] \<longleftrightarrow> named_sources x = []" if "x \<in> set (cur @ st)" for x
      using rd that by (auto simp: diff_readable_def named_sources_def)
    ultimately show ?thesis using that by (auto simp: port_same_def)
  qed
  have dom: "prPort ` set cur = prPort ` set st"
    using idx indexPorts_dom [of Map.empty cur] indexPorts_dom [of Map.empty st] by (simp add: indexPorts_def)
  have "\<exists>s\<in>set st. prPort r = prPort s" if "r \<in> set cur" for r
    using dom that by (metis imageE image_eqI)
  moreover have "\<exists>r\<in>set cur. prPort r = prPort s" if "s \<in> set st" for s
    using dom that by (metis imageE image_eqI)
  ultimately show ?thesis unfolding same_ports_def using pair by blast
qed

lemma in_entries_named: "in_entries (prSources r) p \<longleftrightarrow> (\<exists>e\<in>set (named_sources r). entry_covers e (packet_src p))"
  by (auto simp: in_entries_trimmed named_sources_def)

lemma same_ports_ex:
  assumes "same_ports cur st"
    and "\<And>r s. port_same r s \<Longrightarrow> (prSources r = [] \<longleftrightarrow> prSources s = []) \<Longrightarrow> P r = P s"
  shows "(\<exists>r\<in>set cur. P r) \<longleftrightarrow> (\<exists>s\<in>set st. P s)"
  using assms unfolding same_ports_def by blast

lemma same_ports_open:
  assumes "same_ports cur st"
  shows "ports_open proto cur p = ports_open proto st p"
    and "(\<exists>r\<in>set cur. port_sourced proto r p) = (\<exists>r\<in>set st. port_sourced proto r p)"
proof -
  show "ports_open proto cur p = ports_open proto st p"
    unfolding ports_open_def
    by (rule same_ports_ex [OF assms]) (simp add: port_same_def port_open_def in_entries_named)
  show "(\<exists>r\<in>set cur. port_sourced proto r p) = (\<exists>r\<in>set st. port_sourced proto r p)"
    by (rule same_ports_ex [OF assms]) (simp add: port_same_def port_sourced_def in_entries_named)
qed

lemma same_ssh_ports:
  assumes "same_ports (TCP cur) (TCP st)"
  shows "set (sshMeteredPorts cur) = set (sshMeteredPorts st)"
proof -
  have "prPort ` {r \<in> set (TCP cur). prSSH r \<and> FiltersHost r} = prPort ` {r \<in> set (TCP st). prSSH r \<and> FiltersHost r}"
  proof (rule set_eqI)
    fix x
    have img: "x \<in> prPort ` {r \<in> A. Q r} \<longleftrightarrow> (\<exists>r\<in>A. Q r \<and> prPort r = x)" for A Q by auto
    have "(\<exists>r\<in>set (TCP cur). (prSSH r \<and> FiltersHost r) \<and> prPort r = x) \<longleftrightarrow>
        (\<exists>r\<in>set (TCP st). (prSSH r \<and> FiltersHost r) \<and> prPort r = x)"
      by (rule same_ports_ex [OF assms]) (auto simp: port_same_def)
    then show "x \<in> prPort ` {r \<in> set (TCP cur). prSSH r \<and> FiltersHost r} \<longleftrightarrow>
        x \<in> prPort ` {r \<in> set (TCP st). prSSH r \<and> FiltersHost r}" unfolding img .
  qed
  then have "set (map prPort (filter (\<lambda>r. prSSH r \<and> FiltersHost r) (TCP cur))) =
      set (map prPort (filter (\<lambda>r. prSSH r \<and> FiltersHost r) (TCP st)))" by simp
  moreover from this have "map prPort (filter (\<lambda>r. prSSH r \<and> FiltersHost r) (TCP cur)) = [] \<longleftrightarrow>
      map prPort (filter (\<lambda>r. prSSH r \<and> FiltersHost r) (TCP st)) = []" by (metis set_empty)
  ultimately show ?thesis by (auto simp: sshMeteredPorts_def Let_def)
qed

text \<open>The ids of feeds are words, so their list is compared as it is.\<close>

lemma known_feed_plain: "KnownFeedID fid \<Longrightarrow> list_all plain fid \<and> \<not> IsListComment fid"
proof -
  assume known: "KnownFeedID fid"
  have cat: "list_all (\<lambda>f. list_all plain (cfID f) \<and> \<not> IsListComment (cfID f)) FeedCatalogue" by code_simp
  have own: "list_all (\<lambda>x. list_all plain x \<and> \<not> IsListComment x) (map OwnFeedID [1..<Suc MaxOwnFeeds])" by code_simp
  have cc: "list_all (\<lambda>c. list_all plain (countryFeedPrefix @ c) \<and> \<not> IsListComment (countryFeedPrefix @ c)) CountryCodes"
    by code_simp
  consider "\<exists>f\<in>set FeedCatalogue. cfID f = fid" | "\<exists>c\<in>set CountryCodes. fid = countryFeedPrefix @ c"
    | "fid \<in> set (map OwnFeedID [1..<Suc MaxOwnFeeds])"
  proof -
    have "\<exists>c\<in>set CountryCodes. fid = countryFeedPrefix @ c" if "CountryCode fid \<noteq> None"
      using that has_prefix_iff [of fid countryFeedPrefix] by (auto simp: CountryCode_def split: if_splits)
    then show thesis
      using known that by (auto simp: KnownFeedID_def CatalogueFeedByID_def IsOwnFeedID_def find_None_iff find_Some_iff
          split: option.splits) (metis nth_mem)
  qed
  then show ?thesis using cat own cc by cases (auto simp: list_all_iff)
qed

lemma known_feed_word: "KnownFeedID fid \<Longrightarrow> \<not> IsListComment fid \<and> trim_space fid = fid"
  using known_feed_plain by (simp add: trim_space_plain)

lemma same_feeds:
  assumes "list_all KnownFeedID cur" "list_all KnownFeedID st" "diffFeeds cur st = []"
  shows "set cur = set st"
proof -
  have "trim_space ` {l \<in> set fs. \<not> IsListComment l} = set fs" if "list_all KnownFeedID fs" for fs
    using that known_feed_word by (force simp: list_all_iff)
  with assms show ?thesis by (auto simp: diffFeeds_def diffList_empty)
qed

lemma empty_diff_policy:
  assumes ok: "rules_ok cur" "rules_ok st" and eq: "DiffRules cur st = []"
    and rd: "diff_readable (TCP cur) (TCP st)" "diff_readable (UDP cur) (UDP st)"
  shows "input_policy mg m cur opts v6 cidrs p = input_policy mg m st opts v6 cidrs p"
proof -
  have parts: "diffPorts ''tcp'' (TCP cur) (TCP st) = []" "diffPorts ''udp'' (UDP cur) (UDP st) = []"
    "diffList ''blocklist'' (Blocklist cur) (Blocklist st) = []"
    "diffList ''allowlist'' (Allowlist cur) (Allowlist st) = []" "diffFeeds (Feeds cur) (Feeds st) = []"
    using eq by (simp_all add: DiffRules_def)
  have tcp: "same_ports (TCP cur) (TCP st)" and udp: "same_ports (UDP cur) (UDP st)"
    using ok by (auto intro!: empty_diff_same_ports [OF _ _ rd(1) parts(1)] empty_diff_same_ports [OF _ _ rd(2) parts(2)]
        simp: rules_ok_def)
  have feeds: "set (Feeds cur) = set (Feeds st)" using ok parts(5) by (intro same_feeds) (auto simp: rules_ok_def)
  have "bogon cur cidrs p = bogon st cidrs p"
    using same_list [OF parts(4)] same_ports_open(2) [OF tcp] same_ports_open(2) [OF udp] by (simp add: bogon_def)
  moreover have "ssh_attempt cur p = ssh_attempt st p"
    by (simp add: ssh_attempt_def same_ssh_ports [OF tcp])
  ultimately show ?thesis
    using same_list [OF parts(3)] same_list [OF parts(4)] same_ports_open(1) [OF tcp] same_ports_open(1) [OF udp] feeds
    by (simp add: input_policy_def module_stages_def in_feeds_def)
qed

section \<open>Properties\<close>

text \<open>
  C35. Nothing pending, nothing changes: when the diff of two valid rule sets is empty, the table
  built from the staged rules accepts on its input chain exactly the packets the running one
  does, under any settings, provided a port is listed once, keeps its description, and a source
  list that is not empty names a source.
\<close>

theorem empty_diff_changes_no_packet:
  assumes "ValidateRules cur = None" "ValidateRules st = None" "DiffRules cur st = []"
    "diff_readable (TCP cur) (TCP st)" "diff_readable (UDP cur) (UDP st)"
    "build_batch mg cur opts net feeds detected = Inr (k, running)"
    "build_batch mg st opts net feeds detected = Inr (k', pending)"
    "host_byte_order mg" "wf_packet p"
  shows "chain_accepts (mgNative mg) m p running inputChainName = chain_accepts (mgNative mg) m p pending inputChainName"
  using assms input_chain_exact empty_diff_policy by (simp add: ValidateRules_None)

end
