(* ===== verification/DiffRuns.thy ===== *)
theory DiffRuns
  imports TableRuns Diff
begin

text \<open>The diff on concrete rule sets: where it is complete, and where an empty diff hides a change.\<close>

definition noted_rules :: rules where
  "noted_rules = example_rules\<lparr>Blocklist := [''# from the abuse desk'', ''203.0.113.7'']\<rparr>"

definition noted_batch :: "cmd list" where
  "noted_batch =
     (case build_batch example_manager noted_rules example_options zero_network example_feeds [] of
        Inr (k, batch) \<Rightarrow> batch | Inl _ \<Rightarrow> [])"

lemma noted_built:
  "\<exists>k. build_batch example_manager noted_rules example_options zero_network example_feeds [] =
     Inr (k, noted_batch)"
proof -
  have "case build_batch example_manager noted_rules example_options zero_network example_feeds [] of
     Inr (k, batch) \<Rightarrow> True | Inl _ \<Rightarrow> False"
    by code_simp
  then show ?thesis by (auto simp: noted_batch_def split: sum.splits)
qed

theorem empty_diff_changes_no_packet_witness:
  "DiffRules example_rules noted_rules = [] \<and>
   (\<forall>m a b c d port.
     chain_accepts le32 m (tcp_packet [a, b, c, d] port) example_batch inputChainName =
     chain_accepts le32 m (tcp_packet [a, b, c, d] port) noted_batch inputChainName)"
proof -
  obtain k where b: "build_batch example_manager example_rules example_options zero_network example_feeds [] =
     Inr (k, example_batch)" using example_built by blast
  obtain k' where c: "build_batch example_manager noted_rules example_options zero_network example_feeds [] =
     Inr (k', noted_batch)" using noted_built by blast
  have valid: "ValidateRules noted_rules = None" by code_simp
  have diff: "DiffRules example_rules noted_rules = []" by code_simp
  have rd: "diff_readable (TCP example_rules) (TCP noted_rules)" "diff_readable (UDP example_rules) (UDP noted_rules)"
    by code_simp+
  show ?thesis
    using diff empty_diff_changes_no_packet [OF example_valid valid diff rd b c example_order example_wf]
    by (simp add: example_manager_def)
qed

section \<open>A source list of comments\<close>

definition office_port :: port_rule where
  "office_port = (example_port ''000000000000'' ''22'')\<lparr>prSources := [''# office only'']\<rparr>"

definition office_rules :: rules where
  "office_rules = no_rules\<lparr>TCP := [office_port]\<rparr>"

definition world_rules :: rules where
  "world_rules = no_rules\<lparr>TCP := [office_port\<lparr>prSources := []\<rparr>]\<rparr>"

text \<open>
  An empty diff can open a port to the world: a port whose source list holds only a comment
  is closed to everyone, because the builder finds no usable source; deleting the comment leaves
  an empty list, which is open to everyone.  The diff compares the sources without their comments
  and lists nothing, so the preview is empty and nothing is reported pending.
\<close>

theorem empty_diff_opens_a_port:
  "ValidateRules office_rules = None \<and> ValidateRules world_rules = None \<and>
   DiffRules office_rules world_rules = [] \<and>
   (case build_batch example_manager office_rules zero_options zero_network example_feeds [] of
      Inl _ \<Rightarrow> False
    | Inr (k, batch) \<Rightarrow>
        \<not> chain_accepts le32 quiet_meters (tcp_packet [198, 18, 0, 1] [0, 22]) batch inputChainName) \<and>
   (case build_batch example_manager world_rules zero_options zero_network example_feeds [] of
      Inl _ \<Rightarrow> False
    | Inr (k, batch) \<Rightarrow>
        chain_accepts le32 quiet_meters (tcp_packet [198, 18, 0, 1] [0, 22]) batch inputChainName)"
proof (intro conjI)
  show "ValidateRules office_rules = None" "ValidateRules world_rules = None"
    "DiffRules office_rules world_rules = []" by code_simp+
qed code_simp+

end
