(* ===== verification/FeedCopies.thy ===== *)
theory FeedCopies
  imports FeedKernel Reach NetipText "HOL-Library.AList"
begin

text \<open>
  The core's own copies of the feeds (\<open>internal/core/feedstore.go\<close>): \<open>feeds.json\<close> and the cache in
  front of it.  The file is what \<open>json.Unmarshal\<close> makes of it: absent, not parseable, or records by
  feed id; a read or a write may fail.  The cache holds each record with its prefixes parsed and
  merged.  The lemmas show that cache and file never say different things about a feed, and that
  the lookups over merged ranges answer as a scan of all prefixes would.
\<close>

section \<open>The store\<close>

record stored_feed =
  sfPrefixes :: "string list"
  sfEntries :: int
  sfDropped :: int
  sfChangedAt :: int
  sfCheckedAt :: int

record cached_feed =
  cfRec :: stored_feed
  cfPrefixes :: "pfx list"
  cfRanges4 :: "addr_range list"
  cfRanges6 :: "addr_range list"

definition newCachedFeed :: "stored_feed \<Rightarrow> cached_feed" where
  "newCachedFeed r =
     (let ps = List.map_filter ParsePrefix (sfPrefixes r); (r4, r6) = splitFamilies (mergeRanges ps)
      in \<lparr> cfRec = r\<lparr>sfPrefixes := []\<rparr>, cfPrefixes = ps, cfRanges4 = r4, cfRanges6 = r6 \<rparr>)"

datatype feeds_file = FeedsAbsent | FeedsDamaged | FeedsFile "(string \<times> stored_feed) list"

record feed_store =
  fsFile :: feeds_file
  fsLoaded :: bool
  fsFeeds :: "(string \<times> cached_feed) list"

definition NewFeedStore :: "feeds_file \<Rightarrow> feed_store" where
  "NewFeedStore f = \<lparr> fsFile = f, fsLoaded = False, fsFeeds = [] \<rparr>"

definition file_feeds :: "feeds_file \<Rightarrow> (string \<times> cached_feed) list" where
  "file_feeds f =
     (case f of FeedsFile recs \<Rightarrow> map (\<lambda>(fid, r). (fid, newCachedFeed r)) recs | _ \<Rightarrow> [])"

definition load :: "string option \<Rightarrow> feed_store \<Rightarrow> string option \<times> feed_store" where
  "load rd s =
     (if fsLoaded s then (None, s)
      else (case rd of
              Some e \<Rightarrow> (Some (''read feeds: '' @ e), s)
            | None \<Rightarrow> (None, s\<lparr>fsLoaded := True, fsFeeds := file_feeds (fsFile s)\<rparr>)))"

definition stored_contents :: "(string \<times> cached_feed) list \<Rightarrow> string \<rightharpoonup> pfx list" where
  "stored_contents feeds fid = map_option cfPrefixes (map_of feeds fid)"

definition feedstore_Contents ::
  "string option \<Rightarrow> string list \<Rightarrow> feed_store \<Rightarrow> (string + (string \<rightharpoonup> pfx list)) \<times> feed_store" where
  "feedstore_Contents rd ids s =
     (case load rd s of
        (Some e, s') \<Rightarrow> (Inl e, s')
      | (None, s') \<Rightarrow> (Inr (stored_contents (fsFeeds s') |` set ids), s'))"

definition feedstore_All ::
  "string option \<Rightarrow> feed_store \<Rightarrow> (string + (string \<times> stored_feed) list) \<times> feed_store" where
  "feedstore_All rd s =
     (case load rd s of
        (Some e, s') \<Rightarrow> (Inl e, s')
      | (None, s') \<Rightarrow> (Inr (map (\<lambda>(fid, c). (fid, cfRec c)) (fsFeeds s')), s'))"

definition prefixStrings :: "pfx list \<Rightarrow> string list" where
  "prefixStrings ps = map prefix_string ps"

definition stored_record :: "cached_feed \<Rightarrow> stored_feed" where
  "stored_record c = (cfRec c)\<lparr>sfPrefixes := prefixStrings (cfPrefixes c)\<rparr>"

definition feedstore_Get ::
  "string option \<Rightarrow> string \<Rightarrow> feed_store \<Rightarrow> (string + stored_feed option) \<times> feed_store" where
  "feedstore_Get rd fid s =
     (case load rd s of
        (Some e, s') \<Rightarrow> (Inl e, s')
      | (None, s') \<Rightarrow> (Inr (map_option stored_record (map_of (fsFeeds s') fid)), s'))"

text \<open>\<open>write\<close>: a temporary file and a rename, so a failure leaves the old file.\<close>

definition write_feeds ::
  "string option \<Rightarrow> (string \<times> cached_feed) list \<Rightarrow> feed_store \<Rightarrow> string option \<times> feed_store" where
  "write_feeds wr feeds s =
     (case wr of
        Some e \<Rightarrow> (Some (''write feeds: '' @ e), s)
      | None \<Rightarrow> (None, s\<lparr>fsFile := FeedsFile (map (\<lambda>(fid, c). (fid, stored_record c)) feeds)\<rparr>))"

definition only_checked ::
  "string \<Rightarrow> stored_feed \<Rightarrow> string list \<Rightarrow> (string \<times> cached_feed) list \<Rightarrow> cached_feed option" where
  "only_checked fid f keep feeds =
     (case map_of feeds fid of
        None \<Rightarrow> None
      | Some c \<Rightarrow>
          if sfEntries (cfRec c) = sfEntries f \<and> sfDropped (cfRec c) = sfDropped f \<and>
             sfChangedAt (cfRec c) = sfChangedAt f \<and> prefixStrings (cfPrefixes c) = sfPrefixes f \<and>
             list_all (\<lambda>k. k \<in> set keep) (map fst feeds)
          then Some c else None)"

definition feedstore_Put ::
  "string option \<Rightarrow> string option \<Rightarrow> string \<Rightarrow> stored_feed \<Rightarrow> string list \<Rightarrow> feed_store \<Rightarrow>
   string option \<times> feed_store" where
  "feedstore_Put rd wr fid f keep s =
     (case load rd s of
        (Some e, s') \<Rightarrow> (Some e, s')
      | (None, s') \<Rightarrow>
          (case only_checked fid f keep (fsFeeds s') of
             Some c \<Rightarrow>
               (None, s'\<lparr>fsFeeds :=
                  AList.update fid (c\<lparr>cfRec := (cfRec c)\<lparr>sfCheckedAt := sfCheckedAt f\<rparr>\<rparr>) (fsFeeds s')\<rparr>)
           | None \<Rightarrow>
               let later = filter (\<lambda>(k, _). k \<in> set keep) (AList.update fid (newCachedFeed f) (fsFeeds s'))
               in case write_feeds wr later s' of
                    (Some e, s2) \<Rightarrow> (Some e, s2)
                  | (None, s2) \<Rightarrow> (None, s2\<lparr>fsFeeds := later\<rparr>)))"

section \<open>Lookups\<close>

fun zone_less :: "string \<Rightarrow> string \<Rightarrow> bool" where
  "zone_less s [] = False"
| "zone_less [] (c # cs) = True"
| "zone_less (b # bs) (c # cs) =
     ((of_char b :: nat) < of_char c \<or> b = c \<and> zone_less bs cs)"

text \<open>\<open>Addr.Less\<close>: by width, then value, then zone.\<close>

definition addr_less :: "addr \<Rightarrow> addr \<Rightarrow> bool" where
  "addr_less a b \<longleftrightarrow>
     addr_rank a < addr_rank b \<or> addr_rank a = addr_rank b \<and> zone_less (azone a) (azone b)"

definition overlapsAny :: "addr_range list \<Rightarrow> addr_range \<Rightarrow> bool" where
  "overlapsAny rs r =
     (let i = bsearch (\<lambda>x. addr_less (rgTo x) (rgFrom r)) rs 0 (length rs) in
      i < length rs \<and> \<not> addr_less (rgTo r) (rgFrom (rs ! i)))"

definition cached_family :: "cached_feed \<Rightarrow> addr \<Rightarrow> addr_range list" where
  "cached_family c a = (if Is4 a then cfRanges4 c else cfRanges6 c)"

definition feedstore_Contains :: "string option \<Rightarrow> string \<Rightarrow> addr \<Rightarrow> feed_store \<Rightarrow> bool \<times> feed_store" where
  "feedstore_Contains rd fid a s =
     (let s' = snd (load rd s) in
      (case map_of (fsFeeds s') fid of
         None \<Rightarrow> False
       | Some c \<Rightarrow> IsValid a \<and> overlapsAny (cached_family c a) \<lparr> rgFrom = a, rgTo = a \<rparr>, s'))"

definition overlap_range :: "string \<Rightarrow> addr_range option" where
  "overlap_range entry =
     (let e = trim_space entry in
      case ParseAddr e of
        Some a \<Rightarrow> Some \<lparr> rgFrom = Unmap a, rgTo = Unmap a \<rparr>
      | None \<Rightarrow> map_option (\<lambda>p. \<lparr> rgFrom = paddr p, rgTo = lastAddr p \<rparr>) (ParseNetwork e))"

definition AllowlistOverlap ::
  "string option \<Rightarrow> string \<Rightarrow> string list \<Rightarrow> feed_store \<Rightarrow> nat \<times> feed_store" where
  "AllowlistOverlap rd fid allowlist s =
     (let s' = snd (load rd s) in
      (case map_of (fsFeeds s') fid of
         None \<Rightarrow> 0
       | Some c \<Rightarrow>
           length (filter (\<lambda>e. case overlap_range e of
                                 None \<Rightarrow> False
                               | Some r \<Rightarrow> overlapsAny (cached_family c (rgFrom r)) r) allowlist), s'))"

section \<open>A search over merged ranges\<close>

lemma zone_less_Nil [simp]: "\<not> zone_less [] []" by simp

lemma addr_less_plain: "azone a = [] \<Longrightarrow> azone b = [] \<Longrightarrow> addr_less a b \<longleftrightarrow> addr_rank a < addr_rank b"
  by (simp add: addr_less_def)

lemma overlapsAny_merged:
  assumes "merged rs" "range_ok r"
  shows "overlapsAny rs r \<longleftrightarrow>
    (\<exists>x\<in>set rs. addr_rank (rgFrom r) \<le> addr_rank (rgTo x) \<and> addr_rank (rgFrom x) \<le> addr_rank (rgTo r))"
proof -
  let ?below = "\<lambda>x. addr_less (rgTo x) (rgFrom r)" and ?above = "\<lambda>x. \<not> addr_less (rgTo x) (rgFrom r)"
  have ok: "range_ok x" if "x \<in> set rs" for x using assms(1) that by (auto simp: merged_def list_all_iff)
  have less: "?below x \<longleftrightarrow> addr_rank (rgTo x) < addr_rank (rgFrom r)"
    "addr_less (rgTo r) (rgFrom x) \<longleftrightarrow> addr_rank (rgTo r) < addr_rank (rgFrom x)" if "x \<in> set rs" for x
    using ok [OF that] assms(2) by (auto simp: range_ok_def plain_addr_def addr_less_plain)
  have sorted: "sorted_wrt (\<lambda>x y. addr_rank (rgFrom x) < addr_rank (rgFrom y)) rs"
    by (rule sorted_wrt_mono_rel [of rs apart]) (use assms(1) ok in \<open>auto simp: merged_def intro: apart_from\<close>)
  have "sorted_wrt (\<lambda>x y. ?below y \<longrightarrow> ?below x) rs"
  proof (rule sorted_wrt_mono_rel [of rs apart])
    fix x y
    assume m: "x \<in> set rs" "y \<in> set rs" and ap: "apart x y"
    then show "?below y \<longrightarrow> ?below x"
      using less(1) [OF m(1)] less(1) [OF m(2)] ok [OF m(2)] by (auto simp: apart_def range_ok_def)
  qed (use assms(1) in \<open>simp add: merged_def\<close>)
  from split_partitioned(2) [OF this]
  have drop: "drop (bsearch ?below rs 0 (length rs)) rs = filter ?above rs" .
  define i where "i = bsearch ?below rs 0 (length rs)"
  show ?thesis
  proof (cases "filter ?above rs")
    case Nil
    then have "\<not> i < length rs" using drop by (simp add: i_def)
    moreover have "\<not> addr_rank (rgFrom r) \<le> addr_rank (rgTo x)" if "x \<in> set rs" for x
      using Nil that less(1) [OF that] by (auto simp: filter_empty_conv)
    ultimately show ?thesis by (auto simp: overlapsAny_def i_def [symmetric])
  next
    case (Cons y ys)
    then have "drop i rs = y # ys" using drop by (simp add: i_def)
    then have i: "i < length rs" "rs ! i = y"
      by (metis drop_all leI list.distinct(1), metis hd_drop_conv_nth drop_all leI list.distinct(1) list.sel(1))
    have mem: "set (y # ys) = {x \<in> set rs. ?above x}" unfolding Cons [symmetric] by auto
    then have y: "y \<in> set rs" "?above y" by auto
    have "addr_rank (rgFrom y) \<le> addr_rank (rgFrom x)" if "x \<in> set rs" "?above x" for x
    proof -
      have "sorted_wrt (\<lambda>x y. addr_rank (rgFrom x) < addr_rank (rgFrom y)) (y # ys)"
        using sorted_wrt_filter [OF sorted, of ?above] Cons by simp
      moreover have "x \<in> set (y # ys)" using that by (simp add: mem del: list.set)
      ultimately show ?thesis by auto
    qed
    then show ?thesis
      using i y less by (auto simp: overlapsAny_def i_def [symmetric] not_less intro: order_trans)
  qed
qed

section \<open>What a cached copy holds\<close>

definition pfx_plain :: "pfx \<Rightarrow> bool" where
  "pfx_plain p \<longleftrightarrow> pfx_valid p \<and> azone (paddr p) = []"

definition cached_ok :: "cached_feed \<Rightarrow> bool" where
  "cached_ok c \<longleftrightarrow>
     list_all pfx_plain (cfPrefixes c) \<and> (cfRanges4 c, cfRanges6 c) = splitFamilies (mergeRanges (cfPrefixes c))"

lemma parsed_plain: "ParsePrefix t = Some p \<Longrightarrow> pfx_plain p"
  using ParsePrefix_valid [of t p] by (simp add: pfx_plain_def pfx_valid_def)

lemma newCachedFeed_prefixes: "cfPrefixes (newCachedFeed r) = List.map_filter ParsePrefix (sfPrefixes r)"
  by (simp add: newCachedFeed_def Let_def split: prod.splits)

lemma newCachedFeed_ok: "cached_ok (newCachedFeed r)"
  by (auto simp: cached_ok_def newCachedFeed_def Let_def List.map_filter_def list_all_iff parsed_plain
      split: prod.splits)

lemma cached_overlap:
  assumes "cached_ok c" "range_ok r"
  shows "overlapsAny (cached_family c (rgFrom r)) r \<longleftrightarrow>
    (\<exists>a. plain_addr a \<and> range_holds r a \<and> (\<exists>p\<in>set (cfPrefixes c). Contains p a))"
proof -
  let ?m = "mergeRanges (cfPrefixes c)"
  let ?same = "\<lambda>x. Is4 (rgFrom x) \<longleftrightarrow> Is4 (rgFrom r)"
  have m: "merged ?m" by (rule mergeRanges_correct)
  have fam: "cached_family c (rgFrom r) = filter ?same ?m"
    using assms(1) splitFamilies_merged [OF m] by (auto simp: cached_ok_def cached_family_def)
  have "merged (filter ?same ?m)"
    using m by (auto simp: merged_def list_all_iff intro: sorted_wrt_filter)
  from overlapsAny_merged [OF this assms(2)]
  have "overlapsAny (cached_family c (rgFrom r)) r \<longleftrightarrow> (\<exists>x\<in>set ?m. ?same x \<and>
      addr_rank (rgFrom r) \<le> addr_rank (rgTo x) \<and> addr_rank (rgFrom x) \<le> addr_rank (rgTo r))"
    unfolding fam by auto
  also have "\<dots> \<longleftrightarrow> (\<exists>a. plain_addr a \<and> range_holds r a \<and> holds_any ?m a)"
  proof
    assume "\<exists>x\<in>set ?m. ?same x \<and> addr_rank (rgFrom r) \<le> addr_rank (rgTo x) \<and>
      addr_rank (rgFrom x) \<le> addr_rank (rgTo r)"
    then obtain x where x: "x \<in> set ?m" "addr_rank (rgFrom r) \<le> addr_rank (rgTo x)"
      "addr_rank (rgFrom x) \<le> addr_rank (rgTo r)" by blast
    have ok: "range_ok x" using m x(1) by (auto simp: merged_def list_all_iff)
    show "\<exists>a. plain_addr a \<and> range_holds r a \<and> holds_any ?m a"
    proof (cases "addr_rank (rgFrom r) \<le> addr_rank (rgFrom x)")
      case True
      then show ?thesis
        using x ok by (intro exI [of _ "rgFrom x"]) (auto simp: range_holds_def holds_any_def range_ok_def)
    next
      case False
      then show ?thesis
        using x assms(2)
        by (intro exI [of _ "rgFrom r"]) (auto simp: range_holds_def holds_any_def range_ok_def not_le
            intro!: bexI [of _ x])
    qed
  next
    assume "\<exists>a. plain_addr a \<and> range_holds r a \<and> holds_any ?m a"
    then obtain a x where a: "plain_addr a" "range_holds r a" "x \<in> set ?m" "range_holds x a"
      by (auto simp: holds_any_def)
    have ok: "range_ok x" using m a(3) by (auto simp: merged_def list_all_iff)
    have "?same x"
      using a(2,4) ok assms(2) plain_addr_length [OF a(1)] addr_rank_family [of a]
        addr_rank_family [of "rgFrom x"] addr_rank_family [of "rgTo x"]
        addr_rank_family [of "rgFrom r"] addr_rank_family [of "rgTo r"]
        plain_addr_length [of "rgFrom x"] plain_addr_length [of "rgFrom r"]
      by (auto simp: range_holds_def range_ok_def Is4_def)
    then show "\<exists>x\<in>set ?m. ?same x \<and> addr_rank (rgFrom r) \<le> addr_rank (rgTo x) \<and>
      addr_rank (rgFrom x) \<le> addr_rank (rgTo r)"
      using a by (intro bexI [of _ x]) (auto simp: range_holds_def)
  qed
  also have "\<dots> \<longleftrightarrow> (\<exists>a. plain_addr a \<and> range_holds r a \<and> (\<exists>p\<in>set (cfPrefixes c). Contains p a))"
  proof -
    have "holds_any ?m a \<longleftrightarrow> (\<exists>p\<in>set (cfPrefixes c). Contains p a)" if "plain_addr a" for a
      using mergeRanges_correct(2) [OF that] assms(1) by (auto simp: cached_ok_def list_all_iff pfx_plain_def)
    then show ?thesis by blast
  qed
  finally show ?thesis .
qed

lemma cached_contains:
  assumes "cached_ok c" "plain_addr a"
  shows "overlapsAny (cached_family c a) \<lparr> rgFrom = a, rgTo = a \<rparr> \<longleftrightarrow> (\<exists>p\<in>set (cfPrefixes c). Contains p a)"
proof -
  have "range_holds \<lparr> rgFrom = a, rgTo = a \<rparr> b \<longleftrightarrow> b = a" if "plain_addr b" for b
    using addr_rank_inj [OF that assms(2)] by (auto simp: range_holds_def)
  then show ?thesis
    using cached_overlap [OF assms(1), of "\<lparr> rgFrom = a, rgTo = a \<rparr>"] assms(2) by (auto simp: range_ok_def)
qed

text \<open>The range of an allowlist entry is its network.\<close>

lemma net_ok_valid: "net_ok q \<Longrightarrow> pfx_valid q \<and> Masked q = q"
  by (cases q) (auto simp: net_ok_def pfx_valid_def IsValid_def Is4_def Is6_def Masked_def addr.expand)

lemma lastAddr_host:
  assumes "plain_addr a"
  shows "lastAddr (Prefix a (BitLen a)) = a"
proof -
  have v: "pfx_valid (Prefix a (BitLen a))" using assms by (simp add: pfx_valid_def plain_addr_def)
  have "host_bits (Prefix a (BitLen a)) = 0" by (simp add: host_bits_def BitLen_def)
  then have "be_nat (abytes (lastAddr (Prefix a (BitLen a)))) = be_nat (abytes a)"
    "length (abytes (lastAddr (Prefix a (BitLen a)))) = length (abytes a)"
    "azone (lastAddr (Prefix a (BitLen a))) = []"
    using lastAddr_nat [OF v] by simp_all
  then show ?thesis
    using assms be_nat_inj [of "abytes (lastAddr (Prefix a (BitLen a)))" "abytes a"]
    by (cases a; cases "lastAddr (Prefix a (BitLen a))") (auto simp: plain_addr_def)
qed

lemma ParseAddr_hash: "ParseAddr (CHR ''#'' # t) = None"
proof (rule ccontr)
  assume "ParseAddr (CHR ''#'' # t) \<noteq> None"
  then obtain a where "parse_ipv6 (CHR ''#'' # t) = Some a"
    by (auto simp: ParseAddr_def parse_ipv4_def is_digit_def split: option.splits if_splits)
  moreover obtain s z f where c: "cut_char (CHR ''%'') (CHR ''#'' # t) = (s, z, f)" by (metis prod_cases3)
  moreover from cut_char_cases [OF c] obtain r where "s = CHR ''#'' # r" by (cases s) auto
  ultimately show False
    by (auto simp: parse_ipv6_def has_prefix_def hex_val_def numeral_eq_Suc ipv6_groups.simps
        split: if_splits option.splits)
qed

lemma comment_no_range: "IsListComment e \<Longrightarrow> overlap_range e = None"
proof -
  assume "IsListComment e"
  then consider "trim_space e = []" | t where "trim_space e = CHR ''#'' # t"
    by (cases "trim_space e") (auto simp: IsListComment_def has_prefix_def)
  then show ?thesis
  proof cases
    case 1
    then show ?thesis
      by (simp add: overlap_range_def ParseAddr_def ParseNetwork_def ParseCIDR_def cut_char_def trim_space_def
          trim_left_def)
  next
    case 2
    have "ParseNetwork e = None"
    proof (rule ccontr)
      assume "ParseNetwork e \<noteq> None"
      then obtain n where n: "ParseCIDR (CHR ''#'' # t) = Some n"
        using 2 by (auto simp: ParseNetwork_def split: option.splits)
      obtain a m f where c: "cut_char (CHR ''/'') (CHR ''#'' # t) = (a, m, f)" by (metis prod_cases3)
      from cut_char_cases [OF c] obtain r where "a = CHR ''#'' # r" by (cases a) auto
      with n c show False by (auto simp: ParseCIDR_def ParseAddr_hash split: if_splits option.splits)
    qed
    then have "ParseNetwork (trim_space e) = None" by simp
    with 2 show ?thesis by (simp add: overlap_range_def ParseAddr_hash)
  qed
qed

lemma overlap_range_network:
  assumes "entry_ok e"
  shows "overlap_range e =
    map_option (\<lambda>q. \<lparr> rgFrom = paddr (Masked q), rgTo = lastAddr q \<rparr>) (entry_network e)"
proof (cases "IsListComment e")
  case True
  then show ?thesis by (simp add: comment_no_range entry_network_def)
next
  case False
  then have trim: "trim_space e = e" using entry_ok_trim [OF assms] by simp
  show ?thesis
  proof (cases "ParseIP e")
    case (Some ip)
    from ParseIP_ParseAddr [OF this] obtain x where
      x: "ParseAddr e = Some x" "azone x = []" "Unmap (Addr ip []) = Unmap x" by blast
    have plain: "plain_addr (Unmap x)"
      using ParseAddr_length [OF x(1)] x(2)
      by (auto simp: plain_addr_def Unmap_def Is4In6_def Is6_def IsValid_def Is4_def)
    have "net_ok (Prefix (Unmap x) (BitLen (Unmap x)))"
      using host_network_ok [OF Some] x(3) by simp
    then have "Masked (Prefix (Unmap x) (BitLen (Unmap x))) = Prefix (Unmap x) (BitLen (Unmap x))"
      by (simp add: net_ok_valid)
    with x Some False trim lastAddr_host [OF plain] show ?thesis
      by (simp add: overlap_range_def entry_network_def Let_def)
  next
    case None
    then have "ParseCIDR e \<noteq> None" using assms False by (auto simp: entry_ok_def)
    then have "CHR ''%'' \<notin> set e" by (auto simp: list_all_iff plain_def dest!: ParseCIDR_plain)
    then have "ParseAddr e = None"
      using None ParseAddr_zone by (fastforce simp: ParseIP_def split: option.splits if_splits)
    moreover have "Masked q = q" if "ParseNetwork e = Some q" for q
      using ParseNetwork_ok [OF that] by (simp add: net_ok_valid)
    ultimately show ?thesis
      using None False trim by (cases "ParseNetwork e") (simp_all add: overlap_range_def entry_network_def)
  qed
qed

lemma entry_range:
  assumes "entry_network e = Some q"
  shows "range_ok \<lparr> rgFrom = paddr (Masked q), rgTo = lastAddr q \<rparr>"
    and "plain_addr a \<Longrightarrow> range_holds \<lparr> rgFrom = paddr (Masked q), rgTo = lastAddr q \<rparr> a \<longleftrightarrow> entry_covers e a"
  using net_ok_valid [OF entry_network_ok [OF assms]] prefix_range_ok [of q] prefix_range_holds [of q a] assms
  by (simp_all add: entry_covers_def)

lemma cached_allowlist_overlap:
  assumes "cached_ok c" "entry_ok e"
  shows "(case overlap_range e of None \<Rightarrow> False | Some r \<Rightarrow> overlapsAny (cached_family c (rgFrom r)) r) \<longleftrightarrow>
    (\<exists>a. plain_addr a \<and> entry_covers e a \<and> (\<exists>p\<in>set (cfPrefixes c). Contains p a))"
proof (cases "entry_network e")
  case None
  then show ?thesis using overlap_range_network [OF assms(2)] by (simp add: entry_covers_def)
next
  case (Some q)
  then show ?thesis
    using overlap_range_network [OF assms(2)] cached_overlap [OF assms(1) entry_range(1) [OF Some]]
      entry_range(2) [OF Some] by auto
qed

section \<open>Cache and file\<close>

text \<open>Everything cached came from a record, and once loaded the cache says what the file says.\<close>

definition store_ok :: "feed_store \<Rightarrow> bool" where
  "store_ok s \<longleftrightarrow>
     (\<forall>c\<in>ran (map_of (fsFeeds s)). cached_ok c) \<and>
     (if fsLoaded s then stored_contents (fsFeeds s) = stored_contents (file_feeds (fsFile s))
      else fsFeeds s = [])"

lemma map_of_file_feeds: "map_of (map (\<lambda>(fid, r). (fid, f r)) xs) = map_option f \<circ> map_of xs"
  by (induction xs) auto

lemma map_filter_printed: "list_all pfx_plain ps \<Longrightarrow> List.map_filter ParsePrefix (prefixStrings ps) = ps"
  by (induction ps)
    (auto simp: prefixStrings_def List.map_filter_simps ParsePrefix_string pfx_plain_def pfx_valid_def)

lemma stored_contents_written:
  assumes "\<forall>c\<in>ran (map_of feeds). cached_ok c"
  shows "stored_contents (file_feeds (FeedsFile (map (\<lambda>(fid, c). (fid, stored_record c)) feeds))) =
    stored_contents feeds"
proof (rule ext)
  fix fid
  have "cfPrefixes (newCachedFeed (stored_record c)) = cfPrefixes c" if "map_of feeds fid = Some c" for c
    using assms that
    by (auto simp: newCachedFeed_prefixes stored_record_def map_filter_printed cached_ok_def ran_def)
  then show "stored_contents (file_feeds (FeedsFile (map (\<lambda>(fid, c). (fid, stored_record c)) feeds))) fid =
      stored_contents feeds fid"
    by (cases "map_of feeds fid")
      (simp_all add: stored_contents_def file_feeds_def map_of_file_feeds del: map_map)
qed

lemma NewFeedStore_ok: "store_ok (NewFeedStore f)"
  by (simp add: store_ok_def NewFeedStore_def ran_def)

lemma NewFeedStore_file [simp]: "fsFile (NewFeedStore f) = f"
  by (simp add: NewFeedStore_def)

lemma load_ok: "store_ok s \<Longrightarrow> store_ok (snd (load rd s))"
proof -
  assume s: "store_ok s"
  have "\<forall>c\<in>ran (map_of (file_feeds f)). cached_ok c" for f
    by (auto simp: file_feeds_def ran_def map_of_file_feeds newCachedFeed_ok split: feeds_file.splits)
  with s show ?thesis by (auto simp: load_def store_ok_def split: option.splits)
qed

lemma load_file: "fsFile (snd (load rd s)) = fsFile s"
  by (simp add: load_def split: option.splits)

lemma load_loaded: "load rd s = (None, s') \<Longrightarrow> fsLoaded s'"
  by (auto simp: load_def split: if_splits option.splits)

lemma load_known: "load rd s = (e, s') \<Longrightarrow> s' = snd (load rd s)" by simp

lemma ran_filter: "map_of (filter (\<lambda>(k, _). P k) xs) = (map_of xs) |` {k. P k}"
  by (induction xs) (auto simp: restrict_map_def)

lemma ran_later:
  assumes "\<forall>c\<in>ran (map_of feeds). cached_ok c" "cached_ok d"
  shows "\<forall>c\<in>ran (map_of (filter (\<lambda>(k, _). k \<in> set keep) (AList.update fid d feeds))). cached_ok c"
  using assms by (auto simp: ran_filter ran_def update_conv restrict_map_def split: if_splits)

lemma Put_ok: "store_ok s \<Longrightarrow> store_ok (snd (feedstore_Put rd wr fid f keep s))"
proof -
  assume s: "store_ok s"
  obtain e s' where l: "load rd s = (e, s')" by fastforce
  have s': "store_ok s'" using load_ok [OF s, of rd] l by simp
  show ?thesis
  proof (cases e)
    case (Some x)
    then show ?thesis using l s' by (simp add: feedstore_Put_def)
  next
    case None
    have loaded: "fsLoaded s'" using l None load_loaded by blast
    show ?thesis
    proof (cases "only_checked fid f keep (fsFeeds s')")
      case (Some c)
      then have c: "map_of (fsFeeds s') fid = Some c"
        by (auto simp: only_checked_def split: option.splits if_splits)
      let ?d = "c\<lparr>cfRec := (cfRec c)\<lparr>sfCheckedAt := sfCheckedAt f\<rparr>\<rparr>"
      have "cached_ok c" using s' c by (auto simp: store_ok_def ran_def)
      then have "cached_ok ?d" by (simp add: cached_ok_def)
      moreover have "stored_contents (AList.update fid ?d (fsFeeds s')) = stored_contents (fsFeeds s')"
        using c by (auto simp: stored_contents_def update_conv)
      ultimately show ?thesis
        using s' l None Some loaded by (auto simp: feedstore_Put_def store_ok_def ran_def update_conv split: if_splits)
    next
      case None': None
      let ?later = "filter (\<lambda>(k, _). k \<in> set keep) (AList.update fid (newCachedFeed f) (fsFeeds s'))"
      have ok: "\<forall>c\<in>ran (map_of ?later). cached_ok c"
        using s' newCachedFeed_ok by (intro ran_later) (auto simp: store_ok_def)
      show ?thesis
        using s' l None None' loaded ok stored_contents_written [OF ok]
        by (cases wr) (simp_all add: feedstore_Put_def write_feeds_def store_ok_def Let_def)
    qed
  qed
qed

section \<open>Runs of a store\<close>

datatype feeds_op =
    ReadContents "string list" | ReadAll | ReadGet string | PutFeed string stored_feed "string list"
  | AskContains string addr | AskOverlap string "string list" | RestartStore

fun feeds_step :: "string option \<Rightarrow> string option \<Rightarrow> feeds_op \<Rightarrow> feed_store \<Rightarrow> feed_store" where
  "feeds_step rd wr (ReadContents ids) s = snd (feedstore_Contents rd ids s)"
| "feeds_step rd wr ReadAll s = snd (feedstore_All rd s)"
| "feeds_step rd wr (ReadGet fid) s = snd (feedstore_Get rd fid s)"
| "feeds_step rd wr (PutFeed fid f keep) s = snd (feedstore_Put rd wr fid f keep s)"
| "feeds_step rd wr (AskContains fid a) s = snd (feedstore_Contains rd fid a s)"
| "feeds_step rd wr (AskOverlap fid al) s = snd (AllowlistOverlap rd fid al s)"
| "feeds_step rd wr RestartStore s = NewFeedStore (fsFile s)"

text \<open>Whatever file the store finds and whatever is asked of it, with any read or write failing.\<close>

inductive feeds_reaches :: "feed_store \<Rightarrow> bool" where
  start: "feeds_reaches (NewFeedStore f)"
| step: "feeds_reaches s \<Longrightarrow> feeds_reaches (feeds_step rd wr op s)"

lemma read_states:
  "snd (feedstore_Contents rd ids s) = snd (load rd s)" "snd (feedstore_All rd s) = snd (load rd s)"
  "snd (feedstore_Get rd fid s) = snd (load rd s)" "snd (feedstore_Contains rd fid a s) = snd (load rd s)"
  "snd (AllowlistOverlap rd fid al s) = snd (load rd s)"
  by (auto simp: feedstore_Contents_def feedstore_All_def feedstore_Get_def feedstore_Contains_def
      AllowlistOverlap_def Let_def split: prod.splits option.splits)

lemma feeds_reaches_ok: "feeds_reaches s \<Longrightarrow> store_ok s"
proof (induction rule: feeds_reaches.induct)
  case (step s rd wr op)
  then show ?case by (cases op) (simp_all add: read_states load_ok Put_ok NewFeedStore_ok)
qed (rule NewFeedStore_ok)

lemma load_None: "fst (load None s) = None" "fsLoaded (snd (load None s))"
  by (simp_all add: load_def)

lemma Contents_file:
  assumes "store_ok s"
  shows "fst (feedstore_Contents None ids s) = Inr (stored_contents (file_feeds (fsFile s)) |` set ids)"
proof -
  let ?s = "snd (load None s)"
  have "stored_contents (fsFeeds ?s) = stored_contents (file_feeds (fsFile s))"
    using load_ok [OF assms, of None] load_None [of s] load_file [of None s] by (simp add: store_ok_def)
  moreover have "load None s = (None, ?s)" by (simp add: prod_eq_iff load_None)
  ultimately show ?thesis
    unfolding feedstore_Contents_def by (metis (no_types, lifting) case_prod_conv fst_conv option.simps(4))
qed

lemma Contains_scan:
  assumes "store_ok s" "plain_addr a"
  shows "fst (feedstore_Contains None fid a s) \<longleftrightarrow>
    (\<exists>ps. stored_contents (file_feeds (fsFile s)) fid = Some ps \<and> (\<exists>p\<in>set ps. pfx_valid p \<and> Contains p a))"
proof -
  let ?s = "snd (load None s)"
  have ok: "store_ok ?s" "fsLoaded ?s" "fsFile ?s = fsFile s"
    by (simp_all add: load_ok [OF assms(1)] load_None load_file)
  then have same: "stored_contents (fsFeeds ?s) = stored_contents (file_feeds (fsFile s))"
    by (simp add: store_ok_def)
  show ?thesis
  proof (cases "map_of (fsFeeds ?s) fid")
    case None
    then show ?thesis
      unfolding same [symmetric] by (simp add: feedstore_Contains_def stored_contents_def)
  next
    case (Some c)
    then have c: "cached_ok c" using ok(1) by (auto simp: store_ok_def ran_def)
    then show ?thesis
      unfolding same [symmetric] using Some cached_contains [OF c assms(2)] assms(2)
      by (auto simp: feedstore_Contains_def stored_contents_def cached_ok_def list_all_iff pfx_plain_def
          plain_addr_def)
  qed
qed

section \<open>Properties\<close>

text \<open>
  C12. A restart forgets nothing of a feed: in every state a store reaches, from any file it finds,
  through any sequence of its operations and with any read or write failing, the contents it hands
  to an apply are those a store opened fresh on the file would hand over.  This rests on every
  printed prefix being parsed back as it was, IPv6 with its shortened zeros included.
\<close>

theorem feed_copies_survive_restart:
  assumes "feeds_reaches s"
  shows "fst (feedstore_Contents None ids s) = fst (feedstore_Contents None ids (NewFeedStore (fsFile s)))"
  using Contents_file [OF feeds_reaches_ok [OF assms]] Contents_file [OF NewFeedStore_ok, of ids "fsFile s"]
  by simp

text \<open>
  C11. The lookup the lockout check asks agrees with the kernel: for every store state and every
  packet, one of the enabled feeds is reported to hold the packet's source exactly when the sets an
  apply loads from the same store match the packet.  The lookup is a binary search over merged
  ranges, the kernel's set is built from interval ends; both are compared with the prefixes.
\<close>

theorem feed_lookup_matches_kernel:
  assumes "feeds_reaches s" "fst (feedstore_Contents None (Feeds rs) s) = Inr copies"
    "build_batch mg rs opts net (\<lambda>fid. case copies fid of None \<Rightarrow> [] | Some ps \<Rightarrow> ps) detected = Inr (k, batch)"
    "wf_packet p"
  shows "in_feeds (loaded m batch) (Feeds rs) p \<longleftrightarrow>
    (\<exists>fid\<in>set (Feeds rs). fst (feedstore_Contains None fid (packet_src p) s))"
proof -
  have ok: "store_ok s" by (rule feeds_reaches_ok [OF assms(1)])
  have copies: "copies fid = stored_contents (file_feeds (fsFile s)) fid" if "fid \<in> set (Feeds rs)" for fid
    using assms(2) that by (auto simp: Contents_file [OF ok])
  have "plain_addr (packet_src p)"
    using assms(4) by (auto simp: plain_addr_def wf_packet_def packet_src_def IsValid_def Is4_def Is6_def)
  from Contains_scan [OF ok this]
  have "(\<exists>q\<in>set (case copies fid of None \<Rightarrow> [] | Some ps \<Rightarrow> ps). pfx_valid q \<and> Contains q (packet_src p)) \<longleftrightarrow>
      fst (feedstore_Contains None fid (packet_src p) s)" if "fid \<in> set (Feeds rs)" for fid
    using copies [OF that, symmetric] by (cases "copies fid") auto
  then show ?thesis
    unfolding in_feeds_loaded [OF assms(3,4)] feed_lists_def by (intro bex_cong) simp_all
qed

text \<open>
  The count the interface shows beside a feed: the entries of a valid allowlist that share an
  address with the stored copy.
\<close>

lemma allowlist_overlap_exact:
  assumes "store_ok s" "list_all entry_ok allowlist" "stored_contents (file_feeds (fsFile s)) fid = Some ps"
  shows "fst (AllowlistOverlap None fid allowlist s) =
    length (filter (\<lambda>e. \<exists>a. plain_addr a \<and> entry_covers e a \<and> (\<exists>p\<in>set ps. Contains p a)) allowlist)"
proof -
  let ?s = "snd (load None s)"
  have ok: "store_ok ?s" "fsLoaded ?s" "fsFile ?s = fsFile s"
    by (simp_all add: load_ok [OF assms(1)] load_None load_file)
  then have "stored_contents (fsFeeds ?s) fid = Some ps" using assms(3) by (simp add: store_ok_def)
  then obtain c where c: "map_of (fsFeeds ?s) fid = Some c" "cfPrefixes c = ps"
    by (auto simp: stored_contents_def)
  have "cached_ok c" using ok(1) c(1) by (auto simp: store_ok_def ran_def)
  from cached_allowlist_overlap [OF this]
  have "filter (\<lambda>e. case overlap_range e of None \<Rightarrow> False | Some r \<Rightarrow> overlapsAny (cached_family c (rgFrom r)) r)
      allowlist =
    filter (\<lambda>e. \<exists>a. plain_addr a \<and> entry_covers e a \<and> (\<exists>p\<in>set ps. Contains p a)) allowlist"
    using assms(2) c(2) by (intro filter_cong) (simp_all add: list_all_iff)
  then show ?thesis using c by (simp add: AllowlistOverlap_def)
qed

end
