(* ===== verification/FeedUpdate.thy ===== *)
theory FeedUpdate
  imports FeedCopies Lifecycle "HOL-Library.Char_ord" "HOL-Library.List_Lexorder"
begin

text \<open>
  \<open>UPDATE_FEED\<close> and \<open>GET_FEEDS\<close> (\<open>internal/core/feeds.go\<close>): what the core lets into a feed's copy, the
  whole update with its panic checks, the apply slot, the shrink guard, the kernel load and the
  file, and the report on every feed.  The update is a program over the world of the lifecycle
  together with the feed store, so other goroutines act between its steps as they do in an apply.
\<close>

section \<open>Globally routed space\<close>

text \<open>\<open>netip.MustParsePrefix\<close> of the literals in the source.\<close>

definition v4_pfx :: "byte list \<Rightarrow> nat \<Rightarrow> pfx" where
  "v4_pfx b n = Prefix (Addr b []) n"

definition nonGlobalV4 :: "pfx list" where
  "nonGlobalV4 =
     [v4_pfx [0, 0, 0, 0] 8, v4_pfx [10, 0, 0, 0] 8, v4_pfx [100, 64, 0, 0] 10, v4_pfx [127, 0, 0, 0] 8,
      v4_pfx [169, 254, 0, 0] 16, v4_pfx [172, 16, 0, 0] 12, v4_pfx [192, 168, 0, 0] 16,
      v4_pfx [224, 0, 0, 0] 3]"

definition globalV6 :: pfx where
  "globalV6 = Prefix (Addr [0x20, 0, 0, 0, 0, 0, 0, 0, 0, 0, 0, 0, 0, 0, 0, 0] []) 3"

definition docV6 :: pfx where
  "docV6 = Prefix (Addr [0x20, 0x01, 0x0d, 0xb8, 0, 0, 0, 0, 0, 0, 0, 0, 0, 0, 0, 0] []) 32"

text \<open>\<open>Prefix.Overlaps\<close>.\<close>

definition Overlaps :: "pfx \<Rightarrow> pfx \<Rightarrow> bool" where
  "Overlaps p q \<longleftrightarrow>
     pfx_valid p \<and> pfx_valid q \<and>
     (p = q \<or>
      Is4 (paddr p) = Is4 (paddr q) \<and>
      (let n = min (pbits p) (pbits q) in
       n = 0 \<or> paddr (Masked (Prefix (paddr p) n)) = paddr (Masked (Prefix (paddr q) n))))"

definition isGlobal :: "pfx \<Rightarrow> bool" where
  "isGlobal p =
     (if Is6 (paddr p)
      then pbits globalV6 \<le> pbits p \<and> Contains globalV6 (paddr p) \<and> \<not> Overlaps docV6 p
      else list_all (\<lambda>n. \<not> Overlaps n p) nonGlobalV4)"

definition entirelyNonGlobal :: "pfx \<Rightarrow> bool" where
  "entirelyNonGlobal p =
     (if Is6 (paddr p)
      then \<not> Overlaps globalV6 p \<or> pbits docV6 \<le> pbits p \<and> Contains docV6 (paddr p)
      else list_ex (\<lambda>n. pbits n \<le> pbits p \<and> Contains n (paddr p)) nonGlobalV4)"

text \<open>\<open>None\<close> where the source returns false.\<close>

definition feedPrefix :: "string \<Rightarrow> pfx option" where
  "feedPrefix e =
     (case ParseAddr e of
        Some a \<Rightarrow>
          (let u = Unmap a in if azone u = [] then Some (Prefix u (BitLen u)) else None)
      | None \<Rightarrow>
          (case ParsePrefix e of
             None \<Rightarrow> None
           | Some p \<Rightarrow>
               if Is4In6 (paddr p)
               then (if pbits p < 96 then None
                     else Some (Masked (Prefix (Unmap (paddr p)) (pbits p - 96))))
               else Some (Masked p)))"

section \<open>What a feed may hold\<close>

datatype feed_refusal = TooManyEntries nat | NotAPrefix nat | TooBroad pfx nat nat

text \<open>The loop over the entries: position, prefixes kept so far (the keys of \<open>seen\<close>), dropped so far.\<close>

fun check_entries ::
  "nat \<Rightarrow> nat \<Rightarrow> nat \<Rightarrow> string list \<Rightarrow> pfx list \<Rightarrow> nat \<Rightarrow> feed_refusal + pfx list \<times> nat" where
  "check_entries maxV4 maxV6 i [] kept dropped = Inr (kept, dropped)"
| "check_entries maxV4 maxV6 i (e # es) kept dropped =
     (case feedPrefix (trim_space e) of
        None \<Rightarrow> Inl (NotAPrefix (i + 1))
      | Some p \<Rightarrow>
          if entirelyNonGlobal p then check_entries maxV4 maxV6 (i + 1) es kept (dropped + 1)
          else if Is4 (paddr p) \<and> pbits p < maxV4 \<or> Is6 (paddr p) \<and> pbits p < maxV6
          then Inl (TooBroad p maxV4 maxV6)
          else if \<not> isGlobal p then check_entries maxV4 maxV6 (i + 1) es kept (dropped + 1)
          else check_entries maxV4 maxV6 (i + 1) es (if p \<in> set kept then kept else kept @ [p]) dropped)"

text \<open>The order of \<open>slices.SortFunc\<close>: by address, then by length, which is below 256.\<close>

definition prefix_key :: "pfx \<Rightarrow> nat" where
  "prefix_key p = addr_rank (paddr p) * 256 + pbits p"

definition refusal_text :: "feed_refusal \<Rightarrow> string" where
  "refusal_text r =
     (case r of
        TooManyEntries n \<Rightarrow>
          itoa (int n) @ '' entries; a feed may hold at most '' @ itoa (int FeedMaxEntries)
      | NotAPrefix i \<Rightarrow> ''entry '' @ itoa (int i) @ '' is not an address or a prefix''
      | TooBroad p v4 v6 \<Rightarrow>
          prefix_string p @ '' is broader than /'' @ itoa (int v4) @ '' (IPv4) or /'' @ itoa (int v6) @ '' (IPv6)'')"

definition validateFeedEntries :: "string \<Rightarrow> string list \<Rightarrow> feed_refusal + pfx list \<times> nat" where
  "validateFeedEntries fid entries =
     (if length entries > FeedMaxEntries then Inl (TooManyEntries (length entries))
      else (case check_entries (fst (FeedMaxBits fid)) (snd (FeedMaxBits fid)) 0 entries [] 0 of
              Inl e \<Rightarrow> Inl e
            | Inr (kept, dropped) \<Rightarrow> Inr (sort_key prefix_key kept, dropped)))"

section \<open>The update\<close>

record shrink_watch =
  swSince :: int
  swSeen :: nat

definition shrinkAcceptAfter :: int where "shrinkAcceptAfter = 24 * 3600 * 1000000000"
definition shrinkAcceptSeen :: nat where "shrinkAcceptSeen = 3"

definition shrinks :: "int \<Rightarrow> int \<Rightarrow> bool" where
  "shrinks before after \<longleftrightarrow> after * 100 < before * int FeedShrinkPercent"

definition feedIDs :: "rules_state \<Rightarrow> string list" where
  "feedIDs st =
     foldl (\<lambda>ids fid. if fid \<in> set ids then ids else ids @ [fid]) []
       (concat (map Feeds [Current st, Staged st, Backup st]))"

record update_feed_payload =
  ufID :: string
  ufEntries :: "string list"
  ufNotModified :: bool

record update_feed_result =
  ufBefore :: int
  ufAfter :: int
  ufDropped :: int
  ufChanged :: bool
  ufLoaded :: bool

definition no_update :: update_feed_result where
  "no_update = \<lparr> ufBefore = 0, ufAfter = 0, ufDropped = 0, ufChanged = False, ufLoaded = False \<rparr>"

definition zero_stored :: stored_feed where
  "zero_stored = \<lparr> sfPrefixes = [], sfEntries = 0, sfDropped = 0, sfChangedAt = 0, sfCheckedAt = 0 \<rparr>"

definition ErrFeedShrankText :: string where
  "ErrFeedShrankText = ''feed shrank below 70 % of the stored copy''"

text \<open>\<open>ErrPanicEngaged\<close>, \<open>ErrApplyInProgress\<close>, the error with \<open>ErrFeedShrankText\<close>, any other error.\<close>

datatype feed_error = FeedPanic | FeedBusy | FeedShrank | FeedRefused string

fun feed_error_text :: "feed_error \<Rightarrow> string" where
  "feed_error_text FeedPanic = ''panic mode is engaged''"
| "feed_error_text FeedBusy = ''apply already in progress''"
| "feed_error_text FeedShrank = ErrFeedShrankText"
| "feed_error_text (FeedRefused e) = e"

text \<open>
  The part of \<open>Firewall\<close> an update works on: the world, the feed store, the shrink watches, and the
  last reading of \<open>feedNow\<close>.  The world's own view of the copies follows the file.
\<close>

record feed_world =
  fwWorld :: world
  fwStore :: feed_store
  fwShrink :: "string \<rightharpoonup> shrink_watch"
  fwNow :: int

type_synonym 'a feed_prog = "(feed_world, 'a) state"

definition on_world :: "(world, 'a) state \<Rightarrow> 'a feed_prog" where
  "on_world m = State (\<lambda>s. case run_state m (fwWorld s) of (a, w) \<Rightarrow> (a, s\<lparr>fwWorld := w\<rparr>))"

text \<open>A call of the feed store is one step, beside which the other goroutines act.\<close>

definition on_store :: "env \<Rightarrow> (io_outcome \<Rightarrow> feed_store \<Rightarrow> 'a \<times> feed_store) \<Rightarrow> 'a feed_prog" where
  "on_store env f = State (\<lambda>s.
     let w = fwWorld s; (a, st) = f (io env (tick w)) (fwStore s)
     in (a, s\<lparr>fwStore := st,
              fwWorld := (interfered env w)\<lparr>feedStore := stored_contents (file_feeds (fsFile st)),
                                             tick := Suc (tick w)\<rparr>\<rparr>))"

definition feedNow :: "env \<Rightarrow> int feed_prog" where
  "feedNow env = State (\<lambda>s.
     let w = fwWorld s; now = clock env (tick w)
     in (now, s\<lparr>fwNow := now, fwWorld := (interfered env w)\<lparr>tick := Suc (tick w)\<rparr>\<rparr>))"

definition set_watch :: "string \<Rightarrow> shrink_watch option \<Rightarrow> unit feed_prog" where
  "set_watch fid v = State (\<lambda>s. ((), s\<lparr>fwShrink := (fwShrink s)(fid := v)\<rparr>))"

definition get_watch :: "string \<Rightarrow> shrink_watch feed_prog" where
  "get_watch fid = State (\<lambda>s.
     (case fwShrink s fid of None \<Rightarrow> \<lparr> swSince = 0, swSeen = 0 \<rparr> | Some w \<Rightarrow> w, s))"

definition auditFeedRefused :: "env \<Rightarrow> string \<Rightarrow> string \<Rightarrow> string \<Rightarrow> unit feed_prog" where
  "auditFeedRefused env fid why user =
     on_world (WriteAuditLog env ''feed_refused'' (if fid = [] then why else fid @ '': '' @ why) user)"

text \<open>
  \<open>ReplaceFeedSet\<close> on the kernel: flushing a set that does not exist is an error, a batch the kernel
  takes replaces the feed, and an overflow of the receive buffer is reported although the batch
  may have been taken.
\<close>

definition replace_feed ::
  "flush_outcome \<Rightarrow> string \<Rightarrow> pfx list \<Rightarrow> kernel \<Rightarrow> kernel \<times> string option" where
  "replace_feed fl fid ps k =
     (case k of
        Filtering rs \<Rightarrow>
          if fid \<in> set (Feeds (rsRules rs)) then
            let k' = Filtering (rs\<lparr>rsFeeds := (rsFeeds rs)(fid \<mapsto> ps)\<rparr>) in
            (case fl of
               Flushed \<Rightarrow> (k', None)
             | BuildFails e \<Rightarrow> (k, Some e)
             | Refused e \<Rightarrow> (k, Some e)
             | Overflowed committed e \<Rightarrow> (if committed then k' else k, Some e))
          else (k, Some ''no such file or directory'')
      | _ \<Rightarrow> (k, Some ''no such file or directory''))"

definition load_feed :: "env \<Rightarrow> string \<Rightarrow> pfx list \<Rightarrow> (world, string option) state" where
  "load_feed env fid ps = step env (\<lambda>k w.
     case replace_feed (flush env k) fid ps (kernel w) of (kt, e) \<Rightarrow> (e, w\<lparr>kernel := kt\<rparr>))"

definition refuse :: "string \<Rightarrow> (feed_error option \<times> update_feed_result) feed_prog" where
  "refuse e = State_Monad.return (Some (FeedRefused e), no_update)"

text \<open>A load the kernel refused.\<close>

definition load_refused ::
  "env \<Rightarrow> string \<Rightarrow> string \<Rightarrow> string \<Rightarrow> (feed_error option \<times> update_feed_result) feed_prog" where
  "load_refused env fid e user = do {
     engaged \<leftarrow> on_world (PanicEngaged env);
     if engaged then State_Monad.return (Some FeedPanic, no_update)
     else do {
       auditFeedRefused env fid (''the kernel refused the new copy: '' @ e) user;
       refuse (''load feed '' @ fid @ '': '' @ e)
     }
   }"

text \<open>Steps 7 and 9: the file, the watch and the audit lines, each with the feed it is about; the counts in their texts are presentation.\<close>

definition record_version ::
  "env \<Rightarrow> string \<Rightarrow> stored_feed \<Rightarrow> update_feed_result \<Rightarrow> rules_state \<Rightarrow> shrink_watch option \<Rightarrow> string \<Rightarrow>
   (feed_error option \<times> update_feed_result) feed_prog" where
  "record_version env fid rec' res st taken user = do {
     putErr \<leftarrow> on_store env (\<lambda>o' s. feedstore_Put (read_error o') (write_error o') fid rec' (feedIDs st) s);
     case putErr of
       Some e \<Rightarrow> State_Monad.return (Some (FeedRefused e), res)
     | None \<Rightarrow> do {
         (if taken = None then State_Monad.return ()
          else on_world (WriteAuditLog env ''feed_shrink_accepted'' fid user));
         set_watch fid None;
         (if ufChanged res then on_world (WriteAuditLog env ''feed_updated'' fid user)
          else State_Monad.return ());
         State_Monad.return (None, res)
       }
   }"

text \<open>Step 8 comes before step 7: the kernel first, the file second.\<close>

definition store_version ::
  "env \<Rightarrow> string \<Rightarrow> pfx list \<Rightarrow> nat \<Rightarrow> stored_feed option \<Rightarrow> bool \<Rightarrow> rules_state \<Rightarrow> shrink_watch option \<Rightarrow>
   int \<Rightarrow> string \<Rightarrow> (feed_error option \<times> update_feed_result) feed_prog" where
  "store_version env fid kept dropped old inCurrent st taken now user =
     (let texts = prefixStrings kept;
          stored = (case old of None \<Rightarrow> zero_stored | Some r \<Rightarrow> r);
          changed = (old = None \<or> sfPrefixes stored \<noteq> texts);
          rec' = \<lparr> sfPrefixes = texts, sfEntries = int (length kept), sfDropped = int dropped,
                   sfChangedAt = (if changed then now else sfChangedAt stored), sfCheckedAt = now \<rparr>;
          res = \<lparr> ufBefore = sfEntries stored, ufAfter = int (length kept), ufDropped = int dropped,
                  ufChanged = changed, ufLoaded = inCurrent \<rparr>
      in if inCurrent then do {
           loadErr \<leftarrow> on_world (load_feed env fid kept);
           case loadErr of
             Some e \<Rightarrow> load_refused env fid e user
           | None \<Rightarrow> record_version env fid rec' res st taken user
         }
         else record_version env fid rec' res st taken user)"

text \<open>Step 6: the shrink guard on the copy the kernel runs; \<open>Some\<close> of a watch when a day and three fetches have passed.\<close>

definition shrink_guard ::
  "env \<Rightarrow> string \<Rightarrow> nat \<Rightarrow> stored_feed \<Rightarrow> int \<Rightarrow> string \<Rightarrow> (bool \<times> shrink_watch option) feed_prog" where
  "shrink_guard env fid count stored now user = do {
     w0 \<leftarrow> get_watch fid;
     let w = \<lparr> swSince = (if swSeen w0 = 0 then now else swSince w0), swSeen = swSeen w0 + 1 \<rparr>;
     if swSeen w < shrinkAcceptSeen \<or> now - swSince w < shrinkAcceptAfter then do {
       set_watch fid (Some w);
       auditFeedRefused env fid 
         (itoa (int count) @ '' entries is under '' @ itoa (int FeedShrinkPercent) @ '' % of the '' @
          itoa (sfEntries stored) @ '' stored'') user;
       State_Monad.return (False, None)
     }
     else State_Monad.return (True, Some w)
   }"

definition take_version ::
  "env \<Rightarrow> string \<Rightarrow> feed_refusal + pfx list \<times> nat \<Rightarrow> stored_feed option \<Rightarrow> bool \<Rightarrow> rules_state \<Rightarrow> int \<Rightarrow> string \<Rightarrow>
   (feed_error option \<times> update_feed_result) feed_prog" where
  "take_version env fid checked old inCurrent st now user =
     (case checked of
        Inl r \<Rightarrow> do {
          auditFeedRefused env fid (refusal_text r) user;
          refuse (''feed '' @ fid @ '' refused: '' @ refusal_text r)
        }
      | Inr (kept, dropped) \<Rightarrow>
          if kept = [] then
            let why = ''no entry is globally routable ('' @ itoa (int dropped) @ '' dropped)'' in do {
            auditFeedRefused env fid why user;
            refuse (''feed '' @ fid @ '' refused: '' @ why)
          }
          else (case old of
            Some stored \<Rightarrow>
              if inCurrent \<and> \<not> IsCountryFeedID fid \<and> shrinks (sfEntries stored) (int (length kept)) then do {
                (go, taken) \<leftarrow> shrink_guard env fid (length kept) stored now user;
                if \<not> go then State_Monad.return (Some FeedShrank, no_update)
                else store_version env fid kept dropped old inCurrent st taken now user
              }
              else store_version env fid kept dropped old inCurrent st None now user
          | None \<Rightarrow> store_version env fid kept dropped old inCurrent st None now user))"

text \<open>A 304: \<open>checked_at\<close> moves and nothing else.\<close>

definition confirm_version ::
  "env \<Rightarrow> string \<Rightarrow> stored_feed option \<Rightarrow> rules_state \<Rightarrow> int \<Rightarrow> (feed_error option \<times> update_feed_result) feed_prog" where
  "confirm_version env fid old st now =
     (case old of
        None \<Rightarrow> refuse (''feed '' @ fid @ '' has no stored copy for a 304 to confirm'')
      | Some stored \<Rightarrow> do {
          set_watch fid None;
          err \<leftarrow> on_store env (\<lambda>o' s.
            feedstore_Put (read_error o') (write_error o') fid (stored\<lparr>sfCheckedAt := now\<rparr>) (feedIDs st) s);
          State_Monad.return (map_option FeedRefused err,
            \<lparr> ufBefore = sfEntries stored, ufAfter = sfEntries stored, ufDropped = sfDropped stored,
               ufChanged = False, ufLoaded = False \<rparr>)
        })"

definition update_locked ::
  "env \<Rightarrow> update_feed_payload \<Rightarrow> feed_refusal + pfx list \<times> nat \<Rightarrow> string \<Rightarrow>
   (feed_error option \<times> update_feed_result) feed_prog" where
  "update_locked env p checked user = do {
     engaged \<leftarrow> on_world (PanicEngaged env);
     if engaged then State_Monad.return (Some FeedPanic, no_update)
     else if \<not> KnownFeedID (ufID p) then do {
       auditFeedRefused env [] ''an id that is not a feed'' user;
       refuse ''not a feed id''
     }
     else do {
       state \<leftarrow> on_world (GetState env);
       case state of
         Inl e \<Rightarrow> refuse (''get rules: '' @ e)
       | Inr st \<Rightarrow>
           let inCurrent = (ufID p \<in> set (Feeds (Current st))) in
           if \<not> inCurrent \<and> ufID p \<notin> set (Feeds (Staged st))
           then refuse (''feed '' @ ufID p @ '' is not switched on'')
           else do {
             got \<leftarrow> on_store env (\<lambda>o' s. feedstore_Get (read_error o') (ufID p) s);
             case got of
               Inl e \<Rightarrow> refuse e
             | Inr old \<Rightarrow> do {
                 now \<leftarrow> feedNow env;
                 if ufNotModified p then confirm_version env (ufID p) old st now
                 else take_version env (ufID p) checked old inCurrent st now user
               }
           }
     }
   }"

definition UpdateFeed ::
  "env \<Rightarrow> update_feed_payload \<Rightarrow> string \<Rightarrow> (feed_error option \<times> update_feed_result) feed_prog" where
  "UpdateFeed env p user = do {
     engaged \<leftarrow> on_world (PanicEngaged env);
     if engaged then State_Monad.return (Some FeedPanic, no_update)
     else do {
       let checked = (if ufNotModified p then Inr ([], 0) else validateFeedEntries (ufID p) (ufEntries p));
       ok \<leftarrow> on_world (beginApply env);
       if \<not> ok then State_Monad.return (Some FeedBusy, no_update)
       else do {
         r \<leftarrow> update_locked env p checked user;
         on_world (endApply env);
         State_Monad.return r
       }
     }
   }"

section \<open>The report (\<open>GET_FEEDS\<close>)\<close>

record feed_status =
  fstID :: string
  fstStored :: bool
  fstEntries :: int
  fstDropped :: int
  fstChangedAt :: int
  fstCheckedAt :: int
  fstInKernel :: bool
  fstPackets :: "64 word"
  fstCountersRead :: bool
  fstAllowlistOverlap :: nat
  fstContainsAddr :: bool

definition zero_addr :: addr where "zero_addr = Addr [] []"

definition feed_status_of ::
  "env \<Rightarrow> rules_state \<Rightarrow> (string \<times> stored_feed) list \<Rightarrow> string + (string \<rightharpoonup> rule_counter) \<Rightarrow> addr \<Rightarrow> string \<Rightarrow>
   feed_status feed_prog" where
  "feed_status_of env st stored cnt a fid = do {
     overlap \<leftarrow> on_store env (\<lambda>o' s. AllowlistOverlap (read_error o') fid (Allowlist (Staged st)) s);
     holds \<leftarrow> on_store env (\<lambda>o' s. feedstore_Contains (read_error o') fid a s);
     let r = (case map_of stored fid of None \<Rightarrow> zero_stored | Some r \<Rightarrow> r);
     State_Monad.return
       \<lparr> fstID = fid, fstStored = (map_of stored fid \<noteq> None), fstEntries = sfEntries r,
          fstDropped = sfDropped r, fstChangedAt = sfChangedAt r, fstCheckedAt = sfCheckedAt r,
          fstInKernel = (fid \<in> set (Feeds (Current st))),
          fstPackets = (case cnt of
                          Inl _ \<Rightarrow> 0
                        | Inr m \<Rightarrow> (case m (feedCounterID fid) of None \<Rightarrow> 0 | Some c \<Rightarrow> rcPackets c)),
          fstCountersRead = (case cnt of Inl _ \<Rightarrow> False | Inr _ \<Rightarrow> True),
          fstAllowlistOverlap = overlap, fstContainsAddr = holds \<rparr>
   }"

fun feed_statuses ::
  "env \<Rightarrow> rules_state \<Rightarrow> (string \<times> stored_feed) list \<Rightarrow> string + (string \<rightharpoonup> rule_counter) \<Rightarrow> addr \<Rightarrow> string list \<Rightarrow>
   feed_status list feed_prog" where
  "feed_statuses env st stored cnt a [] = State_Monad.return []"
| "feed_statuses env st stored cnt a (fid # ids) = do {
     x \<leftarrow> feed_status_of env st stored cnt a fid;
     xs \<leftarrow> feed_statuses env st stored cnt a ids;
     State_Monad.return (x # xs)
   }"

definition report_addr :: "string \<Rightarrow> addr option" where
  "report_addr t =
     (if t = [] then Some zero_addr else map_option (\<lambda>a. WithZone (Unmap a) []) (ParseAddr t))"

definition Feeds_report :: "env \<Rightarrow> string \<Rightarrow> (string + feed_status list) feed_prog" where
  "Feeds_report env t =
     (case report_addr t of
        None \<Rightarrow> State_Monad.return (Inl ''invalid address'')
      | Some a \<Rightarrow> do {
          state \<leftarrow> on_world (GetState env);
          case state of
            Inl e \<Rightarrow> State_Monad.return (Inl (''get rules: '' @ e))
          | Inr st \<Rightarrow> do {
              all \<leftarrow> on_store env (\<lambda>o' s. feedstore_All (read_error o') s);
              case all of
                Inl e \<Rightarrow> State_Monad.return (Inl e)
              | Inr stored \<Rightarrow> do {
                  cnt \<leftarrow> on_world (RuleCounters env);
                  xs \<leftarrow> feed_statuses env st stored cnt a
                    (remdups_adj (sort (Feeds (Current st) @ Feeds (Staged st) @ map fst stored)));
                  State_Monad.return (Inr xs)
                }
            }
        })"

section \<open>Weakest preconditions of the steps\<close>

lemma wp_on_world [wp_simps]: "wp (on_world m) Q s = wp m (\<lambda>a w. Q a (s\<lparr>fwWorld := w\<rparr>)) (fwWorld s)"
  by (simp add: wp_def on_world_def split: prod.splits)

lemma wp_get_watch [wp_simps]:
  "wp (get_watch fid) Q s = Q (case fwShrink s fid of None \<Rightarrow> \<lparr> swSince = 0, swSeen = 0 \<rparr> | Some w \<Rightarrow> w) s"
  by (simp add: wp_def get_watch_def)

lemma wp_set_watch [wp_simps]: "wp (set_watch fid v) Q s = Q () (s\<lparr>fwShrink := (fwShrink s)(fid := v)\<rparr>)"
  by (simp add: wp_def set_watch_def)

lemma wp_feedNow [wp_simps]:
  "wp (feedNow env) Q s = Q (clock env (tick (fwWorld s))) (s\<lparr>fwNow := clock env (tick (fwWorld s)),
     fwWorld := (interfered env (fwWorld s))\<lparr>tick := Suc (tick (fwWorld s))\<rparr>\<rparr>)"
  by (simp add: wp_def feedNow_def Let_def)

lemma wp_on_store [wp_simps]:
  "wp (on_store env f) Q s = (case f (io env (tick (fwWorld s))) (fwStore s) of (a, st) \<Rightarrow>
     Q a (s\<lparr>fwStore := st, fwWorld := (interfered env (fwWorld s))
       \<lparr>feedStore := stored_contents (file_feeds (fsFile st)), tick := Suc (tick (fwWorld s))\<rparr>\<rparr>))"
  by (simp add: wp_def on_store_def Let_def split: prod.splits)

end
