(* ===== verification/FeedSafety.thy ===== *)
theory FeedSafety
  imports FeedUpdate
begin

text \<open>
  What \<open>UPDATE_FEED\<close> guarantees: a feed never holds an address outside globally routed space, a
  refused update changes neither the kernel nor the file, and a live list shrinks below its guard
  only after a day of refusals.
\<close>

section \<open>Prefixes that share an address\<close>

lemma Contains_self: "pfx_valid p \<Longrightarrow> azone (paddr p) = [] \<Longrightarrow> Contains p (paddr p)"
  by (simp add: Contains_def pfx_valid_def)

lemma Contains_plain: "Contains p a \<Longrightarrow> plain_addr a"
  by (simp add: Contains_def plain_addr_def)

lemma host_bits_mono: "n \<le> pbits p \<Longrightarrow> host_bits p \<le> host_bits (Prefix (paddr p) n)"
  by (simp add: host_bits_def)

lemma div_coarser: "(x :: nat) div 2 ^ h = y div 2 ^ h \<Longrightarrow> h \<le> k \<Longrightarrow> x div 2 ^ k = y div 2 ^ k"
proof -
  assume e: "x div 2 ^ h = y div 2 ^ h" and "h \<le> k"
  then have "(2 :: nat) ^ k = 2 ^ h * 2 ^ (k - h)" by (simp flip: power_add)
  with e show ?thesis by (simp add: div_mult2_eq)
qed

lemma Contains_wider:
  assumes "Contains p a" "pfx_valid p" "n \<le> pbits p"
  shows "Contains (Prefix (paddr p) n) a"
proof -
  have v: "pfx_valid (Prefix (paddr p) n)" using assms(2,3) by (simp add: pfx_valid_def)
  note plain = Contains_plain [OF assms(1)]
  from assms(1) Contains_nat [OF assms(2) plain]
  have l: "length (abytes a) = length (abytes (paddr p))"
    and d: "be_nat (abytes a) div 2 ^ host_bits p = be_nat (abytes (paddr p)) div 2 ^ host_bits p" by simp_all
  show ?thesis
    unfolding Contains_nat [OF v plain]
    using l div_coarser [OF d host_bits_mono [OF assms(3)]] by simp
qed

lemma Contains_masked:
  assumes "pfx_valid p"
  shows "Contains p a \<longleftrightarrow> plain_addr a \<and> length (abytes a) = length (abytes (paddr p)) \<and>
    paddr (Masked (Prefix a (pbits p))) = paddr (Masked p)"
  by (auto simp: Contains_def plain_addr_def Masked_def)

lemma Overlaps_common:
  assumes "pfx_valid p" "pfx_valid q" "Contains p a" "Contains q a"
  shows "Overlaps p q"
proof -
  let ?n = "min (pbits p) (pbits q)"
  have v: "pfx_valid (Prefix (paddr p) ?n)" "pfx_valid (Prefix (paddr q) ?n)"
    using assms(1,2) by (auto simp: pfx_valid_def min_def)
  have c: "Contains (Prefix (paddr p) ?n) a" "Contains (Prefix (paddr q) ?n) a"
    using Contains_wider [OF assms(3,1), of ?n] Contains_wider [OF assms(4,2), of ?n] by simp_all
  from c [unfolded Contains_masked [OF v(1)] Contains_masked [OF v(2)]]
  have "paddr (Masked (Prefix (paddr p) ?n)) = paddr (Masked (Prefix (paddr q) ?n))"
    "Is4 (paddr p) = Is4 (paddr q)"
    by (auto simp: Is4_def)
  with assms(1,2) show ?thesis by (simp add: Overlaps_def Let_def)
qed

lemma Contains_inside:
  assumes "pfx_valid q" "pfx_valid p" "pbits q \<le> pbits p" "Contains q (paddr p)" "Contains p a"
  shows "Contains q a"
proof -
  have v: "pfx_valid (Prefix (paddr p) (pbits q))" using assms(2,3) by (simp add: pfx_valid_def)
  have "Contains (Prefix (paddr p) (pbits q)) a" by (rule Contains_wider [OF assms(5,2,3)])
  with assms(4) Contains_masked [OF v] Contains_masked [OF assms(1)] show ?thesis by simp
qed

section \<open>Only global addresses\<close>

definition global_addr :: "addr \<Rightarrow> bool" where
  "global_addr a \<longleftrightarrow>
     (if Is4 a then \<not> (\<exists>n\<in>set nonGlobalV4. Contains n a)
      else Contains globalV6 a \<and> \<not> Contains docV6 a)"

definition holds_global :: "pfx list \<Rightarrow> bool" where
  "holds_global ps \<longleftrightarrow> (\<forall>p\<in>set ps. \<forall>a. Contains p a \<longrightarrow> global_addr a)"

lemma ranges_valid: "n \<in> set nonGlobalV4 \<Longrightarrow> pfx_valid n \<and> Is4 (paddr n)" "pfx_valid globalV6" "pfx_valid docV6"
  by (auto simp: nonGlobalV4_def v4_pfx_def globalV6_def docV6_def pfx_valid_def IsValid_def Is4_def Is6_def
      BitLen_def)

lemma isGlobal_holds:
  assumes "pfx_valid p" "isGlobal p" "Contains p a"
  shows "global_addr a"
proof (cases "Is6 (paddr p)")
  case True
  then have "\<not> Is4 a" using assms(3) by (simp add: Contains_def Is6_def Is4_def)
  moreover have "Contains globalV6 a"
    using Contains_inside [OF ranges_valid(2) assms(1) _ _ assms(3)] assms(2) True by (simp add: isGlobal_def)
  moreover have "\<not> Contains docV6 a"
    using Overlaps_common [OF ranges_valid(3) assms(1) _ assms(3)] assms(2) True by (auto simp: isGlobal_def)
  ultimately show ?thesis by (simp add: global_addr_def)
next
  case False
  then have "Is4 a"
    using assms(1,3) by (auto simp: Contains_def pfx_valid_def IsValid_def Is6_def Is4_def)
  moreover have "\<not> Contains n a" if "n \<in> set nonGlobalV4" for n
    using Overlaps_common [OF conjunct1 [OF ranges_valid(1) [OF that]] assms(1) _ assms(3)] assms(2) False that
    by (auto simp: isGlobal_def list_all_iff)
  ultimately show ?thesis by (auto simp: global_addr_def)
qed

lemma isGlobal_not_entirely: "pfx_plain p \<Longrightarrow> isGlobal p \<Longrightarrow> \<not> entirelyNonGlobal p"
  using Overlaps_common [OF ranges_valid(2), of p "paddr p"] Contains_self [of p]
    Overlaps_common [OF ranges_valid(3), of p "paddr p"]
    Overlaps_common [OF conjunct1 [OF ranges_valid(1)], of _ p "paddr p"]
  by (auto simp: isGlobal_def entirelyNonGlobal_def pfx_plain_def list_all_iff list_ex_iff)

lemma Masked_plain: "pfx_valid p \<Longrightarrow> pfx_plain (Masked p)"
  using Masked_nat(2,3) [of p] by (cases p) (auto simp: pfx_plain_def pfx_valid_def IsValid_def Is4_def Is6_def BitLen_def Masked_def)

lemma Unmap_valid: "IsValid a \<Longrightarrow> IsValid (Unmap a)"
  by (auto simp: Unmap_def IsValid_def Is4In6_def Is4_def Is6_def)

lemma feedPrefix_plain: "feedPrefix e = Some p \<Longrightarrow> pfx_plain p"
proof -
  assume h: "feedPrefix e = Some p"
  show ?thesis
  proof (cases "ParseAddr e")
    case (Some a)
    then show ?thesis
      using h Unmap_valid [OF ParseAddr_valid [OF Some]]
      by (auto simp: feedPrefix_def Let_def pfx_plain_def pfx_valid_def split: if_splits)
  next
    case None
    with h obtain q where q: "ParsePrefix e = Some q" by (auto simp: feedPrefix_def split: option.splits)
    then have v: "pfx_valid q" using parsed_plain by (simp add: pfx_plain_def)
    have "pfx_valid (Prefix (Unmap (paddr q)) (pbits q - 96))" if "Is4In6 (paddr q)"
      using v that by (auto simp: pfx_valid_def Unmap_valid Unmap_def Is4In6_def Is6_def BitLen_def IsValid_def Is4_def)
    then show ?thesis
      using h None q v Masked_plain by (auto simp: feedPrefix_def split: if_splits)
  qed
qed

section \<open>What is kept\<close>

definition entry_kept :: "string \<Rightarrow> pfx \<Rightarrow> bool" where
  "entry_kept e p \<longleftrightarrow> feedPrefix (trim_space e) = Some p \<and> isGlobal p"

definition entry_dropped :: "string \<Rightarrow> bool" where
  "entry_dropped e \<longleftrightarrow> (case feedPrefix (trim_space e) of None \<Rightarrow> False | Some p \<Rightarrow> \<not> isGlobal p)"

lemma check_entries_exact:
  assumes "check_entries v4 v6 i es kept dropped = Inr (ks, d)" "distinct kept"
  shows "distinct ks \<and> set ks = set kept \<union> {p. \<exists>e\<in>set es. entry_kept e p} \<and>
    d = dropped + length (filter entry_dropped es) \<and>
    (\<forall>e\<in>set es. \<exists>p. feedPrefix (trim_space e) = Some p \<and>
       (isGlobal p \<longrightarrow> (if Is4 (paddr p) then v4 else v6) \<le> pbits p))"
  using assms
proof (induction v4 v6 i es kept dropped arbitrary: ks d rule: check_entries.induct)
  case (2 v4 v6 i e es kept dropped)
  from 2(4) obtain p where p: "feedPrefix (trim_space e) = Some p"
    by (cases "feedPrefix (trim_space e)") simp_all
  note plain = feedPrefix_plain [OF p]
  have e: "entry_kept e q \<longleftrightarrow> isGlobal p \<and> q = p" "entry_dropped e \<longleftrightarrow> \<not> isGlobal p" for q
    by (auto simp: entry_kept_def entry_dropped_def p)
  have ex: "{q. \<exists>x\<in>set (e # es). entry_kept x q} =
      (if isGlobal p then {p} else {}) \<union> {q. \<exists>x\<in>set es. entry_kept x q}"
    by (auto simp: e)
  let ?checked = "\<lambda>x. \<exists>p. feedPrefix (trim_space x) = Some p \<and>
       (isGlobal p \<longrightarrow> (if Is4 (paddr p) then v4 else v6) \<le> pbits p)"
  show ?case
  proof (cases "isGlobal p")
    case True
    then have ne: "\<not> entirelyNonGlobal p" using isGlobal_not_entirely plain by blast
    with 2(4) True p have b: "\<not> (Is4 (paddr p) \<and> pbits p < v4 \<or> Is6 (paddr p) \<and> pbits p < v6)"
      by (auto split: if_splits)
    let ?k = "if p \<in> set kept then kept else kept @ [p]"
    have "check_entries v4 v6 (i + 1) es ?k dropped = Inr (ks, d)" using 2(4) p True ne b by simp
    from 2(3) [OF p ne b _ this] True 2(5) have
      "distinct ks" "set ks = set ?k \<union> {q. \<exists>x\<in>set es. entry_kept x q}"
      "d = dropped + length (filter entry_dropped es)" "\<forall>x\<in>set es. ?checked x"
      by simp_all
    moreover have "?checked e"
      using b plain p by (auto simp: pfx_plain_def pfx_valid_def IsValid_def)
    ultimately show ?thesis unfolding ex using True by (simp add: e insert_absorb)
  next
    case False
    have "check_entries v4 v6 (i + 1) es kept (dropped + 1) = Inr (ks, d)"
      using 2(4) p False by (auto split: if_splits)
    moreover have "\<not> entirelyNonGlobal p \<Longrightarrow> \<not> (Is4 (paddr p) \<and> pbits p < v4 \<or> Is6 (paddr p) \<and> pbits p < v6)"
      using 2(4) p by (auto split: if_splits)
    ultimately have "distinct ks" "set ks = set kept \<union> {q. \<exists>x\<in>set es. entry_kept x q}"
      "d = dropped + 1 + length (filter entry_dropped es)" "\<forall>x\<in>set es. ?checked x"
      using 2(1) [OF p] 2(2) [OF p] 2(5) False by (cases "entirelyNonGlobal p"; simp)+
    moreover have "?checked e" using p False by simp
    ultimately show ?thesis unfolding ex using False by (simp add: e)
  qed
qed simp

lemma validated_kept:
  assumes "validateFeedEntries fid es = Inr (kept, dropped)"
  shows "length es \<le> FeedMaxEntries" "distinct kept" "sorted (map prefix_key kept)"
    "set kept = {p. \<exists>e\<in>set es. entry_kept e p}" "dropped = length (filter entry_dropped es)"
    "list_all pfx_plain kept" "holds_global kept"
    "p \<in> set kept \<Longrightarrow> (if Is4 (paddr p) then fst (FeedMaxBits fid) else snd (FeedMaxBits fid)) \<le> pbits p"
proof -
  obtain ks where c: "check_entries (fst (FeedMaxBits fid)) (snd (FeedMaxBits fid)) 0 es [] 0 = Inr (ks, dropped)"
    and k: "kept = sort_key prefix_key ks" and l: "length es \<le> FeedMaxEntries"
    using assms by (auto simp: validateFeedEntries_def split: if_splits sum.splits)
  note x = check_entries_exact [OF c distinct.simps(1) [THEN iffD2, OF TrueI]]
  show "length es \<le> FeedMaxEntries" by (rule l)
  show "distinct kept" "sorted (map prefix_key kept)" using x by (simp_all add: k)
  show set: "set kept = {p. \<exists>e\<in>set es. entry_kept e p}" using x by (simp add: k)
  show "dropped = length (filter entry_dropped es)" using x by simp
  show plain: "list_all pfx_plain kept"
    unfolding list_all_iff set by (auto simp: entry_kept_def dest: feedPrefix_plain)
  show "holds_global kept"
    unfolding holds_global_def
  proof (intro ballI allI impI)
    fix p a
    assume p: "p \<in> set kept" and c: "Contains p a"
    have "pfx_valid p" using plain p by (auto simp: list_all_iff pfx_plain_def)
    moreover have "isGlobal p" using p unfolding set by (auto simp: entry_kept_def)
    ultimately show "global_addr a" using c by (rule isGlobal_holds)
  qed
  show "p \<in> set kept \<Longrightarrow> (if Is4 (paddr p) then fst (FeedMaxBits fid) else snd (FeedMaxBits fid)) \<le> pbits p"
  proof -
    assume "p \<in> set kept"
    then obtain e where e: "e \<in> set es" "feedPrefix (trim_space e) = Some p" "isGlobal p"
      unfolding set by (auto simp: entry_kept_def)
    from x e(1) have "\<exists>q. feedPrefix (trim_space e) = Some q \<and>
       (isGlobal q \<longrightarrow> (if Is4 (paddr q) then fst (FeedMaxBits fid) else snd (FeedMaxBits fid)) \<le> pbits q)"
      by blast
    with e(2,3) show ?thesis by auto
  qed
qed

lemma validated_parsed:
  assumes "validateFeedEntries fid es = Inr (kept, dropped)" "e \<in> set es"
  shows "feedPrefix (trim_space e) \<noteq> None"
proof -
  obtain ks where "check_entries (fst (FeedMaxBits fid)) (snd (FeedMaxBits fid)) 0 es [] 0 = Inr (ks, dropped)"
    using assms(1) by (auto simp: validateFeedEntries_def split: if_splits sum.splits)
  from check_entries_exact [OF this] assms(2) show ?thesis by force
qed

section \<open>Programs over the world and the store\<close>

text \<open>An invariant in two halves: one on the world, one on everything else.\<close>

definition halves ::
  "(world \<Rightarrow> bool) \<Rightarrow> (feed_store \<Rightarrow> (string \<rightharpoonup> shrink_watch) \<Rightarrow> int \<Rightarrow> bool) \<Rightarrow> feed_world \<Rightarrow> bool" where
  "halves I J s \<longleftrightarrow> I (fwWorld s) \<and> J (fwStore s) (fwShrink s) (fwNow s)"

lemma triple_on_world:
  "triple I m (\<lambda>a w. I w \<and> Q a) \<Longrightarrow> triple (halves I J) (on_world m) (\<lambda>a s. halves I J s \<and> Q a)"
  by (auto simp: triple_def wp_def on_world_def halves_def split: prod.splits)

lemma keeps_on_world: "keeps I m \<Longrightarrow> keeps (halves I J) (on_world m)"
  using triple_on_world [of I m "\<lambda>_. True"] by simp

lemma keeps_set_watch:
  "(\<And>st sh n. J st sh n \<Longrightarrow> J st (sh(fid := v)) n) \<Longrightarrow> keeps (halves I J) (set_watch fid v)"
  by (auto simp: triple_def wp_def set_watch_def halves_def)

lemma keeps_get_watch: "keeps (halves I J) (get_watch fid)"
  by (simp add: triple_def wp_def get_watch_def)

locale feed_invariant = record_invariant env I for env I +
  fixes J :: "feed_store \<Rightarrow> (string \<rightharpoonup> shrink_watch) \<Rightarrow> int \<Rightarrow> bool"
  assumes frame_feedStore: "I w \<Longrightarrow> I (w\<lparr>feedStore := x\<rparr>)"
begin

lemma triple_on_store:
  assumes "\<And>o' st sh n. J st sh n \<Longrightarrow> J (snd (f o' st)) sh n \<and> Q (fst (f o' st))"
  shows "triple (halves I J) (on_store env f) (\<lambda>a s. halves I J s \<and> Q a)"
  unfolding triple_def
proof (intro allI impI)
  fix s
  assume h: "halves I J s"
  let ?w = "fwWorld s"
  obtain a st where f: "f (io env (tick ?w)) (fwStore s) = (a, st)" by fastforce
  have "I (interfered env ?w)" using h by (simp add: halves_def interfered_keeps)
  with assms [of "fwStore s" "fwShrink s" "fwNow s" "io env (tick ?w)"] h f
  show "wp (on_store env f) (\<lambda>a s. halves I J s \<and> Q a) s"
    by (simp add: wp_def on_store_def halves_def Let_def frame_tick frame_feedStore)
qed

lemma keeps_on_store: "(\<And>o' st sh n. J st sh n \<Longrightarrow> J (snd (f o' st)) sh n) \<Longrightarrow> keeps (halves I J) (on_store env f)"
  using triple_on_store [of f "\<lambda>_. True"] by simp

lemma keeps_feedNow:
  "(\<And>st sh n m. J st sh n \<Longrightarrow> J st sh m) \<Longrightarrow> keeps (halves I J) (feedNow env)"
  by (auto simp: triple_def wp_def feedNow_def halves_def Let_def frame_tick interfered_keeps)

lemma keeps_refused: "keeps (halves I J) (auditFeedRefused env fid why user)" "keeps (halves I J) (refuse e)"
  unfolding auditFeedRefused_def refuse_def by (intro triples keeps_on_world keeps_audit)+

end

section \<open>Private addresses stay out\<close>

definition copies_global :: "(string \<rightharpoonup> pfx list) \<Rightarrow> bool" where
  "copies_global m \<longleftrightarrow> (\<forall>ps\<in>ran m. holds_global ps)"

definition kernel_global :: "world \<Rightarrow> bool" where
  "kernel_global w \<longleftrightarrow> (case kernel w of Filtering rs \<Rightarrow> copies_global (rsFeeds rs) | _ \<Rightarrow> True)"

definition global_store :: "feed_store \<Rightarrow> (string \<rightharpoonup> shrink_watch) \<Rightarrow> int \<Rightarrow> bool" where
  "global_store st sh n \<longleftrightarrow> store_ok st \<and> copies_global (stored_contents (file_feeds (fsFile st)))"

definition record_global :: "stored_feed \<Rightarrow> bool" where
  "record_global r \<longleftrightarrow> holds_global (List.map_filter ParsePrefix (sfPrefixes r))"

lemma reset_global: "kernel_global w \<Longrightarrow> kernel_global (w\<lparr>kernel := fst (reset_table d a (kernel w))\<rparr>)"
  by (auto simp: kernel_global_def reset_table_def Let_def split: option.splits kernel.splits)

interpretation global: feed_invariant env kernel_global global_store for env
proof unfold_locales
  fix a k w
  assume g: "kernel_global w"
  show "kernel_global (interfere env k w a)"
    using g reset_global [OF g, of "delError env k" "addError env k"]
    by (cases a) (auto simp: kernel_global_def save_rules_def split: prod.splits kernel.splits)
qed (simp_all add: kernel_global_def)

lemma Put_file:
  assumes "store_ok s"
  shows "fsFile (snd (feedstore_Put rd wr fid f keep s)) = fsFile s \<or>
    stored_contents (file_feeds (fsFile (snd (feedstore_Put rd wr fid f keep s)))) =
      (stored_contents (file_feeds (fsFile s)))(fid \<mapsto> List.map_filter ParsePrefix (sfPrefixes f)) |` set keep"
proof -
  obtain e s' where l: "load rd s = (e, s')" by fastforce
  have s': "store_ok s'" "fsFile s' = fsFile s" using load_ok [OF assms, of rd] load_file [of rd s] l by simp_all
  let ?later = "filter (\<lambda>(k, _). k \<in> set keep) (AList.update fid (newCachedFeed f) (fsFeeds s'))"
  show ?thesis
  proof (cases "e = None \<and> only_checked fid f keep (fsFeeds s') = None \<and> wr = None")
    case True
    then have "fsLoaded s'" using l load_loaded by blast
    then have same: "stored_contents (fsFeeds s') = stored_contents (file_feeds (fsFile s))"
      using s' by (simp add: store_ok_def)
    have ok: "\<forall>c\<in>ran (map_of ?later). cached_ok c"
      using s'(1) newCachedFeed_ok by (intro ran_later) (auto simp: store_ok_def)
    have "stored_contents ?later =
        (stored_contents (fsFeeds s'))(fid \<mapsto> List.map_filter ParsePrefix (sfPrefixes f)) |` set keep"
      by (rule ext) (auto simp: stored_contents_def ran_filter update_conv restrict_map_def newCachedFeed_prefixes)
    with True l same stored_contents_written [OF ok] show ?thesis
      by (simp add: feedstore_Put_def write_feeds_def Let_def del: map_map)
  next
    case False
    then have "fsFile (snd (feedstore_Put rd wr fid f keep s)) = fsFile s"
      using l s'(2) by (auto simp: feedstore_Put_def write_feeds_def Let_def split: option.splits)
    then show ?thesis ..
  qed
qed

lemma Put_global:
  assumes "global_store st sh n" "record_global f"
  shows "global_store (snd (feedstore_Put rd wr fid f keep st)) sh n"
proof -
  from assms(1) have ok: "store_ok st" and g: "copies_global (stored_contents (file_feeds (fsFile st)))"
    by (simp_all add: global_store_def)
  have "copies_global (((stored_contents (file_feeds (fsFile st)))(fid \<mapsto> List.map_filter ParsePrefix (sfPrefixes f))) |` A)" for A
    using g assms(2) by (auto simp: copies_global_def record_global_def ran_def restrict_map_def split: if_splits)
  with Put_file [OF ok, of rd wr fid f keep] Put_ok [OF ok, of rd wr fid f keep] g
  show ?thesis by (auto simp: global_store_def)
qed

lemma load_global: "global_store st sh n \<Longrightarrow> global_store (snd (load rd st)) sh n"
  by (simp add: global_store_def load_ok load_file)

lemma Get_global:
  assumes "global_store st sh n"
  shows "case fst (feedstore_Get rd fid st) of Inr (Some r) \<Rightarrow> record_global r | _ \<Rightarrow> True"
proof -
  obtain e s' where l: "load rd st = (e, s')" by fastforce
  have g: "global_store s' sh n" using load_global [OF assms, of rd] l by simp
  show ?thesis
  proof (cases "e = None \<and> map_of (fsFeeds s') fid \<noteq> None")
    case True
    then obtain c where c: "e = None" "map_of (fsFeeds s') fid = Some c" by blast
    then have "fsLoaded s'" using l load_loaded by blast
    then have "stored_contents (file_feeds (fsFile s')) = stored_contents (fsFeeds s')"
      using g by (simp add: global_store_def store_ok_def)
    then have "stored_contents (file_feeds (fsFile s')) fid = Some (cfPrefixes c)"
      using c(2) by (simp add: stored_contents_def [of "fsFeeds s'"])
    then have "holds_global (cfPrefixes c)" using g by (auto simp: global_store_def copies_global_def ran_def)
    moreover have "cached_ok c" using g c(2) by (auto simp: global_store_def store_ok_def ran_def)
    ultimately show ?thesis
      using c l by (simp add: feedstore_Get_def record_global_def stored_record_def cached_ok_def map_filter_printed)
  next
    case False
    then show ?thesis using l by (cases e) (auto simp: feedstore_Get_def)
  qed
qed

lemma load_feed_global: "holds_global ps \<Longrightarrow> keeps kernel_global (load_feed env fid ps)"
  unfolding load_feed_def
  by (rule global.step_keeps)
    (auto simp: kernel_global_def replace_feed_def copies_global_def ran_def Let_def
      split: prod.splits kernel.splits flush_outcome.splits if_splits)

lemmas feed_keeps = global.keeps_refused global.keeps_on_store keeps_on_world global.keeps_PanicEngaged
  global.keeps_audit global.keeps_slot global.keeps_GetState keeps_get_watch keeps_return

abbreviation feeds_global :: "feed_world \<Rightarrow> bool" where
  "feeds_global \<equiv> halves kernel_global global_store"

lemma keeps_watch: "keeps feeds_global (set_watch fid v)"
  by (rule keeps_set_watch) (simp add: global_store_def)

lemma store_version_global:
  assumes "list_all pfx_plain kept" "holds_global kept"
  shows "keeps feeds_global (store_version env fid kept dropped old inCurrent st taken now user)"
proof -
  have "record_global \<lparr> sfPrefixes = prefixStrings kept, sfEntries = a, sfDropped = b, sfChangedAt = c, sfCheckedAt = d \<rparr>"
    for a b c d using assms by (simp add: record_global_def map_filter_printed)
  note put = Put_global [OF _ this]
  show ?thesis
    unfolding store_version_def record_version_def load_refused_def
    by (intro triples feed_keeps keeps_watch load_feed_global assms(2)) (erule put)+
qed

lemma shrink_guard_global: "keeps feeds_global (shrink_guard env fid count stored now user)"
  unfolding shrink_guard_def by (intro triples feed_keeps keeps_watch)

lemma take_version_global:
  assumes "\<And>kept dropped. checked = Inr (kept, dropped) \<Longrightarrow> list_all pfx_plain kept \<and> holds_global kept"
  shows "keeps feeds_global (take_version env fid checked old inCurrent st now user)"
  unfolding take_version_def
  by (intro triples feed_keeps shrink_guard_global store_version_global) (use assms in auto)

lemma confirm_version_global:
  assumes "\<And>r. old = Some r \<Longrightarrow> record_global r"
  shows "keeps feeds_global (confirm_version env fid old st now)"
proof -
  have "record_global (r\<lparr>sfCheckedAt := now\<rparr>)" if "old = Some r" for r
    using assms [OF that] by (simp add: record_global_def)
  note put = Put_global [OF _ this]
  show ?thesis
    unfolding confirm_version_def by (intro triples feed_keeps keeps_watch) (erule (1) put)
qed

lemma update_locked_global:
  assumes "\<And>kept dropped. checked = Inr (kept, dropped) \<Longrightarrow> list_all pfx_plain kept \<and> holds_global kept"
  shows "keeps feeds_global (update_locked env p checked user)"
proof -
  let ?Q = "\<lambda>got. case got of Inr (Some r) \<Rightarrow> record_global r | _ \<Rightarrow> True"
  have got: "triple feeds_global (on_store env (\<lambda>o' s. feedstore_Get (read_error o') (ufID p) s))
      (\<lambda>got s. feeds_global s \<and> ?Q got)"
    by (rule global.triple_on_store) (simp add: Get_global read_states load_global)
  have "triple (\<lambda>s. feeds_global s \<and> ?Q got)
      (case got of
         Inl e \<Rightarrow> refuse e
       | Inr old \<Rightarrow> do {
           now \<leftarrow> feedNow env;
           if ufNotModified p then confirm_version env (ufID p) old st now
           else take_version env (ufID p) checked old inCurrent st now user
         }) (\<lambda>_. feeds_global)" for got st inCurrent
    by (rule triple_assume)
      (intro triples feed_keeps confirm_version_global take_version_global global.keeps_feedNow;
       use assms in \<open>auto simp: global_store_def\<close>)
  note rest = triple_bind [OF got this]
  show ?thesis
    unfolding update_locked_def by (intro triples feed_keeps rest)
qed

lemma UpdateFeed_global: "keeps feeds_global (UpdateFeed env p user)"
  unfolding UpdateFeed_def
  by (intro triples feed_keeps update_locked_global) (auto simp: holds_global_def dest: validated_kept(6,7) split: if_splits)

text \<open>
  A machine over its life: it starts with no copies, takes updates, restarts, and meanwhile its
  world becomes any other whose kernel runs only such feeds.
\<close>

inductive feed_life :: "feed_world \<Rightarrow> bool" where
  fresh: "fwStore s = NewFeedStore FeedsAbsent \<Longrightarrow> kernel_global (fwWorld s) \<Longrightarrow> feed_life s"
| update: "feed_life s \<Longrightarrow> run_state (UpdateFeed env p user) s = (r, s') \<Longrightarrow> feed_life s'"
| restart: "feed_life s \<Longrightarrow>
    feed_life (s\<lparr>fwStore := NewFeedStore (fsFile (fwStore s)), fwShrink := Map.empty\<rparr>)"
| elsewhere: "feed_life s \<Longrightarrow> kernel_global w \<Longrightarrow> feed_life (s\<lparr>fwWorld := w\<rparr>)"

lemma feed_life_global: "feed_life s \<Longrightarrow> feeds_global s"
proof (induction rule: feed_life.induct)
  case (fresh s)
  then show ?case
    by (simp add: halves_def global_store_def NewFeedStore_ok file_feeds_def copies_global_def stored_contents_def ran_def)
next
  case (update s env p user r s')
  show ?case by (rule wp_result [OF tripleD [OF UpdateFeed_global update(3)] update(2)])
qed (auto simp: halves_def global_store_def NewFeedStore_ok)

section \<open>Refusals\<close>

text \<open>No other goroutine acts.\<close>

definition undisturbed :: "env \<Rightarrow> bool" where
  "undisturbed env \<longleftrightarrow> (\<forall>k. others env k = [])"

text \<open>
  Some batch is committed and reported as failed: the kernel's answers overflowed the receive buffer.
\<close>

definition answer_lost :: "env \<Rightarrow> bool" where
  "answer_lost env \<longleftrightarrow> (\<exists>k e. flush env k = Overflowed True e)"

text \<open>The same table with another set for one feed.\<close>

definition feed_swapped :: "string \<Rightarrow> kernel \<Rightarrow> kernel \<Rightarrow> bool" where
  "feed_swapped fid k k' \<longleftrightarrow>
     (\<exists>rs ps. k = Filtering rs \<and> k' = Filtering (rs\<lparr>rsFeeds := (rsFeeds rs)(fid \<mapsto> ps)\<rparr>))"

text \<open>What may become of the kernel's table: the swap is either admitted or its answer was lost.\<close>

definition tolerated :: "env \<Rightarrow> kernel \<Rightarrow> string \<Rightarrow> bool \<Rightarrow> kernel \<Rightarrow> bool" where
  "tolerated env kt fid told k \<longleftrightarrow> k = kt \<or> feed_swapped fid kt k \<and> (told \<or> answer_lost env)"

definition kernel_is :: "env \<Rightarrow> kernel \<Rightarrow> world \<Rightarrow> bool" where
  "kernel_is env kt w \<longleftrightarrow> undisturbed env \<and> kernel w = kt"

definition file_is :: "feeds_file \<Rightarrow> feed_store \<Rightarrow> (string \<rightharpoonup> shrink_watch) \<Rightarrow> int \<Rightarrow> bool" where
  "file_is f st sh n \<longleftrightarrow> fsFile st = f"

interpretation still: feed_invariant env "kernel_is env kt" "file_is f" for env kt f
  by unfold_locales (auto simp: kernel_is_def undisturbed_def)

abbreviation unchanged :: "env \<Rightarrow> kernel \<Rightarrow> feeds_file \<Rightarrow> feed_world \<Rightarrow> bool" where
  "unchanged env kt f \<equiv> halves (kernel_is env kt) (file_is f)"

definition refusal_keeps ::
  "env \<Rightarrow> kernel \<Rightarrow> feeds_file \<Rightarrow> string \<Rightarrow> feed_error option \<times> update_feed_result \<Rightarrow> feed_world \<Rightarrow> bool" where
  "refusal_keeps env kt f fid r s \<longleftrightarrow>
     (fst r \<noteq> None \<longrightarrow> fsFile (fwStore s) = f \<and> tolerated env kt fid (ufLoaded (snd r)) (kernel (fwWorld s)))"

lemmas still_keeps = still.keeps_refused keeps_on_world still.keeps_PanicEngaged
  still.keeps_audit still.keeps_slot still.keeps_GetState keeps_get_watch keeps_return

lemma still_watch: "keeps (unchanged env kt f) (set_watch fid v)"
  by (rule keeps_set_watch) (simp add: file_is_def)

lemma unchanged_refusal: "unchanged env kt f s \<Longrightarrow> refusal_keeps env kt f fid r s"
  by (simp add: halves_def kernel_is_def file_is_def refusal_keeps_def tolerated_def)

lemma refusing: "keeps (unchanged env kt f) m \<Longrightarrow> triple (unchanged env kt f) m (refusal_keeps env kt f fid)"
  by (erule triple_post) (rule unchanged_refusal)

lemma Put_refused: "fst (feedstore_Put rd wr fid r keep st) \<noteq> None \<Longrightarrow>
    fsFile (snd (feedstore_Put rd wr fid r keep st)) = fsFile st"
  using load_file [of rd st]
  by (auto simp: feedstore_Put_def write_feeds_def Let_def split: prod.splits option.splits)

lemma triple_any: "triple P m (\<lambda>_ _. True)"
  by (simp add: triple_def wp_def split: prod.splits)

lemma accepted: "triple P (do { m; m2; m3; State_Monad.return (None, res) }) (refusal_keeps env kt f fid)"
  by (intro triple_bind [OF triple_any] triple_return) (simp add: refusal_keeps_def)

lemma load_feed_still:
  "triple (unchanged env kt f) (on_world (load_feed env fid ps))
     (\<lambda>e s. fsFile (fwStore s) = f \<and> undisturbed env \<and> tolerated env kt fid (e = None) (kernel (fwWorld s)))"
proof -
  have "triple (kernel_is env kt) (load_feed env fid ps) (\<lambda>e w. undisturbed env \<and> tolerated env kt fid (e = None) (kernel w))"
    unfolding load_feed_def
    by (rule still.step_effect)
      (auto simp: kernel_is_def replace_feed_def Let_def tolerated_def answer_lost_def feed_swapped_def
        split: prod.splits kernel.splits flush_outcome.splits if_splits)
  then show ?thesis
    by (fastforce simp: triple_def wp_def on_world_def halves_def file_is_def split: prod.splits)
qed

lemma put_still:
  assumes "undisturbed env"
  shows "triple (\<lambda>s. fsFile (fwStore s) = f \<and> K (kernel (fwWorld s)))
    (on_store env (\<lambda>o' s. feedstore_Put (read_error o') (write_error o') fid r keep s))
    (\<lambda>e s. e \<noteq> None \<longrightarrow> fsFile (fwStore s) = f \<and> K (kernel (fwWorld s)))"
  using assms Put_refused
  by (auto simp: triple_def wp_def on_store_def Let_def undisturbed_def interfered_def split: prod.splits)
    (metis fst_conv option.distinct(1) snd_conv)

text \<open>The end of a stored version: a failed write refuses, anything else accepts.\<close>

lemma record_version_refusal:
  assumes "undisturbed env" "\<And>k. K k \<Longrightarrow> tolerated env kt fid (ufLoaded res) k"
  shows "triple (\<lambda>s. fsFile (fwStore s) = f \<and> K (kernel (fwWorld s)))
    (record_version env fid r res st taken user) (refusal_keeps env kt f fid)"
  unfolding record_version_def
proof (rule triple_bind [OF put_still [OF assms(1)]])
  fix e
  show "triple (\<lambda>s. e \<noteq> None \<longrightarrow> fsFile (fwStore s) = f \<and> K (kernel (fwWorld s)))
      (case e of
         Some e \<Rightarrow> State_Monad.return (Some (FeedRefused e), res)
       | None \<Rightarrow> do {
           (if taken = None then State_Monad.return ()
            else on_world (WriteAuditLog env ''feed_shrink_accepted'' fid user));
           set_watch fid None;
           (if ufChanged res then on_world (WriteAuditLog env ''feed_updated'' fid user)
            else State_Monad.return ());
           State_Monad.return (None, res)
         }) (refusal_keeps env kt f fid)"
  proof (cases e)
    case None
    show ?thesis unfolding None option.case by (rule accepted)
  next
    case (Some x)
    then show ?thesis using assms(2) by (auto intro: triple_return simp: refusal_keeps_def)
  qed
qed

lemma load_refused_still:
  "triple (\<lambda>s. fsFile (fwStore s) = f \<and> undisturbed env \<and> tolerated env kt fid False (kernel (fwWorld s)))
     (load_refused env fid e user) (refusal_keeps env kt f fid)"
proof -
  have "triple (unchanged env k f) (load_refused env fid e user) (\<lambda>_. unchanged env k f)" for k
    unfolding load_refused_def by (intro triples still_keeps)
  then have "triple (unchanged env k f) (load_refused env fid e user) (refusal_keeps env kt f fid)"
    if "tolerated env kt fid False k" for k
    by (rule triple_post) (use that in \<open>auto simp: halves_def kernel_is_def file_is_def refusal_keeps_def tolerated_def\<close>)
  then show ?thesis
    unfolding triple_def halves_def kernel_is_def file_is_def by blast
qed

lemma store_version_refusal:
  "triple (unchanged env kt f) (store_version env fid kept dropped old inCurrent st taken now user)
     (refusal_keeps env kt f fid)"
proof (cases inCurrent)
  case True
  have "triple (\<lambda>s. fsFile (fwStore s) = f \<and> undisturbed env \<and> tolerated env kt fid (e = None) (kernel (fwWorld s)))
      (case e of Some x \<Rightarrow> load_refused env fid x user | None \<Rightarrow> record_version env fid r res st taken user)
      (refusal_keeps env kt f fid)" if "ufLoaded res" for e r res
  proof (cases e)
    case None
    have "undisturbed env \<Longrightarrow> triple (\<lambda>s. fsFile (fwStore s) = f \<and> tolerated env kt fid True (kernel (fwWorld s)))
        (record_version env fid r res st taken user) (refusal_keeps env kt f fid)"
      by (rule record_version_refusal) (use that in auto)
    with None show ?thesis by (auto simp: triple_def)
  next
    case (Some x)
    then show ?thesis using load_refused_still by simp
  qed
  with True show ?thesis
    unfolding store_version_def Let_def by (simp add: triple_bind [OF load_feed_still])
next
  case False
  have "undisturbed env \<Longrightarrow> triple (\<lambda>s. fsFile (fwStore s) = f \<and> kernel (fwWorld s) = kt)
      (record_version env fid r res st taken user) (refusal_keeps env kt f fid)" for r res
    by (rule record_version_refusal) (auto simp: tolerated_def)
  with False show ?thesis
    unfolding store_version_def Let_def by (auto simp: triple_def halves_def kernel_is_def file_is_def)
qed

lemma shrink_guard_still: "keeps (unchanged env kt f) (shrink_guard env fid count stored now user)"
  unfolding shrink_guard_def by (intro triples still_keeps still_watch)

lemma take_version_refusal:
  "triple (unchanged env kt f) (take_version env fid checked old inCurrent st now user) (refusal_keeps env kt f fid)"
proof -
  have guarded: "triple (unchanged env kt f)
      (do {
         (go, taken) \<leftarrow> shrink_guard env fid n r now user;
         if \<not> go then State_Monad.return (Some FeedShrank, no_update)
         else store_version env fid kept dropped old inCurrent st taken now user
       }) (refusal_keeps env kt f fid)" for n r kept dropped
    by (intro triple_bind [OF shrink_guard_still] triple_prod triple_if store_version_refusal
        refusing [OF keeps_return])
  have audited: "triple (unchanged env kt f) (do { auditFeedRefused env fid why user; refuse e }) (refusal_keeps env kt f fid)"
    for why e by (rule refusing) (intro triples still_keeps)
  show ?thesis
    unfolding take_version_def by (intro triples guarded audited store_version_refusal)
qed

lemma confirm_version_refusal:
  "triple (unchanged env kt f) (confirm_version env fid old st now) (refusal_keeps env kt f fid)"
proof (cases old)
  case None
  then show ?thesis unfolding confirm_version_def by (auto intro: refusing still_keeps)
next
  case (Some r)
  have put: "undisturbed env \<Longrightarrow> triple (\<lambda>s. fsFile (fwStore s) = f \<and> kernel (fwWorld s) = kt)
    (on_store env (\<lambda>o' s. feedstore_Put (read_error o') (write_error o') fid r' keep s))
    (\<lambda>e s. e \<noteq> None \<longrightarrow> fsFile (fwStore s) = f \<and> kernel (fwWorld s) = kt)" for r' keep
    by (rule put_still)
  have "triple (unchanged env kt f)
      (do {
         err \<leftarrow> on_store env (\<lambda>o' s. feedstore_Put (read_error o') (write_error o') fid r' keep s);
         State_Monad.return (map_option FeedRefused err, res)
       }) (refusal_keeps env kt f fid)" for r' keep res
    unfolding triple_def wp_bind wp_return
    using put [unfolded triple_def]
    by (fastforce simp: halves_def kernel_is_def file_is_def refusal_keeps_def tolerated_def elim!: wp_mono)
  with Some show ?thesis
    unfolding confirm_version_def by (simp add: triple_bind [OF still_watch])
qed

lemma update_locked_refusal:
  "triple (unchanged env kt f) (update_locked env p checked user) (refusal_keeps env kt f (ufID p))"
proof -
  have got: "keeps (unchanged env kt f) (on_store env (\<lambda>o' s. feedstore_Get (read_error o') (ufID p) s))"
    by (rule still.keeps_on_store) (simp add: read_states load_file file_is_def)
  have audited: "triple (unchanged env kt f) (do { auditFeedRefused env fid why user; refuse e }) (refusal_keeps env kt f (ufID p))"
    for fid why e by (rule refusing) (intro triples still_keeps)
  have refused: "triple (unchanged env kt f) (refuse e) (refusal_keeps env kt f (ufID p))" for e
    by (rule refusing [OF still.keeps_refused(2)])
  have now: "keeps (unchanged env kt f) (feedNow env)"
    by (rule still.keeps_feedNow) (simp add: file_is_def)
  show ?thesis
    unfolding update_locked_def
    by (intro triple_bind [OF keeps_on_world [OF still.keeps_PanicEngaged]]
        triple_bind [OF keeps_on_world [OF still.keeps_GetState]] triple_bind [OF got] triple_bind [OF now]
        triple_if triple_sum triple_Let audited refused refusing [OF keeps_return]
        confirm_version_refusal take_version_refusal)
qed

lemma UpdateFeed_refusal:
  assumes "undisturbed env"
  shows "triple (unchanged env kt f) (UpdateFeed env p user) (refusal_keeps env kt f (ufID p))"
proof -
  have "triple (refusal_keeps env kt f (ufID p) r) (on_world (endApply env)) (\<lambda>_. refusal_keeps env kt f (ufID p) r)" for r
    using assms
    by (auto simp: triple_def wp_def on_world_def endApply_def step_def interfered_def undisturbed_def refusal_keeps_def)
  then have "triple (unchanged env kt f)
      (do { r \<leftarrow> update_locked env p checked user; on_world (endApply env); State_Monad.return r })
      (refusal_keeps env kt f (ufID p))" for checked
    by (intro triple_bind [OF update_locked_refusal] triple_bind) (auto intro: triple_return)
  then show ?thesis
    unfolding UpdateFeed_def
    by (intro triple_bind [OF keeps_on_world [OF still.keeps_PanicEngaged]]
        triple_bind [OF keeps_on_world [OF still.keeps_slot(1)]] triple_if triple_Let refusing [OF keeps_return])
qed

section \<open>The shrink guard\<close>

text \<open>
  The times at which versions of a feed were refused as shrunk since one was last accepted, written
  down from the answers alone: a process starts with none, a shrink refusal adds one, an answer
  without an error empties the list, and any other answer, another feed's update or anything else the
  core does leaves it.
\<close>

inductive shrink_history :: "string \<Rightarrow> int list \<Rightarrow> feed_world \<Rightarrow> bool" for fid where
  start: "fwShrink s = Map.empty \<Longrightarrow> shrink_history fid [] s"
| shrank: "shrink_history fid ts s \<Longrightarrow> run_state (UpdateFeed env p user) s = ((Some FeedShrank, r), s') \<Longrightarrow>
    ufID p = fid \<Longrightarrow> shrink_history fid (ts @ [fwNow s']) s'"
| accepted: "shrink_history fid ts s \<Longrightarrow> run_state (UpdateFeed env p user) s = ((None, r), s') \<Longrightarrow>
    ufID p = fid \<Longrightarrow> shrink_history fid [] s'"
| failed: "shrink_history fid ts s \<Longrightarrow> run_state (UpdateFeed env p user) s = ((Some e, r), s') \<Longrightarrow>
    e \<noteq> FeedShrank \<Longrightarrow> shrink_history fid ts s'"
| another: "shrink_history fid ts s \<Longrightarrow> run_state (UpdateFeed env p user) s = (r, s') \<Longrightarrow>
    ufID p \<noteq> fid \<Longrightarrow> shrink_history fid ts s'"
| elsewhere: "shrink_history fid ts s \<Longrightarrow> fwShrink s' = fwShrink s \<Longrightarrow> shrink_history fid ts s'"

text \<open>
  The watch the core keeps is a suffix of that list, all of it unless a confirmation that could not
  be stored emptied the watch.
\<close>

definition watch_within :: "int list \<Rightarrow> shrink_watch option \<Rightarrow> bool" where
  "watch_within ts v \<longleftrightarrow>
     v = None \<or> (\<exists>i < length ts. v = Some \<lparr> swSince = ts ! i, swSeen = length ts - i \<rparr>)"

text \<open>What one update does to the watch of a feed.\<close>

definition watch_step ::
  "string \<Rightarrow> string \<Rightarrow> shrink_watch option \<Rightarrow> feed_error option \<times> update_feed_result \<Rightarrow> feed_world \<Rightarrow> bool" where
  "watch_step fid uid v r s \<longleftrightarrow>
     (if uid \<noteq> fid then fwShrink s fid = v
      else if fst r = Some FeedShrank then
        fwShrink s fid =
          (case v of None \<Rightarrow> Some \<lparr> swSince = fwNow s, swSeen = 1 \<rparr>
           | Some w \<Rightarrow> Some \<lparr> swSince = (if swSeen w = 0 then fwNow s else swSince w), swSeen = swSeen w + 1 \<rparr>)
      else (fwShrink s fid = v \<or> fwShrink s fid = None) \<and>
        (fst r = None \<longrightarrow> fwShrink s fid = None \<and>
          (ufLoaded (snd r) \<longrightarrow> \<not> IsCountryFeedID fid \<longrightarrow> shrinks (ufBefore (snd r)) (ufAfter (snd r)) \<longrightarrow>
             (\<exists>w. v = Some w \<and> 2 \<le> swSeen w \<and> shrinkAcceptAfter \<le> fwNow s - swSince w))))"

definition watch_is ::
  "string \<Rightarrow> shrink_watch option \<Rightarrow> (int \<Rightarrow> bool) \<Rightarrow> feed_store \<Rightarrow> (string \<rightharpoonup> shrink_watch) \<Rightarrow> int \<Rightarrow> bool" where
  "watch_is fid v N st sh n \<longleftrightarrow> sh fid = v \<and> N n"

interpretation watching: feed_invariant env "\<lambda>_. True" "watch_is fid v N" for env fid v N
  by unfold_locales simp_all

abbreviation watched :: "string \<Rightarrow> shrink_watch option \<Rightarrow> (int \<Rightarrow> bool) \<Rightarrow> feed_world \<Rightarrow> bool" where
  "watched fid v N \<equiv> halves (\<lambda>_. True) (watch_is fid v N)"

lemma watched_iff: "watched fid v N s \<longleftrightarrow> fwShrink s fid = v \<and> N (fwNow s)"
  by (simp add: halves_def watch_is_def)

lemma watched_on_world: "keeps (watched fid v N) (on_world m)"
  by (rule keeps_on_world) (simp add: triple_any)

lemma watched_on_store: "keeps (watched fid v N) (on_store env g)"
  by (rule watching.keeps_on_store) (simp add: watch_is_def)

lemma watched_other: "uid \<noteq> fid \<Longrightarrow> keeps (watched fid v N) (set_watch uid x)"
  by (rule keeps_set_watch) (simp add: watch_is_def)

lemma watched_set: "triple (watched fid v N) (set_watch fid x) (\<lambda>_. watched fid x N)"
  by (auto simp: triple_def wp_def set_watch_def watched_iff)

lemma watched_now: "triple (watched fid v N) (feedNow env) (\<lambda>now. watched fid v (\<lambda>n. n = now))"
  by (auto simp: triple_def wp_def feedNow_def watched_iff Let_def)

lemma watched_weaken: "triple P m (\<lambda>a. watched fid v (M a)) \<Longrightarrow> triple P m (\<lambda>_. watched fid v (\<lambda>_. True))"
  by (erule triple_post) (simp add: watched_iff)

lemmas watched_keeps = watching.keeps_refused watched_on_world watched_on_store keeps_get_watch keeps_return

text \<open>An update of another feed leaves the watch alone.\<close>

lemma UpdateFeed_other:
  assumes "ufID p \<noteq> fid"
  shows "keeps (watched fid v (\<lambda>_. True)) (UpdateFeed env p user)"
  unfolding UpdateFeed_def update_locked_def confirm_version_def take_version_def shrink_guard_def
    store_version_def record_version_def load_refused_def
  by (intro triples watched_keeps watched_other [OF assms] watched_weaken [OF watched_now])

text \<open>The steps of an update of the feed itself.\<close>

definition guarded :: "string \<Rightarrow> shrink_watch option \<Rightarrow> int \<Rightarrow> bool \<Rightarrow> int \<Rightarrow> int \<Rightarrow> bool" where
  "guarded fid v now live before after \<longleftrightarrow>
     (live \<longrightarrow> \<not> IsCountryFeedID fid \<longrightarrow> shrinks before after \<longrightarrow>
        (\<exists>w. v = Some w \<and> 2 \<le> swSeen w \<and> shrinkAcceptAfter \<le> now - swSince w))"

lemma watch_refused:
  "fst r \<noteq> None \<Longrightarrow> fst r \<noteq> Some FeedShrank \<Longrightarrow> triple (watched fid v N) (State_Monad.return r) (watch_step fid fid v)"
  by (rule triple_return) (auto simp: watch_step_def watched_iff)

lemma watch_refuse: "triple (watched fid v N) (refuse e) (watch_step fid fid v)"
  unfolding refuse_def by (rule watch_refused) simp_all

lemma record_version_watch:
  assumes "guarded fid v now (ufLoaded res) (ufBefore res) (ufAfter res)"
  shows "triple (watched fid v (\<lambda>n. n = now)) (record_version env fid r res st taken user) (watch_step fid fid v)"
proof -
  have last: "triple (watched fid None (\<lambda>n. n = now)) (State_Monad.return (None, res)) (watch_step fid fid v)"
    using assms by (intro triple_return) (auto simp: watch_step_def watched_iff guarded_def)
  have log: "keeps (watched fid x N) (if b then State_Monad.return () else on_world m)"
    "keeps (watched fid x N) (if b then on_world m else State_Monad.return ())" for x N b m
    by (intro triples watched_keeps)+
  show ?thesis
    unfolding record_version_def
    by (intro triple_bind [OF watched_on_store] triple_option triple_bind [OF log(1)] triple_bind [OF watched_set]
        triple_bind [OF log(2)] last watch_refused) simp_all
qed

lemma load_refused_watch: "triple (watched fid v N) (load_refused env fid e user) (watch_step fid fid v)"
  unfolding load_refused_def
  by (intro triple_bind [OF watched_on_world] triple_if triple_bind [OF watching.keeps_refused(1)] watch_refuse
      watch_refused) simp_all

lemma store_version_watch:
  assumes "guarded fid v now inCurrent (sfEntries (case old of None \<Rightarrow> zero_stored | Some r \<Rightarrow> r)) (int (length kept))"
  shows "triple (watched fid v (\<lambda>n. n = now))
    (store_version env fid kept dropped old inCurrent st taken now user) (watch_step fid fid v)"
  unfolding store_version_def Let_def
  by (intro triple_if triple_bind [OF watched_on_world] triple_option load_refused_watch record_version_watch)
    (use assms in simp_all)

lemma shrink_guard_watch:
  "triple (watched fid v (\<lambda>n. n = now)) (shrink_guard env fid count stored now user)
     (\<lambda>(go, taken). if go then (\<lambda>s. watched fid v (\<lambda>n. n = now) s \<and>
          (\<exists>w. v = Some w \<and> 2 \<le> swSeen w \<and> shrinkAcceptAfter \<le> now - swSince w))
        else watch_step fid fid v (Some FeedShrank, no_update))"
  unfolding shrink_guard_def triple_def wp_bind wp_return
  by (cases v)
    (auto simp: wp_def get_watch_def set_watch_def auditFeedRefused_def on_world_def watched_iff watch_step_def
      shrinkAcceptSeen_def Let_def State_Monad.bind_def State_Monad.return_def split: prod.splits)

lemma guarded_version:
  "triple (watched fid v (\<lambda>n. n = now))
     (do {
        (go, taken) \<leftarrow> shrink_guard env fid n r now user;
        if \<not> go then State_Monad.return (Some FeedShrank, no_update)
        else store_version env fid kept dropped old inCurrent st taken now user
      }) (watch_step fid fid v)"
proof (rule triple_bind [OF shrink_guard_watch])
  fix gt :: "bool \<times> shrink_watch option"
  obtain go taken where gt: "gt = (go, taken)" by fastforce
  have "triple (\<lambda>s. watched fid v (\<lambda>n. n = now) s \<and>
      (\<exists>w. v = Some w \<and> 2 \<le> swSeen w \<and> shrinkAcceptAfter \<le> now - swSince w))
      (store_version env fid kept dropped old inCurrent st taken now user) (watch_step fid fid v)"
    by (rule triple_assume, rule store_version_watch) (simp add: guarded_def)
  then show "triple (case gt of (go, taken) \<Rightarrow> if go then (\<lambda>s. watched fid v (\<lambda>n. n = now) s \<and>
          (\<exists>w. v = Some w \<and> 2 \<le> swSeen w \<and> shrinkAcceptAfter \<le> now - swSince w))
        else watch_step fid fid v (Some FeedShrank, no_update))
      (case gt of (go, taken) \<Rightarrow>
         if \<not> go then State_Monad.return (Some FeedShrank, no_update)
         else store_version env fid kept dropped old inCurrent st taken now user) (watch_step fid fid v)"
    unfolding gt by (cases go) (auto intro: triple_return)
qed

lemma take_version_watch:
  "triple (watched fid v (\<lambda>n. n = now)) (take_version env fid checked old inCurrent st now user) (watch_step fid fid v)"
proof -
  have audited: "triple (watched fid v N) (do { auditFeedRefused env fid why user; refuse e }) (watch_step fid fid v)"
    for why e N by (intro triple_bind [OF watching.keeps_refused(1)] watch_refuse)
  show ?thesis
    unfolding take_version_def
    by (intro triple_sum triple_prod triple_if triple_option triple_Let audited guarded_version store_version_watch)
      (auto simp: guarded_def zero_stored_def shrinks_def)
qed

lemma confirm_version_watch:
  "triple (watched fid v (\<lambda>n. n = now)) (confirm_version env fid old st now) (watch_step fid fid v)"
  unfolding confirm_version_def
  by (intro triple_option watch_refuse triple_bind [OF watched_set] triple_bind [OF watched_on_store] triple_return)
    (auto simp: watch_step_def watched_iff)

lemma UpdateFeed_watch:
  assumes "ufID p = fid"
  shows "triple (watched fid v (\<lambda>_. True)) (UpdateFeed env p user) (watch_step fid fid v)"
proof -
  have audited: "triple (watched fid v N) (do { auditFeedRefused env x why user; refuse e }) (watch_step fid fid v)"
    for x why e N by (intro triple_bind [OF watching.keeps_refused(1)] watch_refuse)
  have locked: "triple (watched fid v (\<lambda>_. True)) (update_locked env p checked user) (watch_step fid fid v)" for checked
    unfolding update_locked_def assms
    by (intro triple_bind [OF watched_on_world] triple_if triple_sum triple_Let audited watch_refuse
        triple_bind [OF watched_on_store] triple_bind [OF watched_now] confirm_version_watch take_version_watch
        watch_refused) simp_all
  have ends: "triple (watch_step fid fid v r) (on_world (endApply env)) (\<lambda>_. watch_step fid fid v r)" for r
    by (cases v) (auto simp: triple_def wp_def on_world_def watch_step_def split: prod.splits)
  show ?thesis
    unfolding UpdateFeed_def
    by (intro triple_bind [OF watched_on_world] triple_if triple_Let triple_bind [OF locked] triple_bind [OF ends]
        triple_return watch_refused) simp_all
qed

lemma watch_step_of:
  assumes "run_state (UpdateFeed env p user) s = (r, s')"
  shows "watch_step fid (ufID p) (fwShrink s fid) r s'"
proof (cases "ufID p = fid")
  case True
  have "watched fid (fwShrink s fid) (\<lambda>_. True) s" by (simp add: watched_iff)
  from wp_result [OF tripleD [OF UpdateFeed_watch [OF True] this] assms] True show ?thesis by simp
next
  case False
  have "watched fid (fwShrink s fid) (\<lambda>_. True) s" by (simp add: watched_iff)
  from wp_result [OF tripleD [OF UpdateFeed_other [OF False] this] assms] False
  show ?thesis by (simp add: watch_step_def watched_iff)
qed

lemma watch_within_snoc:
  assumes "watch_within ts v"
    and "v' = (case v of None \<Rightarrow> Some \<lparr> swSince = t, swSeen = 1 \<rparr>
      | Some w \<Rightarrow> Some \<lparr> swSince = (if swSeen w = 0 then t else swSince w), swSeen = swSeen w + 1 \<rparr>)"
  shows "watch_within (ts @ [t]) v'"
proof (cases v)
  case None
  then have "v' = Some \<lparr> swSince = (ts @ [t]) ! length ts, swSeen = length (ts @ [t]) - length ts \<rparr>"
    using assms(2) by simp
  then show ?thesis unfolding watch_within_def by (intro disjI2 exI [of _ "length ts"]) simp
next
  case (Some w)
  then obtain i where "i < length ts" "w = \<lparr> swSince = ts ! i, swSeen = length ts - i \<rparr>"
    using assms(1) by (auto simp: watch_within_def)
  with Some assms(2) show ?thesis
    unfolding watch_within_def by (intro disjI2 exI [of _ i]) (simp add: nth_append Suc_diff_le)
qed

lemma shrink_history_watch: "shrink_history fid ts s \<Longrightarrow> watch_within ts (fwShrink s fid)"
proof (induction rule: shrink_history.induct)
  case (start s)
  then show ?case by (simp add: watch_within_def)
next
  case (shrank ts s env p user r s')
  then show ?case using watch_step_of [OF shrank(2), of fid] by (auto simp: watch_step_def intro: watch_within_snoc)
next
  case (accepted ts s env p user r s')
  then show ?case using watch_step_of [OF accepted(2), of fid] by (simp add: watch_step_def watch_within_def)
next
  case (failed ts s env p user e r s')
  then show ?case using watch_step_of [OF failed(2), of fid] by (auto simp: watch_step_def watch_within_def split: if_splits)
next
  case (another ts s env p user r s')
  then show ?case using watch_step_of [OF another(2), of fid] by (simp add: watch_step_def)
qed simp

section \<open>Properties\<close>

text \<open>
  C8. No feed ever blocks the operator's own networks: through any updates the web process sends,
  with any text in them, across restarts and with any failure on the way, the copies the core keeps
  hold no address of 10/8, 172.16/12, 192.168/16, loopback, link-local, carrier-grade NAT or
  multicast space, nothing of IPv6 outside 2000::/3 and no documentation prefix; so the table built
  from them drops no packet from there for a feed, and neither do the sets a refresh loaded.
\<close>

theorem private_sources_never_in_feeds:
  assumes "feed_life s" "wf_packet p" "\<not> global_addr (packet_src p)"
    "fst (feedstore_Contents None (Feeds rs) (fwStore s)) = Inr copies"
    "build_batch mg rs opts net (\<lambda>fid. case copies fid of None \<Rightarrow> [] | Some ps \<Rightarrow> ps) detected = Inr (k, batch)"
  shows "\<not> in_feeds (loaded m batch) (Feeds rs) p \<and>
    (\<forall>r fid ps q. kernel (fwWorld s) = Filtering r \<longrightarrow> rsFeeds r fid = Some ps \<longrightarrow> q \<in> set ps \<longrightarrow>
       \<not> Contains q (packet_src p))"
proof -
  note g = feed_life_global [OF assms(1)]
  then have ok: "store_ok (fwStore s)"
    and c: "copies_global (stored_contents (file_feeds (fsFile (fwStore s))))"
    by (simp_all add: halves_def global_store_def)
  have "\<not> Contains q (packet_src p)"
    if fid: "fid \<in> set (Feeds rs)" and q: "q \<in> set (case copies fid of None \<Rightarrow> [] | Some ps \<Rightarrow> ps)" for fid q
  proof -
    obtain ps where ps: "copies fid = Some ps" "q \<in> set ps" using q by (cases "copies fid") auto
    then have "stored_contents (file_feeds (fsFile (fwStore s))) fid = Some ps"
      using assms(4) fid by (auto simp: Contents_file [OF ok])
    then have "holds_global ps" using c unfolding copies_global_def by (blast intro: ranI)
    with ps(2) assms(3) show ?thesis by (auto simp: holds_global_def)
  qed
  then have "\<not> in_feeds (loaded m batch) (Feeds rs) p"
    unfolding in_feeds_loaded [OF assms(5,2)] feed_lists_def by blast
  moreover have "\<not> Contains q (packet_src p)"
    if "kernel (fwWorld s) = Filtering r" "rsFeeds r fid = Some ps" "q \<in> set ps" for r fid ps q
    using g that assms(3)
    by (auto simp: halves_def kernel_global_def copies_global_def holds_global_def ran_def)
  ultimately show ?thesis by blast
qed

text \<open>
  What the core keeps of the entries it was sent: exactly the prefixes that parse and lie in
  globally routed space, sorted and without duplicates, none broader than the feed's bound, and
  every other entry that parsed is counted as dropped.  One entry that does not parse refuses the
  whole version.
\<close>

theorem validateFeedEntries_exact:
  assumes "validateFeedEntries fid es = Inr (kept, dropped)"
  shows "length es \<le> 100000 \<and> distinct kept \<and> sorted (map prefix_key kept) \<and>
    set kept = {p. \<exists>e\<in>set es. feedPrefix (trim_space e) = Some p \<and> isGlobal p} \<and>
    dropped = length (filter entry_dropped es) \<and>
    (\<forall>e\<in>set es. feedPrefix (trim_space e) \<noteq> None) \<and>
    (\<forall>p\<in>set kept. (if Is4 (paddr p) then fst (FeedMaxBits fid) else snd (FeedMaxBits fid)) \<le> pbits p)"
proof (intro conjI ballI)
  show "length es \<le> 100000" using validated_kept(1) [OF assms] by (simp add: FeedMaxEntries_def)
  show "distinct kept" "sorted (map prefix_key kept)" "dropped = length (filter entry_dropped es)"
    using validated_kept(2,3,5) [OF assms] by simp_all
  show "set kept = {p. \<exists>e\<in>set es. feedPrefix (trim_space e) = Some p \<and> isGlobal p}"
    using validated_kept(4) [OF assms] by (simp add: entry_kept_def)
  show "feedPrefix (trim_space e) \<noteq> None" if "e \<in> set es" for e
    using validated_parsed [OF assms that] .
  show "(if Is4 (paddr p) then fst (FeedMaxBits fid) else snd (FeedMaxBits fid)) \<le> pbits p" if "p \<in> set kept" for p
    using validated_kept(8) [OF assms that] .
qed

text \<open>
  C10. A refused update changes nothing: when no other goroutine acts meanwhile, whatever reason an
  update is refused for, at whatever step and with any operation failing, the file of copies is as it
  was, and the kernel's table is too, with two exceptions, in which the set of this one feed and
  nothing else of the table is the new one: a version already loaded when writing the file failed,
  which the answer reports as loaded, and a load the kernel committed but whose answer overflowed the
  receive buffer, which the answer reports as refused.
\<close>

theorem refused_update_changes_nothing:
  assumes "\<And>k. others env k = []" "run_state (UpdateFeed env p user) s = ((Some e, res), s')"
  shows "fsFile (fwStore s') = fsFile (fwStore s) \<and>
    (kernel (fwWorld s') = kernel (fwWorld s) \<or>
     (\<exists>rs ps. kernel (fwWorld s) = Filtering rs \<and>
        kernel (fwWorld s') = Filtering (rs\<lparr>rsFeeds := (rsFeeds rs)(ufID p \<mapsto> ps)\<rparr>)) \<and>
     (ufLoaded res \<or> (\<exists>k e. flush env k = Overflowed True e)))"
proof -
  have u: "undisturbed env" using assms(1) by (simp add: undisturbed_def)
  then have "unchanged env (kernel (fwWorld s)) (fsFile (fwStore s)) s"
    by (simp add: halves_def kernel_is_def file_is_def)
  from wp_result [OF tripleD [OF UpdateFeed_refusal [OF u] this] assms(2)]
  show ?thesis by (auto simp: refusal_keeps_def tolerated_def feed_swapped_def answer_lost_def)
qed

text \<open>
  C9. A truncated download cannot replace a list the kernel is running: a version with less than
  seventy percent of the stored entries is taken only when, since the last version of that feed was
  accepted, at least two were refused as shrunk, one of them a day or more ago and another one
  after it.
\<close>

theorem shrink_needs_a_day:
  assumes "shrink_history (ufID p) ts s" "run_state (UpdateFeed env p user) s = ((None, res), s')"
    "ufLoaded res" "\<not> IsCountryFeedID (ufID p)" "ufAfter res * 100 < ufBefore res * 70"
  shows "\<exists>i. i + 2 \<le> length ts \<and> 24 * 3600 * 1000000000 \<le> fwNow s' - ts ! i"
proof -
  obtain w where "fwShrink s (ufID p) = Some w" "2 \<le> swSeen w" "shrinkAcceptAfter \<le> fwNow s' - swSince w"
    using watch_step_of [OF assms(2), of "ufID p"] assms(3-5)
    by (auto simp: watch_step_def shrinks_def FeedShrinkPercent_def)
  with shrink_history_watch [OF assms(1)] obtain i where
    "2 \<le> length ts - i" "shrinkAcceptAfter \<le> fwNow s' - ts ! i"
    by (auto simp: watch_within_def)
  then show ?thesis by (intro exI [of _ i]) (simp add: shrinkAcceptAfter_def)
qed

end
