(* ===== verification/FeedRuns.thy ===== *)
theory FeedRuns
  imports FeedSafety TableRuns LifecycleRuns
begin

text \<open>Concrete updates of a feed, on which the properties of the copies are applied and evaluated.\<close>

section \<open>A copy stored and read back\<close>

definition listed_feed :: stored_feed where
  "listed_feed = \<lparr> sfPrefixes = [''192.0.2.0/24'', ''2A00:0001:0:0::8:0/112'', ''damaged''], sfEntries = 2, sfDropped = 0,
     sfChangedAt = 7, sfCheckedAt = 7 \<rparr>"

definition listed_store :: feed_store where
  "listed_store = feeds_step None None (PutFeed ''dshield'' listed_feed [''dshield'']) (NewFeedStore FeedsAbsent)"

lemma listed_reached: "feeds_reaches listed_store"
  unfolding listed_store_def by (intro feeds_reaches.intros)

theorem feed_copies_survive_restart_witness:
  "fst (feedstore_Contents None [''dshield''] listed_store) =
     fst (feedstore_Contents None [''dshield''] (NewFeedStore (fsFile listed_store))) \<and>
   (case fsFile listed_store of
      FeedsFile recs \<Rightarrow> map (sfPrefixes \<circ> snd) recs = [[''192.0.2.0/24'', ''2a00:1::8:0/112'']] | _ \<Rightarrow> False)"
proof -
  have "case fsFile listed_store of
      FeedsFile recs \<Rightarrow> map (sfPrefixes \<circ> snd) recs = [[''192.0.2.0/24'', ''2a00:1::8:0/112'']] | _ \<Rightarrow> False"
    by code_simp
  then show ?thesis using feed_copies_survive_restart [OF listed_reached, of "[''dshield'']"] by blast
qed

section \<open>Updates\<close>

definition live_rules :: rules where
  "live_rules = no_rules\<lparr>Feeds := [''dshield'']\<rparr>"

definition live_kernel :: kernel where
  "live_kernel = Filtering \<lparr> rsRules = live_rules, rsOptions = zero_options, rsNetwork = zero_network,
     rsFeeds = Map.empty, rsBridges = [], rsCustom = True, rsFinalLog = False \<rparr>"

definition live_world :: feed_world where
  "live_world = \<lparr> fwWorld = (example_world live_rules live_rules)\<lparr>kernel := live_kernel\<rparr>,
     fwStore = NewFeedStore FeedsAbsent, fwShrink = Map.empty, fwNow = 0 \<rparr>"

definition at_time :: "int \<Rightarrow> env" where
  "at_time t = quiet\<lparr>clock := (\<lambda>_. t)\<rparr>"

definition update_with :: "string list \<Rightarrow> update_feed_payload" where
  "update_with es = \<lparr> ufID = ''dshield'', ufEntries = es, ufNotModified = False \<rparr>"

definition updated :: "env \<Rightarrow> string list \<Rightarrow> feed_world \<Rightarrow> (feed_error option \<times> update_feed_result) \<times> feed_world" where
  "updated env es s = run_state (UpdateFeed env (update_with es) ''web'') s"

definition first_version :: feed_world where
  "first_version = snd (updated (at_time 1) [''192.0.2.0/24'', ''10.0.0.0/8''] live_world)"

lemma first_life: "feed_life first_version"
proof -
  have "kernel_global (fwWorld live_world)"
    by (simp add: kernel_global_def live_world_def live_kernel_def copies_global_def)
  then have "feed_life live_world" by (intro feed_life.fresh) (simp add: live_world_def)
  then show ?thesis
    unfolding first_version_def updated_def by (rule feed_life.update) (rule prod.collapse [symmetric])
qed

lemma first_file:
  "fsFile (fwStore first_version) =
     FeedsFile [(''dshield'', \<lparr> sfPrefixes = [''192.0.2.0/24''], sfEntries = 1, sfDropped = 1, sfChangedAt = 1,
       sfCheckedAt = 1 \<rparr>)]"
  by code_simp

definition first_copies :: "string \<rightharpoonup> pfx list" where
  "first_copies = [''dshield'' \<mapsto> [Prefix (Addr [192, 0, 2, 0] []) 24]]"

lemma first_ok: "store_ok (fwStore first_version)"
  using feed_life_global [OF first_life] by (simp add: halves_def global_store_def)

lemma first_read: "fst (feedstore_Contents None (Feeds live_rules) (fwStore first_version)) = Inr first_copies"
proof -
  have "List.map_filter ParsePrefix [''192.0.2.0/24''] = [Prefix (Addr [192, 0, 2, 0] []) 24]" by code_simp
  then have "stored_contents (file_feeds (fsFile (fwStore first_version))) |` set (Feeds live_rules) = first_copies"
    unfolding first_file
    by (intro ext) (simp add: stored_contents_def file_feeds_def newCachedFeed_prefixes first_copies_def live_rules_def
        restrict_map_def no_rules_def)
  then show ?thesis by (simp add: Contents_file [OF first_ok])
qed

definition first_batch :: "cmd list" where
  "first_batch =
     (case build_batch example_manager live_rules zero_options zero_network
        (\<lambda>fid. case first_copies fid of None \<Rightarrow> [] | Some ps \<Rightarrow> ps) [] of
        Inr (k, batch) \<Rightarrow> batch | Inl _ \<Rightarrow> [])"

lemma first_built:
  "\<exists>k. build_batch example_manager live_rules zero_options zero_network
     (\<lambda>fid. case first_copies fid of None \<Rightarrow> [] | Some ps \<Rightarrow> ps) [] = Inr (k, first_batch)"
proof -
  have "case build_batch example_manager live_rules zero_options zero_network
     (\<lambda>fid. case first_copies fid of None \<Rightarrow> [] | Some ps \<Rightarrow> ps) [] of
       Inr (k, batch) \<Rightarrow> True | Inl _ \<Rightarrow> False" by code_simp
  then show ?thesis by (auto simp: first_batch_def split: sum.splits)
qed

theorem private_sources_never_in_feeds_witness:
  "\<not> in_feeds (loaded quiet_meters first_batch) (Feeds live_rules) (tcp_packet [10, 1, 2, 3] [0, 22])"
proof -
  obtain k where b: "build_batch example_manager live_rules zero_options zero_network
     (\<lambda>fid. case first_copies fid of None \<Rightarrow> [] | Some ps \<Rightarrow> ps) [] = Inr (k, first_batch)"
    using first_built by blast
  have wf: "wf_packet (tcp_packet [10, 1, 2, 3] [0, 22])" by (rule example_wf) simp
  have "\<not> global_addr (packet_src (tcp_packet [10, 1, 2, 3] [0, 22]))" by code_simp
  from private_sources_never_in_feeds [OF first_life wf this first_read b] show ?thesis by simp
qed

theorem feed_lookup_matches_kernel_witness:
  "in_feeds (loaded quiet_meters first_batch) (Feeds live_rules) (tcp_packet [192, 0, 2, 77] [0, 22]) \<longleftrightarrow>
   fst (feedstore_Contains None ''dshield'' (Addr [192, 0, 2, 77] []) (NewFeedStore (fsFile (fwStore first_version))))"
proof -
  obtain k where b: "build_batch example_manager live_rules zero_options zero_network
     (\<lambda>fid. case first_copies fid of None \<Rightarrow> [] | Some ps \<Rightarrow> ps) [] = Inr (k, first_batch)"
    using first_built by blast
  have wf: "wf_packet (tcp_packet [192, 0, 2, 77] [0, 22])" by (rule example_wf) simp
  have r: "feeds_reaches (NewFeedStore (fsFile (fwStore first_version)))" by (rule feeds_reaches.start)
  have c: "fst (feedstore_Contents None (Feeds live_rules) (NewFeedStore (fsFile (fwStore first_version)))) = Inr first_copies"
    using first_read by (simp add: Contents_file [OF first_ok] Contents_file [OF NewFeedStore_ok])
  have src: "packet_src (tcp_packet [192, 0, 2, 77] [0, 22]) = Addr [192, 0, 2, 77] []" by code_simp
  show ?thesis
    using feed_lookup_matches_kernel [OF r c b wf, of quiet_meters] by (simp add: src live_rules_def)
qed

theorem validateFeedEntries_exact_witness:
  "\<exists>kept. validateFeedEntries ''dshield'' [''192.0.2.0/24'', '' 10.0.0.0/8 ''] = Inr (kept, 1) \<and>
     set kept = {p. \<exists>e\<in>{''192.0.2.0/24'', '' 10.0.0.0/8 ''}. feedPrefix (trim_space e) = Some p \<and> isGlobal p} \<and>
     kept = [Prefix (Addr [192, 0, 2, 0] []) 24]"
proof -
  have v: "validateFeedEntries ''dshield'' [''192.0.2.0/24'', '' 10.0.0.0/8 ''] =
    Inr ([Prefix (Addr [192, 0, 2, 0] []) 24], 1)" by code_simp
  from validateFeedEntries_exact [OF v] v show ?thesis by auto
qed

section \<open>Refusals\<close>

definition kept_store :: feed_store where
  "kept_store = NewFeedStore (FeedsFile [(''dshield'', \<lparr> sfPrefixes = [''1.1.1.1/32'', ''8.8.8.0/24'', ''9.9.9.9/32''],
     sfEntries = 3, sfDropped = 0, sfChangedAt = 1, sfCheckedAt = 1 \<rparr>)])"

definition kept_world :: feed_world where
  "kept_world = live_world\<lparr>fwStore := kept_store\<rparr>"

text \<open>One update with a single address, on a machine where nothing else happens.\<close>

definition steady :: "feed_world \<Rightarrow> bool" where
  "steady s \<longleftrightarrow> \<not> panicMarker (fwWorld s) \<and> \<not> applying (fwWorld s) \<and>
     Current (rulesFile (fwWorld s)) = live_rules \<and> kernel (fwWorld s) = live_kernel "

definition stored_three :: "feed_world \<Rightarrow> bool" where
  "stored_three s \<longleftrightarrow> fsLoaded (fwStore s) \<and>
     (\<exists>c. map_of (fsFeeds (fwStore s)) ''dshield'' = Some c \<and> sfEntries (cfRec c) = 3)"

lemma single_checked: "validateFeedEntries ''dshield'' [''1.1.1.1''] = Inr ([Prefix (Addr [1, 1, 1, 1] []) 32], 0)"
  by code_simp

lemma dshield_known: "KnownFeedID ''dshield''" "\<not> IsCountryFeedID ''dshield''"
  by code_simp+

lemma quiet_interfered: "interfered (at_time t) w = w"
  by (simp add: interfered_def at_time_def quiet_def)

lemma at_time_simps [simp]:
  "io (at_time t) k = IoOk" "statError (at_time t) k = False" "clock (at_time t) k = t" "flush (at_time t) k = Flushed"
  by (simp_all add: at_time_def quiet_def)

lemmas update_defs = UpdateFeed_def update_locked_def take_version_def shrink_guard_def auditFeedRefused_def
  PanicEngaged_def PanicState_def beginApply_def endApply_def GetState_def WriteAuditLog_def quiet_interfered

lemma live_feeds: "Feeds live_rules = [''dshield'']"
  by (simp add: live_rules_def)

lemma stored_three_Get:
  assumes "stored_three s"
  obtains r where "feedstore_Get rd ''dshield'' (fwStore s) = (Inr (Some r), fwStore s)" "sfEntries r = 3"
  using assms by (auto simp: stored_three_def feedstore_Get_def load_def stored_record_def)

lemma shrunk_run:
  assumes "steady s" "stored_three s" "case fwShrink s ''dshield'' of None \<Rightarrow> True | Some w \<Rightarrow> swSeen w < 2"
  shows "wp (UpdateFeed (at_time t) (update_with [''1.1.1.1'']) user)
    (\<lambda>r s'. r = (Some FeedShrank, no_update) \<and> steady s' \<and> stored_three s' \<and> fwNow s' = t \<and>
       fwShrink s' ''dshield'' =
         Some (case fwShrink s ''dshield'' of
                 None \<Rightarrow> \<lparr> swSince = t, swSeen = 1 \<rparr>
               | Some w \<Rightarrow> \<lparr> swSince = (if swSeen w = 0 then t else swSince w), swSeen = swSeen w + 1 \<rparr>)) s"
proof -
  obtain r where r: "\<And>rd. feedstore_Get rd ''dshield'' (fwStore s) = (Inr (Some r), fwStore s)" "sfEntries r = 3"
    using assms(2) by (auto simp: stored_three_def feedstore_Get_def load_def stored_record_def)
  show ?thesis
    using assms r
    by (cases "fwShrink s ''dshield''")
      (simp_all add: update_defs update_with_def wp_simps single_checked dshield_known live_feeds steady_def
        stored_three_def shrinks_def FeedShrinkPercent_def shrinkAcceptSeen_def Let_def)
qed

lemma Put_succeeds: "fsLoaded st \<Longrightarrow> fst (feedstore_Put None None fid f keep st) = None"
  by (simp add: feedstore_Put_def load_def write_feeds_def Let_def split: option.split)

lemma accepted_run:
  assumes "steady s" "stored_three s" "fwShrink s ''dshield'' = Some w" "swSeen w = 2" "shrinkAcceptAfter \<le> t - swSince w"
  shows "wp (UpdateFeed (at_time t) (update_with [''1.1.1.1'']) user)
    (\<lambda>r s'. fst r = None \<and> ufLoaded (snd r) \<and> ufBefore (snd r) = 3 \<and> ufAfter (snd r) = 1 \<and> fwNow s' = t) s"
proof -
  obtain r where r: "\<And>rd. feedstore_Get rd ''dshield'' (fwStore s) = (Inr (Some r), fwStore s)" "sfEntries r = 3"
    using assms(2) by (auto simp: stored_three_def feedstore_Get_def load_def stored_record_def)
  have ld: "fsLoaded (fwStore s)" using assms(2) by (simp add: stored_three_def)
  define later where "later fid f keep = snd (feedstore_Put None None fid f keep (fwStore s))" for fid f keep
  have put: "feedstore_Put None None fid f keep (fwStore s) = (None, later fid f keep)" for fid f keep
    using Put_succeeds [OF ld, of fid f keep] by (simp add: later_def prod_eq_iff)
  show ?thesis
    using assms r
    by (auto simp: put update_defs update_with_def wp_simps single_checked dshield_known live_feeds steady_def
        stored_three_def shrinks_def FeedShrinkPercent_def shrinkAcceptSeen_def Let_def store_version_def
        record_version_def load_feed_def replace_feed_def live_kernel_def)
qed

definition three_world :: feed_world where
  "three_world = live_world\<lparr>fwStore := snd (load None kept_store)\<rparr>"

definition single_at :: "int \<Rightarrow> feed_world \<Rightarrow> feed_world" where
  "single_at t s = snd (updated (at_time t) [''1.1.1.1''] s)"

lemma cached_entries: "sfEntries (cfRec (newCachedFeed f)) = sfEntries f"
  by (simp add: newCachedFeed_def Let_def split: prod.splits)

lemma three_ready: "steady three_world" "stored_three three_world" "fwShrink three_world ''dshield'' = None"
  "fwShrink three_world = Map.empty"
  by (simp_all add: steady_def stored_three_def three_world_def live_world_def example_world_def kept_store_def
      load_def NewFeedStore_def cached_entries file_feeds_def Let_def)

definition twice_refused :: feed_world where
  "twice_refused = single_at 2 (single_at 1 three_world)"

lemma single_refused:
  assumes "steady s" "stored_three s" "case fwShrink s ''dshield'' of None \<Rightarrow> True | Some w \<Rightarrow> swSeen w < 2"
  shows "run_state (UpdateFeed (at_time t) (update_with [''1.1.1.1'']) ''web'') s =
      ((Some FeedShrank, no_update), single_at t s)"
    "steady (single_at t s)" "stored_three (single_at t s)" "fwNow (single_at t s) = t"
    "fwShrink (single_at t s) ''dshield'' =
         Some (case fwShrink s ''dshield'' of
                 None \<Rightarrow> \<lparr> swSince = t, swSeen = 1 \<rparr>
               | Some w \<Rightarrow> \<lparr> swSince = (if swSeen w = 0 then t else swSince w), swSeen = swSeen w + 1 \<rparr>)"
  using shrunk_run [OF assms, of t "''web''"]
  by (auto simp: wp_def single_at_def updated_def split: prod.splits)

lemma twice_refused_ready:
  "steady twice_refused" "stored_three twice_refused" "shrink_history ''dshield'' [1, 2] twice_refused"
  "fwShrink twice_refused ''dshield'' = Some \<lparr> swSince = 1, swSeen = 2 \<rparr>"
proof -
  note first = single_refused [OF three_ready(1,2), of 1, unfolded three_ready(3), simplified]
  note second = single_refused [OF first(2,3), of 2, unfolded first(5), simplified, folded twice_refused_def]
  show "steady twice_refused" "stored_three twice_refused" by (fact second)+
  show "fwShrink twice_refused ''dshield'' = Some \<lparr> swSince = 1, swSeen = 2 \<rparr>"
    using second(5) by simp
  have id: "ufID (update_with es) = ''dshield''" for es by (simp add: update_with_def)
  have "shrink_history ''dshield'' [] three_world" by (rule shrink_history.start) (rule three_ready)
  from shrink_history.shrank [OF this first(1) id] first(4)
  have "shrink_history ''dshield'' [1] (single_at 1 three_world)" by simp
  from shrink_history.shrank [OF this second(1) id] second(4)
  show "shrink_history ''dshield'' [1, 2] twice_refused" by simp
qed

theorem shrink_needs_a_day_witness:
  "24 * 3600 * 1000000000 \<le> fwNow (single_at (1 + 24 * 3600 * 1000000000) twice_refused) - [1, 2] ! 0"
proof -
  let ?t = "1 + 24 * 3600 * 1000000000 :: int"
  obtain res where run: "run_state (UpdateFeed (at_time ?t) (update_with [''1.1.1.1'']) ''web'') twice_refused =
      ((None, res), single_at ?t twice_refused)"
    and res: "ufLoaded res" "ufBefore res = 3" "ufAfter res = 1"
    using accepted_run [OF twice_refused_ready(1,2,4), of ?t "''web''"]
    by (auto simp: wp_def single_at_def updated_def shrinkAcceptAfter_def split: prod.splits)
  have id: "ufID (update_with es) = ''dshield''" for es by (simp add: update_with_def)
  have "\<not> IsCountryFeedID ''dshield''" by (rule dshield_known)
  with shrink_needs_a_day [OF _ run, of "[1, 2]", unfolded id] twice_refused_ready(3) res
  obtain i where "i + 2 \<le> length [1, 2 :: int]"
    "24 * 3600 * 1000000000 \<le> fwNow (single_at ?t twice_refused) - [1, 2] ! i" by auto
  then show ?thesis by (cases i) auto
qed

theorem refused_update_changes_nothing_witness:
  "fsFile (fwStore twice_refused) = fsFile (fwStore (single_at 1 three_world)) \<and>
   kernel (fwWorld twice_refused) = kernel (fwWorld (single_at 1 three_world))"
proof -
  note first = single_refused [OF three_ready(1,2), of 1, unfolded three_ready(3), simplified]
  note second = single_refused(1) [OF first(2,3), of 2, unfolded first(5), simplified, folded twice_refused_def]
  have calm: "others (at_time 2) k = []" "flush (at_time 2) k \<noteq> Overflowed True e" for k e
    by (simp_all add: at_time_def quiet_def)
  from refused_update_changes_nothing [OF calm(1) second] calm(2) show ?thesis by (simp add: no_update_def)
qed

end
