(* ===== verification/PacketDecode.thy ===== *)
theory PacketDecode
  imports FeedUpdate "HOL-Library.Monad_Syntax"
begin

text \<open>
  The entries of the packet log (\<open>internal/shared/packetlog.go\<close>) and the decoding of a refused
  packet (\<open>internal/core/packetlog.go\<close>).  The bytes come from whoever sent the packet and the
  process that reads them is root, so every index and slice of the source is a step that can
  fail here: \<open>None\<close> is Go's run-time panic, and the decoder is shown never to reach it.
\<close>

unbundle bit_operations_syntax

section \<open>Entries\<close>

record packet_icmp =
  icType :: byte
  icCode :: byte

record packet_log_entry =
  plSeq :: "64 word"
  plTime :: int
  plRule :: string
  plFeed :: string
  plHook :: string
  plInDev :: string
  plFamily :: byte
  plSrc :: addr
  plDst :: addr
  plProto :: string
  plSrcPort :: "16 word"
  plDstPort :: "16 word"
  plTCPFlags :: string
  plTTL :: byte
  plLength :: "16 word"
  plCtState :: string
  plMark :: "32 word"
  plICMP :: "packet_icmp option"

definition zero_entry :: packet_log_entry where
  "zero_entry = \<lparr> plSeq = 0, plTime = 0, plRule = [], plFeed = [], plHook = [], plInDev = [], plFamily = 0,
     plSrc = zero_addr, plDst = zero_addr, plProto = [], plSrcPort = 0, plDstPort = 0, plTCPFlags = [],
     plTTL = 0, plLength = 0, plCtState = [], plMark = 0, plICMP = None \<rparr>"

section \<open>Log prefixes\<close>

definition PacketLogRules :: "string list" where
  "PacketLogRules =
     [''ssh'', ''icmp_flood'', ''syn_flood'', ''tcp_rst'', ''portscan'', ''invalid'', ''fragment'', ''bogon'',
      ''blocklist'', ''feed'', ''drop'']"

definition PacketLogRuleOther :: string where "PacketLogRuleOther = ''other''"

definition oldListNames :: "(string \<times> string) list" where
  "oldListNames = [(''blacklist'', ''blocklist''), (''whitelist'', ''allowlist'')]"

definition CurrentListName :: "string \<Rightarrow> string" where
  "CurrentListName s = (case map_of oldListNames s of Some n \<Rightarrow> n | None \<Rightarrow> s)"

definition logPrefixStem :: string where "logPrefixStem = ''easywall ''"

definition cut_prefix :: "string \<Rightarrow> string \<Rightarrow> string \<times> bool" where
  "cut_prefix s p = (if has_prefix s p then (drop (length p) s, True) else (s, False))"

definition trim_suffix :: "string \<Rightarrow> string \<Rightarrow> string" where
  "trim_suffix s t =
     (if length t \<le> length s \<and> drop (length s - length t) s = t then take (length s - length t) s else s)"

definition trim_right_set :: "char set \<Rightarrow> string \<Rightarrow> string" where
  "trim_right_set cs s = rev (dropWhile (\<lambda>c. c \<in> cs) (rev s))"

definition ParseLogPrefix :: "string \<Rightarrow> string \<times> string" where
  "ParseLogPrefix prefix =
     (case cut_prefix prefix logPrefixStem of
        (_, False) \<Rightarrow> (PacketLogRuleOther, [])
      | (name0, True) \<Rightarrow>
          let name = trim_right_set {CHR 0x00, CHR '' ''} name0 in
          (case cut_prefix name ''feed:'' of
             (fid0, True) \<Rightarrow>
               let fid = trim_space fid0 in if KnownFeedID fid then (''feed'', fid) else (''feed'', [])
           | (_, False) \<Rightarrow>
               let rule = CurrentListName
                     (map (\<lambda>c. if c = CHR ''-'' then CHR ''_'' else c) (trim_suffix name '':'')) in
               if rule \<in> set PacketLogRules then (rule, []) else (PacketLogRuleOther, [])))"

definition RuleFromPrefix :: "string \<Rightarrow> string" where
  "RuleFromPrefix prefix = fst (ParseLogPrefix prefix)"

section \<open>Bytes that may be out of range\<close>

definition byte_at :: "byte list \<Rightarrow> nat \<Rightarrow> byte option" where
  "byte_at b i = (if i < length b then Some (b ! i) else None)"

definition slice :: "byte list \<Rightarrow> nat \<Rightarrow> nat \<Rightarrow> byte list option" where
  "slice b i j = (if i \<le> j \<and> j \<le> length b then Some (take (j - i) (drop i b)) else None)"

definition be_uint16 :: "byte list \<Rightarrow> nat \<Rightarrow> 16 word option" where
  "be_uint16 b i = map_option (\<lambda>s. word_of_nat (be_nat s)) (slice b i (i + 2))"

section \<open>The decoder\<close>

definition hookName :: "byte \<Rightarrow> string" where
  "hookName h = (if h = 1 then ''input'' else if h = 2 then ''forward'' else [])"

definition ctState :: "32 word option \<Rightarrow> string" where
  "ctState info =
     (case info of
        None \<Rightarrow> []
      | Some i \<Rightarrow>
          if i = 0 \<or> i = 3 then ''established''
          else if i = 1 \<or> i = 4 then ''related''
          else if i = 2 then ''new''
          else if i = 7 then ''untracked''
          else [])"

definition ipProtoName :: "byte \<Rightarrow> nat \<Rightarrow> string" where
  "ipProtoName p fam =
     (if p = IPPROTO_TCP then ''tcp''
      else if p = IPPROTO_UDP then ''udp''
      else if p = IPPROTO_ICMP \<and> fam = 4 then ''icmp''
      else if p = IPPROTO_ICMPV6 \<and> fam = 6 then ''icmpv6''
      else itoa (uint p))"

definition tcpFlagNames :: "string list" where
  "tcpFlagNames = [''FIN'', ''SYN'', ''RST'', ''PSH'', ''ACK'', ''URG'', ''ECE'', ''CWR'']"

definition tcpFlags :: "byte \<Rightarrow> string" where
  "tcpFlags b =
     join '','' (map snd (filter (\<lambda>(i, _). b AND push_bit i 1 \<noteq> 0) (enumerate 0 tcpFlagNames)))"

definition decodeTransport ::
  "packet_log_entry \<Rightarrow> byte \<Rightarrow> nat \<Rightarrow> byte list \<Rightarrow> (packet_log_entry \<times> bool) option" where
  "decodeTransport e0 proto fam b =
     (let e = e0\<lparr>plProto := ipProtoName proto fam\<rparr> in
      if proto = IPPROTO_TCP then
        if length b < 20 then Some (e, False)
        else do {
          sp \<leftarrow> be_uint16 b 0;
          dp \<leftarrow> be_uint16 b 2;
          fl \<leftarrow> byte_at b 13;
          Some (e\<lparr>plSrcPort := sp, plDstPort := dp, plTCPFlags := tcpFlags fl\<rparr>, True)
        }
      else if proto = IPPROTO_UDP then
        if length b < 8 then Some (e, False)
        else do {
          sp \<leftarrow> be_uint16 b 0;
          dp \<leftarrow> be_uint16 b 2;
          Some (e\<lparr>plSrcPort := sp, plDstPort := dp\<rparr>, True)
        }
      else if proto = IPPROTO_ICMP \<or> proto = IPPROTO_ICMPV6 then
        if length b < 2 then Some (e, False)
        else if plProto e = ''icmp'' \<or> plProto e = ''icmpv6'' then do {
          t \<leftarrow> byte_at b 0;
          c \<leftarrow> byte_at b 1;
          Some (e\<lparr>plICMP := Some \<lparr> icType = t, icCode = c \<rparr>\<rparr>, True)
        }
        else Some (e, True)
      else Some (e, True))"

definition decodeIPv4 :: "packet_log_entry \<Rightarrow> byte list \<Rightarrow> (packet_log_entry \<times> bool) option" where
  "decodeIPv4 e0 b =
     (if length b < 20 then Some (e0, False)
      else do {
        b0 \<leftarrow> byte_at b 0;
        let ihl = unat (b0 AND 0x0f) * 4;
        if ihl < 20 \<or> length b < ihl then Some (e0, False)
        else do {
          len \<leftarrow> be_uint16 b 2;
          ttl \<leftarrow> byte_at b 8;
          src \<leftarrow> slice b 12 16;
          dst \<leftarrow> slice b 16 20;
          let e = e0\<lparr>plFamily := 4, plLength := len, plTTL := ttl, plSrc := Addr src [], plDst := Addr dst []\<rparr>;
          frag \<leftarrow> be_uint16 b 6;
          proto \<leftarrow> byte_at b 9;
          if frag AND 0x1fff \<noteq> 0 then Some (e\<lparr>plProto := ipProtoName proto 4\<rparr>, True)
          else do {
            rest \<leftarrow> slice b ihl (length b);
            decodeTransport e proto 4 rest
          }
        }
      })"

text \<open>The loop over at most eight extension headers.\<close>

fun v6_headers ::
  "nat \<Rightarrow> packet_log_entry \<Rightarrow> byte \<Rightarrow> byte list \<Rightarrow> (packet_log_entry \<times> bool) option" where
  "v6_headers 0 e nxt rest = Some (e, False)"
| "v6_headers (Suc k) e nxt rest =
     (if nxt = 0 \<or> nxt = 43 \<or> nxt = 60 then
        if length rest < 8 then Some (e, False)
        else do {
          l \<leftarrow> byte_at rest 1;
          let n = (unat l + 1) * 8;
          if length rest < n then Some (e, False)
          else do {
            nxt' \<leftarrow> byte_at rest 0;
            rest' \<leftarrow> slice rest n (length rest);
            v6_headers k e nxt' rest'
          }
        }
      else if nxt = 44 then
        if length rest < 8 then Some (e, False)
        else do {
          off \<leftarrow> be_uint16 rest 2;
          nxt' \<leftarrow> byte_at rest 0;
          rest' \<leftarrow> slice rest 8 (length rest);
          if drop_bit 3 off \<noteq> 0 then Some (e\<lparr>plProto := ipProtoName nxt' 6\<rparr>, True)
          else v6_headers k e nxt' rest'
        }
      else decodeTransport e nxt 6 rest)"

definition decodeIPv6 :: "packet_log_entry \<Rightarrow> byte list \<Rightarrow> (packet_log_entry \<times> bool) option" where
  "decodeIPv6 e0 b =
     (if length b < 40 then Some (e0, False)
      else do {
        len \<leftarrow> be_uint16 b 4;
        ttl \<leftarrow> byte_at b 7;
        src \<leftarrow> slice b 8 24;
        dst \<leftarrow> slice b 24 40;
        nxt \<leftarrow> byte_at b 6;
        rest \<leftarrow> slice b 40 (length b);
        v6_headers 8
          (e0\<lparr>plFamily := 6, plLength := word_of_nat (min (40 + unat len) 65535), plTTL := ttl,
              plSrc := Addr src [], plDst := Addr dst []\<rparr>) nxt rest
      })"

definition decodeHeaders :: "packet_log_entry \<Rightarrow> byte list \<Rightarrow> (packet_log_entry \<times> bool) option" where
  "decodeHeaders e b =
     (if b = [] then Some (e, False)
      else do {
        b0 \<leftarrow> byte_at b 0;
        if drop_bit 4 b0 = 4 then decodeIPv4 e b
        else if drop_bit 4 b0 = 6 then decodeIPv6 e b
        else Some (e, False)
      })"

text \<open>What \<open>go-nflog\<close> hands over: the attributes the kernel sent.\<close>

record nflog_attribute =
  naPayload :: "byte list option"
  naPrefix :: "string option"
  naTimestamp :: "int option"
  naInDev :: "32 word option"
  naHook :: "byte option"
  naMark :: "32 word option"
  naCtInfo :: "32 word option"

definition entryFromAttribute ::
  "nflog_attribute \<Rightarrow> (32 word \<Rightarrow> string) \<Rightarrow> int \<Rightarrow> (packet_log_entry \<times> bool) option" where
  "entryFromAttribute a ifname now =
     (case naPayload a of
        None \<Rightarrow> Some (zero_entry, False)
      | Some payload \<Rightarrow>
          let (rule, feed) = (case naPrefix a of None \<Rightarrow> (PacketLogRuleOther, []) | Some p \<Rightarrow> ParseLogPrefix p);
              e = zero_entry\<lparr>plRule := rule, plFeed := feed,
                    plTime := (case naTimestamp a of None \<Rightarrow> now | Some t \<Rightarrow> t),
                    plInDev := (case naInDev a of None \<Rightarrow> [] | Some i \<Rightarrow> ifname i),
                    plHook := (case naHook a of None \<Rightarrow> [] | Some h \<Rightarrow> hookName h),
                    plMark := (case naMark a of None \<Rightarrow> 0 | Some m \<Rightarrow> m),
                    plCtState := ctState (naCtInfo a)\<rparr>
          in do {
            (e', ok) \<leftarrow> decodeHeaders e payload;
            if \<not> ok then Some (zero_entry, False) else Some (e', True)
          })"

section \<open>Reads in range\<close>

named_theorems in_range \<open>reads that succeed\<close>

lemma byte_at_in [in_range]: "i < length b \<Longrightarrow> byte_at b i = Some (b ! i)"
  by (simp add: byte_at_def)

lemma slice_in [in_range]: "i \<le> j \<Longrightarrow> j \<le> length b \<Longrightarrow> slice b i j = Some (take (j - i) (drop i b))"
  by (simp add: slice_def)

lemma be_uint16_in [in_range]:
  "i + 2 \<le> length b \<Longrightarrow> be_uint16 b i = Some (word_of_nat (be_nat (take 2 (drop i b))))"
  by (simp add: be_uint16_def slice_def)

lemma slice_rest [in_range]: "n \<le> length b \<Longrightarrow> slice b n (length b) = Some (drop n b)"
  by (simp add: slice_def)

lemma slice_captured:
  "n \<le> length (take m b) \<Longrightarrow> slice (take m b) n (length (take m b)) = Some (take (m - n) (drop n b))"
  by (simp only: slice_rest drop_take)

section \<open>The decoder always returns\<close>

definition returns :: "'a option \<Rightarrow> bool" where
  "returns m \<longleftrightarrow> m \<noteq> None"

lemma returns_Some: "returns (Some x)"
  by (simp add: returns_def)

lemma returns_if: "(c \<Longrightarrow> returns a) \<Longrightarrow> (\<not> c \<Longrightarrow> returns b) \<Longrightarrow> returns (if c then a else b)"
  by simp

lemma returns_Let: "(\<And>x. x = v \<Longrightarrow> returns (f x)) \<Longrightarrow> returns (Let v f)"
  by simp

lemma returns_byte_at: "i < length b \<Longrightarrow> (\<And>x. x = b ! i \<Longrightarrow> returns (f x)) \<Longrightarrow> returns (byte_at b i \<bind> f)"
  by (simp add: in_range)

lemma returns_slice: "i \<le> j \<Longrightarrow> j \<le> length b \<Longrightarrow> (\<And>x. returns (f x)) \<Longrightarrow> returns (slice b i j \<bind> f)"
  by (simp add: in_range)

lemma returns_be_uint16: "i + 2 \<le> length b \<Longrightarrow> (\<And>x. returns (f x)) \<Longrightarrow> returns (be_uint16 b i \<bind> f)"
  by (simp add: in_range)

lemmas returns_rules = returns_Some returns_if returns_Let returns_byte_at returns_slice returns_be_uint16

lemma decodeTransport_returns: "returns (decodeTransport e proto fam b)"
  unfolding decodeTransport_def by (intro returns_rules) linarith+

lemma v6_headers_returns: "returns (v6_headers k e nxt rest)"
proof (induction k arbitrary: e nxt rest)
  case (Suc k)
  show ?case
    unfolding v6_headers.simps by (intro returns_rules Suc decodeTransport_returns) linarith+
qed (simp add: returns_Some)

lemma decodeIPv4_returns: "returns (decodeIPv4 e b)"
  unfolding decodeIPv4_def by (intro returns_rules decodeTransport_returns) linarith+

lemma decodeIPv6_returns: "returns (decodeIPv6 e b)"
  unfolding decodeIPv6_def by (intro returns_rules v6_headers_returns) linarith+

lemma decodeHeaders_returns: "returns (decodeHeaders e b)"
  unfolding decodeHeaders_def by (intro returns_rules decodeIPv4_returns decodeIPv6_returns) simp

lemma entryFromAttribute_returns: "returns (entryFromAttribute a ifname now)"
proof (cases "naPayload a")
  case (Some payload)
  obtain rule feed where "(case naPrefix a of None \<Rightarrow> (PacketLogRuleOther, []) | Some p \<Rightarrow> ParseLogPrefix p) = (rule, feed)"
    by fastforce
  with Some decodeHeaders_returns show ?thesis
    by (auto simp: entryFromAttribute_def Let_def returns_def bind_eq_None_conv split: prod.splits if_splits)
qed (simp add: entryFromAttribute_def returns_Some)

section \<open>What a packet's bytes say\<close>

text \<open>The chain of IPv6 headers (RFC 8200): the protocol it ends in and the bytes of its header, none of a later fragment.\<close>

inductive v6_chain :: "byte \<Rightarrow> byte list \<Rightarrow> byte \<Rightarrow> byte list \<Rightarrow> bool" where
  upper: "nxt \<notin> {0, 43, 60, 44} \<Longrightarrow> v6_chain nxt b nxt b"
| extension: "nxt \<in> {0, 43, 60} \<Longrightarrow> 8 \<le> length b \<Longrightarrow> (unat (b ! 1) + 1) * 8 \<le> length b \<Longrightarrow>
    v6_chain (b ! 0) (drop ((unat (b ! 1) + 1) * 8) b) proto body \<Longrightarrow> v6_chain nxt b proto body"
| fragment: "8 \<le> length b \<Longrightarrow> be_nat (take 2 (drop 2 b)) div 8 = 0 \<Longrightarrow>
    v6_chain (b ! 0) (drop 8 b) proto body \<Longrightarrow> v6_chain 44 b proto body"
| later: "8 \<le> length b \<Longrightarrow> be_nat (take 2 (drop 2 b)) div 8 \<noteq> 0 \<Longrightarrow> v6_chain 44 b (b ! 0) []"

text \<open>The packet the kernel makes of the bytes of a frame.\<close>

definition frames :: "byte list \<Rightarrow> packet \<Rightarrow> bool" where
  "frames b p \<longleftrightarrow>
     pkNet p = b \<and> wf_packet p \<and>
     (if pkFamily p = familyIPv4
      then drop_bit 4 (b ! 0) = 4 \<and> pkProto p = b ! 9 \<and>
           pkTrans p = (if be_nat (take 2 (drop 6 b)) mod 8192 = 0 then drop (unat (b ! 0 AND 0x0f) * 4) b else [])
      else drop_bit 4 (b ! 0) = 6 \<and> v6_chain (b ! 6) (drop 40 b) (pkProto p) (pkTrans p))"

text \<open>An entry filled in from a transport header.\<close>

definition described :: "packet_log_entry \<Rightarrow> packet_log_entry \<Rightarrow> byte \<Rightarrow> nat \<Rightarrow> byte list \<Rightarrow> bool" where
  "described e e' proto fam body \<longleftrightarrow>
     plFamily e' = plFamily e \<and> plSrc e' = plSrc e \<and> plDst e' = plDst e \<and> plRule e' = plRule e \<and>
     plHook e' = plHook e \<and> plProto e' = ipProtoName proto fam \<and>
     plDstPort e' = (if (proto = IPPROTO_TCP \<or> proto = IPPROTO_UDP) \<and> body \<noteq> []
       then word_of_nat (be_nat (take 2 (drop 2 body))) else plDstPort e) \<and>
     ((proto = IPPROTO_TCP \<or> proto = IPPROTO_UDP) \<and> body \<noteq> [] \<longrightarrow> 4 \<le> length body) \<and>
     plICMP e' = (if (proto = IPPROTO_ICMP \<and> fam = 4 \<or> proto = IPPROTO_ICMPV6 \<and> fam = 6) \<and> body \<noteq> []
       then Some \<lparr> icType = body ! 0, icCode = body ! 1 \<rparr> else plICMP e)"

lemma ipProtoName_icmp:
  "ipProtoName proto fam = ''icmp'' \<longleftrightarrow> proto = IPPROTO_ICMP \<and> fam = 4"
  "ipProtoName proto fam = ''icmpv6'' \<longleftrightarrow> proto = IPPROTO_ICMPV6 \<and> fam = 6"
proof -
  have d: "list_all is_digit (itoa (uint p))" for p :: byte
    by (simp add: itoa_def digits_of_digits)
  have "\<not> list_all is_digit ''icmp''" "\<not> list_all is_digit ''icmpv6''" by code_simp+
  with d have "itoa (uint p) \<noteq> ''icmp''" "itoa (uint p) \<noteq> ''icmpv6''" for p :: byte by metis+
  then show "ipProtoName proto fam = ''icmp'' \<longleftrightarrow> proto = IPPROTO_ICMP \<and> fam = 4"
    "ipProtoName proto fam = ''icmpv6'' \<longleftrightarrow> proto = IPPROTO_ICMPV6 \<and> fam = 6"
    by (simp_all add: ipProtoName_def)
qed

lemma decodeTransport_described:
  assumes "decodeTransport e proto fam (take m b) = Some (e', True)"
  shows "described e e' proto fam b"
  using assms
  by (auto simp: decodeTransport_def described_def Let_def in_range ipProtoName_icmp min_def drop_take
      split: if_splits)

section \<open>The decoder reads what the kernel matched\<close>

lemma later_offset: "drop_bit 3 (word_of_nat n :: 16 word) = 0 \<longleftrightarrow> n div 8 = 0" if "n < 65536" for n
proof -
  have "unat (word_of_nat n :: 16 word) = n" using that by (simp add: unat_of_nat)
  then have "unat (drop_bit 3 (word_of_nat n :: 16 word)) = n div 8"
    by (simp add: drop_bit_eq_div unat_div_distrib)
  then show ?thesis by (metis unat_eq_zero)
qed

lemma later_mask: "word_of_nat n AND 0x1fff = (0 :: 16 word) \<longleftrightarrow> n mod 8192 = 0" if "n < 65536" for n
proof -
  have "(0x1fff :: 16 word) = mask 13" by (simp add: mask_eq_exp_minus_1)
  then have "word_of_nat n AND 0x1fff = take_bit 13 (word_of_nat n :: 16 word)" by (simp only: take_bit_eq_mask)
  then have "unat (word_of_nat n AND 0x1fff :: 16 word) = n mod 8192"
    using that by (simp only: unsigned_take_bit_eq) (simp add: take_bit_eq_mod unat_of_nat)
  then show ?thesis by (metis unat_eq_zero)
qed

lemma two_byte_bound: "be_nat (take 2 b) < 65536"
proof -
  have "(256 :: nat) ^ length (take 2 b) \<le> 256 ^ 2" by (intro power_increasing) auto
  with be_nat_less [of "take 2 b"] show ?thesis by simp
qed

lemma v6_headers_described:
  assumes "v6_chain nxt b proto body" "v6_headers k e nxt (take m b) = Some (e', True)"
  shows "described e e' proto 6 body"
  using assms
proof (induction nxt b proto body arbitrary: k m rule: v6_chain.induct)
  case (upper nxt b)
  then show ?case by (cases k) (auto intro: decodeTransport_described)
next
  case (extension nxt b proto body)
  let ?n = "(unat (b ! 1) + 1) * 8"
  from extension.prems obtain j where k: "k = Suc j" by (cases k) auto
  have l: "8 \<le> length (take m b)" using extension.prems extension.hyps(1) unfolding k by (auto split: if_splits)
  then have m: "take m b ! 1 = b ! 1" "take m b ! Suc 0 = b ! 1" "take m b ! 0 = b ! 0" by simp_all
  have "?n \<le> length (take m b) \<and> v6_headers j e (b ! 0) (drop ?n (take m b)) = Some (e', True)"
    using extension.prems extension.hyps(1) l unfolding k v6_headers.simps
    by (auto simp: byte_at_def slice_rest m Let_def simp del: length_take length_greater_0_conv split: if_splits)
  then show ?case using extension.IH [of j "m - ?n"] by (simp add: drop_take)
next
  case (fragment b proto body)
  from fragment.prems obtain j where k: "k = Suc j" by (cases k) auto
  have l: "8 \<le> length (take m b)" using fragment.prems unfolding k by (auto split: if_splits)
  then have m: "8 \<le> m" and n: "take m b ! 0 = b ! 0" by simp_all
  have "drop_bit 3 (word_of_nat (be_nat (take 2 (drop 2 b))) :: 16 word) = 0"
    using later_offset [OF two_byte_bound [of "drop 2 b"]] fragment.hyps(2) by simp
  with fragment.prems l m have "v6_headers j e (b ! 0) (take (m - 8) (drop 8 b)) = Some (e', True)"
    unfolding k
    by (auto simp: byte_at_def be_uint16_in slice_captured n drop_take simp del: length_take length_greater_0_conv)
  then show ?case by (rule fragment.IH)
next
  case (later b)
  from later.prems obtain j where k: "k = Suc j" by (cases k) auto
  have l: "8 \<le> length (take m b)" using later.prems unfolding k by (auto split: if_splits)
  then have m: "8 \<le> m" and n: "take m b ! 0 = b ! 0" by simp_all
  have "drop_bit 3 (word_of_nat (be_nat (take 2 (drop 2 b))) :: 16 word) \<noteq> 0"
    using later_offset [OF two_byte_bound [of "drop 2 b"]] later.hyps(2) by simp
  with later.prems l m have "e' = e\<lparr>plProto := ipProtoName (b ! 0) 6\<rparr>"
    unfolding k
    by (auto simp: byte_at_def be_uint16_in slice_captured n drop_take simp del: length_take length_greater_0_conv)
  then show ?case by (simp add: described_def)
qed

lemma decodeIPv4_described:
  assumes "decodeIPv4 e (take m b) = Some (e', True)" "20 \<le> length b"
  shows "20 \<le> m" "described (e\<lparr>plFamily := 4, plSrc := Addr (take 4 (drop 12 b)) [], plDst := Addr (take 4 (drop 16 b)) []\<rparr>)
    e' (b ! 9) 4 (if be_nat (take 2 (drop 6 b)) mod 8192 = 0 then drop (unat (b ! 0 AND 0x0f) * 4) b else [])"
proof -
  let ?ihl = "unat (b ! 0 AND 0x0f) * 4"
  have l: "20 \<le> length (take m b)" using assms(1) by (auto simp: decodeIPv4_def split: if_splits)
  then show m: "20 \<le> m" by simp
  have n: "take m b ! 0 = b ! 0" "take m b ! 9 = b ! 9" "take m b ! 8 = b ! 8" using m by simp_all
  define base where "base = e\<lparr>plFamily := 4, plLength := word_of_nat (be_nat (take 2 (drop 2 b))), plTTL := b ! 8,
    plSrc := Addr (take 4 (drop 12 b)) [], plDst := Addr (take 4 (drop 16 b)) []\<rparr>"
  have ihl: "20 \<le> ?ihl" "?ihl \<le> length (take m b)"
    using assms(1) l by (auto simp: decodeIPv4_def byte_at_def n Let_def simp del: length_take length_greater_0_conv split: if_splits)
  have run: "(if word_of_nat (be_nat (take 2 (drop 6 b))) AND (0x1fff :: 16 word) \<noteq> 0
      then Some (base\<lparr>plProto := ipProtoName (b ! 9) 4\<rparr>, True)
      else decodeTransport base (b ! 9) 4 (take (m - ?ihl) (drop ?ihl b))) = Some (e', True)"
    using assms(1) l m ihl
    by (simp add: decodeIPv4_def byte_at_def be_uint16_in slice_in [of 12 16] slice_in [of 16 20] slice_captured n Let_def base_def drop_take
        del: length_take length_greater_0_conv cong: if_cong split del: if_split)
  have "described base e' (b ! 9) 4 (if be_nat (take 2 (drop 6 b)) mod 8192 = 0 then drop ?ihl b else [])"
  proof (cases "be_nat (take 2 (drop 6 b)) mod 8192 = 0")
    case True
    with run later_mask [OF two_byte_bound] show ?thesis by (auto intro: decodeTransport_described)
  next
    case False
    with run later_mask [OF two_byte_bound] show ?thesis by (auto simp: described_def)
  qed
  then show "described (e\<lparr>plFamily := 4, plSrc := Addr (take 4 (drop 12 b)) [], plDst := Addr (take 4 (drop 16 b)) []\<rparr>)
    e' (b ! 9) 4 (if be_nat (take 2 (drop 6 b)) mod 8192 = 0 then drop ?ihl b else [])"
    by (simp add: described_def base_def)
qed

lemma decodeIPv6_described:
  assumes "decodeIPv6 e (take m b) = Some (e', True)" "v6_chain (b ! 6) (drop 40 b) proto body"
  shows "described (e\<lparr>plFamily := 6, plSrc := Addr (take 16 (drop 8 b)) [], plDst := Addr (take 16 (drop 24 b)) []\<rparr>)
    e' proto 6 body"
proof -
  have l: "40 \<le> length (take m b)" using assms(1) by (auto simp: decodeIPv6_def split: if_splits)
  then have m: "40 \<le> m" by simp
  have n: "take m b ! 6 = b ! 6" "take m b ! 7 = b ! 7" using m by simp_all
  define base where "base = e\<lparr>plFamily := 6,
    plLength := word_of_nat (min (40 + unat (word_of_nat (be_nat (take 2 (drop 4 b))) :: 16 word)) 65535), plTTL := b ! 7,
    plSrc := Addr (take 16 (drop 8 b)) [], plDst := Addr (take 16 (drop 24 b)) []\<rparr>"
  have "v6_headers 8 base (b ! 6) (take (m - 40) (drop 40 b)) = Some (e', True)"
    using assms(1) l m
    by (simp add: decodeIPv6_def byte_at_def be_uint16_in slice_in [of 8 24] slice_in [of 24 40] slice_captured n base_def drop_take
        del: length_take length_greater_0_conv)
  from v6_headers_described [OF assms(2) this] show ?thesis by (simp add: described_def base_def)
qed

section \<open>Properties\<close>

definition family_number :: "packet \<Rightarrow> nat" where
  "family_number p = (if pkFamily p = familyIPv4 then 4 else 6)"

text \<open>A row of the log describes the packet the table refused.\<close>

definition describes :: "packet_log_entry \<Rightarrow> packet \<Rightarrow> bool" where
  "describes e p \<longleftrightarrow>
     plFamily e = word_of_nat (family_number p) \<and> plSrc e = packet_src p \<and> plDst e = packet_dst p \<and>
     plProto e = ipProtoName (pkProto p) (family_number p) \<and>
     (if (pkProto p = IPPROTO_TCP \<or> pkProto p = IPPROTO_UDP) \<and> pkTrans p \<noteq> []
      then 4 \<le> length (pkTrans p) \<and> unat (plDstPort e) = dst_port p else plDstPort e = 0) \<and>
     plICMP e =
       (if (pkProto p = IPPROTO_ICMP \<and> family_number p = 4 \<or> pkProto p = IPPROTO_ICMPV6 \<and> family_number p = 6) \<and>
           pkTrans p \<noteq> []
        then Some \<lparr> icType = pkTrans p ! 0, icCode = pkTrans p ! 1 \<rparr> else None)"

lemma described_describes:
  assumes "described e e' (pkProto p) (family_number p) (pkTrans p)" "plFamily e = word_of_nat (family_number p)"
    "plSrc e = packet_src p" "plDst e = packet_dst p" "plDstPort e = 0" "plICMP e = None"
  shows "describes e' p"
proof -
  have "unat (word_of_nat (be_nat (take 2 (drop 2 (pkTrans p)))) :: 16 word) = dst_port p"
    using two_byte_bound [of "drop 2 (pkTrans p)"] by (simp add: dst_port_def unat_of_nat)
  with assms show ?thesis by (auto simp: described_def describes_def)
qed

lemma decodeHeaders_describes:
  assumes "frames b p" "decodeHeaders e (take m b) = Some (e', True)" "plDstPort e = 0" "plICMP e = None"
  shows "describes e' p \<and> plRule e' = plRule e \<and> plHook e' = plHook e"
proof -
  have wf: "wf_packet p" and net: "pkNet p = b" using assms(1) by (simp_all add: frames_def)
  have m: "m \<noteq> 0" "b \<noteq> []" using assms(2) by (auto simp: decodeHeaders_def split: if_splits)
  then have n: "byte_at (take m b) 0 = Some (b ! 0)" by (simp add: byte_at_def)
  show ?thesis
  proof (cases "pkFamily p = familyIPv4")
    case True
    with wf net have l: "20 \<le> length b" by (auto simp: wf_packet_def)
    have "decodeIPv4 e (take m b) = Some (e', True)"
      using assms(1,2) True m n by (simp add: frames_def decodeHeaders_def)
    from decodeIPv4_described(2) [OF this l] True assms(1) have d:
      "described (e\<lparr>plFamily := 4, plSrc := Addr (take 4 (drop 12 b)) [], plDst := Addr (take 4 (drop 16 b)) []\<rparr>)
        e' (pkProto p) (family_number p) (pkTrans p)"
      by (simp add: frames_def family_number_def)
    with described_describes [OF this] True net assms(3,4) show ?thesis
      by (simp add: family_number_def packet_src_def packet_dst_def described_def)
  next
    case False
    then have c: "v6_chain (b ! 6) (drop 40 b) (pkProto p) (pkTrans p)" using assms(1) by (simp add: frames_def)
    have "decodeIPv6 e (take m b) = Some (e', True)"
      using assms(1,2) False m n by (simp add: frames_def decodeHeaders_def)
    from decodeIPv6_described [OF this c] False have d:
      "described (e\<lparr>plFamily := 6, plSrc := Addr (take 16 (drop 8 b)) [], plDst := Addr (take 16 (drop 24 b)) []\<rparr>)
        e' (pkProto p) (family_number p) (pkTrans p)"
      by (simp add: family_number_def)
    with described_describes [OF this] False net assms(3,4) show ?thesis
      by (simp add: family_number_def packet_src_def packet_dst_def described_def)
  qed
qed

lemma entryFromAttribute_describes:
  assumes "naPayload a = Some (take m b)" "frames b p" "entryFromAttribute a ifname now = Some (e, True)"
  shows "describes e p" "plRule e = (case naPrefix a of None \<Rightarrow> PacketLogRuleOther | Some s \<Rightarrow> RuleFromPrefix s)"
proof -
  obtain rule feed where pre: "(case naPrefix a of None \<Rightarrow> (PacketLogRuleOther, []) | Some p \<Rightarrow> ParseLogPrefix p) = (rule, feed)"
    by fastforce
  define base where "base = zero_entry\<lparr>plRule := rule, plFeed := feed,
                    plTime := (case naTimestamp a of None \<Rightarrow> now | Some t \<Rightarrow> t),
                    plInDev := (case naInDev a of None \<Rightarrow> [] | Some i \<Rightarrow> ifname i),
                    plHook := (case naHook a of None \<Rightarrow> [] | Some h \<Rightarrow> hookName h),
                    plMark := (case naMark a of None \<Rightarrow> 0 | Some m \<Rightarrow> m),
                    plCtState := ctState (naCtInfo a)\<rparr>"
  have "decodeHeaders base (take m b) = Some (e, True)"
    using assms(1,3) pre by (auto simp: entryFromAttribute_def base_def Let_def bind_eq_Some_conv split: if_splits)
  from decodeHeaders_describes [OF assms(2) this] pre
  show "describes e p" "plRule e = (case naPrefix a of None \<Rightarrow> PacketLogRuleOther | Some s \<Rightarrow> RuleFromPrefix s)"
    by (simp_all add: base_def zero_entry_def RuleFromPrefix_def split: option.splits)
qed

text \<open>
  C23. The decoder of refused packets is safe on any bytes and tells the truth: whatever the kernel
  hands over, it returns without a run-time panic, following at most eight extension headers; and
  when it makes a row of the first bytes of a packet, however many were copied, the row names the
  packet's own addresses, protocol, destination port and ICMP type, a later fragment or an unread
  header leaving them empty.
\<close>

theorem decoder_returns_the_truth:
  "(\<exists>r. entryFromAttribute a ifname now = Some r) \<and>
   (naPayload a = Some (take m b) \<longrightarrow> frames b p \<longrightarrow> entryFromAttribute a ifname now = Some (e, True) \<longrightarrow>
      describes e p \<and> plRule e = (case naPrefix a of None \<Rightarrow> PacketLogRuleOther | Some s \<Rightarrow> RuleFromPrefix s))"
  using entryFromAttribute_returns [of a ifname now] entryFromAttribute_describes [of a m b p ifname now e]
  by (simp add: returns_def)

end
