(* ===== verification/PacketRing.thy ===== *)
theory PacketRing
  imports PacketDecode "HOL-Library.Signed_Division"
begin

text \<open>
  The packet log itself: the filter of \<open>GET_PACKET_LOG\<close> (\<open>internal/shared/packetlog.go\<close>), the ring
  of refused packets and its spill file (\<open>internal/core/packetlog.go\<close>).  The ring is shown to hold
  exactly the latest packets of the history, and the file to bring the ring back after a restart.
  A line of the file is an entry or a line that does not decode; the failures of appending,
  replacing and reading the file are inputs.
\<close>

section \<open>Filters\<close>

record packet_log_filter =
  pfSrc :: string
  pfDst :: string
  pfPort :: "16 word"
  pfProto :: string
  pfRule :: string
  pfInDev :: string
  pfLimit :: int
  pfBefore :: "64 word"
  pfCountry :: string

definition PacketLogProtos :: "string list" where
  "PacketLogProtos = [''tcp'', ''udp'', ''icmp'', ''icmpv6'']"

definition packetLogDefaultLimit :: int where "packetLogDefaultLimit = 200"
definition PacketLogMaxLimit :: int where "PacketLogMaxLimit = 1000"

definition zero_filter :: packet_log_filter where
  "zero_filter = \<lparr> pfSrc = [], pfDst = [], pfPort = 0, pfProto = [], pfRule = [], pfInDev = [], pfLimit = 0,
     pfBefore = 0, pfCountry = [] \<rparr>"

definition filter_IsZero :: "packet_log_filter \<Rightarrow> bool" where
  "filter_IsZero f \<longleftrightarrow> f = zero_filter"

definition addrOrPrefix :: "string \<Rightarrow> pfx option" where
  "addrOrPrefix s =
     (case ParseNetwork s of
        Some p \<Rightarrow> Some p
      | None \<Rightarrow>
          (case ParseAddr s of
             None \<Rightarrow> None
           | Some a0 \<Rightarrow> let a = WithZone (Unmap a0) [] in Some (Prefix a (BitLen a))))"

text \<open>The class \<open>[A-Za-z0-9._@-]\<close> and the regular expression around it.\<close>

definition iface_char :: "char \<Rightarrow> bool" where
  "iface_char c \<longleftrightarrow>
     (let n = (of_char c :: nat) in 65 \<le> n \<and> n \<le> 90 \<or> 97 \<le> n \<and> n \<le> 122 \<or> 48 \<le> n \<and> n \<le> 57) \<or>
     c \<in> set ''._@-''"

definition ifaceName :: "string \<Rightarrow> bool" where
  "ifaceName s \<longleftrightarrow> 1 \<le> length s \<and> length s \<le> 15 \<and> list_all iface_char s"

datatype filter_error =
    BadFilterSrc | BadFilterDst | BadFilterProto | BadFilterRule | BadFilterIn | BadFilterCountry | NegativeLimit

definition filter_Validate :: "packet_log_filter \<Rightarrow> filter_error option" where
  "filter_Validate f =
     (if pfSrc f \<noteq> [] \<and> addrOrPrefix (pfSrc f) = None then Some BadFilterSrc
      else if pfDst f \<noteq> [] \<and> addrOrPrefix (pfDst f) = None then Some BadFilterDst
      else if pfProto f \<noteq> [] \<and> pfProto f \<notin> set PacketLogProtos then Some BadFilterProto
      else if pfRule f \<noteq> [] \<and> pfRule f \<noteq> PacketLogRuleOther \<and> pfRule f \<notin> set PacketLogRules then Some BadFilterRule
      else if pfInDev f \<noteq> [] \<and> \<not> ifaceName (pfInDev f) then Some BadFilterIn
      else if pfCountry f \<noteq> [] \<and> pfCountry f \<notin> set CountryCodes then Some BadFilterCountry
      else if pfLimit f < 0 then Some NegativeLimit
      else None)"

definition EffectiveLimit :: "packet_log_filter \<Rightarrow> int" where
  "EffectiveLimit f = (if pfLimit f \<le> 0 then packetLogDefaultLimit else min (pfLimit f) PacketLogMaxLimit)"

definition in_filter :: "pfx option \<Rightarrow> addr \<Rightarrow> bool" where
  "in_filter q a \<longleftrightarrow> (case q of None \<Rightarrow> True | Some p \<Rightarrow> \<not> pfx_valid p \<or> Contains p (Unmap a))"

definition filter_match :: "packet_log_filter \<Rightarrow> packet_log_entry \<Rightarrow> bool" where
  "filter_match f e \<longleftrightarrow>
     in_filter (if pfSrc f = [] then None else addrOrPrefix (pfSrc f)) (plSrc e) \<and>
     in_filter (if pfDst f = [] then None else addrOrPrefix (pfDst f)) (plDst e) \<and>
     (pfPort f = 0 \<or> plDstPort e = pfPort f) \<and>
     (pfProto f = [] \<or> plProto e = pfProto f) \<and>
     (pfRule f = [] \<or> plRule e = pfRule f) \<and>
     (pfInDev f = [] \<or> plInDev e = pfInDev f) \<and>
     (pfBefore f = 0 \<or> plSeq e < pfBefore f)"

definition Matcher :: "packet_log_filter \<Rightarrow> filter_error + (packet_log_entry \<Rightarrow> bool)" where
  "Matcher f = (case filter_Validate f of Some err \<Rightarrow> Inl err | None \<Rightarrow> Inr (filter_match f))"

section \<open>The spill file\<close>

datatype spill_line = EntryLine packet_log_entry | TornLine

type_synonym disk = "spill_line list option"

record spill_file =
  spOpen :: bool
  spLines :: nat
  spLimit :: nat

text \<open>Whether an append fails, leaving a torn line or nothing; whether a replacement fails before or after the rename.\<close>

datatype append_outcome = Appended | AppendFails bool
datatype rewrite_outcome = Rewritten | RewriteFails string | ReopenFails string

record spill_io =
  ioAppend :: append_outcome
  ioRewrite :: rewrite_outcome

definition spill_rewrite ::
  "rewrite_outcome \<Rightarrow> packet_log_entry list \<Rightarrow> spill_file \<Rightarrow> disk \<Rightarrow> string option \<times> spill_file \<times> disk" where
  "spill_rewrite oc entries s d =
     (let closed = s\<lparr>spOpen := False\<rparr> in
      case oc of
        RewriteFails e \<Rightarrow> (Some e, closed, d)
      | ReopenFails e \<Rightarrow> (Some e, closed, Some (map EntryLine entries))
      | Rewritten \<Rightarrow> (None, closed\<lparr>spOpen := True, spLines := length entries\<rparr>, Some (map EntryLine entries)))"

definition spill_append ::
  "spill_io \<Rightarrow> packet_log_entry \<Rightarrow> packet_log_entry list \<Rightarrow> spill_file \<Rightarrow> disk \<Rightarrow> string option \<times> spill_file \<times> disk" where
  "spill_append sio e ring s d =
     (if \<not> spOpen s then (Some ''invalid argument'', s, d)
      else (case ioAppend sio of
              AppendFails torn \<Rightarrow>
                (Some ''write failed'', s, if torn then map_option (\<lambda>ls. ls @ [TornLine]) d else d)
            | Appended \<Rightarrow>
                let d' = map_option (\<lambda>ls. ls @ [EntryLine e]) d; s' = s\<lparr>spLines := spLines s + 1\<rparr> in
                if spLines s' > spLimit s' then spill_rewrite (ioRewrite sio) ring s' d' else (None, s', d')))"

section \<open>The ring\<close>

record packet_log =
  rgBuf :: "packet_log_entry list"
  rgNext :: nat
  rgN :: nat
  rgSeq :: "64 word"
  rgSince :: int
  rgDiscarded :: "64 word"
  rgLost :: "64 word"
  rgListening :: bool
  rgEverListened :: bool
  rgGroup :: "16 word"
  rgReason :: string
  rgSpill :: "spill_file option"

definition NewPacketLog :: "int \<Rightarrow> int \<Rightarrow> packet_log" where
  "NewPacketLog capacity now =
     \<lparr> rgBuf = replicate (nat (max capacity 1)) zero_entry, rgNext = 0, rgN = 0, rgSeq = 0, rgSince = now,
        rgDiscarded = 0, rgLost = 0, rgListening = False, rgEverListened = False, rgGroup = 0, rgReason = [],
        rgSpill = None \<rparr>"

definition push :: "packet_log_entry \<Rightarrow> packet_log \<Rightarrow> packet_log" where
  "push e p =
     p\<lparr>rgBuf := (rgBuf p)[rgNext p := e], rgNext := (rgNext p + 1) mod length (rgBuf p),
        rgN := (if rgN p < length (rgBuf p) then rgN p + 1 else rgN p)\<rparr>"

text \<open>Go's remainder takes the sign of the dividend.\<close>

definition ring_at :: "packet_log \<Rightarrow> nat \<Rightarrow> packet_log_entry" where
  "ring_at p i =
     (let l = int (length (rgBuf p))
      in rgBuf p ! nat (((int (rgNext p) - 1 - int i) smod l + l) smod l))"

definition oldestFirst :: "packet_log \<Rightarrow> packet_log_entry list" where
  "oldestFirst p = map (ring_at p) (rev [0..<rgN p])"

definition Add :: "spill_io \<Rightarrow> packet_log_entry \<Rightarrow> packet_log \<Rightarrow> disk \<Rightarrow> packet_log \<times> disk" where
  "Add sio e0 p0 d =
     (let p1 = p0\<lparr>rgSeq := rgSeq p0 + 1\<rparr>; e = e0\<lparr>plSeq := rgSeq p1\<rparr>; p = push e p1 in
      case rgSpill p of
        None \<Rightarrow> (p, d)
      | Some s \<Rightarrow>
          (case spill_append sio e (oldestFirst p) s d of
             (Some _, _, d') \<Rightarrow> (p\<lparr>rgSpill := None\<rparr>, d')
           | (None, s', d') \<Rightarrow> (p\<lparr>rgSpill := Some s'\<rparr>, d')))"

definition setListening :: "16 word \<Rightarrow> string option \<Rightarrow> packet_log \<Rightarrow> packet_log" where
  "setListening grpno err p =
     (let q = p\<lparr>rgGroup := grpno, rgListening := (err = None), rgReason := []\<rparr> in
      case err of Some e \<Rightarrow> q\<lparr>rgReason := e\<rparr> | None \<Rightarrow> q\<lparr>rgEverListened := True\<rparr>)"

definition countDiscarded :: "packet_log \<Rightarrow> packet_log" where
  "countDiscarded p = p\<lparr>rgDiscarded := rgDiscarded p + 1\<rparr>"

definition countLost :: "packet_log \<Rightarrow> packet_log" where
  "countLost p = p\<lparr>rgLost := rgLost p + 1\<rparr>"

text \<open>The callback for one message; \<open>None\<close> is a run-time panic in the decoder.\<close>

definition hook ::
  "spill_io \<Rightarrow> nflog_attribute \<Rightarrow> (32 word \<Rightarrow> string) \<Rightarrow> int \<Rightarrow> packet_log \<Rightarrow> disk \<Rightarrow> (packet_log \<times> disk) option" where
  "hook sio a ifname now p d =
     map_option (\<lambda>(e, ok). if ok then Add sio e p d else (countDiscarded p, d)) (entryFromAttribute a ifname now)"

text \<open>A read error: \<open>ENOBUFS\<close> is an overrun, anything else ends the listener.\<close>

definition onError :: "bool \<Rightarrow> string \<Rightarrow> packet_log \<Rightarrow> packet_log \<times> int" where
  "onError overrun err p =
     (if overrun then (countLost p, 0) else (setListening (rgGroup p) (Some err) p, 1))"

record packet_log_result =
  prEntries :: "packet_log_entry list"
  prMatched :: nat
  prHeld :: nat
  prListening :: bool
  prStopped :: bool
  prGroup :: "16 word"
  prReason :: string
  prSince :: int
  prDiscarded :: "64 word"
  prLost :: "64 word"
  prPersisted :: bool

fun query_loop ::
  "(packet_log_entry \<Rightarrow> bool) \<Rightarrow> int \<Rightarrow> packet_log_entry list \<Rightarrow> packet_log_result \<Rightarrow> packet_log_result" where
  "query_loop match most [] res = res"
| "query_loop match most (e # es) res =
     (if \<not> match e then query_loop match most es res
      else
        let res1 = res\<lparr>prMatched := prMatched res + 1\<rparr>;
            res2 = (if int (length (prEntries res1)) < most then res1\<lparr>prEntries := prEntries res1 @ [e]\<rparr> else res1)
        in query_loop match most es res2)"

definition Query :: "packet_log_filter \<Rightarrow> packet_log \<Rightarrow> filter_error + packet_log_result" where
  "Query f p =
     (case Matcher f of
        Inl err \<Rightarrow> Inl err
      | Inr match \<Rightarrow>
          Inr (query_loop match (EffectiveLimit f) (map (ring_at p) [0..<rgN p])
            \<lparr> prEntries = [], prMatched = 0, prHeld = rgN p, prListening = rgListening p,
               prStopped = (\<not> rgListening p \<and> rgEverListened p), prGroup = rgGroup p, prReason = rgReason p,
               prSince = rgSince p, prDiscarded = rgDiscarded p, prLost = rgLost p,
               prPersisted = (rgSpill p \<noteq> None) \<rparr>))"

section \<open>The replay\<close>

text \<open>Opening fails for another reason than a missing file, the scanner fails after some lines, or neither.\<close>

datatype replay_outcome = ReplayOk | OpenFails string | ScanFails nat string

fun replay_line :: "packet_log \<Rightarrow> spill_line \<Rightarrow> packet_log" where
  "replay_line p TornLine = p\<lparr>rgDiscarded := rgDiscarded p + 1\<rparr>"
| "replay_line p (EntryLine e0) =
     (let e = e0\<lparr>plRule := CurrentListName (plRule e0)\<rparr>
      in (push e p)\<lparr>rgSeq := max (rgSeq p) (plSeq e)\<rparr>)"

definition rewrite_spill ::
  "rewrite_outcome \<Rightarrow> packet_log \<Rightarrow> disk \<Rightarrow> string option \<times> packet_log \<times> disk" where
  "rewrite_spill oc p d =
     (case spill_rewrite oc (oldestFirst p) \<lparr> spOpen = False, spLines = 0, spLimit = 2 * length (rgBuf p) \<rparr> d of
        (Some e, _, d') \<Rightarrow> (Some e, p, d')
      | (None, s, d') \<Rightarrow> (None, p\<lparr>rgSpill := Some s\<rparr>, d'))"

definition Persist ::
  "replay_outcome \<Rightarrow> rewrite_outcome \<Rightarrow> packet_log \<Rightarrow> disk \<Rightarrow> string option \<times> packet_log \<times> disk" where
  "Persist rd oc p d =
     (case rd of
        OpenFails e \<Rightarrow> (Some e, p, d)
      | ScanFails k e \<Rightarrow>
          (case d of
             None \<Rightarrow> rewrite_spill oc p d
           | Some ls \<Rightarrow> (Some e, foldl replay_line p (take k ls), d))
      | ReplayOk \<Rightarrow>
          (case d of
             None \<Rightarrow> rewrite_spill oc p d
           | Some ls \<Rightarrow>
               let q = foldl replay_line p ls;
                   q' = (if 0 < rgN q then q\<lparr>rgSince := plTime (ring_at q (rgN q - 1))\<rparr> else q)
               in rewrite_spill oc q' d))"

section \<open>The ring holds the latest entries\<close>

definition latest :: "nat \<Rightarrow> 'a list \<Rightarrow> 'a list" where
  "latest k xs = drop (length xs - k) xs"

lemma latest_snoc: "0 < k \<Longrightarrow> latest k (latest k xs @ [x]) = latest k (xs @ [x])"
  by (cases "k \<le> length xs") (auto simp: latest_def Suc_diff_le)

lemma length_latest [simp]: "length (latest k xs) = min k (length xs)"
  by (simp add: latest_def)

lemma latest_short: "length xs \<le> k \<Longrightarrow> latest k xs = xs"
  by (simp add: latest_def)

definition ring_ok :: "packet_log \<Rightarrow> bool" where
  "ring_ok p \<longleftrightarrow> rgNext p < length (rgBuf p) \<and> rgN p \<le> length (rgBuf p) \<and>
     (rgN p < length (rgBuf p) \<longrightarrow> rgNext p = rgN p)"

lemma smod_nonneg: "0 \<le> x \<Longrightarrow> (0 :: int) < l \<Longrightarrow> x smod l = x mod l"
  by (cases "x = 0") (simp_all add: signed_modulo_int_def signed_divide_int_def minus_div_mult_eq_mod)

lemma smod_wrap: "(x smod l + l) smod l = x mod l" if l: "(0 :: int) < l"
proof (cases "0 \<le> x")
  case True
  have "0 \<le> x mod l + l" using pos_mod_sign [OF l, of x] l by linarith
  then show ?thesis by (simp add: smod_nonneg [OF True l] smod_nonneg [OF _ l])
next
  case False
  then have "x smod l = - ((- x) mod l)"
    using l by (simp add: signed_modulo_int_def signed_divide_int_def minus_div_mult_eq_mod algebra_simps)
  moreover have "(- ((- x) mod l) + l) mod l = x mod l" by (simp add: mod_simps)
  moreover have "0 \<le> - ((- x) mod l) + l" using pos_mod_bound [OF l, of "- x"] by linarith
  ultimately show ?thesis by (simp only: smod_nonneg [OF _ l])
qed

lemma ring_at_mod:
  "ring_ok p \<Longrightarrow> ring_at p i = rgBuf p ! nat ((int (rgNext p) - 1 - int i) mod int (length (rgBuf p)))"
  unfolding ring_at_def Let_def by (subst smod_wrap) (auto simp: ring_ok_def)

lemma push_ok: "ring_ok p \<Longrightarrow> ring_ok (push e p)"
  by (auto simp: ring_ok_def push_def mod_Suc)

lemma push_buf [simp]: "length (rgBuf (push e p)) = length (rgBuf p)"
  by (simp add: push_def)

lemma push_newest:
  assumes "ring_ok p"
  shows "ring_at (push e p) 0 = e"
    and "Suc i < length (rgBuf p) \<Longrightarrow> ring_at (push e p) (Suc i) = ring_at p i"
proof -
  let ?l = "int (length (rgBuf p))"
  have nxt: "rgNext p < length (rgBuf p)" using assms by (simp add: ring_ok_def)
  have next': "(int (rgNext (push e p)) - 1 - k) mod ?l = (int (rgNext p) - k) mod ?l" for k
    unfolding push_def by (simp add: zmod_int mod_diff_left_eq [symmetric, of "_ mod _"] mod_simps) (simp add: algebra_simps mod_simps)
  show "ring_at (push e p) 0 = e"
    using nxt next' [of 0] unfolding ring_at_mod [OF push_ok [OF assms]] by (simp add: push_def zmod_int)
  assume i: "Suc i < length (rgBuf p)"
  have "(int (rgNext p) - 1 - int i) mod ?l \<noteq> int (rgNext p)"
  proof
    assume "(int (rgNext p) - 1 - int i) mod ?l = int (rgNext p)"
    then have "(int (rgNext p) - 1 - int i) mod ?l = int (rgNext p) mod ?l" using nxt by simp
    then have "?l dvd (int (rgNext p) - 1 - int i) - int (rgNext p)" by (simp only: mod_eq_dvd_iff)
    moreover have "(int (rgNext p) - 1 - int i) - int (rgNext p) = - (1 + int i)" by simp
    ultimately have "?l dvd 1 + int i" by (simp only: dvd_minus_iff)
    with i show False by (auto dest!: zdvd_imp_le)
  qed
  then have "nat ((int (rgNext p) - 1 - int i) mod ?l) \<noteq> rgNext p" using nxt by (metis int_nat_eq of_nat_0_less_iff pos_mod_sign less_nat_zero_code not_gr_zero)
  with next' [of "1 + int i"] show "ring_at (push e p) (Suc i) = ring_at p i"
    unfolding ring_at_mod [OF push_ok [OF assms]] ring_at_mod [OF assms] by (simp add: push_def algebra_simps)
qed

lemma rev_take_latest: "rev (take k xs) = latest k (rev xs)"
  by (simp add: latest_def rev_take)

lemma oldest_push:
  assumes "ring_ok p"
  shows "oldestFirst (push e p) = latest (length (rgBuf p)) (oldestFirst p @ [e])"
proof -
  let ?l = "length (rgBuf p)"
  have l: "0 < ?l" "rgN p \<le> ?l" using assms by (auto simp: ring_ok_def)
  have "map (ring_at (push e p)) [0..<rgN (push e p)] = take ?l (e # map (ring_at p) [0..<rgN p])"
  proof (rule nth_equalityI)
    show "length (map (ring_at (push e p)) [0..<rgN (push e p)]) = length (take ?l (e # map (ring_at p) [0..<rgN p]))"
      using l by (auto simp: push_def)
    fix i
    assume "i < length (map (ring_at (push e p)) [0..<rgN (push e p)])"
    then have i: "i < ?l" "i \<le> rgN p" using l by (auto simp: push_def split: if_splits)
    then show "map (ring_at (push e p)) [0..<rgN (push e p)] ! i = take ?l (e # map (ring_at p) [0..<rgN p]) ! i"
      using push_newest [OF assms] l by (cases i) (auto simp: push_def)
  qed
  then have "rev (map (ring_at (push e p)) [0..<rgN (push e p)]) = latest ?l (rev (e # map (ring_at p) [0..<rgN p]))"
    by (simp only: rev_take_latest)
  then show ?thesis by (simp add: oldestFirst_def rev_map)
qed

lemma ring_frame [simp]:
  "ring_ok (p\<lparr>rgSeq := a\<rparr>) = ring_ok p" "ring_ok (p\<lparr>rgSpill := s\<rparr>) = ring_ok p"
  "ring_ok (p\<lparr>rgSince := t\<rparr>) = ring_ok p" "ring_ok (p\<lparr>rgDiscarded := u\<rparr>) = ring_ok p"
  "oldestFirst (p\<lparr>rgSeq := a\<rparr>) = oldestFirst p" "oldestFirst (p\<lparr>rgSpill := s\<rparr>) = oldestFirst p"
  "oldestFirst (p\<lparr>rgSince := t\<rparr>) = oldestFirst p" "oldestFirst (p\<lparr>rgDiscarded := u\<rparr>) = oldestFirst p"
  by (simp_all add: ring_ok_def oldestFirst_def ring_at_def cong: map_cong)

lemma push_frame [simp]:
  "rgSeq (push e p) = rgSeq p" "rgSpill (push e p) = rgSpill p" "rgDiscarded (push e p) = rgDiscarded p"
  by (simp_all add: push_def)

lemma new_ring [simp]:
  "ring_ok (NewPacketLog cap now)" "oldestFirst (NewPacketLog cap now) = []" "rgSeq (NewPacketLog cap now) = 0"
  "length (rgBuf (NewPacketLog cap now)) = nat (max cap 1)" "rgSpill (NewPacketLog cap now) = None"
  by (simp_all add: NewPacketLog_def ring_ok_def oldestFirst_def)

section \<open>Histories\<close>

definition line_entries :: "spill_line list \<Rightarrow> packet_log_entry list" where
  "line_entries ls = List.map_filter (\<lambda>l. case l of EntryLine e \<Rightarrow> Some e | TornLine \<Rightarrow> None) ls"

lemma line_entries_simps [simp]:
  "line_entries [] = []" "line_entries (TornLine # ls) = line_entries ls"
  "line_entries (EntryLine e # ls) = e # line_entries ls"
  "line_entries (ls @ ks) = line_entries ls @ line_entries ks"
  "line_entries (map EntryLine es) = es"
  by (induction es) (simp_all add: line_entries_def List.map_filter_def)

text \<open>Numbered in ascending order, the last one with the log's counter, under names of today.\<close>

definition numbered :: "packet_log_entry list \<Rightarrow> bool" where
  "numbered h \<longleftrightarrow> sorted_wrt (\<lambda>a b. plSeq a < plSeq b) h \<and> (\<forall>e\<in>set h. CurrentListName (plRule e) = plRule e)"

definition follows :: "packet_log \<Rightarrow> packet_log_entry list \<Rightarrow> bool" where
  "follows p h \<longleftrightarrow>
     ring_ok p \<and> oldestFirst p = latest (length (rgBuf p)) h \<and> numbered h \<and>
     rgSeq p = (if h = [] then 0 else plSeq (last h))"

lemma numbered_append: "numbered (h @ k) \<Longrightarrow> numbered h \<and> numbered k"
  by (auto simp: numbered_def sorted_wrt_append)

lemma numbered_last: "numbered h \<Longrightarrow> e \<in> set h \<Longrightarrow> plSeq e \<le> plSeq (last h)"
  by (induction h rule: rev_induct) (auto simp: numbered_def sorted_wrt_append less_imp_le)

lemma follows_push:
  assumes "follows p h" "numbered (h @ [e])"
  shows "follows ((push e p)\<lparr>rgSeq := plSeq e\<rparr>) (h @ [e])"
proof -
  have "0 < length (rgBuf p)" using assms(1) by (auto simp: follows_def ring_ok_def)
  from latest_snoc [OF this, of h e] assms show ?thesis by (simp add: follows_def push_ok oldest_push)
qed

lemma follows_replay:
  assumes "follows p h" "numbered (h @ line_entries ls)"
  shows "follows (foldl replay_line p ls) (h @ line_entries ls) \<and>
    length (rgBuf (foldl replay_line p ls)) = length (rgBuf p) \<and>
    rgSpill (foldl replay_line p ls) = rgSpill p \<and>
    rgDiscarded (foldl replay_line p ls) = rgDiscarded p + word_of_nat (length ls - length (line_entries ls))"
  using assms
proof (induction ls arbitrary: p h)
  case (Cons l ls)
  show ?case
  proof (cases l)
    case TornLine
    have f: "follows (p\<lparr>rgDiscarded := rgDiscarded p + 1\<rparr>) h" using Cons.prems(1) by (simp add: follows_def)
    have "length (line_entries ls) \<le> length ls" by (simp add: line_entries_def List.map_filter_def)
    with Cons.IH [OF f] Cons.prems(2) TornLine show ?thesis by (simp add: Suc_diff_le)
  next
    case (EntryLine e)
    have n: "numbered (h @ [e])" using Cons.prems(2) EntryLine numbered_append [of "h @ [e]" "line_entries ls"] by simp
    then have "e\<lparr>plRule := CurrentListName (plRule e)\<rparr> = e" by (simp add: numbered_def)
    moreover have "max (rgSeq p) (plSeq e) = plSeq e"
    proof -
      have "rgSeq p \<le> plSeq e"
        using Cons.prems(1) n by (auto simp: follows_def numbered_def sorted_wrt_append intro: less_imp_le)
      then show ?thesis by (rule max_absorb2)
    qed
    ultimately have r: "replay_line p l = (push e p)\<lparr>rgSeq := plSeq e\<rparr>" using EntryLine by simp
    from Cons.IH [OF follows_push [OF Cons.prems(1) n]] Cons.prems(2) EntryLine r
    show ?thesis by (simp del: replay_line.simps)
  qed
qed simp

text \<open>
  The life of a log: packets, garbage and read errors arrive, appends and replacements of the file
  fail or not, and the daemon restarts with any capacity, with or without the file.  The third
  argument is what the ring was given since its daemon started, oldest first.  The counter has
  64 bits; its overflow is left out.
\<close>

definition given :: "nflog_attribute \<Rightarrow> (32 word \<Rightarrow> string) \<Rightarrow> int \<Rightarrow> packet_log \<Rightarrow> packet_log_entry list" where
  "given a ifname now p =
     (case entryFromAttribute a ifname now of Some (e, True) \<Rightarrow> [e\<lparr>plSeq := rgSeq p + 1\<rparr>] | _ \<Rightarrow> [])"

definition replayed :: "replay_outcome \<Rightarrow> disk \<Rightarrow> packet_log_entry list" where
  "replayed rd d =
     (case d of
        None \<Rightarrow> []
      | Some ls \<Rightarrow> (case rd of OpenFails _ \<Rightarrow> [] | ScanFails k _ \<Rightarrow> line_entries (take k ls) | ReplayOk \<Rightarrow> line_entries ls))"

inductive log_life :: "packet_log \<Rightarrow> disk \<Rightarrow> packet_log_entry list \<Rightarrow> bool" where
  first_boot: "log_life (NewPacketLog cap now) None []"
| message: "log_life p d h \<Longrightarrow> rgSeq p \<noteq> - 1 \<Longrightarrow> hook sio a ifname now p d = Some (p', d') \<Longrightarrow>
    log_life p' d' (h @ given a ifname now p)"
| listening: "log_life p d h \<Longrightarrow> log_life (setListening grpno err p) d h"
| read_error: "log_life p d h \<Longrightarrow> log_life (fst (onError overrun err p)) d h"
| restart_in_memory: "log_life p d h \<Longrightarrow> log_life (NewPacketLog cap now) d []"
| restart: "log_life p d h \<Longrightarrow> Persist rd oc (NewPacketLog cap now) d = (err, p', d') \<Longrightarrow> log_life p' d' (replayed rd d)"

text \<open>The file is numbered too, and while it is written the ring is its end.\<close>

definition written :: "packet_log \<Rightarrow> spill_file \<Rightarrow> packet_log_entry list \<Rightarrow> packet_log_entry list \<Rightarrow> bool" where
  "written p s es h \<longleftrightarrow>
     spOpen s \<and> spLimit s = 2 * length (rgBuf p) \<and> (\<exists>ks. h = ks @ es) \<and> spLines s = length es \<and>
     length es \<le> 2 * length (rgBuf p) \<and> latest (length (rgBuf p)) es = oldestFirst p"

definition file_follows :: "packet_log \<Rightarrow> disk \<Rightarrow> packet_log_entry list \<Rightarrow> bool" where
  "file_follows p d h \<longleftrightarrow>
     (case d of None \<Rightarrow> True | Some ls \<Rightarrow> numbered (line_entries ls)) \<and>
     (case rgSpill p of
        None \<Rightarrow> True
      | Some s \<Rightarrow> \<exists>es. d = Some (map EntryLine es) \<and> written p s es h)"

lemma file_follows_unspilled:
  "rgSpill p = None \<Longrightarrow> file_follows p d h \<longleftrightarrow> (case d of None \<Rightarrow> True | Some ls \<Rightarrow> numbered (line_entries ls))"
  by (simp add: file_follows_def)

lemma file_follows_written:
  "rgSpill p = Some s \<Longrightarrow> file_follows p (Some (map EntryLine es)) h \<longleftrightarrow> numbered es \<and> written p s es h"
  by (auto simp: file_follows_def inj_map_eq_map inj_on_def)

lemma latest_suffix: "\<exists>ks. h = ks @ latest k h"
  by (metis latest_def append_take_drop_id)

lemma latest_latest: "latest k (latest k h) = latest k h"
  by (simp add: latest_def)

lemma latest_append: "0 < k \<Longrightarrow> latest k es = latest k h \<Longrightarrow> latest k (es @ [e]) = latest k (h @ [e])"
  by (metis latest_snoc)

lemma follows_oldest:
  assumes "follows p h"
  shows "\<exists>ks. h = ks @ oldestFirst p" "numbered (oldestFirst p)" "length (oldestFirst p) \<le> length (rgBuf p)"
proof -
  have o: "oldestFirst p = latest (length (rgBuf p)) h" using assms by (simp add: follows_def)
  then show ks: "\<exists>ks. h = ks @ oldestFirst p" using latest_suffix by metis
  with assms show "numbered (oldestFirst p)" using numbered_append by (metis follows_def)
  show "length (oldestFirst p) \<le> length (rgBuf p)" by (simp add: o)
qed

lemma follows_spill [simp]: "follows (p\<lparr>rgSpill := s\<rparr>) h = follows p h"
  by (simp add: follows_def)

text \<open>A replaced file holds the ring.\<close>

lemma spill_rewrite_follows:
  assumes "follows p h" "spLimit s0 = 2 * length (rgBuf p)" "spill_rewrite oc (oldestFirst p) s0 d = (err, s, d')"
    "case d of None \<Rightarrow> True | Some ls \<Rightarrow> numbered (line_entries ls)"
  shows "file_follows (p\<lparr>rgSpill := (if err = None then Some s else None)\<rparr>) d' h"
proof (cases oc)
  case Rewritten
  then have "s = s0\<lparr>spOpen := True, spLines := length (oldestFirst p)\<rparr>" "d' = Some (map EntryLine (oldestFirst p))" "err = None"
    using assms(3) by (auto simp: spill_rewrite_def)
  with follows_oldest [OF assms(1)] assms(2) show ?thesis
    by (simp add: file_follows_written [of _ s] written_def latest_short)
qed (use assms follows_oldest [OF assms(1)] in \<open>auto simp: spill_rewrite_def file_follows_unspilled\<close>)

lemma rewrite_spill_follows:
  assumes "follows p h" "case d of None \<Rightarrow> True | Some ls \<Rightarrow> numbered (line_entries ls)" "rgSpill p = None"
    "rewrite_spill oc p d = (err, p', d')"
  shows "follows p' h \<and> file_follows p' d' h"
proof -
  let ?s0 = "\<lparr> spOpen = False, spLines = 0, spLimit = 2 * length (rgBuf p) \<rparr>"
  obtain e s dd where r: "spill_rewrite oc (oldestFirst p) ?s0 d = (e, s, dd)" by (metis prod_cases3)
  have "p' = p\<lparr>rgSpill := (if e = None then Some s else None)\<rparr>" "d' = dd"
    using assms(3,4) r by (auto simp: rewrite_spill_def split: option.splits)
  with spill_rewrite_follows [OF assms(1) _ r assms(2)] assms(1) show ?thesis by simp
qed

lemma less_next: "(x :: 64 word) \<noteq> - 1 \<Longrightarrow> x < x + 1"
  using inc_less_eq_self_iff_eq [of x] by (simp add: not_le [symmetric])

lemma Add_follows:
  assumes "follows p h" "file_follows p d h" "rgSeq p \<noteq> - 1" "CurrentListName (plRule e) = plRule e"
    "Add sio e p d = (p', d')"
  shows "follows p' (h @ [e\<lparr>plSeq := rgSeq p + 1\<rparr>]) \<and> file_follows p' d' (h @ [e\<lparr>plSeq := rgSeq p + 1\<rparr>])"
proof -
  let ?e = "e\<lparr>plSeq := rgSeq p + 1\<rparr>"
  define q where "q = (push ?e p)\<lparr>rgSeq := rgSeq p + 1\<rparr>"
  have up: "rgSeq p < rgSeq p + 1" using assms(3) less_next by blast
  have "plSeq x < rgSeq p + 1" if "x \<in> set h" for x
    using assms(1) numbered_last [OF _ that] that up by (auto simp: follows_def intro: le_less_trans split: if_splits)
  then have "numbered (h @ [?e])"
    using assms(1,4) by (auto simp: follows_def numbered_def sorted_wrt_append)
  with follows_push [OF assms(1) this] have q: "follows q (h @ [?e])" by (simp add: q_def)
  have push1: "push x (p\<lparr>rgSeq := a\<rparr>) = (push x p)\<lparr>rgSeq := a\<rparr>" for x a by (simp add: push_def)
  show ?thesis
  proof (cases "rgSpill p")
    case None
    then have "p' = q" "d' = d" using assms(5) by (auto simp: Add_def Let_def push1 q_def)
    with q assms(2) None show ?thesis by (simp add: file_follows_unspilled q_def)
  next
    case (Some s)
    obtain es where es: "d = Some (map EntryLine es)" "numbered es" "written p s es h"
      using assms(2) Some by (auto simp: file_follows_def)
    have old: "latest (length (rgBuf p)) es = latest (length (rgBuf p)) h"
      using es(3) assms(1) by (simp add: written_def follows_def)
    have l: "0 < length (rgBuf p)" "length (rgBuf q) = length (rgBuf p)" "rgSpill q = Some s"
      using assms(1) Some by (auto simp: follows_def ring_ok_def q_def)
    obtain ks where ks: "h = ks @ es" using es(3) by (auto simp: written_def)
    then have n: "numbered (es @ [?e])" using q numbered_append [of ks "es @ [?e]"] by (simp add: follows_def)
    have s: "spOpen s" "spLimit s = 2 * length (rgBuf p)" "spLines s = length es" using es(3) by (auto simp: written_def)
    have nested: "\<exists>k. h @ [?e] = k @ (es @ [?e])" using ks by simp
    have end': "latest (length (rgBuf p)) (es @ [?e]) = oldestFirst q"
      using latest_append [OF l(1) old] q l(2) by (simp add: follows_def)
    show ?thesis
    proof (cases "ioAppend sio")
      case (AppendFails torn)
      then have "p' = q\<lparr>rgSpill := None\<rparr>" "d' = (if torn then map_option (\<lambda>ls. ls @ [TornLine]) d else d)"
        using assms(5) Some s(1) by (auto simp: Add_def Let_def push1 q_def spill_append_def)
      with q es(1,2) show ?thesis by (simp add: file_follows_unspilled)
    next
      case Appended
      let ?s = "s\<lparr>spLines := length es + 1\<rparr>" and ?d = "Some (map EntryLine (es @ [?e]))"
      show ?thesis
      proof (cases "length es + 1 > 2 * length (rgBuf p)")
        case True
        obtain err s' dd where r: "spill_rewrite (ioRewrite sio) (oldestFirst q) ?s ?d = (err, s', dd)"
          by (metis prod_cases3)
        have "p' = q\<lparr>rgSpill := (if err = None then Some s' else None)\<rparr>" "d' = dd"
          using assms(5) Some s es(1) True Appended r
          by (auto simp: Add_def Let_def push1 q_def spill_append_def split: option.splits)
        with spill_rewrite_follows [OF q _ r] q n l s(2) show ?thesis by simp
      next
        case False
        then have p': "p' = q\<lparr>rgSpill := Some ?s\<rparr>" and d': "d' = ?d"
          using assms(5) Some s es(1) Appended by (auto simp: Add_def Let_def push1 q_def spill_append_def)
        have "written p' ?s (es @ [?e]) (h @ [?e])"
          using nested end' s False l(2) unfolding p' by (simp add: written_def)
        with q n show ?thesis by (simp add: p' d' file_follows_written [of _ ?s] del: map_append)
      qed
    qed
  qed
qed

lemma transport_rule: "decodeTransport e proto fam b = Some (e', ok) \<Longrightarrow> plRule e' = plRule e"
  by (auto simp: decodeTransport_def Let_def bind_eq_Some_conv split: if_splits)

lemma v6_rule: "v6_headers k e nxt b = Some (e', ok) \<Longrightarrow> plRule e' = plRule e"
  by (induction k e nxt b rule: v6_headers.induct)
    (auto simp: bind_eq_Some_conv Let_def split: if_splits dest: transport_rule)

lemma headers_rule: "decodeHeaders e b = Some (e', ok) \<Longrightarrow> plRule e' = plRule e"
  by (auto simp: decodeHeaders_def decodeIPv4_def decodeIPv6_def bind_eq_Some_conv Let_def split: if_splits
      dest: transport_rule v6_rule)

lemma prefix_rule: "ParseLogPrefix s = (rule, feed) \<Longrightarrow> rule \<in> set (PacketLogRuleOther # PacketLogRules)"
  by (auto simp: ParseLogPrefix_def Let_def PacketLogRules_def split: prod.splits bool.splits if_splits)

lemma decoded_rule:
  assumes "entryFromAttribute a ifname now = Some (e, True)"
  shows "CurrentListName (plRule e) = plRule e"
proof -
  have all: "list_all (\<lambda>r. CurrentListName r = r) (PacketLogRuleOther # PacketLogRules)" by code_simp
  obtain rule feed where pre: "(case naPrefix a of None \<Rightarrow> (PacketLogRuleOther, []) | Some p \<Rightarrow> ParseLogPrefix p) = (rule, feed)"
    by fastforce
  then have "rule \<in> set (PacketLogRuleOther # PacketLogRules)" by (auto dest: prefix_rule split: option.splits)
  moreover have "plRule e = rule"
    using assms pre
    by (auto simp: entryFromAttribute_def Let_def bind_eq_Some_conv split: option.splits if_splits dest!: headers_rule)
  ultimately show ?thesis using bspec [OF all [unfolded list_all_iff], of rule] by simp
qed

lemma same_ring:
  assumes "rgBuf p' = rgBuf p" "rgNext p' = rgNext p" "rgN p' = rgN p" "rgSeq p' = rgSeq p" "rgSpill p' = rgSpill p"
  shows "follows p' h = follows p h" "file_follows p' d h = file_follows p d h"
proof -
  have "ring_at p' = ring_at p" by (intro ext) (simp add: ring_at_def assms)
  then have "oldestFirst p' = oldestFirst p" by (simp add: oldestFirst_def assms)
  moreover from this have "written p' = written p" by (intro ext) (simp add: written_def assms)
  ultimately show "follows p' h = follows p h" "file_follows p' d h = file_follows p d h"
    by (simp_all add: follows_def file_follows_def ring_ok_def assms split: option.splits)
qed

lemma log_life_follows: "log_life p d h \<Longrightarrow> follows p h \<and> file_follows p d h"
proof (induction rule: log_life.induct)
  case (first_boot cap now)
  show ?case by (simp add: follows_def numbered_def latest_def file_follows_def)
next
  case (message p d h sio a ifname now p' d')
  obtain e ok where r: "entryFromAttribute a ifname now = Some (e, ok)" using message.hyps(3) by (auto simp: hook_def)
  show ?case
  proof (cases ok)
    case True
    then have "Add sio e p d = (p', d')" using message.hyps(3) r by (simp add: hook_def)
    from Add_follows [OF conjunct1 [OF message.IH] conjunct2 [OF message.IH] message.hyps(2) _ this] decoded_rule r True
    show ?thesis by (simp add: given_def)
  next
    case False
    then have "p' = countDiscarded p" "d' = d" using message.hyps(3) r by (simp_all add: hook_def)
    with message.IH r False show ?thesis
      using same_ring [of "countDiscarded p" p] by (simp add: given_def countDiscarded_def)
  qed
next
  case (listening p d h grpno err)
  then show ?case
    using same_ring [of "setListening grpno err p" p] by (cases err) (simp_all add: setListening_def)
next
  case (read_error p d h overrun err)
  then show ?case
    using same_ring [of "fst (onError overrun err p)" p]
    by (cases overrun) (simp_all add: onError_def countLost_def setListening_def)
next
  case (restart_in_memory p d h cap now)
  then show ?case by (simp add: follows_def numbered_def latest_def file_follows_def)
next
  case (restart p d h rd oc cap now err p' d')
  have ok: "case d of None \<Rightarrow> True | Some ls \<Rightarrow> numbered (line_entries ls)"
    using restart.IH by (simp add: file_follows_def)
  have new: "follows (NewPacketLog cap now) []" by (simp add: follows_def numbered_def latest_def)
  show ?case
  proof (cases d)
    case None
    then show ?thesis
      using restart.hyps(2) rewrite_spill_follows [OF new ok] new ok
      by (cases rd) (auto simp: Persist_def replayed_def file_follows_unspilled)
  next
    case (Some ls)
    have part: "numbered (line_entries (take k ls))" for k
      using ok Some numbered_append [of "line_entries (take k ls)" "line_entries (drop k ls)"]
      by (simp flip: line_entries_simps(4))
    note r = follows_replay [OF new, of "take k ls" for k, simplified]
    show ?thesis
    proof (cases rd)
      case ReplayOk
      let ?q = "foldl replay_line (NewPacketLog cap now) ls"
      have q: "follows ?q (line_entries ls)" "rgSpill ?q = None" using follows_replay [OF new, of ls] ok Some by simp_all
      then have "follows (if 0 < rgN ?q then ?q\<lparr>rgSince := plTime (ring_at ?q (rgN ?q - 1))\<rparr> else ?q) (line_entries ls)"
        by (simp add: follows_def)
      from rewrite_spill_follows [OF this ok] q restart.hyps(2) Some ReplayOk show ?thesis
        by (auto simp: Persist_def replayed_def Let_def split: if_splits)
    next
      case (OpenFails e)
      then show ?thesis
        using restart.hyps(2) Some new ok by (auto simp: Persist_def replayed_def file_follows_unspilled)
    next
      case (ScanFails k e)
      then show ?thesis
        using restart.hyps(2) Some r [OF part] ok by (auto simp: Persist_def replayed_def file_follows_unspilled)
    qed
  qed
qed

section \<open>Properties\<close>

lemma query_loop_filters:
  "query_loop match most es res =
     res\<lparr>prMatched := prMatched res + length (filter match es),
         prEntries := prEntries res @ take (nat most - length (prEntries res)) (filter match es)\<rparr>"
proof (induction match most es res rule: query_loop.induct)
  case (2 match most e es res)
  have "int (length (prEntries res)) < most \<longleftrightarrow> length (prEntries res) < nat most" by linarith
  with 2 show ?case by (auto simp: Let_def take_Cons' not_less)
qed simp

lemma newest_first: "map (ring_at p) [0..<rgN p] = rev (oldestFirst p)"
  by (simp add: oldestFirst_def rev_map)

text \<open>
  C25. The ring is exactly the latest part of what was refused: at every moment of a log's life, with
  any garbage, read errors, failing writes and restarts, a query answers with the newest packets
  the filter names, newest first, at most a thousand, out of the last entries the ring has room
  for, and counts exactly those that match; their numbers go down strictly, so a page asked for
  below the last number of the one before misses nothing and repeats nothing.
\<close>

theorem query_answers_the_history:
  assumes "log_life p d h" "filter_Validate f = None"
  shows "\<exists>res. Query f p = Inr res \<and>
    prEntries res = take (nat (EffectiveLimit f)) (filter (filter_match f) (rev (latest (length (rgBuf p)) h))) \<and>
    prMatched res = length (filter (filter_match f) (latest (length (rgBuf p)) h)) \<and>
    prHeld res = min (length (rgBuf p)) (length h) \<and> length (prEntries res) \<le> 1000 \<and>
    sorted_wrt (\<lambda>a b. plSeq b < plSeq a) (prEntries res)"
proof -
  let ?recent = "rev (latest (length (rgBuf p)) h)"
  have f: "follows p h" using log_life_follows [OF assms(1)] by simp
  then have o: "oldestFirst p = latest (length (rgBuf p)) h" by (simp add: follows_def)
  have held: "rgN p = min (length (rgBuf p)) (length h)"
    using arg_cong [OF o, of length] by (simp add: oldestFirst_def)
  have "numbered (latest (length (rgBuf p)) h)" using follows_oldest(2) [OF f] by (simp add: o)
  then have s: "sorted_wrt (\<lambda>a b. plSeq b < plSeq a) ?recent" by (simp add: numbered_def sorted_wrt_rev)
  have limit': "nat (EffectiveLimit f) \<le> 1000"
    by (auto simp: EffectiveLimit_def packetLogDefaultLimit_def PacketLogMaxLimit_def)
  have "sorted_wrt (\<lambda>a b. plSeq b < plSeq a) (take n (filter (filter_match f) ?recent))" for n
    by (intro sorted_wrt_take sorted_wrt_filter s)
  moreover have "map (ring_at p) [0..<rgN p] = ?recent" by (simp add: newest_first o)
  moreover have "length (filter (filter_match f) ?recent) = length (filter (filter_match f) (latest (length (rgBuf p)) h))"
    by (simp flip: rev_filter)
  ultimately show ?thesis
    using limit' assms(2) by (simp add: Query_def Matcher_def query_loop_filters held)
qed

text \<open>
  C26. A restart forgets nothing: while the log writes its file, the file never grows beyond twice
  the ring, whatever writes failed before, and a daemon started on it with the same capacity has
  the same ring with the same numbers, continues counting where the last one stopped, and leaves a
  file with exactly the ring's entries.
\<close>

theorem packet_log_survives_restart:
  assumes "log_life p d h" "rgSpill p \<noteq> None"
    "Persist ReplayOk Rewritten (NewPacketLog (int (length (rgBuf p))) now) d = (err, p', d')"
  shows "err = None \<and> oldestFirst p' = oldestFirst p \<and> rgSeq p' = rgSeq p \<and> rgDiscarded p' = 0 \<and>
    d' = Some (map EntryLine (oldestFirst p)) \<and> (\<exists>ls. d = Some ls \<and> length ls \<le> 2 * length (rgBuf p))"
proof -
  let ?new = "NewPacketLog (int (length (rgBuf p))) now"
  have f: "follows p h" and ff: "file_follows p d h" using log_life_follows [OF assms(1)] by simp_all
  obtain s es where es: "d = Some (map EntryLine es)" "numbered es" "written p s es h"
    using ff assms(2) by (auto simp: file_follows_def)
  have l: "0 < length (rgBuf p)" using f by (auto simp: follows_def ring_ok_def)
  then have "max (int (length (rgBuf p))) 1 = int (length (rgBuf p))" by linarith
  then have cap: "length (rgBuf ?new) = length (rgBuf p)" by simp
  have new: "follows ?new []" by (simp add: follows_def numbered_def latest_def)
  let ?q = "foldl replay_line ?new (map EntryLine es)"
  have q: "follows ?q es" "length (rgBuf ?q) = length (rgBuf p)" "rgSpill ?q = None" "rgDiscarded ?q = 0"
    using follows_replay [OF new, of "map EntryLine es"] es(2) cap by (simp_all add: NewPacketLog_def)
  have ring: "oldestFirst ?q = oldestFirst p" using q(1,2) es(3) by (simp add: follows_def written_def)
  have "latest (length (rgBuf p)) es = latest (length (rgBuf p)) h" using es(3) f by (simp add: written_def follows_def)
  from arg_cong [OF this, of length] l have "es = [] \<longleftrightarrow> h = []" by (auto simp: min_def split: if_splits)
  then have seq: "rgSeq ?q = rgSeq p"
    using es(3) q(1) f by (auto simp: follows_def written_def last_append)
  have "length es \<le> 2 * length (rgBuf p)" using es(3) by (simp add: written_def)
  moreover have "err = None \<and> oldestFirst p' = oldestFirst ?q \<and> rgSeq p' = rgSeq ?q \<and> rgDiscarded p' = rgDiscarded ?q \<and>
      d' = Some (map EntryLine (oldestFirst ?q))"
    using assms(3) es(1) by (auto simp: Persist_def Let_def rewrite_spill_def spill_rewrite_def split: if_splits)
  ultimately show ?thesis using es(1) ring seq q(4) by simp
qed

end
