(* ===== verification/DropReason.thy ===== *)
theory DropReason
  imports PacketDecode Diff
begin

text \<open>
  Why a packet was refused, as the page of blocked packets explains it
  (\<open>internal/shared/packetlog.go\<close>): the remedies it offers, the rules parsed once for all rows, and
  the walk along the input chain that names the missing step.  The explanation is held against
  the table: a step it calls missing is one the table does not take either.
\<close>

section \<open>Remedies\<close>

record remedy =
  rmAllowlist :: bool
  rmBlocklist :: bool
  rmOpen :: bool

definition Remedies :: "packet_log_entry \<Rightarrow> remedy" where
  "Remedies e =
     (if plHook e = ''forward'' then \<lparr> rmAllowlist = False, rmBlocklist = False, rmOpen = False \<rparr>
      else
        \<lparr> rmAllowlist = (plRule e \<in> set [''drop'', PacketLogRuleOther, ''bogon'', ''feed'']),
           rmBlocklist = (plRule e \<noteq> ''blocklist''),
           rmOpen = (plRule e = ''drop'' \<and> plDstPort e \<noteq> 0 \<and> (plProto e = ''tcp'' \<or> plProto e = ''udp'')) \<rparr>)"

section \<open>Rules parsed once\<close>

text \<open>\<open>netip.PrefixFrom\<close> drops the zone.\<close>

definition PrefixFrom :: "addr \<Rightarrow> nat \<Rightarrow> pfx" where
  "PrefixFrom a n = Prefix (Addr (abytes a) []) n"

definition parse_entry :: "string \<Rightarrow> pfx option" where
  "parse_entry entry =
     (if IsListComment entry then None
      else let e = trim_space entry in
        case ParseAddr e of
          Some a0 \<Rightarrow> (let a = Unmap a0 in Some (PrefixFrom a (BitLen a)))
        | None \<Rightarrow> ParseNetwork e)"

definition parseEntryList :: "string list \<Rightarrow> pfx list" where
  "parseEntryList entries = List.map_filter parse_entry entries"

definition inAnyParsedEntry :: "addr \<Rightarrow> pfx list \<Rightarrow> bool" where
  "inAnyParsedEntry src entries \<longleftrightarrow> list_ex (\<lambda>q. Contains q src) entries"

record parsed_port_rule =
  ppRule :: port_rule
  ppSources :: "pfx list"

record parsed_rules =
  paBlocklist :: "pfx list"
  paAllowlist :: "pfx list"
  paTCP :: "parsed_port_rule list"
  paUDP :: "parsed_port_rule list"

definition parsed_port :: "port_rule \<Rightarrow> parsed_port_rule" where
  "parsed_port r = \<lparr> ppRule = r, ppSources = parseEntryList (prSources r) \<rparr>"

definition ParseRules :: "rules \<Rightarrow> parsed_rules" where
  "ParseRules r =
     \<lparr> paBlocklist = parseEntryList (Blocklist r), paAllowlist = parseEntryList (Allowlist r),
        paTCP = map parsed_port (TCP r), paUDP = map parsed_port (UDP r) \<rparr>"

section \<open>The reason\<close>

text \<open>A reason with the values its sentence names; \<open>NoWhy\<close> is the empty \<open>DropWhy\<close>.\<close>

datatype drop_why =
    NoWhy | DropIPv6Blocked | DropIPv6Passthrough
  | DropICMPAcceptedNow string byte | DropBlocklistedNow | DropAllowlistedNow
  | DropPingOff | DropICMPType string byte | DropICMPUntyped string | DropNoPort
  | DropPortClosed "16 word" string | DropPortForwarded "16 word" string
  | DropPortSources "16 word" string string | DropPortOpenNow "16 word" string

text \<open>The loop over the port rules: \<open>Inl\<close> is its early return.\<close>

fun drop_ports ::
  "addr \<Rightarrow> 16 word \<Rightarrow> parsed_port_rule list \<Rightarrow> string list \<Rightarrow> bool \<Rightarrow> unit + string list \<times> bool" where
  "drop_ports src port [] named forwarded = Inr (named, forwarded)"
| "drop_ports src port (r # rs) named forwarded =
     (if \<not> PortInRule (prPort (ppRule r)) (unat port) then drop_ports src port rs named forwarded
      else if \<not> FiltersHost (ppRule r) then drop_ports src port rs named True
      else if prSources (ppRule r) = [] then Inl ()
      else if ppSources r = [] then drop_ports src port rs named forwarded
      else if inAnyParsedEntry src (ppSources r) then Inl ()
      else drop_ports src port rs
             (named @ map trim_space (filter (\<lambda>s. \<not> IsListComment s) (prSources (ppRule r)))) forwarded)"

definition is_echo :: "packet_log_entry \<Rightarrow> bool" where
  "is_echo e \<longleftrightarrow>
     (case plICMP e of
        None \<Rightarrow> False
      | Some i \<Rightarrow> plProto e = ''icmp'' \<and> icType i = 8 \<or> plProto e = ''icmpv6'' \<and> icType i = 128)"

text \<open>From the lists on.\<close>

definition drop_lists :: "packet_log_entry \<Rightarrow> parsed_rules \<Rightarrow> applied_config \<Rightarrow> addr \<Rightarrow> drop_why" where
  "drop_lists e pr a src =
     (let icmp = (plProto e = ''icmp'' \<or> plProto e = ''icmpv6'');
          label = (if plProto e = ''icmpv6'' then ''ICMPv6'' else ''ICMP'') in
      if inAnyParsedEntry src (paBlocklist pr) then DropBlocklistedNow
      else if inAnyParsedEntry src (paAllowlist pr) then DropAllowlistedNow
      else if is_echo e \<and> ICMPAllowEchoRequest (apFirewall a)
      then (case plICMP e of Some i \<Rightarrow> DropICMPAcceptedNow label (icType i) | None \<Rightarrow> NoWhy)
      else if icmp then
        (case plICMP e of
           None \<Rightarrow> DropICMPUntyped label
         | Some i \<Rightarrow> if is_echo e then DropPingOff else DropICMPType label (icType i))
      else if plProto e \<noteq> ''tcp'' \<and> plProto e \<noteq> ''udp'' \<or> plDstPort e = 0 then DropNoPort
      else
        (case drop_ports src (plDstPort e) (if plProto e = ''udp'' then paUDP pr else paTCP pr) [] False of
           Inl _ \<Rightarrow> DropPortOpenNow (plDstPort e) (plProto e)
         | Inr (named, forwarded) \<Rightarrow>
             if named \<noteq> [] then DropPortSources (plDstPort e) (plProto e) (join '', '' named)
             else if forwarded then DropPortForwarded (plDstPort e) (plProto e)
             else DropPortClosed (plDstPort e) (plProto e)))"

definition in_custom_network :: "network_settings \<Rightarrow> addr \<Rightarrow> bool" where
  "in_custom_network n src \<longleftrightarrow>
     dkEnabled (nsDocker n) \<and>
     list_ex (\<lambda>c. case ParseNetwork c of Some q \<Rightarrow> Contains q src | None \<Rightarrow> False) (CustomNetworks (nsDocker n))"

definition DropReasonParsed :: "packet_log_entry \<Rightarrow> parsed_rules \<Rightarrow> applied_config \<Rightarrow> drop_why" where
  "DropReasonParsed e pr a =
     (if plRule e \<noteq> ''drop'' \<or> plHook e = ''forward'' then NoWhy
      else
        let n = apNetwork a;
            src0 = WithZone (plSrc e) [];
            src = (if plFamily e \<noteq> 6 then Unmap src0 else src0) in
        if plFamily e = 6 \<and> v6Mode (nsIPv6 n) = IPv6Block then DropIPv6Blocked
        else if plFamily e = 6 \<and> v6Mode (nsIPv6 n) = IPv6Passthrough then DropIPv6Passthrough
        else (case plICMP e of
                Some i \<Rightarrow>
                  if plProto e = ''icmpv6'' \<and> icType i \<in> set (ICMPv6Accepted False (nsIPv6 n))
                  then DropICMPAcceptedNow ''ICMPv6'' (icType i)
                  else if in_custom_network n src then NoWhy
                  else drop_lists e pr a src
              | None \<Rightarrow> if in_custom_network n src then NoWhy else drop_lists e pr a src))"

definition entry_DropReason :: "packet_log_entry \<Rightarrow> rules \<Rightarrow> applied_config \<Rightarrow> drop_why" where
  "entry_DropReason e r a = DropReasonParsed e (ParseRules r) a"

section \<open>The parsed lists\<close>

text \<open>A valid entry is parsed into the network the builders make of it.\<close>

lemma parse_entry_network: "source_ok e \<Longrightarrow> parse_entry e = entry_network e"
proof (cases "IsListComment e")
  case False
  assume ok: "source_ok e"
  show ?thesis
  proof (cases "ParseIP (trim_space e)")
    case None
    with entry_not_addr [OF ok False] False show ?thesis by (simp add: parse_entry_def entry_network_def)
  next
    case (Some ip)
    from ParseIP_ParseAddr [OF this] obtain x where
      x: "ParseAddr (trim_space e) = Some x" "azone x = []" "Unmap (Addr ip []) = Unmap x" by blast
    then have "Addr (abytes (Unmap x)) [] = Unmap x" by (cases x) (auto simp: Unmap_def)
    with Some x False show ?thesis by (simp add: parse_entry_def entry_network_def PrefixFrom_def Let_def)
  qed
qed (simp add: parse_entry_def entry_network_def)

lemma parsed_entries:
  "list_all source_ok es \<Longrightarrow> inAnyParsedEntry a (parseEntryList es) \<longleftrightarrow> (\<exists>e\<in>set es. entry_covers e a)"
  by (induction es)
    (auto simp: inAnyParsedEntry_def parseEntryList_def List.map_filter_simps parse_entry_network entry_covers_def
      split: option.splits)

section \<open>The ports\<close>

definition port_opens :: "addr \<Rightarrow> nat \<Rightarrow> port_rule \<Rightarrow> bool" where
  "port_opens src port r \<longleftrightarrow>
     PortInRule (prPort r) port \<and> FiltersHost r \<and>
     (prSources r = [] \<or> inAnyParsedEntry src (parseEntryList (prSources r)))"

lemma drop_ports_open:
  "drop_ports src port (map parsed_port rs) named fwd = Inl () \<longleftrightarrow> (\<exists>r\<in>set rs. port_opens src (unat port) r)"
  by (induction rs arbitrary: named fwd) (auto simp: parsed_port_def port_opens_def inAnyParsedEntry_def)

definition signless_ports :: "port_rule list \<Rightarrow> bool" where
  "signless_ports rs \<longleftrightarrow> (\<forall>r\<in>set rs. CHR ''+'' \<notin> set (prPort r))"

lemma opens_iff:
  assumes "4 \<le> length (pkTrans p)" "pkProto p = proto" "list_all port_rule_ok rs"
  shows "\<exists>r\<in>set rs. port_opens (packet_src p) (dst_port p) r \<Longrightarrow> ports_open proto rs p"
    and "signless_ports rs \<Longrightarrow> ports_open proto rs p \<Longrightarrow> \<exists>r\<in>set rs. port_opens (packet_src p) (dst_port p) r"
proof -
  have src: "inAnyParsedEntry (packet_src p) (parseEntryList (prSources r)) \<longleftrightarrow> in_entries (prSources r) p"
    and port: "\<exists>lo hi. port_interval (prPort r) = Some (lo, hi)" if "r \<in> set rs" for r
  proof -
    have ok: "port_rule_ok r" using that assms(3) by (auto simp: list_all_iff)
    then have "list_all source_ok (prSources r)" by (simp add: port_rule_ok_def)
    then show "inAnyParsedEntry (packet_src p) (parseEntryList (prSources r)) \<longleftrightarrow> in_entries (prSources r) p"
      by (simp add: parsed_entries in_entries_def)
    show "\<exists>lo hi. port_interval (prPort r) = Some (lo, hi)" using ok by (auto simp: port_rule_ok_def)
  qed
  show "\<exists>r\<in>set rs. port_opens (packet_src p) (dst_port p) r \<Longrightarrow> ports_open proto rs p"
    using assms src port PortInRule_covers
    by (fastforce simp: port_opens_def ports_open_def port_open_def port_covers_def)
  show "signless_ports rs \<Longrightarrow> ports_open proto rs p \<Longrightarrow> \<exists>r\<in>set rs. port_opens (packet_src p) (dst_port p) r"
    using assms src port covers_PortInRule
    by (fastforce simp: port_opens_def ports_open_def port_open_def port_covers_def signless_ports_def)
qed

section \<open>The walk and the chain\<close>

text \<open>The reasons that say the packet would be refused again, and those that say it would be taken now.\<close>

definition says_refused :: "drop_why \<Rightarrow> bool" where
  "says_refused w \<longleftrightarrow>
     (case w of NoWhy \<Rightarrow> False | DropIPv6Passthrough \<Rightarrow> False | DropICMPAcceptedNow _ _ \<Rightarrow> False
      | DropAllowlistedNow \<Rightarrow> False | DropPortOpenNow _ _ \<Rightarrow> False | _ \<Rightarrow> True)"

definition says_accepted :: "drop_why \<Rightarrow> bool" where
  "says_accepted w \<longleftrightarrow>
     (case w of DropIPv6Passthrough \<Rightarrow> True | DropICMPAcceptedNow _ _ \<Rightarrow> True
      | DropAllowlistedNow \<Rightarrow> True | DropPortOpenNow _ _ \<Rightarrow> True | _ \<Rightarrow> False)"

text \<open>ICMP travels in IPv4 and ICMPv6 in IPv6.\<close>

definition icmp_at_home :: "packet \<Rightarrow> bool" where
  "icmp_at_home p \<longleftrightarrow>
     (pkProto p = IPPROTO_ICMP \<longrightarrow> pkFamily p = familyIPv4) \<and> (pkProto p = IPPROTO_ICMPV6 \<longrightarrow> pkFamily p = familyIPv6)"

lemma proto_names:
  "ipProtoName proto fam = ''tcp'' \<longleftrightarrow> proto = IPPROTO_TCP"
  "ipProtoName proto fam = ''udp'' \<longleftrightarrow> proto = IPPROTO_UDP"
proof -
  have d: "list_all is_digit (itoa (uint p))" for p :: byte
    by (simp add: itoa_def digits_of_digits)
  have "\<not> list_all is_digit ''tcp''" "\<not> list_all is_digit ''udp''" by code_simp+
  with d have "itoa (uint p) \<noteq> ''tcp''" "itoa (uint p) \<noteq> ''udp''" for p :: byte by metis+
  then show "ipProtoName proto fam = ''tcp'' \<longleftrightarrow> proto = IPPROTO_TCP"
    "ipProtoName proto fam = ''udp'' \<longleftrightarrow> proto = IPPROTO_UDP"
    by (simp_all add: ipProtoName_def)
qed

lemma described_source:
  assumes "describes e p" "wf_packet p"
  shows "(if plFamily e \<noteq> 6 then Unmap (WithZone (plSrc e) []) else WithZone (plSrc e) []) = packet_src p"
    "plFamily e = 6 \<longleftrightarrow> pkFamily p = familyIPv6"
  using assms
  by (auto simp: describes_def family_number_def wf_packet_def packet_src_def WithZone_def Unmap_def Is4In6_def Is6_def
      split: if_splits)

lemma described_proto:
  assumes "describes e p"
  shows "plProto e = ''tcp'' \<longleftrightarrow> pkProto p = IPPROTO_TCP" "plProto e = ''udp'' \<longleftrightarrow> pkProto p = IPPROTO_UDP"
    "icmp_at_home p \<Longrightarrow> wf_packet p \<Longrightarrow> plProto e = ''icmp'' \<longleftrightarrow> pkProto p = IPPROTO_ICMP"
    "icmp_at_home p \<Longrightarrow> wf_packet p \<Longrightarrow> plProto e = ''icmpv6'' \<longleftrightarrow> pkProto p = IPPROTO_ICMPV6"
  using assms
  by (auto simp: describes_def proto_names ipProtoName_icmp icmp_at_home_def family_number_def wf_packet_def)

lemma described_icmp:
  assumes "describes e p" "icmp_at_home p" "wf_packet p"
  shows "icmp_type_is IPPROTO_ICMPV6 t p \<longleftrightarrow> (\<exists>i. plICMP e = Some i \<and> plProto e = ''icmpv6'' \<and> icType i = t)"
    "is_echo e \<longleftrightarrow> icmp_type_is IPPROTO_ICMP 8 p \<or> icmp_type_is IPPROTO_ICMPV6 128 p"
proof -
  have icmp: "plICMP e = (if (pkProto p = IPPROTO_ICMP \<or> pkProto p = IPPROTO_ICMPV6) \<and> pkTrans p \<noteq> []
      then Some \<lparr> icType = pkTrans p ! 0, icCode = pkTrans p ! 1 \<rparr> else None)"
    using assms by (auto simp: describes_def icmp_at_home_def family_number_def wf_packet_def)
  show "icmp_type_is IPPROTO_ICMPV6 t p \<longleftrightarrow> (\<exists>i. plICMP e = Some i \<and> plProto e = ''icmpv6'' \<and> icType i = t)"
    using described_proto(4) [OF assms] by (auto simp: icmp icmp_type_is_def hd_conv_nth)
  show "is_echo e \<longleftrightarrow> icmp_type_is IPPROTO_ICMP 8 p \<or> icmp_type_is IPPROTO_ICMPV6 128 p"
    using described_proto(3,4) [OF assms] by (auto simp: icmp is_echo_def icmp_type_is_def hd_conv_nth)
qed

lemma port_zero_closed: "list_all port_rule_ok rs \<Longrightarrow> ports_open proto rs p \<Longrightarrow> 1 \<le> dst_port p \<and> 4 \<le> length (pkTrans p)"
proof -
  assume ok: "list_all port_rule_ok rs" and o: "ports_open proto rs p"
  then obtain r lo hi where r: "r \<in> set rs" "port_interval (prPort r) = Some (lo, hi)" "lo \<le> int (dst_port p)"
    "4 \<le> length (pkTrans p)"
    by (auto simp: ports_open_def port_open_def port_covers_def split: option.splits)
  have "1 \<le> lo" using r(2) by (auto simp: port_interval_def ParsePortNumber_atoi split: sum.splits if_splits prod.splits)
  with r show ?thesis by linarith
qed

text \<open>The ports an entry's reason speaks of.\<close>

definition entry_open :: "packet_log_entry \<Rightarrow> rules \<Rightarrow> addr \<Rightarrow> bool" where
  "entry_open e rs src \<longleftrightarrow>
     (plProto e = ''tcp'' \<or> plProto e = ''udp'') \<and> plDstPort e \<noteq> 0 \<and>
     drop_ports src (plDstPort e) (if plProto e = ''udp'' then paUDP (ParseRules rs) else paTCP (ParseRules rs)) [] False = Inl ()"

lemma entry_open_ports:
  assumes d: "describes e p" and ok: "rules_ok rs"
  shows "entry_open e rs (packet_src p) \<Longrightarrow> ports_open IPPROTO_TCP (TCP rs) p \<or> ports_open IPPROTO_UDP (UDP rs) p"
    and "signless_ports (TCP rs) \<Longrightarrow> signless_ports (UDP rs) \<Longrightarrow>
      ports_open IPPROTO_TCP (TCP rs) p \<or> ports_open IPPROTO_UDP (UDP rs) p \<Longrightarrow> entry_open e rs (packet_src p)"
proof -
  have pr: "list_all port_rule_ok (TCP rs)" "list_all port_rule_ok (UDP rs)" using ok by (auto simp: rules_ok_def)
  have port: "unat (plDstPort e) = dst_port p" "4 \<le> length (pkTrans p)"
    if "pkProto p = IPPROTO_TCP \<or> pkProto p = IPPROTO_UDP" "pkTrans p \<noteq> []"
    using d that by (auto simp: describes_def)
  have none: "plDstPort e = 0" if "pkTrans p = []" using d that by (simp add: describes_def)
  have read: "drop_ports (packet_src p) (plDstPort e) (paTCP (ParseRules rs)) [] False = Inl () \<longleftrightarrow>
      (\<exists>r\<in>set (TCP rs). port_opens (packet_src p) (unat (plDstPort e)) r)"
    "drop_ports (packet_src p) (plDstPort e) (paUDP (ParseRules rs)) [] False = Inl () \<longleftrightarrow>
      (\<exists>r\<in>set (UDP rs). port_opens (packet_src p) (unat (plDstPort e)) r)"
    by (simp_all add: ParseRules_def drop_ports_open)
  show "ports_open IPPROTO_TCP (TCP rs) p \<or> ports_open IPPROTO_UDP (UDP rs) p" if o: "entry_open e rs (packet_src p)"
  proof -
    have proto: "pkProto p = IPPROTO_TCP \<or> pkProto p = IPPROTO_UDP" and "pkTrans p \<noteq> []"
      using o described_proto(1,2) [OF d] none by (auto simp: entry_open_def)
    note p = port [OF this]
    show ?thesis
      using proto o described_proto(1,2) [OF d] opens_iff(1) [OF p(2) _ pr(1)] opens_iff(1) [OF p(2) _ pr(2)]
      by (auto simp: entry_open_def read p(1))
  qed
  assume s: "signless_ports (TCP rs)" "signless_ports (UDP rs)"
  assume o: "ports_open IPPROTO_TCP (TCP rs) p \<or> ports_open IPPROTO_UDP (UDP rs) p"
  then have l: "1 \<le> dst_port p" "4 \<le> length (pkTrans p)" using port_zero_closed pr by blast+
  have proto: "ports_open proto rules p \<Longrightarrow> pkProto p = proto" for proto rules
    by (auto simp: ports_open_def port_open_def)
  then have "pkProto p = IPPROTO_TCP \<or> pkProto p = IPPROTO_UDP" "pkTrans p \<noteq> []" using o l by auto
  note here = port(1) [OF this]
  with l(1) have nonzero: "plDstPort e \<noteq> 0" by auto
  show "entry_open e rs (packet_src p)"
    using o
  proof
    assume o: "ports_open IPPROTO_TCP (TCP rs) p"
    from opens_iff(2) [OF l(2) proto [OF o] pr(1) s(1) o] proto [OF o] described_proto(1,2) [OF d] nonzero
    show ?thesis by (auto simp: entry_open_def read here)
  next
    assume o: "ports_open IPPROTO_UDP (UDP rs) p"
    from opens_iff(2) [OF l(2) proto [OF o] pr(2) s(2) o] proto [OF o] described_proto(1,2) [OF d] nonzero
    show ?thesis by (auto simp: entry_open_def read here)
  qed
qed

text \<open>The walk in the packet's terms.\<close>

definition offers_discovery :: "network_settings \<Rightarrow> packet \<Rightarrow> bool" where
  "offers_discovery n p \<longleftrightarrow> (\<exists>t\<in>set (ICMPv6Accepted False (nsIPv6 n)). icmp_type_is IPPROTO_ICMPV6 t p)"

lemma parsed_lists:
  assumes "rules_ok rs"
  shows "inAnyParsedEntry (packet_src p) (paBlocklist (ParseRules rs)) = in_entries (Blocklist rs) p"
    "inAnyParsedEntry (packet_src p) (paAllowlist (ParseRules rs)) = in_entries (Allowlist rs) p"
proof -
  have "list_all source_ok (Blocklist rs)" "list_all source_ok (Allowlist rs)"
    using assms by (auto simp: rules_ok_def list_all_iff entry_source_ok)
  then show "inAnyParsedEntry (packet_src p) (paBlocklist (ParseRules rs)) = in_entries (Blocklist rs) p"
    "inAnyParsedEntry (packet_src p) (paAllowlist (ParseRules rs)) = in_entries (Allowlist rs) p"
    by (simp_all add: ParseRules_def parsed_entries in_entries_def)
qed

lemma described_discovery:
  assumes "describes e p" "icmp_at_home p" "wf_packet p"
  shows "offers_discovery n p \<longleftrightarrow>
    (\<exists>i. plICMP e = Some i \<and> plProto e = ''icmpv6'' \<and> icType i \<in> set (ICMPv6Accepted False (nsIPv6 n)))"
  using described_icmp(1) [OF assms] by (auto simp: offers_discovery_def)

lemma walk_refused:
  assumes d: "describes e p" and home: "icmp_at_home p" and wf: "wf_packet p" and ok: "rules_ok rs"
    and w: "says_refused (entry_DropReason e rs a)"
  shows "(pkFamily p = familyIPv6 \<longrightarrow> v6Mode (nsIPv6 (apNetwork a)) \<noteq> IPv6Passthrough) \<and>
    (pkFamily p = familyIPv6 \<and> v6Mode (nsIPv6 (apNetwork a)) = IPv6Block \<or>
     \<not> offers_discovery (apNetwork a) p \<and> \<not> in_custom_network (apNetwork a) (packet_src p) \<and>
     (in_entries (Blocklist rs) p \<or>
      \<not> in_entries (Allowlist rs) p \<and> \<not> (is_echo e \<and> ICMPAllowEchoRequest (apFirewall a)) \<and>
      \<not> entry_open e rs (packet_src p)))"
proof -
  note b = parsed_lists [OF ok, of p] and disc = described_discovery [OF d home wf, of "apNetwork a"]
  have lists': "in_entries (Blocklist rs) p \<or>
      \<not> in_entries (Allowlist rs) p \<and> \<not> (is_echo e \<and> ICMPAllowEchoRequest (apFirewall a)) \<and>
      \<not> entry_open e rs (packet_src p)"
    if "says_refused (drop_lists e (ParseRules rs) a (packet_src p))"
    using that
    by (auto simp: drop_lists_def Let_def b says_refused_def entry_open_def is_echo_def
        split: if_splits option.splits sum.splits)
  show ?thesis
    using w lists' described_source [OF d wf]
    by (auto simp: entry_DropReason_def DropReasonParsed_def Let_def disc says_refused_def [of NoWhy]
        says_refused_def [of DropIPv6Passthrough] says_refused_def [of "DropICMPAcceptedNow _ _"]
        IPv6Block_def IPv6Passthrough_def split: if_splits option.splits)
qed

lemma walk_accepted:
  assumes d: "describes e p" and home: "icmp_at_home p" and wf: "wf_packet p" and ok: "rules_ok rs"
    and w: "says_accepted (entry_DropReason e rs a)"
  shows "pkFamily p = familyIPv6 \<and> v6Mode (nsIPv6 (apNetwork a)) = IPv6Passthrough \<or>
    \<not> (pkFamily p = familyIPv6 \<and> v6Mode (nsIPv6 (apNetwork a)) = IPv6Block) \<and>
    (offers_discovery (apNetwork a) p \<or>
     \<not> in_entries (Blocklist rs) p \<and>
     (in_entries (Allowlist rs) p \<or> is_echo e \<and> ICMPAllowEchoRequest (apFirewall a) \<or> entry_open e rs (packet_src p)))"
proof -
  note b = parsed_lists [OF ok, of p] and disc = described_discovery [OF d home wf, of "apNetwork a"]
  have lists': "\<not> in_entries (Blocklist rs) p \<and>
      (in_entries (Allowlist rs) p \<or> is_echo e \<and> ICMPAllowEchoRequest (apFirewall a) \<or> entry_open e rs (packet_src p))"
    if "says_accepted (drop_lists e (ParseRules rs) a (packet_src p))"
    using that
    by (auto simp: drop_lists_def Let_def b says_accepted_def entry_open_def is_echo_def
        split: if_splits option.splits sum.splits)
  show ?thesis
    using w lists' described_source [OF d wf]
    by (auto simp: entry_DropReason_def DropReasonParsed_def Let_def disc says_accepted_def [of NoWhy]
        says_accepted_def [of DropIPv6Blocked] split: if_splits option.splits)
qed

lemma container_networks:
  assumes "in_networks (docker_cidrs net detected) p" "\<not> in_custom_network net (packet_src p)"
  shows "dkEnabled (nsDocker net) \<and> AllowBridgeNetworks (nsDocker net) \<and> in_networks detected p"
  using assms
  by (auto simp: in_custom_network_def in_networks_def docker_cidrs_def containerNetworks_def withoutIPv6_def
      Ruleset.network_of_def Let_def list_ex_iff split: if_splits option.splits)

lemma discovery_iff:
  "discovery (effective_ipv6 (nsIPv6 n)) p \<longleftrightarrow> v6Mode (effective_ipv6 (nsIPv6 n)) = IPv6Filter \<and> offers_discovery n p"
  by (auto simp: discovery_def offers_discovery_def effective_ipv6_def ICMPv6Accepted_def)

lemma filter_mode:
  "v6Mode (effective_ipv6 v6) = IPv6Filter \<longleftrightarrow> v6Mode v6 \<noteq> IPv6Passthrough \<and> v6Mode v6 \<noteq> IPv6Block"
  by (auto simp: effective_ipv6_def ValidIPv6Mode_def IPv6Filter_def IPv6Passthrough_def IPv6Block_def)

section \<open>Properties\<close>

text \<open>
  C24. The page of blocked packets explains a refusal truthfully.  When a row that describes a
  packet gets a reason that says something is missing or in the way, the table of the rules it
  was explained with refuses the packet too, except over loopback, as part of a connection, from
  a container bridge the interface cannot list, or when a custom rule, which the page does not
  read, accepts it.  When the reason says the packet is accepted now, the table accepts it,
  unless a protection, a meter or a feed refuses it, and whatever the custom rules say.  As
  everywhere, ports are written without a sign and ICMP travels in its own family.
\<close>

theorem drop_reason_is_true:
  assumes "ValidateRules rs = None" "build_batch mg rs opts net feeds detected = Inr (k, batch)" "host_byte_order mg"
    "wf_packet p" "icmp_at_home p" "describes e p" "signless_ports (TCP rs)" "signless_ports (UDP rs)"
    "why = entry_DropReason e rs \<lparr> apFirewall = opts, apNetwork = net \<rparr>"
  shows "(says_refused why \<longrightarrow> input_verdict custom mg m p rs opts batch \<longrightarrow>
      from_loopback p \<or> established p \<or>
      dkEnabled (nsDocker net) \<and> AllowBridgeNetworks (nsDocker net) \<and> in_networks detected p \<or>
      lets_in (custom_policy custom (custom_commands (Custom rs)) p)) \<and>
    (says_accepted why \<longrightarrow> (\<forall>n key. \<not> overDynset m n key) \<longrightarrow> \<not> in_feeds m (Feeds rs) p \<longrightarrow>
      first_match (module_stages mg m rs opts (docker_cidrs net detected) p) = Through \<longrightarrow>
      input_verdict custom mg m p rs opts batch)"
proof -
  let ?v6 = "effective_ipv6 (nsIPv6 net)" and ?cidrs = "docker_cidrs net detected"
  let ?a = "\<lparr> apFirewall = opts, apNetwork = net \<rparr>"
  have ok: "rules_ok rs" using assms(1) by (simp add: ValidateRules_None)
  note chain = input_verdict_exact [OF ok assms(2-4), of custom m, unfolded lets_in_next lets_in_policy effective_mode discovery_iff filter_mode]
  note echo = described_icmp(2) [OF assms(6,5,4)]
  have fam6: "icmp_type_is IPPROTO_ICMPV6 t p \<Longrightarrow> pkFamily p = familyIPv6" for t
    using assms(5) by (auto simp: icmp_at_home_def icmp_type_is_def)
  have d6: "offers_discovery net p \<Longrightarrow> pkFamily p = familyIPv6" using fam6 by (auto simp: offers_discovery_def)
  have echo': "echo_accepted (ICMPAllowEchoRequest opts) ?v6 p \<longleftrightarrow> ICMPAllowEchoRequest opts \<and>
      (icmp_type_is IPPROTO_ICMP 8 p \<or> v6Mode (nsIPv6 net) \<noteq> IPv6Passthrough \<and> v6Mode (nsIPv6 net) \<noteq> IPv6Block \<and>
        icmp_type_is IPPROTO_ICMPV6 128 p)"
    by (simp add: echo_accepted_def filter_mode)
  show ?thesis
  proof (intro conjI impI)
    assume "says_refused why" and acc: "input_verdict custom mg m p rs opts batch"
    note v = walk_refused [OF assms(6,5,4) ok, of ?a, folded assms(9), OF this(1), simplified]
    show "from_loopback p \<or> established p \<or>
      dkEnabled (nsDocker net) \<and> AllowBridgeNetworks (nsDocker net) \<and> in_networks detected p \<or>
      lets_in (custom_policy custom (custom_commands (Custom rs)) p)"
      using acc v container_networks [of net detected p] entry_open_ports(2) [OF assms(6) ok assms(7,8)]
      unfolding chain echo' echo by blast
  next
    assume "says_accepted why" and quiet: "\<forall>n key. \<not> overDynset m n key" and "\<not> in_feeds m (Feeds rs) p"
      and "first_match (module_stages mg m rs opts ?cidrs p) = Through"
    note v = walk_accepted [OF assms(6,5,4) ok, of ?a, folded assms(9), OF this(1), simplified]
    have over: "\<not> source_over mg m st p" for st using quiet by (simp add: source_over_def)
    show "input_verdict custom mg m p rs opts batch"
      unfolding chain echo'
      using v over \<open>\<not> in_feeds m (Feeds rs) p\<close> \<open>first_match _ = Through\<close> entry_open_ports(1) [OF assms(6) ok] fam6 d6
      unfolding echo by blast
  qed
qed

text \<open>Every prefix a log rule carries leads back to its rule, and a feed's to the feed.\<close>

lemma dropWhile_plain_end:
  "list_all plain s \<Longrightarrow> s \<noteq> [] \<Longrightarrow> dropWhile (\<lambda>c. c \<in> {CHR 0x00, CHR '' ''}) (rev s @ r) = rev s @ r"
proof -
  assume s: "list_all plain s" "s \<noteq> []"
  then obtain t c where t: "s = t @ [c]" by (metis rev_exhaust)
  with s(1) have "plain c" by simp
  then have "c \<noteq> CHR 0x00" "c \<noteq> CHR '' ''" by (auto simp: plain_def)
  then show ?thesis by (simp add: t)
qed

lemma trim_space_blank: "trim_space (CHR '' '' # s) = trim_space s"
proof -
  have "leading_space space_encodings (CHR '' '' # s) = Some '' ''"
    by (simp add: leading_space_def space_encodings_def has_prefix_def)
  then have "trim_left space_encodings (CHR '' '' # s) = trim_left space_encodings s" by (simp add: trim_left_def)
  then show ?thesis by (simp add: trim_space_def)
qed

lemma log_prefixes_decode:
  "(\<forall>fid. KnownFeedID fid \<longrightarrow> ParseLogPrefix (FeedLogPrefix fid) = (''feed'', fid)) \<and>
   map RuleFromPrefix [logPrefixSSH, logPrefixICMPFlood, logPrefixSYNFlood, logPrefixTCPRST, logPrefixPortScan,
     logPrefixInvalid, logPrefixFragment, logPrefixBogon, logPrefixBlocklist] = take 9 PacketLogRules \<and>
   RuleFromPrefix logPrefixDrop = ''drop''"
proof (intro conjI allI impI)
  fix fid
  assume known: "KnownFeedID fid"
  then have p: "list_all plain fid" and word: "trim_space fid = fid" and ne: "fid \<noteq> []"
    using known_feed_plain known_feed_word by (auto simp: IsListComment_def)
  have "trim_right_set {CHR 0x00, CHR '' ''} (''feed: '' @ fid @ '' '') = ''feed: '' @ fid"
    using dropWhile_plain_end [OF p ne, of "rev ''feed: ''"] by (simp add: trim_right_set_def)
  moreover have "trim_space (CHR '' '' # fid) = fid" by (simp add: trim_space_blank word)
  ultimately show "ParseLogPrefix (FeedLogPrefix fid) = (''feed'', fid)"
    using known by (simp add: ParseLogPrefix_def FeedLogPrefix_def cut_prefix_def has_prefix_def logPrefixStem_def Let_def)
qed (code_simp+)

end
