(* ===== verification/PacketRuns.thy ===== *)
theory PacketRuns
  imports PacketRing DropReason TableRuns
begin

text \<open>A refused packet on its way into the log, through a restart and onto the page.\<close>

section \<open>A packet\<close>

definition syn_bytes :: "byte list \<Rightarrow> byte list \<Rightarrow> byte list" where
  "syn_bytes src dport =
     [0x45, 0, 0, 40, 0, 0, 0, 0, 64, 6, 0, 0] @ src @ [192, 168, 0, 1] @
     [0x80, 0] @ dport @ replicate 8 0 @ [0x50, 0x02] @ replicate 6 0"

definition syn_packet :: "byte list \<Rightarrow> byte list \<Rightarrow> packet" where
  "syn_packet src dport =
     (tcp_packet src dport)\<lparr>pkNet := syn_bytes src dport, pkTrans := drop 20 (syn_bytes src dport)\<rparr>"

definition syn_attribute :: "byte list \<Rightarrow> byte list \<Rightarrow> nflog_attribute" where
  "syn_attribute src dport =
     \<lparr> naPayload = Some (take 128 (syn_bytes src dport)), naPrefix = Some ''easywall drop: '', naTimestamp = None,
        naInDev = Some 2, naHook = Some 1, naMark = None, naCtInfo = Some 2 \<rparr>"

definition eth_name :: "32 word \<Rightarrow> string" where
  "eth_name i = ''eth0''"

definition syn_entry :: "byte list \<Rightarrow> byte list \<Rightarrow> packet_log_entry" where
  "syn_entry src dport =
     (case entryFromAttribute (syn_attribute src dport) eth_name 7 of Some (e, _) \<Rightarrow> e | None \<Rightarrow> zero_entry)"

definition syn_src :: "byte list" where "syn_src = [198, 18, 0, 1]"
definition telnet :: "byte list" where "telnet = [0, 23]"

lemma syn_frames: "frames (syn_bytes syn_src telnet) (syn_packet syn_src telnet)"
  by (simp add: frames_def syn_packet_def tcp_packet_def syn_bytes_def wf_packet_def syn_src_def telnet_def be_nat_def)

lemma syn_decoded: "entryFromAttribute (syn_attribute syn_src telnet) eth_name 7 = Some (syn_entry syn_src telnet, True)"
proof -
  have "case entryFromAttribute (syn_attribute syn_src telnet) eth_name 7 of Some (_, ok) \<Rightarrow> ok | None \<Rightarrow> False"
    by code_simp
  then show ?thesis by (auto simp: syn_entry_def split: option.splits)
qed

theorem decoder_returns_the_truth_witness:
  "describes (syn_entry syn_src telnet) (syn_packet syn_src telnet) \<and> plRule (syn_entry syn_src telnet) = ''drop'' \<and>
   plDstPort (syn_entry syn_src telnet) = 23"
proof -
  have "naPayload (syn_attribute syn_src telnet) = Some (take 128 (syn_bytes syn_src telnet))"
    by (simp add: syn_attribute_def)
  with decoder_returns_the_truth [of "syn_attribute syn_src telnet" eth_name 7 128 "syn_bytes syn_src telnet"
      "syn_packet syn_src telnet" "syn_entry syn_src telnet"] syn_frames syn_decoded
  have d: "describes (syn_entry syn_src telnet) (syn_packet syn_src telnet)" by blast
  moreover have "plRule (syn_entry syn_src telnet) = ''drop''" "plDstPort (syn_entry syn_src telnet) = 23" by code_simp+
  ultimately show ?thesis by blast
qed

section \<open>A log\<close>

definition good_io :: spill_io where
  "good_io = \<lparr> ioAppend = Appended, ioRewrite = Rewritten \<rparr>"

definition booted :: "packet_log \<times> disk" where
  "booted = snd (Persist ReplayOk Rewritten (NewPacketLog 2 0) None)"

definition received :: "byte list \<Rightarrow> packet_log \<times> disk \<Rightarrow> packet_log \<times> disk" where
  "received dport pd =
     (case hook good_io (syn_attribute syn_src dport) eth_name 7 (fst pd) (snd pd) of Some r \<Rightarrow> r | None \<Rightarrow> pd)"

definition three_refused :: "packet_log \<times> disk" where
  "three_refused = received [0, 25] (received [0, 24] (received [0, 23] booted))"

definition numbered_syn :: "byte list \<Rightarrow> 64 word \<Rightarrow> packet_log_entry" where
  "numbered_syn dport n = (syn_entry syn_src dport)\<lparr>plSeq := n\<rparr>"

definition three_entries :: "packet_log_entry list" where
  "three_entries = [numbered_syn [0, 23] 1, numbered_syn [0, 24] 2, numbered_syn [0, 25] 3]"

lemma booted_life: "log_life (fst booted) (snd booted) []"
proof -
  obtain err p d where r: "Persist ReplayOk Rewritten (NewPacketLog 2 0) None = (err, p, d)" by (metis prod_cases3)
  from log_life.restart [OF log_life.first_boot [of 2 0] r] show ?thesis by (simp add: booted_def r replayed_def)
qed

lemma received_life:
  assumes "log_life (fst pd) (snd pd) h" "rgSeq (fst pd) = n" "n \<noteq> - 1"
    "case entryFromAttribute (syn_attribute syn_src dport) eth_name 7 of Some (_, ok) \<Rightarrow> ok | None \<Rightarrow> False"
  shows "log_life (fst (received dport pd)) (snd (received dport pd)) (h @ [numbered_syn dport (n + 1)])"
    "rgSeq (fst (received dport pd)) = n + 1"
proof -
  obtain e where e: "entryFromAttribute (syn_attribute syn_src dport) eth_name 7 = Some (e, True)"
    using assms(4) by (auto split: option.splits)
  obtain p' d' where a: "Add good_io e (fst pd) (snd pd) = (p', d')" by fastforce
  then have r: "hook good_io (syn_attribute syn_src dport) eth_name 7 (fst pd) (snd pd) = Some (p', d')"
    by (simp add: hook_def e)
  from log_life.message [OF assms(1) _ r] assms(2,3)
  show "log_life (fst (received dport pd)) (snd (received dport pd)) (h @ [numbered_syn dport (n + 1)])"
    by (simp add: received_def r given_def e numbered_syn_def syn_entry_def)
  show "rgSeq (fst (received dport pd)) = n + 1"
    using a assms(2) by (auto simp: received_def r Add_def Let_def split: option.splits prod.splits)
qed

lemma three_life: "log_life (fst three_refused) (snd three_refused) three_entries"
proof -
  have dec: "case entryFromAttribute (syn_attribute syn_src [0, x]) eth_name 7 of Some (_, ok) \<Rightarrow> ok | None \<Rightarrow> False"
    if "x = 23 \<or> x = 24 \<or> x = 25" for x
  proof -
    have "list_all (\<lambda>x. case entryFromAttribute (syn_attribute syn_src [0, x]) eth_name 7 of Some (_, ok) \<Rightarrow> ok | None \<Rightarrow> False)
      [23, 24, 25]" by code_simp
    with that show ?thesis by auto
  qed
  have z: "rgSeq (fst booted) = 0" by code_simp
  note one = received_life [OF booted_life z _ dec [of 23], simplified]
  note two = received_life [OF one _ dec [of 24], simplified]
  note three = received_life [OF two _ dec [of 25], simplified]
  show ?thesis using three(1) by (simp add: three_refused_def three_entries_def)
qed

lemma three_spilled: "rgSpill (fst three_refused) \<noteq> None" "length (rgBuf (fst three_refused)) = 2"
proof -
  have "case rgSpill (fst three_refused) of Some _ \<Rightarrow> True | None \<Rightarrow> False" by code_simp
  then show "rgSpill (fst three_refused) \<noteq> None" by (auto split: option.splits)
  show "length (rgBuf (fst three_refused)) = 2" by code_simp
qed

theorem query_answers_the_history_witness:
  "\<exists>res. Query (zero_filter\<lparr>pfPort := 24\<rparr>) (fst three_refused) = Inr res \<and> prEntries res = [numbered_syn [0, 24] 2] \<and>
     prMatched res = 1 \<and> prHeld res = 2"
proof -
  let ?f = "zero_filter\<lparr>pfPort := 24\<rparr>"
  have v: "filter_Validate ?f = None" by code_simp
  have two: "latest 2 three_entries = [numbered_syn [0, 24] 2, numbered_syn [0, 25] 3]"
    by (simp add: latest_def three_entries_def)
  have l: "length three_entries = 3" by (simp add: three_entries_def)
  have most: "EffectiveLimit ?f = 200" by code_simp
  have "filter_match ?f (numbered_syn [0, 24] 2)" "\<not> filter_match ?f (numbered_syn [0, 25] 3)" by code_simp+
  with query_answers_the_history [OF three_life v] show ?thesis
    by (auto simp: three_spilled two l most)
qed

theorem packet_log_survives_restart_witness:
  "oldestFirst (fst (snd (Persist ReplayOk Rewritten (NewPacketLog 2 99) (snd three_refused)))) =
     oldestFirst (fst three_refused) \<and>
   rgSeq (fst (snd (Persist ReplayOk Rewritten (NewPacketLog 2 99) (snd three_refused)))) = 3"
proof -
  obtain err p d where r: "Persist ReplayOk Rewritten (NewPacketLog 2 99) (snd three_refused) = (err, p, d)"
    by (metis prod_cases3)
  have "rgSeq (fst three_refused) = 3" by code_simp
  with packet_log_survives_restart [OF three_life three_spilled(1), of 99 err p d] r show ?thesis
    by (simp add: three_spilled)
qed

section \<open>A reason\<close>

theorem drop_reason_is_true_witness:
  "entry_DropReason (syn_entry syn_src telnet) example_rules \<lparr> apFirewall = example_options, apNetwork = zero_network \<rparr> =
     DropPortClosed 23 ''tcp'' \<and>
   \<not> input_verdict (\<lambda>_ _. Through) example_manager quiet_meters (syn_packet syn_src telnet) example_rules
     example_options example_batch"
proof -
  let ?p = "syn_packet syn_src telnet" and ?e = "syn_entry syn_src telnet"
  obtain k where b: "build_batch example_manager example_rules example_options zero_network example_feeds [] =
     Inr (k, example_batch)" using example_built by blast
  have d: "describes ?e ?p"
    by (rule entryFromAttribute_describes(1) [OF _ syn_frames syn_decoded]) (simp add: syn_attribute_def)
  have wf: "wf_packet ?p" using syn_frames by (simp add: frames_def)
  have home: "icmp_at_home ?p" by (simp add: icmp_at_home_def syn_packet_def tcp_packet_def)
  have s: "signless_ports (TCP example_rules)" "signless_ports (UDP example_rules)" by code_simp+
  have why: "entry_DropReason ?e example_rules \<lparr> apFirewall = example_options, apNetwork = zero_network \<rparr> =
     DropPortClosed 23 ''tcp''" by code_simp
  have no: "\<not> from_loopback ?p" "\<not> established ?p" "\<not> in_networks [] ?p" by code_simp+
  have silent: "\<not> lets_in (custom_policy (\<lambda>_ _. Through) (custom_commands (Custom example_rules)) ?p)" by code_simp
  from drop_reason_is_true [OF example_valid b example_order wf home d s refl, of "\<lambda>_ _. Through" quiet_meters] no silent
  show ?thesis by (simp add: why says_refused_def)
qed

end
