(* ===== verification/JsonText.thy ===== *)
theory JsonText
  imports Store
begin

text \<open>
  The text of a JSON document: \<open>encoding/json\<close>'s scanner, its strings with their escapes and the
  repair of bytes that are not UTF-8, and \<open>unicode/utf8\<close>.  Like \<open>Netip\<close>, this models the standard
  library the sources rely on, not a file of the repository.
\<close>

section \<open>UTF-8\<close>

definition byte_in :: "nat \<Rightarrow> nat \<Rightarrow> char \<Rightarrow> bool" where
  "byte_in lo hi c \<longleftrightarrow> lo \<le> (of_char c :: nat) \<and> (of_char c :: nat) \<le> hi"

definition continues :: "string \<Rightarrow> bool" where
  "continues s \<longleftrightarrow> list_all (byte_in 0x80 0xBF) s"

text \<open>The length of the rune a string starts with, and 0 where the encoding is not valid.\<close>

fun utf8_len :: "string \<Rightarrow> nat" where
  "utf8_len [] = 0"
| "utf8_len (c # cs) =
     (if byte_in 0 0x7F c then 1
      else if byte_in 0xC2 0xDF c then (if length cs \<ge> 1 \<and> continues (take 1 cs) then 2 else 0)
      else if byte_in 0xE0 0xEF c then
        (if length cs \<ge> 2 \<and> continues (take 2 cs) \<and>
            (byte_in 0xE0 0xE0 c \<longrightarrow> byte_in 0xA0 0xBF (hd cs)) \<and>
            (byte_in 0xED 0xED c \<longrightarrow> byte_in 0x80 0x9F (hd cs)) then 3 else 0)
      else if byte_in 0xF0 0xF4 c then
        (if length cs \<ge> 3 \<and> continues (take 3 cs) \<and>
            (byte_in 0xF0 0xF0 c \<longrightarrow> byte_in 0x90 0xBF (hd cs)) \<and>
            (byte_in 0xF4 0xF4 c \<longrightarrow> byte_in 0x80 0x8F (hd cs)) then 4 else 0)
      else 0)"

declare utf8_len.simps [simp del]

definition utf8_enc :: "nat \<Rightarrow> string" where
  "utf8_enc r =
     (if r < 0x80 then [char_of r]
      else if r < 0x800 then [char_of (0xC0 + r div 64), char_of (0x80 + r mod 64)]
      else if r < 0x10000 then
        [char_of (0xE0 + r div 4096), char_of (0x80 + r div 64 mod 64), char_of (0x80 + r mod 64)]
      else [char_of (0xF0 + r div 262144), char_of (0x80 + r div 4096 mod 64),
            char_of (0x80 + r div 64 mod 64), char_of (0x80 + r mod 64)])"

definition rune_error :: string where "rune_error = utf8_enc 0xFFFD"

text \<open>
  \<open>strings.ToValidUTF8\<close>: each run of bytes that are not valid becomes the replacement, once.  The
  number counts the bytes, each step takes at least one.
\<close>

fun to_valid_n :: "nat \<Rightarrow> bool \<Rightarrow> string \<Rightarrow> string \<Rightarrow> string" where
  "to_valid_n 0 inrun rep s = []"
| "to_valid_n (Suc n) inrun rep [] = []"
| "to_valid_n (Suc n) inrun rep (c # cs) =
     (let k = utf8_len (c # cs) in
      if k = 0 then (if inrun then [] else rep) @ to_valid_n n True rep cs
      else take k (c # cs) @ to_valid_n n False rep (drop k (c # cs)))"

definition ToValidUTF8 :: "string \<Rightarrow> string \<Rightarrow> string" where
  "ToValidUTF8 s rep = to_valid_n (length s) False rep s"

section \<open>Strings\<close>

definition hex4 :: "string \<Rightarrow> nat option" where
  "hex4 s =
     (if length s \<ge> 4 \<and> list_all (\<lambda>c. hex_val c \<noteq> None) (take 4 s) then Some (hex_acc (take 4 s)) else None)"

definition simple_escape :: "char \<Rightarrow> char option" where
  "simple_escape c =
     map_of [(CHR 0x22, CHR 0x22), (CHR 0x5C, CHR 0x5C), (CHR ''/'', CHR ''/''), (CHR ''b'', CHR 0x08),
             (CHR ''f'', CHR 0x0C), (CHR ''n'', CHR 0x0A), (CHR ''r'', CHR 0x0D), (CHR ''t'', CHR 0x09)] c"

text \<open>What \<open>\u\<close> and four digits stand for: the text, and how many bytes of the rest belong to it.\<close>

definition unicode_escape :: "nat \<Rightarrow> string \<Rightarrow> string \<times> nat" where
  "unicode_escape r rest =
     (if 0xD800 \<le> r \<and> r < 0xE000 then
        (case hex4 (drop 2 rest) of
           Some r2 \<Rightarrow>
             if r < 0xDC00 \<and> take 2 rest = [CHR 0x5C, CHR ''u''] \<and> 0xDC00 \<le> r2 \<and> r2 < 0xE000
             then (utf8_enc ((r - 0xD800) * 1024 + (r2 - 0xDC00) + 0x10000), 6)
             else (rune_error, 0)
         | None \<Rightarrow> (rune_error, 0))
      else (utf8_enc r, 0))"

text \<open>After the opening quote: the text, and what follows the closing one.\<close>

fun unquote_n :: "nat \<Rightarrow> string \<Rightarrow> (string \<times> string) option" where
  "unquote_n (Suc n) (c # cs) =
     (if c = CHR 0x22 then Some ([], cs)
      else if byte_in 0 0x1F c then None
      else if c = CHR 0x5C then
        (case cs of
           [] \<Rightarrow> None
         | e # es \<Rightarrow>
             (case simple_escape e of
                Some x \<Rightarrow> map_option (\<lambda>(t, r). (x # t, r)) (unquote_n n es)
              | None \<Rightarrow>
                  if e \<noteq> CHR ''u'' then None
                  else (case hex4 es of
                          None \<Rightarrow> None
                        | Some v \<Rightarrow>
                            let (t0, k) = unicode_escape v (drop 4 es)
                            in map_option (\<lambda>(t, r). (t0 @ t, r)) (unquote_n n (drop (4 + k) es)))))
      else
        (let k = utf8_len (c # cs) in
         if k = 0 then map_option (\<lambda>(t, r). (rune_error @ t, r)) (unquote_n n cs)
         else map_option (\<lambda>(t, r). (take k (c # cs) @ t, r)) (unquote_n n (drop k (c # cs)))))"
| "unquote_n _ _ = None"

section \<open>Numbers\<close>

definition digit_run :: "string \<Rightarrow> string \<times> string" where
  "digit_run s = (takeWhile is_digit s, dropWhile is_digit s)"

text \<open>Sign and integer part, fraction, exponent; each with what follows it.\<close>

definition int_part :: "string \<Rightarrow> (string \<times> string) option" where
  "int_part s =
     (let (sg, u) = (if has_prefix s ''-'' then (''-'', drop 1 s) else ([], s)); (ds, r) = digit_run u in
      if ds = [] then None
      else if hd ds = CHR ''0'' then Some (sg @ ''0'', drop 1 u)
      else Some (sg @ ds, r))"

definition frac_part :: "string \<Rightarrow> (string \<times> string) option" where
  "frac_part s =
     (if \<not> has_prefix s ''.'' then Some ([], s)
      else let (ds, r) = digit_run (drop 1 s) in if ds = [] then None else Some (''.'' @ ds, r))"

definition exp_part :: "string \<Rightarrow> (string \<times> string) option" where
  "exp_part s =
     (if \<not> (has_prefix s ''e'' \<or> has_prefix s ''E'') then Some ([], s)
      else let (sg, u) = (if has_prefix (drop 1 s) ''+'' \<or> has_prefix (drop 1 s) ''-''
                          then (take 1 (drop 1 s), drop 2 s) else ([], drop 1 s));
               (ds, r) = digit_run u in
           if ds = [] then None else Some (take 1 s @ sg @ ds, r))"

definition scan_number :: "string \<Rightarrow> (json \<times> string) option" where
  "scan_number s = do {
     (i, r1) \<leftarrow> int_part s;
     (f, r2) \<leftarrow> frac_part r1;
     (e, r3) \<leftarrow> exp_part r2;
     Some (if f @ e = [] then JNum (if hd i = CHR ''-'' then - int (nat_of_digits (tl i)) else int (nat_of_digits i))
           else JReal (i @ f @ e), r3) }"

section \<open>Values\<close>

definition skip_ws :: "string \<Rightarrow> string" where
  "skip_ws s = dropWhile (\<lambda>c. c \<in> set [CHR 0x20, CHR 0x09, CHR 0x0D, CHR 0x0A]) s"

definition maxNestingDepth :: nat where "maxNestingDepth = 10000"

text \<open>
  A value, the elements of an array after one that was read, the members of an object after its
  brace or a comma.  Two steps of fuel per byte are enough: of any two calls in a row one takes a
  byte.
\<close>

fun scan_value :: "nat \<Rightarrow> nat \<Rightarrow> string \<Rightarrow> (json \<times> string) option"
  and scan_items :: "nat \<Rightarrow> nat \<Rightarrow> string \<Rightarrow> (json list \<times> string) option"
  and scan_members :: "nat \<Rightarrow> nat \<Rightarrow> string \<Rightarrow> ((string \<times> json) list \<times> string) option" where
  "scan_value 0 d s = None"
| "scan_value (Suc n) d s0 =
     (let s = skip_ws s0 in
      if s = [] then None
      else if has_prefix s ''null'' then Some (JNull, drop 4 s)
      else if has_prefix s ''true'' then Some (JBool True, drop 4 s)
      else if has_prefix s ''false'' then Some (JBool False, drop 5 s)
      else if hd s = CHR 0x22 then map_option (\<lambda>(t, r). (JStr t, r)) (unquote_n (length s) (tl s))
      else if hd s = CHR ''['' then
        (if d \<ge> maxNestingDepth then None
         else if has_prefix (skip_ws (tl s)) '']'' then Some (JArr [], drop 1 (skip_ws (tl s)))
         else map_option (\<lambda>(xs, r). (JArr xs, r)) (scan_items n (d + 1) (tl s)))
      else if hd s = CHR ''{'' then
        (if d \<ge> maxNestingDepth then None
         else if has_prefix (skip_ws (tl s)) ''}'' then Some (JObj [], drop 1 (skip_ws (tl s)))
         else map_option (\<lambda>(ms, r). (JObj ms, r)) (scan_members n (d + 1) (tl s)))
      else scan_number s)"
| "scan_items 0 d s = None"
| "scan_items (Suc n) d s =
     (case scan_value n d s of
        None \<Rightarrow> None
      | Some (x, r) \<Rightarrow>
          (case skip_ws r of
             [] \<Rightarrow> None
           | c # cs \<Rightarrow>
               if c = CHR '']'' then Some ([x], cs)
               else if c = CHR '','' then map_option (\<lambda>(xs, r). (x # xs, r)) (scan_items n d cs)
               else None))"
| "scan_members 0 d s = None"
| "scan_members (Suc n) d s =
     (case skip_ws s of
        [] \<Rightarrow> None
      | q # qs \<Rightarrow>
          if q \<noteq> CHR 0x22 then None
          else (case unquote_n (length qs + 1) qs of
                  None \<Rightarrow> None
                | Some (k, r) \<Rightarrow>
                    (case skip_ws r of
                       [] \<Rightarrow> None
                     | c # cs \<Rightarrow>
                         if c \<noteq> CHR '':'' then None
                         else (case scan_value n d cs of
                                 None \<Rightarrow> None
                               | Some (v, r') \<Rightarrow>
                                   (case skip_ws r' of
                                      [] \<Rightarrow> None
                                    | e # es \<Rightarrow>
                                        if e = CHR ''}'' then Some ([(k, v)], es)
                                        else if e = CHR '',''
                                        then map_option (\<lambda>(ms, r). ((k, v) # ms, r)) (scan_members n d es)
                                        else None)))))"

text \<open>The whole text is one value; anything but white space after it is an error.\<close>

definition json_text :: "string \<Rightarrow> json option" where
  "json_text s =
     (case scan_value (2 * length s + 2) 0 s of
        Some (v, r) \<Rightarrow> if skip_ws r = [] then Some v else None
      | None \<Rightarrow> None)"

lemma json_text_example:
  "json_text ''{\"cidr\":\"1.10.16.0/20\", \"n\":[-1, 2.5e3]}'' =
    Some (JObj [(''cidr'', JStr ''1.10.16.0/20''), (''n'', JArr [JNum (- 1), JReal ''2.5e3''])])"
  by code_simp

end
