(* ===== verification/FeedParse.thy ===== *)
theory FeedParse
  imports JsonText FeedSafety DropReason
begin

text \<open>
  A downloaded feed on its way to the core: \<open>internal/web/feed_parse.go\<close>, the four formats of the
  catalogue, and the proof that the two processes read the same prefixes.  What the web process
  sends is text again, so the round trip through \<open>canonicalEntry\<close> and the core's \<open>feedPrefix\<close> decides
  whether a list arrives whole.
\<close>

section \<open>Lines of a body\<close>

text \<open>\<open>bytes.Lines\<close>: every line with its newline, and a last one without.\<close>

fun lines_acc :: "string \<Rightarrow> string \<Rightarrow> string list" where
  "lines_acc acc [] = (if acc = [] then [] else [rev acc])"
| "lines_acc acc (c # cs) =
     (if c = CHR 0x0A then rev (c # acc) # lines_acc [] cs else lines_acc (c # acc) cs)"

definition body_lines :: "string \<Rightarrow> string list" where
  "body_lines body = lines_acc [] body"

text \<open>\<open>strings.Split\<close> at a single byte.\<close>

fun split_acc :: "char \<Rightarrow> string \<Rightarrow> string \<Rightarrow> string list" where
  "split_acc d acc [] = [rev acc]"
| "split_acc d acc (c # cs) =
     (if c = d then rev acc # split_acc d [] cs else split_acc d (c # acc) cs)"

definition split_char :: "char \<Rightarrow> string \<Rightarrow> string list" where
  "split_char d s = split_acc d [] s"

section \<open>Entries\<close>

text \<open>\<open>Addr.Prefix\<close>: masked, without the zone; \<open>None\<close> where the length does not fit.\<close>

definition addr_prefix :: "addr \<Rightarrow> int \<Rightarrow> pfx option" where
  "addr_prefix a n =
     (if \<not> IsValid a \<or> n < 0 \<or> n > int (BitLen a) then None else Some (Masked (Prefix a (nat n))))"

definition parseEntry :: "string \<Rightarrow> pfx option" where
  "parseEntry s =
     (if CHR ''/'' \<in> set s then
        (case ParsePrefix s of
           None \<Rightarrow> None
         | Some p \<Rightarrow>
             if Is4In6 (paddr p)
             then (if pbits p < 96 then None else addr_prefix (Unmap (paddr p)) (int (pbits p - 96)))
             else addr_prefix (paddr p) (int (pbits p)))
      else
        (case ParseAddr s of
           None \<Rightarrow> None
         | Some a0 \<Rightarrow>
             if azone a0 \<noteq> [] then None
             else let a = Unmap a0 in Some (PrefixFrom a (BitLen a))))"

text \<open>The three answers of an entry reader: \<open>skip\<close>, \<open>ok\<close>, neither.\<close>

datatype entry_read = Skipped | Entry pfx | Rejected

definition read_of :: "pfx option \<Rightarrow> entry_read" where
  "read_of r = (case r of None \<Rightarrow> Rejected | Some p \<Rightarrow> Entry p)"

definition plainEntry :: "string \<Rightarrow> entry_read" where
  "plainEntry line0 =
     (let comment = (\<lambda>c. c = CHR ''#'' \<or> c = CHR '';'');
          line = (if list_ex comment line0 then trim_space (takeWhile (\<lambda>c. \<not> comment c) line0) else line0) in
      if line = [] then Skipped else read_of (parseEntry line))"

text \<open>
  The fields of the two documents, read in the order they stand in, a later one over an earlier
  one; \<open>None\<close> is a decoding error.
\<close>

fun spamhaus_record :: "(string \<times> json) list \<Rightarrow> string \<times> string \<Rightarrow> (string \<times> string) option" where
  "spamhaus_record [] rec = Some rec"
| "spamhaus_record ((k, v) # fs) (cidr, ty) =
     (if v \<noteq> JNull \<and> fold_key k = fold_key ''cidr'' then
        (case dec_str (Some v) of None \<Rightarrow> None | Some s \<Rightarrow> spamhaus_record fs (s, ty))
      else if v \<noteq> JNull \<and> fold_key k = fold_key ''type'' then
        (case dec_str (Some v) of None \<Rightarrow> None | Some s \<Rightarrow> spamhaus_record fs (cidr, s))
      else spamhaus_record fs (cidr, ty))"

definition spamhaus_line :: "string \<Rightarrow> (string \<times> string) option" where
  "spamhaus_line line =
     (case json_text line of
        Some (JObj fs) \<Rightarrow> spamhaus_record fs ([], [])
      | Some JNull \<Rightarrow> Some ([], [])
      | _ \<Rightarrow> None)"

definition spamhausEntry :: "string \<Rightarrow> entry_read" where
  "spamhausEntry line =
     (if line = [] then Skipped
      else
        (case spamhaus_line line of
           None \<Rightarrow> Rejected
         | Some (cidr, ty) \<Rightarrow>
             if ty = ''metadata'' \<and> cidr = [] then Skipped else read_of (parseEntry cidr)))"

definition dshieldEntry :: "string \<Rightarrow> entry_read" where
  "dshieldEntry line =
     (if line = [] \<or> has_prefix line ''#'' then Skipped
      else
        let f = split_char (CHR 0x09) line in
        if length f < 3 then Rejected
        else
          (case ParseAddr (trim_space (f ! 0)) of
             None \<Rightarrow> Rejected
           | Some start \<Rightarrow>
               if azone start \<noteq> [] then Rejected
               else
                 (case atoi (trim_space (f ! 2)) of
                    None \<Rightarrow> Rejected
                  | Some bits \<Rightarrow>
                      (case addr_prefix (Unmap start) bits of
                         None \<Rightarrow> Rejected
                       | Some p \<Rightarrow> if paddr p \<noteq> Unmap start then Rejected else Entry p))))"

fun ipverse_prefixes ::
  "(string \<times> json) list \<Rightarrow> string list \<times> string list \<Rightarrow> (string list \<times> string list) option" where
  "ipverse_prefixes [] doc = Some doc"
| "ipverse_prefixes ((k, v) # fs) (v4, v6) =
     (if fold_key k = fold_key ''ipv4'' then
        (case dec_lines (Some v) of None \<Rightarrow> None | Some xs \<Rightarrow> ipverse_prefixes fs (xs, v6))
      else if fold_key k = fold_key ''ipv6'' then
        (case dec_lines (Some v) of None \<Rightarrow> None | Some xs \<Rightarrow> ipverse_prefixes fs (v4, xs))
      else ipverse_prefixes fs (v4, v6))"

fun ipverse_document ::
  "(string \<times> json) list \<Rightarrow> string list \<times> string list \<Rightarrow> (string list \<times> string list) option" where
  "ipverse_document [] doc = Some doc"
| "ipverse_document ((k, v) # fs) doc =
     (if fold_key k = fold_key ''prefixes'' then
        (case v of
           JNull \<Rightarrow> ipverse_document fs doc
         | JObj ps \<Rightarrow>
             (case ipverse_prefixes ps doc of None \<Rightarrow> None | Some doc' \<Rightarrow> ipverse_document fs doc')
         | _ \<Rightarrow> None)
      else ipverse_document fs doc)"

definition ipverseLines :: "string \<Rightarrow> string" where
  "ipverseLines body =
     (let doc = (case json_text body of
                   Some (JObj fs) \<Rightarrow> ipverse_document fs ([], [])
                 | Some JNull \<Rightarrow> Some ([], [])
                 | _ \<Rightarrow> None) in
      case doc of None \<Rightarrow> body | Some (v4, v6) \<Rightarrow> join [CHR 0x0A] (v4 @ v6))"

section \<open>A body\<close>

definition feedSampleLines :: nat where "feedSampleLines = 5"
definition feedSampleBytes :: nat where "feedSampleBytes = 80"

text \<open>Control characters are single bytes in UTF-8, so the last step works byte by byte.\<close>

definition sampleLine :: "string \<Rightarrow> string" where
  "sampleLine s0 =
     (let s1 = ToValidUTF8 s0 ''?'';
          s2 = (if length s1 > feedSampleBytes then ToValidUTF8 (take feedSampleBytes s1) [] else s1) in
      map (\<lambda>c. if (of_char c :: nat) < 0x20 \<or> (of_char c :: nat) = 0x7f then CHR ''?'' else c) s2)"

definition IsSingleIP :: "pfx \<Rightarrow> bool" where
  "IsSingleIP p \<longleftrightarrow> IsValid (paddr p) \<and> pbits p = BitLen (paddr p)"

definition canonicalEntry :: "pfx \<Rightarrow> string" where
  "canonicalEntry p = (if IsSingleIP p then addr_string (paddr p) else prefix_string p)"

text \<open>The loop over the lines: prefixes seen, lines rejected, the first of them.\<close>

fun read_lines ::
  "(string \<Rightarrow> entry_read) \<Rightarrow> string list \<Rightarrow> pfx list \<times> nat \<times> string list \<Rightarrow> pfx list \<times> nat \<times> string list" where
  "read_lines entry [] acc = acc"
| "read_lines entry (raw # rest) (seen, rejected, sample) =
     (let line = trim_space raw in
      read_lines entry rest
        (case entry line of
           Skipped \<Rightarrow> (seen, rejected, sample)
         | Entry p \<Rightarrow> (if p \<in> set seen then seen else seen @ [p], rejected, sample)
         | Rejected \<Rightarrow>
             (seen, rejected + 1,
              if length sample < feedSampleLines then sample @ [sampleLine line] else sample)))"

definition entry_reader :: "string \<Rightarrow> (string \<Rightarrow> entry_read) option" where
  "entry_reader fmt =
     (if fmt = FeedFormatIPverse \<or> fmt = FeedFormatPlain then Some plainEntry
      else if fmt = FeedFormatSpamhaus then Some spamhausEntry
      else if fmt = FeedFormatDShield then Some dshieldEntry
      else None)"

definition format_body :: "string \<Rightarrow> string \<Rightarrow> string" where
  "format_body fmt body = (if fmt = FeedFormatIPverse then ipverseLines body else body)"

definition feed_lines :: "string \<Rightarrow> string \<Rightarrow> string list" where
  "feed_lines fmt body = map trim_space (body_lines (format_body fmt body))"

record parsed_feed =
  pfEntries :: "string list"
  pfRejected :: nat
  pfSample :: "string list"

definition parseFeed :: "string \<Rightarrow> string \<Rightarrow> string + parsed_feed" where
  "parseFeed fmt body =
     (case entry_reader fmt of
        None \<Rightarrow> Inl (''unknown feed format '' @ fmt)
      | Some entry \<Rightarrow>
          (case read_lines entry (body_lines (format_body fmt body)) ([], 0, []) of
             (seen, rejected, sample) \<Rightarrow>
               Inr \<lparr> pfEntries = map canonicalEntry (sort_key prefix_key seen),
                     pfRejected = rejected, pfSample = sample \<rparr>))"

section \<open>What a reader returns\<close>

text \<open>A prefix in its normal form: valid, no zone, masked, no IPv4 address written as IPv6.\<close>

definition normal_pfx :: "pfx \<Rightarrow> bool" where
  "normal_pfx p \<longleftrightarrow> pfx_plain p \<and> Masked p = p \<and> \<not> Is4In6 (paddr p)"

lemma Unmap_not_mapped: "\<not> Is4In6 (Unmap a)"
  by (auto simp: Unmap_def Is4In6_def Is6_def)

lemma cidr_mask_nth: "i < n \<Longrightarrow> cidr_mask ones n ! i =
    (if 8 * (i + 1) \<le> ones then 0xff else if 8 * i < ones then NOT (drop_bit (ones - 8 * i) 0xff) else 0)"
proof (induction ones n arbitrary: i rule: cidr_mask.induct)
  case (2 ones n)
  show ?case
  proof (cases i)
    case 0
    have "NOT (255 :: byte) = 0" by (simp add: word_eq_iff_unsigned)
    with 0 show ?thesis by (cases "ones = 0") simp_all
  next
    case (Suc j)
    have "NOT (255 :: byte) = 0" by (simp add: word_eq_iff_unsigned)
    show ?thesis
    proof (cases "8 \<le> ones")
      case True
      then show ?thesis using Suc 2 by (auto simp: algebra_simps)
    next
      case False
      then show ?thesis using Suc 2 by (auto simp: algebra_simps)
    qed
  qed
qed simp

lemma mask_byte_full: "i < n \<Longrightarrow> cidr_mask ones n ! i = 0xff \<Longrightarrow> 8 * (i + 1) \<le> ones"
proof (rule ccontr)
  assume i: "i < n" "cidr_mask ones n ! i = 0xff" and no: "\<not> 8 * (i + 1) \<le> ones"
  have "\<not> bit (NOT (drop_bit (ones - 8 * i) (0xff :: byte))) 0" if "8 * i < ones"
  proof -
    have "ones - 8 * i \<in> {1, 2, 3, 4, 5, 6, 7}" using that no by auto
    then show ?thesis by (auto simp: bit_not_iff)
  qed
  moreover have "bit (0xff :: byte) 0" by simp
  ultimately show False using i no by (simp add: cidr_mask_nth split: if_splits)
qed

lemma and_byte_full: "(a :: byte) AND b = 0xff \<Longrightarrow> b = 0xff"
proof (rule bit_word_eqI)
  fix n
  assume h: "a AND b = 0xff" and n: "n < LENGTH(8)"
  have "bit (mask 8 :: byte) n" unfolding bit_mask_iff using n by simp
  moreover have "(mask 8 :: byte) = 0xff" by (simp add: mask_eq_exp_minus_1)
  ultimately have "bit (0xff :: byte) n" by simp
  with h show "bit b n = bit (0xff :: byte) n" by (metis bit_and_iff)
qed

lemma take_masked:
  assumes "length b = n" "8 * k \<le> ones" "k \<le> n"
  shows "take k (and_bytes (cidr_mask ones n) b) = take k b"
proof (rule nth_equalityI)
  fix i
  assume "i < length (take k (and_bytes (cidr_mask ones n) b))"
  then have i: "i < k" by simp
  have ff: "(0xff :: byte) = - 1" by (simp add: word_eq_iff_unsigned)
  have "cidr_mask ones n ! i = - 1" using i assms by (simp add: cidr_mask_nth ff)
  then show "take k (and_bytes (cidr_mask ones n) b) ! i = take k b ! i"
    using i assms by (simp add: and_bytes_def)
qed (use assms in simp)

lemma Masked_not_mapped: "\<not> Is4In6 (paddr p) \<Longrightarrow> \<not> Is4In6 (paddr (Masked p))"
proof
  let ?b = "abytes (paddr p)" and ?m = "cidr_mask (pbits p) (length (abytes (paddr p)))"
  assume no: "\<not> Is4In6 (paddr p)" and h: "Is4In6 (paddr (Masked p))"
  from h have l: "length ?b = 16" and t: "take 12 (and_bytes ?m ?b) = v4_in_v6_prefix"
    by (auto simp: Masked_def Is4In6_def Is6_def)
  from t have "take 12 (and_bytes ?m ?b) ! 11 = v4_in_v6_prefix ! 11" by simp
  then have "?b ! 11 AND ?m ! 11 = 0xff" using l by (simp add: v4_in_v6_prefix_def and_bytes_def)
  then have "96 \<le> pbits p" using and_byte_full mask_byte_full [of 11 "length ?b" "pbits p"] l by fastforce
  then have "take 12 ?b = v4_in_v6_prefix" using take_masked [OF refl, of 12 "pbits p" ?b] l t by simp
  with no l show False by (simp add: Is4In6_def Is6_def)
qed

lemma Masked_idem [simp]: "Masked (Masked p) = Masked p"
  by (simp add: Masked_def)

lemma Masked_full: "IsValid a \<Longrightarrow> Masked (PrefixFrom a (BitLen a)) = PrefixFrom a (BitLen a)"
  using and_bytes_full [of "abytes a"] by (simp add: Masked_def PrefixFrom_def BitLen_def cidr_mask_full)

lemma addr_prefix_normal:
  assumes "addr_prefix a n = Some p" "\<not> Is4In6 a"
  shows "normal_pfx p"
proof -
  have p: "p = Masked (Prefix a (nat n))" "IsValid a" "nat n \<le> BitLen a"
    using assms(1) by (auto simp: addr_prefix_def split: if_splits)
  then have "pfx_valid (Prefix a (nat n))" by (simp add: pfx_valid_def)
  with p assms(2) Masked_plain Masked_not_mapped [of "Prefix a (nat n)"] show ?thesis by (simp add: normal_pfx_def)
qed

lemma host_normal:
  assumes "IsValid a"
  shows "normal_pfx (PrefixFrom (Unmap a) (BitLen (Unmap a)))"
proof -
  have "\<not> Is4In6 (Addr (abytes (Unmap a)) [])" using Unmap_not_mapped [of a] by (simp add: Is4In6_def Is6_def)
  with Unmap_valid [OF assms] Masked_full [OF Unmap_valid [OF assms]] show ?thesis
    by (auto simp: normal_pfx_def pfx_plain_def pfx_valid_def PrefixFrom_def IsValid_def Is4_def Is6_def BitLen_def)
qed

lemma parseEntry_normal: "parseEntry s = Some p \<Longrightarrow> normal_pfx p"
  using addr_prefix_normal Unmap_not_mapped host_normal ParseAddr_valid
  by (force simp: parseEntry_def Let_def split: option.splits if_splits)

lemma entry_reader_normal:
  assumes "entry_reader fmt = Some entry" "entry line = Entry p"
  shows "normal_pfx p"
  using assms parseEntry_normal addr_prefix_normal Unmap_not_mapped
  by (fastforce simp: entry_reader_def plainEntry_def spamhausEntry_def dshieldEntry_def read_of_def Let_def
      split: option.splits if_splits)

section \<open>The core reads what the web process sent\<close>

lemma addr_string_chars:
  assumes "IsValid a" "azone a = []"
  shows "list_all plain (addr_string a)" "CHR ''/'' \<notin> set (addr_string a)"
  using ParseAddr_plain [OF ParseAddr_string [OF assms] assms(2)]
    ParseAddr_addr_chars [OF ParseAddr_string [OF assms] assms(2)]
  by (auto simp: list_all_iff addr_char_def hex_val_def)

lemma ParseAddr_slash: "CHR ''/'' \<in> set s \<Longrightarrow> ParseAddr s = Some a \<Longrightarrow> azone a \<noteq> []"
  using ParseAddr_addr_chars [of s a] by (force simp: list_all_iff addr_char_def hex_val_def Let_def)

lemma canonicalEntry_plain: "pfx_plain p \<Longrightarrow> list_all plain (canonicalEntry p)"
  using addr_string_chars(1) [of "paddr p"] digits_of_digits [of "pbits p"] digit_plain
  by (auto simp: canonicalEntry_def prefix_string_def pfx_plain_def pfx_valid_def list_all_iff)

lemma ParseAddr_prefix_string:
  assumes "pfx_plain p"
  shows "ParseAddr (prefix_string p) = None"
proof (rule ccontr)
  assume "ParseAddr (prefix_string p) \<noteq> None"
  then obtain a where a: "ParseAddr (prefix_string p) = Some a" by blast
  have s: "prefix_string p = addr_string (paddr p) @ ''/'' @ digits_of (pbits p)"
    using assms by (simp add: prefix_string_def pfx_plain_def pfx_valid_def)
  have "azone a \<noteq> []" using ParseAddr_slash [OF _ a] by (simp add: s)
  moreover have "azone a = []"
  proof -
    have "list_all plain (prefix_string p)"
      using assms addr_string_chars(1) [of "paddr p"] digits_of_digits [of "pbits p"] digit_plain
      by (auto simp: s pfx_plain_def pfx_valid_def list_all_iff)
    then have "CHR ''%'' \<notin> set (prefix_string p)" by (auto simp: list_all_iff plain_def)
    with a show ?thesis
      by (auto simp: ParseAddr_def parse_ipv6_def cut_char_no Let_def split: option.splits if_splits)
  qed
  ultimately show False by simp
qed

lemma canonical_read_back:
  assumes "normal_pfx p"
  shows "feedPrefix (trim_space (canonicalEntry p)) = Some p"
proof -
  have plain: "pfx_plain p" and masked: "Masked p = p" and v4: "\<not> Is4In6 (paddr p)"
    using assms by (simp_all add: normal_pfx_def)
  have v: "IsValid (paddr p)" "azone (paddr p) = []" "pbits p \<le> BitLen (paddr p)"
    using plain by (simp_all add: pfx_plain_def pfx_valid_def)
  have "feedPrefix (canonicalEntry p) = Some p"
  proof (cases "IsSingleIP p")
    case True
    then have "p = Prefix (paddr p) (BitLen (paddr p))" by (cases p) (simp add: IsSingleIP_def)
    then show ?thesis
      using True v v4 ParseAddr_string [OF v(1,2)] by (simp add: canonicalEntry_def feedPrefix_def Unmap_def)
  next
    case False
    then show ?thesis
      using ParseAddr_prefix_string [OF plain] ParsePrefix_string [OF v] v4 masked
      by (simp add: canonicalEntry_def feedPrefix_def)
  qed
  with trim_space_plain [OF canonicalEntry_plain [OF plain]] show ?thesis by simp
qed

text \<open>The core's loop on prefixes it reads back one by one: no repeats, so nothing is merged.\<close>

lemma check_sent_reads:
  "list_all normal_pfx ps \<Longrightarrow>
    check_entries v4 v6 i (map canonicalEntry ps) kept dropped \<noteq> Inl (NotAPrefix j)"
  by (induction ps arbitrary: i kept dropped) (auto simp: canonical_read_back)

lemma check_sent:
  "check_entries v4 v6 i (map canonicalEntry ps) kept dropped = Inr (ks, d) \<Longrightarrow>
    list_all normal_pfx ps \<Longrightarrow> distinct (kept @ ps) \<Longrightarrow>
    ks = kept @ filter isGlobal ps \<and> d + length (filter isGlobal ps) = dropped + length ps"
proof (induction ps arbitrary: i kept dropped)
  case (Cons p ps)
  have "\<not> entirelyNonGlobal p" if "isGlobal p"
    using that Cons.prems isGlobal_not_entirely by (simp add: normal_pfx_def)
  then show ?case
    using Cons.prems Cons.IH [of _ kept] Cons.IH [of _ "kept @ [p]"] canonical_read_back [of p]
    by (fastforce split: if_splits)
qed simp

lemma validate_sent:
  assumes "list_all normal_pfx ps" "distinct ps" "sorted (map prefix_key ps)"
  shows "validateFeedEntries fid (map canonicalEntry ps) \<noteq> Inl (NotAPrefix j)"
    "validateFeedEntries fid (map canonicalEntry ps) = Inr (kept, d) \<Longrightarrow>
       kept = filter isGlobal ps \<and> d + length kept = length ps"
proof -
  show "validateFeedEntries fid (map canonicalEntry ps) \<noteq> Inl (NotAPrefix j)"
    using check_sent_reads [of ps] assms by (auto simp: validateFeedEntries_def split: sum.splits)
  assume "validateFeedEntries fid (map canonicalEntry ps) = Inr (kept, d)"
  then obtain ks where
    "check_entries (fst (FeedMaxBits fid)) (snd (FeedMaxBits fid)) 0 (map canonicalEntry ps) [] 0 = Inr (ks, d)"
    and k: "kept = sort_key prefix_key ks"
    by (auto simp: validateFeedEntries_def split: if_splits sum.splits)
  from check_sent [OF this(1)] assms have "ks = filter isGlobal ps" "d + length ks = length ps" by simp_all
  moreover have "sorted (map prefix_key (filter isGlobal ps))" using assms(3) by (rule sorted_filter)
  ultimately show "kept = filter isGlobal ps \<and> d + length kept = length ps"
    by (simp add: k sort_key_id_if_sorted)
qed

lemma read_lines_exact:
  assumes "read_lines entry ls (seen, rejected, sample) = (seen', rejected', sample')" "distinct seen"
  shows "distinct seen'" "set seen' = set seen \<union> {p. \<exists>l\<in>set ls. entry (trim_space l) = Entry p}"
    "rejected' = rejected + length (filter (\<lambda>l. entry (trim_space l) = Rejected) ls)"
  using assms
  by (induction ls arbitrary: seen rejected sample)
    (fastforce simp: Let_def split: entry_read.splits if_splits)+

section \<open>Properties\<close>

text \<open>C21.  The two processes agree on a list.  Whatever body was downloaded, in any of the four
  formats, what is sent names each prefix the body has, once and in order; the core reads every
  entry back as the prefix it was printed from, so it never refuses the list for an entry that
  is no prefix, and when it takes the list it keeps exactly the prefixes in globally routed space
  and reports the number of the others.  A line is counted as rejected exactly when it is neither
  an entry nor skipped.\<close>

theorem core_reads_what_web_sends:
  assumes "parseFeed fmt body = Inr r" "entry_reader fmt = Some entry"
  shows "(\<exists>ps. pfEntries r = map canonicalEntry ps \<and>
      distinct ps \<and> sorted (map prefix_key ps) \<and> set ps = {p. Entry p \<in> entry ` set (feed_lines fmt body)} \<and>
      (\<forall>i. validateFeedEntries fid (pfEntries r) \<noteq> Inl (NotAPrefix i)) \<and>
      (\<forall>kept d. validateFeedEntries fid (pfEntries r) = Inr (kept, d) \<longrightarrow>
         kept = filter isGlobal ps \<and> d + length kept = length ps)) \<and>
    pfRejected r = length (filter (\<lambda>l. entry l = Rejected) (feed_lines fmt body))"
proof -
  obtain seen rejected sample where
    rd: "read_lines entry (body_lines (format_body fmt body)) ([], 0, []) = (seen, rejected, sample)"
    by (metis prod_cases3)
  note x = read_lines_exact [OF rd distinct.simps(1) [THEN iffD2, OF TrueI]]
  let ?ps = "sort_key prefix_key seen"
  have r: "pfEntries r = map canonicalEntry ?ps" "pfRejected r = rejected"
    using assms(1) rd by (auto simp: parseFeed_def assms(2))
  have set: "set ?ps = {p. Entry p \<in> entry ` set (feed_lines fmt body)}"
    using x(2) by (force simp: feed_lines_def)
  have "normal_pfx p" if "p \<in> set ?ps" for p
    using that entry_reader_normal [OF assms(2)] unfolding set by (metis (mono_tags, lifting) imageE mem_Collect_eq)
  then have n: "list_all normal_pfx ?ps" by (simp add: list_all_iff)
  have d: "distinct ?ps" "sorted (map prefix_key ?ps)" using x(1) by simp_all
  have "pfRejected r = length (filter (\<lambda>l. entry l = Rejected) (feed_lines fmt body))"
    using x(3) by (simp add: r(2) feed_lines_def filter_map o_def)
  moreover note validate_sent [OF n d, of fid, folded r(1)]
  ultimately show ?thesis using r(1) set d by (intro conjI exI [of _ ?ps]) simp_all
qed

text \<open>A body with a comment, a host entry, a private range, a prefix with host bits and a line of
  prose.\<close>

definition sample_body :: string where
  "sample_body =
     join [CHR 0x0A] [''# a list'', ''10.0.0.0/8'', ''1.1.1.1'', '' 8.8.8.8/8 ; eight'', ''not a list'']"

definition sample_pfxs :: "pfx list" where
  "sample_pfxs = [v4_pfx [1, 1, 1, 1] 32, v4_pfx [8, 0, 0, 0] 8, v4_pfx [10, 0, 0, 0] 8]"

definition sample_sent :: "string list" where
  "sample_sent = [''1.1.1.1'', ''8.0.0.0/8'', ''10.0.0.0/8'']"

lemma sample_lines:
  "feed_lines FeedFormatPlain sample_body =
     [''# a list'', ''10.0.0.0/8'', ''1.1.1.1'', ''8.8.8.8/8 ; eight'', ''not a list'']"
  by code_simp

lemma sample_reads:
  "plainEntry ''# a list'' = Skipped"
  "plainEntry ''10.0.0.0/8'' = Entry (v4_pfx [10, 0, 0, 0] 8)"
  "plainEntry ''1.1.1.1'' = Entry (v4_pfx [1, 1, 1, 1] 32)"
  "plainEntry ''8.8.8.8/8 ; eight'' = Entry (v4_pfx [8, 0, 0, 0] 8)"
  "plainEntry ''not a list'' = Rejected" "sampleLine ''not a list'' = ''not a list''"
  by code_simp+

lemma read_lines_trimmed:
  "read_lines entry ls acc = read_lines entry (map trim_space ls) acc"
  if "map trim_space (map trim_space ls) = map trim_space ls"
  using that by (induction entry ls acc rule: read_lines.induct) simp_all

lemma sample_sorted:
  "sort_key prefix_key [v4_pfx [10, 0, 0, 0] 8, v4_pfx [1, 1, 1, 1] 32, v4_pfx [8, 0, 0, 0] 8] = sample_pfxs"
  by (simp add: sample_pfxs_def prefix_key_def addr_rank_def v4_pfx_def be_nat_def Is4_def)

lemma sample_printed: "map canonicalEntry sample_pfxs = sample_sent"
  by code_simp

lemma sample_parsed:
  "parseFeed FeedFormatPlain sample_body =
     Inr \<lparr> pfEntries = sample_sent,
           pfRejected = 1, pfSample = [''not a list''] \<rparr>"
proof -
  have r: "entry_reader FeedFormatPlain = Some plainEntry" by (simp add: entry_reader_def)
  have t: "map trim_space [''# a list'', ''10.0.0.0/8'', ''1.1.1.1'', ''8.8.8.8/8 ; eight'', ''not a list''] =
     [''# a list'', ''10.0.0.0/8'', ''1.1.1.1'', ''8.8.8.8/8 ; eight'', ''not a list'']"
    by code_simp
  have "read_lines plainEntry (body_lines (format_body FeedFormatPlain sample_body)) ([], 0, []) =
    ([v4_pfx [10, 0, 0, 0] 8, v4_pfx [1, 1, 1, 1] 32, v4_pfx [8, 0, 0, 0] 8], 1, [''not a list''])"
    unfolding read_lines_trimmed [of "body_lines (format_body FeedFormatPlain sample_body)", folded feed_lines_def, unfolded sample_lines, OF t]
    using t by (simp add: sample_reads v4_pfx_def feedSampleLines_def)
  then show ?thesis by (simp only: parseFeed_def r option.case prod.case sample_sorted sample_printed)
qed

theorem core_reads_what_web_sends_witness:
  "parseFeed FeedFormatPlain sample_body =
     Inr \<lparr> pfEntries = sample_sent,
           pfRejected = 1, pfSample = [''not a list''] \<rparr> \<and>
   (\<exists>ps. sample_sent = map canonicalEntry ps \<and> distinct ps \<and>
      set ps = {p. Entry p \<in> plainEntry ` set (feed_lines FeedFormatPlain sample_body)}) \<and>
   validateFeedEntries ''x'' sample_sent \<noteq> Inl (NotAPrefix 1)"
proof -
  have "entry_reader FeedFormatPlain = Some plainEntry" by (simp add: entry_reader_def)
  note h = core_reads_what_web_sends [OF sample_parsed this, of "''x''", unfolded parsed_feed.select_convs]
  show ?thesis using sample_parsed h by blast
qed

end
