(* ===== verification/WebClient.thy ===== *)
theory WebClient
  imports FeedParse Complex_Main
begin

text \<open>
  Who a request to the web process is from (\<open>internal/web/clientaddr.go\<close>) and how often that client
  may try to sign in (\<open>internal/web/middleware.go\<close>).  A request is its peer address, which the kernel
  supplies, and its headers, which whoever sent it wrote.  The token bucket
  (\<open>golang.org/x/time/rate\<close>) is a parameter; \<open>token_bucket\<close> states what its documentation promises.
\<close>

section \<open>Requests\<close>

record http_request =
  hrRemoteAddr :: string
  hrHeader :: "(string \<times> string list) list"

text \<open>\<open>net.SplitHostPort\<close>, without the port.\<close>

definition split_host :: "string \<Rightarrow> string option" where
  "split_host hp =
     (let (tail_rev, before_rev, found) = cut_char (CHR '':'') (rev hp); i = length before_rev in
      if \<not> found then None
      else if hd hp = CHR ''['' then
        (let (inside, after, closed) = cut_char (CHR '']'') hp; e = length inside in
         if \<not> closed then None
         else if e + 1 \<noteq> i then None
         else if CHR ''['' \<in> set (tl hp) then None
         else if CHR '']'' \<in> set (drop (e + 1) hp) then None
         else Some (drop 1 inside))
      else
        (let host = take i hp in
         if CHR '':'' \<in> set host then None
         else if CHR ''['' \<in> set hp \<or> CHR '']'' \<in> set hp then None
         else Some host))"

definition peerIP :: "http_request \<Rightarrow> string" where
  "peerIP r = (case split_host (hrRemoteAddr r) of None \<Rightarrow> hrRemoteAddr r | Some ip \<Rightarrow> ip)"

text \<open>The keys as \<open>http.CanonicalHeaderKey\<close> makes them.\<close>

definition proxyHeaders :: "string list" where
  "proxyHeaders = [''X-Forwarded-For'', ''X-Real-Ip'', ''True-Client-Ip'', ''Forwarded'']"

definition proxiedRequest :: "http_request \<Rightarrow> bool" where
  "proxiedRequest r \<longleftrightarrow> list_ex (\<lambda>h. map_of (hrHeader r) h \<noteq> None) proxyHeaders"

definition hops :: "http_request \<Rightarrow> string list" where
  "hops r =
     concat (map (\<lambda>v. map trim_space (split_char (CHR '','') v))
       (case map_of (hrHeader r) ''X-Forwarded-For'' of None \<Rightarrow> [] | Some vs \<Rightarrow> vs))"

text \<open>The loop from the right, on the reversed hops.\<close>

fun walk_hops :: "string list \<Rightarrow> string \<Rightarrow> string list \<Rightarrow> string" where
  "walk_hops trusted peer [] = peer"
| "walk_hops trusted peer (h # hs) =
     (case ParseAddr h of
        None \<Rightarrow> peer
      | Some addr \<Rightarrow>
          (let a = Unmap addr in
           if \<not> InAnyEntry a trusted then addr_string a else walk_hops trusted peer hs))"

definition rightmostUntrusted :: "http_request \<Rightarrow> string list \<Rightarrow> string \<Rightarrow> string" where
  "rightmostUntrusted r trusted peer = walk_hops trusted peer (rev (hops r))"

definition trusted_peer :: "http_request \<Rightarrow> string list \<Rightarrow> bool" where
  "trusted_peer r trusted =
     (case ParseAddr (peerIP r) of None \<Rightarrow> False | Some addr \<Rightarrow> InAnyEntry (Unmap addr) trusted)"

definition resolveClient :: "http_request \<Rightarrow> string list \<Rightarrow> string \<times> bool" where
  "resolveClient r trusted =
     (let peer = peerIP r in
      if \<not> trusted_peer r trusted then (peer, proxiedRequest r)
      else let client = rightmostUntrusted r trusted peer in (client, client = peer))"

text \<open>A hop the walk does not go past.\<close>

definition ends_walk :: "string list \<Rightarrow> string \<Rightarrow> bool" where
  "ends_walk trusted h =
     (case ParseAddr h of None \<Rightarrow> True | Some addr \<Rightarrow> \<not> InAnyEntry (Unmap addr) trusted)"

lemma walk_hops_prefix:
  "list_ex (ends_walk trusted) hs \<Longrightarrow> walk_hops trusted peer (hs @ xs) = walk_hops trusted peer hs"
  by (induction hs) (auto simp: ends_walk_def Let_def split: option.splits)

lemma walk_hops_named:
  "walk_hops trusted peer hs \<noteq> peer \<Longrightarrow>
    \<exists>post h pre a. hs = post @ h # pre \<and> ParseAddr h = Some a \<and> walk_hops trusted peer hs = addr_string (Unmap a) \<and>
      \<not> InAnyEntry (Unmap a) trusted \<and> list_all (\<lambda>x. \<not> ends_walk trusted x) post"
proof (induction hs)
  case (Cons h hs)
  then obtain a where a: "ParseAddr h = Some a" by (cases "ParseAddr h") auto
  show ?case
  proof (cases "InAnyEntry (Unmap a) trusted")
    case True
    with Cons a obtain post h' pre b where "hs = post @ h' # pre" "ParseAddr h' = Some b"
      "walk_hops trusted peer hs = addr_string (Unmap b)" "\<not> InAnyEntry (Unmap b) trusted"
      "list_all (\<lambda>x. \<not> ends_walk trusted x) post"
      by auto
    with a True show ?thesis
      by (intro exI [of _ "h # post"] exI [of _ h'] exI [of _ pre] exI [of _ b]) (simp add: ends_walk_def)
  next
    case False
    with a show ?thesis by (intro exI [of _ "[]"] exI [of _ h] exI [of _ hs] exI [of _ a]) simp
  qed
qed simp

section \<open>The login budget\<close>

definition loginBudget :: nat where "loginBudget = 5"
definition loginBudgetRefill :: int where "loginBudgetRefill = 10 * 60 * 1000000000"
definition loginMaxBuckets :: nat where "loginMaxBuckets = 65536"
definition bucketIdle :: int where "bucketIdle = 15 * 60 * 1000000000"

text \<open>\<open>rate.NewLimiter\<close>, \<open>AllowN(now, 1)\<close> and \<open>TokensAt\<close>.\<close>

record 'l limiter =
  lmNew :: "int \<Rightarrow> nat \<Rightarrow> 'l"
  lmAllow :: "'l \<Rightarrow> int \<Rightarrow> bool \<times> 'l"
  lmTokens :: "'l \<Rightarrow> int \<Rightarrow> rat"

record 'l rate_bucket =
  rbLim :: 'l
  rbLastSeen :: int

type_synonym 'l buckets = "(string \<times> 'l rate_bucket) list"

definition limiterKey :: "string \<Rightarrow> string" where
  "limiterKey ip =
     (case ParseAddr ip of
        None \<Rightarrow> ip
      | Some a0 \<Rightarrow>
          (let a = Unmap a0 in
           if Is4 a then addr_string a
           else (case addr_prefix (WithZone a []) 64 of
                   None \<Rightarrow> ''invalid Prefix'' | Some p \<Rightarrow> prefix_string p)))"

definition sweepLoginBuckets :: "'l limiter \<Rightarrow> int \<Rightarrow> 'l buckets \<Rightarrow> 'l buckets" where
  "sweepLoginBuckets lm now bs =
     filter (\<lambda>(k, b). \<not> (now - rbLastSeen b > bucketIdle \<or> lmTokens lm (rbLim b) now \<ge> of_nat loginBudget)) bs"

definition put_bucket :: "string \<Rightarrow> 'l rate_bucket \<Rightarrow> 'l buckets \<Rightarrow> 'l buckets" where
  "put_bucket k b bs = (k, b) # filter (\<lambda>(x, _). x \<noteq> k) bs"

text \<open>The critical section of \<open>LoginRateLimit\<close>: whether the attempt is let through.\<close>

definition LoginRateLimit :: "'l limiter \<Rightarrow> int \<Rightarrow> string \<Rightarrow> 'l buckets \<Rightarrow> bool \<times> 'l buckets" where
  "LoginRateLimit lm now ip bs =
     (let key = limiterKey ip in
      case map_of bs key of
        None \<Rightarrow>
          if length bs \<ge> loginMaxBuckets then (False, bs)
          else (case lmAllow lm (lmNew lm loginBudgetRefill loginBudget) now of
                  (ok, l) \<Rightarrow> (ok, put_bucket key \<lparr> rbLim = l, rbLastSeen = now \<rparr> bs))
      | Some b \<Rightarrow>
          (case lmAllow lm (rbLim b) now of
             (ok, l) \<Rightarrow> (ok, put_bucket key \<lparr> rbLim = l, rbLastSeen = now \<rparr> bs)))"

text \<open>
  What the code relies on: a new bucket is full, an attempt passes exactly when a whole token is
  there and takes it, tokens come back no faster than one per period and never exceed the burst.
\<close>

definition token_bucket :: "'l limiter \<Rightarrow> int \<Rightarrow> nat \<Rightarrow> bool" where
  "token_bucket lm period burst \<longleftrightarrow>
     (\<forall>t. lmTokens lm (lmNew lm period burst) t = of_nat burst) \<and>
     (\<forall>l t. lmTokens lm l t \<le> of_nat burst) \<and>
     (\<forall>l t. fst (lmAllow lm l t) \<longleftrightarrow> 1 \<le> lmTokens lm l t) \<and>
     (\<forall>l t. lmTokens lm (snd (lmAllow lm l t)) t =
        lmTokens lm l t - (if fst (lmAllow lm l t) then 1 else 0)) \<and>
     (\<forall>l t t'. t \<le> t' \<longrightarrow> lmTokens lm l t' \<le> lmTokens lm l t + of_int (t' - t) / of_int period)"

datatype limiter_event = Attempt string | Sweep

text \<open>A process from its start: what happened when, and the attempts let through with their keys.\<close>

fun limiter_run ::
  "'l limiter \<Rightarrow> (int \<times> limiter_event) list \<Rightarrow> 'l buckets \<Rightarrow> (int \<times> string) list \<Rightarrow>
    'l buckets \<times> (int \<times> string) list" where
  "limiter_run lm [] bs passed = (bs, passed)"
| "limiter_run lm ((now, Sweep) # evs) bs passed = limiter_run lm evs (sweepLoginBuckets lm now bs) passed"
| "limiter_run lm ((now, Attempt ip) # evs) bs passed =
     (case LoginRateLimit lm now ip bs of
        (ok, bs') \<Rightarrow> limiter_run lm evs bs' (if ok then (now, limiterKey ip) # passed else passed))"

definition passed_in :: "string \<Rightarrow> int \<Rightarrow> int \<Rightarrow> (int \<times> string) list \<Rightarrow> nat" where
  "passed_in k t0 t1 passed = length (filter (\<lambda>(t, x). x = k \<and> t0 \<le> t \<and> t < t1) passed)"

section \<open>No window holds more than the budget\<close>

definition passed_since :: "string \<Rightarrow> int \<Rightarrow> (int \<times> string) list \<Rightarrow> nat" where
  "passed_since k t0 passed = length (filter (\<lambda>(t, x). x = k \<and> t0 \<le> t) passed)"

definition tokens_for :: "'l limiter \<Rightarrow> 'l buckets \<Rightarrow> string \<Rightarrow> int \<Rightarrow> rat" where
  "tokens_for lm bs k t =
     (case map_of bs k of None \<Rightarrow> of_nat loginBudget | Some b \<Rightarrow> lmTokens lm (rbLim b) t)"

definition budget_inv :: "'l limiter \<Rightarrow> string \<Rightarrow> int \<Rightarrow> 'l buckets \<Rightarrow> (int \<times> string) list \<Rightarrow> bool" where
  "budget_inv lm k now bs passed \<longleftrightarrow>
     (\<forall>(t, x)\<in>set passed. t \<le> now) \<and>
     (\<forall>b. map_of bs k = Some b \<longrightarrow> (\<forall>(t, x)\<in>set passed. x = k \<longrightarrow> t \<le> rbLastSeen b)) \<and>
     (\<forall>t0\<le>now. now - t0 < loginBudgetRefill \<longrightarrow>
        of_nat (passed_since k t0 passed) + tokens_for lm bs k now \<le>
          of_nat loginBudget + of_int (now - t0) / of_int loginBudgetRefill) \<and>
     (\<forall>t0. passed_in k t0 (t0 + loginBudgetRefill) passed \<le> loginBudget) \<and>
     length bs \<le> loginMaxBuckets \<and> distinct (map fst bs)"

lemma refill_pos [simp]: "(0 :: int) < loginBudgetRefill"
  by (simp add: loginBudgetRefill_def)

lemma put_bucket_lookup [simp]: "map_of (put_bucket k b bs) x = (if x = k then Some b else map_of bs x)"
  by (simp add: put_bucket_def ran_filter)

lemma put_bucket_size:
  assumes "distinct (map fst bs)"
  shows "distinct (map fst (put_bucket k b bs))"
    "length (put_bucket k b bs) = (if map_of bs k = None then length bs + 1 else length bs)"
proof -
  show "distinct (map fst (put_bucket k b bs))"
    using assms by (auto simp: put_bucket_def distinct_map_filter)
  show "length (put_bucket k b bs) = (if map_of bs k = None then length bs + 1 else length bs)"
    using assms
  proof (induction bs)
    case (Cons a bs)
    then show ?case
      by (cases a) (force simp: put_bucket_def map_of_eq_None_iff filter_id_conv split: if_splits)
  qed (simp add: put_bucket_def)
qed

lemma sweep_lookup:
  "distinct (map fst bs) \<Longrightarrow> map_of (filter (\<lambda>(k, b). P b) bs) k =
    (case map_of bs k of None \<Rightarrow> None | Some b \<Rightarrow> if P b then Some b else None)"
  by (induction bs) (auto simp: map_of_eq_None_iff split: option.splits)

lemma passed_since_later: "\<forall>(t, x)\<in>set passed. t < t0 \<Longrightarrow> passed_since k t0 passed = 0"
  by (auto simp: passed_since_def filter_empty_conv)

lemma passed_in_since: "passed_in k t0 t1 passed \<le> passed_since k t0 passed"
  unfolding passed_in_def passed_since_def by (induction passed) auto

lemma refilled_nonneg: "t \<le> t' \<Longrightarrow> (0 :: rat) \<le> of_int (t' - t) / of_int loginBudgetRefill"
  by (rule divide_nonneg_pos) (simp_all del: of_int_diff)

lemma tokens_bounds:
  assumes "token_bucket lm loginBudgetRefill loginBudget"
  shows "tokens_for lm bs k t \<le> of_nat loginBudget"
    "t \<le> t' \<Longrightarrow> tokens_for lm bs k t' \<le> tokens_for lm bs k t + of_int (t' - t) / of_int loginBudgetRefill"
  using assms refilled_nonneg [of t t'] by (auto simp: tokens_for_def token_bucket_def split: option.split)

lemma budget_later:
  assumes "token_bucket lm loginBudgetRefill loginBudget" "budget_inv lm k now bs passed" "now \<le> later"
  shows "budget_inv lm k later bs passed"
proof -
  have "of_nat (passed_since k t0 passed) + tokens_for lm bs k later \<le>
      of_nat loginBudget + of_int (later - t0) / of_int loginBudgetRefill"
    if "t0 \<le> later" "later - t0 < loginBudgetRefill" for t0
  proof (cases "t0 \<le> now")
    case True
    with assms that have "of_nat (passed_since k t0 passed) + tokens_for lm bs k now \<le>
        of_nat loginBudget + of_int (now - t0) / (of_int loginBudgetRefill :: rat)"
      by (simp add: budget_inv_def)
    moreover have "of_int (later - t0) / (of_int loginBudgetRefill :: rat) =
        of_int (now - t0) / of_int loginBudgetRefill + of_int (later - now) / of_int loginBudgetRefill"
      by (simp flip: add_divide_distrib)
    ultimately show ?thesis using tokens_bounds(2) [OF assms(1,3), of bs k] by linarith
  next
    case False
    then have "passed_since k t0 passed = 0"
      using assms(2) by (intro passed_since_later) (auto simp: budget_inv_def)
    then show ?thesis using tokens_bounds(1) [OF assms(1), of bs k later] refilled_nonneg [OF that(1)] by linarith
  qed
  with assms show ?thesis by (fastforce simp: budget_inv_def)
qed

lemma budget_sweep:
  assumes "token_bucket lm loginBudgetRefill loginBudget" "budget_inv lm k now bs passed"
  shows "budget_inv lm k now (sweepLoginBuckets lm now bs) passed"
proof -
  let ?stays = "\<lambda>b. \<not> (now - rbLastSeen b > bucketIdle \<or> lmTokens lm (rbLim b) now \<ge> of_nat loginBudget)"
  let ?bs = "sweepLoginBuckets lm now bs"
  have d: "distinct (map fst bs)" and l: "length bs \<le> loginMaxBuckets" using assms(2) by (simp_all add: budget_inv_def)
  have look: "map_of ?bs k = (case map_of bs k of None \<Rightarrow> None | Some b \<Rightarrow> if ?stays b then Some b else None)"
    unfolding sweepLoginBuckets_def by (rule sweep_lookup [OF d])
  have "of_nat (passed_since k t0 passed) + tokens_for lm ?bs k now \<le>
      of_nat loginBudget + of_int (now - t0) / of_int loginBudgetRefill"
    if "t0 \<le> now" "now - t0 < loginBudgetRefill" for t0
  proof (cases "\<exists>b. map_of bs k = Some b \<and> now - rbLastSeen b > bucketIdle")
    case True
    then obtain b where b: "map_of bs k = Some b" "now - rbLastSeen b > bucketIdle" by blast
    have "loginBudgetRefill < bucketIdle" by (simp add: loginBudgetRefill_def bucketIdle_def)
    with that b(2) have "rbLastSeen b < t0" by linarith
    with assms(2) b(1) have "\<forall>(t, x)\<in>set passed. x = k \<longrightarrow> t < t0" by (fastforce simp: budget_inv_def)
    then have "passed_since k t0 passed = 0" by (force simp: passed_since_def filter_empty_conv)
    then show ?thesis using tokens_bounds(1) [OF assms(1), of ?bs k now] refilled_nonneg [OF that(1)] by simp
  next
    case False
    have "tokens_for lm ?bs k now = tokens_for lm bs k now"
      using False tokens_bounds(1) [OF assms(1), of bs k now]
      by (auto simp: tokens_for_def look split: option.splits)
    then show ?thesis using assms(2) that by (simp add: budget_inv_def)
  qed
  moreover have "length ?bs \<le> loginMaxBuckets" "distinct (map fst ?bs)"
    using l d le_trans [OF length_filter_le] by (auto simp: sweepLoginBuckets_def distinct_map_filter)
  ultimately show ?thesis
    using assms(2) by (auto simp: budget_inv_def look split: option.splits if_splits)
qed

lemma budget_other:
  assumes "budget_inv lm k now bs passed" "key \<noteq> k" "length (put_bucket key b bs) \<le> loginMaxBuckets"
  shows "budget_inv lm k now (put_bucket key b bs) (if ok then (now, key) # passed else passed)"
  using assms put_bucket_size(1) [of bs key b]
  by (auto simp: budget_inv_def tokens_for_def passed_since_def passed_in_def)

text \<open>One attempt of the client itself, on a bucket that holds as many tokens as the invariant says.\<close>

lemma budget_charge:
  assumes tb: "token_bucket lm loginBudgetRefill loginBudget" and inv: "budget_inv lm k now bs passed"
    and al: "lmAllow lm l now = (ok, l')" and tk: "lmTokens lm l now = tokens_for lm bs k now"
    and room: "length (put_bucket k \<lparr> rbLim = l', rbLastSeen = now \<rparr> bs) \<le> loginMaxBuckets"
  shows "budget_inv lm k now (put_bucket k \<lparr> rbLim = l', rbLastSeen = now \<rparr> bs)
    (if ok then (now, k) # passed else passed)"
proof -
  let ?T = "tokens_for lm bs k now" and ?bs = "put_bucket k \<lparr> rbLim = l', rbLastSeen = now \<rparr> bs"
  let ?p = "if ok then (now, k) # passed else passed" and ?n = "if ok then 1 else 0 :: nat"
  have law: "fst (lmAllow lm l now) \<longleftrightarrow> 1 \<le> lmTokens lm l now"
    "lmTokens lm (snd (lmAllow lm l now)) now = lmTokens lm l now - (if fst (lmAllow lm l now) then 1 else 0)"
    using tb by (simp_all add: token_bucket_def)
  then have ok: "ok \<longleftrightarrow> 1 \<le> ?T" by (simp add: al tk)
  have left: "tokens_for lm ?bs k now = ?T - of_nat ?n"
    using law(2) unfolding al tk by (simp add: tokens_for_def [of lm ?bs])
  have since: "passed_since k t0 ?p = passed_since k t0 passed + ?n" if "t0 \<le> now" for t0
    using that by (simp add: passed_since_def)
  have budget: "of_nat (passed_since k t0 ?p) + tokens_for lm ?bs k now \<le>
      of_nat loginBudget + of_int (now - t0) / of_int loginBudgetRefill"
    if "t0 \<le> now" "now - t0 < loginBudgetRefill" for t0
    using inv that by (simp add: budget_inv_def since left)
  have window: "passed_in k t0 (t0 + loginBudgetRefill) ?p \<le> loginBudget" for t0
  proof (cases "ok \<and> t0 \<le> now \<and> now < t0 + loginBudgetRefill")
    case True
    then have "of_int (now - t0) / (of_int loginBudgetRefill :: rat) < 1"
      by (simp add: divide_less_eq del: of_int_diff)
    moreover have "(0 :: rat) \<le> tokens_for lm ?bs k now" using True ok left by simp
    moreover note budget [of t0]
    ultimately have "(of_nat (passed_since k t0 ?p) :: rat) < of_nat loginBudget + 1"
      using True by linarith
    then have "(of_nat (passed_since k t0 ?p) :: rat) < of_nat (loginBudget + 1)" by simp
    then have "passed_since k t0 ?p < loginBudget + 1" by (simp only: of_nat_less_iff)
    then show ?thesis using passed_in_since [of k t0 "t0 + loginBudgetRefill" ?p] by linarith
  next
    case False
    then have "passed_in k t0 (t0 + loginBudgetRefill) ?p = passed_in k t0 (t0 + loginBudgetRefill) passed"
      by (auto simp: passed_in_def)
    then show ?thesis using inv by (simp add: budget_inv_def)
  qed
  have "distinct (map fst bs)" using inv by (simp add: budget_inv_def)
  then have "distinct (map fst ?bs)" by (rule put_bucket_size)
  with budget window room inv show ?thesis by (auto simp: budget_inv_def)
qed

lemma budget_attempt:
  assumes tb: "token_bucket lm loginBudgetRefill loginBudget" and inv: "budget_inv lm k now bs passed"
    and r: "LoginRateLimit lm now ip bs = (ok, bs')"
  shows "budget_inv lm k now bs' (if ok then (now, limiterKey ip) # passed else passed)"
proof (cases "map_of bs (limiterKey ip) = None \<and> length bs \<ge> loginMaxBuckets")
  case True
  then show ?thesis using inv r by (simp add: LoginRateLimit_def)
next
  case False
  define l where "l = (case map_of bs (limiterKey ip) of
      None \<Rightarrow> lmNew lm loginBudgetRefill loginBudget | Some b \<Rightarrow> rbLim b)"
  obtain l' where al: "lmAllow lm l now = (ok, l')"
    and bs': "bs' = put_bucket (limiterKey ip) \<lparr> rbLim = l', rbLastSeen = now \<rparr> bs"
    using False r by (auto simp: LoginRateLimit_def Let_def l_def split: option.splits prod.splits if_splits)
  have room: "length (put_bucket (limiterKey ip) \<lparr> rbLim = l', rbLastSeen = now \<rparr> bs) \<le> loginMaxBuckets"
    using False inv put_bucket_size(2) [of bs "limiterKey ip"] by (auto simp: budget_inv_def)
  show ?thesis
  proof (cases "limiterKey ip = k")
    case True
    have "lmTokens lm l now = tokens_for lm bs k now"
      using tb True by (auto simp: l_def tokens_for_def token_bucket_def split: option.split)
    from budget_charge [OF tb inv al this] room show ?thesis unfolding bs' True .
  next
    case False
    show ?thesis unfolding bs' by (rule budget_other [OF inv False room])
  qed
qed

lemma budget_run:
  assumes "token_bucket lm loginBudgetRefill loginBudget" "budget_inv lm k now bs passed"
    "sorted_wrt (\<le>) (now # map fst evs)"
  shows "\<exists>later. budget_inv lm k later (fst (limiter_run lm evs bs passed)) (snd (limiter_run lm evs bs passed))"
  using assms
proof (induction lm evs bs passed arbitrary: now rule: limiter_run.induct)
  case (1 lm bs passed)
  then show ?case by auto
next
  case (2 lm t evs bs passed)
  have "budget_inv lm k t bs passed" by (rule budget_later [OF 2(2,3)]) (use 2(4) in simp)
  from budget_sweep [OF 2(2) this] 2(1) [of t] 2(2,4) show ?case by simp
next
  case (3 lm t ip evs bs passed)
  obtain ok bs' where r: "LoginRateLimit lm t ip bs = (ok, bs')" by fastforce
  have "budget_inv lm k t bs passed" by (rule budget_later [OF 3(2,3)]) (use 3(4) in simp)
  from budget_attempt [OF 3(2) this r] 3(1) [OF r [symmetric], of t] 3(2,4) show ?case by (simp add: r)
qed

section \<open>Properties\<close>

text \<open>C20.  A caller cannot choose who it is.  When the peer is not on the list of trusted proxies, no
  header changes the address: it is the peer's.  When it is, the address is the peer's own, and
  then marked as standing in for somebody, or that of a hop which is no trusted proxy and has
  nothing but trusted proxies to its right; and whatever a caller writes to the left of a hop
  that ends the walk changes nothing.\<close>

theorem caller_cannot_choose_identity:
  assumes "resolveClient r trusted = (client, proxied)"
  shows "if \<not> trusted_peer r trusted then client = peerIP r
    else proxied = (client = peerIP r) \<and>
      (client \<noteq> peerIP r \<longrightarrow>
        (\<exists>pre h post a. hops r = pre @ h # post \<and> ParseAddr h = Some a \<and> client = addr_string (Unmap a) \<and>
          \<not> InAnyEntry (Unmap a) trusted \<and> list_all (\<lambda>x. \<not> ends_walk trusted x) post)) \<and>
      (\<forall>r' pre pre' post. hrRemoteAddr r' = hrRemoteAddr r \<and> hops r = pre @ post \<and> hops r' = pre' @ post \<and>
        list_ex (ends_walk trusted) post \<longrightarrow> resolveClient r' trusted = (client, proxied))"
proof (cases "trusted_peer r trusted")
  case False
  with assms show ?thesis by (simp add: resolveClient_def)
next
  case True
  have c: "client = walk_hops trusted (peerIP r) (rev (hops r))" "proxied = (client = peerIP r)"
    using assms True by (auto simp: resolveClient_def rightmostUntrusted_def Let_def)
  have named: "\<exists>pre h post a. hops r = pre @ h # post \<and> ParseAddr h = Some a \<and> client = addr_string (Unmap a) \<and>
      \<not> InAnyEntry (Unmap a) trusted \<and> list_all (\<lambda>x. \<not> ends_walk trusted x) post" if ne: "client \<noteq> peerIP r"
  proof -
    obtain post h pre a where "rev (hops r) = post @ h # pre" "ParseAddr h = Some a" "client = addr_string (Unmap a)"
      "\<not> InAnyEntry (Unmap a) trusted" "list_all (\<lambda>x. \<not> ends_walk trusted x) post"
      using walk_hops_named [of trusted "peerIP r" "rev (hops r)", folded c(1), OF ne] by blast
    moreover from this(1) have "hops r = rev pre @ h # rev post" by (simp add: rev_swap)
    ultimately show ?thesis by (intro exI [of _ "rev pre"] exI [of _ h] exI [of _ "rev post"] exI [of _ a]) simp
  qed
  have "resolveClient r' trusted = (client, proxied)"
    if "hrRemoteAddr r' = hrRemoteAddr r" "hops r = pre @ post" "hops r' = pre' @ post" "list_ex (ends_walk trusted) post"
    for r' pre pre' post
  proof -
    have p: "peerIP r' = peerIP r" using that(1) by (simp add: peerIP_def split: option.split)
    have "list_ex (ends_walk trusted) (rev post)" using that(4) by (simp add: list_ex_iff)
    then have "walk_hops trusted (peerIP r) (rev (hops r')) = client"
      unfolding c(1) that(2,3) rev_append by (simp add: walk_hops_prefix)
    with True c(2) p show ?thesis
      by (simp add: resolveClient_def rightmostUntrusted_def trusted_peer_def)
  qed
  with True c(2) named show ?thesis by auto
qed

text \<open>C19.  The login budget holds for every client.  Through any attempts from any addresses and any
  sweeps of the limiter's table, in order of time, no ten minutes let more than five attempts of
  one client through, where the addresses of an IPv6 /64 are one client; and the table never
  holds more than 65,536 buckets.\<close>

theorem login_budget_holds:
  assumes "token_bucket lm loginBudgetRefill loginBudget" "sorted (map fst evs)"
    "limiter_run lm evs [] [] = (bs, passed)"
  shows "passed_in k t0 (t0 + loginBudgetRefill) passed \<le> 5 \<and> length bs \<le> 65536"
proof (cases evs)
  case Nil
  with assms(3) show ?thesis by (simp add: passed_in_def)
next
  case (Cons ev rest)
  have "budget_inv lm k (fst ev) [] []"
    using refilled_nonneg by (simp add: budget_inv_def passed_since_def passed_in_def tokens_for_def)
  moreover have "sorted_wrt (\<le>) (fst ev # map fst evs)" using assms(2) by (auto simp: Cons)
  ultimately obtain later where "budget_inv lm k later bs passed"
    using budget_run [OF assms(1)] assms(3) by fastforce
  then show ?thesis by (simp add: budget_inv_def loginBudget_def loginMaxBuckets_def)
qed

section \<open>A proxied request and an exhausted budget\<close>

definition proxied_caller :: http_request where
  "proxied_caller =
     \<lparr> hrRemoteAddr = ''10.0.0.1:4711'', hrHeader = [(''X-Forwarded-For'', [''10.0.0.1'', ''6.6.6.6, 1.2.3.4''])] \<rparr>"

lemma proxied_caller_resolved:
  "resolveClient proxied_caller [''10.0.0.1''] = (''1.2.3.4'', False)"
  "trusted_peer proxied_caller [''10.0.0.1'']" "peerIP proxied_caller = ''10.0.0.1''"
  by code_simp+

theorem caller_cannot_choose_identity_witness:
  "resolveClient proxied_caller [''10.0.0.1''] = (''1.2.3.4'', False) \<and>
   (\<exists>pre h post a. hops proxied_caller = pre @ h # post \<and> ParseAddr h = Some a \<and>
      ''1.2.3.4'' = addr_string (Unmap a) \<and> \<not> InAnyEntry (Unmap a) [''10.0.0.1''])"
  using caller_cannot_choose_identity [OF proxied_caller_resolved(1)] proxied_caller_resolved by auto

text \<open>A bucket as the number of tokens at some moment.\<close>

definition exact_tokens :: "rat \<times> int \<Rightarrow> int \<Rightarrow> rat" where
  "exact_tokens l t = min (of_nat loginBudget) (fst l + of_int (max 0 (t - snd l)) / of_int loginBudgetRefill)"

definition exact_limiter :: "(rat \<times> int) limiter" where
  "exact_limiter =
     \<lparr> lmNew = \<lambda>_ _. (of_nat loginBudget, 0),
       lmAllow = \<lambda>l t. let n = exact_tokens l t in if 1 \<le> n then (True, (n - 1, t)) else (False, (n, t)),
       lmTokens = exact_tokens \<rparr>"

lemma exact_token_bucket: "token_bucket exact_limiter loginBudgetRefill loginBudget"
proof -
  have "exact_tokens l t' \<le> exact_tokens l t + of_int (t' - t) / of_int loginBudgetRefill" if "t \<le> t'" for l t t'
  proof -
    have "max 0 (t' - snd l) \<le> max 0 (t - snd l) + (t' - t)" using that by auto
    then have "of_int (max 0 (t' - snd l)) / (of_int loginBudgetRefill :: rat) \<le>
        of_int (max 0 (t - snd l) + (t' - t)) / of_int loginBudgetRefill"
      by (intro divide_right_mono) (simp_all del: of_int_max of_int_add of_int_diff add: less_imp_le)
    also have "\<dots> = of_int (max 0 (t - snd l)) / of_int loginBudgetRefill + of_int (t' - t) / of_int loginBudgetRefill"
      by (simp only: of_int_add add_divide_distrib)
    finally show ?thesis using refilled_nonneg [OF that] by (simp add: exact_tokens_def del: of_int_max of_int_diff)
  qed
  moreover have "exact_tokens (of_nat loginBudget, 0) t = of_nat loginBudget" for t
    using divide_nonneg_pos [of "of_int (max 0 t) :: rat" "of_int loginBudgetRefill"]
    by (simp add: exact_tokens_def min_def del: of_int_max)
  ultimately show ?thesis
    by (auto simp: token_bucket_def exact_limiter_def Let_def exact_tokens_def min_def)
qed

definition six_attempts :: "(int \<times> limiter_event) list" where
  "six_attempts = replicate 6 (0, Attempt ''1.1.1.1'')"

lemma own_key: "limiterKey ''1.1.1.1'' = ''1.1.1.1''"
  by code_simp

lemma six_attempts_run:
  "limiter_run exact_limiter six_attempts [] [] =
     ([(''1.1.1.1'', \<lparr> rbLim = (0, 0), rbLastSeen = 0 \<rparr>)], replicate 5 (0, ''1.1.1.1''))"
  by (simp add: six_attempts_def LoginRateLimit_def own_key put_bucket_def exact_limiter_def exact_tokens_def
      loginBudget_def loginMaxBuckets_def numeral_eq_Suc not_le)

theorem login_budget_holds_witness:
  "token_bucket exact_limiter loginBudgetRefill loginBudget \<and> sorted (map fst six_attempts) \<and>
   passed_in ''1.1.1.1'' 0 (0 + loginBudgetRefill) (snd (limiter_run exact_limiter six_attempts [] [])) = 5"
proof -
  have s: "sorted (map fst six_attempts)" by (simp add: six_attempts_def)
  have "passed_in ''1.1.1.1'' 0 (0 + loginBudgetRefill) (replicate 5 (0, ''1.1.1.1'')) = 5"
    using refill_pos by (simp add: passed_in_def)
  with login_budget_holds [OF exact_token_bucket s six_attempts_run] s exact_token_bucket show ?thesis
    by (simp add: six_attempts_run)
qed

end
