(* ===== verification/Factors.thy ===== *)
theory Factors
  imports JsonText FeedSets Packets
begin

text \<open>
  The second factors of the web process as pure functions: time-based codes
  (\<open>internal/web/totp.go\<close>), recovery codes (\<open>internal/web/recovery.go\<close>) and the password policy
  (\<open>internal/web/auth.go\<close>).  The keyed hash, the password hash and the Unicode tables are parameters.
  A secret and a recovery code pass through a human being, so what is proved of them is that every
  form in which they are shown or typed is read back.
\<close>

section \<open>Upper case\<close>

text \<open>
  \<open>strings.ToUpper\<close> as far as its callers can see: ASCII letters, and the two runes outside ASCII whose
  upper case is an ASCII letter.  Any other rune outside ASCII is refused by both callers whatever
  its case.
\<close>

fun to_upper :: "string \<Rightarrow> string" where
  "to_upper [] = []"
| "to_upper (c # cs) =
     (if take 2 (c # cs) = [CHR 0xC4, CHR 0xB1] then CHR ''I'' # to_upper (drop 1 cs)
      else if take 2 (c # cs) = [CHR 0xC5, CHR 0xBF] then CHR ''S'' # to_upper (drop 1 cs)
      else up_char c # to_upper cs)"

section \<open>Time-based codes\<close>

definition second :: int where "second = 1000000000"

definition totpPeriod :: int where "totpPeriod = 30 * second"
definition totpDigits :: nat where "totpDigits = 6"
definition totpSecretBytes :: nat where "totpSecretBytes = 20"
definition totpWindowLogin :: int where "totpWindowLogin = 1"
definition totpWindowEnrol :: int where "totpWindowEnrol = 10"

text \<open>\<open>fmt.Sprintf("%0*d")\<close>.\<close>

definition zero_padded :: "nat \<Rightarrow> nat \<Rightarrow> string" where
  "zero_padded n v = replicate (n - length (digits_of v)) (CHR ''0'') @ digits_of v"

definition hotp :: "(byte list \<Rightarrow> byte list \<Rightarrow> byte list) \<Rightarrow> byte list \<Rightarrow> 64 word \<Rightarrow> nat \<Rightarrow> string" where
  "hotp mac secret counter digits =
     (let sum = mac secret (be_bytes 8 (unat counter));
          offset = unat (List.last sum AND 0x0f);
          truncated = be_nat (take 4 (drop offset sum)) mod 2 ^ 31
      in zero_padded digits (truncated mod 10 ^ digits))"

definition unix :: "int \<Rightarrow> int" where "unix t = t div second"

definition stepAt :: "int \<Rightarrow> 64 word" where
  "stepAt t = word_of_int (uint (word_of_int (unix t) :: 64 word) div (totpPeriod div second))"

definition totpAt :: "(byte list \<Rightarrow> byte list \<Rightarrow> byte list) \<Rightarrow> byte list \<Rightarrow> 64 word \<Rightarrow> string" where
  "totpAt mac secret step = hotp mac secret step totpDigits"

text \<open>The step that matched and its distance from now; the first of the window wins.\<close>

definition matchTOTP ::
  "(byte list \<Rightarrow> byte list \<Rightarrow> byte list) \<Rightarrow> byte list \<Rightarrow> int \<Rightarrow> string \<Rightarrow> int \<Rightarrow> (64 word \<times> int) option" where
  "matchTOTP mac secret now code window =
     (let cur = sint (stepAt now) in
      map_option (\<lambda>d. (word_of_int (cur + d), d))
        (find (\<lambda>d. 0 \<le> cur + d \<and> totpAt mac secret (word_of_int (cur + d)) = code) [- window..window]))"

text \<open>\<open>base32.StdEncoding\<close> without padding.\<close>

definition b32_char :: "nat \<Rightarrow> char" where
  "b32_char d = (if d < 26 then char_of (65 + d) else char_of (24 + d))"

definition b32_val :: "char \<Rightarrow> nat option" where
  "b32_val c =
     (let n = (of_char c :: nat) in
      if 65 \<le> n \<and> n \<le> 90 then Some (n - 65) else if 50 \<le> n \<and> n \<le> 55 then Some (n - 24) else None)"

fun b32_encode :: "byte list \<Rightarrow> string" where
  "b32_encode (a # b # c # d # e # r) =
     (let a = unat a; b = unat b; c = unat c; d = unat d; e = unat e in
      map b32_char
        [a div 8, a mod 8 * 4 + b div 64, b div 2 mod 32, b mod 2 * 16 + c div 16,
         c mod 16 * 2 + d div 128, d div 4 mod 32, d mod 4 * 8 + e div 32, e mod 32]) @ b32_encode r"
| "b32_encode _ = []"

definition b32_group :: "nat list \<Rightarrow> byte list" where
  "b32_group ds =
     (let x = (\<lambda>i. if i < length ds then ds ! i else 0);
          n = (case map_of [(8, 5), (7, 4), (5, 3), (4, 2), (2, 1)] (length ds) of None \<Rightarrow> 0 | Some n \<Rightarrow> n) in
      take n (map of_nat
        [x 0 * 8 + x 1 div 4, x 1 mod 4 * 64 + x 2 * 2 + x 3 div 16, x 3 mod 16 * 16 + x 4 div 2,
         x 4 mod 2 * 128 + x 5 * 4 + x 6 div 8, x 6 mod 8 * 32 + x 7]))"

fun b32_groups :: "nat list \<Rightarrow> byte list" where
  "b32_groups (a # b # c # d # e # f # g # h # r) = b32_group [a, b, c, d, e, f, g, h] @ b32_groups r"
| "b32_groups ds = b32_group ds"

text \<open>\<open>DecodeString\<close>: line breaks are skipped; \<open>None\<close> is a character outside the alphabet.\<close>

definition b32_decode :: "string \<Rightarrow> byte list option" where
  "b32_decode s0 =
     (let s = filter (\<lambda>c. c \<notin> {CHR 0x0A, CHR 0x0D}) s0 in
      if list_all (\<lambda>c. b32_val c \<noteq> None) s then Some (b32_groups (List.map_filter b32_val s)) else None)"

definition totp_separator :: "char \<Rightarrow> bool" where
  "totp_separator c \<longleftrightarrow> c = CHR '' '' \<or> c = CHR ''-'' \<or> c = CHR ''=''"

definition newTOTPSecret :: "byte list option \<Rightarrow> string option" where
  "newTOTPSecret random = map_option b32_encode random"

definition decodeTOTPSecret :: "string \<Rightarrow> byte list option" where
  "decodeTOTPSecret s =
     (case b32_decode (to_upper (filter (\<lambda>c. \<not> totp_separator c) s)) of
        None \<Rightarrow> None
      | Some raw \<Rightarrow> if raw = [] then None else Some raw)"

fun group_fours :: "nat \<Rightarrow> string \<Rightarrow> string" where
  "group_fours i [] = []"
| "group_fours i (c # cs) = (if i > 0 \<and> i mod 4 = 0 then [CHR '' '', c] else [c]) @ group_fours (i + 1) cs"

definition formatTOTPSecret :: "string \<Rightarrow> string" where
  "formatTOTPSecret s = group_fours 0 s"

section \<open>Recovery codes\<close>

definition recoveryAlphabet :: string where "recoveryAlphabet = ''0123456789ABCDEFGHJKMNPQRSTVWXYZ''"
definition recoveryGroupLen :: nat where "recoveryGroupLen = 5"
definition recoveryCodeLen :: nat where "recoveryCodeLen = 10"
definition recoveryCodeCount :: nat where "recoveryCodeCount = 8"

definition with_dash :: "string \<Rightarrow> string" where
  "with_dash s = take recoveryGroupLen s @ ''-'' @ drop recoveryGroupLen s"

text \<open>On the bytes the random source gave.\<close>

definition newRecoveryCode :: "byte list \<Rightarrow> string" where
  "newRecoveryCode raw = with_dash (map (\<lambda>v. recoveryAlphabet ! (unat v mod length recoveryAlphabet)) raw)"

text \<open>
  The loop of \<open>newRecoveryCodes\<close> over what its calls return: the random bytes and the hash of the code,
  either of which may fail.  The outer option is a loop that has not ended with the calls given.
\<close>

fun mint_codes ::
  "(byte list option \<times> string option) list \<Rightarrow> string list \<Rightarrow> string list \<Rightarrow>
    (string list \<times> string list) option option" where
  "mint_codes calls codes hashes =
     (if length codes \<ge> recoveryCodeCount then Some (Some (codes, hashes))
      else case calls of
        [] \<Rightarrow> None
      | (rd, h) # rest \<Rightarrow>
          (case rd of
             None \<Rightarrow> Some None
           | Some raw \<Rightarrow>
               let code = newRecoveryCode raw in
               if code \<in> set codes then mint_codes rest codes hashes
               else (case h of
                       None \<Rightarrow> Some None
                     | Some x \<Rightarrow> mint_codes rest (codes @ [code]) (hashes @ [x]))))"

declare mint_codes.simps [simp del]

definition newRecoveryCodes ::
  "(byte list option \<times> string option) list \<Rightarrow> (string list \<times> string list) option option" where
  "newRecoveryCodes calls = mint_codes calls [] []"

definition recoveryConfusions :: "char \<Rightarrow> string" where
  "recoveryConfusions c =
     (case map_of [(CHR ''I'', ''1''), (CHR ''L'', ''1''), (CHR ''O'', ''0''), (CHR ''U'', ''V''),
                   (CHR '' '', []), (CHR ''-'', [])] c of
        None \<Rightarrow> [c] | Some s \<Rightarrow> s)"

definition recovery_clean :: "string \<Rightarrow> string" where
  "recovery_clean s = concat (map recoveryConfusions (to_upper (trim_space s)))"

definition normaliseRecoveryCode :: "string \<Rightarrow> string" where
  "normaliseRecoveryCode s =
     (let clean = recovery_clean s in if length clean \<noteq> recoveryCodeLen then clean else with_dash clean)"

definition isTOTPShape :: "string \<Rightarrow> bool" where
  "isTOTPShape s \<longleftrightarrow> length (trim_space s) = totpDigits \<and> list_all is_digit (trim_space s)"

definition isRecoveryShape :: "string \<Rightarrow> bool" where
  "isRecoveryShape s \<longleftrightarrow>
     (let n = normaliseRecoveryCode s in
      length n = recoveryCodeLen + 1 \<and> n ! recoveryGroupLen = CHR ''-'' \<and>
      list_all (\<lambda>i. i = recoveryGroupLen \<or> n ! i \<in> set recoveryAlphabet) [0..<length n])"

text \<open>The position of the first hash the code verifies against.\<close>

definition matchRecoveryCode :: "(string \<Rightarrow> string \<Rightarrow> bool) \<Rightarrow> string \<Rightarrow> string list \<Rightarrow> nat option" where
  "matchRecoveryCode verify code hashes =
     (if \<not> isRecoveryShape code then None
      else find (\<lambda>i. verify (normaliseRecoveryCode code) (hashes ! i)) [0..<length hashes])"

definition consumeRecoveryCode ::
  "(string \<Rightarrow> string \<Rightarrow> bool) \<Rightarrow> string \<Rightarrow> string list \<Rightarrow> string list \<times> bool" where
  "consumeRecoveryCode verify code hashes =
     (case matchRecoveryCode verify code hashes of
        None \<Rightarrow> (hashes, False)
      | Some i \<Rightarrow> (take i hashes @ drop (i + 1) hashes, True))"

section \<open>Clock skew and the password policy\<close>

definition skewMinutes :: "int \<Rightarrow> int" where
  "skewMinutes offset = (\<bar>offset\<bar> * (totpPeriod div second) + 59) div 60"

definition clockSkewKey :: "int \<Rightarrow> string" where
  "clockSkewKey offset =
     (if offset \<le> 0 then ''totp_clock_ahead'' else ''totp_clock_behind'') @
     (if skewMinutes offset = 1 then ''_one'' else ''_many'')"

definition rune_val :: "string \<Rightarrow> nat" where
  "rune_val s =
     (case map (of_char :: char \<Rightarrow> nat) s of
        [a] \<Rightarrow> a
      | [a, b] \<Rightarrow> a mod 32 * 64 + b mod 64
      | [a, b, c] \<Rightarrow> a mod 16 * 4096 + b mod 64 * 64 + c mod 64
      | [a, b, c, d] \<Rightarrow> a mod 8 * 262144 + b mod 64 * 4096 + c mod 64 * 64 + d mod 64
      | _ \<Rightarrow> 0xFFFD)"

text \<open>Ranging over a string; a byte that is not valid counts as one replacement rune.\<close>

fun runes_n :: "nat \<Rightarrow> string \<Rightarrow> nat list" where
  "runes_n (Suc n) (c # cs) =
     (let k = utf8_len (c # cs) in
      if k = 0 then 0xFFFD # runes_n n cs else rune_val (take k (c # cs)) # runes_n n (drop k (c # cs)))"
| "runes_n _ _ = []"

definition runes :: "string \<Rightarrow> nat list" where "runes s = runes_n (length s) s"

text \<open>The categories the policy asks about: format, control and mark runes; digits; the rest it counts
  as symbols.\<close>

record unicode_tables =
  ucInvisible :: "nat \<Rightarrow> bool"
  ucDigit :: "nat \<Rightarrow> bool"
  ucSymbol :: "nat \<Rightarrow> bool"

definition minPasswordLen :: nat where "minPasswordLen = 12"

definition passwordPolicyError :: "unicode_tables \<Rightarrow> string \<Rightarrow> string" where
  "passwordPolicyError uc password =
     (let seen = filter (\<lambda>r. \<not> ucInvisible uc r) (runes password) in
      if length seen < minPasswordLen then ''password_too_short''
      else if \<not> list_ex (ucDigit uc) seen then ''password_needs_digit''
      else if \<not> list_ex (\<lambda>r. \<not> ucDigit uc r \<and> ucSymbol uc r) seen then ''password_needs_symbol''
      else [])"

section \<open>A secret is read back as it was shown\<close>

lemma of_char_small: "n < 256 \<Longrightarrow> of_char (char_of n :: char) = (n :: nat)"
  by (simp add: of_char_of)

lemma b32_val_char: "d < 32 \<Longrightarrow> b32_val (b32_char d) = Some d"
  by (simp add: b32_val_def b32_char_def of_char_small)

lemma unat_byte: "unat (x :: byte) < 256"
  using unsigned_less [of x, where ?'a = nat] by simp

lemma b32_group_eight:
  "b32_group [x0, x1, x2, x3, x4, x5, x6, x7] = map of_nat
     [x0 * 8 + x1 div 4, x1 mod 4 * 64 + x2 * 2 + x3 div 16, x3 mod 16 * 16 + x4 div 2,
      x4 mod 2 * 128 + x5 * 4 + x6 div 8, x6 mod 8 * 32 + x7]"
  by (simp add: b32_group_def)

lemma b32_group_bytes:
  fixes a b c d e :: nat
  assumes "a < 256" "b < 256" "c < 256" "d < 256" "e < 256"
  shows "b32_group [a div 8, a mod 8 * 4 + b div 64, b div 2 mod 32, b mod 2 * 16 + c div 16,
         c mod 16 * 2 + d div 128, d div 4 mod 32, d mod 4 * 8 + e div 32, e mod 32] = map of_nat [a, b, c, d, e]"
proof -
  have cut: "(x * m + y) div m = x" "(x * m + y) mod m = y" if "y < m" for x y m :: nat
    using that by simp_all
  have "b div 64 < 4" "c div 16 < 16" "d div 128 < 2" "e div 32 < 8"
    using assms by (simp_all add: less_mult_imp_div_less)
  then have c: "(a mod 8 * 4 + b div 64) div 4 = a mod 8" "(a mod 8 * 4 + b div 64) mod 4 = b div 64"
    "(b mod 2 * 16 + c div 16) div 16 = b mod 2" "(b mod 2 * 16 + c div 16) mod 16 = c div 16"
    "(c mod 16 * 2 + d div 128) div 2 = c mod 16" "(c mod 16 * 2 + d div 128) mod 2 = d div 128"
    "(d mod 4 * 8 + e div 32) div 8 = d mod 4" "(d mod 4 * 8 + e div 32) mod 8 = e div 32"
    by (simp_all only: cut)
  have "b div 64 = b div 2 div 32" "d div 128 = d div 4 div 32" by (simp_all add: div_mult2_eq [symmetric])
  then have whole: "b div 64 * 64 + b div 2 mod 32 * 2 + b mod 2 = b" "d div 128 * 128 + d div 4 mod 32 * 4 + d mod 4 = d"
    using div_mult_mod_eq [of "b div 2" 32] div_mult_mod_eq [of b 2] div_mult_mod_eq [of "d div 4" 32]
      div_mult_mod_eq [of d 4]
    by linarith+
  show ?thesis unfolding b32_group_eight c whole div_mult_mod_eq by (rule refl)
qed

text \<open>The five-bit digits of a secret.\<close>

fun b32_digits :: "byte list \<Rightarrow> nat list" where
  "b32_digits (a # b # c # d # e # r) =
     (let a = unat a; b = unat b; c = unat c; d = unat d; e = unat e in
      [a div 8, a mod 8 * 4 + b div 64, b div 2 mod 32, b mod 2 * 16 + c div 16,
       c mod 16 * 2 + d div 128, d div 4 mod 32, d mod 4 * 8 + e div 32, e mod 32]) @ b32_digits r"
| "b32_digits _ = []"

lemma b32_encode_digits: "b32_encode raw = map b32_char (b32_digits raw)"
  by (induction raw rule: b32_encode.induct) (simp_all add: Let_def)

lemma b32_digits_small: "list_all (\<lambda>d. d < 32) (b32_digits raw)"
proof (induction raw rule: b32_digits.induct)
  case (1 a b c d e r)
  have m: "a div 8 < 32" "a mod 8 * 4 + b div 64 < 32" "b mod 2 * 16 + c div 16 < 32" "c mod 16 * 2 + d div 128 < 32"
    "d mod 4 * 8 + e div 32 < 32" if "a < 256" "b < 256" "c < 256" "d < 256" "e < 256" for a b c d e :: nat
    using that by (simp_all add: less_mult_imp_div_less)
  show ?case using 1 m [OF unat_byte unat_byte unat_byte unat_byte unat_byte] by (simp add: Let_def)
qed simp_all

lemma b32_groups_digits: "length raw mod 5 = 0 \<Longrightarrow> b32_groups (b32_digits raw) = raw"
proof (induction raw rule: b32_digits.induct)
  case (1 a b c d e r)
  then have "length r mod 5 = 0" by simp
  with 1 b32_group_bytes [OF unat_byte unat_byte unat_byte unat_byte unat_byte, of a b c d e]
  show ?case by (simp add: Let_def)
qed (simp_all add: b32_group_def)

lemma map_filter_total: "(\<And>x. x \<in> set xs \<Longrightarrow> g (f x) = Some x) \<Longrightarrow> List.map_filter g (map f xs) = xs"
  by (induction xs) (simp_all add: List.map_filter_simps)

lemma b32_char_upper: "d < 32 \<Longrightarrow> of_char (b32_char d) < (128 :: nat) \<and> 50 \<le> (of_char (b32_char d) :: nat)"
  by (simp add: b32_char_def of_char_small)

lemma b32_roundtrip:
  assumes "length raw mod 5 = 0"
  shows "b32_decode (b32_encode raw) = Some raw"
proof -
  have d: "d < 32" if "d \<in> set (b32_digits raw)" for d using that b32_digits_small [of raw] by (simp add: list_all_iff)
  have "filter (\<lambda>c. c \<notin> {CHR 0x0A, CHR 0x0D}) (b32_encode raw) = b32_encode raw"
    using b32_char_upper d by (fastforce simp: b32_encode_digits filter_id_conv)
  moreover have "list_all (\<lambda>c. b32_val c \<noteq> None) (b32_encode raw)"
    using b32_val_char d by (auto simp: b32_encode_digits list_all_iff)
  moreover have "List.map_filter b32_val (b32_encode raw) = b32_digits raw"
    unfolding b32_encode_digits using b32_val_char d by (intro map_filter_total) blast
  ultimately show ?thesis by (simp add: b32_decode_def b32_groups_digits [OF assms])
qed

lemma to_upper_ascii: "list_all (\<lambda>c. of_char (up_char c) < (128 :: nat)) s \<Longrightarrow> to_upper s = map up_char s"
proof (induction s)
  case (Cons c s)
  have "c \<noteq> CHR 0xC4" "c \<noteq> CHR 0xC5" using Cons.prems by (auto simp: up_char_def)
  with Cons show ?case by simp
qed simp

lemma group_fours_back: "filter (\<lambda>c. \<not> totp_separator c) (group_fours i s) = filter (\<lambda>c. \<not> totp_separator c) s"
  by (induction i s rule: group_fours.induct) (auto simp: totp_separator_def)

lemma secret_typed:
  assumes "length raw mod 5 = 0" "raw \<noteq> []" "map up_char (filter (\<lambda>c. \<not> totp_separator c) typed) = b32_encode raw"
  shows "decodeTOTPSecret typed = Some raw"
proof -
  let ?t = "filter (\<lambda>c. \<not> totp_separator c) typed"
  have "of_char c < (128 :: nat)" if "c \<in> set (b32_encode raw)" for c
    using that b32_char_upper b32_digits_small [of raw] by (auto simp: b32_encode_digits list_all_iff)
  then have "list_all (\<lambda>c. of_char (up_char c) < (128 :: nat)) ?t"
    using assms(3) by (metis (no_types, lifting) image_eqI list_all_iff list.set_map)
  then show ?thesis using assms b32_roundtrip [OF assms(1)] to_upper_ascii [of ?t] by (simp add: decodeTOTPSecret_def)
qed

section \<open>Recovery codes in the form they are typed\<close>

lemma alphabet_chars:
  assumes "c \<in> set recoveryAlphabet"
  shows "plain c" "up_char c = c" "recoveryConfusions c = [c]" "of_char c < (128 :: nat)" "c \<noteq> CHR ''-''"
proof -
  have "list_all (\<lambda>c. plain c \<and> up_char c = c \<and> recoveryConfusions c = [c] \<and> of_char c < (128 :: nat) \<and> c \<noteq> CHR ''-'') recoveryAlphabet"
    by code_simp
  with assms show "plain c" "up_char c = c" "recoveryConfusions c = [c]" "of_char c < (128 :: nat)" "c \<noteq> CHR ''-''"
    by (auto simp: list_all_iff)
qed

definition code_symbols :: "byte list \<Rightarrow> string" where
  "code_symbols raw = map (\<lambda>v. recoveryAlphabet ! (unat v mod length recoveryAlphabet)) raw"

lemma code_symbols_alphabet: "c \<in> set (code_symbols raw) \<Longrightarrow> c \<in> set recoveryAlphabet"
proof -
  have "(0 :: nat) < length recoveryAlphabet" by (simp add: recoveryAlphabet_def)
  then have "recoveryAlphabet ! (n mod length recoveryAlphabet) \<in> set recoveryAlphabet" for n by (intro nth_mem) simp
  then show "c \<in> set (code_symbols raw) \<Longrightarrow> ?thesis" by (auto simp: code_symbols_def)
qed

lemma recovery_clean_length_digits:
  assumes "list_all is_digit t"
  shows "concat (map recoveryConfusions (to_upper t)) = t"
proof -
  have d: "up_char c = c" "recoveryConfusions c = [c]" "of_char c < (128 :: nat)" if "is_digit c" for c
    using that by (auto simp: up_char_def is_digit_def recoveryConfusions_def)
  have "list_all (\<lambda>c. of_char (up_char c) < (128 :: nat)) t" using assms d by (auto simp: list_all_iff)
  then have "to_upper t = t" using to_upper_ascii [of t] assms d by (simp add: list_all_iff map_idI)
  moreover have "concat (map recoveryConfusions t) = t"
    using assms by (induction t) (simp_all add: d(2))
  ultimately show ?thesis by simp
qed

lemma shapes_disjoint: "isTOTPShape s \<Longrightarrow> \<not> isRecoveryShape s"
proof
  assume t: "isTOTPShape s" and r: "isRecoveryShape s"
  from t have "recovery_clean s = trim_space s"
    using recovery_clean_length_digits [of "trim_space s"] by (simp add: isTOTPShape_def recovery_clean_def)
  with t have "length (normaliseRecoveryCode s) = 6"
    by (simp add: normaliseRecoveryCode_def isTOTPShape_def totpDigits_def recoveryCodeLen_def)
  with r show False by (simp add: isRecoveryShape_def Let_def recoveryCodeLen_def)
qed

text \<open>Trimming takes whole spaces off both ends.\<close>

lemma trim_left_takes: "\<exists>es. set es \<subseteq> set encs \<and> s = concat es @ trim_left encs s"
proof -
  have "\<exists>es. set es \<subseteq> set encs \<and> s = concat es @ trim_left_n n encs s" for n
  proof (induction n arbitrary: s)
    case 0
    show ?case by (rule exI [of _ "[]"]) simp
  next
    case (Suc n)
    show ?case
    proof (cases "leading_space encs s")
      case None
      then show ?thesis by (intro exI [of _ "[]"]) simp
    next
      case (Some e)
      then have e: "e \<in> set encs" "has_prefix s e" by (auto simp: leading_space_def find_Some_iff)
      obtain es where "set es \<subseteq> set encs" "drop (length e) s = concat es @ trim_left_n n encs (drop (length e) s)"
        using Suc by blast
      moreover have "s = e @ drop (length e) s" using e(2) by (auto simp: has_prefix_iff)
      ultimately have "s = e @ concat es @ trim_left_n n encs (drop (length e) s)" by metis
      with \<open>set es \<subseteq> set encs\<close> Some e(1) show ?thesis by (intro exI [of _ "e # es"]) simp
    qed
  qed
  then show ?thesis by (simp add: trim_left_def)
qed

definition typed_char :: "char \<Rightarrow> bool" where
  "typed_char c \<longleftrightarrow> plain c \<or> c = CHR '' ''"

lemma trim_space_typed:
  assumes "list_all typed_char s"
  obtains m n where "s = replicate m (CHR '' '') @ trim_space s @ replicate n (CHR '' '')"
proof -
  let ?l = "trim_left space_encodings s"
  have only: "e = '' ''" if "e \<in> set space_encodings" "list_all typed_char e" for e
  proof -
    have "list_all (\<lambda>e. list_all typed_char e \<longrightarrow> e = '' '') space_encodings" by code_simp
    with that show ?thesis by (auto simp: list_all_iff)
  qed
  have blanks: "concat es = replicate (length es) (CHR '' '')" if "set es \<subseteq> {'' ''}" for es
    using that by (induction es) auto
  obtain es where es: "set es \<subseteq> set space_encodings" "s = concat es @ ?l" using trim_left_takes by blast
  obtain fs where fs: "set fs \<subseteq> set (map rev space_encodings)"
    "rev ?l = concat fs @ trim_left (map rev space_encodings) (rev ?l)" using trim_left_takes by blast
  have l: "?l = trim_space s @ rev (concat fs)" using arg_cong [OF fs(2), of rev] by (simp add: trim_space_def)
  have typed: "list_all typed_char (concat es)" "list_all typed_char (rev (concat fs))"
    using assms es(2) l by (metis list_all_append)+
  have "set es \<subseteq> {'' ''}" using es(1) only typed(1) by (auto simp: list_all_iff)
  moreover have "f = '' ''" if f: "f \<in> set fs" for f
  proof -
    have "rev f \<in> set space_encodings" "list_all typed_char (rev f)"
      using f fs(1) typed(2) by (auto simp: list_all_iff)
    from only [OF this] show ?thesis by simp
  qed
  then have "set fs \<subseteq> {'' ''}" by blast
  ultimately have "s = replicate (length es) (CHR '' '') @ trim_space s @ replicate (length fs) (CHR '' '')"
    using es(2) l blanks [of es] blanks [of fs] by simp
  then show thesis by (rule that)
qed

lemma recovery_typed:
  assumes "length raw = recoveryCodeLen" "list_all typed_char typed"
    "concat (map recoveryConfusions (map up_char typed)) = code_symbols raw"
  shows "normaliseRecoveryCode typed = newRecoveryCode raw \<and> isRecoveryShape typed"
proof -
  obtain m n where t: "typed = replicate m (CHR '' '') @ trim_space typed @ replicate n (CHR '' '')"
    using trim_space_typed [OF assms(2)] .
  have core: "list_all typed_char (trim_space typed)" using assms(2) t by (metis list_all_append)
  have small: "of_char (up_char c) < (128 :: nat)" if "typed_char c" for c
    using that by (auto simp: typed_char_def plain_def up_char_def of_char_small)
  have up: "to_upper (trim_space typed) = map up_char (trim_space typed)"
    using core small by (intro to_upper_ascii) (auto simp: list_all_iff)
  have blank: "recoveryConfusions (up_char (CHR '' '')) = []" by code_simp
  have clean: "recovery_clean typed = code_symbols raw"
    using assms(3) by (subst (asm) t) (simp add: recovery_clean_def up blank)
  have l: "length (code_symbols raw) = 10" using assms(1) by (simp add: code_symbols_def recoveryCodeLen_def)
  then have n: "normaliseRecoveryCode typed = with_dash (code_symbols raw)"
    by (simp add: normaliseRecoveryCode_def clean recoveryCodeLen_def)
  have "with_dash (code_symbols raw) ! i \<in> set recoveryAlphabet" if "i < 11" "i \<noteq> 5" for i
  proof -
    have "with_dash (code_symbols raw) ! i \<in> set (code_symbols raw)"
      using that l by (cases "i < 5") (auto simp: with_dash_def recoveryGroupLen_def nth_append nth_Cons' intro!: nth_mem)
    then show ?thesis by (rule code_symbols_alphabet)
  qed
  moreover have "length (with_dash (code_symbols raw)) = 11" "with_dash (code_symbols raw) ! 5 = CHR ''-''"
    using l by (simp_all add: with_dash_def recoveryGroupLen_def nth_append)
  ultimately have "isRecoveryShape typed"
    by (simp add: isRecoveryShape_def n recoveryCodeLen_def recoveryGroupLen_def list_all_iff) (meson atLeastLessThan_iff)
  with n show ?thesis by (simp add: newRecoveryCode_def code_symbols_def)
qed

section \<open>Copying by hand\<close>

text \<open>
  What a hand makes of a text on a screen: each character is typed as itself or as one it is taken
  for, some characters may be left out, and some may be put in anywhere.
\<close>

fun copied :: "(char \<Rightarrow> char \<Rightarrow> bool) \<Rightarrow> string \<Rightarrow> string \<Rightarrow> string \<Rightarrow> string \<Rightarrow> bool" where
  "copied slip omits adds [] [] \<longleftrightarrow> True"
| "copied slip omits adds (c # s) [] \<longleftrightarrow> c \<in> set omits \<and> copied slip omits adds s []"
| "copied slip omits adds [] (d # t) \<longleftrightarrow> d \<in> set adds \<and> copied slip omits adds [] t"
| "copied slip omits adds (c # s) (d # t) \<longleftrightarrow>
     slip c d \<and> copied slip omits adds s t \<or>
     c \<in> set omits \<and> copied slip omits adds s (d # t) \<or>
     d \<in> set adds \<and> copied slip omits adds (c # s) t"

text \<open>A letter in either case; and in a recovery code the letters that look like a zero, a one or a V.\<close>

definition letter_cases :: "(char \<times> char) list" where
  "letter_cases = zip ''ABCDEFGHIJKLMNOPQRSTUVWXYZ'' ''abcdefghijklmnopqrstuvwxyz''"

definition look_alikes :: "(char \<times> char) list" where
  "look_alikes = zip ''001111VV'' ''OoIiLlUu''"

definition either_case :: "char \<Rightarrow> char \<Rightarrow> bool" where
  "either_case c d \<longleftrightarrow> d = c \<or> (c, d) \<in> set letter_cases"

definition looks_like :: "char \<Rightarrow> char \<Rightarrow> bool" where
  "looks_like c d \<longleftrightarrow> either_case c d \<or> (c, d) \<in> set look_alikes"

definition copied_secret :: "string \<Rightarrow> string \<Rightarrow> bool" where
  "copied_secret shown typed \<longleftrightarrow> copied either_case '' '' '' -='' shown typed"

definition copied_code :: "string \<Rightarrow> string \<Rightarrow> bool" where
  "copied_code shown typed \<longleftrightarrow> copied looks_like ''-'' '' -'' shown typed"

lemma cases_upper:
  assumes "(c, d) \<in> set letter_cases"
  shows "up_char d = c" "plain d" "\<not> totp_separator d" "c \<noteq> CHR '' ''" "c \<noteq> CHR ''-''"
proof -
  have "list_all (\<lambda>(c, d). up_char d = c \<and> plain d \<and> \<not> totp_separator d \<and> c \<noteq> CHR '' '' \<and> c \<noteq> CHR ''-'')
      letter_cases" by code_simp
  with assms show "up_char d = c" "plain d" "\<not> totp_separator d" "c \<noteq> CHR '' ''" "c \<noteq> CHR ''-''"
    unfolding list_all_iff by blast+
qed

definition secret_char :: "char \<Rightarrow> bool" where
  "secret_char c \<longleftrightarrow> c = CHR '' '' \<or> up_char c = c \<and> \<not> totp_separator c"

lemma copied_secret_clean:
  assumes "copied_secret shown typed" "list_all secret_char shown"
  shows "map up_char (filter (\<lambda>c. \<not> totp_separator c) typed) = filter (\<lambda>c. \<not> totp_separator c) shown"
proof -
  have slip: "if totp_separator c then totp_separator d else \<not> totp_separator d \<and> up_char d = c"
    if "either_case c d" "secret_char c" for c d
    using that cases_upper [of c d] by (auto simp: either_case_def secret_char_def totp_separator_def)
  have omit: "totp_separator c" if "c \<in> set '' ''" for c using that by (simp add: totp_separator_def)
  have add: "totp_separator c" if "c \<in> set '' -=''" for c using that by (auto simp: totp_separator_def)
  have "slip = either_case \<Longrightarrow> omits = '' '' \<Longrightarrow> adds = '' -='' \<Longrightarrow> copied slip omits adds shown typed \<Longrightarrow>
      list_all secret_char shown \<Longrightarrow>
      map up_char (filter (\<lambda>c. \<not> totp_separator c) typed) = filter (\<lambda>c. \<not> totp_separator c) shown"
    for slip omits adds
  proof (induction slip omits adds shown typed rule: copied.induct)
    case (4 slip' omits adds c s d t)
    then consider "either_case c d" "copied slip' omits adds s t" | "c \<in> set '' ''" "copied slip' omits adds s (d # t)"
      | "d \<in> set '' -=''" "copied slip' omits adds (c # s) t" by auto
    then show ?case
    proof cases
      case 1
      with 4 slip [of c d] show ?thesis by (auto split: if_splits)
    next
      case 2
      with 4 omit [of c] show ?thesis by simp
    next
      case 3
      with 4 add [of d] show ?thesis by simp
    qed
  qed (use omit add in simp_all)
  with assms show ?thesis by (simp add: copied_secret_def)
qed

lemma b32_secret_chars: "list_all (\<lambda>c. up_char c = c \<and> \<not> totp_separator c) (b32_encode raw)"
proof -
  have "up_char (b32_char d) = b32_char d \<and> \<not> totp_separator (b32_char d)" if "d < 32" for d
  proof -
    have n: "of_char (b32_char d) = (if d < 26 then 65 + d else 24 + d)"
      using that by (simp add: b32_char_def of_char_small)
    have "(of_char c :: nat) \<in> {32, 45, 61}" if "totp_separator c" for c using that by (auto simp: totp_separator_def)
    from this [of "b32_char d"] n that show ?thesis by (auto simp: up_char_def Let_def split: if_splits)
  qed
  then show ?thesis using b32_digits_small [of raw] by (auto simp: b32_encode_digits list_all_iff)
qed

lemma group_fours_chars: "set (group_fours i s) \<subseteq> insert (CHR '' '') (set s)"
  by (induction i s rule: group_fours.induct) auto

lemma secret_copied:
  assumes "length raw mod 5 = 0" "raw \<noteq> []" "copied_secret (formatTOTPSecret (b32_encode raw)) typed"
  shows "decodeTOTPSecret typed = Some raw"
proof (rule secret_typed [OF assms(1,2)])
  have "list_all secret_char (formatTOTPSecret (b32_encode raw))"
    using group_fours_chars [of 0 "b32_encode raw"] b32_secret_chars [of raw]
    by (auto simp: formatTOTPSecret_def list_all_iff secret_char_def)
  from copied_secret_clean [OF assms(3) this]
  show "map up_char (filter (\<lambda>c. \<not> totp_separator c) typed) = b32_encode raw"
    using b32_secret_chars [of raw] by (simp add: formatTOTPSecret_def group_fours_back list_all_iff filter_id_conv)
qed

lemma looks_read_back:
  assumes "looks_like c d" "c \<in> set recoveryAlphabet"
  shows "recoveryConfusions (up_char d) = [c]" "typed_char d"
proof -
  have "list_all (\<lambda>(c, d). recoveryConfusions (up_char d) = [c] \<and> plain d) look_alikes" by code_simp
  then have "(c, d) \<in> set look_alikes \<Longrightarrow> recoveryConfusions (up_char d) = [c] \<and> plain d"
    unfolding list_all_iff by blast
  with assms cases_upper [of c d] alphabet_chars [OF assms(2)]
  show "recoveryConfusions (up_char d) = [c]" "typed_char d"
    by (auto simp: looks_like_def either_case_def typed_char_def)
qed

lemma looks_like_dash: "looks_like (CHR ''-'') d \<Longrightarrow> d = CHR ''-''"
proof -
  have "list_all (\<lambda>(c, d). c \<noteq> CHR ''-'') look_alikes" by code_simp
  then have "(CHR ''-'', d) \<notin> set look_alikes" unfolding list_all_iff by blast
  then show "looks_like (CHR ''-'') d \<Longrightarrow> ?thesis"
    using cases_upper(5) [of "CHR ''-''" d] by (auto simp: looks_like_def either_case_def)
qed

lemma copied_code_clean:
  assumes "copied_code shown typed" "set shown \<subseteq> insert (CHR ''-'') (set recoveryAlphabet)"
  shows "concat (map recoveryConfusions (map up_char typed)) = filter (\<lambda>c. c \<noteq> CHR ''-'') shown \<and>
    list_all typed_char typed"
proof -
  let ?clean = "\<lambda>t. concat (map recoveryConfusions (map up_char t))"
  have dash: "recoveryConfusions (up_char (CHR ''-'')) = [] \<and> typed_char (CHR ''-'')" by code_simp
  have add: "recoveryConfusions (up_char c) = [] \<and> typed_char c" if "c \<in> set '' -''" for c
  proof -
    have "list_all (\<lambda>c. recoveryConfusions (up_char c) = [] \<and> typed_char c) '' -''" by code_simp
    with that show ?thesis unfolding list_all_iff by blast
  qed
  have "slip = looks_like \<Longrightarrow> omits = ''-'' \<Longrightarrow> adds = '' -'' \<Longrightarrow> copied slip omits adds shown typed \<Longrightarrow>
      set shown \<subseteq> insert (CHR ''-'') (set recoveryAlphabet) \<Longrightarrow>
      ?clean typed = filter (\<lambda>c. c \<noteq> CHR ''-'') shown \<and> list_all typed_char typed"
    for slip omits adds
  proof (induction slip omits adds shown typed rule: copied.induct)
    case (4 slip' omits adds c s d t)
    then consider "looks_like c d" "copied slip' omits adds s t" | "c \<in> set ''-''" "copied slip' omits adds s (d # t)"
      | "d \<in> set '' -''" "copied slip' omits adds (c # s) t" by auto
    then show ?case
    proof cases
      case 1
      with 4 have t: "?clean t = filter (\<lambda>c. c \<noteq> CHR ''-'') s \<and> list_all typed_char t" by simp
      show ?thesis
      proof (cases "c = CHR ''-''")
        case True
        with 1 t dash looks_like_dash [of d] show ?thesis by simp
      next
        case False
        with 4 have "c \<in> set recoveryAlphabet" by auto
        with 1 t False looks_read_back [of c d] show ?thesis by simp
      qed
    next
      case 2
      with 4 show ?thesis by simp
    next
      case 3
      with 4 add [of d] show ?thesis by simp
    qed
  qed (use add in simp_all)
  with assms show ?thesis by (simp add: copied_code_def)
qed

lemma code_copied:
  assumes "length raw = recoveryCodeLen" "copied_code (newRecoveryCode raw) written"
  shows "normaliseRecoveryCode written = newRecoveryCode raw \<and> isRecoveryShape written"
proof -
  have shown: "newRecoveryCode raw = with_dash (code_symbols raw)" by (simp add: newRecoveryCode_def code_symbols_def)
  have keep: "filter (\<lambda>c. c \<noteq> CHR ''-'') t = t" if "set t \<subseteq> set (code_symbols raw)" for t
    using that code_symbols_alphabet alphabet_chars(5) by (fastforce simp: filter_id_conv)
  have halves: "set (take n (code_symbols raw)) \<subseteq> set (code_symbols raw)"
    "set (drop n (code_symbols raw)) \<subseteq> set (code_symbols raw)" for n
    by (rule set_take_subset, rule set_drop_subset)
  have "set (newRecoveryCode raw) \<subseteq> insert (CHR ''-'') (set recoveryAlphabet)"
    by (auto simp: shown with_dash_def dest!: in_set_takeD in_set_dropD code_symbols_alphabet)
  from copied_code_clean [OF assms(2) this] show ?thesis
    using recovery_typed [OF assms(1), of written] keep [OF halves(1)] keep [OF halves(2)]
    by (simp add: shown with_dash_def)
qed

section \<open>Properties\<close>

text \<open>C22.  What a human copies by hand is read as it was issued.  A secret copied from the form the page
  shows it in, in either case, with spaces, dashes and equals signs put in anywhere and its own spaces
  left out, decodes to the very bytes it was made from.  A recovery code copied in either case, with an
  O for a zero, an I or an L for a one and a U for a V, without its dash or with dashes and spaces
  anywhere, becomes the string its hash was taken over, has the shape of a recovery code and not that
  of a code.  No value has both shapes, so the single field of the second step is unambiguous.\<close>

theorem typed_factors_are_read_back:
  "(length raw mod 5 = 0 \<and> raw \<noteq> [] \<and> newTOTPSecret (Some raw) = Some secret \<and>
      copied_secret (formatTOTPSecret secret) typed \<longrightarrow>
        decodeTOTPSecret typed = Some raw) \<and>
    (length code = 10 \<and> copied_code (newRecoveryCode code) written \<longrightarrow>
        normaliseRecoveryCode written = newRecoveryCode code \<and> isRecoveryShape written \<and> \<not> isTOTPShape written) \<and>
    \<not> (isTOTPShape s \<and> isRecoveryShape s)"
  using secret_copied [of raw typed] code_copied [of code written] shapes_disjoint
  by (auto simp: newTOTPSecret_def recoveryCodeLen_def)

theorem typed_factors_are_read_back_witness:
  "decodeTOTPSecret ''jbsw y3-dp='' = Some [72, 101, 108, 108, 111] \<and>
   normaliseRecoveryCode '' oilu0 00000'' = newRecoveryCode [0, 1, 1, 27, 0, 0, 0, 0, 0, 0] \<and>
   isRecoveryShape '' oilu0 00000'' \<and> \<not> (isTOTPShape ''123456'' \<and> isRecoveryShape ''123456'')"
proof -
  have a: "length [72, 101, 108, 108, 111 :: byte] mod 5 = 0 \<and> [72, 101, 108, 108, 111 :: byte] \<noteq> [] \<and>
      newTOTPSecret (Some [72, 101, 108, 108, 111]) = Some ''JBSWY3DP'' \<and>
      copied_secret (formatTOTPSecret ''JBSWY3DP'') ''jbsw y3-dp=''"
    by code_simp
  have b: "length [0, 1, 1, 27, 0, 0, 0, 0, 0, 0 :: byte] = 10 \<and>
      copied_code (newRecoveryCode [0, 1, 1, 27, 0, 0, 0, 0, 0, 0]) '' oilu0 00000''"
    by code_simp
  show ?thesis
    using typed_factors_are_read_back [of "[72, 101, 108, 108, 111]" "''JBSWY3DP''" "''jbsw y3-dp=''"
        "[0, 1, 1, 27, 0, 0, 0, 0, 0, 0]" "'' oilu0 00000''" "''123456''"] a b
    by (simp only: simp_thms)
qed

end
