(* ===== verification/SignIn.thy ===== *)
theory SignIn
  imports Factors NetipText "HOL-Library.Char_ord" "HOL-Library.List_Lexorder"
begin

text \<open>
  Signing in and out of the web process: sessions and their revocation (\<open>sessionrevoke.go\<close>,
  \<open>middleware.go\<close>), the state between password and second factor (\<open>pending2fa.go\<close>,
  \<open>pendingattempts.go\<close>), the replay guards (\<open>totpreplay.go\<close>, \<open>passkeyreplay.go\<close>), the credentials in
  \<open>config.go\<close>, \<open>factors.go\<close> and \<open>passkeystore.go\<close>, and the handlers over them (\<open>handler_login.go\<close>,
  \<open>handler_2fa.go\<close>, \<open>handler_password.go\<close>, \<open>handler_passkey.go\<close>), all under \<open>internal/web\<close>.

  A cookie is a value and the second it was signed in (\<open>gorilla/sessions\<close>): it cannot be forged, it is
  refused once it is older than its store's age, and saving signs it anew.  The state keeps every
  cookie ever signed, because whoever saw one may present it again.  Times are nanoseconds; a
  handler reads the clock once, except that an authenticated request stays in flight and may save
  its session until the server's write timeout.  The messages a page shows are not modelled, and
  neither is a session value that holds one.
\<close>

section \<open>State\<close>

text \<open>An absent value is the empty string, as every reader of the session's map sees it.\<close>

record web_session =
  wsUser :: string
  wsCred :: string
  wsID :: string

definition no_session :: web_session where
  "no_session = \<lparr> wsUser = [], wsCred = [], wsID = [] \<rparr>"

record pending_login =
  plUser :: string
  plCredFP :: string
  plID :: string
  plIssuedAt :: int

record 'v cookie =
  ckStamp :: int
  ckValue :: 'v

record pending_secret =
  psSecret :: string
  psIssued :: int
  psFailed :: bool

record credentials =
  crUsername :: string
  crPassword :: string
  crTOTP :: string
  crRecovery :: "string list"
  crPasskeys :: "string list"
  crCorrupt :: bool
  crDemo :: bool
  crHostname :: string
  crACME :: bool
  crCustomCert :: bool

text \<open>
  The primitives that are not modelled: verifying a password against a stored hash, the digest of a
  fingerprint, the keyed hash of a code, the Unicode tables.
\<close>

record crypto =
  cyVerify :: "string \<Rightarrow> string \<Rightarrow> bool"
  cySum :: "string \<Rightarrow> string"
  cyMac :: "byte list \<Rightarrow> byte list \<Rightarrow> byte list"
  cyTables :: unicode_tables

text \<open>
  The process's variables, the cookies it has signed and the requests it is serving.  The last
  five fields only record what happened: when a session was last logged out, the identifiers
  handed out, how often a factor was checked for an intermediate state, the challenges and the
  code steps accepted, all since the process started but for the identifiers.
\<close>

record web =
  wbNow :: int
  wbCreds :: credentials
  wbRevoked :: "string \<rightharpoonup> int"
  wbAttempts :: "string \<rightharpoonup> nat \<times> int"
  wbSecrets :: "string \<rightharpoonup> pending_secret"
  wbSpent :: "string \<rightharpoonup> int"
  wbStep :: "64 word"
  wbStepFile :: "64 word option"
  wbSessions :: "web_session cookie list"
  wbPending :: "pending_login cookie list"
  wbChallenges :: "string cookie list"
  wbEnrolments :: "string cookie list"
  wbFlight :: "(int \<times> web_session) list"
  wbOut :: "string \<rightharpoonup> int"
  wbIDs :: "string list"
  wbChecks :: "string \<Rightarrow> nat"
  wbSpends :: "string list"
  wbSteps :: "64 word list"

section \<open>Credentials and factors\<close>

definition NUL :: char where "NUL = CHR 0x00"

definition hex_bytes :: "string \<Rightarrow> string" where
  "hex_bytes s = concat (map (\<lambda>c. [hex_char (of_char c div 16), hex_char (of_char c mod 16)]) s)"

definition fingerprintInput :: "string list \<Rightarrow> string" where
  "fingerprintInput ids = join [NUL] (map hex_bytes (sort ids))"

definition credentialFingerprint :: "crypto \<Rightarrow> string \<Rightarrow> string \<Rightarrow> string \<Rightarrow> string" where
  "credentialFingerprint cy passwordHash totpSecret passkeySet =
     cySum cy (''easywall-session-v3:'' @ passwordHash @ [NUL] @ totpSecret @ [NUL] @ passkeySet)"

definition currentCredential :: "crypto \<Rightarrow> web \<Rightarrow> string" where
  "currentCredential cy w =
     (let c = wbCreds w in credentialFingerprint cy (crPassword c) (crTOTP c) (fingerprintInput (crPasskeys c)))"

definition factorCount :: "web \<Rightarrow> nat" where
  "factorCount w =
     (let c = wbCreds w in
      (if crTOTP c \<noteq> [] then 1 else 0) + length (crPasskeys c) + (if crCorrupt c then 1 else 0))"

definition hasSecondFactor :: "web \<Rightarrow> bool" where
  "hasSecondFactor w \<longleftrightarrow> factorCount w > 0"

definition mayRemoveFactor :: "web \<Rightarrow> bool" where
  "mayRemoveFactor w =
     (if crDemo (wbCreds w) then True else if crCorrupt (wbCreds w) then False else factorCount w > 1)"

definition IsFirstRun :: "web \<Rightarrow> bool" where
  "IsFirstRun w \<longleftrightarrow> crPassword (wbCreds w) = []"

text \<open>
  The writers of \<open>config.go\<close>; \<open>saved\<close> is whether the file could be written, and a failed write leaves
  the old values.
\<close>

definition SaveCredentials :: "bool \<Rightarrow> string \<Rightarrow> string \<Rightarrow> web \<Rightarrow> bool \<times> web" where
  "SaveCredentials saved username hash w =
     (if saved then (True, w\<lparr>wbCreds := (wbCreds w)\<lparr>crUsername := username, crPassword := hash\<rparr>\<rparr>) else (False, w))"

definition SaveTOTP :: "bool \<Rightarrow> string \<Rightarrow> string list \<Rightarrow> web \<Rightarrow> bool \<times> web" where
  "SaveTOTP saved secret hashes w =
     (if saved then (True, w\<lparr>wbCreds := (wbCreds w)\<lparr>crTOTP := secret, crRecovery := hashes\<rparr>\<rparr>) else (False, w))"

definition SaveRecoveryCodes :: "bool \<Rightarrow> string list \<Rightarrow> web \<Rightarrow> bool \<times> web" where
  "SaveRecoveryCodes saved hashes w =
     (if saved then (True, w\<lparr>wbCreds := (wbCreds w)\<lparr>crRecovery := hashes\<rparr>\<rparr>) else (False, w))"

text \<open>How many codes are left, whether the hash was there, whether the write succeeded.\<close>

definition RemoveRecoveryCode :: "bool \<Rightarrow> string \<Rightarrow> web \<Rightarrow> (nat \<times> bool \<times> bool) \<times> web" where
  "RemoveRecoveryCode saved hash w =
     (let codes = crRecovery (wbCreds w) in
      if hash \<notin> set codes then ((length codes, False, True), w)
      else if \<not> saved then ((length codes - 1, True, False), w)
      else ((length codes - 1, True, True), w\<lparr>wbCreds := (wbCreds w)\<lparr>crRecovery := remove1 hash codes\<rparr>\<rparr>))"

text \<open>
  \<open>saveLocked\<close> of the passkey store: an unreadable file is moved aside first.  The set in memory is
  changed before the write and stays changed when it fails.
\<close>

definition passkeys_save :: "bool \<Rightarrow> bool \<Rightarrow> web \<Rightarrow> bool \<times> web" where
  "passkeys_save renamed written w =
     (if crCorrupt (wbCreds w) \<and> \<not> renamed then (False, w)
      else (written, w\<lparr>wbCreds := (wbCreds w)\<lparr>crCorrupt := False\<rparr>\<rparr>))"

definition passkeys_add :: "bool \<Rightarrow> bool \<Rightarrow> string \<Rightarrow> web \<Rightarrow> bool \<times> web" where
  "passkeys_add renamed written pid w =
     passkeys_save renamed written
       (w\<lparr>wbCreds := (wbCreds w)\<lparr>crPasskeys := List.insert pid (crPasskeys (wbCreds w))\<rparr>\<rparr>)"

definition passkeys_remove :: "bool \<Rightarrow> bool \<Rightarrow> string \<Rightarrow> web \<Rightarrow> bool \<times> web" where
  "passkeys_remove renamed written pid w =
     passkeys_save renamed written
       (w\<lparr>wbCreds := (wbCreds w)\<lparr>crPasskeys := removeAll pid (crPasskeys (wbCreds w))\<rparr>\<rparr>)"

text \<open>
  The counter a verified assertion moved, for a passkey that is still enrolled; the counter itself is
  inside the library's credential.  A failed write is only logged.
\<close>

definition passkeys_updateCounter :: "bool \<Rightarrow> bool \<Rightarrow> string \<Rightarrow> web \<Rightarrow> web" where
  "passkeys_updateCounter renamed written pid w =
     (if pid \<notin> set (crPasskeys (wbCreds w)) then w else snd (passkeys_save renamed written w))"

section \<open>Sessions\<close>

definition SessionLifetime :: int where "SessionLifetime = 600"
definition revocationRetention :: int where "revocationRetention = (SessionLifetime + 1) * second"

text \<open>The age a store enforces, in whole seconds.\<close>

definition fresh_cookie :: "int \<Rightarrow> web \<Rightarrow> 'v cookie \<Rightarrow> bool" where
  "fresh_cookie age w c \<longleftrightarrow> unix (wbNow w) - ckStamp c \<le> age"

definition signed_now :: "web \<Rightarrow> 'v \<Rightarrow> 'v cookie" where
  "signed_now w v = \<lparr> ckStamp = unix (wbNow w), ckValue = v \<rparr>"

definition session_Get :: "web \<Rightarrow> web_session cookie option \<Rightarrow> web_session" where
  "session_Get w oc =
     (case oc of None \<Rightarrow> no_session | Some c \<Rightarrow> if fresh_cookie SessionLifetime w c then ckValue c else no_session)"

definition revokedLocked :: "web \<Rightarrow> string \<Rightarrow> bool" where
  "revokedLocked w i =
     (if i = [] then False
      else case wbRevoked w i of None \<Rightarrow> False | Some at \<Rightarrow> wbNow w - at \<le> revocationRetention)"

definition revokeSession :: "string \<Rightarrow> web \<Rightarrow> web" where
  "revokeSession i w =
     (if i = [] then w
      else
        let kept = (\<lambda>s. case wbRevoked w s of
                      None \<Rightarrow> None
                    | Some at \<Rightarrow> if wbNow w - at > revocationRetention then None else Some at) in
        w\<lparr>wbRevoked := kept(i \<mapsto> wbNow w), wbOut := (wbOut w)(i \<mapsto> wbNow w)\<rparr>)"

definition drop_revoked :: "web \<Rightarrow> web_session \<Rightarrow> web_session" where
  "drop_revoked w s = (if revokedLocked w (wsID s) then s\<lparr>wsUser := [], wsID := []\<rparr> else s)"

definition session_Save :: "web_session \<Rightarrow> web \<Rightarrow> web_session \<times> web" where
  "session_Save s w =
     (let s' = drop_revoked w s in (s', w\<lparr>wbSessions := signed_now w s' # wbSessions w\<rparr>))"

definition sessionForWrite :: "web \<Rightarrow> web_session \<Rightarrow> web_session" where
  "sessionForWrite w s = drop_revoked w s"

definition setFlash :: "web_session \<Rightarrow> web \<Rightarrow> web_session \<times> web" where
  "setFlash s w = session_Save (sessionForWrite w s) w"

definition sessionUser :: "crypto \<Rightarrow> web \<Rightarrow> web_session \<Rightarrow> string" where
  "sessionUser cy w s =
     (if wsUser s = [] then []
      else if revokedLocked w (wsID s) then []
      else if wsCred s \<noteq> currentCredential cy w then []
      else wsUser s)"

text \<open>\<open>rid\<close> is what \<open>newSessionID\<close> returned, empty when the random source failed.\<close>

definition grantSession :: "crypto \<Rightarrow> string \<Rightarrow> string \<Rightarrow> web_session \<Rightarrow> web \<Rightarrow> web_session \<times> web" where
  "grantSession cy rid username s w =
     session_Save (s\<lparr>wsUser := username, wsCred := currentCredential cy w, wsID := rid\<rparr>)
       (w\<lparr>wbIDs := rid # wbIDs w\<rparr>)"

definition restampSession :: "crypto \<Rightarrow> web_session \<Rightarrow> web \<Rightarrow> web_session \<times> web" where
  "restampSession cy s w = session_Save (s\<lparr>wsCred := currentCredential cy w\<rparr>) w"

definition renewSession :: "web_session \<Rightarrow> web \<Rightarrow> web_session \<times> web" where
  "renewSession s w = session_Save s w"

definition gate_paths :: "string list" where
  "gate_paths =
     [''/password'', ''/password/2fa/begin'', ''/password/2fa/confirm'', ''/password/2fa/enrol-unverified'',
      ''/password/2fa/disable'', ''/password/2fa/recovery'', ''/password/passkey/begin'',
      ''/password/passkey/finish'', ''/password/passkey/remove'', ''/logout'']"

text \<open>Whether \<open>RequireSecondFactor\<close> passes the request on.\<close>

definition RequireSecondFactor :: "string \<Rightarrow> web \<Rightarrow> bool" where
  "RequireSecondFactor path w \<longleftrightarrow> crDemo (wbCreds w) \<or> hasSecondFactor w \<or> path \<in> set gate_paths"

text \<open>\<open>CommandTimeout\<close> of an import and of a validation are the same \<open>NftTimeout\<close> and margin.\<close>

definition writeTimeout :: int where
  "writeTimeout = (30 + 5) * second + 10 * second"

section \<open>Between password and factor\<close>

definition pendingLifetime :: int where "pendingLifetime = 180"
definition pendingMaxAttempts :: nat where "pendingMaxAttempts = 3"

definition pending_Get :: "web \<Rightarrow> pending_login cookie option \<Rightarrow> pending_login option" where
  "pending_Get w oc =
     (case oc of None \<Rightarrow> None | Some c \<Rightarrow> if fresh_cookie pendingLifetime w c then Some (ckValue c) else None)"

definition pendingAttemptCount :: "web \<Rightarrow> string \<Rightarrow> nat" where
  "pendingAttemptCount w i =
     (if i = [] then 0
      else case wbAttempts w i of
        None \<Rightarrow> 0
      | Some (n, begun) \<Rightarrow> if wbNow w - begun > pendingLifetime * second then 0 else n)"

definition readPending :: "web \<Rightarrow> pending_login cookie option \<Rightarrow> pending_login option" where
  "readPending w oc =
     (case pending_Get w oc of
        None \<Rightarrow> None
      | Some p \<Rightarrow>
          if plUser p = [] \<or> plCredFP p = [] \<or> plID p = [] \<or> plIssuedAt p = 0 then None
          else if wbNow w - plIssuedAt p * second > pendingLifetime * second then None
          else if pendingAttemptCount w (plID p) \<ge> pendingMaxAttempts then None
          else Some p)"

text \<open>A new state with the identifier \<open>rid\<close>; refused when the random source failed.\<close>

definition writePending :: "string \<Rightarrow> string \<Rightarrow> string \<Rightarrow> web \<Rightarrow> bool \<times> web" where
  "writePending rid user credFP w =
     (if rid = [] then (False, w)
      else
        let p = \<lparr> plUser = user, plCredFP = credFP, plID = rid, plIssuedAt = unix (wbNow w) \<rparr> in
        (True, w\<lparr>wbIDs := rid # wbIDs w, wbPending := signed_now w p # wbPending w\<rparr>))"

text \<open>The cookie that ends the state in the browser carries its values, signed again.\<close>

definition clearPending :: "pending_login cookie option \<Rightarrow> web \<Rightarrow> web" where
  "clearPending oc w =
     (case pending_Get w oc of None \<Rightarrow> w | Some p \<Rightarrow> w\<lparr>wbPending := signed_now w p # wbPending w\<rparr>)"

definition pendingForRequest :: "crypto \<Rightarrow> web \<Rightarrow> pending_login cookie option \<Rightarrow> pending_login option" where
  "pendingForRequest cy w oc =
     (case readPending w oc of
        None \<Rightarrow> None
      | Some p \<Rightarrow> if plCredFP p \<noteq> currentCredential cy w then None else Some p)"

definition reservePendingAttempt :: "string \<Rightarrow> web \<Rightarrow> (nat \<times> bool) \<times> web" where
  "reservePendingAttempt i w =
     (if i = [] then ((0, False), w)
      else
        let kept = (\<lambda>s. case wbAttempts w s of
                      None \<Rightarrow> None
                    | Some (n, begun) \<Rightarrow> if wbNow w - begun > pendingLifetime * second then None else Some (n, begun));
            (n, begun) = (case kept i of None \<Rightarrow> (0, wbNow w) | Some c \<Rightarrow> c) in
        if n \<ge> pendingMaxAttempts then ((n, False), w\<lparr>wbAttempts := kept\<rparr>)
        else ((n + 1, True),
              w\<lparr>wbAttempts := kept(i \<mapsto> (n + 1, begun))\<rparr>))"

definition spendPendingAttempt ::
  "crypto \<Rightarrow> pending_login cookie option \<Rightarrow> web \<Rightarrow> (pending_login \<times> nat) option \<times> web" where
  "spendPendingAttempt cy oc w =
     (case pendingForRequest cy w oc of
        None \<Rightarrow> (None, w)
      | Some p \<Rightarrow>
          (case reservePendingAttempt (plID p) w of
             ((n, ok), w') \<Rightarrow> (if ok then Some (p, n) else None, w')))"

section \<open>Replay guards\<close>

text \<open>\<open>totpReplay.accept\<close>; \<open>written\<close> is whether the file could be written.\<close>

definition replay_accept :: "bool \<Rightarrow> 64 word \<Rightarrow> web \<Rightarrow> bool \<times> web" where
  "replay_accept written st w =
     (if st \<le> wbStep w then (False, w)
      else (True, w\<lparr>wbStep := st, wbStepFile := if written then Some st else wbStepFile w,
                    wbSteps := st # wbSteps w\<rparr>))"

definition acceptTOTP :: "crypto \<Rightarrow> bool \<Rightarrow> string \<Rightarrow> web \<Rightarrow> bool \<times> web" where
  "acceptTOTP cy written code w =
     (if crTOTP (wbCreds w) = [] then (False, w)
      else
        case decodeTOTPSecret (crTOTP (wbCreds w)) of
          None \<Rightarrow> (False, w)
        | Some raw \<Rightarrow>
            (case matchTOTP (cyMac cy) raw (wbNow w) code totpWindowLogin of
               None \<Rightarrow> (False, w)
             | Some (st, _) \<Rightarrow> replay_accept written st w))"

definition spendChallenge :: "string \<Rightarrow> int \<Rightarrow> web \<Rightarrow> bool \<times> web" where
  "spendChallenge challenge ttl w =
     (if challenge = [] then (False, w)
      else
        let kept = (\<lambda>c. case wbSpent w c of None \<Rightarrow> None | Some e \<Rightarrow> if wbNow w > e then None else Some e) in
        if kept challenge \<noteq> None then (False, w\<lparr>wbSpent := kept\<rparr>)
        else (True, w\<lparr>wbSpent := kept(challenge \<mapsto> wbNow w + ttl), wbSpends := challenge # wbSpends w\<rparr>))"

text \<open>The two ceremonies keep their challenge in a cookie of their own.\<close>

definition passkeyPendingLifetime :: int where "passkeyPendingLifetime = 300"
definition loginPasskeyPendingLifetime :: int where "loginPasskeyPendingLifetime = 60"

definition challenge_Get :: "int \<Rightarrow> web \<Rightarrow> string cookie option \<Rightarrow> string option" where
  "challenge_Get age w oc =
     (case oc of
        None \<Rightarrow> None
      | Some c \<Rightarrow> if fresh_cookie age w c \<and> ckValue c \<noteq> [] then Some (ckValue c) else None)"

definition writeLoginPasskeyChallenge :: "string \<Rightarrow> web \<Rightarrow> web" where
  "writeLoginPasskeyChallenge challenge w = w\<lparr>wbChallenges := signed_now w challenge # wbChallenges w\<rparr>"

definition readLoginPasskeyChallenge :: "web \<Rightarrow> string cookie option \<Rightarrow> string option" where
  "readLoginPasskeyChallenge w oc = challenge_Get loginPasskeyPendingLifetime w oc"

text \<open>As with \<open>clearPending\<close>, the cookie that ends the ceremony carries the challenge, signed again.\<close>

definition clearLoginPasskeyChallenge :: "string cookie option \<Rightarrow> web \<Rightarrow> web" where
  "clearLoginPasskeyChallenge oc w =
     (case readLoginPasskeyChallenge w oc of None \<Rightarrow> w | Some c \<Rightarrow> writeLoginPasskeyChallenge c w)"

definition writePasskeyChallenge :: "string \<Rightarrow> web \<Rightarrow> web" where
  "writePasskeyChallenge challenge w = w\<lparr>wbEnrolments := signed_now w challenge # wbEnrolments w\<rparr>"

definition readPasskeyChallenge :: "web \<Rightarrow> string cookie option \<Rightarrow> string option" where
  "readPasskeyChallenge w oc = challenge_Get passkeyPendingLifetime w oc"

definition clearPasskeyChallenge :: "string cookie option \<Rightarrow> web \<Rightarrow> web" where
  "clearPasskeyChallenge oc w =
     (case readPasskeyChallenge w oc of None \<Rightarrow> w | Some c \<Rightarrow> writePasskeyChallenge c w)"

definition passkeyUnavailableReason :: "web \<Rightarrow> string" where
  "passkeyUnavailableReason w =
     (let c = wbCreds w in
      if crDemo c then ''passkey_demo''
      else if crHostname c = [] then ''passkey_no_hostname''
      else if \<not> crACME c \<and> \<not> crCustomCert c then ''passkey_self_signed''
      else [])"

section \<open>Secrets waiting for confirmation\<close>

definition pendingSecretLifetime :: int where "pendingSecretLifetime = 10 * 60 * second"

definition pendingSecretStore :: "string \<Rightarrow> string \<Rightarrow> web \<Rightarrow> web" where
  "pendingSecretStore sid secret w =
     (if sid = [] then w
      else
        let kept = (\<lambda>s. case wbSecrets w s of
                      None \<Rightarrow> None
                    | Some p \<Rightarrow> if wbNow w - psIssued p > pendingSecretLifetime then None else Some p) in
        w\<lparr>wbSecrets := kept(sid \<mapsto> \<lparr> psSecret = secret, psIssued = wbNow w, psFailed = False \<rparr>)\<rparr>)"

definition pendingSecretLookup :: "web \<Rightarrow> string \<Rightarrow> (string \<times> bool) option" where
  "pendingSecretLookup w sid =
     (if sid = [] then None
      else case wbSecrets w sid of
        None \<Rightarrow> None
      | Some p \<Rightarrow>
          if wbNow w - psIssued p > pendingSecretLifetime then None else Some (psSecret p, psFailed p))"

definition pendingSecretClear :: "string \<Rightarrow> web \<Rightarrow> web" where
  "pendingSecretClear sid w = w\<lparr>wbSecrets := (wbSecrets w)(sid := None)\<rparr>"

definition pendingSecretMarkFailed :: "string \<Rightarrow> web \<Rightarrow> web" where
  "pendingSecretMarkFailed sid w =
     (if sid = [] then w
      else case wbSecrets w sid of
        None \<Rightarrow> w
      | Some p \<Rightarrow>
          if wbNow w - psIssued p > pendingSecretLifetime then w
          else w\<lparr>wbSecrets := (wbSecrets w)(sid \<mapsto> p\<lparr>psFailed := True\<rparr>)\<rparr>)"

section \<open>Signing in and out\<close>

datatype response = Redirect string | Page string | Status nat

text \<open>\<open>waited\<close> is false when no hashing slot came free in time.\<close>

definition handleLoginPOST ::
  "crypto \<Rightarrow> bool \<Rightarrow> string \<Rightarrow> string \<Rightarrow> string \<Rightarrow> web_session \<Rightarrow> web \<Rightarrow> response \<times> web" where
  "handleLoginPOST cy waited rid username password s w =
     (if IsFirstRun w then (Redirect ''/firstrun'', w)
      else if \<not> waited then (Status 503, w)
      else if username \<noteq> crUsername (wbCreds w) \<or> \<not> cyVerify cy password (crPassword (wbCreds w))
      then (Redirect ''/login'', snd (setFlash s w))
      else if \<not> hasSecondFactor w then (Redirect ''/dashboard'', snd (grantSession cy rid username s w))
      else
        (case writePending rid username (currentCredential cy w) w of
           (True, w') \<Rightarrow> (Redirect ''/login/verify'', w')
         | (False, w') \<Rightarrow> (Redirect ''/login'', snd (setFlash s w'))))"

definition handleLoginDemo :: "crypto \<Rightarrow> string \<Rightarrow> web_session \<Rightarrow> web \<Rightarrow> response \<times> web" where
  "handleLoginDemo cy rid s w =
     (if \<not> crDemo (wbCreds w) then (Status 404, w)
      else (Redirect ''/dashboard'', snd (grantSession cy rid (crUsername (wbCreds w)) s w)))"

definition failVerifyAttempt ::
  "pending_login cookie option \<Rightarrow> nat \<Rightarrow> web_session \<Rightarrow> web \<Rightarrow> response \<times> web" where
  "failVerifyAttempt oc n s w =
     (if n \<ge> pendingMaxAttempts then (Redirect ''/login'', snd (setFlash s (clearPending oc w)))
      else (Redirect ''/login/verify'', snd (setFlash s w)))"

definition sign_in ::
  "crypto \<Rightarrow> string \<Rightarrow> string \<Rightarrow> web_session \<Rightarrow> pending_login cookie option \<Rightarrow> web \<Rightarrow> response \<times> web" where
  "sign_in cy rid user s oc w = (Redirect ''/dashboard'', snd (grantSession cy rid user s (clearPending oc w)))"

text \<open>Only a record: a code or an assertion is about to be judged for the intermediate state \<open>i\<close>.\<close>

definition looked_at :: "string \<Rightarrow> web \<Rightarrow> web" where
  "looked_at i w = w\<lparr>wbChecks := (wbChecks w)(i := wbChecks w i + 1)\<rparr>"

definition handleLoginVerifyPOST ::
  "crypto \<Rightarrow> string \<Rightarrow> string \<Rightarrow> bool \<Rightarrow> bool \<Rightarrow> web_session \<Rightarrow> pending_login cookie option \<Rightarrow> web \<Rightarrow>
    response \<times> web" where
  "handleLoginVerifyPOST cy rid code0 written saved s oc w =
     (case spendPendingAttempt cy oc w of
        (None, w1) \<Rightarrow> (Redirect ''/login'', clearPending oc w1)
      | (Some (p, n), w1) \<Rightarrow>
          let code = trim_space code0;
              (ok, w2) = (if isTOTPShape code then acceptTOTP cy written code (looked_at (plID p) w1)
                          else (False, w1)) in
          if ok then sign_in cy rid (plUser p) s oc w2
          else if \<not> isRecoveryShape code then failVerifyAttempt oc n s w2
          else
            let w3 = looked_at (plID p) w2 in
            (case matchRecoveryCode (cyVerify cy) code (crRecovery (wbCreds w3)) of
               None \<Rightarrow> failVerifyAttempt oc n s w3
             | Some i \<Rightarrow>
                 (case RemoveRecoveryCode saved (crRecovery (wbCreds w3) ! i) w3 of
                    ((left, removed, stored), w4) \<Rightarrow>
                      if \<not> removed then failVerifyAttempt oc n s w4
                      else (case setFlash s w4 of (s', w5) \<Rightarrow> sign_in cy rid (plUser p) s' oc w5))))"

definition handleLogout :: "web_session \<Rightarrow> web \<Rightarrow> response \<times> web" where
  "handleLogout s w =
     (let w' = (if wsID s \<noteq> [] then revokeSession (wsID s) w else w)
      in (Redirect ''/login'', snd (session_Save s w')))"

text \<open>\<open>begun\<close> is whether the library made a challenge.\<close>

definition handleLoginPasskeyBegin ::
  "crypto \<Rightarrow> bool \<Rightarrow> string \<Rightarrow> pending_login cookie option \<Rightarrow> web \<Rightarrow> response \<times> web" where
  "handleLoginPasskeyBegin cy begun challenge oc w =
     (if pendingForRequest cy w oc = None then (Redirect ''/login'', w)
      else if passkeyUnavailableReason w \<noteq> [] \<or> \<not> begun then (Status 412, w)
      else (Page ''assertion'', writeLoginPasskeyChallenge challenge w))"

text \<open>
  What the library makes of the assertion in the request: the text does not parse, or it is judged
  and fails, verifies with a counter that did not advance, or verifies for a credential, with what
  becomes of the file the counter is then written to.
\<close>

datatype assertion = Malformed | NotVerified | Cloned | Verified string bool bool

definition handleLoginPasskeyFinish ::
  "crypto \<Rightarrow> string \<Rightarrow> assertion \<Rightarrow> web_session \<Rightarrow> pending_login cookie option \<Rightarrow> string cookie option \<Rightarrow> web \<Rightarrow>
    response \<times> web" where
  "handleLoginPasskeyFinish cy rid asserted s oc cc w =
     (case spendPendingAttempt cy oc w of
        (None, w1) \<Rightarrow> (Redirect ''/login'', clearPending oc w1)
      | (Some (p, n), w1) \<Rightarrow>
          let sd = readLoginPasskeyChallenge w1 cc; w2 = clearLoginPasskeyChallenge cc w1 in
          (case sd of
             None \<Rightarrow> failVerifyAttempt oc n s w2
           | Some challenge \<Rightarrow>
               (case spendChallenge challenge (loginPasskeyPendingLifetime * second) w2 of
                  (False, w3) \<Rightarrow> failVerifyAttempt oc n s w3
                | (True, w3) \<Rightarrow>
                    if crHostname (wbCreds w3) = [] then failVerifyAttempt oc n s w3
                    else (case asserted of
                            Malformed \<Rightarrow> failVerifyAttempt oc n s w3
                          | Verified pid renamed written \<Rightarrow>
                              sign_in cy rid (plUser p) s oc
                                (passkeys_updateCounter renamed written pid (looked_at (plID p) w3))
                          | _ \<Rightarrow> failVerifyAttempt oc n s (looked_at (plID p) w3)))))"

section \<open>Changing credentials\<close>

text \<open>
  Handlers of an authenticated request: its session, the state, and both afterwards.  Showing a
  page may save the session once more; that is a step of its own below.
\<close>

type_synonym auth_handler = "web_session \<Rightarrow> web \<Rightarrow> response \<times> web_session \<times> web"

definition flashed :: "string \<Rightarrow> auth_handler" where
  "flashed target s w = (Redirect target, setFlash s w)"

definition flashed_page :: auth_handler where
  "flashed_page s w = (Page ''/password'', setFlash s w)"

definition restamped :: "crypto \<Rightarrow> auth_handler" where
  "restamped cy s w = (case restampSession cy s w of (s', w') \<Rightarrow> flashed_page s' w')"

definition checkCurrentPassword :: "crypto \<Rightarrow> string \<Rightarrow> web \<Rightarrow> bool" where
  "checkCurrentPassword cy current w = cyVerify cy current (crPassword (wbCreds w))"

definition handlePasswordPOST ::
  "crypto \<Rightarrow> string \<Rightarrow> string \<Rightarrow> string \<Rightarrow> string option \<Rightarrow> bool \<Rightarrow> auth_handler" where
  "handlePasswordPOST cy current newPw confirm hashed saved s w =
     (if crDemo (wbCreds w) then flashed ''/password'' s w
      else if \<not> cyVerify cy current (crPassword (wbCreds w)) then flashed ''/password'' s w
      else if newPw \<noteq> confirm then flashed ''/password'' s w
      else if passwordPolicyError (cyTables cy) newPw \<noteq> [] then flashed ''/password'' s w
      else
        (case hashed of
           None \<Rightarrow> flashed ''/password'' s w
         | Some hash \<Rightarrow>
             (case SaveCredentials saved (crUsername (wbCreds w)) hash w of
                (False, w') \<Rightarrow> flashed ''/password'' s w'
              | (True, w') \<Rightarrow> (case restampSession cy s w' of (s', w'') \<Rightarrow> flashed ''/password'' s' w''))))"

definition handle2FABegin :: "crypto \<Rightarrow> string \<Rightarrow> byte list option \<Rightarrow> auth_handler" where
  "handle2FABegin cy current random s w =
     (if \<not> checkCurrentPassword cy current w then flashed ''/password'' s w
      else
        (case newTOTPSecret random of
           None \<Rightarrow> flashed ''/password'' s w
         | Some secret \<Rightarrow> (Page ''/password'', s, pendingSecretStore (wsID s) secret w)))"

text \<open>\<open>minted\<close> is what \<open>newRecoveryCodes\<close> returned, should the handler call it.\<close>

definition handle2FAConfirm ::
  "crypto \<Rightarrow> string \<Rightarrow> (string list \<times> string list) option \<Rightarrow> bool \<Rightarrow> auth_handler" where
  "handle2FAConfirm cy code minted saved s w =
     (case pendingSecretLookup w (wsID s) of
        None \<Rightarrow> flashed ''/password'' s w
      | Some (secret, _) \<Rightarrow>
          (case decodeTOTPSecret secret of
             None \<Rightarrow> flashed ''/password'' s w
           | Some raw \<Rightarrow>
               let wasFirstFactor = (factorCount w = 0) in
               (case matchTOTP (cyMac cy) raw (wbNow w) (trim_space code) totpWindowEnrol of
                  None \<Rightarrow> flashed_page s (pendingSecretMarkFailed (wsID s) w)
                | Some (_, offset) \<Rightarrow>
                    if offset < - totpWindowLogin \<or> offset > totpWindowLogin
                    then flashed_page s (pendingSecretMarkFailed (wsID s) w)
                    else
                      let mint = wasFirstFactor \<and> crRecovery (wbCreds w) = [] in
                      if mint \<and> minted = None then flashed ''/password'' s w
                      else
                        let hashes = (if mint then (case minted of None \<Rightarrow> [] | Some (_, h) \<Rightarrow> h)
                                      else crRecovery (wbCreds w)) in
                        if crDemo (wbCreds w) then flashed_page s w
                        else (case SaveTOTP saved secret hashes w of
                                (False, w') \<Rightarrow> flashed_page s w'
                              | (True, w') \<Rightarrow> restamped cy s (pendingSecretClear (wsID s) w')))))"

definition handle2FAEnrolUnverified ::
  "crypto \<Rightarrow> string \<Rightarrow> (string list \<times> string list) option \<Rightarrow> bool \<Rightarrow> auth_handler" where
  "handle2FAEnrolUnverified cy ack minted saved s w =
     (if hasSecondFactor w \<or> crDemo (wbCreds w) then (Redirect ''/password'', s, w)
      else
        (case pendingSecretLookup w (wsID s) of
           None \<Rightarrow> flashed ''/password'' s w
         | Some (secret, failed) \<Rightarrow>
             if \<not> failed \<or> ack = [] then (Page ''/password'', s, w)
             else
               (case minted of
                  None \<Rightarrow> flashed ''/password'' s w
                | Some (_, hashes) \<Rightarrow>
                    (case SaveTOTP saved secret hashes w of
                       (False, w') \<Rightarrow> flashed_page s w'
                     | (True, w') \<Rightarrow> restamped cy s (pendingSecretClear (wsID s) w')))))"

text \<open>The guards of \<open>handle2FADisable\<close>, then its write.\<close>

definition disable_write :: "crypto \<Rightarrow> bool \<Rightarrow> auth_handler" where
  "disable_write cy saved s w =
     (case SaveTOTP saved [] (crRecovery (wbCreds w)) w of
        (False, w') \<Rightarrow> flashed ''/password'' s w'
      | (True, w') \<Rightarrow> (case restampSession cy s w' of (s', w'') \<Rightarrow> flashed ''/password'' s' w''))"

definition handle2FADisable :: "crypto \<Rightarrow> string \<Rightarrow> bool \<Rightarrow> auth_handler" where
  "handle2FADisable cy current saved s w =
     (if \<not> checkCurrentPassword cy current w then flashed ''/password'' s w
      else if crDemo (wbCreds w) then flashed ''/password'' s w
      else if \<not> mayRemoveFactor w then flashed ''/password'' s w
      else disable_write cy saved s w)"

definition handle2FARecovery ::
  "crypto \<Rightarrow> string \<Rightarrow> (string list \<times> string list) option \<Rightarrow> bool \<Rightarrow> auth_handler" where
  "handle2FARecovery cy current minted saved s w =
     (if \<not> hasSecondFactor w \<and> \<not> crDemo (wbCreds w) then flashed ''/password'' s w
      else if \<not> checkCurrentPassword cy current w then flashed ''/password'' s w
      else
        (case minted of
           None \<Rightarrow> flashed ''/password'' s w
         | Some (_, hashes) \<Rightarrow>
             if crDemo (wbCreds w) then flashed_page s w
             else (case SaveRecoveryCodes saved hashes w of
                     (False, w') \<Rightarrow> flashed ''/password'' s w'
                   | (True, w') \<Rightarrow> flashed_page s w')))"

definition handlePasskeyBegin :: "crypto \<Rightarrow> string \<Rightarrow> bool \<Rightarrow> string \<Rightarrow> auth_handler" where
  "handlePasskeyBegin cy current begun challenge s w =
     (if \<not> checkCurrentPassword cy current w then flashed ''/password'' s w
      else if passkeyUnavailableReason w \<noteq> [] then (Status 412, s, w)
      else if \<not> begun then (Status 500, s, w)
      else (Page ''creation'', s, writePasskeyChallenge challenge w))"

definition maxPasskeyNameLen :: nat where "maxPasskeyNameLen = 64"

text \<open>\<open>created\<close> is the credential the library made of the response, if it verified.\<close>

definition handlePasskeyFinish ::
  "crypto \<Rightarrow> string \<Rightarrow> string option \<Rightarrow> bool \<Rightarrow> bool \<Rightarrow> (string list \<times> string list) option \<Rightarrow> bool \<Rightarrow>
    string cookie option \<Rightarrow> auth_handler" where
  "handlePasskeyFinish cy name0 created renamed written minted saved cc s w =
     (if passkeyUnavailableReason w \<noteq> [] then flashed ''/password'' s w
      else
        (case readPasskeyChallenge w cc of
           None \<Rightarrow> flashed ''/password'' s w
         | Some challenge \<Rightarrow>
             (case spendChallenge challenge (passkeyPendingLifetime * second) (clearPasskeyChallenge cc w) of
                (False, w1) \<Rightarrow> flashed ''/password'' s w1
              | (True, w1) \<Rightarrow>
                  let name = trim_space name0 in
                  if name = [] \<or> length (runes name) > maxPasskeyNameLen then flashed ''/password'' s w1
                  else
                    (case created of
                       None \<Rightarrow> flashed ''/password'' s w1
                     | Some pid \<Rightarrow>
                         let wasFirstFactor = (factorCount w1 = 0) in
                         (case passkeys_add renamed written pid w1 of
                            (False, w2) \<Rightarrow> flashed ''/password'' s w2
                          | (True, w2) \<Rightarrow>
                              let w3 = (if wasFirstFactor \<and> crRecovery (wbCreds w2) = []
                                        then (case minted of
                                                None \<Rightarrow> w2
                                              | Some (_, hashes) \<Rightarrow> snd (SaveRecoveryCodes saved hashes w2))
                                        else w2) in
                              restamped cy s w3)))))"

definition remove_write :: "crypto \<Rightarrow> bool \<Rightarrow> bool \<Rightarrow> string \<Rightarrow> auth_handler" where
  "remove_write cy renamed written pid s w =
     (case passkeys_remove renamed written pid w of
        (False, w') \<Rightarrow> flashed ''/password'' s w'
      | (True, w') \<Rightarrow> (case restampSession cy s w' of (s', w'') \<Rightarrow> flashed ''/password'' s' w''))"

text \<open>\<open>pid\<close> is the decoded identifier of the form, if it decodes.\<close>

definition handlePasskeyRemove :: "crypto \<Rightarrow> string \<Rightarrow> string option \<Rightarrow> bool \<Rightarrow> bool \<Rightarrow> auth_handler" where
  "handlePasskeyRemove cy current opid renamed written s w =
     (if \<not> checkCurrentPassword cy current w then flashed ''/password'' s w
      else if crDemo (wbCreds w) then flashed ''/password'' s w
      else if \<not> mayRemoveFactor w then flashed ''/password'' s w
      else
        (case opid of
           None \<Rightarrow> flashed ''/password'' s w
         | Some pid \<Rightarrow>
             if pid \<notin> set (crPasskeys (wbCreds w)) then flashed ''/password'' s w
             else remove_write cy renamed written pid s w))"

end
