(* ===== verification/SignInSteps.thy ===== *)
theory SignInSteps
  imports SignIn
begin

text \<open>
  The web process over time: the clock moves, strangers and operators send requests with any
  cookie that was ever signed, authenticated requests stay in flight beside them, and the process
  restarts.  Under these steps three things hold: a session that was logged out signs nobody in
  again, an intermediate state buys at most three looks at a factor, and a code is accepted once.
\<close>

section \<open>Steps\<close>

type_synonym minted_codes = "(string list \<times> string list) option"

datatype auth_action =
    ARenew | AFlash
  | APassword string string string "string option" bool
  | ABegin string "byte list option"
  | AConfirm string minted_codes bool
  | AEnrol string minted_codes bool
  | ADisable string bool
  | ARecovery string minted_codes bool
  | APasskeyBegin string bool string
  | APasskeyFinish string "string option" bool bool minted_codes bool "string cookie option"
  | APasskeyRemove string "string option" bool bool

fun act :: "crypto \<Rightarrow> auth_action \<Rightarrow> web_session \<Rightarrow> web \<Rightarrow> web_session \<times> web" where
  "act cy ARenew s w = renewSession s w"
| "act cy AFlash s w = setFlash s w"
| "act cy (APassword cur new conf h sv) s w = snd (handlePasswordPOST cy cur new conf h sv s w)"
| "act cy (ABegin cur rd) s w = snd (handle2FABegin cy cur rd s w)"
| "act cy (AConfirm code m sv) s w = snd (handle2FAConfirm cy code m sv s w)"
| "act cy (AEnrol ack m sv) s w = snd (handle2FAEnrolUnverified cy ack m sv s w)"
| "act cy (ADisable cur sv) s w = snd (handle2FADisable cy cur sv s w)"
| "act cy (ARecovery cur m sv) s w = snd (handle2FARecovery cy cur m sv s w)"
| "act cy (APasskeyBegin cur ok ch) s w = snd (handlePasskeyBegin cy cur ok ch s w)"
| "act cy (APasskeyFinish nm cr rn wr m sv cc) s w = snd (handlePasskeyFinish cy nm cr rn wr m sv cc s w)"
| "act cy (APasskeyRemove cur pid rn wr) s w = snd (handlePasskeyRemove cy cur pid rn wr s w)"

type_synonym session_cookie = "web_session cookie option"
type_synonym pending_cookie = "pending_login cookie option"

datatype web_op =
    Tick nat
  | PublicFlash session_cookie
  | LoginPOST bool string string string session_cookie
  | LoginDemo string session_cookie
  | VerifyPOST string string bool bool session_cookie pending_cookie
  | PasskeyBegin bool string pending_cookie
  | PasskeyFinish string assertion session_cookie pending_cookie "string cookie option"
  | LogoutPOST session_cookie
  | AuthBegin session_cookie
  | AuthAct nat auth_action
  | Restart "string list" bool bool

text \<open>A presented cookie is one this process's key has signed.\<close>

definition issued :: "'v cookie list \<Rightarrow> 'v cookie option \<Rightarrow> bool" where
  "issued cs oc = (case oc of None \<Rightarrow> True | Some c \<Rightarrow> c \<in> set cs)"

text \<open>The random source repeats no identifier; it may fail.\<close>

definition fresh_id :: "web \<Rightarrow> string \<Rightarrow> bool" where
  "fresh_id w rid \<longleftrightarrow> rid = [] \<or> rid \<notin> set (wbIDs w)"

fun action_cookie :: "auth_action \<Rightarrow> string cookie option" where
  "action_cookie (APasskeyFinish nm cr rn wr m sv cc) = cc"
| "action_cookie _ = None"

text \<open>
  \<open>None\<close> where the step cannot happen.  A restart keeps the credentials, reads the passkeys that are
  on disk and the last accepted step when its file can be read, and forgets the rest.
\<close>

fun web_step :: "crypto \<Rightarrow> web_op \<Rightarrow> web \<Rightarrow> web option" where
  "web_step cy (Tick d) w = Some (w\<lparr>wbNow := wbNow w + int d\<rparr>)"
| "web_step cy (PublicFlash oc) w =
     (if issued (wbSessions w) oc then Some (snd (setFlash (session_Get w oc) w)) else None)"
| "web_step cy (LoginPOST waited rid user pw oc) w =
     (if issued (wbSessions w) oc \<and> fresh_id w rid
      then Some (snd (handleLoginPOST cy waited rid user pw (session_Get w oc) w)) else None)"
| "web_step cy (LoginDemo rid oc) w =
     (if issued (wbSessions w) oc \<and> fresh_id w rid
      then Some (snd (handleLoginDemo cy rid (session_Get w oc) w)) else None)"
| "web_step cy (VerifyPOST rid code written saved oc pc) w =
     (if issued (wbSessions w) oc \<and> issued (wbPending w) pc \<and> fresh_id w rid
      then Some (snd (handleLoginVerifyPOST cy rid code written saved (session_Get w oc) pc w)) else None)"
| "web_step cy (PasskeyBegin begun challenge pc) w =
     (if issued (wbPending w) pc then Some (snd (handleLoginPasskeyBegin cy begun challenge pc w)) else None)"
| "web_step cy (PasskeyFinish rid asserted oc pc cc) w =
     (if issued (wbSessions w) oc \<and> issued (wbPending w) pc \<and> issued (wbChallenges w) cc \<and> fresh_id w rid
      then Some (snd (handleLoginPasskeyFinish cy rid asserted (session_Get w oc) pc cc w)) else None)"
| "web_step cy (LogoutPOST oc) w =
     (if issued (wbSessions w) oc then Some (snd (handleLogout (session_Get w oc) w)) else None)"
| "web_step cy (AuthBegin oc) w =
     (if issued (wbSessions w) oc \<and> sessionUser cy w (session_Get w oc) \<noteq> []
      then Some (w\<lparr>wbFlight := (wbNow w, session_Get w oc) # wbFlight w\<rparr>) else None)"
| "web_step cy (AuthAct i a) w =
     (if i < length (wbFlight w) \<and> wbNow w \<le> fst (wbFlight w ! i) + writeTimeout \<and>
         issued (wbEnrolments w) (action_cookie a)
      then (case wbFlight w ! i of
              (st, s) \<Rightarrow> (case act cy a s w of (s', w') \<Rightarrow> Some (w'\<lparr>wbFlight := (wbFlight w')[i := (st, s')]\<rparr>)))
      else None)"
| "web_step cy (Restart ids corrupt readable) w =
     Some (w\<lparr>wbCreds := (wbCreds w)\<lparr>crPasskeys := ids, crCorrupt := corrupt\<rparr>,
             wbRevoked := Map.empty, wbAttempts := Map.empty, wbSecrets := Map.empty, wbSpent := Map.empty,
             wbStep := (case wbStepFile w of Some x \<Rightarrow> if readable then x else 0 | None \<Rightarrow> 0), wbFlight := [], wbOut := Map.empty,
             wbChecks := \<lambda>_. 0, wbSpends := [], wbSteps := []\<rparr>)"

definition web_start :: "web \<Rightarrow> bool" where
  "web_start w \<longleftrightarrow>
     wbRevoked w = Map.empty \<and> wbAttempts w = Map.empty \<and> wbSecrets w = Map.empty \<and> wbSpent w = Map.empty \<and>
     wbSessions w = [] \<and> wbPending w = [] \<and> wbChallenges w = [] \<and> wbEnrolments w = [] \<and> wbFlight w = [] \<and>
     wbOut w = Map.empty \<and> wbIDs w = [] \<and> wbChecks w = (\<lambda>_. 0) \<and> wbSpends w = [] \<and> wbSteps w = []"

inductive web_reaches :: "crypto \<Rightarrow> web \<Rightarrow> bool" for cy where
  start: "web_start w \<Longrightarrow> web_reaches cy w"
| more: "web_reaches cy w \<Longrightarrow> web_step cy op w = Some w' \<Longrightarrow> web_reaches cy w'"

fun web_run :: "crypto \<Rightarrow> web_op list \<Rightarrow> web \<Rightarrow> web option" where
  "web_run cy [] w = Some w"
| "web_run cy (op # ops) w = (case web_step cy op w of None \<Rightarrow> None | Some w' \<Rightarrow> web_run cy ops w')"

lemma web_run_reaches: "web_reaches cy w \<Longrightarrow> web_run cy ops w = Some w' \<Longrightarrow> web_reaches cy w'"
  by (induction ops arbitrary: w) (auto split: option.splits intro: web_reaches.more)

section \<open>Whole seconds\<close>

lemma second_pos [simp]: "(0 :: int) < second" by (simp add: second_def)

lemma unix_bounds: "unix t * second \<le> t" "t < (unix t + 1) * second"
proof -
  show "unix t * second \<le> t" by (simp add: unix_def minus_mod_eq_div_mult [symmetric])
  have "t - unix t * second < second" by (simp add: unix_def minus_div_mult_eq_mod)
  then show "t < (unix t + 1) * second" by (simp add: distrib_right)
qed

lemma unix_mono: "t \<le> t' \<Longrightarrow> unix t \<le> unix t'"
  by (simp add: unix_def zdiv_mono1)

text \<open>A cookie stamped no later than a moment is refused for good once the retention after it is over.\<close>

lemma refused_after_retention:
  assumes "stamp \<le> unix t" "unix now - stamp \<le> SessionLifetime"
  shows "now - t \<le> revocationRetention"
proof -
  have "unix now + 1 \<le> unix t + (SessionLifetime + 1)" using assms by simp
  then have "(unix now + 1) * second \<le> (unix t + (SessionLifetime + 1)) * second"
    by (intro mult_right_mono) (simp_all add: less_imp_le)
  with unix_bounds(2) [of now] unix_bounds(1) [of t] show ?thesis
    by (simp add: revocationRetention_def distrib_right)
qed

lemma write_within_retention: "writeTimeout \<le> revocationRetention"
  by (simp add: writeTimeout_def revocationRetention_def SessionLifetime_def second_def)

section \<open>Logging out is final\<close>

text \<open>What the invariant reads of the state.\<close>

definition sess_part :: "web \<Rightarrow> int \<times> (string \<rightharpoonup> int) \<times> web_session cookie list \<times> (int \<times> web_session) list \<times>
    (string \<rightharpoonup> int) \<times> string list" where
  "sess_part w = (wbNow w, wbRevoked w, wbSessions w, wbFlight w, wbOut w, wbIDs w)"

definition pend_part :: "web \<Rightarrow> (string \<rightharpoonup> nat \<times> int) \<times> pending_login cookie list \<times> (string \<Rightarrow> nat) \<times>
    64 word \<times> 64 word list" where
  "pend_part w = (wbAttempts w, wbPending w, wbChecks w, wbStep w, wbSteps w)"

definition auth_part where "auth_part w = (sess_part w, pend_part w)"

definition known_id :: "web \<Rightarrow> string \<Rightarrow> bool" where
  "known_id w i \<longleftrightarrow> i = [] \<or> i \<in> set (wbIDs w)"

definition flight_ok :: "web \<Rightarrow> int \<times> web_session \<Rightarrow> bool" where
  "flight_ok w f \<longleftrightarrow> known_id w (wsID (snd f)) \<and> fst f \<le> wbNow w \<and> (\<forall>t. wbOut w (wsID (snd f)) = Some t \<longrightarrow> fst f \<le> t)"

definition cookie_ok :: "web \<Rightarrow> web_session cookie \<Rightarrow> bool" where
  "cookie_ok w c \<longleftrightarrow> known_id w (wsID (ckValue c)) \<and> ckStamp c \<le> unix (wbNow w) \<and>
     (\<forall>t. wbOut w (wsID (ckValue c)) = Some t \<longrightarrow> ckStamp c \<le> unix t)"

definition logout_inv :: "web \<Rightarrow> bool" where
  "logout_inv w \<longleftrightarrow>
     (\<forall>i t. wbOut w i = Some t \<longrightarrow> i \<noteq> [] \<and> i \<in> set (wbIDs w) \<and> t \<le> wbNow w \<and>
        (wbNow w - t \<le> revocationRetention \<longrightarrow> wbRevoked w i = Some t)) \<and>
     (\<forall>c\<in>set (wbSessions w). cookie_ok w c) \<and> (\<forall>f\<in>set (wbFlight w). flight_ok w f)"

text \<open>A session a handler may save: if it was logged out, it is still remembered as revoked.\<close>

definition savable :: "web \<Rightarrow> web_session \<Rightarrow> bool" where
  "savable w s \<longleftrightarrow> known_id w (wsID s) \<and> (wbOut w (wsID s) \<noteq> None \<longrightarrow> revokedLocked w (wsID s))"

text \<open>A handler's run from one session and state to another.\<close>

definition handled :: "web_session \<times> web \<Rightarrow> web_session \<times> web \<Rightarrow> bool" where
  "handled a b \<longleftrightarrow>
     (logout_inv (snd a) \<and> savable (snd a) (fst a) \<longrightarrow> logout_inv (snd b) \<and> savable (snd b) (fst b)) \<and>
     wbNow (snd b) = wbNow (snd a) \<and> wbOut (snd b) = wbOut (snd a) \<and> wbFlight (snd b) = wbFlight (snd a) \<and>
     wbIDs (snd b) = wbIDs (snd a) \<and> pend_part (snd b) = pend_part (snd a) \<and>
     wsID (fst b) \<in> {wsID (fst a), []}"

lemma handled_refl: "handled a a" by (simp add: handled_def)

lemma handled_trans: "handled a b \<Longrightarrow> handled b c \<Longrightarrow> handled a c"
  unfolding handled_def by auto

lemma handled_frame:
  assumes "auth_part w' = auth_part w" "wsID s' = wsID s"
  shows "handled (s, w) (s', w')"
  using assms
  by (simp add: handled_def auth_part_def sess_part_def logout_inv_def savable_def known_id_def cookie_ok_def flight_ok_def
      revokedLocked_def cong: option.case_cong)

lemma dropped_id: "wsID (drop_revoked w s) = (if revokedLocked w (wsID s) then [] else wsID s)"
  by (simp add: drop_revoked_def)

lemma never_out_Nil: "logout_inv w \<Longrightarrow> wbOut w [] = None"
  by (metis logout_inv_def not_Some_eq)

lemma handled_save: "handled (s, w) (session_Save s w)"
proof -
  let ?s = "drop_revoked w s" and ?w = "w\<lparr>wbSessions := signed_now w (drop_revoked w s) # wbSessions w\<rparr>"
  have "logout_inv ?w \<and> savable ?w ?s" if inv: "logout_inv w" "savable w s"
  proof
    have out: "wbOut w (wsID ?s) = None"
      using inv never_out_Nil by (auto simp: dropped_id savable_def)
    have known: "known_id w (wsID ?s)" using inv(2) by (simp add: dropped_id savable_def known_id_def)
    have "cookie_ok ?w c" if "c \<in> set (wbSessions ?w)" for c
      using that inv(1) out known by (auto simp: logout_inv_def cookie_ok_def signed_now_def known_id_def)
    with inv(1) show "logout_inv ?w" by (auto simp: logout_inv_def flight_ok_def known_id_def)
    show "savable ?w ?s" using out known by (simp add: savable_def known_id_def)
  qed
  then show ?thesis by (simp add: handled_def session_Save_def Let_def dropped_id pend_part_def)
qed

lemma handled_flash: "handled (s, w) (setFlash s w)"
proof -
  have "savable w (drop_revoked w s) \<or> \<not> savable w s \<or> \<not> logout_inv w"
    using never_out_Nil by (auto simp: savable_def dropped_id known_id_def)
  then have "handled (s, w) (drop_revoked w s, w)" by (auto simp: handled_def dropped_id)
  then show ?thesis unfolding setFlash_def sessionForWrite_def by (rule handled_trans) (rule handled_save)
qed

lemma handled_restamp: "handled (s, w) (restampSession cy s w)"
proof -
  have "handled (s, w) (s\<lparr>wsCred := currentCredential cy w\<rparr>, w)" by (rule handled_frame) simp_all
  then show ?thesis unfolding restampSession_def by (rule handled_trans) (rule handled_save)
qed

lemma handled_flashed: "handled (s, w) (snd (flashed p s w))" "handled (s, w) (snd (flashed_page s w))"
  by (simp_all add: flashed_def flashed_page_def handled_flash)

lemma handled_restamped: "handled (s, w) (snd (restamped cy s w))"
  unfolding restamped_def
  by (cases "restampSession cy s w") (use handled_restamp [of s w cy] handled_flashed handled_trans in fastforce)

lemma handled_restamp_flash:
  "restampSession cy s w = (s', w') \<Longrightarrow> handled (s, w) (snd (flashed p s' w'))"
  using handled_restamp [of s w cy] handled_flashed(1) handled_trans by metis

text \<open>What the writers of credentials, secrets and challenges leave alone.\<close>

lemma auth_part_frames [simp]:
  "auth_part (w\<lparr>wbCreds := c\<rparr>) = auth_part w" "auth_part (w\<lparr>wbSecrets := x\<rparr>) = auth_part w"
  "auth_part (pendingSecretStore i sec w) = auth_part w" "auth_part (pendingSecretClear i w) = auth_part w"
  "auth_part (pendingSecretMarkFailed i w) = auth_part w" "auth_part (writePasskeyChallenge ch w) = auth_part w"
  "auth_part (clearPasskeyChallenge cc w) = auth_part w" "auth_part (passkeys_updateCounter rn wr pid w) = auth_part w"
  "auth_part (writeLoginPasskeyChallenge ch w) = auth_part w" "auth_part (clearLoginPasskeyChallenge cc w) = auth_part w"
  by (simp_all add: auth_part_def sess_part_def pend_part_def pendingSecretStore_def pendingSecretClear_def Let_def
      pendingSecretMarkFailed_def writePasskeyChallenge_def clearPasskeyChallenge_def
      writeLoginPasskeyChallenge_def clearLoginPasskeyChallenge_def passkeys_updateCounter_def passkeys_save_def
      split: option.split)

lemma auth_part_results:
  "SaveCredentials sv u h w = (b, w') \<Longrightarrow> auth_part w' = auth_part w"
  "SaveTOTP sv t hs w = (b, w') \<Longrightarrow> auth_part w' = auth_part w"
  "SaveRecoveryCodes sv hs w = (b, w') \<Longrightarrow> auth_part w' = auth_part w"
  "RemoveRecoveryCode sv h w = (x, w') \<Longrightarrow> auth_part w' = auth_part w"
  "passkeys_add rn wr pid w = (b, w') \<Longrightarrow> auth_part w' = auth_part w"
  "passkeys_remove rn wr pid w = (b, w') \<Longrightarrow> auth_part w' = auth_part w"
  "spendChallenge ch ttl w = (b, w') \<Longrightarrow> auth_part w' = auth_part w"
  by (auto simp: auth_part_def sess_part_def pend_part_def SaveCredentials_def SaveTOTP_def SaveRecoveryCodes_def
      RemoveRecoveryCode_def Let_def passkeys_add_def passkeys_remove_def passkeys_save_def spendChallenge_def
      split: if_splits)

lemma auth_sess_part: "auth_part w' = auth_part w \<Longrightarrow> sess_part w' = sess_part w" by (simp add: auth_part_def)

lemma auth_part_codes [simp]: "auth_part (snd (SaveRecoveryCodes sv hs w)) = auth_part w"
  by (metis auth_part_results(3) prod.collapse)

lemma sess_part_clear [simp]:
  "sess_part (clearPending pc w) = sess_part w" "sess_part (clearLoginPasskeyChallenge cc w) = sess_part w"
  "sess_part (writeLoginPasskeyChallenge ch w) = sess_part w" "sess_part (looked_at i w) = sess_part w"
  "sess_part (passkeys_updateCounter rn wr pid w) = sess_part w"
  by (auto simp: clearPending_def sess_part_def looked_at_def passkeys_updateCounter_def passkeys_save_def clearLoginPasskeyChallenge_def writeLoginPasskeyChallenge_def split: option.split)

lemma sess_part_results:
  "RemoveRecoveryCode sv h w = (x, w') \<Longrightarrow> sess_part w' = sess_part w"
  "spendChallenge ch ttl w = (b, w') \<Longrightarrow> sess_part w' = sess_part w"
  "spendPendingAttempt cy pc w = (y, w') \<Longrightarrow> sess_part w' = sess_part w"
  "acceptTOTP cy wr code w = (b, w') \<Longrightarrow> sess_part w' = sess_part w"
proof -
  show "RemoveRecoveryCode sv h w = (x, w') \<Longrightarrow> sess_part w' = sess_part w"
    "spendChallenge ch ttl w = (b, w') \<Longrightarrow> sess_part w' = sess_part w"
    using auth_part_results(4,7) auth_sess_part by blast+
  show "spendPendingAttempt cy pc w = (y, w') \<Longrightarrow> sess_part w' = sess_part w"
    by (auto simp: sess_part_def spendPendingAttempt_def reservePendingAttempt_def Let_def
        split: option.splits prod.splits if_splits)
  show "acceptTOTP cy wr code w = (b, w') \<Longrightarrow> sess_part w' = sess_part w"
    by (auto simp: sess_part_def acceptTOTP_def replay_accept_def split: option.splits if_splits)
qed

lemma handled_via: "auth_part w' = auth_part w \<Longrightarrow> handled (s, w') r \<Longrightarrow> handled (s, w) r"
  using handled_trans [OF handled_frame [of w' w s s]] by simp

lemmas handled_intros =
  handled_refl handled_flash handled_flashed handled_restamped handled_via [OF _ handled_flash]
  handled_via [OF _ handled_flashed(1)] handled_via [OF _ handled_flashed(2)]
  handled_via [OF _ handled_restamped] handled_frame

lemma handled_password: "handled (s, w) (snd (handlePasswordPOST cy cur new conf h sv s w))"
  unfolding handlePasswordPOST_def
  by (auto split: option.splits prod.splits bool.splits intro: handled_intros
      dest!: auth_part_results handled_restamp_flash intro: handled_via)

lemma handled_2fa:
  "handled (s, w) (snd (handle2FABegin cy cur rd s w))"
  "handled (s, w) (snd (handle2FAEnrolUnverified cy ack m sv s w))"
  "handled (s, w) (snd (handle2FARecovery cy cur m sv s w))"
  unfolding handle2FABegin_def handle2FAEnrolUnverified_def handle2FARecovery_def
  by (auto split: option.splits prod.splits bool.splits intro!: handled_intros
      dest!: auth_part_results)

lemma handled_confirm: "handled (s, w) (snd (handle2FAConfirm cy code m sv s w))"
  unfolding handle2FAConfirm_def Let_def
  by (auto split: option.splits prod.splits bool.splits intro!: handled_intros dest!: auth_part_results)

lemma handled_writes:
  "handled (s, w) (snd (disable_write cy sv s w))" "handled (s, w) (snd (remove_write cy rn wr pid s w))"
  unfolding disable_write_def remove_write_def
  by (auto split: prod.splits bool.splits intro: handled_intros handled_via
      dest!: auth_part_results handled_restamp_flash)

lemma handled_removals:
  "handled (s, w) (snd (handle2FADisable cy cur sv s w))"
  "handled (s, w) (snd (handlePasskeyRemove cy cur opid rn wr s w))"
  unfolding handle2FADisable_def handlePasskeyRemove_def
  by (auto split: option.split intro: handled_intros handled_writes)

lemma handled_passkey_begin: "handled (s, w) (snd (handlePasskeyBegin cy cur ok ch s w))"
  by (auto simp: handlePasskeyBegin_def intro: handled_intros)

lemma handled_passkey_finish: "handled (s, w) (snd (handlePasskeyFinish cy nm cr rn wr m sv cc s w))"
  unfolding handlePasskeyFinish_def Let_def
  by (auto split: option.splits prod.splits bool.splits intro!: handled_intros dest!: auth_part_results)

lemma handled_act: "handled (s, w) (act cy a s w)"
  by (cases a)
    (simp_all add: renewSession_def handled_save handled_flash handled_password handled_2fa handled_confirm handled_removals
      handled_passkey_begin handled_passkey_finish)

lemma handled_inv:
  "handled (s, w) r \<Longrightarrow> logout_inv w \<Longrightarrow> savable w s \<Longrightarrow> logout_inv (snd r) \<and> savable (snd r) (fst r)"
  by (simp add: handled_def)

lemma handled_ids: "handled (s, w) r \<Longrightarrow> wbIDs (snd r) = wbIDs w" by (simp add: handled_def)

lemma sess_part_inv: "sess_part w' = sess_part w \<Longrightarrow> logout_inv w' = logout_inv w"
  "sess_part w' = sess_part w \<Longrightarrow> savable w' s = savable w s" "sess_part w' = sess_part w \<Longrightarrow> wbIDs w' = wbIDs w"
  by (simp_all add: sess_part_def logout_inv_def savable_def known_id_def cookie_ok_def flight_ok_def revokedLocked_def
      cong: option.case_cong)

lemma get_savable:
  assumes "logout_inv w" "issued (wbSessions w) oc"
  shows "savable w (session_Get w oc)"
proof (cases oc)
  case None
  then show ?thesis using never_out_Nil [OF assms(1)] by (simp add: session_Get_def savable_def known_id_def no_session_def)
next
  case (Some c)
  show ?thesis
  proof (cases "fresh_cookie SessionLifetime w c")
    case False
    then show ?thesis
      using Some never_out_Nil [OF assms(1)] by (simp add: session_Get_def savable_def known_id_def no_session_def)
  next
    case True
    have ok: "cookie_ok w c" using assms Some by (simp add: logout_inv_def issued_def)
    have "revokedLocked w (wsID (ckValue c))" if t: "wbOut w (wsID (ckValue c)) = Some t" for t
    proof -
      have "ckStamp c \<le> unix t" using ok t by (simp add: cookie_ok_def)
      then have near: "wbNow w - t \<le> revocationRetention"
        using refused_after_retention [of "ckStamp c" t "wbNow w"] True by (simp add: fresh_cookie_def)
      then show ?thesis using assms(1) t by (auto simp: logout_inv_def revokedLocked_def)
    qed
    with ok True Some show ?thesis by (auto simp: session_Get_def savable_def cookie_ok_def)
  qed
qed

lemma grant_inv:
  assumes "logout_inv w" "fresh_id w rid"
  shows "logout_inv (snd (grantSession cy rid u s w))"
proof -
  let ?w = "w\<lparr>wbIDs := rid # wbIDs w\<rparr>"
  let ?s = "s\<lparr>wsUser := u, wsCred := currentCredential cy w, wsID := rid\<rparr>"
  have "wbOut w rid = None"
  proof (cases "rid = []")
    case True
    then show ?thesis using never_out_Nil [OF assms(1)] by simp
  next
    case False
    then have "rid \<notin> set (wbIDs w)" using assms(2) by (simp add: fresh_id_def)
    then show ?thesis using assms(1) unfolding logout_inv_def by (metis not_Some_eq)
  qed
  then have "savable ?w ?s" by (simp add: savable_def known_id_def)
  moreover have "logout_inv ?w"
    using assms(1) by (auto simp: logout_inv_def cookie_ok_def flight_ok_def known_id_def)
  ultimately show ?thesis
    unfolding grantSession_def using handled_inv [OF handled_save [of ?s ?w]] by simp
qed

lemma sign_in_inv: "logout_inv w \<Longrightarrow> fresh_id w rid \<Longrightarrow> logout_inv (snd (sign_in cy rid u s oc w))"
  using grant_inv [of "clearPending oc w" rid] sess_part_inv [of "clearPending oc w" w]
  by (simp add: sign_in_def fresh_id_def)

lemma flash_inv: "logout_inv w \<Longrightarrow> savable w s \<Longrightarrow> logout_inv (snd (setFlash s w))"
  using handled_inv [OF handled_flash] by blast

lemma fail_inv: "logout_inv w \<Longrightarrow> savable w s \<Longrightarrow> logout_inv (snd (failVerifyAttempt oc n s w))"
  using flash_inv [of "clearPending oc w" s] sess_part_inv [of "clearPending oc w" w] flash_inv [of w s]
  by (simp add: failVerifyAttempt_def)

lemma login_inv:
  assumes "logout_inv w" "savable w s" "fresh_id w rid"
  shows "logout_inv (snd (handleLoginPOST cy waited rid u pw s w))"
    "logout_inv (snd (handleLoginDemo cy rid s w))"
proof -
  have "logout_inv (snd (writePending rid u fp w))" for fp
    using assms(1) by (auto simp: writePending_def Let_def logout_inv_def cookie_ok_def flight_ok_def known_id_def)
  then show "logout_inv (snd (handleLoginPOST cy waited rid u pw s w))"
    using assms grant_inv flash_inv
    by (auto simp: handleLoginPOST_def writePending_def Let_def split: prod.splits bool.splits if_splits)
  show "logout_inv (snd (handleLoginDemo cy rid s w))" using assms grant_inv by (simp add: handleLoginDemo_def)
qed

lemma verify_inv:
  assumes "logout_inv w" "savable w s" "fresh_id w rid"
  shows "logout_inv (snd (handleLoginVerifyPOST cy rid code wr sv s oc w))"
proof -
  obtain y w1 where y: "spendPendingAttempt cy oc w = (y, w1)" by fastforce
  note f1 = sess_part_results(3) [OF y]
  show ?thesis
  proof (cases y)
    case None
    then show ?thesis
      using y f1 assms(1) sess_part_inv(1) [of "clearPending oc w1" w] by (simp add: handleLoginVerifyPOST_def)
  next
    case (Some pn)
    obtain p n where pn: "pn = (p, n)" by fastforce
    let ?code = "trim_space code"
    obtain ok w2 where w2: "(if isTOTPShape ?code then acceptTOTP cy wr ?code (looked_at (plID p) w1) else (False, w1)) = (ok, w2)"
      by fastforce
    then have f2: "sess_part w2 = sess_part w" using f1 sess_part_results(4) by (auto split: if_splits)
    have i2: "logout_inv w2" "savable w2 s" "fresh_id w2 rid"
      using assms sess_part_inv [OF f2] by (simp_all add: fresh_id_def)
    let ?w3 = "looked_at (plID p) w2"
    have i3: "logout_inv ?w3" "savable ?w3 s"
      using assms sess_part_inv [of ?w3 w] f2 by simp_all
    have i4: "logout_inv w4" "savable w4 s" "fresh_id w4 rid"
      if "RemoveRecoveryCode sv h ?w3 = (x, w4)" for h x w4
      using assms sess_part_inv [of w4 w] sess_part_results(1) [OF that] f2 by (simp_all add: fresh_id_def)
    have i5: "logout_inv (snd (sign_in cy rid u s' oc w5))"
      if "RemoveRecoveryCode sv h ?w3 = (x, w4)" "setFlash s w4 = (s', w5)" for h x w4 s' w5 u
    proof -
      have "handled (s, w4) (s', w5)" using handled_flash [of s w4] that(2) by simp
      then have "logout_inv w5" "fresh_id w5 rid"
        using handled_inv [of s w4 "(s', w5)"] handled_ids [of s w4 "(s', w5)"] i4 [OF that(1)] by (simp_all add: fresh_id_def)
      then show ?thesis by (rule sign_in_inv)
    qed
    show ?thesis
      using y Some pn w2 sign_in_inv [OF i2(1,3)] fail_inv [OF i2(1,2)] fail_inv [OF i3] fail_inv i4 i5
      by (auto simp: handleLoginVerifyPOST_def Let_def split: option.splits prod.splits)
  qed
qed

lemma passkey_inv:
  assumes "logout_inv w" "savable w s" "fresh_id w rid"
  shows "logout_inv (snd (handleLoginPasskeyFinish cy rid asserted s oc cc w))"
proof -
  obtain y w1 where y: "spendPendingAttempt cy oc w = (y, w1)" by fastforce
  note f1 = sess_part_results(3) [OF y]
  let ?w2 = "clearLoginPasskeyChallenge cc w1"
  have ok: "logout_inv w'" "savable w' s" "fresh_id w' rid" if "sess_part w' = sess_part w" for w'
    using assms sess_part_inv [OF that] by (simp_all add: fresh_id_def)
  have i2: "logout_inv ?w2" "savable ?w2 s" by (rule ok(1,2), simp add: f1)+
  have i3: "logout_inv w3" "savable w3 s" "fresh_id w3 rid" if "spendChallenge ch ttl ?w2 = (b, w3)" for ch ttl b w3
    by (rule ok, simp add: f1 sess_part_results(2) [OF that])+
  have i4: "logout_inv (looked_at i w3)" "savable (looked_at i w3) s" if "spendChallenge ch ttl ?w2 = (b, w3)" for ch ttl b w3 i
    by (rule ok, simp add: f1 sess_part_results(2) [OF that])+
  have i5: "logout_inv (passkeys_updateCounter rn wr pid (looked_at i w3))"
    "fresh_id (passkeys_updateCounter rn wr pid (looked_at i w3)) rid"
    if "spendChallenge ch ttl ?w2 = (b, w3)" for ch ttl b w3 i rn wr pid
    by (rule ok, simp add: f1 sess_part_results(2) [OF that])+
  have i1: "logout_inv (clearPending oc w1)" by (rule ok(1)) (simp add: f1)
  show ?thesis
    using y i1 fail_inv [OF i2] fail_inv i3 i4 i5 sign_in_inv
    by (auto simp: handleLoginPasskeyFinish_def Let_def split: option.splits prod.splits bool.splits assertion.splits)
qed

lemma logout_keeps_inv:
  assumes "logout_inv w" "savable w s"
  shows "logout_inv (snd (handleLogout s w))"
proof (cases "wsID s = []")
  case True
  then show ?thesis using assms handled_inv [OF handled_save] by (simp add: handleLogout_def)
next
  case False
  let ?w = "revokeSession (wsID s) w"
  have k: "wsID s \<in> set (wbIDs w)" using assms(2) False by (simp add: savable_def known_id_def)
  have now: "(0 :: int) \<le> revocationRetention" by (simp add: revocationRetention_def SessionLifetime_def second_def)
  have "logout_inv ?w"
    using assms(1) False k now
    by (auto simp: revokeSession_def Let_def logout_inv_def cookie_ok_def flight_ok_def known_id_def)
  moreover have "savable ?w s"
    using False k now by (simp add: revokeSession_def Let_def savable_def known_id_def revokedLocked_def)
  ultimately show ?thesis using False handled_inv [OF handled_save] by (simp add: handleLogout_def)
qed

lemma begin_inv:
  assumes "logout_inv w" "issued (wbSessions w) oc" "sessionUser cy w (session_Get w oc) \<noteq> []"
  shows "logout_inv (w\<lparr>wbFlight := (wbNow w, session_Get w oc) # wbFlight w\<rparr>)"
proof -
  let ?s = "session_Get w oc"
  have "savable w ?s" by (rule get_savable [OF assms(1,2)])
  moreover have "\<not> revokedLocked w (wsID ?s)" using assms(3) by (auto simp: sessionUser_def split: if_splits)
  ultimately have "wbOut w (wsID ?s) = None" "known_id w (wsID ?s)" by (auto simp: savable_def)
  then have "flight_ok w (wbNow w, ?s)" by (simp add: flight_ok_def)
  with assms(1) show ?thesis by (auto simp: logout_inv_def cookie_ok_def flight_ok_def known_id_def)
qed

lemma act_inv:
  assumes "logout_inv w" "i < length (wbFlight w)" "wbFlight w ! i = (st, s)" "wbNow w \<le> st + writeTimeout"
    "act cy a s w = (s', w')"
  shows "logout_inv (w'\<lparr>wbFlight := (wbFlight w')[i := (st, s')]\<rparr>)"
proof -
  have f: "flight_ok w (st, s)" using assms(1-3) unfolding logout_inv_def by (metis nth_mem)
  have "revokedLocked w (wsID s)" if t: "wbOut w (wsID s) = Some t" for t
  proof -
    have "wbNow w - t \<le> revocationRetention"
      using f t assms(4) write_within_retention by (simp add: flight_ok_def)
    then show ?thesis using assms(1) t by (auto simp: logout_inv_def revokedLocked_def)
  qed
  then have "savable w s" using f by (auto simp: savable_def flight_ok_def)
  moreover have h: "handled (s, w) (s', w')" using handled_act [of s w cy a] assms(5) by simp
  ultimately have inv: "logout_inv w'" using handled_inv assms(1) by fastforce
  have "flight_ok w' (st, s')"
    using f h never_out_Nil [OF assms(1)] by (auto simp: flight_ok_def handled_def known_id_def)
  moreover have "set ((wbFlight w')[i := (st, s')]) \<subseteq> insert (st, s') (set (wbFlight w'))" by (rule set_update_subset_insert)
  ultimately have "flight_ok w' f" if "f \<in> set ((wbFlight w')[i := (st, s')])" for f
    using that inv unfolding logout_inv_def by blast
  with inv show ?thesis by (simp add: logout_inv_def cookie_ok_def flight_ok_def known_id_def)
qed

lemma step_logout_inv: "logout_inv w \<Longrightarrow> web_step cy op w = Some w' \<Longrightarrow> logout_inv w'"
proof (induction cy op w rule: web_step.induct)
  case (1 cy d w)
  then show ?case
    by (fastforce simp: logout_inv_def cookie_ok_def flight_ok_def known_id_def intro: order_trans [OF _ unix_mono])
next
  case (6 cy begun challenge pc w)
  have "logout_inv (snd (handleLoginPasskeyBegin cy begun challenge pc w))"
    using 6(1) sess_part_inv(1) [of "writeLoginPasskeyChallenge challenge w" w]
    by (simp add: handleLoginPasskeyBegin_def)
  with 6 show ?case by (simp split: if_splits)
next
  case (10 cy i a w)
  then show ?case using act_inv [of w i] by (auto split: if_splits prod.splits)
next
  case (11 cy ids corrupt readable w)
  then show ?case by (auto simp: logout_inv_def cookie_ok_def known_id_def)
qed (auto simp: get_savable login_inv verify_inv passkey_inv logout_keeps_inv begin_inv flash_inv split: if_splits)

lemma start_logout_inv: "web_start w \<Longrightarrow> logout_inv w"
  by (simp add: web_start_def logout_inv_def)

lemma reaches_logout_inv: "web_reaches cy w \<Longrightarrow> logout_inv w"
  by (induction rule: web_reaches.induct) (auto intro: start_logout_inv step_logout_inv)

lemma logged_out_refused:
  assumes "logout_inv w" "wbOut w (wsID (ckValue c)) \<noteq> None" "c \<in> set (wbSessions w)"
  shows "sessionUser cy w (session_Get w (Some c)) = []"
proof -
  have "savable w (session_Get w (Some c))" by (rule get_savable [OF assms(1)]) (simp add: issued_def assms(3))
  with assms(2) show ?thesis
    by (auto simp: session_Get_def sessionUser_def savable_def no_session_def split: if_splits)
qed

end
