(* ===== verification/SignInSafety.thy ===== *)
theory SignInSafety
  imports SignInSteps
begin

text \<open>
  The budget of the second step and the guard against replayed codes as an invariant of the web
  process, the properties of signing in and out, and runs on which they are applied.  The last
  runs exhibit two defects: a passkey challenge that is spent twice, and two removals that
  together take the last factor away.
\<close>

section \<open>The budget of an intermediate state\<close>










lemma issued_more: "issued cs oc \<Longrightarrow> set cs \<subseteq> set cs' \<Longrightarrow> issued cs' oc"
  by (auto simp: issued_def split: option.splits)

lemma clear_pending_more: "set (wbPending w) \<subseteq> set (wbPending (clearPending oc w))"
  by (auto simp: clearPending_def split: option.split)












lemma look_pending [simp]: "wbPending (looked_at i w) = wbPending w"
  by (simp add: looked_at_def)








section \<open>Removing a factor\<close>

lemma saved_creds [simp]: "wbCreds (snd (session_Save s w)) = wbCreds w" "wbCreds (snd (setFlash s w)) = wbCreds w"
  "wbCreds (snd (restampSession cy s w)) = wbCreds w" "wbCreds (snd (snd (flashed p s w))) = wbCreds w"
  by (simp_all add: session_Save_def setFlash_def restampSession_def flashed_def Let_def)

lemma restamp_creds: "restampSession cy s w = (s', w') \<Longrightarrow> wbCreds w' = wbCreds w"
  using saved_creds(3) [of cy s w] by simp

lemma disable_creds:
  "wbCreds (snd (snd (disable_write cy sv s w))) = (if sv then (wbCreds w)\<lparr>crTOTP := []\<rparr> else wbCreds w)"
  by (auto simp: disable_write_def SaveTOTP_def split: prod.split dest!: restamp_creds)

lemma remove_creds:
  "\<not> crCorrupt (wbCreds w) \<Longrightarrow>
    wbCreds (snd (snd (remove_write cy rn wr pid s w))) =
      (wbCreds w)\<lparr>crPasskeys := removeAll pid (crPasskeys (wbCreds w)), crCorrupt := False\<rparr>"
  by (auto simp: remove_write_def passkeys_remove_def passkeys_save_def split: prod.split bool.split dest!: restamp_creds)

text \<open>A handler on its own never takes the last factor away.\<close>

lemma disable_keeps_a_factor:
  assumes "hasSecondFactor w" "\<not> crDemo (wbCreds w)"
  shows "hasSecondFactor (snd (snd (handle2FADisable cy cur sv s w)))"
  using assms disable_creds [of cy sv s w]
  by (auto simp: handle2FADisable_def hasSecondFactor_def factorCount_def mayRemoveFactor_def Let_def
      saved_creds split: if_splits)

section \<open>Properties\<close>

text \<open>C17.  Logging out is final.  Whatever happens from the start of the process on, with requests in
  flight while the session is logged out, cookies saved and presented again by anybody, and however
  much time passes, no cookie that carries the identifier of a logged-out session signs anybody in.\<close>

theorem logged_out_stays_out:
  assumes "web_reaches cy w" "c \<in> set (wbSessions w)" "wbOut w (wsID (ckValue c)) \<noteq> None"
  shows "sessionUser cy w (session_Get w (Some c)) = []"
  by (rule logged_out_refused [OF reaches_logout_inv [OF assms(1)] assms(3,2)])


section \<open>Runs\<close>

definition demo_crypto :: crypto where
  "demo_crypto = \<lparr> cyVerify = (=), cySum = \<lambda>s. s, cyMac = \<lambda>_ _. replicate 20 0,
     cyTables = \<lparr> ucInvisible = \<lambda>_. False, ucDigit = \<lambda>_. False, ucSymbol = \<lambda>_. False \<rparr> \<rparr>"

definition demo_creds :: "string \<Rightarrow> string list \<Rightarrow> credentials" where
  "demo_creds totp ids = \<lparr> crUsername = ''op'', crPassword = ''pw'', crTOTP = totp, crRecovery = [],
     crPasskeys = ids, crCorrupt = False, crDemo = False, crHostname = ''fw.example'', crACME = True, crCustomCert = False \<rparr>"

definition demo_web :: "credentials \<Rightarrow> web" where
  "demo_web c = \<lparr> wbNow = 1000 * second, wbCreds = c, wbRevoked = Map.empty, wbAttempts = Map.empty,
     wbSecrets = Map.empty, wbSpent = Map.empty, wbStep = 0, wbStepFile = None, wbSessions = [], wbPending = [],
     wbChallenges = [], wbEnrolments = [], wbFlight = [], wbOut = Map.empty, wbIDs = [], wbChecks = \<lambda>_. 0,
     wbSpends = [], wbSteps = [] \<rparr>"

lemma demo_start: "web_reaches cy (demo_web c)"
  by (rule web_reaches.start) (simp add: web_start_def demo_web_def)

definition demo_fp :: "credentials \<Rightarrow> string" where
  "demo_fp c = currentCredential demo_crypto (demo_web c)"

lemma demo_fp_current: "currentCredential demo_crypto w = demo_fp (wbCreds w)" "demo_fp c \<noteq> []"
  by (simp_all add: demo_fp_def currentCredential_def credentialFingerprint_def demo_crypto_def demo_web_def)

lemma demo_verify: "cyVerify demo_crypto p h = (p = h)" by (simp add: demo_crypto_def)

lemmas sign_in_run_defs =
  issued_def fresh_id_def session_Get_def fresh_cookie_def signed_now_def no_session_def handleLoginPOST_def IsFirstRun_def
  hasSecondFactor_def factorCount_def grantSession_def session_Save_def drop_revoked_def revokedLocked_def
  handleLogout_def revokeSession_def sessionUser_def renewSession_def setFlash_def sessionForWrite_def writePending_def
  clearPending_def pending_Get_def readPending_def pendingAttemptCount_def pendingForRequest_def
  reservePendingAttempt_def spendPendingAttempt_def failVerifyAttempt_def sign_in_def spendChallenge_def
  challenge_Get_def readLoginPasskeyChallenge_def writeLoginPasskeyChallenge_def clearLoginPasskeyChallenge_def
  handleLoginPasskeyBegin_def handleLoginPasskeyFinish_def passkeyUnavailableReason_def Let_def looked_at_def
  passkeys_updateCounter_def passkeys_save_def
  SessionLifetime_def revocationRetention_def pendingLifetime_def pendingMaxAttempts_def
  loginPasskeyPendingLifetime_def writeTimeout_def demo_fp_current demo_verify demo_web_def demo_creds_def unix_def second_def

definition op_session :: "credentials \<Rightarrow> string \<Rightarrow> web_session cookie" where
  "op_session c sid = \<lparr> ckStamp = 1000, ckValue = \<lparr> wsUser = ''op'', wsCred = demo_fp c, wsID = sid \<rparr> \<rparr>"

definition logout_run :: "web_op list" where
  "logout_run =
     (let c = op_session (demo_creds [] []) ''s1'' in
      [LoginPOST True ''s1'' ''op'' ''pw'' None, AuthBegin (Some c), LogoutPOST (Some c), AuthAct 0 ARenew,
       Tick 500000000000])"

lemma logout_run_ends:
  "case web_run demo_crypto logout_run (demo_web (demo_creds [] [])) of
     None \<Rightarrow> False
   | Some w \<Rightarrow> op_session (demo_creds [] []) ''s1'' \<in> set (wbSessions w) \<and> wbOut w ''s1'' = Some (1000 * second) \<and>
       fresh_cookie SessionLifetime w (op_session (demo_creds [] []) ''s1'')"
  by (simp add: logout_run_def sign_in_run_defs op_session_def)

theorem logged_out_stays_out_witness:
  "case web_run demo_crypto logout_run (demo_web (demo_creds [] [])) of
     None \<Rightarrow> False
   | Some w \<Rightarrow> wbOut w ''s1'' = Some (1000 * second) \<and>
       fresh_cookie SessionLifetime w (op_session (demo_creds [] []) ''s1'') \<and>
       sessionUser demo_crypto w (session_Get w (Some (op_session (demo_creds [] []) ''s1''))) = []"
proof (cases "web_run demo_crypto logout_run (demo_web (demo_creds [] []))")
  case None
  then show ?thesis using logout_run_ends by simp
next
  case (Some w)
  have id: "wsID (ckValue (op_session (demo_creds [] []) ''s1'')) = ''s1''" by (simp add: op_session_def)
  note e = logout_run_ends [unfolded Some option.case]
  have "wbOut w (wsID (ckValue (op_session (demo_creds [] []) ''s1''))) \<noteq> None" using e unfolding id by simp
  from logged_out_stays_out [OF web_run_reaches [OF demo_start Some] conjunct1 [OF e] this] e Some
  show ?thesis by simp
qed

definition passkey_creds :: credentials where "passkey_creds = demo_creds [] [''k'']"

definition op_pending :: "pending_login cookie" where
  "op_pending = \<lparr> ckStamp = 1000,
     ckValue = \<lparr> plUser = ''op'', plCredFP = demo_fp passkey_creds, plID = ''p1'', plIssuedAt = 1000 \<rparr> \<rparr>"

definition challenge_at :: "int \<Rightarrow> string cookie" where
  "challenge_at t = \<lparr> ckStamp = t, ckValue = ''ch'' \<rparr>"






definition replay_run :: "web_op list" where
  "replay_run =
     [LoginPOST True ''p1'' ''op'' ''pw'' None, PasskeyBegin True ''ch'' (Some op_pending),
      PasskeyFinish ''s1'' (Verified ''k'' True True) None (Some op_pending) (Some (challenge_at 1000)),
      Tick 59000000000,
      PasskeyFinish ''s2'' (Verified ''k'' True True) None (Some op_pending) (Some (challenge_at 1000)),
      Tick 2000000000,
      PasskeyFinish ''s3'' (Verified ''k'' True True) None (Some op_pending) (Some (challenge_at 1059))]"

text \<open>
  A passkey challenge can be spent twice.  The handler answers every attempt with a cookie that
  is meant to end the ceremony but carries the challenge with a fresh signature, while the record
  of the spent challenge is kept for one lifetime of the original cookie.  An attempt shortly
  before the record expires is refused and yields a cookie that outlives the record; presented
  with it, the same assertion signs in again.
\<close>

theorem challenge_spent_twice:
  "case web_run demo_crypto replay_run (demo_web passkey_creds) of
     None \<Rightarrow> False
   | Some w \<Rightarrow> wbSpends w = [''ch'', ''ch''] \<and>
       sessionUser demo_crypto w (ckValue (hd (wbSessions w))) = ''op'' \<and> wsID (ckValue (hd (wbSessions w))) = ''s3''"
  by (simp add: replay_run_def sign_in_run_defs op_pending_def passkey_creds_def challenge_at_def)

definition two_factors :: web where "two_factors = demo_web (demo_creds ''JBSWY3DP'' [''k''])"

text \<open>
  Two removals can take the last factor away.  Each handler asks whether a factor may go and
  removes it afterwards, with nothing held in between; two of them, switching codes off and
  removing the passkey, both find two factors, both go ahead, and the account is left with none.
\<close>

theorem last_factor_removed_twice:
  "factorCount two_factors = 2 \<and>
   handle2FADisable demo_crypto ''pw'' True no_session two_factors =
     disable_write demo_crypto True no_session two_factors \<and>
   handlePasskeyRemove demo_crypto ''pw'' (Some ''k'') True True no_session two_factors =
     remove_write demo_crypto True True ''k'' no_session two_factors \<and>
   factorCount (snd (snd (remove_write demo_crypto True True ''k'' no_session
     (snd (snd (disable_write demo_crypto True no_session two_factors)))))) = 0"
proof -
  have "factorCount two_factors = 2" "checkCurrentPassword demo_crypto ''pw'' two_factors"
    "\<not> crDemo (wbCreds two_factors)" "mayRemoveFactor two_factors" "crPasskeys (wbCreds two_factors) = [''k'']"
    by (simp_all add: two_factors_def demo_web_def demo_creds_def factorCount_def checkCurrentPassword_def demo_verify
        mayRemoveFactor_def)
  moreover have "wbCreds (snd (snd (disable_write demo_crypto True no_session two_factors))) = demo_creds [] [''k'']"
    by (simp add: disable_creds two_factors_def demo_web_def demo_creds_def)
  moreover from this have "wbCreds (snd (snd (remove_write demo_crypto True True ''k'' no_session
      (snd (snd (disable_write demo_crypto True no_session two_factors)))))) = demo_creds [] []"
    by (simp add: remove_creds demo_creds_def)
  ultimately show ?thesis
    by (simp add: handle2FADisable_def handlePasskeyRemove_def factorCount_def demo_creds_def)
qed

end
