(* ===== verification/CoreSettings.thy ===== *)
theory CoreSettings
  imports FeedParse
begin

text \<open>
  \<open>internal/core/config.go\<close>, the resolution of the environment in \<open>internal/shared/env.go\<close>, and the three
  settings forms of the web process (\<open>handler_settings.go\<close>, \<open>handler_options.go\<close>, \<open>handler_system.go\<close>):
  loading, checking, reloading and saving the daemon's configuration.  The TOML library is a
  parameter.  Every configuration the daemon runs with is in range, and what is saved is what a
  restart reads.
\<close>

section \<open>The environment\<close>

datatype env_kind = EnvString | EnvBool | EnvList

text \<open>\<open>evSet\<close> is \<open>None\<close> where the setter returns an error.\<close>

record 'c env_var =
  evName :: string
  evKey :: string
  evKind :: env_kind
  evGet :: "'c \<Rightarrow> string"
  evSet :: "string \<Rightarrow> 'c \<Rightarrow> 'c option"

record provenance =
  pvName :: string
  pvEnv :: string
  pvStored :: string

definition Overridden :: "provenance \<Rightarrow> bool" where
  "Overridden p \<longleftrightarrow> pvStored p \<noteq> [] \<and> pvStored p \<noteq> pvEnv p"

definition present :: "(string \<Rightarrow> string option) \<Rightarrow> string \<Rightarrow> string option" where
  "present look name = (case look name of None \<Rightarrow> None | Some raw \<Rightarrow> if raw = [] then None else Some raw)"

text \<open>\<open>strconv.ParseBool\<close>.\<close>

definition parseBool :: "string \<Rightarrow> bool option" where
  "parseBool v =
     (if v \<in> set [''1'', ''t'', ''T'', ''TRUE'', ''true'', ''True''] then Some True
      else if v \<in> set [''0'', ''f'', ''F'', ''FALSE'', ''false'', ''False''] then Some False else None)"

definition env_value :: "env_kind \<Rightarrow> string \<Rightarrow> string option" where
  "env_value k raw =
     (if k = EnvBool then map_option (\<lambda>b. if b then ''true'' else ''false'') (parseBool raw) else Some raw)"

fun applyEnv ::
  "'c env_var list \<Rightarrow> 'c \<Rightarrow> (string \<Rightarrow> string option) \<Rightarrow> 'c \<Rightarrow> (string \<rightharpoonup> provenance) \<Rightarrow>
    string + 'c \<times> (string \<rightharpoonup> provenance)" where
  "applyEnv [] dflt look cfg prov = Inr (cfg, prov)"
| "applyEnv (v # vs) dflt look cfg prov =
     (case present look (evName v) of
        None \<Rightarrow> applyEnv vs dflt look cfg prov
      | Some raw0 \<Rightarrow>
          (case env_value (evKind v) raw0 of
             None \<Rightarrow> Inl (evName v)
           | Some raw \<Rightarrow>
               let stored = evGet v cfg;
                   is_stored = (stored \<noteq> evGet v dflt \<and> (stored \<noteq> [] \<or> evKind v = EnvList));
                   prov' = prov(evKey v \<mapsto>
                     \<lparr> pvName = evName v, pvEnv = raw, pvStored = (if is_stored then stored else []) \<rparr>) in
               if is_stored then applyEnv vs dflt look cfg prov'
               else (case evSet v raw cfg of
                       None \<Rightarrow> Inl (evName v)
                     | Some cfg' \<Rightarrow> applyEnv vs dflt look cfg' prov')))"

definition CoreEnvVars :: "core_config env_var list" where
  "CoreEnvVars =
    [\<lparr> evName = ''EASYWALL_CORE_SOCKET_PATH'', evKey = ''socket_path'', evKind = EnvString,
       evGet = ccSocketPath, evSet = \<lambda>v c. Some (c\<lparr>ccSocketPath := v\<rparr>) \<rparr>,
     \<lparr> evName = ''EASYWALL_CORE_DATA_DIR'', evKey = ''data_dir'', evKind = EnvString,
       evGet = ccDataDir, evSet = \<lambda>v c. Some (c\<lparr>ccDataDir := v\<rparr>) \<rparr>,
     \<lparr> evName = ''EASYWALL_CORE_LOG_DIR'', evKey = ''log_dir'', evKind = EnvString,
       evGet = ccLogDir, evSet = \<lambda>v c. Some (c\<lparr>ccLogDir := v\<rparr>) \<rparr>]"

section \<open>The file\<close>

text \<open>What \<open>config/easywall.toml\<close>, built into the binary, decodes to.\<close>

definition shipped_options :: firewall_options where
  "shipped_options =
    \<lparr> SSHBruteForce = True, SSHBruteForceLog = False, SSHBruteForceConnectionLimit = 5, SSHBruteForceLogLimit = 60,
      ICMPAllowEchoRequest = True, ICMPFlood = True, ICMPFloodLog = False, ICMPFloodConnectionLimit = 10,
      ICMPFloodLogLimit = 60, SYNFlood = True, SYNFloodLog = False, SYNFloodLimit = 100, PortScan = True,
      PortScanLog = False, InvalidPackets = True, InvalidPacketsLog = False, Fragments = False,
      FragmentsLog = False, Bogons = False, BogonsLog = False, ConnectionLimit = False, ConnectionLimitMax = 100,
      TCPRSTFlood = False, TCPRSTFloodLog = False, TCPRSTFloodLimit = 100, DropBroadcast = False,
      DropMulticast = False, DropAnycast = False, LogBlocked = False, LogBlockedLimit = 60, LogBlocklist = False,
      LogBlocklistLimit = 60, LogFeed = False, LogFeedLimit = 60 \<rparr>"

definition CoreDefault :: core_config where
  "CoreDefault =
    \<lparr> ccFirewall = shipped_options,
      ccAcceptance = \<lparr> acEnabled = True, acDuration = 120 \<rparr>,
      ccUsage = \<lparr> ucInterval = Some 300 \<rparr>,
      ccPacketLog = \<lparr> plGroup = Some 12227, plEntries = Some 20000, plPersist = False \<rparr>,
      ccIPv6 = \<lparr> v6Mode = ''filter'', v6Enabled = False, ICMPAllowRouterAdvertisement = True,
                 ICMPAllowNeighborAdvertisement = True \<rparr>,
      ccDocker = \<lparr> dkEnabled = True, AllowBridgeNetworks = True, CustomNetworks = [],
                   PublishedPorts = ''open'' \<rparr>,
      ccRouting = \<lparr> rtMode = ''closed'', rtNetworks = [] \<rparr>,
      ccSocketPath = ''/run/easywall/core.sock'', ccDataDir = ''/var/lib/easywall'',
      ccLogDir = ''/var/log/easywall'' \<rparr>"

text \<open>
  The library on the bytes of a file: decoding over a configuration, whether a key is there, the two
  keys of old files, and encoding.
\<close>

record 'f toml_library =
  tmDecode :: "'f \<Rightarrow> core_config \<Rightarrow> core_config option"
  tmDefines :: "'f \<Rightarrow> string \<Rightarrow> string \<Rightarrow> bool"
  tmOldLog :: "'f \<Rightarrow> (bool option \<times> int option) option"
  tmEncode :: "core_config \<Rightarrow> 'f"

datatype config_error =
    CannotRead | CannotParse | BadEnvironment string | Missing string | BadGroup int | BadIPv6Mode string
  | BadRoutingMode string | BadNetwork network_list_error | BadPublishedPorts string | NoContainerNetworks
  | LimitOutOfRange string | BadDuration int | CannotWrite

text \<open>\<open>Config\<close>, with the content of the file at \<open>configPath\<close>.\<close>

record 'f core_cfg =
  cfCore :: core_config
  cfFile :: core_config
  cfDisk :: "'f option"

definition readOldLogKeys :: "'f toml_library \<Rightarrow> 'f \<Rightarrow> core_config \<Rightarrow> core_config option" where
  "readOldLogKeys tm data c =
     (case tmOldLog tm data of
        None \<Rightarrow> None
      | Some (lg, lim) \<Rightarrow>
          let c1 = (case lg of
                      None \<Rightarrow> c
                    | Some b \<Rightarrow> if tmDefines tm data ''firewall'' ''log_blocklist_connections'' then c
                                else c\<lparr>ccFirewall := (ccFirewall c)\<lparr>LogBlocklist := b\<rparr>\<rparr>);
              c2 = (case lim of
                      None \<Rightarrow> c1
                    | Some n \<Rightarrow> if tmDefines tm data ''firewall'' ''log_blocklist_connections_limit'' then c1
                                else c1\<lparr>ccFirewall := (ccFirewall c1)\<lparr>LogBlocklistLimit := n\<rparr>\<rparr>) in
          Some c2)"

definition ApplyCoreEnv :: "(string \<Rightarrow> string option) \<Rightarrow> core_config \<Rightarrow> string + core_config \<times> (string \<rightharpoonup> provenance)" where
  "ApplyCoreEnv look cfg = applyEnv CoreEnvVars CoreDefault look cfg Map.empty"

definition LoadConfig ::
  "'f toml_library \<Rightarrow> (string \<Rightarrow> string option) \<Rightarrow> 'f option \<Rightarrow> config_error + 'f core_cfg" where
  "LoadConfig tm look disk =
     (case disk of
        None \<Rightarrow> Inl CannotRead
      | Some data \<Rightarrow>
          (case tmDecode tm data CoreDefault of
             None \<Rightarrow> Inl CannotParse
           | Some c0 \<Rightarrow>
               let c1 = (if tmDefines tm data ''ipv6'' ''enabled'' \<and> \<not> tmDefines tm data ''ipv6'' ''mode''
                         then c0\<lparr>ccIPv6 := (ccIPv6 c0)\<lparr>v6Mode := []\<rparr>\<rparr> else c0) in
               (case readOldLogKeys tm data c1 of
                  None \<Rightarrow> Inl CannotParse
                | Some c2 \<Rightarrow>
                    (case ApplyCoreEnv look c2 of
                       Inl e \<Rightarrow> Inl (BadEnvironment e)
                     | Inr (c3, _) \<Rightarrow> Inr \<lparr> cfCore = c3, cfFile = c2, cfDisk = disk \<rparr>))))"

section \<open>Checking\<close>

definition migrateIPv6Mode :: "core_config \<Rightarrow> core_config" where
  "migrateIPv6Mode c =
     (if v6Mode (ccIPv6 c) \<noteq> [] then c else c\<lparr>ccIPv6 := (ccIPv6 c)\<lparr>v6Mode := IPv6Filter\<rparr>\<rparr>)"

definition validate_limit :: "firewall_limit \<Rightarrow> firewall_options \<Rightarrow> firewall_options" where
  "validate_limit l opts =
     (if \<not> flEnabled l opts \<or> InRange l (flValue l opts) then opts
      else if flValue l opts \<le> 0 then flSetValue l (flDefault l) opts
      else flSetValue l (Clamp l (flValue l opts)) opts)"

definition checkNetworkLists :: "string list \<Rightarrow> string list \<Rightarrow> network_list_error option" where
  "checkNetworkLists docker routing =
     (case ValidateNetworkList ''docker custom network'' docker of
        Some e \<Rightarrow> Some e
      | None \<Rightarrow> ValidateNetworkList ''routing network'' routing)"

definition clamp_duration :: "core_config \<Rightarrow> core_config" where
  "clamp_duration c =
     (let d = acDuration (ccAcceptance c) in
      if ValidAcceptanceDuration d then c
      else c\<lparr>ccAcceptance := (ccAcceptance c)\<lparr>acDuration := min (max d AcceptanceDurationMin) AcceptanceDurationMax\<rparr>\<rparr>)"

definition clamp_interval :: "core_config \<Rightarrow> core_config" where
  "clamp_interval c =
     (case ucInterval (ccUsage c) of
        None \<Rightarrow> c
      | Some i \<Rightarrow> if i < 0 then c\<lparr>ccUsage := (ccUsage c)\<lparr>ucInterval := Some 0\<rparr>\<rparr> else c)"

definition clamp_entries :: "core_config \<Rightarrow> core_config" where
  "clamp_entries c =
     (case plEntries (ccPacketLog c) of
        None \<Rightarrow> c
      | Some e \<Rightarrow>
          if e < PacketLogEntriesMin \<or> e > PacketLogEntriesMax
          then c\<lparr>ccPacketLog := (ccPacketLog c)\<lparr>plEntries := Some (min (max e PacketLogEntriesMin) PacketLogEntriesMax)\<rparr>\<rparr>
          else c)"

definition clamp_limits :: "core_config \<Rightarrow> core_config" where
  "clamp_limits c = c\<lparr>ccFirewall := fold validate_limit FirewallLimits (ccFirewall c)\<rparr>"

definition default_routing :: "core_config \<Rightarrow> core_config" where
  "default_routing c =
     (if rtMode (ccRouting c) = [] then c\<lparr>ccRouting := (ccRouting c)\<lparr>rtMode := RoutingClosed\<rparr>\<rparr> else c)"

definition bad_group :: "core_config \<Rightarrow> bool" where
  "bad_group c = (case plGroup (ccPacketLog c) of None \<Rightarrow> False | Some g \<Rightarrow> g < 0 \<or> g > 65535)"

definition known_published_ports :: "docker_config \<Rightarrow> bool" where
  "known_published_ports d \<longleftrightarrow> PublishedPorts d \<in> set [[], PublishedPortsOpen, PublishedPortsFiltered]"

definition validate_networks :: "core_config \<Rightarrow> config_error + core_config" where
  "validate_networks c =
     (if \<not> ValidIPv6Mode (v6Mode (ccIPv6 c)) then Inl (BadIPv6Mode (v6Mode (ccIPv6 c)))
      else
        let c1 = default_routing c in
        if \<not> ValidRoutingMode (rtMode (ccRouting c1)) then Inl (BadRoutingMode (rtMode (ccRouting c1)))
        else (case checkNetworkLists (CustomNetworks (ccDocker c1)) (rtNetworks (ccRouting c1)) of
                Some e \<Rightarrow> Inl (BadNetwork e)
              | None \<Rightarrow>
                  if \<not> known_published_ports (ccDocker c1) then Inl (BadPublishedPorts (PublishedPorts (ccDocker c1)))
                  else if FiltersPublishedPorts (ccDocker c1) \<and> \<not> dkEnabled (ccDocker c1) then Inl NoContainerNetworks
                  else Inr c1))"

definition config_Validate :: "core_config \<Rightarrow> config_error + core_config" where
  "config_Validate c =
     (if ccSocketPath c = [] then Inl (Missing ''socket_path'')
      else if ccDataDir c = [] then Inl (Missing ''data_dir'')
      else if ccLogDir c = [] then Inl (Missing ''log_dir'')
      else
        let c1 = clamp_interval (clamp_duration c) in
        if bad_group c1 then Inl (BadGroup (the (plGroup (ccPacketLog c1))))
        else validate_networks (migrateIPv6Mode (clamp_limits (clamp_entries c1))))"

text \<open>What \<open>main\<close> does before the daemon is made.\<close>

definition boot :: "'f toml_library \<Rightarrow> (string \<Rightarrow> string option) \<Rightarrow> 'f option \<Rightarrow> config_error + 'f core_cfg" where
  "boot tm look disk =
     (case LoadConfig tm look disk of
        Inl e \<Rightarrow> Inl e
      | Inr c \<Rightarrow> (case config_Validate (cfCore c) of Inl e \<Rightarrow> Inl e | Inr k \<Rightarrow> Inr (c\<lparr>cfCore := k\<rparr>)))"

section \<open>Reloading and saving\<close>

definition Reload :: "'f toml_library \<Rightarrow> (string \<Rightarrow> string option) \<Rightarrow> 'f core_cfg \<Rightarrow> config_error option \<times> 'f core_cfg" where
  "Reload tm look c =
     (case LoadConfig tm look (cfDisk c) of
        Inl e \<Rightarrow> (Some e, c)
      | Inr fresh \<Rightarrow>
          (case config_Validate (cfCore fresh) of
             Inl e \<Rightarrow> (Some e, c)
           | Inr k \<Rightarrow>
               (None,
                c\<lparr>cfFile := (cfFile c)\<lparr>ccPacketLog := ccPacketLog (cfFile fresh)\<rparr>,
                  cfCore := (cfCore c)\<lparr>ccFirewall := ccFirewall k, ccAcceptance := ccAcceptance k, ccUsage := ccUsage k,
                                       ccIPv6 := ccIPv6 k, ccDocker := ccDocker k, ccRouting := ccRouting k\<rparr>\<rparr>)))"

definition snapshot_of :: "'f core_cfg \<Rightarrow> core_config" where
  "snapshot_of c =
     (cfCore c)\<lparr>ccSocketPath := ccSocketPath (cfFile c), ccDataDir := ccDataDir (cfFile c),
                ccLogDir := ccLogDir (cfFile c), ccPacketLog := ccPacketLog (cfFile c)\<rparr>"

text \<open>\<open>written\<close> is whether the temporary file could be made, written and renamed.\<close>

definition saveLocked :: "'f toml_library \<Rightarrow> bool \<Rightarrow> 'f core_cfg \<Rightarrow> config_error option \<times> 'f core_cfg" where
  "saveLocked tm written c =
     (if written then (None, c\<lparr>cfDisk := Some (tmEncode tm (snapshot_of c))\<rparr>) else (Some CannotWrite, c))"

definition default_modes :: "network_settings \<Rightarrow> network_settings" where
  "default_modes s =
     (let s1 = (if v6Mode (nsIPv6 s) = [] then s\<lparr>nsIPv6 := (nsIPv6 s)\<lparr>v6Mode := IPv6Filter\<rparr>\<rparr> else s) in
      if rtMode (nsRouting s1) = [] then s1\<lparr>nsRouting := (nsRouting s1)\<lparr>rtMode := RoutingClosed\<rparr>\<rparr> else s1)"

definition network_refusal :: "network_settings \<Rightarrow> config_error option" where
  "network_refusal s =
     (if \<not> ValidIPv6Mode (v6Mode (nsIPv6 s)) then Some (BadIPv6Mode (v6Mode (nsIPv6 s)))
      else if \<not> ValidRoutingMode (rtMode (nsRouting s)) then Some (BadRoutingMode (rtMode (nsRouting s)))
      else map_option BadNetwork (checkNetworkLists (CustomNetworks (nsDocker s)) (rtNetworks (nsRouting s))))"

definition SaveNetworkSettings ::
  "'f toml_library \<Rightarrow> bool \<Rightarrow> network_settings \<Rightarrow> 'f core_cfg \<Rightarrow> config_error option \<times> 'f core_cfg" where
  "SaveNetworkSettings tm written s0 c =
     (let s = default_modes s0 in
      case network_refusal s of
        Some e \<Rightarrow> (Some e, c)
      | None \<Rightarrow>
          saveLocked tm written
            (c\<lparr>cfCore := (cfCore c)\<lparr>ccIPv6 := nsIPv6 s, ccDocker := nsDocker s, ccRouting := nsRouting s\<rparr>\<rparr>))"

definition options_refusal :: "firewall_options \<Rightarrow> config_error option" where
  "options_refusal opts =
     first_err (\<lambda>l. if flEnabled l opts \<and> \<not> InRange l (flValue l opts) then Some (LimitOutOfRange (flKey l)) else None)
       FirewallLimits"

definition SaveFirewallOptions ::
  "'f toml_library \<Rightarrow> bool \<Rightarrow> firewall_options \<Rightarrow> 'f core_cfg \<Rightarrow> config_error option \<times> 'f core_cfg" where
  "SaveFirewallOptions tm written opts c =
     (case options_refusal opts of
        Some e \<Rightarrow> (Some e, c)
      | None \<Rightarrow> saveLocked tm written (c\<lparr>cfCore := (cfCore c)\<lparr>ccFirewall := opts\<rparr>\<rparr>))"

definition SaveSystemSettings ::
  "'f toml_library \<Rightarrow> bool \<Rightarrow> system_settings \<Rightarrow> 'f core_cfg \<Rightarrow> config_error option \<times> 'f core_cfg" where
  "SaveSystemSettings tm written s c =
     (if \<not> ValidAcceptanceDuration (acDuration (ssAcceptance s)) then (Some (BadDuration (acDuration (ssAcceptance s))), c)
      else saveLocked tm written (c\<lparr>cfCore := (cfCore c)\<lparr>ccAcceptance := ssAcceptance s\<rparr>\<rparr>))"

section \<open>Reading\<close>

definition NetworkSettings :: "'f core_cfg \<Rightarrow> network_settings" where
  "NetworkSettings c = \<lparr> nsIPv6 = ccIPv6 (cfCore c), nsDocker = ccDocker (cfCore c), nsRouting = ccRouting (cfCore c) \<rparr>"

definition FirewallOptions :: "'f core_cfg \<Rightarrow> firewall_options" where
  "FirewallOptions c = ccFirewall (cfCore c)"

definition SystemSettings :: "'f core_cfg \<Rightarrow> system_settings" where
  "SystemSettings c = \<lparr> ssAcceptance = ccAcceptance (cfCore c) \<rparr>"

definition AcceptanceDuration :: "'f core_cfg \<Rightarrow> int" where
  "AcceptanceDuration c = acDuration (ccAcceptance (cfCore c)) * 1000000000"

definition UsageInterval :: "'f core_cfg \<Rightarrow> int" where
  "UsageInterval c =
     (case ucInterval (ccUsage (cfCore c)) of None \<Rightarrow> UsageIntervalDefault | Some i \<Rightarrow> i) * 1000000000"

definition PacketLogGroup :: "'f core_cfg \<Rightarrow> 16 word" where
  "PacketLogGroup c =
     (case plGroup (ccPacketLog (cfCore c)) of None \<Rightarrow> of_int PacketLogGroupDefault | Some g \<Rightarrow> of_int g)"

definition PacketLogEntries :: "'f core_cfg \<Rightarrow> int" where
  "PacketLogEntries c =
     (case plEntries (ccPacketLog (cfCore c)) of None \<Rightarrow> PacketLogEntriesDefault | Some e \<Rightarrow> e)"

section \<open>The forms of the interface\<close>

type_synonym form = "(string \<times> string list) list"

definition FormValue :: "form \<Rightarrow> string \<Rightarrow> string" where
  "FormValue f k = (case map_of f k of Some (v # _) \<Rightarrow> v | _ \<Rightarrow> [])"

text \<open>A rejected line: its number and the key of the reason.\<close>

definition numbered_lines :: "string \<Rightarrow> (nat \<times> string) list" where
  "numbered_lines raw = enumerate 1 (map trim_space (split_char (CHR 0x0A) raw))"

definition comment_line :: "string \<Rightarrow> bool" where
  "comment_line entry \<longleftrightarrow> entry = [] \<or> has_prefix entry ''#''"

definition validateCIDRListEntries :: "string \<Rightarrow> (nat \<times> string) list" where
  "validateCIDRListEntries raw =
     map (\<lambda>(i, _). (i, ''validate_invalid_cidr''))
       (filter (\<lambda>(_, e). \<not> comment_line e \<and> ParseCIDR e = None) (numbered_lines raw))"

definition validateIPListEntries :: "string \<Rightarrow> (nat \<times> string) list" where
  "validateIPListEntries raw =
     concat (map (\<lambda>(i, e).
       if comment_line e then []
       else if CHR ''/'' \<in> set e then (if ParseCIDR e = None then [(i, ''validate_invalid_cidr'')] else [])
       else if ParseIP e = None then [(i, ''validate_invalid_ip'')] else []) (numbered_lines raw))"

definition parseIPList :: "string \<Rightarrow> string list" where
  "parseIPList raw = rev (dropWhile (\<lambda>s. s = []) (rev (map trim_space (split_char (CHR 0x0A) raw))))"

definition routingModeFromForm :: "string \<Rightarrow> string" where
  "routingModeFromForm v = (if ValidRoutingMode v then v else RoutingClosed)"

definition ipv6ModeFromForm :: "string \<Rightarrow> string" where
  "ipv6ModeFromForm v = (if ValidIPv6Mode v then v else IPv6Filter)"

definition settings_of_form :: "form \<Rightarrow> network_settings" where
  "settings_of_form f =
    \<lparr> nsIPv6 = \<lparr> v6Mode = ipv6ModeFromForm (FormValue f ''ipv6_mode''), v6Enabled = False,
                 ICMPAllowRouterAdvertisement = FormValue f ''icmp_allow_router_advertisement'' \<noteq> [],
                 ICMPAllowNeighborAdvertisement = FormValue f ''icmp_allow_neighbor_advertisement'' \<noteq> [] \<rparr>,
      nsDocker = \<lparr> dkEnabled = FormValue f ''docker_enabled'' \<noteq> [],
                   AllowBridgeNetworks = FormValue f ''allow_bridge_networks'' \<noteq> [],
                   CustomNetworks = parseIPList (FormValue f ''custom_networks''), PublishedPorts = [] \<rparr>,
      nsRouting = \<lparr> rtMode = routingModeFromForm (FormValue f ''routing_mode''),
                    rtNetworks = parseIPList (FormValue f ''routing_networks'') \<rparr> \<rparr>"

text \<open>Left, the message shown; right, what is sent to the core.\<close>

definition handleSettingsPOST :: "form \<Rightarrow> string + network_settings" where
  "handleSettingsPOST f =
     (if list_ex (\<lambda>k. validateCIDRListEntries (FormValue f k) \<noteq> []) [''custom_networks'', ''routing_networks'']
      then Inl ''settings_invalid_network''
      else Inr (settings_of_form f))"

definition current_name :: "string \<Rightarrow> string" where
  "current_name k = join ''_'' (map CurrentListName (split_char (CHR ''_'') k))"

text \<open>In the order the range over the form took; entries added on the way have current names.\<close>

definition currentFieldNames :: "form \<Rightarrow> form" where
  "currentFieldNames f =
     fold (\<lambda>(k, v) g. let now = current_name k in
             if now \<noteq> k \<and> map_of g now = None then g @ [(now, v)] else g) f f"

definition parseInt :: "form \<Rightarrow> string \<Rightarrow> int \<Rightarrow> int option" where
  "parseInt f k fallback =
     (let v = trim_space (FormValue f k) in if v = [] then Some fallback else atoi v)"

definition int_fields :: "(string \<times> int) list" where
  "int_fields =
    [(''ssh_brute_force_connection_limit'', 5), (''ssh_brute_force_log_limit'', 60),
     (''icmp_flood_connection_limit'', 10), (''icmp_flood_log_limit'', 60), (''syn_flood_limit'', 100),
     (''connection_limit_max'', 100), (''tcp_rst_flood_limit'', 100), (''log_blocked_connections_limit'', 60),
     (''log_blocklist_connections_limit'', 60), (''log_feed_connections_limit'', 60)]"

definition int_field :: "form \<Rightarrow> string \<Rightarrow> int" where
  "int_field f k =
     (let d = the (map_of int_fields k) in case parseInt f k d of None \<Rightarrow> d | Some n \<Rightarrow> n)"

definition options_of_form :: "form \<Rightarrow> firewall_options" where
  "options_of_form f =
    (let on = (\<lambda>k. FormValue f k \<noteq> []); n = int_field f in
    \<lparr> SSHBruteForce = on ''ssh_brute_force'', SSHBruteForceLog = on ''ssh_brute_force_log'',
      SSHBruteForceConnectionLimit = n ''ssh_brute_force_connection_limit'',
      SSHBruteForceLogLimit = n ''ssh_brute_force_log_limit'',
      ICMPAllowEchoRequest = on ''icmp_allow_echo_request'', ICMPFlood = on ''icmp_flood'',
      ICMPFloodLog = on ''icmp_flood_log'', ICMPFloodConnectionLimit = n ''icmp_flood_connection_limit'',
      ICMPFloodLogLimit = n ''icmp_flood_log_limit'', SYNFlood = on ''syn_flood'',
      SYNFloodLog = on ''syn_flood_log'', SYNFloodLimit = n ''syn_flood_limit'', PortScan = on ''port_scan'',
      PortScanLog = on ''port_scan_log'', InvalidPackets = on ''drop_invalid_packets'',
      InvalidPacketsLog = on ''drop_invalid_packets_log'', Fragments = on ''drop_fragments'',
      FragmentsLog = on ''drop_fragments_log'', Bogons = on ''bogon_filter'', BogonsLog = on ''bogon_filter_log'',
      ConnectionLimit = on ''connection_limit_per_ip'', ConnectionLimitMax = n ''connection_limit_max'',
      TCPRSTFlood = on ''tcp_rst_flood'', TCPRSTFloodLog = on ''tcp_rst_flood_log'',
      TCPRSTFloodLimit = n ''tcp_rst_flood_limit'', DropBroadcast = on ''drop_broadcast'',
      DropMulticast = on ''drop_multicast'', DropAnycast = on ''drop_anycast'',
      LogBlocked = on ''log_blocked_connections'', LogBlockedLimit = n ''log_blocked_connections_limit'',
      LogBlocklist = on ''log_blocklist_connections'', LogBlocklistLimit = n ''log_blocklist_connections_limit'',
      LogFeed = on ''log_feed_connections'', LogFeedLimit = n ''log_feed_connections_limit'' \<rparr>)"

definition handleOptionsPOST :: "form \<Rightarrow> string + firewall_options" where
  "handleOptionsPOST f0 =
     (let f = currentFieldNames f0; opts = options_of_form f;
          unread = filter (\<lambda>(k, d). parseInt f k d = None) int_fields;
          outside = filter (\<lambda>l. flEnabled l opts \<and> \<not> InRange l (flValue l opts)) FirewallLimits in
      if unread \<noteq> [] \<or> outside \<noteq> [] then Inl ''options_invalid_limit'' else Inr opts)"

definition handleSystemPOST :: "form \<Rightarrow> string + system_settings" where
  "handleSystemPOST f =
     (case atoi (FormValue f ''acceptance_duration'') of
        None \<Rightarrow> Inl ''system_invalid_duration''
      | Some dur \<Rightarrow>
          if \<not> ValidAcceptanceDuration dur then Inl ''system_invalid_duration''
          else Inr \<lparr> ssAcceptance = \<lparr> acEnabled = FormValue f ''acceptance_enabled'' = ''on'', acDuration = dur \<rparr> \<rparr>)"

end
