(* ===== verification/CoreSettingsSafety.thy ===== *)
theory CoreSettingsSafety
  imports CoreSettings
begin

text \<open>
  What the configuration of the daemon is worth: a step relation over starts, saves, reloads and
  edits of the file, the invariant of the running configuration, restarts, and the agreement of the
  interface's forms with the core.
\<close>

section \<open>Well-formed configurations\<close>

definition limits_ok :: "firewall_options \<Rightarrow> bool" where
  "limits_ok opts \<longleftrightarrow> list_all (\<lambda>l. flEnabled l opts \<longrightarrow> InRange l (flValue l opts)) FirewallLimits"

definition published_ok :: "docker_config \<Rightarrow> bool" where
  "published_ok d \<longleftrightarrow> known_published_ports d \<and> (FiltersPublishedPorts d \<longrightarrow> dkEnabled d)"

definition in_range :: "core_config \<Rightarrow> bool" where
  "in_range c \<longleftrightarrow>
     ccSocketPath c \<noteq> [] \<and> ccDataDir c \<noteq> [] \<and> ccLogDir c \<noteq> [] \<and>
     ValidAcceptanceDuration (acDuration (ccAcceptance c)) \<and>
     (\<exists>i\<ge>0. ucInterval (ccUsage c) = Some i) \<and>
     (\<exists>g. plGroup (ccPacketLog c) = Some g \<and> 0 \<le> g \<and> g \<le> 65535) \<and>
     (\<exists>e. plEntries (ccPacketLog c) = Some e \<and> PacketLogEntriesMin \<le> e \<and> e \<le> PacketLogEntriesMax) \<and>
     limits_ok (ccFirewall c) \<and> ValidIPv6Mode (v6Mode (ccIPv6 c)) \<and> ValidRoutingMode (rtMode (ccRouting c)) \<and>
     checkNetworkLists (CustomNetworks (ccDocker c)) (rtNetworks (ccRouting c)) = None"

definition pointers_set :: "core_config \<Rightarrow> bool" where
  "pointers_set c \<longleftrightarrow>
     ucInterval (ccUsage c) \<noteq> None \<and> plGroup (ccPacketLog c) \<noteq> None \<and> plEntries (ccPacketLog c) \<noteq> None"

section \<open>The limits\<close>

lemma validate_limit_keep:
  assumes "\<And>v opts. flEnabled l (flSetValue l' v opts) = flEnabled l opts"
    and "\<And>v opts. flValue l (flSetValue l' v opts) = flValue l opts"
  shows "flEnabled l (validate_limit l' opts) = flEnabled l opts" "flValue l (validate_limit l' opts) = flValue l opts"
  by (simp_all add: validate_limit_def assms)

definition apart :: "firewall_limit \<Rightarrow> firewall_limit \<Rightarrow> bool" where
  "apart l l' \<longleftrightarrow>
     (\<forall>v opts. flEnabled l (flSetValue l' v opts) = flEnabled l opts \<and> flValue l (flSetValue l' v opts) = flValue l opts)"

definition sound_limit :: "firewall_limit \<Rightarrow> bool" where
  "sound_limit l \<longleftrightarrow>
     (\<forall>v opts. flEnabled l (flSetValue l v opts) = flEnabled l opts \<and> flValue l (flSetValue l v opts) = v) \<and>
     0 < flMin l \<and> InRange l (flDefault l)"

lemma validate_limit_range:
  assumes "sound_limit l" "flEnabled l opts"
  shows "InRange l (flValue l (validate_limit l opts))"
proof -
  have "flMin l \<le> flMax l" using assms(1) by (auto simp: sound_limit_def InRange_def)
  then show ?thesis using assms by (auto simp: sound_limit_def validate_limit_def Clamp_InRange)
qed

lemma validate_limit_enabled:
  "sound_limit l \<Longrightarrow> flEnabled l (validate_limit l opts) = flEnabled l opts"
  by (simp add: sound_limit_def validate_limit_def)

lemma fold_validate_apart:
  assumes "\<forall>l'\<in>set ls. apart l l'"
  shows "flEnabled l (fold validate_limit ls opts) = flEnabled l opts \<and>
    flValue l (fold validate_limit ls opts) = flValue l opts"
  using assms
  by (induction ls arbitrary: opts) (simp_all add: apart_def validate_limit_keep)

lemma fold_validate_range:
  assumes "sorted_wrt (\<lambda>a b. apart a b) ls" "\<forall>l\<in>set ls. sound_limit l"
  shows "\<forall>l\<in>set ls. flEnabled l (fold validate_limit ls opts) \<longrightarrow> InRange l (flValue l (fold validate_limit ls opts))"
  using assms
proof (induction ls arbitrary: opts)
  case (Cons l ls)
  then have "\<forall>l'\<in>set ls. apart l l'" "sound_limit l" by auto
  with fold_validate_apart [of ls l "validate_limit l opts"] validate_limit_range [of l opts] validate_limit_enabled [of l opts] Cons
  show ?case by auto
qed simp

lemma limits_table: "sorted_wrt (\<lambda>a b. apart a b) FirewallLimits" "\<forall>l\<in>set FirewallLimits. sound_limit l"
  by (simp_all add: FirewallLimits_def limit_def apart_def sound_limit_def InRange_def)

lemma clamp_limits_ok: "limits_ok (ccFirewall (clamp_limits c))"
  using fold_validate_range [OF limits_table] by (simp add: limits_ok_def clamp_limits_def list_all_iff)

lemma clamp_limits_id: "limits_ok (ccFirewall c) \<Longrightarrow> clamp_limits c = c"
proof -
  have "\<forall>l\<in>set ls. flEnabled l opts \<longrightarrow> InRange l (flValue l opts) \<Longrightarrow> fold validate_limit ls opts = opts" for ls opts
    by (induction ls) (simp_all add: validate_limit_def)
  then show "limits_ok (ccFirewall c) \<Longrightarrow> clamp_limits c = c" by (simp add: limits_ok_def clamp_limits_def list_all_iff)
qed

section \<open>Checking\<close>

lemmas clamp_defs = clamp_duration_def clamp_interval_def clamp_entries_def migrateIPv6Mode_def default_routing_def

lemma clamp_limits_parts [simp]:
  "ccAcceptance (clamp_limits c) = ccAcceptance c" "ccUsage (clamp_limits c) = ccUsage c"
  "ccPacketLog (clamp_limits c) = ccPacketLog c" "ccIPv6 (clamp_limits c) = ccIPv6 c" "ccDocker (clamp_limits c) = ccDocker c"
  "ccRouting (clamp_limits c) = ccRouting c" "ccSocketPath (clamp_limits c) = ccSocketPath c"
  "ccDataDir (clamp_limits c) = ccDataDir c" "ccLogDir (clamp_limits c) = ccLogDir c"
  by (simp_all add: clamp_limits_def)

lemma clamp_duration_parts [simp]:
  "ValidAcceptanceDuration (acDuration (ccAcceptance (clamp_duration c)))"
  "ccUsage (clamp_duration c) = ccUsage c" "ccPacketLog (clamp_duration c) = ccPacketLog c"
  "ccIPv6 (clamp_duration c) = ccIPv6 c" "ccDocker (clamp_duration c) = ccDocker c"
  "ccRouting (clamp_duration c) = ccRouting c" "ccFirewall (clamp_duration c) = ccFirewall c"
  "ccSocketPath (clamp_duration c) = ccSocketPath c" "ccDataDir (clamp_duration c) = ccDataDir c"
  "ccLogDir (clamp_duration c) = ccLogDir c"
  by (auto simp: clamp_duration_def Let_def ValidAcceptanceDuration_def AcceptanceDurationMin_def AcceptanceDurationMax_def)

lemma clamp_interval_parts [simp]:
  "ccAcceptance (clamp_interval c) = ccAcceptance c" "ccPacketLog (clamp_interval c) = ccPacketLog c"
  "ccIPv6 (clamp_interval c) = ccIPv6 c" "ccDocker (clamp_interval c) = ccDocker c"
  "ccRouting (clamp_interval c) = ccRouting c" "ccFirewall (clamp_interval c) = ccFirewall c"
  "ccSocketPath (clamp_interval c) = ccSocketPath c" "ccDataDir (clamp_interval c) = ccDataDir c"
  "ccLogDir (clamp_interval c) = ccLogDir c"
  by (auto simp: clamp_interval_def split: option.split)

lemma clamp_interval_set:
  "ucInterval (ccUsage c) \<noteq> None \<Longrightarrow> \<exists>i\<ge>0. ucInterval (ccUsage (clamp_interval c)) = Some i"
  by (auto simp: clamp_interval_def split: option.split)

lemma clamp_entries_set:
  "plEntries (ccPacketLog c) \<noteq> None \<Longrightarrow>
   \<exists>e. plEntries (ccPacketLog (clamp_entries c)) = Some e \<and> PacketLogEntriesMin \<le> e \<and> e \<le> PacketLogEntriesMax"
  by (auto simp: clamp_entries_def PacketLogEntriesMin_def PacketLogEntriesMax_def split: option.split)

lemma clamp_entries_parts [simp]:
  "plGroup (ccPacketLog (clamp_entries c)) = plGroup (ccPacketLog c)"
  "ccAcceptance (clamp_entries c) = ccAcceptance c" "ccUsage (clamp_entries c) = ccUsage c"
  "ccIPv6 (clamp_entries c) = ccIPv6 c" "ccDocker (clamp_entries c) = ccDocker c"
  "ccRouting (clamp_entries c) = ccRouting c" "ccFirewall (clamp_entries c) = ccFirewall c"
  "ccSocketPath (clamp_entries c) = ccSocketPath c" "ccDataDir (clamp_entries c) = ccDataDir c"
  "ccLogDir (clamp_entries c) = ccLogDir c"
  by (auto simp: clamp_entries_def split: option.split)

lemma migrate_parts [simp]:
  "ccAcceptance (migrateIPv6Mode c) = ccAcceptance c" "ccUsage (migrateIPv6Mode c) = ccUsage c"
  "ccPacketLog (migrateIPv6Mode c) = ccPacketLog c" "ccDocker (migrateIPv6Mode c) = ccDocker c"
  "ccRouting (migrateIPv6Mode c) = ccRouting c" "ccFirewall (migrateIPv6Mode c) = ccFirewall c"
  "ccSocketPath (migrateIPv6Mode c) = ccSocketPath c" "ccDataDir (migrateIPv6Mode c) = ccDataDir c"
  "ccLogDir (migrateIPv6Mode c) = ccLogDir c"
  by (auto simp: migrateIPv6Mode_def)

lemma default_routing_parts [simp]:
  "ccAcceptance (default_routing c) = ccAcceptance c" "ccUsage (default_routing c) = ccUsage c"
  "ccPacketLog (default_routing c) = ccPacketLog c" "ccDocker (default_routing c) = ccDocker c"
  "ccIPv6 (default_routing c) = ccIPv6 c" "ccFirewall (default_routing c) = ccFirewall c"
  "ccSocketPath (default_routing c) = ccSocketPath c" "ccDataDir (default_routing c) = ccDataDir c"
  "ccLogDir (default_routing c) = ccLogDir c" "rtNetworks (ccRouting (default_routing c)) = rtNetworks (ccRouting c)"
  by (auto simp: default_routing_def)

lemma validate_networks_Inr:
  assumes "validate_networks c = Inr k"
  shows "k = default_routing c \<and> ValidIPv6Mode (v6Mode (ccIPv6 k)) \<and> ValidRoutingMode (rtMode (ccRouting k)) \<and>
    checkNetworkLists (CustomNetworks (ccDocker k)) (rtNetworks (ccRouting k)) = None \<and> published_ok (ccDocker k)"
  using assms by (auto simp: validate_networks_def Let_def published_ok_def split: if_splits option.splits)

lemma config_Validate_Inr:
  assumes "config_Validate c = Inr k"
  obtains d where "d = migrateIPv6Mode (clamp_limits (clamp_entries (clamp_interval (clamp_duration c))))"
    "validate_networks d = Inr k" "ccSocketPath c \<noteq> []" "ccDataDir c \<noteq> []" "ccLogDir c \<noteq> []"
    "\<not> bad_group (clamp_interval (clamp_duration c))"
  using assms by (auto simp: config_Validate_def Let_def split: if_splits)

lemma config_Validate_ok:
  assumes "config_Validate c = Inr k" "pointers_set c"
  shows "in_range k \<and> published_ok (ccDocker k) \<and> ccSocketPath k = ccSocketPath c \<and> ccDataDir k = ccDataDir c \<and>
    ccLogDir k = ccLogDir c \<and> plGroup (ccPacketLog k) = plGroup (ccPacketLog c)"
proof -
  from config_Validate_Inr [OF assms(1)] obtain d where
    d: "d = migrateIPv6Mode (clamp_limits (clamp_entries (clamp_interval (clamp_duration c))))"
    and v: "validate_networks d = Inr k" and p: "ccSocketPath c \<noteq> []" "ccDataDir c \<noteq> []" "ccLogDir c \<noteq> []"
    and g: "\<not> bad_group (clamp_interval (clamp_duration c))" .
  from g assms(2) obtain grp where "plGroup (ccPacketLog c) = Some grp" "0 \<le> grp" "grp \<le> 65535"
    by (auto simp: bad_group_def pointers_set_def)
  moreover have "limits_ok (ccFirewall k)"
    using validate_networks_Inr [OF v] by (simp add: d clamp_limits_ok)
  ultimately show ?thesis
    using validate_networks_Inr [OF v] p assms(2) clamp_interval_set [of "clamp_duration c"]
      clamp_entries_set [of "clamp_interval (clamp_duration c)"]
    by (auto simp: in_range_def d pointers_set_def)
qed

text \<open>A configuration in range is left as it is.\<close>

lemma config_Validate_id:
  assumes "in_range c" "published_ok (ccDocker c)"
  shows "config_Validate c = Inr c"
proof -
  have "clamp_duration c = c" "clamp_interval c = c" "clamp_entries c = c" "migrateIPv6Mode c = c" "default_routing c = c"
    using assms(1) by (auto simp: in_range_def clamp_defs Let_def ValidIPv6Mode_def ValidRoutingMode_def
        ipv6_mode_defs routing_mode_defs)
  moreover have "clamp_limits c = c" using assms(1) by (intro clamp_limits_id) (simp add: in_range_def)
  moreover have "\<not> bad_group c" using assms(1) by (auto simp: in_range_def bad_group_def)
  ultimately show ?thesis
    using assms by (auto simp: config_Validate_def validate_networks_def Let_def in_range_def published_ok_def)
qed

section \<open>Loading\<close>

definition env_path :: "(string \<Rightarrow> string option) \<Rightarrow> string \<Rightarrow> string \<Rightarrow> string \<Rightarrow> string" where
  "env_path look name dflt stored =
     (case present look name of None \<Rightarrow> stored | Some raw \<Rightarrow> if stored \<noteq> dflt \<and> stored \<noteq> [] then stored else raw)"

definition with_paths :: "(string \<Rightarrow> string option) \<Rightarrow> core_config \<Rightarrow> core_config" where
  "with_paths look c =
     c\<lparr>ccSocketPath := env_path look ''EASYWALL_CORE_SOCKET_PATH'' (ccSocketPath CoreDefault) (ccSocketPath c),
       ccDataDir := env_path look ''EASYWALL_CORE_DATA_DIR'' (ccDataDir CoreDefault) (ccDataDir c),
       ccLogDir := env_path look ''EASYWALL_CORE_LOG_DIR'' (ccLogDir CoreDefault) (ccLogDir c)\<rparr>"

lemma ApplyCoreEnv_paths: "\<exists>prov. ApplyCoreEnv look c = Inr (with_paths look c, prov)"
  by (simp add: ApplyCoreEnv_def CoreEnvVars_def with_paths_def env_path_def env_value_def Let_def split: option.split)

text \<open>
  What the code relies on: TOML has no null, so decoding leaves a pointer that is set; a file the
  library wrote decodes to what was written, names \<open>ipv6.mode\<close> and none of the old keys.
\<close>

definition toml_ok :: "'f toml_library \<Rightarrow> bool" where
  "toml_ok tm \<longleftrightarrow>
     (\<forall>data c. tmDecode tm data CoreDefault = Some c \<longrightarrow> pointers_set c) \<and>
     (\<forall>c. pointers_set c \<longrightarrow> tmDecode tm (tmEncode tm c) CoreDefault = Some c) \<and>
     (\<forall>c. tmDefines tm (tmEncode tm c) ''ipv6'' ''mode'') \<and>
     (\<forall>c. tmOldLog tm (tmEncode tm c) = Some (None, None))"

lemma LoadConfig_Inr:
  assumes "toml_ok tm" "LoadConfig tm look disk = Inr c"
  shows "pointers_set (cfFile c) \<and> cfCore c = with_paths look (cfFile c) \<and> cfDisk c = disk"
proof -
  from assms(2) obtain data c0 where 0: "disk = Some data" "tmDecode tm data CoreDefault = Some c0"
    by (auto simp: LoadConfig_def split: option.splits)
  then have p: "pointers_set c0" using assms(1) by (auto simp: toml_ok_def)
  define c1 where "c1 = (if tmDefines tm data ''ipv6'' ''enabled'' \<and> \<not> tmDefines tm data ''ipv6'' ''mode''
                         then c0\<lparr>ccIPv6 := (ccIPv6 c0)\<lparr>v6Mode := []\<rparr>\<rparr> else c0)"
  from 0 assms(2) obtain c2 where 2: "readOldLogKeys tm data c1 = Some c2"
    by (auto simp: LoadConfig_def c1_def Let_def split: option.splits)
  have "pointers_set c2"
    using 2 p by (auto simp: readOldLogKeys_def c1_def pointers_set_def Let_def split: option.splits if_splits)
  moreover obtain prov where "ApplyCoreEnv look c2 = Inr (with_paths look c2, prov)" using ApplyCoreEnv_paths by blast
  ultimately show ?thesis using 0 2 assms(2) by (auto simp: LoadConfig_def c1_def [symmetric] Let_def)
qed

lemma with_paths_parts [simp]:
  "ccFirewall (with_paths look c) = ccFirewall c" "ccAcceptance (with_paths look c) = ccAcceptance c"
  "ccUsage (with_paths look c) = ccUsage c" "ccPacketLog (with_paths look c) = ccPacketLog c"
  "ccIPv6 (with_paths look c) = ccIPv6 c" "ccDocker (with_paths look c) = ccDocker c"
  "ccRouting (with_paths look c) = ccRouting c" "pointers_set (with_paths look c) = pointers_set c"
  by (simp_all add: with_paths_def pointers_set_def)

section \<open>Steps\<close>

datatype 'f config_op =
    SaveNetwork bool network_settings | SaveOptions bool firewall_options | SaveSystem bool system_settings
  | ReloadFile | EditFile "'f option"

fun config_step ::
  "'f toml_library \<Rightarrow> (string \<Rightarrow> string option) \<Rightarrow> 'f config_op \<Rightarrow> 'f core_cfg \<Rightarrow> config_error option \<times> 'f core_cfg" where
  "config_step tm look (SaveNetwork written s) c = SaveNetworkSettings tm written s c"
| "config_step tm look (SaveOptions written opts) c = SaveFirewallOptions tm written opts c"
| "config_step tm look (SaveSystem written s) c = SaveSystemSettings tm written s c"
| "config_step tm look ReloadFile c = Reload tm look c"
| "config_step tm look (EditFile d) c = (None, c\<lparr>cfDisk := d\<rparr>)"

fun is_save :: "'f config_op \<Rightarrow> bool" where
  "is_save (SaveNetwork _ _) = True" | "is_save (SaveOptions _ _) = True" | "is_save (SaveSystem _ _) = True"
| "is_save _ = False"

inductive config_reaches :: "'f toml_library \<Rightarrow> (string \<Rightarrow> string option) \<Rightarrow> 'f core_cfg \<Rightarrow> bool" for tm look where
  booted: "boot tm look disk = Inr c \<Longrightarrow> config_reaches tm look c"
| stepped: "config_reaches tm look c \<Longrightarrow> config_step tm look op c = (err, c') \<Longrightarrow> config_reaches tm look c'"

definition cfg_inv :: "(string \<Rightarrow> string option) \<Rightarrow> 'f core_cfg \<Rightarrow> bool" where
  "cfg_inv look c \<longleftrightarrow>
     in_range (cfCore c) \<and>
     (\<exists>g. plGroup (ccPacketLog (cfFile c)) = Some g \<and> 0 \<le> g \<and> g \<le> 65535) \<and>
     plEntries (ccPacketLog (cfFile c)) \<noteq> None \<and>
     ccSocketPath (cfCore c) = ccSocketPath (with_paths look (cfFile c)) \<and>
     ccDataDir (cfCore c) = ccDataDir (with_paths look (cfFile c)) \<and>
     ccLogDir (cfCore c) = ccLogDir (with_paths look (cfFile c))"

lemma boot_inv:
  assumes "toml_ok tm" "boot tm look disk = Inr c"
  shows "cfg_inv look c \<and> published_ok (ccDocker (cfCore c)) \<and> cfDisk c = disk"
proof -
  from assms(2) obtain l k where l: "LoadConfig tm look disk = Inr l" "config_Validate (cfCore l) = Inr k" "c = l\<lparr>cfCore := k\<rparr>"
    by (auto simp: boot_def split: sum.splits)
  note f = LoadConfig_Inr [OF assms(1) l(1)]
  then have "pointers_set (cfCore l)" by simp
  from config_Validate_ok [OF l(2) this] f l(3) show ?thesis
    by (auto simp: cfg_inv_def in_range_def pointers_set_def)
qed

lemma save_inv:
  assumes "cfg_inv look (c\<lparr>cfCore := k\<rparr>)" "saveLocked tm written (c\<lparr>cfCore := k\<rparr>) = (err, c')"
  shows "cfg_inv look c'"
  using assms by (auto simp: saveLocked_def cfg_inv_def split: if_splits)

lemma reload_inv:
  assumes "toml_ok tm" "cfg_inv look c" "Reload tm look c = (err, c')"
  shows "cfg_inv look c'"
proof (cases "LoadConfig tm look (cfDisk c)")
  case (Inl e)
  with assms(2,3) show ?thesis by (simp add: Reload_def)
next
  case (Inr l)
  note f = LoadConfig_Inr [OF assms(1) Inr]
  show ?thesis
  proof (cases "config_Validate (cfCore l)")
    case (Inl e)
    with Inr assms(2,3) show ?thesis by (simp add: Reload_def)
  next
    case k: (Inr k)
    have "pointers_set (cfCore l)" using f by simp
    from config_Validate_ok [OF k this] Inr k assms(2,3) f show ?thesis
      by (auto simp: Reload_def cfg_inv_def in_range_def with_paths_def pointers_set_def)
  qed
qed

lemma step_inv:
  assumes "toml_ok tm" "cfg_inv look c" "config_step tm look op c = (err, c')"
  shows "cfg_inv look c'"
proof (cases op)
  case (SaveNetwork written s)
  show ?thesis
  proof (cases "network_refusal (default_modes s)")
    case None
    let ?s = "default_modes s"
    have "cfg_inv look (c\<lparr>cfCore := (cfCore c)\<lparr>ccIPv6 := nsIPv6 ?s, ccDocker := nsDocker ?s, ccRouting := nsRouting ?s\<rparr>\<rparr>)"
      using assms(2) None by (auto simp: cfg_inv_def in_range_def network_refusal_def split: if_splits)
    from save_inv [OF this] None assms(3) SaveNetwork show ?thesis by (simp add: SaveNetworkSettings_def Let_def)
  qed (use assms SaveNetwork in \<open>simp add: SaveNetworkSettings_def Let_def\<close>)
next
  case (SaveOptions written opts)
  show ?thesis
  proof (cases "options_refusal opts")
    case None
    then have "limits_ok opts" by (auto simp: options_refusal_def limits_ok_def list_all_iff split: if_splits)
    then have "cfg_inv look (c\<lparr>cfCore := (cfCore c)\<lparr>ccFirewall := opts\<rparr>\<rparr>)"
      using assms(2) by (auto simp: cfg_inv_def in_range_def)
    from save_inv [OF this] None assms(3) SaveOptions show ?thesis by (simp add: SaveFirewallOptions_def)
  qed (use assms SaveOptions in \<open>simp add: SaveFirewallOptions_def\<close>)
next
  case (SaveSystem written s)
  show ?thesis
  proof (cases "ValidAcceptanceDuration (acDuration (ssAcceptance s))")
    case True
    then have "cfg_inv look (c\<lparr>cfCore := (cfCore c)\<lparr>ccAcceptance := ssAcceptance s\<rparr>\<rparr>)"
      using assms(2) by (auto simp: cfg_inv_def in_range_def)
    from save_inv [OF this] True assms(3) SaveSystem show ?thesis by (simp add: SaveSystemSettings_def)
  qed (use assms SaveSystem in \<open>simp add: SaveSystemSettings_def\<close>)
next
  case ReloadFile
  with assms show ?thesis using reload_inv by simp
next
  case (EditFile d)
  with assms(2,3) show ?thesis by (auto simp: cfg_inv_def)
qed

lemma reaches_inv: "toml_ok tm \<Longrightarrow> config_reaches tm look c \<Longrightarrow> cfg_inv look c"
  by (rotate_tac, induction rule: config_reaches.induct) (use boot_inv step_inv in blast)+

section \<open>A restart after a save\<close>

lemma save_writes:
  assumes "config_step tm look op c = (None, c')" "is_save op"
  shows "cfDisk c' = Some (tmEncode tm (snapshot_of c')) \<and> cfFile c' = cfFile c"
  using assms
  by (cases op) (auto simp: SaveNetworkSettings_def SaveFirewallOptions_def SaveSystemSettings_def saveLocked_def
      snapshot_of_def Let_def split: option.splits if_splits)

lemma boot_written:
  assumes "toml_ok tm" "cfg_inv look c" "published_ok (ccDocker (cfCore c))"
  shows "boot tm look (Some (tmEncode tm (snapshot_of c))) =
    Inr \<lparr> cfCore = clamp_entries ((cfCore c)\<lparr>ccPacketLog := ccPacketLog (cfFile c)\<rparr>), cfFile = snapshot_of c,
          cfDisk = Some (tmEncode tm (snapshot_of c)) \<rparr>"
proof -
  let ?d = "(cfCore c)\<lparr>ccPacketLog := ccPacketLog (cfFile c)\<rparr>"
  have "pointers_set (snapshot_of c)" using assms(2) by (auto simp: cfg_inv_def in_range_def pointers_set_def snapshot_of_def)
  moreover have w: "with_paths look (snapshot_of c) = ?d"
    using assms(2) by (simp add: cfg_inv_def with_paths_def snapshot_of_def)
  moreover obtain prov where "ApplyCoreEnv look (snapshot_of c) = Inr (?d, prov)"
    using ApplyCoreEnv_paths [of look "snapshot_of c"] w by auto
  ultimately have l: "LoadConfig tm look (Some (tmEncode tm (snapshot_of c))) =
      Inr \<lparr> cfCore = ?d, cfFile = snapshot_of c, cfDisk = Some (tmEncode tm (snapshot_of c)) \<rparr>"
    using assms(1) by (simp add: LoadConfig_def readOldLogKeys_def toml_ok_def Let_def)
  have r: "in_range (clamp_entries ?d)"
    using assms(2) clamp_entries_set [of ?d] by (auto simp: cfg_inv_def in_range_def)
  have "clamp_duration ?d = ?d" "clamp_interval ?d = ?d" "\<not> bad_group ?d" "clamp_entries (clamp_entries ?d) = clamp_entries ?d"
    using assms(2) by (auto simp: cfg_inv_def in_range_def clamp_defs bad_group_def Let_def PacketLogEntriesMin_def
        PacketLogEntriesMax_def split: option.splits)
  moreover have "clamp_duration (clamp_entries ?d) = clamp_entries ?d" "clamp_interval (clamp_entries ?d) = clamp_entries ?d"
    using r by (auto simp: in_range_def clamp_duration_def clamp_interval_def Let_def)
  ultimately have "config_Validate ?d = config_Validate (clamp_entries ?d)"
    by (simp add: config_Validate_def bad_group_def)
  also have "\<dots> = Inr (clamp_entries ?d)" by (rule config_Validate_id [OF r]) (simp add: assms(3))
  finally show ?thesis by (simp add: boot_def l)
qed

section \<open>Lists of networks\<close>

lemma lines_of_list: "e \<in> set (map trim_space (split_char (CHR 0x0A) raw)) \<Longrightarrow> e = [] \<or> e \<in> set (parseIPList raw)"
proof -
  have "e \<in> set xs \<Longrightarrow> e = [] \<or> e \<in> set (rev (dropWhile (\<lambda>s. s = []) (rev xs)))" for e :: string and xs
    by (induction xs rule: rev_induct) auto
  then show "e \<in> set (map trim_space (split_char (CHR 0x0A) raw)) \<Longrightarrow> e = [] \<or> e \<in> set (parseIPList raw)"
    unfolding parseIPList_def by blast
qed

lemma parseIPList_lines: "e \<in> set (parseIPList raw) \<Longrightarrow> e \<in> set (map trim_space (split_char (CHR 0x0A) raw))"
  unfolding parseIPList_def by (metis set_dropWhileD set_rev)

lemma comment_line_trim: "IsListComment e \<longleftrightarrow> comment_line (trim_space e)"
  by (simp add: IsListComment_def comment_line_def Let_def)

lemma no_bad_line: "filter (\<lambda>(_, e). P e) (enumerate n xs) = [] \<longleftrightarrow> (\<forall>e\<in>set xs. \<not> P e)"
  by (induction xs arbitrary: n) auto

lemma list_forms_agree: "validateCIDRListEntries raw = [] \<longleftrightarrow> ValidateNetworkList what (parseIPList raw) = None"
proof -
  let ?ls = "map trim_space (split_char (CHR 0x0A) raw)"
  have "validateCIDRListEntries raw = [] \<longleftrightarrow> (\<forall>e\<in>set ?ls. comment_line e \<or> ParseCIDR e \<noteq> None)"
    unfolding validateCIDRListEntries_def numbered_lines_def map_is_Nil_conv no_bad_line by auto
  also have "\<dots> \<longleftrightarrow> (\<forall>e\<in>set (parseIPList raw). comment_line e \<or> ParseCIDR e \<noteq> None)"
    using lines_of_list [of _ raw] parseIPList_lines [of _ raw] by (fastforce simp: comment_line_def)
  also have "\<dots> \<longleftrightarrow> ValidateNetworkList what (parseIPList raw) = None"
    using parseIPList_lines [of _ raw]
    by (fastforce simp: ValidateNetworkList_def comment_line_trim trim_space_idem split: option.splits if_splits)
  finally show ?thesis .
qed

lemma valid_modes [simp]:
  "ValidIPv6Mode (ipv6ModeFromForm v)" "ipv6ModeFromForm v \<noteq> []"
  "ValidRoutingMode (routingModeFromForm v)" "routingModeFromForm v \<noteq> []"
  by (auto simp: ipv6ModeFromForm_def routingModeFromForm_def ValidIPv6Mode_def ValidRoutingMode_def ipv6_mode_defs
      routing_mode_defs)

lemma settings_refused:
  "handleSettingsPOST f = (if network_refusal (default_modes (settings_of_form f)) = None then Inr (settings_of_form f)
     else Inl ''settings_invalid_network'')"
proof -
  have "default_modes (settings_of_form f) = settings_of_form f"
    by (simp add: default_modes_def settings_of_form_def Let_def)
  moreover have "network_refusal (settings_of_form f) = None \<longleftrightarrow>
      validateCIDRListEntries (FormValue f ''custom_networks'') = [] \<and>
      validateCIDRListEntries (FormValue f ''routing_networks'') = []"
    unfolding list_forms_agree [of "FormValue f ''custom_networks''" "''docker custom network''"]
      list_forms_agree [of "FormValue f ''routing_networks''" "''routing network''"]
    by (simp add: network_refusal_def settings_of_form_def checkNetworkLists_def split: option.split)
  ultimately show ?thesis by (auto simp: handleSettingsPOST_def)
qed

lemma options_sent:
  assumes "handleOptionsPOST f = Inr opts"
  shows "options_refusal opts = None"
  using assms
  by (auto simp: handleOptionsPOST_def options_refusal_def Let_def filter_empty_conv split: if_splits)

section \<open>Properties\<close>

text \<open>C36.  The daemon never runs with a number that does not fit.  From any start, through any saves
  with failing writes, reloads and edits of the file, the running configuration has its three
  paths, a window between ten seconds and an hour, a group that is a 16-bit number, valid modes
  and networks that parse, and every limit in force lies in its range and in 32 bits.\<close>

theorem running_config_in_range:
  assumes "toml_ok tm" "config_reaches tm look c"
  shows "in_range (cfCore c) \<and> int (unat (PacketLogGroup c)) = the (plGroup (ccPacketLog (cfCore c))) \<and>
    (\<forall>l\<in>set FirewallLimits. flEnabled l (FirewallOptions c) \<longrightarrow>
       InRange l (flValue l (FirewallOptions c)) \<and> 0 < flValue l (FirewallOptions c) \<and> flValue l (FirewallOptions c) < 2 ^ 32)"
proof -
  have r: "in_range (cfCore c)" using reaches_inv [OF assms] by (simp add: cfg_inv_def)
  then obtain g where g: "plGroup (ccPacketLog (cfCore c)) = Some g" "0 \<le> g" "g \<le> 65535" by (auto simp: in_range_def)
  have "int (unat (PacketLogGroup c)) = g"
    using g by (simp add: PacketLogGroup_def uint_word_of_int take_bit_eq_mod flip: uint_nat)
  moreover have "list_all (\<lambda>l. 0 < flMin l \<and> flMax l < 2 ^ 32) FirewallLimits" by (simp add: FirewallLimits_def limit_def)
  ultimately show ?thesis
    using r g by (fastforce simp: in_range_def limits_ok_def list_all_iff InRange_def FirewallOptions_def)
qed


text \<open>C38.  The interface and the core refuse the same settings.  A form of networks is refused by the
  page exactly when the core would refuse it, and whatever any of the three pages sends is
  accepted, so a refusal by the core never reaches an operator as a lost connection.\<close>

theorem web_and_core_refuse_the_same:
  "((\<exists>m. handleSettingsPOST f = Inl m) \<longleftrightarrow> fst (SaveNetworkSettings tm True (settings_of_form f) c) \<noteq> None) \<and>
   (\<forall>s. handleSettingsPOST f = Inr s \<longrightarrow> fst (SaveNetworkSettings tm True s c) = None) \<and>
   (\<forall>opts. handleOptionsPOST f = Inr opts \<longrightarrow> fst (SaveFirewallOptions tm True opts c) = None) \<and>
   (\<forall>s. handleSystemPOST f = Inr s \<longrightarrow> fst (SaveSystemSettings tm True s c) = None)"
proof -
  have "handleSystemPOST f = Inr s \<Longrightarrow> ValidAcceptanceDuration (acDuration (ssAcceptance s))" for s
    by (auto simp: handleSystemPOST_def split: option.splits if_splits)
  then show ?thesis
    by (auto simp: settings_refused SaveNetworkSettings_def SaveFirewallOptions_def SaveSystemSettings_def saveLocked_def
        options_sent Let_def split: option.splits if_splits)
qed

text \<open>C40.  Saving the network page opens the published container ports.  The page has no field for the
  setting and sends it empty, and the core stores what it is sent: whatever is in the form and
  whatever the host was set to, after a save that reports success the published ports are not
  filtered, neither now nor after a restart.\<close>

theorem network_page_ends_filtering:
  assumes "toml_ok tm" "config_reaches tm look c" "handleSettingsPOST f = Inr s"
    "SaveNetworkSettings tm written s c = (None, c')"
  shows "\<not> FiltersPublishedPorts (ccDocker (cfCore c')) \<and>
    (\<exists>r. boot tm look (cfDisk c') = Inr r \<and> \<not> FiltersPublishedPorts (ccDocker (cfCore r)))"
proof -
  have step: "config_step tm look (SaveNetwork written s) c = (None, c')" using assms(4) by simp
  have inv: "cfg_inv look c'" by (rule step_inv [OF assms(1) reaches_inv [OF assms(1,2)] step])
  have empty: "PublishedPorts (nsDocker s) = []"
    using assms(3) by (auto simp: handleSettingsPOST_def settings_of_form_def split: if_splits)
  have "ccDocker (cfCore c') = nsDocker s"
    using assms(4)
    by (auto simp: SaveNetworkSettings_def default_modes_def saveLocked_def Let_def split: option.splits if_splits)
  with empty have ports: "PublishedPorts (ccDocker (cfCore c')) = []" by simp
  then have "published_ok (ccDocker (cfCore c'))" "\<not> FiltersPublishedPorts (ccDocker (cfCore c'))"
    by (simp_all add: published_ok_def known_published_ports_def FiltersPublishedPorts_def PublishedPortsFiltered_def)
  with boot_written [OF assms(1) inv] save_writes [OF step] show ?thesis by (simp add: clamp_entries_parts)
qed

end
