(* ===== verification/CoreSettingsRuns.thy ===== *)
theory CoreSettingsRuns
  imports CoreSettingsSafety
begin

text \<open>
  Configurations on which the properties of \<open>CoreSettingsSafety\<close> are applied, and two runs in which
  settings go wrong: a save that leaves a file the daemon does not start with, and an edited path
  that the next save undoes.
\<close>

section \<open>A library and two files\<close>

text \<open>A library for which a file is the configuration it holds.\<close>

definition plain_toml :: "core_config toml_library" where
  "plain_toml =
    \<lparr> tmDecode = \<lambda>data d. Some (data\<lparr>
        ccUsage := \<lparr> ucInterval = (case ucInterval (ccUsage data) of None \<Rightarrow> ucInterval (ccUsage d) | i \<Rightarrow> i) \<rparr>,
        ccPacketLog := (ccPacketLog data)\<lparr>
          plGroup := (case plGroup (ccPacketLog data) of None \<Rightarrow> plGroup (ccPacketLog d) | g \<Rightarrow> g),
          plEntries := (case plEntries (ccPacketLog data) of None \<Rightarrow> plEntries (ccPacketLog d) | e \<Rightarrow> e)\<rparr>\<rparr>),
      tmDefines = \<lambda>_ sec key. sec = ''ipv6'' \<and> key = ''mode'',
      tmOldLog = \<lambda>_. Some (None, None), tmEncode = \<lambda>c. c \<rparr>"

lemma plain_toml_decode: "pointers_set c \<Longrightarrow> tmDecode plain_toml c CoreDefault = Some c"
  by (cases c) (auto simp: plain_toml_def pointers_set_def)

lemma plain_toml_ok: "toml_ok plain_toml"
  unfolding toml_ok_def
proof (intro conjI allI impI)
  show "tmDecode plain_toml data CoreDefault = Some c \<Longrightarrow> pointers_set c" for data c
    by (auto simp: plain_toml_def pointers_set_def CoreDefault_def split: option.splits)
  show "pointers_set c \<Longrightarrow> tmDecode plain_toml (tmEncode plain_toml c) CoreDefault = Some c" for c
    using plain_toml_decode [of c] by (simp add: plain_toml_def)
qed (simp_all add: plain_toml_def)

definition data_env :: "string \<Rightarrow> string option" where
  "data_env = [''EASYWALL_CORE_DATA_DIR'' \<mapsto> ''/data'']"

definition wrapping_file :: core_config where
  "wrapping_file =
     CoreDefault\<lparr>ccFirewall := shipped_options\<lparr>ConnectionLimit := True, ConnectionLimitMax := 4294967296\<rparr>\<rparr>"

lemma boot_wrapping:
  "boot plain_toml data_env (Some wrapping_file) =
   Inr \<lparr> cfCore = wrapping_file\<lparr>ccDataDir := ''/data'', ccFirewall := shipped_options\<lparr>ConnectionLimit := True,
           ConnectionLimitMax := 100000\<rparr>\<rparr>, cfFile = wrapping_file, cfDisk = Some wrapping_file \<rparr>"
  by code_simp

definition wrapping :: "core_config core_cfg" where
  "wrapping = \<lparr> cfCore = wrapping_file\<lparr>ccDataDir := ''/data'', ccFirewall := shipped_options\<lparr>ConnectionLimit := True,
     ConnectionLimitMax := 100000\<rparr>\<rparr>, cfFile = wrapping_file, cfDisk = Some wrapping_file \<rparr>"

lemma wrapping_reached: "config_reaches plain_toml data_env wrapping"
  by (rule config_reaches.booted [OF boot_wrapping [folded wrapping_def]])

theorem running_config_in_range_witness:
  "in_range (cfCore wrapping) \<and> PacketLogGroup wrapping = 12227 \<and> ConnectionLimitMax (FirewallOptions wrapping) = 100000"
  using running_config_in_range [OF plain_toml_ok wrapping_reached]
  by (simp add: wrapping_def PacketLogGroup_def FirewallOptions_def wrapping_file_def CoreDefault_def)

definition one_minute :: system_settings where
  "one_minute = \<lparr> ssAcceptance = \<lparr> acEnabled = True, acDuration = 60 \<rparr> \<rparr>"




definition networks_form :: "string \<Rightarrow> form" where
  "networks_form nets =
    [(''ipv6_mode'', [''filter'']), (''icmp_allow_router_advertisement'', [''on'']),
     (''icmp_allow_neighbor_advertisement'', [''on'']), (''docker_enabled'', [''on'']),
     (''allow_bridge_networks'', [''on'']), (''custom_networks'', [nets]), (''routing_mode'', [''closed''])]"

lemma bare_address_form: "handleSettingsPOST (networks_form ''192.168.1.5'') = Inl ''settings_invalid_network''"
  by code_simp

theorem web_and_core_refuse_the_same_witness:
  "fst (SaveNetworkSettings plain_toml True (settings_of_form (networks_form ''192.168.1.5'')) wrapping) \<noteq> None"
  using web_and_core_refuse_the_same [of "networks_form ''192.168.1.5''" plain_toml wrapping] bare_address_form by simp

section \<open>The network page and published ports\<close>

definition filtered_file :: core_config where
  "filtered_file = CoreDefault\<lparr>ccDocker := (ccDocker CoreDefault)\<lparr>PublishedPorts := ''filtered''\<rparr>\<rparr>"

definition filtering :: "core_config core_cfg" where
  "filtering = \<lparr> cfCore = filtered_file, cfFile = filtered_file, cfDisk = Some filtered_file \<rparr>"

lemma filtering_boots: "boot plain_toml (\<lambda>_. None) (Some filtered_file) = Inr filtering"
  by code_simp

lemma unchanged_form:
  "handleSettingsPOST (networks_form []) = Inr ((NetworkSettings filtering)\<lparr>nsDocker := (ccDocker CoreDefault)\<lparr>PublishedPorts := []\<rparr>\<rparr>)"
  by code_simp

theorem network_page_ends_filtering_witness:
  "FiltersPublishedPorts (ccDocker (cfCore filtering)) \<and>
   \<not> FiltersPublishedPorts (ccDocker (cfCore (snd (SaveNetworkSettings plain_toml True
       ((NetworkSettings filtering)\<lparr>nsDocker := (ccDocker CoreDefault)\<lparr>PublishedPorts := []\<rparr>\<rparr>) filtering))))"
proof -
  let ?s = "(NetworkSettings filtering)\<lparr>nsDocker := (ccDocker CoreDefault)\<lparr>PublishedPorts := []\<rparr>\<rparr>"
  have "fst (SaveNetworkSettings plain_toml True ?s filtering) = None" by code_simp
  then have "SaveNetworkSettings plain_toml True ?s filtering = (None, snd (SaveNetworkSettings plain_toml True ?s filtering))"
    by (simp add: prod_eq_iff)
  from network_page_ends_filtering [OF plain_toml_ok config_reaches.booted [OF filtering_boots] unchanged_form this]
  show ?thesis by (auto simp: filtering_def filtered_file_def FiltersPublishedPorts_def PublishedPortsFiltered_def)
qed

text \<open>The core saves settings it will not start with.  It accepts filtered published ports on a
  host without container networks, which the check at the start refuses: the save succeeds and the
  next start fails.\<close>

lemma accepted_settings_stop_the_daemon:
  "case SaveNetworkSettings plain_toml True
      ((NetworkSettings filtering)\<lparr>nsDocker := (ccDocker filtered_file)\<lparr>dkEnabled := False\<rparr>\<rparr>) filtering of
     (e, c) \<Rightarrow> e = None \<and> boot plain_toml (\<lambda>_. None) (cfDisk c) = Inl NoContainerNetworks"
  by code_simp

text \<open>A path edited in the file is undone by the next save.  A reload says that a changed path
  takes effect at the restart and keeps the file's view of the packet log for that, but not of the
  paths; a save from any page then writes the old path back.\<close>

lemma reload_forgets_path_edit:
  "let edited = filtered_file\<lparr>ccDataDir := ''/srv/easywall''\<rparr>;
       (e1, c1) = Reload plain_toml (\<lambda>_. None) (filtering\<lparr>cfDisk := Some edited\<rparr>);
       (e2, c2) = SaveSystemSettings plain_toml True one_minute c1 in
   e1 = None \<and> e2 = None \<and>
   (case boot plain_toml (\<lambda>_. None) (Some edited) of Inl _ \<Rightarrow> False | Inr r \<Rightarrow> ccDataDir (cfCore r) = ''/srv/easywall'') \<and>
   (case boot plain_toml (\<lambda>_. None) (cfDisk c2) of Inl _ \<Rightarrow> False | Inr r \<Rightarrow> ccDataDir (cfCore r) = ''/var/lib/easywall'')"
  by code_simp

end
