(* ===== verification/LoginEvents.thy ===== *)
theory LoginEvents
  imports NetipText
begin

text \<open>
  \<open>internal/core/loginevents.go\<close>: the table that folds a burst of login events into two lines of the
  audit log, because anybody can cause them and only the latest lines are shown.  No event is lost
  in the folding, and no address gets more than one opening line a minute.
\<close>

section \<open>Events\<close>

definition EvLoginFailed :: string where "EvLoginFailed = ''login_failed''"
definition Ev2FAFailed :: string where "Ev2FAFailed = ''login_2fa_failed''"
definition EvRecoveryUsed :: string where "EvRecoveryUsed = ''login_recovery_used''"
definition EvRateLimited :: string where "EvRateLimited = ''login_ratelimited''"
definition EvLogout :: string where "EvLogout = ''logout''"

definition AllLoginEvents :: "string list" where
  "AllLoginEvents =
    [''login_ok'', EvLoginFailed, Ev2FAFailed, EvRecoveryUsed, EvRateLimited, EvLogout, ''totp_enabled'',
     ''totp_disabled'', ''recovery_codes_regenerated'', ''passkey_used'', ''passkey_enrolled'', ''passkey_removed'',
     ''passkey_clone_suspected'']"

definition ValidLoginEvent :: "string \<Rightarrow> bool" where
  "ValidLoginEvent ev \<longleftrightarrow> ev \<in> set AllLoginEvents"

record log_event_payload =
  lpEvent :: string
  lpAddr :: string
  lpLeft :: int
  lpProxied :: bool

definition ProxyToken :: string where "ProxyToken = '' via-proxy''"

definition loginEventWindow :: int where "loginEventWindow = 60 * 1000000000"
definition loginEventMaxAddrs :: nat where "loginEventMaxAddrs = 1024"

definition debouncedEvents :: "string list" where
  "debouncedEvents = [EvLoginFailed, Ev2FAFailed, EvRateLimited, EvLogout]"

section \<open>Lines\<close>

type_synonym event_key = "string \<times> string \<times> bool"

text \<open>The lines the table writes, each with what it is about.\<close>

datatype login_line =
    Immediate event_key int
  | Opening event_key
  | Closing event_key nat
  | OverflowOpening event_key
  | OverflowClosing string nat

definition addrDetail :: "string \<Rightarrow> bool \<Rightarrow> string" where
  "addrDetail addr proxied =
     (if addr = [] then [] else if proxied then ''from '' @ addr @ ProxyToken else ''from '' @ addr)"

definition immediateDetail :: "event_key \<Rightarrow> int \<Rightarrow> string" where
  "immediateDetail key left =
     (case key of (ev, addr, proxied) \<Rightarrow>
        let d = addrDetail addr proxied; l = itoa left @ '' recovery codes left'' in
        if ev \<noteq> EvRecoveryUsed then d else if d = [] then l else d @ '', '' @ l)"

fun line_text :: "login_line \<Rightarrow> string \<times> string" where
  "line_text (Immediate key left) = (fst key, immediateDetail key left)"
| "line_text (Opening key) = (fst key, addrDetail (fst (snd key)) (snd (snd key)))"
| "line_text (OverflowOpening key) = (fst key, addrDetail (fst (snd key)) (snd (snd key)))"
| "line_text (Closing key n) =
     (fst key,
      let detail = itoa (int n) @ '' more within 60s''; from = addrDetail (fst (snd key)) (snd (snd key)) in
      if from \<noteq> [] then from @ '', '' @ detail else detail)"
| "line_text (OverflowClosing ev n) =
     (ev, ''from more than 1024 addresses, '' @ itoa (int n) @ '' more within 60s'')"

section \<open>The table\<close>

record event_bucket =
  ebCount :: nat
  ebOpened :: int

text \<open>
  The log is kept with the time of each line.  The order of a table's list is the order in which a
  range over the map visits it.
\<close>

record login_events =
  leBuckets :: "(event_key \<times> event_bucket) list"
  leOverflow :: "(string \<times> event_bucket) list"
  leLog :: "(int \<times> login_line) list"

definition newLoginEvents :: login_events where
  "newLoginEvents = \<lparr> leBuckets = [], leOverflow = [], leLog = [] \<rparr>"

definition drop_key :: "'k \<Rightarrow> ('k \<times> 'v) list \<Rightarrow> ('k \<times> 'v) list" where
  "drop_key k xs = filter (\<lambda>(x, _). x \<noteq> k) xs"

definition put_key :: "'k \<Rightarrow> 'v \<Rightarrow> ('k \<times> 'v) list \<Rightarrow> ('k \<times> 'v) list" where
  "put_key k v xs = (k, v) # drop_key k xs"

definition write_line :: "int \<Rightarrow> login_line \<Rightarrow> login_events \<Rightarrow> login_events" where
  "write_line now l s = s\<lparr>leLog := leLog s @ [(now, l)]\<rparr>"

definition flushLocked :: "int \<Rightarrow> event_key \<Rightarrow> event_bucket \<Rightarrow> login_events \<Rightarrow> login_events" where
  "flushLocked now key b s = (if ebCount b \<le> 1 then s else write_line now (Closing key (ebCount b - 1)) s)"

definition flushOverflowLocked :: "int \<Rightarrow> string \<Rightarrow> event_bucket \<Rightarrow> login_events \<Rightarrow> login_events" where
  "flushOverflowLocked now ev b s = (if ebCount b \<le> 1 then s else write_line now (OverflowClosing ev (ebCount b - 1)) s)"

definition event_addr :: "log_event_payload \<Rightarrow> string" where
  "event_addr p = (case ParseAddr (lpAddr p) of None \<Rightarrow> [] | Some a \<Rightarrow> addr_string (WithZone a []))"

definition running :: "int \<Rightarrow> event_bucket option \<Rightarrow> bool" where
  "running now ob = (case ob of None \<Rightarrow> False | Some b \<Rightarrow> now - ebOpened b < loginEventWindow)"

definition bump :: "event_bucket \<Rightarrow> event_bucket" where "bump b = b\<lparr>ebCount := ebCount b + 1\<rparr>"

definition open_overflow :: "event_key \<Rightarrow> int \<Rightarrow> login_events \<Rightarrow> login_events" where
  "open_overflow key now s =
     (let ev = fst key; ob = map_of (leOverflow s) ev in
      if running now ob then s\<lparr>leOverflow := put_key ev (bump (the ob)) (leOverflow s)\<rparr>
      else
        let s1 = (case ob of None \<Rightarrow> s | Some b \<Rightarrow> flushOverflowLocked now ev b s) in
        write_line now (OverflowOpening key)
          (s1\<lparr>leOverflow := put_key ev \<lparr> ebCount = 1, ebOpened = now \<rparr> (leOverflow s1)\<rparr>))"

definition record_event :: "log_event_payload \<Rightarrow> int \<Rightarrow> login_events \<Rightarrow> bool \<times> login_events" where
  "record_event p now s =
     (if \<not> ValidLoginEvent (lpEvent p) then (False, s)
      else
        let key = (lpEvent p, event_addr p, lpProxied p); b = map_of (leBuckets s) key in
        if lpEvent p \<notin> set debouncedEvents then (True, write_line now (Immediate key (lpLeft p)) s)
        else if running now b then (True, s\<lparr>leBuckets := put_key key (bump (the b)) (leBuckets s)\<rparr>)
        else
          let s1 = (case b of None \<Rightarrow> s | Some x \<Rightarrow> (flushLocked now key x s)\<lparr>leBuckets := drop_key key (leBuckets s)\<rparr>) in
          if length (leBuckets s1) \<ge> loginEventMaxAddrs then (True, open_overflow key now s1)
          else (True, write_line now (Opening key)
                  (s1\<lparr>leBuckets := put_key key \<lparr> ebCount = 1, ebOpened = now \<rparr> (leBuckets s1)\<rparr>)))"

definition closed :: "int \<Rightarrow> event_bucket \<Rightarrow> bool" where
  "closed now b \<longleftrightarrow> \<not> now - ebOpened b < loginEventWindow"

definition sweep :: "int \<Rightarrow> login_events \<Rightarrow> login_events" where
  "sweep now s =
     (let done_b = filter (\<lambda>(_, b). closed now b) (leBuckets s);
          done_o = filter (\<lambda>(_, b). closed now b) (leOverflow s);
          s1 = fold (\<lambda>(k, b). flushLocked now k b) done_b s;
          s2 = fold (\<lambda>(e, b). flushOverflowLocked now e b) done_o s1 in
      s2\<lparr>leBuckets := filter (\<lambda>(_, b). \<not> closed now b) (leBuckets s),
         leOverflow := filter (\<lambda>(_, b). \<not> closed now b) (leOverflow s)\<rparr>)"

section \<open>Runs\<close>

datatype login_step = Event log_event_payload | Sweep

fun login_run :: "(int \<times> login_step) list \<Rightarrow> login_events \<Rightarrow> login_events" where
  "login_run [] s = s"
| "login_run ((t, Event p) # rest) s = login_run rest (snd (record_event p t s))"
| "login_run ((t, Sweep) # rest) s = login_run rest (sweep t s)"

text \<open>How many events of a kind a line reports.\<close>

fun reported :: "string \<Rightarrow> login_line \<Rightarrow> nat" where
  "reported ev (Immediate key _) = (if fst key = ev then 1 else 0)"
| "reported ev (Opening key) = (if fst key = ev then 1 else 0)"
| "reported ev (OverflowOpening key) = (if fst key = ev then 1 else 0)"
| "reported ev (Closing key n) = (if fst key = ev then n else 0)"
| "reported ev (OverflowClosing e n) = (if e = ev then n else 0)"

definition in_log :: "string \<Rightarrow> login_events \<Rightarrow> nat" where
  "in_log ev s = sum_list (map (\<lambda>(_, l). reported ev l) (leLog s))"

definition waiting :: "string \<Rightarrow> login_events \<Rightarrow> nat" where
  "waiting ev s =
     sum_list (map (\<lambda>(k, b). if fst k = ev then ebCount b - 1 else 0) (leBuckets s)) +
     sum_list (map (\<lambda>(e, b). if e = ev then ebCount b - 1 else 0) (leOverflow s))"

definition happened :: "string \<Rightarrow> (int \<times> login_step) list \<Rightarrow> nat" where
  "happened ev steps = length (filter (\<lambda>(_, x). case x of Event p \<Rightarrow> lpEvent p = ev | Sweep \<Rightarrow> False) steps)"

text \<open>Two opening lines of one address, or of one overflow, are a window apart.\<close>

fun opens :: "login_line \<Rightarrow> (event_key + string) option" where
  "opens (Opening key) = Some (Inl key)"
| "opens (OverflowOpening key) = Some (Inr (fst key))"
| "opens _ = None"

definition spaced :: "(int \<times> login_line) list \<Rightarrow> bool" where
  "spaced ls \<longleftrightarrow>
     sorted_wrt (\<lambda>(t, l) (t', l'). opens l = None \<or> opens l \<noteq> opens l' \<or> loginEventWindow \<le> t' - t) ls"

section \<open>Tables as lists\<close>

lemma drop_key_facts [simp]:
  "map_of (drop_key k xs) x = (if x = k then None else map_of xs x)"
  "distinct (map fst xs) \<Longrightarrow> distinct (map fst (drop_key k xs))"
  "k \<notin> fst ` set (drop_key k xs)" "length (drop_key k xs) \<le> length xs" "set (drop_key k xs) \<subseteq> set xs"
  by (auto simp: drop_key_def map_of_filter_in distinct_map_filter) (induction xs; auto)+

lemma put_key_facts [simp]:
  "map_of (put_key k v xs) x = (if x = k then Some v else map_of xs x)"
  "distinct (map fst xs) \<Longrightarrow> distinct (map fst (put_key k v xs))"
  "set (put_key k v xs) \<subseteq> insert (k, v) (set xs)"
  by (auto simp: put_key_def drop_key_facts(5) [THEN subsetD])

lemma sum_drop_key:
  fixes g :: "'k \<times> 'v \<Rightarrow> nat"
  assumes "distinct (map fst xs)"
  shows "sum_list (map g xs) =
    (case map_of xs k of None \<Rightarrow> 0 | Some v \<Rightarrow> g (k, v)) + sum_list (map g (drop_key k xs))"
  using assms
proof (induction xs)
  case (Cons x xs)
  show ?case
  proof (cases "fst x = k")
    case True
    with Cons(2) have no: "k \<notin> fst ` set xs" by auto
    then have "drop_key k xs = xs" "map_of xs k = None" by (force simp: drop_key_def filter_id_conv, simp add: map_of_eq_None_iff)
    with True show ?thesis by (cases x) (simp add: drop_key_def)
  next
    case False
    with Cons show ?thesis by (cases x) (simp add: drop_key_def split: option.split)
  qed
qed (simp add: drop_key_def)

lemma length_put_key:
  "distinct (map fst xs) \<Longrightarrow> map_of xs k \<noteq> None \<Longrightarrow> length (put_key k v xs) = length xs"
  using sum_drop_key [of xs "\<lambda>_. 1" k] by (auto simp: put_key_def sum_list_triv)

section \<open>The invariant\<close>

definition bucket_of :: "login_events \<Rightarrow> event_key + string \<Rightarrow> event_bucket option" where
  "bucket_of s slot = (case slot of Inl k \<Rightarrow> map_of (leBuckets s) k | Inr e \<Rightarrow> map_of (leOverflow s) e)"

definition tables_ok :: "login_events \<Rightarrow> bool" where
  "tables_ok s \<longleftrightarrow>
     distinct (map fst (leBuckets s)) \<and> distinct (map fst (leOverflow s)) \<and>
     (\<forall>slot b. bucket_of s slot = Some b \<longrightarrow> 0 < ebCount b) \<and> length (leBuckets s) \<le> loginEventMaxAddrs"

definition log_ok :: "int \<Rightarrow> login_events \<Rightarrow> bool" where
  "log_ok now s \<longleftrightarrow>
     spaced (leLog s) \<and> (\<forall>slot b. bucket_of s slot = Some b \<longrightarrow> ebOpened b \<le> now) \<and>
     (\<forall>t l slot. (t, l) \<in> set (leLog s) \<and> opens l = Some slot \<longrightarrow>
        (case bucket_of s slot of None \<Rightarrow> t + loginEventWindow \<le> now | Some b \<Rightarrow> t \<le> ebOpened b))"

lemma written [simp]:
  "bucket_of (write_line t l s) x = bucket_of s x" "leLog (write_line t l s) = leLog s @ [(t, l)]"
  "leBuckets (write_line t l s) = leBuckets s" "leOverflow (write_line t l s) = leOverflow s"
  by (simp_all add: write_line_def bucket_of_def cong: sum.case_cong)

lemma log_later: "log_ok t s \<Longrightarrow> t \<le> now \<Longrightarrow> log_ok now s"
  by (fastforce simp: log_ok_def split: option.splits)

text \<open>A line that opens nothing may come at any time; an opening line when its slot is closed.\<close>

lemma log_write:
  assumes "log_ok now s" "opens l = None"
  shows "log_ok now (write_line t l s)"
  using assms by (auto simp: log_ok_def spaced_def sorted_wrt_append)

lemma log_open:
  assumes "log_ok now s" "opens l = Some slot" "bucket_of s slot = None"
    and "\<And>x. x \<noteq> slot \<Longrightarrow> bucket_of s' x = bucket_of s x" "bucket_of s' slot = Some b" "ebOpened b = now" "leLog s' = leLog s"
  shows "log_ok now (write_line now l s')"
proof -
  have old: "t + loginEventWindow \<le> now" if "(t, l') \<in> set (leLog s)" "opens l' = Some slot" for t l'
    using assms(1,3) that by (fastforce simp: log_ok_def)
  have "spaced (leLog s @ [(now, l)])"
    using assms(1,2) old by (fastforce simp: log_ok_def spaced_def sorted_wrt_append)
  moreover have "case bucket_of s' x of None \<Rightarrow> t + loginEventWindow \<le> now | Some b \<Rightarrow> t \<le> ebOpened b"
    if "(t, l') \<in> set (leLog s)" "opens l' = Some x" for t l' x
  proof (cases "x = slot")
    case True
    with old [OF that(1)] that(2) assms(5,6) show ?thesis by (simp add: loginEventWindow_def)
  next
    case False
    with assms(1,4) that show ?thesis by (auto simp: log_ok_def)
  qed
  moreover have "bucket_of s' x = Some d \<Longrightarrow> ebOpened d \<le> now" for x d
    using assms(1,4,5,6) by (cases "x = slot") (auto simp: log_ok_def)
  ultimately show ?thesis
    using assms(2,5,6,7) by (auto simp: log_ok_def)
qed

text \<open>A slot whose window is over may be closed.\<close>

lemma log_close:
  assumes "log_ok now s" "leLog s' = leLog s"
    and "\<And>x. bucket_of s' x = bucket_of s x \<or>
      bucket_of s' x = None \<and> (case bucket_of s x of None \<Rightarrow> True | Some b \<Rightarrow> closed now b)"
  shows "log_ok now s'"
proof -
  have "case bucket_of s' x of None \<Rightarrow> t + loginEventWindow \<le> now | Some b \<Rightarrow> t \<le> ebOpened b"
    if "(t, l) \<in> set (leLog s)" "opens l = Some x" for t l x
    using assms(1) assms(3) [of x] that by (fastforce simp: log_ok_def closed_def split: option.splits)
  moreover have "bucket_of s' x = Some d \<Longrightarrow> ebOpened d \<le> now" for x d
    using assms(1) assms(3) [of x] by (auto simp: log_ok_def)
  ultimately show ?thesis using assms(1,2) by (auto simp: log_ok_def)
qed

lemma log_bump:
  assumes "log_ok now s" "leLog s' = leLog s"
    and "\<And>x. map_option ebOpened (bucket_of s' x) = map_option ebOpened (bucket_of s x)"
  shows "log_ok now s'"
proof -
  have "case bucket_of s' x of None \<Rightarrow> t + loginEventWindow \<le> now | Some b \<Rightarrow> t \<le> ebOpened b"
    if "(t, l) \<in> set (leLog s)" "opens l = Some x" for t l x
    using assms(1) assms(3) [of x] that
    by (cases "bucket_of s x"; cases "bucket_of s' x") (fastforce simp: log_ok_def)+
  moreover have "bucket_of s' x = Some d \<Longrightarrow> ebOpened d \<le> now" for x d
    using assms(1) assms(3) [of x] by (cases "bucket_of s x") (auto simp: log_ok_def)
  ultimately show ?thesis using assms(1,2) by (auto simp: log_ok_def)
qed

section \<open>Accounting\<close>

lemma in_log_write [simp]: "in_log ev (write_line t l s) = in_log ev s + reported ev l"
  by (simp add: in_log_def)

lemma waiting_log [simp]: "waiting ev (write_line t l s) = waiting ev s"
  by (simp add: waiting_def)

lemma flush_facts [simp]:
  "leBuckets (flushLocked t k b s) = leBuckets s" "leOverflow (flushLocked t k b s) = leOverflow s"
  "bucket_of (flushLocked t k b s) x = bucket_of s x"
  "in_log ev (flushLocked t k b s) = in_log ev s + (if fst k = ev then ebCount b - 1 else 0)"
  "leBuckets (flushOverflowLocked t e b s) = leBuckets s" "leOverflow (flushOverflowLocked t e b s) = leOverflow s"
  "bucket_of (flushOverflowLocked t e b s) x = bucket_of s x"
  "in_log ev (flushOverflowLocked t e b s) = in_log ev s + (if e = ev then ebCount b - 1 else 0)"
  by (simp_all add: flushLocked_def flushOverflowLocked_def)

lemma flush_log_ok:
  "log_ok now s \<Longrightarrow> log_ok now (flushLocked t k b s)" "log_ok now s \<Longrightarrow> log_ok now (flushOverflowLocked t e b s)"
  by (simp_all add: flushLocked_def flushOverflowLocked_def log_write)

lemma waiting_buckets:
  assumes "tables_ok s"
  shows "waiting ev s = (case map_of (leBuckets s) k of None \<Rightarrow> 0 | Some b \<Rightarrow> if fst k = ev then ebCount b - 1 else 0) +
    waiting ev (s\<lparr>leBuckets := drop_key k (leBuckets s)\<rparr>)"
  using assms sum_drop_key [of "leBuckets s" "\<lambda>(k, b). if fst k = ev then ebCount b - 1 else 0" k]
  by (simp add: waiting_def tables_ok_def cong: option.case_cong)

lemma waiting_overflow:
  assumes "tables_ok s"
  shows "waiting ev s = (case map_of (leOverflow s) e of None \<Rightarrow> 0 | Some b \<Rightarrow> if e = ev then ebCount b - 1 else 0) +
    waiting ev (s\<lparr>leOverflow := drop_key e (leOverflow s)\<rparr>)"
  using assms sum_drop_key [of "leOverflow s" "\<lambda>(e, b). if e = ev then ebCount b - 1 else 0" e]
  by (simp add: waiting_def tables_ok_def cong: option.case_cong)

lemma waiting_put:
  "waiting ev (s\<lparr>leBuckets := put_key k b xs\<rparr>) =
     (if fst k = ev then ebCount b - 1 else 0) + waiting ev (s\<lparr>leBuckets := drop_key k xs\<rparr>)"
  "waiting ev (s\<lparr>leOverflow := put_key e b ys\<rparr>) =
     (if e = ev then ebCount b - 1 else 0) + waiting ev (s\<lparr>leOverflow := drop_key e ys\<rparr>)"
  by (simp_all add: waiting_def put_key_def)

lemma tables_bucket: "tables_ok s \<Longrightarrow> bucket_of s x = Some b \<Longrightarrow> 0 < ebCount b"
  by (auto simp: tables_ok_def)

lemma drop_drop [simp]: "drop_key k (drop_key k xs) = drop_key k xs"
  by (simp add: drop_key_def)

lemma open_overflow_ok:
  assumes "tables_ok s" "log_ok now s"
  shows "tables_ok (open_overflow key now s) \<and> log_ok now (open_overflow key now s) \<and>
    in_log ev (open_overflow key now s) + waiting ev (open_overflow key now s) =
      in_log ev s + waiting ev s + (if fst key = ev then 1 else 0)"
proof (cases "running now (map_of (leOverflow s) (fst key))")
  case True
  then obtain b where b: "map_of (leOverflow s) (fst key) = Some b" by (auto simp: running_def split: option.splits)
  then have "0 < ebCount b" using tables_bucket [OF assms(1), of "Inr (fst key)"] by (simp add: bucket_of_def)
  moreover let ?s = "s\<lparr>leOverflow := put_key (fst key) (bump b) (leOverflow s)\<rparr>"
  have "log_ok now ?s" using b by (intro log_bump [OF assms(2)]) (auto simp: bucket_of_def bump_def split: sum.split)
  ultimately show ?thesis
    using assms(1) b True waiting_overflow [OF assms(1), of ev "fst key"]
    by (auto simp: open_overflow_def Let_def waiting_put tables_ok_def bucket_of_def bump_def in_log_def split: sum.splits if_splits)
next
  case False
  define s1 where "s1 = (case map_of (leOverflow s) (fst key) of None \<Rightarrow> s | Some b \<Rightarrow> flushOverflowLocked now (fst key) b s)"
  define s2 where "s2 = s1\<lparr>leOverflow := drop_key (fst key) (leOverflow s)\<rparr>"
  have same: "leBuckets s1 = leBuckets s" "leOverflow s1 = leOverflow s" "bucket_of s1 x = bucket_of s x" for x
    by (simp_all add: s1_def split: option.split)
  have "log_ok now s1" using assms(2) by (simp add: s1_def flush_log_ok split: option.split)
  then have l2: "log_ok now s2"
    by (rule log_close) (use False in \<open>auto simp: s2_def same bucket_of_def running_def closed_def split: sum.split option.split\<close>)
  let ?s3 = "s1\<lparr>leOverflow := put_key (fst key) \<lparr> ebCount = 1, ebOpened = now \<rparr> (leOverflow s1)\<rparr>"
  have "log_ok now (write_line now (OverflowOpening key) ?s3)"
    by (rule log_open [OF l2]) (auto simp: s2_def same bucket_of_def split: sum.split)
  moreover have "tables_ok ?s3"
    using assms(1) by (auto simp: tables_ok_def bucket_of_def same split: sum.splits if_splits)
  moreover have "in_log ev s1 + waiting ev s2 = in_log ev s + waiting ev s"
    using waiting_overflow [OF assms(1), of ev "fst key"] same
    by (auto simp: s2_def s1_def waiting_def split: option.splits)
  ultimately show ?thesis using False
    by (auto simp: open_overflow_def Let_def s1_def [symmetric] s2_def waiting_put same tables_ok_def in_log_def)
qed

lemma record_event_ok:
  assumes "tables_ok s" "log_ok now s" "record_event p now s = (ok, s')"
  shows "tables_ok s' \<and> log_ok now s' \<and> ok = ValidLoginEvent (lpEvent p) \<and>
    in_log ev s' + waiting ev s' = in_log ev s + waiting ev s + (if ok \<and> lpEvent p = ev then 1 else 0)"
proof (cases "\<not> ValidLoginEvent (lpEvent p) \<or> lpEvent p \<notin> set debouncedEvents")
  case True
  then show ?thesis
    using assms by (auto simp: record_event_def Let_def log_write tables_ok_def split: if_splits)
next
  case False
  define key where "key = (lpEvent p, event_addr p, lpProxied p)"
  define ob where "ob = map_of (leBuckets s) key"
  show ?thesis
  proof (cases "running now ob")
    case True
    then obtain b where b: "map_of (leBuckets s) key = Some b" by (auto simp: ob_def running_def split: option.splits)
    then have "0 < ebCount b" using tables_bucket [OF assms(1), of "Inl key"] by (simp add: bucket_of_def)
    moreover let ?s = "s\<lparr>leBuckets := put_key key (bump b) (leBuckets s)\<rparr>"
    have "log_ok now ?s" using b by (intro log_bump [OF assms(2)]) (auto simp: bucket_of_def bump_def split: sum.split)
    moreover have "ok" "s' = ?s" using assms(3) False True b by (simp_all add: record_event_def key_def ob_def Let_def)
    ultimately show ?thesis
      using assms(1) b False waiting_buckets [OF assms(1), of ev key] length_put_key [of "leBuckets s" key "bump b"]
      by (auto simp: waiting_put tables_ok_def bucket_of_def bump_def in_log_def key_def split: sum.splits if_splits)
  next
    case closed_now: False
    define s1 where "s1 = (case ob of None \<Rightarrow> s | Some x \<Rightarrow> (flushLocked now key x s)\<lparr>leBuckets := drop_key key (leBuckets s)\<rparr>)"
    have l: "leBuckets s1 = drop_key key (leBuckets s)" "leOverflow s1 = leOverflow s"
    proof -
      have "ob = None \<Longrightarrow> drop_key key (leBuckets s) = leBuckets s"
        by (force simp: ob_def drop_key_def filter_id_conv map_of_eq_None_iff)
      then show "leBuckets s1 = drop_key key (leBuckets s)" by (simp add: s1_def split: option.split)
    qed (simp add: s1_def split: option.split)
    have "log_ok now (case ob of None \<Rightarrow> s | Some x \<Rightarrow> flushLocked now key x s)" (is "log_ok now ?f")
      using assms(2) by (simp add: flush_log_ok split: option.split)
    then have l1: "log_ok now s1"
      by (rule log_close) (use closed_now l in
        \<open>auto simp: s1_def bucket_of_def running_def closed_def ob_def split: sum.split option.splits\<close>)
    have t1: "tables_ok s1"
      using assms(1) by (auto simp: tables_ok_def bucket_of_def l intro: order_trans [OF drop_key_facts(4)] split: sum.splits)
    have n1: "in_log ev s1 + waiting ev s1 = in_log ev s + waiting ev s"
      using waiting_buckets [OF assms(1), of ev key] l
      by (auto simp: s1_def ob_def waiting_def in_log_def flushLocked_def split: option.splits)
    let ?s = "s1\<lparr>leBuckets := put_key key \<lparr> ebCount = 1, ebOpened = now \<rparr> (leBuckets s1)\<rparr>"
    have r: "record_event p now s =
        (True, if length (leBuckets s1) \<ge> loginEventMaxAddrs then open_overflow key now s1
               else write_line now (Opening key) ?s)"
      using False closed_now
      unfolding record_event_def Let_def key_def [symmetric] ob_def [symmetric] s1_def [symmetric] by simp
    show ?thesis
    proof (cases "length (leBuckets s1) \<ge> loginEventMaxAddrs")
      case True
      with assms(3) r have "ok" "s' = open_overflow key now s1" by simp_all
      with open_overflow_ok [OF t1 l1, of key ev] n1 False show ?thesis by (simp add: key_def)
    next
      case room: False
      have "log_ok now (write_line now (Opening key) ?s)"
        by (rule log_open [OF l1]) (auto simp: bucket_of_def l split: sum.split)
      moreover have "ok" "s' = write_line now (Opening key) ?s"
        using assms(3) r room by simp_all
      moreover have "tables_ok ?s"
        using t1 room by (auto simp: tables_ok_def bucket_of_def put_key_def l split: sum.splits if_splits)
      moreover have "s1\<lparr>leBuckets := leBuckets s1\<rparr> = s1" by simp
      then have "waiting ev ?s = waiting ev s1" by (simp add: waiting_def put_key_def l)
      ultimately show ?thesis using n1 False by (simp add: key_def in_log_def tables_ok_def)
    qed
  qed
qed

lemma fold_flush:
  "log_ok now s \<Longrightarrow> log_ok now (fold (\<lambda>(k, b). flushLocked t k b) xs s) \<and>
     leBuckets (fold (\<lambda>(k, b). flushLocked t k b) xs s) = leBuckets s \<and>
     leOverflow (fold (\<lambda>(k, b). flushLocked t k b) xs s) = leOverflow s \<and>
     in_log ev (fold (\<lambda>(k, b). flushLocked t k b) xs s) =
       in_log ev s + sum_list (map (\<lambda>(k, b). if fst k = ev then ebCount b - 1 else 0) xs)"
  by (induction xs arbitrary: s) (auto simp: flush_log_ok)

lemma fold_flush_overflow:
  "log_ok now s \<Longrightarrow> log_ok now (fold (\<lambda>(e, b). flushOverflowLocked t e b) xs s) \<and>
     leBuckets (fold (\<lambda>(e, b). flushOverflowLocked t e b) xs s) = leBuckets s \<and>
     leOverflow (fold (\<lambda>(e, b). flushOverflowLocked t e b) xs s) = leOverflow s \<and>
     in_log ev (fold (\<lambda>(e, b). flushOverflowLocked t e b) xs s) =
       in_log ev s + sum_list (map (\<lambda>(e, b). if e = ev then ebCount b - 1 else 0) xs)"
  by (induction xs arbitrary: s) (auto simp: flush_log_ok)

lemma sum_split:
  "sum_list (map g (filter P xs)) + sum_list (map g (filter (\<lambda>x. \<not> P x) xs)) = (sum_list (map g xs) :: nat)"
  by (induction xs) auto

lemma map_of_filter_value:
  "distinct (map fst xs) \<Longrightarrow>
   map_of (filter (\<lambda>(_, b). Q b) xs) x = (case map_of xs x of None \<Rightarrow> None | Some b \<Rightarrow> if Q b then Some b else None)"
proof (induction xs)
  case (Cons a xs)
  show ?case
  proof (cases "fst a = x")
    case True
    with Cons(2) have "map_of xs x = None" by (simp add: map_of_eq_None_iff)
    with True Cons show ?thesis by (cases a) auto
  next
    case False
    with Cons show ?thesis by (cases a) auto
  qed
qed simp

lemma sweep_ok:
  assumes "tables_ok s" "log_ok now s"
  shows "tables_ok (sweep now s) \<and> log_ok now (sweep now s) \<and>
    in_log ev (sweep now s) + waiting ev (sweep now s) = in_log ev s + waiting ev s"
proof -
  define s1 where "s1 = fold (\<lambda>(k, b). flushLocked now k b) (filter (\<lambda>(_, b). closed now b) (leBuckets s)) s"
  define s2 where "s2 = fold (\<lambda>(e, b). flushOverflowLocked now e b) (filter (\<lambda>(_, b). closed now b) (leOverflow s)) s1"
  note f1 = fold_flush [OF assms(2), of now "filter (\<lambda>(_, b). closed now b) (leBuckets s)" ev, folded s1_def]
  note f2 = fold_flush_overflow [OF conjunct1 [OF f1], of now "filter (\<lambda>(_, b). closed now b) (leOverflow s)" ev, folded s2_def]
  have d: "distinct (map fst (leBuckets s))" "distinct (map fst (leOverflow s))" using assms(1) by (simp_all add: tables_ok_def)
  have e: "sweep now s = s2\<lparr>leBuckets := filter (\<lambda>(_, b). \<not> closed now b) (leBuckets s),
      leOverflow := filter (\<lambda>(_, b). \<not> closed now b) (leOverflow s)\<rparr>"
    by (simp add: sweep_def s1_def s2_def Let_def)
  have bk: "bucket_of (sweep now s) x = (case bucket_of s x of None \<Rightarrow> None | Some b \<Rightarrow> if closed now b then None else Some b)" for x
    using map_of_filter_value [OF d(1)] map_of_filter_value [OF d(2)]
    by (cases x) (auto simp: e bucket_of_def split: option.split)
  have "log_ok now (sweep now s)"
    by (rule log_close [OF conjunct1 [OF f2]]) (use f1 f2 bk in \<open>auto simp: e bucket_of_def split: option.splits sum.splits\<close>)
  moreover have "tables_ok (sweep now s)"
    using assms(1) bk distinct_map_filter [OF d(1)] distinct_map_filter [OF d(2)]
    by (auto simp: tables_ok_def e intro: order_trans [OF length_filter_le] split: option.splits if_splits)
  moreover have "in_log ev (sweep now s) + waiting ev (sweep now s) = in_log ev s + waiting ev s"
    using f1 f2 sum_split [of "\<lambda>(k, b). if fst k = ev then ebCount b - 1 else 0" "\<lambda>(_, b). closed now b" "leBuckets s"]
      sum_split [of "\<lambda>(e, b). if e = ev then ebCount b - 1 else 0" "\<lambda>(_, b). closed now b" "leOverflow s"]
    by (simp add: e waiting_def in_log_def case_prod_unfold)
  ultimately show ?thesis by simp
qed

section \<open>Properties\<close>

lemma login_run_ok:
  assumes "tables_ok s" "log_ok t s" "sorted (t # map fst steps)"
  shows "tables_ok (login_run steps s) \<and> log_ok (if steps = [] then t else fst (last steps)) (login_run steps s) \<and>
    (ValidLoginEvent ev \<longrightarrow>
      in_log ev (login_run steps s) + waiting ev (login_run steps s) = in_log ev s + waiting ev s + happened ev steps)"
  using assms
proof (induction steps s arbitrary: t rule: login_run.induct)
  case (2 u p rest s)
  obtain ok s' where r: "record_event p u s = (ok, s')" by fastforce
  have "log_ok u s" using log_later [OF 2(3)] 2(4) by simp
  from record_event_ok [OF 2(2) this r, of ev] 2(1) [of u] 2(4) r show ?case by (auto simp: happened_def)
next
  case (3 u rest s)
  have "log_ok u s" using log_later [OF 3(3)] 3(4) by simp
  from sweep_ok [OF 3(2) this, of ev] 3(1) [of u] 3(4) show ?case by (auto simp: happened_def)
qed (auto simp: happened_def)

lemma new_ok: "tables_ok newLoginEvents" "log_ok t newLoginEvents" "in_log ev newLoginEvents = 0" "waiting ev newLoginEvents = 0"
  by (auto simp: tables_ok_def log_ok_def newLoginEvents_def bucket_of_def spaced_def in_log_def waiting_def split: sum.splits)

text \<open>The sweep on the way out is given a time a window ahead, by which every window is closed.\<close>

lemma final_sweep:
  assumes "\<forall>x b. bucket_of s x = Some b \<longrightarrow> ebOpened b + loginEventWindow \<le> now" "tables_ok s"
  shows "waiting ev (sweep now s) = 0"
proof -
  have d: "distinct (map fst (leBuckets s))" "distinct (map fst (leOverflow s))" using assms(2) by (simp_all add: tables_ok_def)
  have "closed now b" if "(k, b) \<in> set (leBuckets s)" for k b
    using assms(1) that map_of_is_SomeI [OF d(1) that] by (force simp: bucket_of_def closed_def dest: spec [of _ "Inl k"])
  moreover have "closed now b" if "(e, b) \<in> set (leOverflow s)" for e b
    using assms(1) that map_of_is_SomeI [OF d(2) that] by (force simp: bucket_of_def closed_def dest: spec [of _ "Inr e"])
  ultimately have "leBuckets (sweep now s) = []" "leOverflow (sweep now s) = []"
    by (auto simp: sweep_def Let_def filter_empty_conv)
  then show ?thesis by (simp add: waiting_def)
qed

text \<open>C39.  No login event is lost and no address can flood the log.  Whatever events come from whatever
  addresses, every one of a kind is in the log or waits in a window that is still open, and after
  the last sweep all are in the log; the table stays within 1,024 addresses; and two opening lines
  of one address, or of the overflow of one kind, are at least a minute apart.\<close>

theorem login_events_are_accounted:
  assumes "sorted (map fst steps)" "ValidLoginEvent ev"
  shows "in_log ev (login_run steps newLoginEvents) + waiting ev (login_run steps newLoginEvents) = happened ev steps \<and>
    length (leBuckets (login_run steps newLoginEvents)) \<le> 1024 \<and> spaced (leLog (login_run steps newLoginEvents)) \<and>
    (steps \<noteq> [] \<longrightarrow>
      in_log ev (sweep (fst (last steps) + loginEventWindow) (login_run steps newLoginEvents)) = happened ev steps)"
proof -
  let ?s = "login_run steps newLoginEvents"
  define t where "t = (if steps = [] then 0 else fst (last steps))"
  define t0 where "t0 = (if steps = [] then 0 else fst (hd steps))"
  have "sorted (t0 # map fst steps)" using assms(1) by (cases steps) (auto simp: t0_def)
  from login_run_ok [OF new_ok(1) new_ok(2) [of t0] this, of ev] assms(2)
  have r: "tables_ok ?s" "log_ok t ?s" "in_log ev ?s + waiting ev ?s = happened ev steps"
    by (auto simp: new_ok t_def t0_def split: if_splits)
  have "\<forall>x b. bucket_of ?s x = Some b \<longrightarrow> ebOpened b + loginEventWindow \<le> t + loginEventWindow"
    using r(2) by (auto simp: log_ok_def)
  from final_sweep [OF this r(1), of ev] sweep_ok [OF r(1) log_later [OF r(2), of "t + loginEventWindow"], of ev] r
  show ?thesis by (auto simp: tables_ok_def log_ok_def loginEventMaxAddrs_def loginEventWindow_def t_def)
qed

definition failed_login :: log_event_payload where
  "failed_login = \<lparr> lpEvent = ''login_failed'', lpAddr = ''203.0.113.7'', lpLeft = 0, lpProxied = False \<rparr>"

definition fourteen_failures :: "(int \<times> login_step) list" where
  "fourteen_failures = map (\<lambda>i. (int i * 1000000000, Event failed_login)) [0..<14]"

lemma fourteen_lines:
  "map (\<lambda>(_, l). line_text l) (leLog (sweep (fst (last fourteen_failures) + loginEventWindow) (login_run fourteen_failures newLoginEvents))) =
   [(''login_failed'', ''from 203.0.113.7''), (''login_failed'', ''from 203.0.113.7, 13 more within 60s'')]"
  by code_simp

theorem login_events_are_accounted_witness:
  "in_log ''login_failed''
     (sweep (fst (last fourteen_failures) + loginEventWindow) (login_run fourteen_failures newLoginEvents)) = 14"
proof -
  have "sorted (map fst fourteen_failures)" "ValidLoginEvent ''login_failed''" "fourteen_failures \<noteq> []"
    "happened ''login_failed'' fourteen_failures = 14"
    by code_simp+
  with login_events_are_accounted [of fourteen_failures "''login_failed''"] show ?thesis by simp
qed

end
