(* ===== verification/Spec2Isabelle.thy ===== *)
theory Spec2Isabelle
  imports RuleGrammar LifecycleRuns DiffRuns FeedRuns PacketRuns WebClient SignInSafety CoreSettingsRuns LoginEvents
begin

text \<open>
  A verification library for easywall, a host firewall manager.  The program is two processes.
  The privileged daemon (\<open>src/internal/core\<close>) owns the rules file, the markers and records beside
  it, the nftables table of the kernel, the copies of the feeds and the log of refused packets.
  The web process (\<open>src/internal/web\<close>) has no privileges; it signs operators in, downloads feeds and
  sends requests over a socket.  \<open>src/internal/shared\<close> holds the data model and the checks both
  use.  The theories follow that division.

  \<^bold>\<open>Ground.\<close>  \<open>Prelude\<close> and \<open>Netip\<close>, \<open>NetipText\<close> model the parts of Go's standard library the sources
  call: strings as byte lists, \<open>strings.TrimSpace\<close>, \<open>strconv\<close>, \<open>net\<close> and \<open>net/netip\<close> with their parsers
  and printers.  \<open>Models\<close> is \<open>models.go\<close>, \<open>feeds.go\<close> and \<open>countries.go\<close>: structs as records, enumerations
  as datatypes.  \<open>Prelude\<close> also has the weakest preconditions of state-monad programs, in which the
  stateful parts are written.

  \<^bold>\<open>The trust boundary.\<close>  \<open>RuleIDs\<close> (\<open>ruleid.go\<close>) and \<open>Validate\<close> (\<open>validate.go\<close>) are what a rule set passes
  before it is stored, and identifiers are handed out for every random source that keeps producing
  fresh ones.  \<open>RuleGrammar\<close> writes down what a rule set may say without these checks, ports as
  numerals, feeds by name, and shows that exactly the sets of that grammar are admitted.  \<open>Store\<close> (\<open>rules.go\<close>) is the document with
  the three copies Current, Staged and Backup and its JSON encoding; a step relation over all its
  operations, reads and writes failing as they like, keeps all three copies valid.

  \<^bold>\<open>The table.\<close>  \<open>Nft\<close> is the language of expressions the builders emit and the kernel's evaluation of
  it: registers as bytes, verdicts, jumps, named sets, limits, and a batch of netlink commands as a
  transaction.  \<open>Builders\<close>, \<open>Protections\<close>, \<open>FeedSets\<close> and \<open>Ruleset\<close> translate the builders of
  \<open>nftables.go\<close>, \<open>nftables_feeds.go\<close> and \<open>forward_family.go\<close> one by one, up to the batch one apply sends.
  \<open>Packets\<close> and \<open>Matches\<close> say what each match selects; \<open>InputPolicy\<close> is the abstract decision list, in an
  operator's terms, and \<open>InputStages\<close> (the locale \<open>input_stage\<close>, interpreted on every builder) and
  \<open>InputChain\<close> prove that the chain implements it.  The operator's custom rules are lines of \<open>nft\<close>'s own
  language that \<open>nft\<close> appends between the two flushes; what each decides is a parameter, and they
  decide only what the policy leaves open.  Theorems stated with \<open>chain_accepts\<close> are about the batch
  of the first flush, those with \<open>input_verdict\<close> about the whole input chain.  \<open>ForwardChain\<close> does the same for routed packets.
  \<open>FeedRanges\<close> and \<open>FeedKernel\<close> show that a feed's interval set holds exactly the addresses of its
  prefixes.  \<open>NftCheck\<close> (\<open>nftables_check.go\<close>) is the check in front of netlink.  The host's byte order
  is a parameter of the builders and all theorems hold for both.

  \<^bold>\<open>What the interface says.\<close>  \<open>Reach\<close> (\<open>reach.go\<close>), \<open>Diff\<close> (\<open>diff.go\<close>) and \<open>DropReason\<close> (\<open>packetlog.go\<close>) are
  the explanations given to the operator; each is held against the table of the same rules.

  \<^bold>\<open>The lifecycle.\<close>  \<open>World\<close> is the daemon's state (files, memory, kernel) and its primitive steps,
  each of which may fail and between which any other goroutine may act (\<open>env\<close> chooses both);
  \<open>Acceptance\<close> is \<open>acceptance.go\<close>; \<open>Firewall\<close> is \<open>firewall.go\<close>, \<open>restore.go\<close> and the marker files,
  program by program.  \<open>Lifecycle\<close> proves triples under the locale \<open>record_invariant\<close>; \<open>CrashSafety\<close>,
  \<open>RestoreSafety\<close> and \<open>PanicSafety\<close> are its three safety theorems, and \<open>Usage\<close> the packet counts.

  \<^bold>\<open>Settings.\<close>  \<open>CoreSettings\<close> is \<open>config.go\<close> with the environment of \<open>env.go\<close> and the forms of the network,
  options and system pages; the TOML library is a parameter.  \<open>CoreSettingsSafety\<close> shows that the
  daemon never runs out of range, that a save is what a restart reads and that page and core refuse
  the same settings, but also that the network page switches the filtering of published ports off.
  \<open>LoginEvents\<close> (\<open>loginevents.go\<close>) is the log of what happens at the door: no event is lost, no address
  floods it.

  \<^bold>\<open>Feeds.\<close>  \<open>FeedCopies\<close> (\<open>feedstore.go\<close>), \<open>FeedUpdate\<close> and \<open>FeedSafety\<close> (\<open>feeds.go\<close>) are the core's copies
  and the update under the apply slot: no feed ever blocks an address outside globally routed
  space, a refused update changes nothing but, in two named cases, the set of its own feed, and a list
  shrinks only after a day of refusals since the last accepted version.

  \<^bold>\<open>Refused packets.\<close>  \<open>PacketDecode\<close> and \<open>PacketRing\<close> (\<open>packetlog.go\<close> in both packages) decode a netlink
  message, with every index a step that can panic, keep the ring and the spill file, and answer
  queries.

  \<^bold>\<open>What is downloaded.\<close>  \<open>JsonText\<close> models \<open>encoding/json\<close> and UTF-8 as far as the sources use them, and
  \<open>FeedParse\<close> (\<open>feed_parse.go\<close>) the four formats of a list; the core reads from what is sent exactly
  the prefixes that were read from the body.

  \<^bold>\<open>Who is asking.\<close>  \<open>WebClient\<close> (\<open>clientaddr.go\<close>, \<open>middleware.go\<close>) is the address a request counts for and
  the table of login budgets; the token bucket is a library and a parameter with its documented law.
  \<open>Factors\<close> (\<open>totp.go\<close>, \<open>recovery.go\<close>) are one-time codes, recovery codes and the password policy.
  \<open>SignIn\<close> is the state of the process that decides who is signed in (sessions, intermediate states,
  counters, revocations, spent challenges) and every handler that changes it (\<open>handler_login.go\<close>,
  \<open>handler_2fa.go\<close>, \<open>handler_passkey.go\<close>, \<open>handler_password.go\<close> and the files they call).  \<open>SignInSteps\<close> makes
  a step relation of them: an authenticated request is let in at one moment and its handler runs at
  a later one, anybody presents any cookie that was ever signed, and time passes in between.
  \<open>SignInSafety\<close> has the invariants and what follows: a logout is final and three checks are three.  The
  counter of checks is a record beside the program, moved where a code or an assertion is judged.
  \<open>Factors\<close> also says what copying by hand does to a text, and that what it does is undone.
  Cookies cannot be forged and are signed anew whenever they are saved; a handler reads the clock
  once; an answer after the write timeout of the server reaches nobody; the messages shown once are
  not part of a session here.  Argon2, SHA-256, HMAC, the WebAuthn library and the Unicode tables are
  parameters.
  \<^bold>\<open>Runs.\<close>  \<open>TableRuns\<close>, \<open>LifecycleRuns\<close>, \<open>DiffRuns\<close>, \<open>FeedRuns\<close>, \<open>PacketRuns\<close> and \<open>CoreSettingsRuns\<close> hold concrete inputs on
  which the theorems are applied, and the runs that exhibit the defects found: a port written
  \<open>+80\<close> that is misreported, an edit that opens a port under an empty diff, two ways a stale
  marker undoes a confirmed set, a resume and a teardown that claim more than they did, settings the
  core saves and will not start with, an edited path the next save undoes.  \<open>SignInSafety\<close>
  has two more: a passkey challenge that is spent twice, and a last factor that two requests remove.

  \<^bold>\<open>Bounds.\<close>  A rule of the table jumps at most one level deep, so the evaluator has fuel two, and a
  lemma shows that any larger fuel gives the same verdict.  The fuel of the address parsers counts
  the eight groups an IPv6 address has room for; the walk over IPv6 extension headers stops after
  eight, which is the bound of the source.  Numbers in JSON and results of \<open>strconv.Atoi\<close> are within
  64 bits, as in the source.  A line of the spill file is an entry or a line that does not decode; its bytes are not
  modelled.  Packet totals are unbounded where the source has 64-bit counters,
  which at a packet a nanosecond last for centuries.  Everything else recurses on its input.

  \<^bold>\<open>Not modelled.\<close>  What the netlink library refuses, the random source, file and socket errors and
  the names of interfaces are parameters.  Left out are code whose content is a system call
  (network namespaces and the self-test, service notification, the log directory, TLS and ACME,
  mail and push notifications), templates, translations and page assembly, the demo client, the
  first-run wizard, the schedule of downloads, the command line and the socket transport; Docker detection, whose result is an input here; the
  health report; and the reflection over option structs in the configuration drift.
\<close>

end
